(* ===== verification/Prelude.thy ===== *)
theory Prelude
  imports Complex_Main "HOL-Library.Product_Lexorder" "HOL-Library.List_Lexorder"
    "HOL-Library.Char_ord"
begin

text \<open>
  Shared vocabulary of the development: the result type that stands for Go's
  \<open>(value, error)\<close> pairs, the ASCII string functions of package \<^verbatim>\<open>strings\<close> that the
  sources call, lists that grow by \<open>append\<close> without duplicates, and the generic list
  lemmas the component theories use.
\<close>

named_theorems gex_defs \<open>definitions a component proof unfolds\<close>
named_theorems f64_simps \<open>evaluation rules for float64 operations\<close>

section \<open>Results\<close>

text \<open>
  A Go function that returns \<open>(v, nil)\<close> or \<open>(_, err)\<close> is a value of \<open>error + 'a\<close>;
  the error is the kind of failure, the formatted message is dropped where no caller
  inspects it.
\<close>

fun bind_res :: "'e + 'a \<Rightarrow> ('a \<Rightarrow> 'e + 'b) \<Rightarrow> 'e + 'b" where
  "bind_res (Inl e) f = Inl e"
| "bind_res (Inr x) f = f x"

lemma bind_res_Inr_iff: "bind_res r f = Inr y \<longleftrightarrow> (\<exists>x. r = Inr x \<and> f x = Inr y)"
  by (cases r) auto

lemma bind_res_Inl_iff:
  "bind_res r f = Inl e \<longleftrightarrow> r = Inl e \<or> (\<exists>x. r = Inr x \<and> f x = Inl e)"
  by (cases r) auto

text \<open>A loop over a slice whose body may return early with an error.\<close>

fun fold_res :: "('a \<Rightarrow> 's \<Rightarrow> 'e + 's) \<Rightarrow> 'a list \<Rightarrow> 's \<Rightarrow> 'e + 's" where
  "fold_res f [] s = Inr s"
| "fold_res f (x # xs) s = bind_res (f x s) (fold_res f xs)"

lemma fold_res_append:
  "fold_res f (xs @ ys) s = bind_res (fold_res f xs s) (fold_res f ys)"
proof (induction xs arbitrary: s)
  case Nil
  show ?case by simp
next
  case (Cons x xs)
  then show ?case by (cases "f x s") simp_all
qed

lemma fold_res_total:
  "(\<And>x s. x \<in> set xs \<Longrightarrow> f x s = Inr (g x s)) \<Longrightarrow> fold_res f xs s = Inr (fold g xs s)"
  by (induction xs arbitrary: s) simp_all

lemma fold_res_skip:
  assumes "\<And>x s. x \<in> set xs \<Longrightarrow> \<not> P x \<Longrightarrow> f x s = Inr s"
  shows "fold_res f xs s = fold_res f (filter P xs) s"
  using assms
proof (induction xs arbitrary: s)
  case Nil
  show ?case by simp
next
  case (Cons x xs)
  then have IH: "\<And>s. fold_res f xs s = fold_res f (filter P xs) s" by simp
  show ?case
  proof (cases "P x")
    case True
    then show ?thesis using IH by (cases "f x s") simp_all
  next
    case False
    with Cons.prems [of x s] IH show ?thesis by simp
  qed
qed

text \<open>A loop that appends one result per element and returns early on the first error.\<close>

fun map_res :: "('a \<Rightarrow> 'e + 'b) \<Rightarrow> 'a list \<Rightarrow> 'e + 'b list" where
  "map_res f [] = Inr []"
| "map_res f (x # xs) = bind_res (f x) (\<lambda>y. bind_res (map_res f xs) (\<lambda>ys. Inr (y # ys)))"

lemma map_res_Inr_iff:
  "map_res f xs = Inr ys \<longleftrightarrow> map f xs = map Inr ys"
proof (induction xs arbitrary: ys)
  case Nil
  show ?case by auto
next
  case (Cons x xs)
  then show ?case by (cases ys) (auto simp: bind_res_Inr_iff)
qed

lemma map_res_total: "(\<And>x. x \<in> set xs \<Longrightarrow> f x = Inr (g x)) \<Longrightarrow> map_res f xs = Inr (map g xs)"
  by (induction xs) simp_all

section \<open>Strings\<close>

text \<open>
  \<^verbatim>\<open>strings.ToUpper\<close> and \<^verbatim>\<open>strings.TrimSpace\<close> on ASCII text: tickers, trading classes,
  rights and settlement codes. A byte outside ASCII is left as it is.
\<close>

definition upper_char :: "char \<Rightarrow> char" where
  "upper_char c = (if CHR ''a'' \<le> c \<and> c \<le> CHR ''z'' then char_of (of_char c - 32 :: nat) else c)"

definition ToUpper :: "string \<Rightarrow> string" where
  "ToUpper s = map upper_char s"

definition is_space :: "char \<Rightarrow> bool" where
  "is_space c \<longleftrightarrow> c \<in> {CHR '' '', CHR 0x09, CHR 0x0A, CHR 0x0B, CHR 0x0C, CHR 0x0D}"

definition TrimSpace :: "string \<Rightarrow> string" where
  "TrimSpace s = rev (dropWhile is_space (rev (dropWhile is_space s)))"

lemma upper_char_idem [simp]: "upper_char (upper_char c) = upper_char c"
proof (cases "CHR ''a'' \<le> c \<and> c \<le> CHR ''z''")
  case True
  then have "97 \<le> (of_char c :: nat)" "(of_char c :: nat) \<le> 122"
    by (simp_all add: less_eq_char_def)
  then have "(of_char (char_of (of_char c - 32 :: nat)) :: nat) = of_char c - 32"
    by simp
  with True \<open>97 \<le> of_char c\<close> \<open>of_char c \<le> 122\<close> show ?thesis
    by (auto simp: upper_char_def less_eq_char_def)
next
  case False
  then have "upper_char c = c" by (auto simp: upper_char_def)
  then show ?thesis by simp
qed

lemma ToUpper_idem [simp]: "ToUpper (ToUpper s) = ToUpper s"
  by (simp add: ToUpper_def)

lemma ToUpper_Nil [simp]: "ToUpper s = [] \<longleftrightarrow> s = []"
  by (simp add: ToUpper_def)

lemma length_ToUpper [simp]: "length (ToUpper s) = length s"
  by (simp add: ToUpper_def)

lemma upper_char_not_space: "is_space (upper_char c) = is_space c"
proof (cases "CHR ''a'' \<le> c \<and> c \<le> CHR ''z''")
  case True
  then have r: "97 \<le> (of_char c :: nat)" "(of_char c :: nat) \<le> 122"
    by (simp_all add: less_eq_char_def)
  then have "(of_char (upper_char c) :: nat) = of_char c - 32"
    using True by (simp add: upper_char_def)
  then have u: "33 < (of_char (upper_char c) :: nat)" using r by simp
  have n: "\<not> is_space d" if "33 < (of_char d :: nat)" for d
    using that by (auto simp: is_space_def)
  have "\<not> is_space c" using r n by simp
  moreover have "\<not> is_space (upper_char c)" using u n by simp
  ultimately show ?thesis by simp
next
  case False
  then show ?thesis by (auto simp: upper_char_def)
qed

lemma TrimSpace_ToUpper: "TrimSpace (ToUpper s) = ToUpper (TrimSpace s)"
proof -
  have c: "is_space \<circ> upper_char = is_space"
    by (simp add: fun_eq_iff upper_char_not_space)
  show ?thesis
    by (simp add: TrimSpace_def ToUpper_def dropWhile_map c rev_map)
qed

lemma TrimSpace_idem [simp]: "TrimSpace (TrimSpace s) = TrimSpace s"
proof -
  define t where "t = dropWhile is_space (rev (dropWhile is_space s))"
  have t0: "rev t = TrimSpace s" by (simp add: TrimSpace_def t_def)
  have hd: "dropWhile is_space (rev t) = rev t"
  proof (cases "rev t")
    case Nil
    then show ?thesis by simp
  next
    case (Cons a as)
    obtain p where p: "rev (dropWhile is_space s) = p @ t"
      unfolding t_def by (metis takeWhile_dropWhile_id)
    then have "dropWhile is_space s = rev t @ rev p" by (metis rev_append rev_rev_ident)
    with Cons have "dropWhile is_space s = a # as @ rev p" by simp
    then have "\<not> is_space a" by (metis hd_dropWhile list.distinct(1) list.sel(1))
    with Cons show ?thesis by simp
  qed
  have tl: "dropWhile is_space t = t"
    unfolding t_def by simp
  show ?thesis unfolding t0 [symmetric] by (simp add: TrimSpace_def hd tl)
qed

section \<open>Append without duplicates\<close>

text \<open>
  The idiom \<open>if _, dup := seen[x]; dup { continue }; out = append(out, x)\<close>: the distinct
  elements in order of first occurrence.
\<close>

fun firsts :: "'a list \<Rightarrow> 'a list \<Rightarrow> 'a list" where
  "firsts seen [] = []"
| "firsts seen (x # xs) =
     (if x \<in> set seen then firsts seen xs else x # firsts (x # seen) xs)"

lemma set_firsts: "set (firsts seen xs) = set xs - set seen"
  by (induction seen xs rule: firsts.induct) auto

lemma distinct_firsts: "distinct (firsts seen xs)"
  by (induction seen xs rule: firsts.induct) (auto simp: set_firsts)

lemma firsts_cong_set: "set s = set t \<Longrightarrow> firsts s xs = firsts t xs"
proof (induction xs arbitrary: s t)
  case Nil
  show ?case by simp
next
  case (Cons x xs)
  have "set (x # s) = set (x # t)" using Cons.prems by simp
  from Cons.IH [OF this] Cons.IH [OF Cons.prems] Cons.prems show ?case by simp
qed

lemma firsts_snoc:
  "firsts seen (xs @ [y]) =
     firsts seen xs @ (if y \<in> set seen \<union> set xs then [] else [y])"
  by (induction seen xs rule: firsts.induct) auto

lemma length_firsts_le: "length (firsts seen xs) \<le> length xs"
  by (induction seen xs rule: firsts.induct) auto

section \<open>List lemmas\<close>

lemma fold_snoc: "fold f (xs @ [x]) s = f x (fold f xs s)"
  by simp

lemma list_all_filter: "list_all P (filter P xs)"
  by (simp add: list_all_iff)


text \<open>The first hit of a search through a sorted list is the least hit.\<close>

lemma find_sorted_Min:
  fixes xs :: "'a::linorder list"
  assumes "sorted xs"
  shows "find P xs = (if {t \<in> set xs. P t} = {} then None else Some (Min {t \<in> set xs. P t}))"
  using assms
proof (induction xs)
  case Nil
  show ?case by simp
next
  case (Cons x xs)
  show ?case
  proof (cases "P x")
    case True
    have "Min {t \<in> set (x # xs). P t} = x"
      using Cons.prems True by (intro Min_eqI) auto
    then show ?thesis using True by auto
  next
    case False
    then have "{t \<in> set (x # xs). P t} = {t \<in> set xs. P t}" by auto
    with False Cons show ?thesis by simp
  qed
qed

lemma find_Some_in: "find P xs = Some y \<Longrightarrow> y \<in> set xs \<and> P y"
  by (induction xs) (auto split: if_splits)

lemma sort_distinct_set: "distinct xs \<Longrightarrow> sort xs = sorted_list_of_set (set xs)"
  by (metis distinct_remdups_id sorted_list_of_set_sort_remdups)

end
