(* ===== verification/Float64.thy ===== *)
theory Float64
  imports Prelude
begin

text \<open>
  Go's \<^verbatim>\<open>float64\<close>: IEEE 754 binary64 with round-to-nearest-even. A finite value is its
  real number, the special values are explicit, and every arithmetic operation rounds
  the exact real result: 53 significant bits, the exponent range of binary64,
  gradual underflow, overflow to an infinity. The sign of zero is not represented: no
  comparison of the sources observes it, and a division by zero takes the sign of its
  dividend. Products and sums are rounded separately (no fused multiply-add), as the
  Go compiler does on amd64. \<^verbatim>\<open>math.Exp\<close>, \<^verbatim>\<open>math.Log\<close>, \<^verbatim>\<open>math.Pow\<close> and \<^verbatim>\<open>math.Erf\<close> are the
  correctly rounded real functions; the library's own error below one unit in the last
  place is not modelled.
\<close>

section \<open>Rounding a real number\<close>

definition round_even :: "real \<Rightarrow> int" where
  "round_even x =
     (let f = \<lfloor>x\<rfloor>; d = x - of_int f
      in if d < 1/2 then f else if d > 1/2 then f + 1 else if even f then f else f + 1)"

definition ulp_exp :: "real \<Rightarrow> int" where
  "ulp_exp x = max (\<lfloor>log 2 \<bar>x\<bar>\<rfloor> - 52) (- 1074)"

definition rnd_real :: "real \<Rightarrow> real" where
  "rnd_real x =
     (if x = 0 then 0
      else of_int (round_even (x / 2 powi ulp_exp x)) * 2 powi ulp_exp x)"

definition max_finite :: real where
  "max_finite = (2 ^ 53 - 1) * 2 ^ 971"

datatype f64 = Fin real | PInf | NInf | NaN

definition rnd :: "real \<Rightarrow> f64" where
  "rnd x = (let r = rnd_real x
            in if r > max_finite then PInf else if r < - max_finite then NInf else Fin r)"

subsection \<open>Rounding to an integer\<close>

lemma round_even_of_int [simp]: "round_even (of_int k) = k"
  by (simp add: round_even_def Let_def)

lemma round_even_bounds: "\<lfloor>x\<rfloor> \<le> round_even x \<and> round_even x \<le> \<lfloor>x\<rfloor> + 1"
  by (simp add: round_even_def Let_def)

lemma round_even_mono: assumes "x \<le> y" shows "round_even x \<le> round_even y"
proof -
  have fl: "\<lfloor>x\<rfloor> \<le> \<lfloor>y\<rfloor>" using assms by (rule floor_mono)
  show ?thesis
  proof (cases "\<lfloor>x\<rfloor> = \<lfloor>y\<rfloor>")
    case True
    then have "x - of_int \<lfloor>x\<rfloor> \<le> y - of_int \<lfloor>y\<rfloor>" using assms by simp
    with True show ?thesis by (simp add: round_even_def Let_def)
  next
    case False
    with fl have "\<lfloor>x\<rfloor> + 1 \<le> \<lfloor>y\<rfloor>" by simp
    with round_even_bounds [of x] round_even_bounds [of y] show ?thesis by linarith
  qed
qed

lemma round_even_minus: "round_even (- x) = - round_even x"
proof (cases "x = of_int \<lfloor>x\<rfloor>")
  case True
  then show ?thesis by (metis of_int_minus round_even_of_int)
next
  case False
  let ?f = "\<lfloor>x\<rfloor>"
  have fm: "\<lfloor>- x\<rfloor> = - ?f - 1"
    using False by (metis ceiling_altdef ceiling_def minus_diff_eq minus_minus diff_minus_eq_add
        add.inverse_distrib_swap uminus_add_conv_diff)
  have d: "- x - of_int \<lfloor>- x\<rfloor> = 1 - (x - of_int ?f)" by (simp add: fm)
  have lt: "0 < x - of_int ?f" using False by (simp add: less_le)
  show ?thesis unfolding round_even_def Let_def d fm using lt by auto
qed

lemma round_even_half: "\<bar>of_int (round_even x) - x\<bar> \<le> 1 / 2"
proof -
  have a: "of_int \<lfloor>x\<rfloor> \<le> x" "x < of_int \<lfloor>x\<rfloor> + 1" by linarith+
  show ?thesis unfolding round_even_def Let_def using a by auto
qed

subsection \<open>Rounding to 53 bits\<close>

lemma powi_pos [simp]: "0 < (2 :: real) powi k"
  by simp

lemma rnd_real_0 [simp]: "rnd_real 0 = 0"
  by (simp add: rnd_real_def)

lemma ulp_exp_minus [simp]: "ulp_exp (- x) = ulp_exp x"
  by (simp add: ulp_exp_def)

lemma rnd_real_minus: "rnd_real (- x) = - rnd_real x"
  by (simp add: rnd_real_def round_even_minus)

lemma log2_floor_bounds:
  assumes "0 < x"
  shows "2 powi \<lfloor>log 2 x\<rfloor> \<le> x" "x < 2 powi (\<lfloor>log 2 x\<rfloor> + 1)"
proof -
  have p: "(2::real) powi k = 2 powr of_int k" for k by (simp add: powr_real_of_int')
  have e: "2 powr log 2 x = x" using assms by simp
  have "(2::real) powr of_int \<lfloor>log 2 x\<rfloor> \<le> 2 powr log 2 x" by (simp add: powr_mono)
  then show "2 powi \<lfloor>log 2 x\<rfloor> \<le> x" using e p by simp
  have "(2::real) powr log 2 x < 2 powr of_int (\<lfloor>log 2 x\<rfloor> + 1)"
    by (rule powr_less_mono) linarith+
  then show "x < 2 powi (\<lfloor>log 2 x\<rfloor> + 1)" using e p by metis
qed

lemma powi_mono: "j \<le> k \<Longrightarrow> (2::real) powi j \<le> 2 powi k"
  by (simp add: power_int_increasing)

lemma ulp_exp_upper:
  assumes "0 < x" shows "x < 2 powi (ulp_exp x + 53)"
proof -
  have "x < 2 powi (\<lfloor>log 2 x\<rfloor> + 1)" using assms by (rule log2_floor_bounds)
  also have "\<dots> \<le> 2 powi (ulp_exp x + 53)"
    using assms by (intro powi_mono) (simp add: ulp_exp_def)
  finally show ?thesis .
qed

lemma ulp_exp_lower:
  assumes "0 < x" "- 1074 < ulp_exp x" shows "2 powi (ulp_exp x + 52) \<le> x"
proof -
  have "ulp_exp x = \<lfloor>log 2 x\<rfloor> - 52" using assms by (simp add: ulp_exp_def max_def split: if_splits)
  then show ?thesis using log2_floor_bounds(1) [OF assms(1)] by simp
qed

lemma ulp_exp_mono: assumes "0 < x" "x \<le> y" shows "ulp_exp x \<le> ulp_exp y"
proof -
  have "log 2 x \<le> log 2 y" using assms by simp
  then have "\<lfloor>log 2 x\<rfloor> \<le> \<lfloor>log 2 y\<rfloor>" by (rule floor_mono)
  then show ?thesis using assms by (simp add: ulp_exp_def)
qed

lemma rnd_real_pos_eq:
  "0 < x \<Longrightarrow> rnd_real x = of_int (round_even (x / 2 powi ulp_exp x)) * 2 powi ulp_exp x"
  by (simp add: rnd_real_def)

lemma powi_split: "(2::real) powi (j + k) = 2 powi j * 2 powi k"
  by (simp add: power_int_add)

lemma powi_nat: "(2::real) powi (int n) = 2 ^ n"
  by simp

lemma powi_53: "(2::real) powi (e + 53) / 2 powi e = of_int (2 ^ 53)"
proof -
  have "(2::real) powi 53 = of_int (2 ^ 53)" using powi_nat [of 53] by simp
  then show ?thesis by (simp add: powi_split)
qed

lemma powi_52: "(2::real) powi (e + 52) / 2 powi e = of_int (2 ^ 52)"
proof -
  have "(2::real) powi 52 = of_int (2 ^ 52)" using powi_nat [of 52] by simp
  then show ?thesis by (simp add: powi_split)
qed

lemma rnd_real_le_binade:
  assumes "0 < x" shows "rnd_real x \<le> 2 powi (ulp_exp x + 53)"
proof -
  let ?e = "ulp_exp x"
  have "x / 2 powi ?e \<le> 2 powi (?e + 53) / 2 powi ?e"
    using ulp_exp_upper [OF assms] by (intro divide_right_mono) simp_all
  then have "round_even (x / 2 powi ?e) \<le> round_even (of_int (2 ^ 53))"
    unfolding powi_53 by (rule round_even_mono)
  then have "round_even (x / 2 powi ?e) \<le> 2 ^ 53" unfolding round_even_of_int .
  then have "(of_int (round_even (x / 2 powi ?e)) :: real) \<le> of_int (2 ^ 53)"
    by (simp only: of_int_le_iff)
  then have "of_int (round_even (x / 2 powi ?e)) * 2 powi ?e \<le> of_int (2 ^ 53) * (2 powi ?e :: real)"
    by (intro mult_right_mono) simp_all
  also have "\<dots> = 2 powi (?e + 53)" unfolding powi_53 [of ?e, symmetric] by simp
  finally show ?thesis by (simp add: rnd_real_pos_eq [OF assms])
qed

lemma rnd_real_ge_binade:
  assumes "0 < x" "- 1074 < ulp_exp x" shows "2 powi (ulp_exp x + 52) \<le> rnd_real x"
proof -
  let ?e = "ulp_exp x"
  have "2 powi (?e + 52) / 2 powi ?e \<le> x / 2 powi ?e"
    using ulp_exp_lower [OF assms] by (intro divide_right_mono) simp_all
  then have "round_even (of_int (2 ^ 52)) \<le> round_even (x / 2 powi ?e)"
    unfolding powi_52 by (rule round_even_mono)
  then have "2 ^ 52 \<le> round_even (x / 2 powi ?e)" unfolding round_even_of_int .
  then have "(of_int (2 ^ 52) :: real) \<le> of_int (round_even (x / 2 powi ?e))"
    by (simp only: of_int_le_iff)
  then have "of_int (2 ^ 52) * (2 powi ?e :: real) \<le> of_int (round_even (x / 2 powi ?e)) * 2 powi ?e"
    by (intro mult_right_mono) simp_all
  moreover have "of_int (2 ^ 52) * (2 powi ?e :: real) = 2 powi (?e + 52)"
    unfolding powi_52 [of ?e, symmetric] by simp
  ultimately show ?thesis by (simp only: rnd_real_pos_eq [OF assms(1)])
qed

lemma rnd_real_nonneg: "0 \<le> x \<Longrightarrow> 0 \<le> rnd_real x"
proof (cases "x = 0")
  case False
  assume "0 \<le> x"
  with False have "0 < x" by simp
  then have "0 \<le> x / 2 powi ulp_exp x" by simp
  then have "round_even (of_int 0) \<le> round_even (x / 2 powi ulp_exp x)"
    by (intro round_even_mono) simp
  then have "0 \<le> round_even (x / 2 powi ulp_exp x)" unfolding round_even_of_int .
  then show ?thesis using \<open>0 < x\<close> by (simp add: rnd_real_pos_eq)
qed simp

lemma rnd_real_mono_pos: assumes "0 < x" "x \<le> y" shows "rnd_real x \<le> rnd_real y"
proof -
  have y: "0 < y" using assms by simp
  have le: "ulp_exp x \<le> ulp_exp y" using assms by (rule ulp_exp_mono)
  show ?thesis
  proof (cases "ulp_exp x = ulp_exp y")
    case True
    have "x / 2 powi ulp_exp y \<le> y / 2 powi ulp_exp y"
      using assms by (intro divide_right_mono) simp_all
    then have "round_even (x / 2 powi ulp_exp y) \<le> round_even (y / 2 powi ulp_exp y)"
      by (rule round_even_mono)
    then show ?thesis
      by (simp add: rnd_real_pos_eq [OF assms(1)] rnd_real_pos_eq [OF y] True mult_right_mono)
  next
    case False
    have gt: "- 1074 < ulp_exp y"
    proof -
      have "- 1074 \<le> ulp_exp x" by (simp add: ulp_exp_def)
      with False le show ?thesis by simp
    qed
    have "rnd_real x \<le> 2 powi (ulp_exp x + 53)" by (rule rnd_real_le_binade [OF assms(1)])
    also have "\<dots> \<le> 2 powi (ulp_exp y + 52)" using False le by (intro powi_mono) simp
    also have "\<dots> \<le> rnd_real y" by (rule rnd_real_ge_binade [OF y gt])
    finally show ?thesis .
  qed
qed

lemma rnd_real_mono: assumes "x \<le> y" shows "rnd_real x \<le> rnd_real y"
proof -
  consider "0 < x" | "x \<le> 0" "0 \<le> y" | "y < 0" using assms by linarith
  then show ?thesis
  proof cases
    case 1
    then show ?thesis using assms by (rule rnd_real_mono_pos)
  next
    case 2
    have "0 \<le> rnd_real (- x)" using 2 by (intro rnd_real_nonneg) simp
    moreover have "0 \<le> rnd_real y" using 2 by (intro rnd_real_nonneg)
    ultimately show ?thesis by (simp add: rnd_real_minus)
  next
    case 3
    have "rnd_real (- y) \<le> rnd_real (- x)"
      using 3 assms by (intro rnd_real_mono_pos) simp_all
    then show ?thesis by (simp add: rnd_real_minus)
  qed
qed


subsection \<open>Values that are not rounded\<close>

lemma rnd_real_exact_strict:
  assumes "\<bar>m\<bar> < 2 ^ 53" "- 1074 \<le> k"
  shows "rnd_real (of_int m * 2 powi k) = of_int m * 2 powi k"
proof (cases "m = 0")
  case False
  let ?x = "of_int m * 2 powi k :: real"
  have x0: "0 < \<bar>?x\<bar>" using False by (simp add: abs_mult)
  have "2 powi \<lfloor>log 2 \<bar>?x\<bar>\<rfloor> \<le> \<bar>?x\<bar>" by (rule log2_floor_bounds [OF x0])
  also have "\<bar>?x\<bar> < of_int (2 ^ 53) * 2 powi k"
  proof -
    have "(of_int \<bar>m\<bar> :: real) < of_int (2 ^ 53)" using assms(1) by (simp only: of_int_less_iff)
    then show ?thesis by (simp add: abs_mult)
  qed
  also have "\<dots> = 2 powi (k + 53)" unfolding powi_53 [of k, symmetric] by simp
  finally have "(2::real) powi \<lfloor>log 2 \<bar>?x\<bar>\<rfloor> < 2 powi (k + 53)" .
  then have "\<lfloor>log 2 \<bar>?x\<bar>\<rfloor> < k + 53"
    by (meson not_less powi_mono)
  then have e: "ulp_exp ?x \<le> k" using assms(2) by (simp add: ulp_exp_def)
  define j where "j = nat (k - ulp_exp ?x)"
  have k: "k = ulp_exp ?x + int j" using e by (simp add: j_def)
  have "?x / 2 powi ulp_exp ?x = of_int (m * 2 ^ j)"
    by (subst (1) k) (simp add: powi_split)
  then have "round_even (?x / 2 powi ulp_exp ?x) = m * 2 ^ j"
    by (metis round_even_of_int)
  moreover have "of_int (m * 2 ^ j) * 2 powi ulp_exp ?x = ?x"
    by (subst (2) k) (simp add: powi_split)
  ultimately show ?thesis using x0 by (simp add: rnd_real_def del: of_int_mult)
qed simp

lemma rnd_real_exact:
  assumes "\<bar>m\<bar> \<le> 2 ^ 53" "- 1074 \<le> k"
  shows "rnd_real (of_int m * 2 powi k) = of_int m * 2 powi k"
proof (cases "\<bar>m\<bar> = 2 ^ 53")
  case True
  then obtain s :: int where s: "m = s * 2 ^ 53" "\<bar>s\<bar> = 1"
    by (cases "m \<ge> 0") (auto intro: that [of 1] that [of "-1"])
  have "of_int m * 2 powi k = of_int (s * 2 ^ 52) * (2 powi (k + 1) :: real)"
    by (simp add: s(1) powi_split)
  moreover have "\<bar>s * 2 ^ 52\<bar> < 2 ^ 53" by (simp add: abs_mult s(2))
  ultimately show ?thesis using rnd_real_exact_strict [of "s * 2 ^ 52" "k + 1"] assms(2) by simp
next
  case False
  then show ?thesis using rnd_real_exact_strict assms by simp
qed

lemma rnd_real_of_int: "\<bar>k\<bar> \<le> 2 ^ 53 \<Longrightarrow> rnd_real (of_int k) = of_int k"
  using rnd_real_exact [of k 0] by simp

lemma rnd_real_dyadic:
  "\<bar>k\<bar> \<le> 2 ^ 53 \<Longrightarrow> n \<le> 1074 \<Longrightarrow> rnd_real (of_int k / 2 ^ n) = of_int k / 2 ^ n"
  using rnd_real_exact [of k "- int n"] by (simp add: power_int_minus divide_inverse)


text \<open>A rounded value has at most 53 significant bits, so its double is exact.\<close>

lemma rnd_real_form:
  "\<exists>m k. rnd_real x = of_int m * 2 powi k \<and> \<bar>m\<bar> \<le> 2 ^ 53 \<and> - 1074 \<le> k"
proof (cases "x = 0")
  case True
  then show ?thesis by (intro exI [of _ 0]) simp
next
  case False
  let ?e = "ulp_exp x" and ?m = "round_even (x / 2 powi ulp_exp x)"
  have b: "rnd_real \<bar>x\<bar> \<le> 2 powi (?e + 53)"
    using rnd_real_le_binade [of "\<bar>x\<bar>"] False by (simp add: ulp_exp_def)
  have "\<bar>of_int ?m * 2 powi ?e :: real\<bar> \<le> 2 powi (?e + 53)"
    using b False rnd_real_minus [of x] rnd_real_nonneg [of x] rnd_real_nonneg [of "- x"]
    by (cases "0 \<le> x") (simp_all add: rnd_real_def)
  then have "of_int \<bar>?m\<bar> * 2 powi ?e \<le> (2::real) powi (?e + 53)" by (simp add: abs_mult)
  then have "(of_int \<bar>?m\<bar> :: real) \<le> 2 powi (?e + 53) / 2 powi ?e" by (simp add: pos_le_divide_eq)
  then have "\<bar>?m\<bar> \<le> 2 ^ 53" unfolding powi_53 by (simp only: of_int_le_iff)
  moreover have "- 1074 \<le> ?e" by (simp add: ulp_exp_def)
  ultimately show ?thesis using False by (intro exI [of _ ?m] exI [of _ ?e]) (simp add: rnd_real_def)
qed

lemma rnd_real_double: "rnd_real (2 * rnd_real x) = 2 * rnd_real x"
proof -
  obtain m k where f: "rnd_real x = of_int m * 2 powi k" "\<bar>m\<bar> \<le> 2 ^ 53" "- 1074 \<le> k"
    using rnd_real_form by blast
  have "2 * rnd_real x = of_int m * 2 powi (k + 1)" by (simp add: f(1) powi_split)
  moreover have "rnd_real (of_int m * 2 powi (k + 1)) = of_int m * 2 powi (k + 1)"
    using f by (intro rnd_real_exact) simp_all
  ultimately show ?thesis by (simp only:)
qed

lemma rnd_real_idem: "rnd_real (rnd_real x) = rnd_real x"
proof -
  obtain m k where f: "rnd_real x = of_int m * 2 powi k" "\<bar>m\<bar> \<le> 2 ^ 53" "- 1074 \<le> k"
    using rnd_real_form by blast
  then show ?thesis using rnd_real_exact [of m k] by simp
qed

section \<open>The operations of float64\<close>

text \<open>
  The comparison operators of Go are false on a NaN, and \<open>==\<close> is too: \<open>feq\<close>. On other
  values \<open>feq\<close> is equality, which is also how a map with \<^verbatim>\<open>float64\<close> keys compares them.
\<close>

definition feq :: "f64 \<Rightarrow> f64 \<Rightarrow> bool" where
  "feq a b \<longleftrightarrow> a \<noteq> NaN \<and> a = b"

definition finite64 :: "f64 \<Rightarrow> bool" where
  "finite64 a \<longleftrightarrow> (case a of Fin _ \<Rightarrow> True | _ \<Rightarrow> False)"

definition sgn_inf :: "real \<Rightarrow> f64" where
  "sgn_inf x = (if x > 0 then PInf else if x < 0 then NInf else NaN)"

instantiation f64 :: "{zero, one, uminus, abs, plus, minus, times, inverse, ord}"
begin

definition zero_f64 :: f64 where "zero_f64 = Fin 0"
definition one_f64 :: f64 where "one_f64 = Fin 1"

fun uminus_f64 :: "f64 \<Rightarrow> f64" where
  "uminus_f64 (Fin x) = Fin (- x)"
| "uminus_f64 PInf = NInf"
| "uminus_f64 NInf = PInf"
| "uminus_f64 NaN = NaN"

fun abs_f64 :: "f64 \<Rightarrow> f64" where
  "abs_f64 (Fin x) = Fin \<bar>x\<bar>"
| "abs_f64 PInf = PInf"
| "abs_f64 NInf = PInf"
| "abs_f64 NaN = NaN"

fun plus_f64 :: "f64 \<Rightarrow> f64 \<Rightarrow> f64" where
  "plus_f64 (Fin x) (Fin y) = rnd (x + y)"
| "plus_f64 NaN _ = NaN"
| "plus_f64 _ NaN = NaN"
| "plus_f64 PInf NInf = NaN"
| "plus_f64 NInf PInf = NaN"
| "plus_f64 PInf _ = PInf"
| "plus_f64 NInf _ = NInf"
| "plus_f64 _ PInf = PInf"
| "plus_f64 _ NInf = NInf"

definition minus_f64 :: "f64 \<Rightarrow> f64 \<Rightarrow> f64" where
  "minus_f64 a b = a + (- b)"

fun times_f64 :: "f64 \<Rightarrow> f64 \<Rightarrow> f64" where
  "times_f64 (Fin x) (Fin y) = rnd (x * y)"
| "times_f64 NaN _ = NaN"
| "times_f64 _ NaN = NaN"
| "times_f64 (Fin x) PInf = sgn_inf x"
| "times_f64 (Fin x) NInf = sgn_inf (- x)"
| "times_f64 PInf (Fin y) = sgn_inf y"
| "times_f64 NInf (Fin y) = sgn_inf (- y)"
| "times_f64 PInf PInf = PInf"
| "times_f64 NInf NInf = PInf"
| "times_f64 PInf NInf = NInf"
| "times_f64 NInf PInf = NInf"

fun divide_f64 :: "f64 \<Rightarrow> f64 \<Rightarrow> f64" where
  "divide_f64 (Fin x) (Fin y) = (if y = 0 then sgn_inf x else rnd (x / y))"
| "divide_f64 (Fin _) NaN = NaN"
| "divide_f64 (Fin _) _ = Fin 0"
| "divide_f64 PInf (Fin y) = (if y < 0 then NInf else PInf)"
| "divide_f64 NInf (Fin y) = (if y < 0 then PInf else NInf)"
| "divide_f64 _ _ = NaN"

definition inverse_f64 :: "f64 \<Rightarrow> f64" where
  "inverse_f64 a = divide (Fin 1) a"

fun less_eq_f64 :: "f64 \<Rightarrow> f64 \<Rightarrow> bool" where
  "less_eq_f64 (Fin x) (Fin y) = (x \<le> y)"
| "less_eq_f64 NaN _ = False"
| "less_eq_f64 _ NaN = False"
| "less_eq_f64 NInf _ = True"
| "less_eq_f64 _ PInf = True"
| "less_eq_f64 _ _ = False"

definition less_f64 :: "f64 \<Rightarrow> f64 \<Rightarrow> bool" where
  "less_f64 a b \<longleftrightarrow> a \<le> b \<and> \<not> b \<le> a"

instance ..

end

text \<open>A constant of the source, and \<^verbatim>\<open>float64(n)\<close> for an integer.\<close>

abbreviation lit :: "real \<Rightarrow> f64" where
  "lit \<equiv> rnd"

definition f64_of_int :: "int \<Rightarrow> f64" where
  "f64_of_int k = rnd (of_int k)"

subsection \<open>Package math and the built-in min and max\<close>

definition math_Max :: "f64 \<Rightarrow> f64 \<Rightarrow> f64" where
  "math_Max a b =
     (if a = PInf \<or> b = PInf then PInf else if a = NaN \<or> b = NaN then NaN
      else if a < b then b else a)"

definition math_Min :: "f64 \<Rightarrow> f64 \<Rightarrow> f64" where
  "math_Min a b =
     (if a = NInf \<or> b = NInf then NInf else if a = NaN \<or> b = NaN then NaN
      else if b < a then b else a)"

definition go_max :: "f64 \<Rightarrow> f64 \<Rightarrow> f64" where
  "go_max a b = (if a = NaN \<or> b = NaN then NaN else if a < b then b else a)"

definition go_min :: "f64 \<Rightarrow> f64 \<Rightarrow> f64" where
  "go_min a b = (if a = NaN \<or> b = NaN then NaN else if b < a then b else a)"

fun math_Sqrt :: "f64 \<Rightarrow> f64" where
  "math_Sqrt (Fin x) = (if x < 0 then NaN else rnd (sqrt x))"
| "math_Sqrt PInf = PInf"
| "math_Sqrt _ = NaN"

fun math_Exp :: "f64 \<Rightarrow> f64" where
  "math_Exp (Fin x) = rnd (exp x)"
| "math_Exp PInf = PInf"
| "math_Exp NInf = Fin 0"
| "math_Exp NaN = NaN"

fun math_Log :: "f64 \<Rightarrow> f64" where
  "math_Log (Fin x) = (if x < 0 then NaN else if x = 0 then NInf else rnd (ln x))"
| "math_Log PInf = PInf"
| "math_Log _ = NaN"

text \<open>
  \<^verbatim>\<open>math.Pow\<close> with the special cases of its documentation, zero being positive.
\<close>

definition is_odd_real :: "real \<Rightarrow> bool" where
  "is_odd_real e \<longleftrightarrow> of_int \<lfloor>e\<rfloor> = e \<and> odd \<lfloor>e\<rfloor>"

definition pow_inf :: "bool \<Rightarrow> real \<Rightarrow> f64" where
  "pow_inf up b = (if \<bar>b\<bar> = 1 then Fin 1 else if (1 < \<bar>b\<bar>) = up then PInf else Fin 0)"

definition math_Pow :: "f64 \<Rightarrow> f64 \<Rightarrow> f64" where
  "math_Pow x y =
     (if y = Fin 0 \<or> x = Fin 1 then Fin 1
      else if y = Fin 1 then x
      else case (x, y) of
        (Fin b, Fin e) \<Rightarrow>
          if b = 0 then (if e < 0 then PInf else Fin 0)
          else if 0 < b then rnd (b powr e)
          else if of_int \<lfloor>e\<rfloor> = e then rnd (b powi \<lfloor>e\<rfloor>) else NaN
      | (Fin b, PInf) \<Rightarrow> pow_inf True b
      | (Fin b, NInf) \<Rightarrow> pow_inf False b
      | (PInf, Fin e) \<Rightarrow> if e < 0 then Fin 0 else PInf
      | (PInf, PInf) \<Rightarrow> PInf | (PInf, NInf) \<Rightarrow> Fin 0
      | (NInf, Fin e) \<Rightarrow> if e < 0 then Fin 0 else if is_odd_real e then NInf else PInf
      | (NInf, PInf) \<Rightarrow> PInf | (NInf, NInf) \<Rightarrow> Fin 0
      | _ \<Rightarrow> NaN)"

text \<open>\<^verbatim>\<open>math.Erf\<close>, by the Maclaurin series of the error function.\<close>

definition erf_real :: "real \<Rightarrow> real" where
  "erf_real x = 2 / sqrt pi * (\<Sum>n. (- 1) ^ n * x ^ (2 * n + 1) / (fact n * of_nat (2 * n + 1)))"

fun math_Erf :: "f64 \<Rightarrow> f64" where
  "math_Erf (Fin x) = rnd (erf_real x)"
| "math_Erf PInf = Fin 1"
| "math_Erf NInf = Fin (- 1)"
| "math_Erf NaN = NaN"

text \<open>\<^verbatim>\<open>math.Round\<close>: nearest integer, half away from zero.\<close>

definition round_away :: "real \<Rightarrow> int" where
  "round_away x = (if 0 \<le> x then \<lfloor>x + 1/2\<rfloor> else - \<lfloor>- x + 1/2\<rfloor>)"

fun math_Round :: "f64 \<Rightarrow> f64" where
  "math_Round (Fin x) = Fin (of_int (round_away x))"
| "math_Round a = a"

text \<open>
  \<^verbatim>\<open>int(x)\<close> on amd64: truncation towards zero when it fits in 64 bits, the most negative
  integer otherwise.
\<close>

definition go_int :: "f64 \<Rightarrow> int" where
  "go_int a = (case a of
      Fin x \<Rightarrow> (let k = (if 0 \<le> x then \<lfloor>x\<rfloor> else \<lceil>x\<rceil>)
                in if - (2 ^ 63) \<le> k \<and> k < 2 ^ 63 then k else - (2 ^ 63))
    | _ \<Rightarrow> - (2 ^ 63))"

text \<open>
  The order of \<^verbatim>\<open>slices.Sort\<close> and \<^verbatim>\<open>cmp.Compare\<close> on floats: a NaN sorts before
  every other value. \<open>fkey\<close> embeds it in a library order, so that sorting is
  \<open>sort_key fkey\<close>.
\<close>

fun fkey :: "f64 \<Rightarrow> nat \<times> real" where
  "fkey NaN = (0, 0)"
| "fkey NInf = (1, 0)"
| "fkey (Fin x) = (2, x)"
| "fkey PInf = (3, 0)"

lemma fkey_inj [simp]: "fkey a = fkey b \<longleftrightarrow> a = b"
  by (cases a; cases b) simp_all

lemma fkey_le: "a \<noteq> NaN \<Longrightarrow> b \<noteq> NaN \<Longrightarrow> fkey a \<le> fkey b \<longleftrightarrow> a \<le> b"
  by (cases a; cases b) simp_all

section \<open>Laws\<close>

subsection \<open>Order\<close>

lemma le_f64_refl [simp]: "(a :: f64) \<le> a \<longleftrightarrow> a \<noteq> NaN"
  by (cases a) simp_all

lemma le_f64_trans: "(a :: f64) \<le> b \<Longrightarrow> b \<le> c \<Longrightarrow> a \<le> c"
  by (cases a; cases b; cases c) simp_all

lemma le_f64_total: "a \<noteq> NaN \<Longrightarrow> b \<noteq> NaN \<Longrightarrow> (a :: f64) \<le> b \<or> b \<le> a"
  by (cases a; cases b) auto

lemma le_f64_antisym: "(a :: f64) \<le> b \<Longrightarrow> b \<le> a \<Longrightarrow> a = b"
  by (cases a; cases b) simp_all

lemma le_f64_not_NaN: "(a :: f64) \<le> b \<Longrightarrow> a \<noteq> NaN \<and> b \<noteq> NaN"
  by (cases a; cases b) simp_all

lemma less_f64_Fin [simp]: "Fin x < Fin y \<longleftrightarrow> x < y"
  by (auto simp: less_f64_def)

lemma less_f64_special [simp]:
  "\<not> NaN < a" "\<not> a < NaN" "\<not> PInf < a" "\<not> a < NInf"
  "Fin x < PInf" "NInf < Fin x" "NInf < PInf"
  by (cases a; simp add: less_f64_def)+

lemma less_f64_iff: "a \<noteq> NaN \<Longrightarrow> b \<noteq> NaN \<Longrightarrow> (a :: f64) < b \<longleftrightarrow> \<not> b \<le> a"
  using le_f64_total [of a b] by (auto simp: less_f64_def)

lemma less_f64_trans: "(a :: f64) < b \<Longrightarrow> b < c \<Longrightarrow> a < c"
  by (cases a; cases b; cases c) (auto simp: less_f64_def)

lemma less_f64_le_trans: "(a :: f64) < b \<Longrightarrow> b \<le> c \<Longrightarrow> a < c"
  by (cases a; cases b; cases c) (auto simp: less_f64_def)

lemma le_f64_less_trans: "(a :: f64) \<le> b \<Longrightarrow> b < c \<Longrightarrow> a < c"
  by (cases a; cases b; cases c) (auto simp: less_f64_def)

lemma less_f64_irrefl [simp]: "\<not> (a :: f64) < a"
  by (simp add: less_f64_def)

lemma less_f64_imp_le: "(a :: f64) < b \<Longrightarrow> a \<le> b"
  by (simp add: less_f64_def)

lemma feq_Fin [simp]: "feq (Fin x) (Fin y) \<longleftrightarrow> x = y"
  by (simp add: feq_def)

lemma feq_refl [simp]: "feq a a \<longleftrightarrow> a \<noteq> NaN"
  by (simp add: feq_def)

lemma finite64_Fin [simp]: "finite64 (Fin x)" and finite64_special [simp]:
  "\<not> finite64 PInf" "\<not> finite64 NInf" "\<not> finite64 NaN"
  by (simp_all add: finite64_def)

lemma finite64_iff: "finite64 a \<longleftrightarrow> (\<exists>x. a = Fin x)"
  by (cases a) simp_all

subsection \<open>Rounding\<close>

lemma max_finite_pos [simp]: "0 < max_finite"
  by (simp add: max_finite_def)

lemma rnd_not_NaN [simp]: "rnd x \<noteq> NaN"
  by (simp add: rnd_def Let_def)

lemma rnd_mono: "x \<le> y \<Longrightarrow> rnd x \<le> rnd y"
  using rnd_real_mono [of x y] max_finite_pos by (auto simp: rnd_def Let_def)

lemma rnd_eqI: "rnd_real x = x \<Longrightarrow> \<bar>x\<bar> \<le> max_finite \<Longrightarrow> rnd x = Fin x"
  by (auto simp: rnd_def Let_def)

lemma rnd_Fin: "rnd x = Fin y \<Longrightarrow> y = rnd_real x"
  by (simp add: rnd_def Let_def split: if_splits)

lemma max_finite_ge: "2 ^ 53 \<le> max_finite"
proof -
  have a: "(2 ^ 53 :: real) \<le> 2 ^ 971" by (rule power_increasing) simp_all
  have b: "(1 :: real) \<le> 2 ^ 53 - 1" by simp
  have "(1 :: real) * 2 ^ 53 \<le> (2 ^ 53 - 1) * 2 ^ 971"
    using a b by (intro mult_mono) simp_all
  then show ?thesis by (simp add: max_finite_def)
qed

lemma rnd_of_int: assumes "\<bar>k\<bar> \<le> 2 ^ 53" shows "rnd (of_int k) = Fin (of_int k)"
proof (rule rnd_eqI)
  show "rnd_real (of_int k) = of_int k" using assms by (rule rnd_real_of_int)
  have "(of_int \<bar>k\<bar> :: real) \<le> of_int (2 ^ 53)" using assms by (simp only: of_int_le_iff)
  then show "\<bar>of_int k\<bar> \<le> max_finite" using max_finite_ge by simp
qed

lemma rnd_dyadic:
  assumes "\<bar>k\<bar> \<le> 2 ^ 53" "n \<le> 1074" shows "rnd (of_int k / 2 ^ n) = Fin (of_int k / 2 ^ n)"
proof (rule rnd_eqI)
  show "rnd_real (of_int k / 2 ^ n) = of_int k / 2 ^ n" using assms by (rule rnd_real_dyadic)
  have "(of_int \<bar>k\<bar> :: real) \<le> of_int (2 ^ 53)" using assms(1) by (simp only: of_int_le_iff)
  moreover have "\<bar>of_int k\<bar> / 2 ^ n \<le> \<bar>of_int k :: real\<bar> / 1" by (rule frac_le) simp_all
  ultimately have "\<bar>of_int k / 2 ^ n\<bar> \<le> (2 :: real) ^ 53" by simp
  then show "\<bar>of_int k / 2 ^ n\<bar> \<le> max_finite" using max_finite_ge by linarith
qed

lemma rnd_0 [simp, f64_simps]: "rnd 0 = Fin 0" and rnd_1 [simp, f64_simps]: "rnd 1 = Fin 1"
  using rnd_of_int [of 0] rnd_of_int [of 1] by simp_all

lemma rnd_numeral [f64_simps]:
  "(numeral n :: real) \<le> 9007199254740992 \<Longrightarrow> rnd (numeral n) = Fin (numeral n)"
  using rnd_of_int [of "numeral n"] by simp

lemma rnd_neg_numeral [f64_simps]:
  "(numeral n :: real) \<le> 9007199254740992 \<Longrightarrow> rnd (- numeral n) = Fin (- numeral n)"
  using rnd_of_int [of "- numeral n"] by simp

lemma rnd_half [f64_simps]:
  "(numeral n :: real) \<le> 9007199254740992 \<Longrightarrow> rnd (numeral n / 2) = Fin (numeral n / 2)"
  "rnd (1 / 2) = Fin (1 / 2)"
  using rnd_dyadic [of "numeral n" 1] rnd_dyadic [of 1 1] by simp_all

lemma rnd_quarter [f64_simps]:
  "(numeral n :: real) \<le> 9007199254740992 \<Longrightarrow> rnd (numeral n / 4) = Fin (numeral n / 4)"
  "rnd (1 / 4) = Fin (1 / 4)"
  using rnd_dyadic [of "numeral n" 2] rnd_dyadic [of 1 2] by simp_all

lemma rnd_neg_one [f64_simps]: "rnd (- 1) = Fin (- 1)" "rnd (- (1 / 2)) = Fin (- (1 / 2))"
  using rnd_of_int [of "- 1"] rnd_dyadic [of "- 1" 1] by simp_all

lemma rnd_nonneg: "0 \<le> x \<Longrightarrow> Fin 0 \<le> rnd x"
  using rnd_mono [of 0 x] by simp

lemma rnd_le_of_int: "x \<le> of_int k \<Longrightarrow> \<bar>k\<bar> \<le> 2 ^ 53 \<Longrightarrow> rnd x \<le> Fin (of_int k)"
  using rnd_mono [of x "of_int k"] by (simp add: rnd_of_int)

lemma rnd_minus: "rnd (- x) = - rnd x"
  using max_finite_pos by (auto simp: rnd_def Let_def rnd_real_minus simp del: max_finite_pos)


lemma times_Fin_rounded: assumes "a * b = Fin s" shows "\<exists>z. s = rnd_real z"
proof -
  have n: "sgn_inf x \<noteq> Fin s" for x by (simp add: sgn_inf_def)
  show ?thesis using assms rnd_Fin by (cases a; cases b) (auto simp: n)
qed

lemma diff_Fin_not_NaN [simp]: "Fin x - Fin y \<noteq> NaN"
  by (simp add: minus_f64_def)

subsection \<open>Representable values and monotonicity\<close>

text \<open>The values a \<^verbatim>\<open>float64\<close> can hold; every arithmetic result is one of them.\<close>

definition is_f64 :: "f64 \<Rightarrow> bool" where
  "is_f64 a \<longleftrightarrow> (case a of Fin x \<Rightarrow> rnd_real x = x \<and> \<bar>x\<bar> \<le> max_finite | _ \<Rightarrow> True)"

lemma is_f64_rnd [simp]: "is_f64 (rnd x)"
  by (auto simp: is_f64_def rnd_def Let_def rnd_real_idem)

lemma is_f64_Fin_rnd: "is_f64 (Fin x) \<Longrightarrow> rnd x = Fin x"
  by (simp add: is_f64_def rnd_eqI)

lemma rnd_between:
  assumes "rnd a = Fin a" "rnd b = Fin b" "a \<le> x" "x \<le> b"
  shows "\<exists>r. rnd x = Fin r \<and> a \<le> r \<and> r \<le> b"
  using rnd_mono [OF assms(3)] rnd_mono [OF assms(4)] assms(1,2)
  by (cases "rnd x") simp_all

lemma rnd_unit: "0 \<le> x \<Longrightarrow> x \<le> 1 \<Longrightarrow> \<exists>r. rnd x = Fin r \<and> 0 \<le> r \<and> r \<le> 1"
  using rnd_between [of 0 1 x] by simp

lemma NInf_le [simp]: "NInf \<le> a \<longleftrightarrow> a \<noteq> NaN" and le_PInf [simp]: "a \<le> PInf \<longleftrightarrow> a \<noteq> NaN"
  by (cases a; simp)+

lemma plus_f64_mono:
  "a \<le> a' \<Longrightarrow> b \<le> b' \<Longrightarrow> a + b \<noteq> NaN \<Longrightarrow> a' + b' \<noteq> NaN \<Longrightarrow> a + b \<le> (a' + b' :: f64)"
  using rnd_not_NaN by (cases a; cases b; cases a'; cases b') (simp_all add: rnd_mono add_mono le_f64_not_NaN)

lemma times_Fin_mono:
  "0 \<le> x \<Longrightarrow> x \<le> x' \<Longrightarrow> 0 \<le> y \<Longrightarrow> y \<le> y' \<Longrightarrow> Fin x * Fin y \<le> Fin x' * Fin y'"
  by (simp add: rnd_mono mult_mono)

lemma rnd_real_error: "\<bar>rnd_real x - x\<bar> \<le> 2 powi ulp_exp x / 2"
proof (cases "x = 0")
  case True
  then show ?thesis by simp
next
  case False
  let ?u = "2 powi ulp_exp x :: real"
  have "rnd_real x - x = (of_int (round_even (x / ?u)) - x / ?u) * ?u"
    using False by (simp add: rnd_real_def left_diff_distrib)
  then have "\<bar>rnd_real x - x\<bar> = \<bar>of_int (round_even (x / ?u)) - x / ?u\<bar> * ?u"
    by (simp add: abs_mult)
  also have "\<dots> \<le> 1 / 2 * ?u"
    by (rule mult_right_mono [OF round_even_half]) simp
  finally show ?thesis by simp
qed

text \<open>The sum just above one rounds down: ties go to the even mantissa.\<close>

lemma rnd_real_one_up: assumes "x \<le> 1 + 1 / 2 ^ 53" shows "rnd_real x \<le> 1"
proof -
  let ?y = "1 + 1 / 2 ^ 53 :: real"
  have "\<lfloor>log 2 ?y\<rfloor> = 0"
  proof (rule floor_unique)
    show "real_of_int 0 \<le> log 2 ?y" by simp
    have "log 2 ?y < log 2 2" by (subst log_less_cancel_iff) simp_all
    then show "log 2 ?y < real_of_int 0 + 1" by simp
  qed
  then have u: "ulp_exp ?y = - 52" by (simp add: ulp_exp_def)
  have "(2 :: real) powi - int 52 = inverse (2 ^ 52)" by (simp only: power_int_minus powi_nat)
  then have p: "(2 :: real) powi - 52 = 1 / 2 ^ 52" by (simp only: of_nat_numeral inverse_eq_divide)
  have q: "?y / 2 powi ulp_exp ?y = of_int (2 ^ 52) + 1 / 2" unfolding u p by simp
  have tie: "round_even (of_int k + 1 / 2) = k" if "even k" for k
  proof -
    have "\<lfloor>real_of_int k + 1 / 2\<rfloor> = k" by (rule floor_unique) simp_all
    with that show ?thesis by (simp add: round_even_def Let_def)
  qed
  have r: "round_even (of_int (2 ^ 52) + 1 / 2) = 2 ^ 52" by (rule tie) simp
  have "rnd_real ?y = of_int (round_even (?y / 2 powi ulp_exp ?y)) * 2 powi ulp_exp ?y"
    by (rule rnd_real_pos_eq) simp
  also have "\<dots> = of_int (2 ^ 52) * (1 / 2 ^ 52)" unfolding q unfolding r unfolding u p ..
  also have "\<dots> = 1" by simp
  finally have "rnd_real ?y = 1" .
  with rnd_real_mono [OF assms] show ?thesis by simp
qed

text \<open>A value below half the smallest subnormal rounds to zero.\<close>

lemma rnd_tiny:
  assumes "1 / 2 ^ n = x" "1076 \<le> n" shows "rnd x = Fin 0"
proof -
  have pos: "0 < x" using assms(1) by auto
  have xe: "x = 2 powi (- int n)" using assms(1) by (simp add: power_int_minus inverse_eq_divide)
  have "log 2 x = of_int (- int n)" using assms(1) [symmetric] by (simp add: log_divide log_nat_power)
  then have "\<lfloor>log 2 x\<rfloor> = - int n" by (simp only: floor_of_int)
  then have u: "ulp_exp x = - 1074" using assms(2) pos by (simp add: ulp_exp_def)
  have q: "x / 2 powi ulp_exp x = 2 powi (1074 - int n)"
  proof -
    have "(2 :: real) powi (- int n - - 1074) = 2 powi (- int n) / 2 powi (- 1074)"
      by (rule power_int_diff) simp
    moreover have "- int n - - 1074 = 1074 - int n" by simp
    ultimately show ?thesis unfolding u by (simp only: xe [symmetric])
  qed
  have "(2 :: real) powi (1074 - int n) \<le> 2 powi (- 2)" by (rule powi_mono) (use assms(2) in simp)
  also have "\<dots> < 1 / 2" by (simp add: power_int_minus)
  finally have h: "2 powi (1074 - int n) < (1 / 2 :: real)" .
  have "\<lfloor>2 powi (1074 - int n) :: real\<rfloor> = 0" using h by (intro floor_unique) simp_all
  then have "round_even (2 powi (1074 - int n)) = 0" using h by (simp add: round_even_def Let_def)
  then have "rnd_real x = 0" using rnd_real_pos_eq [OF pos] unfolding q by simp
  then show ?thesis using max_finite_pos by (simp add: rnd_def Let_def not_less less_imp_le)
qed

text \<open>The rounding error is small against a value that is not tiny.\<close>

lemma rnd_real_precise:
  assumes "1 / 2 ^ 60 \<le> \<bar>x\<bar>" shows "\<bar>rnd_real x - x\<bar> \<le> \<bar>x\<bar> / 2 ^ 53"
proof -
  have x: "0 < \<bar>x\<bar>" using assms by (rule less_le_trans [rotated]) simp
  have u: "ulp_exp x = ulp_exp \<bar>x\<bar>" by (cases "x \<ge> 0") simp_all
  have "- 60 \<le> log 2 \<bar>x\<bar>"
  proof -
    have "log 2 (1 / 2 ^ 60) \<le> log 2 \<bar>x\<bar>" using assms x by (subst log_le_cancel_iff) simp_all
    moreover have "log 2 (1 / 2 ^ 60 :: real) = - 60" using log_nat_power [of 2 2 60] by (simp add: log_divide)
    ultimately show ?thesis by simp
  qed
  then have "- 1074 < ulp_exp \<bar>x\<bar>" by (simp add: ulp_exp_def) linarith
  then have "2 powi (ulp_exp \<bar>x\<bar> + 52) \<le> \<bar>x\<bar>" using ulp_exp_lower [OF x] by simp
  then have "2 powi ulp_exp \<bar>x\<bar> * 2 ^ 52 \<le> \<bar>x\<bar>" using powi_split [of "ulp_exp \<bar>x\<bar>" 52] powi_nat [of 52] by simp
  then have "2 powi ulp_exp x \<le> \<bar>x\<bar> / 2 ^ 52" unfolding u by (simp add: field_simps)
  then show ?thesis using rnd_real_error [of x] by simp
qed

lemma rnd_real_relative:
  assumes "1 / 2 ^ 60 \<le> \<bar>x\<bar>" shows "\<bar>rnd_real x - x\<bar> \<le> \<bar>x\<bar> / 64"
proof -
  have "\<bar>x\<bar> / 2 ^ 53 \<le> \<bar>x\<bar> / 64" by (intro divide_left_mono) simp_all
  then show ?thesis using rnd_real_precise [OF assms] by simp
qed

lemma rnd_Fin_iff: "rnd x = Fin y \<Longrightarrow> rnd y = Fin y"
  using is_f64_rnd [of x] by (auto intro: is_f64_Fin_rnd)

lemma math_Min_le: "a < math_Min x y \<Longrightarrow> a < x"
  by (cases x; cases y; cases a) (auto simp: math_Min_def split: if_splits)

text \<open>A finite value between zero and an integer bound.\<close>

definition bounded_by :: "int \<Rightarrow> f64 \<Rightarrow> bool" where
  "bounded_by k a \<longleftrightarrow> (\<exists>r. a = Fin r \<and> 0 \<le> r \<and> r \<le> of_int k)"

lemma bounded_by_rnd:
  assumes "0 \<le> x" "x \<le> of_int k" "k \<le> 2 ^ 53" shows "bounded_by k (rnd x)"
proof -
  have "0 \<le> k" using assms(1,2) of_int_0_le_iff [of k, where 'a = real] by linarith
  then have "rnd (of_int k) = Fin (of_int k)" using assms(3) by (intro rnd_of_int) simp
  then show ?thesis using rnd_between [of 0 "of_int k" x] assms by (auto simp: bounded_by_def)
qed

lemma bounded_by_times:
  assumes "bounded_by j a" "bounded_by k b" "j * k \<le> 2 ^ 53" shows "bounded_by (j * k) (a * b)"
proof -
  obtain x y where ab: "a = Fin x" "b = Fin y" "0 \<le> x" "x \<le> of_int j" "0 \<le> y" "y \<le> of_int k"
    using assms by (auto simp: bounded_by_def)
  then have "0 \<le> x * y" "x * y \<le> of_int (j * k)" by (simp_all add: mult_mono)
  then show ?thesis using bounded_by_rnd [OF _ _ assms(3)] by (simp add: ab)
qed

lemma bounded_by_plus:
  assumes "bounded_by j a" "bounded_by k b" "j + k \<le> 2 ^ 53" shows "bounded_by (j + k) (a + b)"
proof -
  obtain x y where ab: "a = Fin x" "b = Fin y" "0 \<le> x" "x \<le> of_int j" "0 \<le> y" "y \<le> of_int k"
    using assms by (auto simp: bounded_by_def)
  then have "0 \<le> x + y" "x + y \<le> of_int (j + k)" by simp_all
  then show ?thesis using bounded_by_rnd [OF _ _ assms(3)] by (simp add: ab)
qed

text \<open>
  On non-negative operands sums and products are non-negative (an infinity times zero
  excepted) and a sum is never below a representable summand.
\<close>

lemma plus_nonneg: "(0 :: f64) \<le> a \<Longrightarrow> 0 \<le> b \<Longrightarrow> 0 \<le> a + b"
  by (cases a; cases b) (simp_all add: zero_f64_def rnd_nonneg)

lemma plus_ge_left: "is_f64 a \<Longrightarrow> (0 :: f64) \<le> a \<Longrightarrow> 0 \<le> b \<Longrightarrow> a \<le> a + b"
proof (cases a; cases b)
  fix x y assume "is_f64 a" "0 \<le> a" "0 \<le> b" "a = Fin x" "b = Fin y"
  then show "a \<le> a + b"
    using rnd_mono [of x "x + y"] is_f64_Fin_rnd [of x] by (simp add: zero_f64_def)
qed (simp_all add: zero_f64_def)

lemma times_nonneg: "(0 :: f64) \<le> a \<Longrightarrow> 0 \<le> b \<Longrightarrow> a * b \<noteq> NaN \<Longrightarrow> 0 \<le> a * b"
  by (cases a; cases b) (auto simp: zero_f64_def rnd_nonneg sgn_inf_def split: if_splits)

lemma times_Fin_not_NaN: "0 < c \<Longrightarrow> a \<noteq> NaN \<Longrightarrow> Fin c * a \<noteq> NaN"
  by (cases a) (simp_all add: sgn_inf_def)

lemma plus_ge_right: "is_f64 b \<Longrightarrow> (0 :: f64) \<le> a \<Longrightarrow> 0 \<le> b \<Longrightarrow> b \<le> a + b"
proof (cases a; cases b)
  fix x y assume "is_f64 b" "0 \<le> a" "0 \<le> b" "a = Fin x" "b = Fin y"
  then show "b \<le> a + b"
    using rnd_mono [of y "x + y"] is_f64_Fin_rnd [of y] by (simp add: zero_f64_def)
qed (simp_all add: zero_f64_def)

lemma bounded_by_iff: "bounded_by k a \<longleftrightarrow> 0 \<le> a \<and> a \<le> Fin (of_int k)"
  by (cases a) (auto simp: bounded_by_def zero_f64_def)

lemma bounded_by_mono: "bounded_by j a \<Longrightarrow> j \<le> k \<Longrightarrow> bounded_by k a"
  unfolding bounded_by_def by (metis of_int_le_iff order_trans)

end
