(* ===== verification/GoTime.thy ===== *)
theory GoTime
  imports Float64
begin

text \<open>
  The parts of package \<^verbatim>\<open>time\<close> the sources use. An instant is an integer: nanoseconds
  since the Unix epoch. A calendar day is its number, counted from 1970-01-01. The
  proleptic Gregorian calendar is computed in both directions and the two are proved
  inverse, so that parsing and printing a \<^verbatim>\<open>yyyyMMdd\<close> date round-trip.
\<close>

type_synonym instant = int
type_synonym duration = int

definition second_ns :: int where "second_ns = 10 ^ 9"
definition hour_ns :: int where "hour_ns = 3600 * 10 ^ 9"
definition day_ns :: int where "day_ns = 86400 * 10 ^ 9"

definition UnixMilli :: "instant \<Rightarrow> int" where
  "UnixMilli t = t div 10 ^ 6"

section \<open>The calendar\<close>

definition is_leap :: "int \<Rightarrow> bool" where
  "is_leap y \<longleftrightarrow> y mod 4 = 0 \<and> (y mod 100 \<noteq> 0 \<or> y mod 400 = 0)"

definition days_in :: "int \<Rightarrow> int \<Rightarrow> int" where
  "days_in y m =
     (if m = 2 then (if is_leap y then 29 else 28)
      else if m \<in> {4, 6, 9, 11} then 30 else 31)"

text \<open>Days from 1970-01-01 to the first of January of year \<open>y\<close>.\<close>

definition days_before_year :: "int \<Rightarrow> int" where
  "days_before_year y =
     365 * (y - 1970) + ((y - 1) div 4 - (y - 1) div 100 + (y - 1) div 400) - 477"

fun days_before_month :: "int \<Rightarrow> nat \<Rightarrow> int" where
  "days_before_month y 0 = 0"
| "days_before_month y (Suc m) = days_before_month y m + days_in y (int (Suc m))"

text \<open>\<open>days_before_month y m\<close> counts the days of the months \<open>1 .. m\<close>.\<close>

definition day_of_civil :: "int \<Rightarrow> int \<Rightarrow> int \<Rightarrow> int" where
  "day_of_civil y m d = days_before_year y + days_before_month y (nat (m - 1)) + (d - 1)"

lemma days_in_pos: "28 \<le> days_in y m"
  by (simp add: days_in_def)

lemma div_pred:
  fixes y k :: int
  assumes "0 < k"
  shows "y div k = (y - 1) div k + (if y mod k = 0 then 1 else 0)"
proof -
  define q r where "q = (y - 1) div k" and "r = (y - 1) mod k"
  have y: "y = k * q + (r + 1)"
    using mult_div_mod_eq [of k "y - 1"] by (simp add: q_def r_def)
  have r: "0 \<le> r" "r < k" using assms by (simp_all add: r_def)
  show ?thesis
  proof (cases "r + 1 = k")
    case True
    then have "y = k * (q + 1)" using y by (simp add: algebra_simps)
    then have "y div k = q + 1" "y mod k = 0" using assms by simp_all
    then show ?thesis by (simp add: q_def)
  next
    case False
    then have "y div k = q" "y mod k = r + 1"
      using y r by (simp_all add: int_div_pos_eq int_mod_pos_eq)
    then show ?thesis using r by (simp add: q_def)
  qed
qed

lemma leap_count:
  assumes "C \<longrightarrow> B" "B \<longrightarrow> A"
  shows "365 + (if A then 1 else 0) - (if B then 1 else 0) + (if C then 1 else 0) =
    (if A \<and> (\<not> B \<or> C) then 366 else 365 :: int)"
  using assms by (cases A; cases B; cases C) simp_all

lemma days_before_year_Suc:
  "days_before_year (y + 1) = days_before_year y + (if is_leap y then 366 else 365)"
proof -
  have m: "y mod 400 = 0 \<Longrightarrow> y mod 100 = 0" "y mod 100 = 0 \<Longrightarrow> y mod 4 = 0"
    using dvd_trans [of 100 400 y] dvd_trans [of 4 100 y] by (simp_all only: dvd_eq_mod_eq_0) simp_all
  have d: "y div k - (y - 1) div k = (if y mod k = 0 then 1 else 0)" if "0 < k" for k
    using div_pred [OF that, of y] by linarith
  have "days_before_year (y + 1) - days_before_year y =
      365 + (y div 4 - (y - 1) div 4) - (y div 100 - (y - 1) div 100) + (y div 400 - (y - 1) div 400)"
    by (simp add: days_before_year_def)
  also have "\<dots> = 365 + (if y mod 4 = 0 then 1 else 0) - (if y mod 100 = 0 then 1 else 0)
      + (if y mod 400 = 0 then 1 else 0)"
    by (simp only: d zero_less_numeral)
  also have "\<dots> = (if is_leap y then 366 else 365)"
    unfolding is_leap_def using m by (intro leap_count) blast+
  finally show ?thesis by linarith
qed

lemma days_before_year_mono: "y \<le> z \<Longrightarrow> days_before_year y \<le> days_before_year z"
proof (induction z rule: int_ge_induct)
  case base
  show ?case by simp
next
  case (step i)
  then show ?case using days_before_year_Suc [of i] by (simp split: if_splits)
qed

lemma days_before_year_less: "y < z \<Longrightarrow> days_before_year y < days_before_year z"
  using days_before_year_mono [of "y + 1" z] days_before_year_Suc [of y]
  by (simp split: if_splits)

text \<open>
  The year of a day: start from a year that is not too late and step forward while the
  next year has already begun.
\<close>

function year_from :: "int \<Rightarrow> int \<Rightarrow> int" where
  "year_from y n = (if days_before_year (y + 1) \<le> n then year_from (y + 1) n else y)"
  by pat_completeness auto
termination
proof (relation "measure (\<lambda>(y, n). nat (n - days_before_year y))")
  fix y n :: int
  assume "days_before_year (y + 1) \<le> n"
  then show "((y + 1, n), (y, n)) \<in> measure (\<lambda>(y, n). nat (n - days_before_year y))"
    using days_before_year_Suc [of y] by (simp split: if_splits)
qed simp

declare year_from.simps [simp del]

definition year_of_day :: "int \<Rightarrow> int" where
  "year_of_day n = year_from (1970 + (if n < 0 then n div 365 else n div 366)) n"

function month_day :: "int \<Rightarrow> nat \<Rightarrow> int \<Rightarrow> int \<times> int" where
  "month_day y m r =
     (if 12 \<le> m \<or> r < days_in y (int m) then (int m, r + 1)
      else month_day y (Suc m) (r - days_in y (int m)))"
  by pat_completeness auto
termination by (relation "measure (\<lambda>(y, m, r). 12 - m)") auto

declare month_day.simps [simp del]

definition civil_of_day :: "int \<Rightarrow> int \<times> int \<times> int" where
  "civil_of_day n =
     (let y = year_of_day n; (m, d) = month_day y 1 (n - days_before_year y) in (y, m, d))"

subsection \<open>The two directions are inverse\<close>

lemma year_from_spec:
  "days_before_year y \<le> n \<Longrightarrow>
   days_before_year (year_from y n) \<le> n \<and> n < days_before_year (year_from y n + 1)"
proof (induction y n rule: year_from.induct)
  case (1 y n)
  show ?case
  proof (cases "days_before_year (y + 1) \<le> n")
    case True
    then show ?thesis using "1.IH" by (simp add: year_from.simps [of y n])
  next
    case False
    then show ?thesis using "1.prems" by (simp add: year_from.simps [of y n])
  qed
qed

lemma days_before_year_up: "0 \<le> q \<Longrightarrow> days_before_year (1970 + q) \<le> 366 * q"
proof (induction q rule: int_ge_induct)
  case base
  show ?case by (simp add: days_before_year_def)
next
  case (step i)
  then show ?case using days_before_year_Suc [of "1970 + i"]
    by (simp add: add.assoc split: if_splits)
qed

lemma days_before_year_down: "q \<le> 0 \<Longrightarrow> days_before_year (1970 + q) \<le> 365 * q"
proof (induction q rule: int_le_induct)
  case base
  show ?case by (simp add: days_before_year_def)
next
  case (step i)
  then show ?case using days_before_year_Suc [of "1970 + (i - 1)"]
    by (simp add: add.assoc split: if_splits)
qed

lemma days_before_year_start:
  "days_before_year (1970 + (if n < 0 then n div 365 else n div 366)) \<le> n"
proof (cases "n < 0")
  case True
  then have "n div 365 \<le> 0" by (simp add: pos_imp_zdiv_neg_iff less_imp_le)
  then have "days_before_year (1970 + n div 365) \<le> 365 * (n div 365)"
    by (rule days_before_year_down)
  then show ?thesis using True mult_div_mod_eq [of 365 n] by simp
next
  case False
  then have "days_before_year (1970 + n div 366) \<le> 366 * (n div 366)"
    by (intro days_before_year_up) simp
  then show ?thesis using False mult_div_mod_eq [of 366 n] pos_mod_sign [of 366 n] by simp
qed

lemma year_of_day_spec:
  "days_before_year (year_of_day n) \<le> n" "n < days_before_year (year_of_day n + 1)"
  using year_from_spec [OF days_before_year_start, of n] by (simp_all add: year_of_day_def)

lemma year_of_day_unique:
  assumes "days_before_year y \<le> n" "n < days_before_year (y + 1)"
  shows "year_of_day n = y"
proof (rule ccontr)
  assume "year_of_day n \<noteq> y"
  then consider "year_of_day n + 1 \<le> y" | "y + 1 \<le> year_of_day n" by linarith
  then show False
    using assms year_of_day_spec [of n] days_before_year_mono by cases force+
qed

lemma days_before_month_12: "days_before_month y 12 = (if is_leap y then 366 else 365)"
  by (simp add: eval_nat_numeral days_in_def)

lemma days_before_month_mono: "m \<le> n \<Longrightarrow> days_before_month y m \<le> days_before_month y n"
proof (induction n rule: dec_induct)
  case (step k)
  then show ?case using days_in_pos [of y "int (Suc k)"] by simp
qed simp

text \<open>\<open>month_day\<close> finds the month that holds a given offset.\<close>

lemma month_day_spec:
  assumes "1 \<le> m" "m \<le> 12" "0 \<le> r" "r < days_before_month y 12 - days_before_month y (m - 1)"
    and "month_day y m r = (m', d)"
  shows "int m \<le> m' \<and> m' \<le> 12 \<and> 1 \<le> d \<and> d \<le> days_in y m' \<and>
    days_before_month y (nat (m' - 1)) + (d - 1) = days_before_month y (m - 1) + r"
  using assms
proof (induction y m r arbitrary: m' d rule: month_day.induct)
  case (1 y m r)
  have step: "days_before_month y m = days_before_month y (m - 1) + days_in y (int m)"
    using "1.prems"(1) by (cases m) simp_all
  show ?case
  proof (cases "12 \<le> m \<or> r < days_in y (int m)")
    case True
    have "r < days_in y (int m)"
      using True "1.prems"(2,4) step by (cases "m = 12") auto
    moreover have "m' = int m" "d = r + 1" using True "1.prems"(5) by (auto simp: month_day.simps [of y m r])
    moreover have "nat (int m - 1) = m - 1" by simp
    ultimately show ?thesis using "1.prems"(2,3) by simp
  next
    case False
    have e: "month_day y (Suc m) (r - days_in y (int m)) = (m', d)"
      using False "1.prems"(5) by (simp add: month_day.simps [of y m r])
    have "1 \<le> Suc m" "Suc m \<le> 12" "0 \<le> r - days_in y (int m)"
      "r - days_in y (int m) < days_before_month y 12 - days_before_month y (Suc m - 1)"
      using False "1.prems" step by auto
    from "1.IH" [OF False this e] show ?thesis using step by simp
  qed
qed

lemma civil_of_day_spec:
  assumes "civil_of_day n = (y, m, d)"
  shows "1 \<le> m \<and> m \<le> 12 \<and> 1 \<le> d \<and> d \<le> days_in y m \<and> day_of_civil y m d = n"
proof -
  have y: "y = year_of_day n" and md: "month_day y 1 (n - days_before_year y) = (m, d)"
    using assms by (auto simp: civil_of_day_def Let_def split: prod.splits)
  have "n - days_before_year y < days_before_month y 12 - days_before_month y (1 - 1)"
    using year_of_day_spec [of n] days_before_year_Suc [of y] unfolding y [symmetric]
    by (simp add: days_before_month_12)
  from month_day_spec [OF _ _ _ this md] year_of_day_spec(1) [of n]
  show ?thesis by (simp add: day_of_civil_def y [symmetric])
qed

definition valid_civil :: "int \<Rightarrow> int \<Rightarrow> int \<Rightarrow> bool" where
  "valid_civil y m d \<longleftrightarrow> 1 \<le> m \<and> m \<le> 12 \<and> 1 \<le> d \<and> d \<le> days_in y m"

lemma valid_civil_in_year:
  assumes "valid_civil y m d"
  shows "0 \<le> days_before_month y (nat (m - 1)) + (d - 1)"
    and "days_before_month y (nat (m - 1)) + (d - 1) < days_before_month y 12"
proof -
  have m: "1 \<le> m" "m \<le> 12" "1 \<le> d" "d \<le> days_in y m" using assms by (auto simp: valid_civil_def)
  have "days_before_month y 0 \<le> days_before_month y (nat (m - 1))"
    by (rule days_before_month_mono) simp
  then show "0 \<le> days_before_month y (nat (m - 1)) + (d - 1)" using m by simp
  have s: "Suc (nat (m - 1)) = nat m" using m by simp
  have "days_before_month y (nat m) = days_before_month y (nat (m - 1)) + days_in y m"
    using m by (simp flip: s)
  moreover have "days_before_month y (nat m) \<le> days_before_month y 12"
    using m by (intro days_before_month_mono) simp
  ultimately show "days_before_month y (nat (m - 1)) + (d - 1) < days_before_month y 12"
    using m by simp
qed

lemma year_of_civil: "valid_civil y m d \<Longrightarrow> year_of_day (day_of_civil y m d) = y"
  using valid_civil_in_year [of y m d] days_before_year_Suc [of y]
  by (intro year_of_day_unique) (simp_all add: day_of_civil_def days_before_month_12)

text \<open>Two dates of one year with the same day number are the same date.\<close>

lemma month_offset_less:
  assumes "valid_civil y m d" "valid_civil y m' d'" "m < m'"
  shows "day_of_civil y m d < day_of_civil y m' d'"
proof -
  have s: "Suc (nat (m - 1)) = nat m" using assms(1) unfolding valid_civil_def by linarith
  have "days_before_month y (nat m) = days_before_month y (nat (m - 1)) + days_in y m"
    using assms by (simp add: valid_civil_def flip: s)
  moreover have "days_before_month y (nat m) \<le> days_before_month y (nat (m' - 1))"
    using assms by (intro days_before_month_mono) simp
  ultimately show ?thesis using assms by (simp add: day_of_civil_def valid_civil_def)
qed

lemma civil_of_day_of_civil:
  assumes "valid_civil y m d"
  shows "civil_of_day (day_of_civil y m d) = (y, m, d)"
proof -
  obtain y' m' d' where c: "civil_of_day (day_of_civil y m d) = (y', m', d')"
    by (cases "civil_of_day (day_of_civil y m d)") auto
  have y: "y' = y"
    using c year_of_civil [OF assms] by (auto simp: civil_of_day_def Let_def split: prod.splits)
  have v: "valid_civil y m' d'" and e: "day_of_civil y m' d' = day_of_civil y m d"
    using civil_of_day_spec [OF c] by (auto simp: valid_civil_def y)
  have "m' = m"
    using month_offset_less [OF v assms] month_offset_less [OF assms v] e by linarith
  then show ?thesis using c y e by (simp add: day_of_civil_def)
qed


section \<open>Printing and parsing yyyyMMdd\<close>

definition dig :: "nat \<Rightarrow> char" where
  "dig n = char_of (48 + n)"

fun dec_nat :: "nat \<Rightarrow> string" where
  "dec_nat n = (if n < 10 then [dig n] else dec_nat (n div 10) @ [dig (n mod 10)])"

declare dec_nat.simps [simp del]

definition pad0 :: "nat \<Rightarrow> string \<Rightarrow> string" where
  "pad0 w s = replicate (w - length s) CHR ''0'' @ s"

text \<open>\<^verbatim>\<open>t.Format("20060102")\<close> of the midnight of a day.\<close>

definition format_ymd :: "int \<Rightarrow> string" where
  "format_ymd n =
     (let (y, m, d) = civil_of_day n
      in (if y < 0 then ''-'' else []) @ pad0 4 (dec_nat (nat \<bar>y\<bar>)) @
         pad0 2 (dec_nat (nat m)) @ pad0 2 (dec_nat (nat d)))"

definition is_digit :: "char \<Rightarrow> bool" where
  "is_digit c \<longleftrightarrow> CHR ''0'' \<le> c \<and> c \<le> CHR ''9''"

definition digit_val :: "char \<Rightarrow> int" where
  "digit_val c = of_char c - 48"

definition atoi :: "string \<Rightarrow> int" where
  "atoi s = foldl (\<lambda>a c. 10 * a + digit_val c) 0 s"

text \<open>
  \<^verbatim>\<open>time.Parse("20060102", s)\<close>: four digits of year, two of month, two of day, nothing
  more, and the day must exist. The result is the day number.
\<close>

definition parse_ymd :: "string \<Rightarrow> int option" where
  "parse_ymd s =
     (if length s = 8 \<and> list_all is_digit s
      then let y = atoi (take 4 s); m = atoi (take 2 (drop 4 s)); d = atoi (drop 6 s)
           in if 1 \<le> m \<and> m \<le> 12 \<and> 1 \<le> d \<and> d \<le> days_in y m
              then Some (day_of_civil y m d) else None
      else None)"

lemma of_char_dig: "n < 10 \<Longrightarrow> (of_char (dig n) :: nat) = 48 + n"
  by (simp add: dig_def)

lemma is_digit_dig: "n < 10 \<Longrightarrow> is_digit (dig n)"
  using of_char_dig [of n] by (simp add: is_digit_def less_eq_char_def)

lemma digit_val_dig: "n < 10 \<Longrightarrow> digit_val (dig n) = int n"
proof -
  assume "n < 10"
  then have "(of_char (dig n) :: nat) = 48 + n" by (rule of_char_dig)
  then have "(of_char (dig n) :: int) = 48 + int n" by (metis of_nat_add of_nat_numeral of_nat_of_char)
  then show ?thesis by (simp add: digit_val_def)
qed

lemma digit_char:
  assumes "is_digit c" shows "\<exists>n < 10. c = dig n"
proof -
  have b: "48 \<le> (of_char c :: nat)" "(of_char c :: nat) \<le> 57"
    using assms by (simp_all add: is_digit_def less_eq_char_def)
  have "c = dig (of_char c - 48)" using b by (simp add: dig_def)
  then show ?thesis using b by (intro exI [of _ "of_char c - 48"]) simp
qed

lemma dig_0: "dig 0 = CHR ''0''"
  by (simp add: dig_def char_of_eq_iff)

lemma dec_pad2: "n < 100 \<Longrightarrow> pad0 2 (dec_nat n) = [dig (n div 10), dig (n mod 10)]"
  by (cases "n < 10") (simp_all add: pad0_def dec_nat.simps dig_0)

lemma pad0_4:
  "pad0 4 [a] = [CHR ''0'', CHR ''0'', CHR ''0'', a]"
  "pad0 4 [a, b] = [CHR ''0'', CHR ''0'', a, b]"
  "pad0 4 [a, b, c] = [CHR ''0'', a, b, c]"
  "pad0 4 [a, b, c, d] = [a, b, c, d]"
  by (simp_all add: pad0_def eval_nat_numeral)

lemma dec_pad4:
  assumes "n < 10000"
  shows "pad0 4 (dec_nat n) =
    [dig (n div 10 div 10 div 10), dig (n div 10 div 10 mod 10), dig (n div 10 mod 10), dig (n mod 10)]"
proof -
  note unf = dec_nat.simps [of n] dec_nat.simps [of "n div 10"] dec_nat.simps [of "n div 10 div 10"]
    dec_nat.simps [of "n div 10 div 10 div 10"] if_False if_True append.simps
  consider "n < 10" | "10 \<le> n" "n < 100" | "100 \<le> n" "n < 1000" | "1000 \<le> n" by linarith
  then show ?thesis
  proof cases
    case 1
    then have "dec_nat n = [dig n]" by (subst dec_nat.simps) simp
    moreover have "n div 10 = 0" "n mod 10 = n" using 1 by (simp_all only: div_less mod_less)
    ultimately show ?thesis by (simp only: pad0_4 dig_0 div_0 mod_0)
  next
    case 2
    then have g: "\<not> n < 10" "n div 10 < 10" by linarith+
    have "dec_nat n = [dig (n div 10), dig (n mod 10)]" by (simp only: unf g)
    moreover have "n div 10 div 10 = 0" "n div 10 mod 10 = n div 10" using g by simp_all
    ultimately show ?thesis by (simp only: pad0_4 dig_0 div_0 mod_0)
  next
    case 3
    then have g: "\<not> n < 10" "\<not> n div 10 < 10" "n div 10 div 10 < 10" by linarith+
    have "dec_nat n = [dig (n div 10 div 10), dig (n div 10 mod 10), dig (n mod 10)]"
      by (simp only: unf g)
    moreover have "n div 10 div 10 div 10 = 0" "n div 10 div 10 mod 10 = n div 10 div 10"
      using g by simp_all
    ultimately show ?thesis by (simp only: pad0_4 dig_0)
  next
    case 4
    then have g: "\<not> n < 10" "\<not> n div 10 < 10" "\<not> n div 10 div 10 < 10"
      "n div 10 div 10 div 10 < 10" using assms by linarith+
    have "dec_nat n = [dig (n div 10 div 10 div 10), dig (n div 10 div 10 mod 10),
        dig (n div 10 mod 10), dig (n mod 10)]"
      by (simp only: unf g)
    then show ?thesis by (simp add: pad0_def)
  qed
qed

lemma div_mod_10: "d < 10 \<Longrightarrow> (10 * q + d) div 10 = q" "d < 10 \<Longrightarrow> (10 * q + d) mod 10 = (d :: nat)"
  by simp_all

lemma int_div_mod_10: "10 * int (k div 10) + int (k mod 10) = int k"
  by (metis of_nat_add of_nat_mult of_nat_numeral mult_div_mod_eq)

lemma atoi2: "atoi [a, b] = 10 * digit_val a + digit_val b"
  by (simp add: atoi_def)

lemma atoi4: "atoi [a, b, c, d] =
  10 * (10 * (10 * digit_val a + digit_val b) + digit_val c) + digit_val d"
  by (simp add: atoi_def)


lemma parse_ymd_8:
  "parse_ymd [a, b, c, d, e, f, g, h] =
     (if list_all is_digit [a, b, c, d, e, f, g, h]
      then let y = atoi [a, b, c, d]; m = atoi [e, f]; k = atoi [g, h]
           in if valid_civil y m k then Some (day_of_civil y m k) else None
      else None)"
  by (simp add: parse_ymd_def valid_civil_def Let_def eval_nat_numeral)

lemma length_8:
  "length s = 8 \<Longrightarrow> \<exists>a b c d e f g h. s = [a, b, c, d, e, f, g, h]"
  by (auto simp: eval_nat_numeral length_Suc_conv)

lemma parse_ymd_Some:
  assumes "parse_ymd s = Some n"
  obtains y m d where "valid_civil y m d" "0 \<le> y" "y \<le> 9999" "n = day_of_civil y m d"
    "s = pad0 4 (dec_nat (nat y)) @ pad0 2 (dec_nat (nat m)) @ pad0 2 (dec_nat (nat d))"
proof -
  have "length s = 8" using assms by (simp add: parse_ymd_def split: if_splits)
  then obtain a b c d e f g h where s: "s = [a, b, c, d, e, f, g, h]" using length_8 by blast
  have dg: "list_all is_digit s" using assms unfolding s parse_ymd_8 by (simp split: if_splits)
  have all: "is_digit a" "is_digit b" "is_digit c" "is_digit d" "is_digit e" "is_digit f"
      "is_digit g" "is_digit h"
    using dg unfolding s by simp_all
  obtain a' b' c' d' where lt1: "a' < 10" "b' < 10" "c' < 10" "d' < 10"
    and ch1: "a = dig a'" "b = dig b'" "c = dig c'" "d = dig d'"
    using all(1-4) [THEN digit_char] by blast
  obtain e' f' g' h' where lt2: "e' < 10" "f' < 10" "g' < 10" "h' < 10"
    and ch2: "e = dig e'" "f = dig f'" "g = dig g'" "h = dig h'"
    using all(5-8) [THEN digit_char] by blast
  note lt = lt1 lt2 and ch = ch1 ch2
  define y where "y = 10 * (10 * (10 * a' + b') + c') + d'"
  have y4: "y < 10000" using lt by (simp add: y_def)
  define m where "m = 10 * e' + f'"
  define k where "k = 10 * g' + h'"
  have "atoi [a, b, c, d] = int y" "atoi [e, f] = int m" "atoi [g, h] = int k"
    using lt by (simp_all add: atoi4 atoi2 ch digit_val_dig y_def m_def k_def)
  then have v: "valid_civil (int y) (int m) (int k)" "n = day_of_civil (int y) (int m) (int k)"
    using assms unfolding s parse_ymd_8 by (simp_all add: Let_def split: if_splits)
  have "pad0 2 (dec_nat m) = [e, f]" "pad0 2 (dec_nat k) = [g, h]"
    using lt by (simp_all add: dec_pad2 m_def k_def ch)
  moreover have "pad0 4 (dec_nat y) = [a, b, c, d]"
    unfolding dec_pad4 [OF y4] unfolding y_def by (simp only: div_mod_10 lt ch)
  ultimately show ?thesis
    using v y4 by (intro that [of "int y" "int m" "int k"]) (simp_all add: s)
qed

text \<open>Printing a parsed date gives it back.\<close>

lemma format_parse_ymd: assumes "parse_ymd s = Some n" shows "format_ymd n = s"
  using assms
proof (rule parse_ymd_Some)
  fix y m d
  assume "valid_civil y m d" "0 \<le> y" "y \<le> 9999" "n = day_of_civil y m d"
    and "s = pad0 4 (dec_nat (nat y)) @ pad0 2 (dec_nat (nat m)) @ pad0 2 (dec_nat (nat d))"
  then show ?thesis by (simp add: format_ymd_def civil_of_day_of_civil)
qed

lemma parse_ymd_inj: "parse_ymd s = Some n \<Longrightarrow> parse_ymd t = Some n \<Longrightarrow> s = t"
  using format_parse_ymd by metis

text \<open>Parsing a printed date of a four-digit year gives it back.\<close>

lemma parse_format_ymd:
  assumes "0 \<le> year_of_day n" "year_of_day n \<le> 9999"
  shows "parse_ymd (format_ymd n) = Some n"
proof -
  obtain y m d where c: "civil_of_day n = (y, m, d)" by (cases "civil_of_day n") auto
  have y: "y = year_of_day n" using c by (auto simp: civil_of_day_def Let_def split: prod.splits)
  have v: "valid_civil y m d" "day_of_civil y m d = n"
    using civil_of_day_spec [OF c] by (auto simp: valid_civil_def)
  have b: "nat m < 100" "nat d < 100" "nat y < 10000" "0 \<le> m" "0 \<le> d" "0 \<le> y"
    using v(1) assms by (auto simp: valid_civil_def y days_in_def split: if_splits)
  have at2: "atoi [dig (k div 10), dig (k mod 10)] = int k" if "k < 100" for k
    using that by (simp add: atoi2 digit_val_dig less_mult_imp_div_less int_div_mod_10)
  have at4: "atoi [dig (k div 10 div 10 div 10), dig (k div 10 div 10 mod 10), dig (k div 10 mod 10),
      dig (k mod 10)] = int k" if "k < 10000" for k
  proof -
    have "k div 10 div 10 div 10 < 10" using that by linarith
    then show ?thesis
      by (simp only: atoi4 digit_val_dig int_div_mod_10 mod_less_divisor zero_less_numeral)
  qed
  show ?thesis
    using b assms v
    by (simp add: format_ymd_def c y [symmetric] dec_pad4 dec_pad2 parse_ymd_8 is_digit_dig
        less_mult_imp_div_less at2 at4 Let_def)
qed


section \<open>Instants and durations\<close>

text \<open>
  \<^verbatim>\<open>utcDay\<close> truncates an instant to its UTC calendar day; \<^verbatim>\<open>Weekday\<close> counts from
  Sunday = 0, and 1970-01-01 was a Thursday.
\<close>

definition day_of :: "instant \<Rightarrow> int" where
  "day_of t = t div day_ns"

definition weekday :: "int \<Rightarrow> int" where
  "weekday n = (n + 4) mod 7"

definition day_of_month :: "int \<Rightarrow> int" where
  "day_of_month n = snd (snd (civil_of_day n))"

abbreviation (input) Sunday :: int where "Sunday \<equiv> 0"
abbreviation (input) Friday :: int where "Friday \<equiv> 5"
abbreviation (input) Saturday :: int where "Saturday \<equiv> 6"

text \<open>\<^verbatim>\<open>Time.Sub\<close> saturates at the range of a 64-bit duration.\<close>

definition max_duration :: duration where "max_duration = 2 ^ 63 - 1"
definition min_duration :: duration where "min_duration = - (2 ^ 63)"

definition time_Sub :: "instant \<Rightarrow> instant \<Rightarrow> duration" where
  "time_Sub a b = max min_duration (min max_duration (a - b))"

text \<open>Go's integer division truncates towards zero.\<close>

definition go_div :: "int \<Rightarrow> int \<Rightarrow> int" where
  "go_div a b = sgn a * sgn b * (\<bar>a\<bar> div \<bar>b\<bar>)"

definition go_mod :: "int \<Rightarrow> int \<Rightarrow> int" where
  "go_mod a b = a - b * go_div a b"

text \<open>The result of a 64-bit signed operation, wrapped around.\<close>

definition wrap64 :: "int \<Rightarrow> int" where
  "wrap64 n = (n + 2 ^ 63) mod 2 ^ 64 - 2 ^ 63"

definition Hours :: "duration \<Rightarrow> f64" where
  "Hours d = f64_of_int (go_div d hour_ns) + f64_of_int (go_mod d hour_ns) / lit (60 * 60 * 10 ^ 9)"

lemma go_div_mult: "0 < b \<Longrightarrow> go_div (k * b) b = k"
  by (simp add: go_div_def abs_mult sgn_mult mult_sgn_abs)

lemma Hours_days:
  assumes "\<bar>k\<bar> \<le> 10 ^ 9" shows "Hours (k * day_ns) = Fin (of_int (24 * k))"
proof -
  have d: "k * day_ns = (24 * k) * hour_ns" by (simp add: day_ns_def hour_ns_def)
  have q: "go_div (k * day_ns) hour_ns = 24 * k"
    unfolding d by (rule go_div_mult) (simp add: hour_ns_def)
  have r: "go_mod (k * day_ns) hour_ns = 0"
    unfolding go_mod_def q unfolding d by simp
  have "rnd (of_int (24 * k)) = Fin (of_int (24 * k))"
    using assms by (intro rnd_of_int) simp
  moreover have "Fin 0 / lit (60 * 60 * 10 ^ 9) = Fin 0"
    by (simp add: f64_simps)
  ultimately show ?thesis
    unfolding Hours_def q r f64_of_int_def by simp
qed

lemma time_Sub_days:
  assumes "\<bar>a - b\<bar> \<le> 106751" shows "time_Sub (a * day_ns) (b * day_ns) = (a - b) * day_ns"
  using assms
  by (simp add: time_Sub_def max_duration_def min_duration_def day_ns_def left_diff_distrib abs_le_iff)

end
