(* ===== verification/Market_Types.thy ===== *)
theory Market_Types
  imports GoTime
begin

text \<open>
  Package \<^verbatim>\<open>market\<close>, the domain types (\<^verbatim>\<open>types.go\<close>) and the index-contract primitives
  (\<^verbatim>\<open>index.go\<close>): contracts, chains, the read-model records of a snapshot, the
  class-to-settlement table and the days to expiry of a contract.
\<close>

section \<open>Contracts and chains\<close>

definition RightCall :: string where "RightCall = ''C''"
definition RightPut :: string where "RightPut = ''P''"

definition DefaultMultiplier :: f64 where "DefaultMultiplier = lit 100"

record contract =
  cConId :: int
  cTicker :: string
  cStrike :: f64
  cRight :: string
  cExpiryDate :: string
  cTradingClass :: string
  cMultiplier :: f64
  cOpenInterest :: f64
  cExchange :: string
  cSettlement :: string
  cSDTier :: f64
  cIV :: f64
  cBid :: f64
  cAsk :: f64

record chain_snapshot =
  chTicker :: string
  chSpot :: f64
  chAsOfMs :: int
  chContracts :: "contract list"
  chUnderlyingType :: string
  chExchange :: string

text \<open>
  The errors of the package, one constructor per failure of the sources; the message
  texts are not modelled.
\<close>

datatype market_error =
    BadExpiry string
  | NoFutureExpiry
  | BadBaselineIV
  | EmptyChain
  | FilterRemovedAll
  | SelectionKeptNone
  | InvalidSnapshot
  | UnknownTicker string
  | NoContracts

text \<open>
  Calendar days from \<open>asOf\<close> to the expiry, both at UTC midnight:
  \<^verbatim>\<open>exp.Sub(utcDay(asOf)).Hours() / 24\<close>.
\<close>

definition DTE_expiry :: "string \<Rightarrow> instant \<Rightarrow> market_error + f64" where
  "DTE_expiry expiry asOf =
     (case parse_ymd expiry of
        None \<Rightarrow> Inl (BadExpiry expiry)
      | Some e \<Rightarrow> Inr (Hours (time_Sub (e * day_ns) (day_of asOf * day_ns)) / lit 24))"

definition DTE :: "contract \<Rightarrow> instant \<Rightarrow> market_error + f64" where
  "DTE c asOf = DTE_expiry (cExpiryDate c) asOf"

lemma DTE_days:
  assumes "parse_ymd (cExpiryDate c) = Some e" "\<bar>e - day_of asOf\<bar> \<le> 106751"
  shows "DTE c asOf = Inr (Fin (of_int (e - day_of asOf)))"
proof -
  let ?k = "e - day_of asOf"
  have "(of_int (24 * ?k) :: real) / 24 = of_int ?k" by simp
  then have "Fin (of_int (24 * ?k)) / lit 24 = Fin (of_int ?k)"
    using assms(2) rnd_of_int [of ?k] by (simp add: f64_simps del: of_int_mult of_int_diff)
  then show ?thesis
    using assms by (simp add: DTE_def DTE_expiry_def time_Sub_days Hours_days)
qed

section \<open>Read-model records\<close>

definition RegimePositive :: string where "RegimePositive = ''POSITIVE_GAMMA''"
definition RegimeNegative :: string where "RegimeNegative = ''NEGATIVE_GAMMA''"

definition RegimeFor :: "f64 \<Rightarrow> string" where
  "RegimeFor totalGEX = (if totalGEX > 0 then RegimePositive else RegimeNegative)"

record totals =
  tGEX :: f64
  tDEX :: f64
  tVEX :: f64
  tCHEX :: f64

record wall =
  wStrike :: f64
  wHasWall :: bool
  wBestGEX :: f64

record strike_exposure =
  seStrike :: f64
  seCallGEX :: f64
  sePutGEX :: f64
  seNetGEX :: f64

record spot_gex_point =
  sgSpot :: f64
  sgTotalGEX :: f64

record skew_point =
  skStrike :: f64
  skRight :: string
  skIV :: f64
  skDelta :: f64

record expiry_gex =
  egExpiry :: string
  egDTE :: f64
  egSigmaBar :: f64
  egTotals :: totals
  egPerStrike :: "strike_exposure list"
  egSkew :: "skew_point list"
  egClass :: string

record flip_result =
  frHasFlip :: bool
  frFlipSpot :: f64
  frProfile :: "spot_gex_point list"

record class_gex =
  cgTradingClass :: string
  cgSettlement :: string
  cgContracts :: int
  cgTotals :: totals
  cgCallWall :: wall
  cgPutWall :: wall
  cgPerStrike :: "strike_exposure list"

record snapshot =
  snTicker :: string
  snAsOfMs :: int
  snSpot :: f64
  snTotals :: totals
  snCallWall :: wall
  snPutWall :: wall
  snHasGammaFlip :: bool
  snGammaFlipSpot :: f64
  snRegime :: string
  snPerStrike :: "strike_exposure list"
  snPerExpiry :: "expiry_gex list"
  snSpotProfile :: "spot_gex_point list"
  snClasses :: "class_gex list"

text \<open>Go's zero values of the composite types.\<close>

definition zero_totals :: totals where
  "zero_totals = \<lparr>tGEX = 0, tDEX = 0, tVEX = 0, tCHEX = 0\<rparr>"

definition zero_wall :: wall where
  "zero_wall = \<lparr>wStrike = 0, wHasWall = False, wBestGEX = 0\<rparr>"

section \<open>Index contracts\<close>

definition SettlementAM :: string where "SettlementAM = ''AM''"
definition SettlementPM :: string where "SettlementPM = ''PM''"
definition SecTypeSTK :: string where "SecTypeSTK = ''STK''"
definition SecTypeIND :: string where "SecTypeIND = ''IND''"

record index_chain_spec =
  icTicker :: string
  icMonthlyClass :: string
  icWeeklyClass :: string
  icExchange :: string

definition indexSpecs :: "string \<rightharpoonup> index_chain_spec" where
  "indexSpecs = map_of
     [(''SPX'', \<lparr>icTicker = ''SPX'', icMonthlyClass = ''SPX'', icWeeklyClass = ''SPXW'', icExchange = ''CBOE''\<rparr>),
      (''NDX'', \<lparr>icTicker = ''NDX'', icMonthlyClass = ''NDX'', icWeeklyClass = ''NDXP'', icExchange = ''CBOE''\<rparr>),
      (''RUT'', \<lparr>icTicker = ''RUT'', icMonthlyClass = ''RUT'', icWeeklyClass = ''RUTW'', icExchange = ''CBOE''\<rparr>),
      (''VIX'', \<lparr>icTicker = ''VIX'', icMonthlyClass = ''VIX'', icWeeklyClass = ''VIXW'', icExchange = ''CBOE''\<rparr>)]"

definition LookupIndex :: "string \<Rightarrow> index_chain_spec option" where
  "LookupIndex ticker = indexSpecs (ToUpper ticker)"

definition classSettlement :: "string \<rightharpoonup> string" where
  "classSettlement = map_of
     [(''SPX'', SettlementAM), (''SPXW'', SettlementPM),
      (''NDX'', SettlementAM), (''NDXP'', SettlementPM),
      (''RUT'', SettlementAM), (''RUTW'', SettlementPM),
      (''VIX'', SettlementAM), (''VIXW'', SettlementAM)]"

definition ClassSettlement :: "string \<Rightarrow> string option" where
  "ClassSettlement c = classSettlement (ToUpper (TrimSpace c))"

definition SettlementOf :: "contract \<Rightarrow> string" where
  "SettlementOf c =
     (if cSettlement c = SettlementAM \<or> cSettlement c = SettlementPM then cSettlement c
      else case ClassSettlement (cTradingClass c) of Some s \<Rightarrow> s | None \<Rightarrow> [])"

definition IsIndexUnderlying :: "string \<Rightarrow> string \<Rightarrow> bool" where
  "IsIndexUnderlying ticker underlyingType =
     (if underlyingType = SecTypeIND then True
      else if underlyingType = SecTypeSTK then False
      else LookupIndex ticker \<noteq> None)"

text \<open>The settlement code a contract resolves to is one of the three legal values.\<close>

lemma classSettlement_range: "classSettlement k = Some s \<Longrightarrow> s \<in> {SettlementAM, SettlementPM}"
  unfolding classSettlement_def by (drule map_of_SomeD) (auto simp: SettlementAM_def SettlementPM_def)

lemma SettlementOf_range: "SettlementOf c \<in> {SettlementAM, SettlementPM, []}"
  using classSettlement_range by (auto simp: SettlementOf_def ClassSettlement_def split: option.splits)

lemma SettlementOf_explicit:
  "cSettlement c \<in> {SettlementAM, SettlementPM} \<Longrightarrow> SettlementOf c = cSettlement c"
  by (auto simp: SettlementOf_def)

text \<open>
  Both classes of a known index have a settlement convention, so a contract of a known
  index chain never resolves to the unknown settlement.
\<close>

lemma index_classes_settle:
  assumes "LookupIndex t = Some spec" "cTradingClass c \<in> {icMonthlyClass spec, icWeeklyClass spec}"
  shows "SettlementOf c \<in> {SettlementAM, SettlementPM}"
proof -
  have "cTradingClass c \<in>
      {''SPX'', ''SPXW'', ''NDX'', ''NDXP'', ''RUT'', ''RUTW'', ''VIX'', ''VIXW''}"
    using assms by (auto simp: LookupIndex_def indexSpecs_def split: if_splits)
  moreover have "\<exists>s. ClassSettlement k = Some s"
    if "k \<in> {''SPX'', ''SPXW'', ''NDX'', ''NDXP'', ''RUT'', ''RUTW'', ''VIX'', ''VIXW''}" for k
  proof -
    have "ToUpper (TrimSpace k) = k" using that by auto code_simp+
    then show ?thesis using that by (auto simp: ClassSettlement_def classSettlement_def)
  qed
  ultimately obtain s where "ClassSettlement (cTradingClass c) = Some s" by blast
  then show ?thesis
    using classSettlement_range by (auto simp: SettlementOf_def ClassSettlement_def)
qed

end
