(* ===== verification/Market_Select.thy ===== *)
theory Market_Select
  imports Market_Types
begin

text \<open>
  Package \<^verbatim>\<open>market\<close>, chain selection (\<^verbatim>\<open>select.go\<close>): the expiry traversal, the two
  forms of it over a chain, and the two-standard-deviation strike filter. Days are
  numbers; a \<^verbatim>\<open>time.Time\<close> at UTC midnight is its day times \<open>day_ns\<close>. Where Go ranges
  over a map the model ranges in order of first occurrence: the results below do not
  depend on it.
\<close>

section \<open>SelectExpiries\<close>

text \<open>The first loop: parse, drop the past, drop repeated strings.\<close>

fun valid_dates :: "int \<Rightarrow> string list \<Rightarrow> string list \<Rightarrow> market_error + int list" where
  "valid_dates today seen [] = Inr []"
| "valid_dates today seen (d # ds) =
     (case parse_ymd d of
        None \<Rightarrow> Inl (BadExpiry d)
      | Some t \<Rightarrow>
          if t < today then valid_dates today seen ds
          else if d \<in> set seen then valid_dates today seen ds
          else bind_res (valid_dates today (d # seen) ds) (\<lambda>ts. Inr (t # ts)))"

definition absDuration :: "duration \<Rightarrow> duration" where
  "absDuration d = (if d < 0 then (if d = min_duration then d else - d) else d)"

definition day_dist :: "int \<Rightarrow> int \<Rightarrow> duration" where
  "day_dist a b = absDuration (time_Sub (a * day_ns) (b * day_ns))"

definition is_friday :: "int \<Rightarrow> bool" where
  "is_friday t \<longleftrightarrow> weekday t = Friday"

text \<open>One turn of the search for the array Friday nearest to \<open>closest\<close>.\<close>

definition nearer_friday :: "int \<Rightarrow> int \<Rightarrow> int option \<Rightarrow> int option" where
  "nearer_friday closest t best =
     (if \<not> is_friday t then best
      else case best of
             None \<Rightarrow> Some t
           | Some b \<Rightarrow> if day_dist t closest < day_dist b closest then Some t else best)"

definition add_pick :: "int \<Rightarrow> int list \<Rightarrow> int list" where
  "add_pick t pick = (if t \<in> set pick then pick else pick @ [t])"

definition primary_friday :: "int list \<Rightarrow> int \<Rightarrow> int" where
  "primary_friday valid closest =
     (if is_friday closest then closest
      else case fold (nearer_friday closest) valid None of None \<Rightarrow> closest | Some b \<Rightarrow> b)"

definition is_monthly :: "int \<Rightarrow> bool" where
  "is_monthly t \<longleftrightarrow> is_friday t \<and> 15 \<le> day_of_month t \<and> day_of_month t \<le> 21"

definition add_found :: "int option \<Rightarrow> int list \<Rightarrow> int list" where
  "add_found r pick = (case r of None \<Rightarrow> pick | Some t \<Rightarrow> add_pick t pick)"

definition expiry_picks_list :: "int list \<Rightarrow> int list" where
  "expiry_picks_list valid =
     (let closest = hd valid;
          primary = primary_friday valid closest;
          pick1 = add_pick primary (add_pick closest []);
          pick2 = add_found (find (\<lambda>t. primary < t \<and> is_friday t) valid) pick1
      in add_found (find is_monthly valid) pick2)"

definition SelectExpiries :: "string list \<Rightarrow> instant \<Rightarrow> market_error + string list" where
  "SelectExpiries dates today =
     bind_res (valid_dates (day_of today) [] dates)
       (\<lambda>valid. if valid = [] then Inl NoFutureExpiry
                else Inr (map format_ymd (sort (expiry_picks_list (sort valid)))))"

section \<open>The traversal over a chain\<close>

definition SelectedExpiries :: "chain_snapshot \<Rightarrow> instant \<Rightarrow> market_error + chain_snapshot \<times> string list" where
  "SelectedExpiries chain today =
     bind_res (SelectExpiries (firsts [] (map cExpiryDate (chContracts chain))) today)
       (\<lambda>pick. let kept = filter (\<lambda>c. cExpiryDate c \<in> set pick) (chContracts chain)
               in if kept = [] then Inl SelectionKeptNone
                  else Inr (chain\<lparr>chContracts := kept\<rparr>, pick))"

definition class_key :: "string \<Rightarrow> string \<Rightarrow> string" where
  "class_key cls d = cls @ CHR 0x00 # d"

text \<open>The picks of one class over its own listing dates; a class that fails yields none.\<close>

definition class_picks :: "chain_snapshot \<Rightarrow> instant \<Rightarrow> string \<Rightarrow> string list" where
  "class_picks chain today cls =
     (case SelectExpiries (firsts [] (map cExpiryDate
             (filter (\<lambda>c. cTradingClass c = cls) (chContracts chain)))) today of
        Inl _ \<Rightarrow> [] | Inr pick \<Rightarrow> pick)"

definition SelectedExpiriesByClass ::
  "chain_snapshot \<Rightarrow> instant \<Rightarrow> market_error + chain_snapshot \<times> string list" where
  "SelectedExpiriesByClass chain today =
     (let classes = firsts [] (map cTradingClass (chContracts chain)) in
      if length classes \<le> 1 then SelectedExpiries chain today
      else
        let picks = map (\<lambda>cls. (cls, class_picks chain today cls)) classes;
            keep = concat (map (\<lambda>(cls, ds). map (class_key cls) ds) picks);
            uni = firsts [] (concat (map snd picks));
            kept = filter (\<lambda>c. class_key (cTradingClass c) (cExpiryDate c) \<in> set keep)
                     (chContracts chain)
        in if keep = [] \<or> kept = [] then Inl SelectionKeptNone
           else Inr (chain\<lparr>chContracts := kept\<rparr>, sort uni))"

section \<open>FilterChain\<close>

definition filter_sd :: "f64 \<Rightarrow> f64 \<Rightarrow> f64 \<Rightarrow> f64" where
  "filter_sd spot baselineIV dte = spot * baselineIV * math_Sqrt (math_Max dte 1 / lit 365)"

fun filter_contracts :: "f64 \<Rightarrow> f64 \<Rightarrow> instant \<Rightarrow> contract list \<Rightarrow> market_error + contract list" where
  "filter_contracts spot iv asOf [] = Inr []"
| "filter_contracts spot iv asOf (c # cs) =
     bind_res (DTE c asOf) (\<lambda>dte.
       if dte < 0 then filter_contracts spot iv asOf cs
       else
         let sd = filter_sd spot iv dte; dist = cStrike c - spot in
         if \<bar>dist\<bar> > lit 2 * sd then filter_contracts spot iv asOf cs
         else bind_res (filter_contracts spot iv asOf cs)
                (\<lambda>out. Inr (c\<lparr>cSDTier := dist / sd\<rparr> # out)))"

definition FilterChain :: "chain_snapshot \<Rightarrow> f64 \<Rightarrow> instant \<Rightarrow> market_error + chain_snapshot" where
  "FilterChain chain baselineIV asOf =
     (if baselineIV \<le> 0 \<or> \<not> finite64 baselineIV then Inl BadBaselineIV
      else if chContracts chain = [] then Inl EmptyChain
      else bind_res (filter_contracts (chSpot chain) baselineIV asOf (chContracts chain))
        (\<lambda>out. if out = [] then Inl FilterRemovedAll else Inr (chain\<lparr>chContracts := out\<rparr>)))"

section \<open>Lemmas\<close>

subsection \<open>The dates that survive\<close>

definition future_days :: "string list \<Rightarrow> int \<Rightarrow> int set" where
  "future_days dates today = {t. \<exists>d \<in> set dates. parse_ymd d = Some t \<and> today \<le> t}"

lemma valid_dates_ok:
  assumes "\<forall>d \<in> set dates. parse_ymd d \<noteq> None"
  obtains ts where "valid_dates today seen dates = Inr ts" "distinct ts"
    "set ts = {t. \<exists>d \<in> set dates - set seen. parse_ymd d = Some t \<and> today \<le> t}"
  using assms
proof (induction dates arbitrary: seen thesis)
  case Nil
  from Nil(1) [of "[]"] show ?case by simp
next
  case (Cons d ds)
  obtain t where t: "parse_ymd d = Some t" using Cons.prems(2) by auto
  have ds: "\<forall>d \<in> set ds. parse_ymd d \<noteq> None" using Cons.prems(2) by simp
  show ?case
  proof (cases "t < today \<or> d \<in> set seen")
    case True
    obtain ts where ts: "valid_dates today seen ds = Inr ts" "distinct ts"
      "set ts = {t. \<exists>d \<in> set ds - set seen. parse_ymd d = Some t \<and> today \<le> t}"
      by (rule Cons.IH [OF _ ds, of seen]) blast
    show ?thesis
      by (rule Cons.prems(1) [of ts]) (use ts True t in auto)
  next
    case False
    obtain ts where ts: "valid_dates today (d # seen) ds = Inr ts" "distinct ts"
      "set ts = {t. \<exists>d' \<in> set ds - set (d # seen). parse_ymd d' = Some t \<and> today \<le> t}"
      by (rule Cons.IH [OF _ ds, of "d # seen"]) blast
    have "t \<notin> set ts"
      using parse_ymd_inj [OF t] unfolding ts(3) by auto
    then show ?thesis
      by (intro Cons.prems(1) [of "t # ts"]) (use ts False t in auto)
  qed
qed

lemma valid_dates_ok_top:
  assumes "\<forall>d \<in> set dates. parse_ymd d \<noteq> None"
  obtains ts where "valid_dates today [] dates = Inr ts" "distinct ts"
    "set ts = future_days dates today"
  by (rule valid_dates_ok [OF assms, of today "[]"]) (simp add: future_days_def that)

subsection \<open>The nearest Friday is the first one\<close>

lemma time_Sub_mono: "a \<le> b \<Longrightarrow> time_Sub a c \<le> time_Sub b c"
  by (simp add: time_Sub_def min_def max_def)

lemma day_dist_mono: assumes "c \<le> a" "a \<le> b" shows "day_dist a c \<le> day_dist b c"
proof -
  have d: "0 < day_ns" by (simp add: day_ns_def)
  have "a * day_ns \<le> b * day_ns" "c * day_ns \<le> a * day_ns"
    using assms d by (simp_all add: mult_right_mono)
  then have "time_Sub (a * day_ns) (c * day_ns) \<le> time_Sub (b * day_ns) (c * day_ns)"
    "0 \<le> time_Sub (a * day_ns) (c * day_ns)"
    by (auto simp: time_Sub_mono) (simp add: time_Sub_def max_duration_def)
  then show ?thesis by (simp add: day_dist_def absDuration_def)
qed

lemma nearer_friday_keeps:
  "\<forall>t \<in> set xs. b \<le> t \<Longrightarrow> c \<le> b \<Longrightarrow> fold (nearer_friday c) xs (Some b) = Some b"
proof (induction xs)
  case (Cons x xs)
  have "day_dist b c \<le> day_dist x c" using Cons.prems by (intro day_dist_mono) simp_all
  then have "nearer_friday c x (Some b) = Some b" by (simp add: nearer_friday_def)
  then show ?case using Cons by simp
qed simp

lemma nearest_friday_first:
  assumes "sorted xs" "\<forall>t \<in> set xs. c \<le> t"
  shows "fold (nearer_friday c) xs None = find is_friday xs"
  using assms
proof (induction xs)
  case (Cons x xs)
  have "nearer_friday c x None = (if is_friday x then Some x else None)"
    by (simp add: nearer_friday_def)
  with Cons show ?case by (cases "is_friday x") (simp_all add: nearer_friday_keeps)
qed simp

subsection \<open>The four rules as sets\<close>

text \<open>
  What the traversal promises, over the set of future listing days: the nearest day, the
  primary Friday, the next Friday after it, the nearest third-Friday monthly.
\<close>

definition least :: "int set \<Rightarrow> int set" where
  "least A = (if A = {} then {} else {Min A})"

definition fridays :: "int set \<Rightarrow> int set" where
  "fridays V = {t \<in> V. is_friday t}"

definition primary_of :: "int set \<Rightarrow> int" where
  "primary_of V =
     (if is_friday (Min V) \<or> fridays V = {} then Min V else Min (fridays V))"

definition expiry_picks :: "int set \<Rightarrow> int set" where
  "expiry_picks V =
     {Min V, primary_of V} \<union> least {t \<in> fridays V. primary_of V < t}
       \<union> least {t \<in> V. is_monthly t}"

lemma primary_friday_of:
  assumes "sorted xs" "xs \<noteq> []"
  shows "primary_friday xs (hd xs) = primary_of (set xs)"
proof -
  have h: "hd xs = Min (set xs)" using assms by (cases xs) (auto intro!: Min_eqI [symmetric])
  have "\<forall>t \<in> set xs. hd xs \<le> t" using assms by (cases xs) auto
  from nearest_friday_first [OF assms(1) this] show ?thesis
    unfolding primary_friday_def primary_of_def fridays_def find_sorted_Min [OF assms(1)] h
    by auto
qed

lemma set_add_pick [simp]: "set (add_pick t pick) = insert t (set pick)"
  by (simp add: add_pick_def insert_absorb)

lemma distinct_add_pick [simp]: "distinct (add_pick t pick) \<longleftrightarrow> distinct pick"
  by (simp add: add_pick_def)

lemma set_add_found: "set (add_found r pick) = set pick \<union> set_option r"
  by (auto simp: add_found_def split: option.splits)

lemma distinct_add_found: "distinct pick \<Longrightarrow> distinct (add_found r pick)"
  by (auto simp: add_found_def split: option.splits)

lemma length_add_pick: "length (add_pick t pick) \<le> Suc (length pick)"
  by (simp add: add_pick_def)

lemma length_add_found: "length (add_found r pick) \<le> Suc (length pick)"
  by (simp add: add_found_def length_add_pick split: option.splits)

lemma set_find_sorted: "sorted xs \<Longrightarrow> set_option (find P xs) = least {t \<in> set xs. P t}"
  by (simp add: find_sorted_Min least_def)

lemma expiry_picks_list_spec:
  assumes "sorted xs" "xs \<noteq> []"
  shows "set (expiry_picks_list xs) = expiry_picks (set xs)"
    and "distinct (expiry_picks_list xs)" and "length (expiry_picks_list xs) \<le> 4"
proof -
  have h: "hd xs = Min (set xs)" using assms by (cases xs) (auto intro!: Min_eqI [symmetric])
  have f: "{t \<in> set xs. primary_of (set xs) < t \<and> is_friday t} =
      {t \<in> fridays (set xs). primary_of (set xs) < t}"
    by (auto simp: fridays_def)
  show "set (expiry_picks_list xs) = expiry_picks (set xs)"
    unfolding expiry_picks_list_def Let_def set_add_found set_find_sorted [OF assms(1)]
      primary_friday_of [OF assms] f expiry_picks_def
    by (auto simp: h)
  show "distinct (expiry_picks_list xs)"
    unfolding expiry_picks_list_def Let_def
    by (intro distinct_add_found) (simp add: add_pick_def)
  show "length (expiry_picks_list xs) \<le> 4"
    unfolding expiry_picks_list_def Let_def
    by (intro order_trans [OF length_add_found])
      (simp add: order_trans [OF length_add_found] order_trans [OF length_add_pick] add_pick_def)
qed

lemma SelectExpiries_eq:
  assumes "\<forall>d \<in> set dates. parse_ymd d \<noteq> None"
  shows "SelectExpiries dates today =
    (let V = future_days dates (day_of today) in
     if V = {} then Inl NoFutureExpiry
     else Inr (map format_ymd (sorted_list_of_set (expiry_picks V))))"
proof -
  obtain ts where ts: "valid_dates (day_of today) [] dates = Inr ts" "distinct ts"
    "set ts = future_days dates (day_of today)"
    by (rule valid_dates_ok_top [OF assms])
  show ?thesis
  proof (cases "ts = []")
    case True
    then show ?thesis using ts by (simp add: SelectExpiries_def Let_def)
  next
    case False
    then have s: "sorted (sort ts)" "sort ts \<noteq> []" by (auto simp flip: set_empty)
    have "sort (expiry_picks_list (sort ts)) =
        sorted_list_of_set (expiry_picks (future_days dates (day_of today)))"
      using expiry_picks_list_spec [OF s] by (simp add: sort_distinct_set ts(3))
    then show ?thesis using ts False by (auto simp: SelectExpiries_def Let_def)
  qed
qed


lemma finite_future_days:
  "V = future_days dates today \<Longrightarrow> finite V"
proof -
  have "future_days dates today \<subseteq> the ` parse_ymd ` set dates"
    by (force simp: future_days_def image_iff)
  then show "V = future_days dates today \<Longrightarrow> finite V" by (meson finite_imageI finite_set finite_subset)
qed

lemma least_subset: "finite A \<Longrightarrow> least A \<subseteq> A"
  by (simp add: least_def)

lemma expiry_picks_subset: assumes "finite V" "V \<noteq> {}" shows "expiry_picks V \<subseteq> V"
proof -
  have f: "finite (fridays V)" using assms by (simp add: fridays_def)
  have "fridays V \<subseteq> V" by (auto simp: fridays_def)
  then have p: "primary_of V \<in> V" using assms Min_in [OF f] by (auto simp: primary_of_def)
  have "least {t \<in> fridays V. primary_of V < t} \<subseteq> V" "least {t \<in> V. is_monthly t} \<subseteq> V"
    using least_subset [of "{t \<in> fridays V. primary_of V < t}"] least_subset [of "{t \<in> V. is_monthly t}"]
      f assms \<open>fridays V \<subseteq> V\<close> by auto
  with p assms show ?thesis by (auto simp: expiry_picks_def)
qed

lemma card_least: "card (least A) \<le> 1"
  by (simp add: least_def)

lemma card_expiry_picks: "card (expiry_picks V) \<le> 4"
proof -
  have "card (expiry_picks V) \<le> card {Min V, primary_of V}
      + card (least {t \<in> fridays V. primary_of V < t}) + card (least {t \<in> V. is_monthly t})"
    unfolding expiry_picks_def
    by (rule order_trans [OF card_Un_le]) (rule add_right_mono [OF card_Un_le])
  also have "\<dots> \<le> 2 + 1 + 1"
    by (intro add_mono card_least) (simp add: card_insert_if)
  finally show ?thesis by simp
qed

lemma finite_expiry_picks: "finite V \<Longrightarrow> V \<noteq> {} \<Longrightarrow> finite (expiry_picks V)"
  by (rule finite_subset [OF expiry_picks_subset])

text \<open>A picked day is printed as the listing string it came from.\<close>

lemma format_future_day: "t \<in> future_days dates today \<Longrightarrow> format_ymd t \<in> set dates"
  by (auto simp: future_days_def format_parse_ymd)

lemma format_ymd_inj_on: "inj_on format_ymd (future_days dates today)"
  by (auto simp: inj_on_def future_days_def) (metis format_parse_ymd option.inject)

lemma SelectExpiries_Inr:
  assumes "\<forall>d \<in> set dates. parse_ymd d \<noteq> None" "SelectExpiries dates today = Inr pick"
  shows "pick \<noteq> [] \<and> length pick \<le> 4 \<and> distinct pick \<and> set pick \<subseteq> set dates"
proof -
  define V where "V = future_days dates (day_of today)"
  have fin: "finite V" by (rule finite_future_days [OF V_def])
  have ne: "V \<noteq> {}" and p: "pick = map format_ymd (sorted_list_of_set (expiry_picks V))"
    using assms unfolding SelectExpiries_eq [OF assms(1)] by (simp_all add: V_def Let_def split: if_splits)
  have sub: "expiry_picks V \<subseteq> V" by (rule expiry_picks_subset [OF fin ne])
  have f: "finite (expiry_picks V)" by (rule finite_expiry_picks [OF fin ne])
  have "Min V \<in> expiry_picks V" by (simp add: expiry_picks_def)
  then have "expiry_picks V \<noteq> {}" by blast
  then have a: "pick \<noteq> []" using f by (simp add: p)
  have b: "length pick \<le> 4" using card_expiry_picks f by (simp add: p)
  have "inj_on format_ymd (expiry_picks V)"
    using format_ymd_inj_on sub unfolding V_def by (rule inj_on_subset)
  then have c: "distinct pick" using f by (simp add: p distinct_map)
  have d: "set pick \<subseteq> set dates"
    using sub f format_future_day unfolding V_def by (auto simp: p V_def)
  from a b c d show ?thesis by blast
qed

subsection \<open>Selection over a chain\<close>

lemma SelectedExpiries_Inr:
  assumes "SelectedExpiries chain today = Inr (out, pick)"
  shows "out = chain\<lparr>chContracts := filter (\<lambda>c. cExpiryDate c \<in> set pick) (chContracts chain)\<rparr>
    \<and> chContracts out \<noteq> []
    \<and> SelectExpiries (firsts [] (map cExpiryDate (chContracts chain))) today = Inr pick"
  using assms unfolding SelectedExpiries_def bind_res_Inr_iff
  by (auto simp: Let_def split: if_splits)

lemma class_key_inj:
  assumes "CHR 0x00 \<notin> set a" "CHR 0x00 \<notin> set b"
  shows "class_key a d = class_key b e \<longleftrightarrow> a = b \<and> d = e"
proof
  assume "class_key a d = class_key b e"
  then have "takeWhile (\<lambda>x. x \<noteq> CHR 0x00) (a @ CHR 0x00 # d) = takeWhile (\<lambda>x. x \<noteq> CHR 0x00) (b @ CHR 0x00 # e)"
    by (simp add: class_key_def)
  moreover have "takeWhile (\<lambda>x. x \<noteq> CHR 0x00) (s @ CHR 0x00 # t) = s" if "CHR 0x00 \<notin> set s" for s t
    using that by (induction s) auto
  ultimately have "a = b" using assms by simp
  with \<open>class_key a d = class_key b e\<close> show "a = b \<and> d = e" by (simp add: class_key_def)
qed simp

text \<open>On a mixed chain a contract is kept exactly when its own class picked its expiry.\<close>

lemma SelectedExpiriesByClass_mixed:
  assumes nul: "\<forall>c \<in> set (chContracts chain). CHR 0x00 \<notin> set (cTradingClass c)"
    and mixed: "1 < card (cTradingClass ` set (chContracts chain))"
    and ok: "SelectedExpiriesByClass chain today = Inr (out, u)"
  shows "chContracts out = filter (\<lambda>c. cExpiryDate c \<in> set (class_picks chain today (cTradingClass c)))
      (chContracts chain)"
proof -
  let ?cl = "firsts [] (map cTradingClass (chContracts chain))"
  have set: "set ?cl = cTradingClass ` set (chContracts chain)" by (simp add: set_firsts)
  have "length ?cl = card (set ?cl)" by (simp add: distinct_card distinct_firsts)
  with mixed set have l: "\<not> length ?cl \<le> 1" by simp
  define keep where "keep = concat (map (\<lambda>(cls, ds). map (class_key cls) ds)
      (map (\<lambda>cls. (cls, class_picks chain today cls)) ?cl))"
  have out: "chContracts out =
      filter (\<lambda>c. class_key (cTradingClass c) (cExpiryDate c) \<in> set keep) (chContracts chain)"
    using ok l unfolding SelectedExpiriesByClass_def keep_def [symmetric]
    by (auto simp: Let_def keep_def split: if_splits)
  have "class_key (cTradingClass c) (cExpiryDate c) \<in> set keep \<longleftrightarrow>
      cExpiryDate c \<in> set (class_picks chain today (cTradingClass c))"
    if c: "c \<in> set (chContracts chain)" for c
  proof -
    have "class_key (cTradingClass c) (cExpiryDate c) \<in> set keep \<longleftrightarrow>
        (\<exists>c' \<in> set (chContracts chain). \<exists>d \<in> set (class_picks chain today (cTradingClass c')).
           class_key (cTradingClass c) (cExpiryDate c) = class_key (cTradingClass c') d)"
      by (auto simp: keep_def set)
    also have "\<dots> \<longleftrightarrow> cExpiryDate c \<in> set (class_picks chain today (cTradingClass c))"
      using nul c by (auto simp: class_key_inj)
    finally show ?thesis .
  qed
  then show ?thesis unfolding out by (intro filter_cong) simp_all
qed


subsection \<open>The strike filter\<close>

definition in_window :: "f64 \<Rightarrow> f64 \<Rightarrow> instant \<Rightarrow> contract \<Rightarrow> bool" where
  "in_window spot iv asOf c =
     (case DTE c asOf of
        Inl _ \<Rightarrow> False
      | Inr dte \<Rightarrow> \<not> dte < 0 \<and> \<not> \<bar>cStrike c - spot\<bar> > lit 2 * filter_sd spot iv dte)"

definition stamp_tier :: "f64 \<Rightarrow> f64 \<Rightarrow> instant \<Rightarrow> contract \<Rightarrow> contract" where
  "stamp_tier spot iv asOf c =
     (case DTE c asOf of
        Inl _ \<Rightarrow> c
      | Inr dte \<Rightarrow> c\<lparr>cSDTier := (cStrike c - spot) / filter_sd spot iv dte\<rparr>)"

lemma filter_contracts_spec:
  "filter_contracts spot iv asOf cs =
     (case find (\<lambda>c. parse_ymd (cExpiryDate c) = None) cs of
        Some c \<Rightarrow> Inl (BadExpiry (cExpiryDate c))
      | None \<Rightarrow> Inr (map (stamp_tier spot iv asOf) (filter (in_window spot iv asOf) cs)))"
proof (induction cs)
  case Nil
  show ?case by simp
next
  case (Cons c cs)
  show ?case
  proof (cases "parse_ymd (cExpiryDate c)")
    case None
    then show ?thesis by (simp add: DTE_def DTE_expiry_def)
  next
    case (Some e)
    then obtain dte where "DTE c asOf = Inr dte" by (simp add: DTE_def DTE_expiry_def)
    then show ?thesis
      using Cons Some
      by (cases "find (\<lambda>c. parse_ymd (cExpiryDate c) = None) cs")
        (auto simp: in_window_def stamp_tier_def Let_def)
  qed
qed

lemma FilterChain_Inr:
  assumes "FilterChain chain iv asOf = Inr out"
  shows "out = chain\<lparr>chContracts := map (stamp_tier (chSpot chain) iv asOf)
      (filter (in_window (chSpot chain) iv asOf) (chContracts chain))\<rparr>"
    and "chContracts out \<noteq> []" and "\<not> iv \<le> 0" and "finite64 iv"
  using assms unfolding FilterChain_def filter_contracts_spec
  by (auto split: if_splits option.splits)

text \<open>A rounded value doubles exactly, so the window test bounds the tier by two.\<close>

lemma tier_bound:
  assumes s: "sd = Fin s" "0 < s" "s = rnd_real z" and f: "finite64 (lit 2 * sd)"
    and w: "\<not> \<bar>dk\<bar> > lit 2 * sd" "dk \<noteq> NaN"
  shows "\<bar>dk / sd\<bar> \<le> lit 2"
proof -
  have e: "rnd_real (2 * s) = 2 * s" unfolding s(3) by (rule rnd_real_double)
  obtain t where t: "lit 2 * sd = Fin t" using f by (auto simp: finite64_iff)
  then have "t = 2 * s" using e rnd_Fin by (auto simp: s(1) f64_simps)
  then obtain d where d: "dk = Fin d" "\<bar>d\<bar> \<le> 2 * s"
    using w t by (cases dk) (auto simp: less_f64_def)
  have "d / s \<le> 2" "- 2 \<le> d / s" using d s(2) by (simp_all add: pos_divide_le_eq pos_le_divide_eq)
  then have "rnd (d / s) \<le> rnd 2" "rnd (- 2) \<le> rnd (d / s)" by (auto intro!: rnd_mono)
  then have "\<bar>rnd (d / s)\<bar> \<le> Fin 2" by (cases "rnd (d / s)") (auto simp: f64_simps)
  then show ?thesis using s d by (simp add: f64_simps)
qed


section \<open>Properties\<close>

text \<open>
  Property C26. \<^verbatim>\<open>SelectExpiries\<close> implements the four-rule traversal: over well-formed
  dates it fails exactly when no date is left on or after today, and otherwise returns,
  in ascending order and without repetition, the nearest date, the primary Friday, the
  next Friday after it and the nearest third-Friday monthly, at most four dates, all of
  them listed.
\<close>

theorem select_expiries_four_rules:
  assumes "\<forall>d \<in> set dates. parse_ymd d \<noteq> None"
  shows "(SelectExpiries dates today = Inl NoFutureExpiry \<longleftrightarrow>
      future_days dates (day_of today) = {}) \<and>
    (future_days dates (day_of today) \<noteq> {} \<longrightarrow>
      (\<exists>pick. SelectExpiries dates today = Inr pick
       \<and> pick = map format_ymd (sorted_list_of_set (expiry_picks (future_days dates (day_of today))))
       \<and> length pick \<le> 4 \<and> distinct pick \<and> set pick \<subseteq> set dates))"
proof -
  note eq = SelectExpiries_eq [OF assms, of today]
  have "length pick \<le> 4 \<and> distinct pick \<and> set pick \<subseteq> set dates"
    if "SelectExpiries dates today = Inr pick" for pick
    using SelectExpiries_Inr [OF assms that] by blast
  note ok = this
  show ?thesis
  proof (cases "future_days dates (day_of today) = {}")
    case True
    then show ?thesis by (simp add: eq)
  next
    case False
    then have e: "SelectExpiries dates today =
        Inr (map format_ymd (sorted_list_of_set (expiry_picks (future_days dates (day_of today)))))"
      by (simp add: eq)
    from ok [OF e] show ?thesis using e False by simp
  qed
qed

theorem select_expiries_four_rules_witness:
  "SelectExpiries [''20261016'', ''20261014'', ''20261023'', ''20261030'', ''20260101''] (20740 * day_ns)
     = Inr [''20261014'', ''20261016'', ''20261023''] \<and>
   (SelectExpiries [''20260101''] (20740 * day_ns) = Inl NoFutureExpiry \<longleftrightarrow>
     future_days [''20260101''] (day_of (20740 * day_ns)) = {})"
proof -
  have "SelectExpiries [''20261016'', ''20261014'', ''20261023'', ''20261030'', ''20260101''] (20740 * day_ns)
     = Inr [''20261014'', ''20261016'', ''20261023'']" by code_simp
  moreover have "\<forall>d \<in> set [''20260101'']. parse_ymd d \<noteq> None" by code_simp
  ultimately show ?thesis
    using select_expiries_four_rules [of "[''20260101'']" "20740 * day_ns"] by blast
qed

text \<open>
  Fact. The traversal does not depend on the order of its input, nor on
  repetitions: the callers collect the dates from a map, whose iteration order is
  random, and two lists with the same well-formed dates give the same selection.
\<close>

theorem select_expiries_order_irrelevant:
  assumes "set xs = set ys" "\<forall>d \<in> set xs. parse_ymd d \<noteq> None"
  shows "SelectExpiries xs today = SelectExpiries ys today"
proof -
  have "future_days xs (day_of today) = future_days ys (day_of today)"
    using assms(1) by (simp add: future_days_def)
  then show ?thesis
    using assms by (simp add: SelectExpiries_eq)
qed

theorem select_expiries_order_irrelevant_witness:
  "SelectExpiries [''20261016'', ''20261014''] (20740 * day_ns) =
   SelectExpiries [''20261014'', ''20261016'', ''20261014''] (20740 * day_ns)"
proof (rule select_expiries_order_irrelevant)
  show "set [''20261016'', ''20261014''] = set [''20261014'', ''20261016'', ''20261014'']" by auto
  show "\<forall>d \<in> set [''20261016'', ''20261014'']. parse_ymd d \<noteq> None" by code_simp
qed

text \<open>
  Fact. Class-aware selection never blends settlement classes: on a chain with
  more than one trading class a contract survives exactly when the traversal over the
  listing dates of its own class picked its expiry, in chain order, and everything else
  of the chain is unchanged.
\<close>

theorem select_by_class_segregates:
  assumes "\<forall>c \<in> set (chContracts chain). CHR 0x00 \<notin> set (cTradingClass c)"
    and "1 < card (cTradingClass ` set (chContracts chain))"
    and "SelectedExpiriesByClass chain today = Inr (out, u)"
  shows "out = chain\<lparr>chContracts :=
      filter (\<lambda>c. \<exists>pick. cExpiryDate c \<in> set pick \<and>
          SelectExpiries (firsts [] (map cExpiryDate
            (filter (\<lambda>c'. cTradingClass c' = cTradingClass c) (chContracts chain)))) today = Inr pick)
        (chContracts chain)\<rparr>"
proof -
  have p: "cExpiryDate c \<in> set (class_picks chain today (cTradingClass c)) \<longleftrightarrow>
      (\<exists>pick. cExpiryDate c \<in> set pick \<and>
          SelectExpiries (firsts [] (map cExpiryDate
            (filter (\<lambda>c'. cTradingClass c' = cTradingClass c) (chContracts chain)))) today = Inr pick)" for c
    by (auto simp: class_picks_def split: sum.splits)
  have "out = chain\<lparr>chContracts := chContracts out\<rparr>"
    using assms(3) by (auto simp: SelectedExpiriesByClass_def SelectedExpiries_def bind_res_Inr_iff
        Let_def split: if_splits)
  then show ?thesis
    using SelectedExpiriesByClass_mixed [OF assms] unfolding p by simp
qed


definition demo_contract :: "int \<Rightarrow> string \<Rightarrow> string \<Rightarrow> real \<Rightarrow> string \<Rightarrow> contract" where
  "demo_contract i cls expiry k r =
     \<lparr>cConId = i, cTicker = ''SPX'', cStrike = Fin k, cRight = r, cExpiryDate = expiry,
      cTradingClass = cls, cMultiplier = Fin 100, cOpenInterest = Fin 10, cExchange = ''CBOE'',
      cSettlement = [], cSDTier = Fin 0, cIV = Fin 0, cBid = Fin 0, cAsk = Fin 0\<rparr>"

definition demo_chain :: "contract list \<Rightarrow> chain_snapshot" where
  "demo_chain cs = \<lparr>chTicker = ''SPX'', chSpot = Fin 100, chAsOfMs = 0, chContracts = cs,
     chUnderlyingType = SecTypeIND, chExchange = ''CBOE''\<rparr>"

abbreviation mixed_demo :: chain_snapshot where
  "mixed_demo \<equiv> demo_chain [demo_contract 1 ''SPX'' ''20261016'' 100 ''C'',
     demo_contract 2 ''SPXW'' ''20261014'' 100 ''C'', demo_contract 3 ''SPXW'' ''20260101'' 100 ''C'']"

lemma mixed_demo_selected:
  "SelectedExpiriesByClass mixed_demo (20740 * day_ns) =
     Inr (demo_chain [demo_contract 1 ''SPX'' ''20261016'' 100 ''C'',
       demo_contract 2 ''SPXW'' ''20261014'' 100 ''C''], [''20261014'', ''20261016''])"
proof -
  have p: "class_picks mixed_demo (20740 * day_ns) ''SPX'' = [''20261016'']"
    "class_picks mixed_demo (20740 * day_ns) ''SPXW'' = [''20261014'']"
    by code_simp+
  show ?thesis
    using p by (simp add: SelectedExpiriesByClass_def demo_chain_def demo_contract_def class_key_def Let_def)
qed

theorem select_by_class_segregates_witness:
  "demo_chain [demo_contract 1 ''SPX'' ''20261016'' 100 ''C'', demo_contract 2 ''SPXW'' ''20261014'' 100 ''C'']
    = mixed_demo\<lparr>chContracts :=
      filter (\<lambda>c. \<exists>pick. cExpiryDate c \<in> set pick \<and>
          SelectExpiries (firsts [] (map cExpiryDate
            (filter (\<lambda>c'. cTradingClass c' = cTradingClass c) (chContracts mixed_demo)))) (20740 * day_ns) = Inr pick)
        (chContracts mixed_demo)\<rparr>"
proof (rule select_by_class_segregates [OF _ _ mixed_demo_selected])
  show "\<forall>c \<in> set (chContracts mixed_demo). CHR 0x00 \<notin> set (cTradingClass c)"
    by (simp add: demo_chain_def demo_contract_def)
  show "1 < card (cTradingClass ` set (chContracts mixed_demo))"
    by (simp add: demo_chain_def demo_contract_def)
qed

text \<open>
  Fact. The two-standard-deviation filter: with finite strikes and spot, every
  contract it keeps is unexpired, has its strike within two standard deviations of the
  spot, and carries its signed distance in standard deviations, at most two in
  magnitude; every in-window contract is kept, in chain order.
\<close>

theorem filter_chain_window:
  assumes ok: "FilterChain chain iv asOf = Inr out"
    and fin: "\<forall>c \<in> set (chContracts chain). finite64 (cStrike c)" "finite64 (chSpot chain)"
  shows "chContracts out = map (stamp_tier (chSpot chain) iv asOf)
      (filter (in_window (chSpot chain) iv asOf) (chContracts chain)) \<and>
    (\<forall>c \<in> set (chContracts chain). \<forall>dte s. in_window (chSpot chain) iv asOf c \<longrightarrow>
       DTE c asOf = Inr dte \<longrightarrow> filter_sd (chSpot chain) iv dte = Fin s \<longrightarrow> 0 < s \<longrightarrow>
       finite64 (lit 2 * Fin s) \<longrightarrow>
       \<not> dte < 0 \<and> \<bar>cStrike c - chSpot chain\<bar> \<le> lit 2 * filter_sd (chSpot chain) iv dte \<and>
       \<bar>cSDTier (stamp_tier (chSpot chain) iv asOf c)\<bar> \<le> lit 2)"
proof (intro conjI ballI allI impI)
  show "chContracts out = map (stamp_tier (chSpot chain) iv asOf)
      (filter (in_window (chSpot chain) iv asOf) (chContracts chain))"
    using FilterChain_Inr(1) [OF ok] by simp
next
  fix c dte s
  assume c: "c \<in> set (chContracts chain)" and w: "in_window (chSpot chain) iv asOf c"
    and d: "DTE c asOf = Inr dte" and sd: "filter_sd (chSpot chain) iv dte = Fin s"
    and s: "0 < s" and f: "finite64 (lit 2 * Fin s)"
  have win: "\<not> dte < 0" "\<not> \<bar>cStrike c - chSpot chain\<bar> > lit 2 * Fin s"
    using w d sd by (simp_all add: in_window_def)
  obtain k p where kp: "cStrike c = Fin k" "chSpot chain = Fin p"
    using fin c by (auto simp: finite64_iff)
  have nn: "cStrike c - chSpot chain \<noteq> NaN" by (simp add: kp)
  obtain z where z: "s = rnd_real z"
    using sd unfolding filter_sd_def by (metis times_Fin_rounded)
  show "\<not> dte < 0" by (rule win)
  show "\<bar>cStrike c - chSpot chain\<bar> \<le> lit 2 * filter_sd (chSpot chain) iv dte"
    using win(2) f nn unfolding sd
    by (cases "cStrike c - chSpot chain"; cases "lit 2 * Fin s") (auto simp: less_f64_def)
  show "\<bar>cSDTier (stamp_tier (chSpot chain) iv asOf c)\<bar> \<le> lit 2"
    using tier_bound [OF refl s z f win(2) nn] by (simp add: stamp_tier_def d sd)
qed

abbreviation filter_demo :: chain_snapshot where
  "filter_demo \<equiv> demo_chain [demo_contract 1 ''SPX'' ''19710101'' 125 ''C'',
     demo_contract 2 ''SPX'' ''19710101'' 200 ''P'', demo_contract 3 ''SPX'' ''19691231'' 100 ''P'']"

lemma demo_DTE:
  "parse_ymd ''19710101'' = Some 365" "parse_ymd ''19691231'' = Some (- 1)" "day_of 0 = 0"
  by code_simp+

lemma filter_demo_sd: "filter_sd (Fin 100) (Fin (1/4)) (Fin 365) = Fin 25"
  by (simp add: filter_sd_def math_Max_def one_f64_def f64_simps)

lemma filter_demo_ok:
  "FilterChain filter_demo (Fin (1/4)) 0 =
     Inr (demo_chain [demo_contract 1 ''SPX'' ''19710101'' 125 ''C''\<lparr>cSDTier := Fin 1\<rparr>])"
proof -
  have d: "DTE (demo_contract 1 ''SPX'' ''19710101'' 125 ''C'') 0 = Inr (Fin 365)"
    "DTE (demo_contract 2 ''SPX'' ''19710101'' 200 ''P'') 0 = Inr (Fin 365)"
    "DTE (demo_contract 3 ''SPX'' ''19691231'' 100 ''P'') 0 = Inr (Fin (- 1))"
    using DTE_days [where asOf = 0] by (simp_all add: demo_contract_def demo_DTE)
  show ?thesis
    by (simp add: FilterChain_def demo_chain_def d filter_demo_sd Let_def zero_f64_def)
      (simp add: demo_contract_def minus_f64_def f64_simps)
qed

theorem filter_chain_window_witness:
  "\<bar>cStrike (demo_contract 1 ''SPX'' ''19710101'' 125 ''C'') - chSpot filter_demo\<bar> \<le> lit 2 * Fin 25 \<and>
   chContracts (demo_chain [demo_contract 1 ''SPX'' ''19710101'' 125 ''C''\<lparr>cSDTier := Fin 1\<rparr>]) =
     map (stamp_tier (Fin 100) (Fin (1/4)) 0)
      (filter (in_window (Fin 100) (Fin (1/4)) 0) (chContracts filter_demo))"
proof -
  have fin: "\<forall>c \<in> set (chContracts filter_demo). finite64 (cStrike c)" "finite64 (chSpot filter_demo)"
    by (simp_all add: demo_chain_def demo_contract_def)
  have "chSpot filter_demo = Fin 100" by (simp add: demo_chain_def)
  moreover have "\<bar>Fin 125 - Fin 100\<bar> \<le> lit 2 * Fin 25" by (simp add: minus_f64_def f64_simps)
  ultimately show ?thesis
    using filter_chain_window [OF filter_demo_ok fin] by (simp add: demo_contract_def)
qed

end
