(* ===== verification/Garch.thy ===== *)
theory Garch
  imports Float64
begin

text \<open>
  Package \<^verbatim>\<open>garch\<close>: the fitted parameters and their validation (\<^verbatim>\<open>params.go\<close>), the forward
  variance recursion (\<^verbatim>\<open>recursion.go\<close>) and the two term structures. A term structure is
  a function from days to expiry to annualised volatility.
\<close>

section \<open>Parameters and state\<close>

record garch_params =
  gpTicker :: string
  gpOmega :: f64
  gpAlpha :: f64
  gpGammaLeverage :: f64
  gpBeta :: f64
  gpDist :: string
  gpNObs :: int
  gpFittedAtMs :: int

record garch_state =
  gsTicker :: string
  gsLastH :: f64
  gsLastEps :: f64
  gsUpdatedAtMs :: int

datatype garch_error = BadOmega | BadCoefficient | NonStationary | BadHorizon int

definition Persistence :: "garch_params \<Rightarrow> f64" where
  "Persistence p = gpAlpha p + gpBeta p + lit (1 / 2) * gpGammaLeverage p"

definition Validate :: "garch_params \<Rightarrow> garch_error + unit" where
  "Validate p =
     (if gpOmega p \<le> 0 then Inl BadOmega
      else if gpAlpha p < 0 \<or> gpBeta p < 0 \<or> gpGammaLeverage p < 0 then Inl BadCoefficient
      else if Persistence p \<ge> 1 then Inl NonStationary
      else Inr ())"

definition UnconditionalDailyVar :: "garch_params \<Rightarrow> f64" where
  "UnconditionalDailyVar p = gpOmega p / (1 - Persistence p)"

definition UnconditionalAnnualVol :: "garch_params \<Rightarrow> f64" where
  "UnconditionalAnnualVol p = math_Sqrt (lit 252 * UnconditionalDailyVar p)"

section \<open>The forward recursion\<close>

text \<open>The loop of \<^verbatim>\<open>SigmaBarT\<close>: the remaining turns, the last variance, the running sum.\<close>

fun forward_sum :: "f64 \<Rightarrow> f64 \<Rightarrow> nat \<Rightarrow> f64 \<Rightarrow> f64 \<Rightarrow> f64" where
  "forward_sum omega coef 0 h s = s"
| "forward_sum omega coef (Suc n) h s =
     (let h' = omega + coef * h in forward_sum omega coef n h' (s + h'))"

definition warm_start :: "garch_params \<Rightarrow> garch_state \<Rightarrow> f64" where
  "warm_start p s = (if \<not> gsLastH s > 0 \<or> \<not> finite64 (gsLastH s) then UnconditionalDailyVar p else gsLastH s)"

definition first_variance :: "garch_params \<Rightarrow> garch_state \<Rightarrow> f64" where
  "first_variance p s =
     (let neg = (if gsLastEps s < 0 then 1 else 0)
      in gpOmega p + (gpAlpha p + gpGammaLeverage p * neg) * gsLastEps s * gsLastEps s
           + gpBeta p * warm_start p s)"

definition SigmaBarT :: "garch_params \<Rightarrow> garch_state \<Rightarrow> int \<Rightarrow> garch_error + f64" where
  "SigmaBarT p s daysToExpiry =
     (if daysToExpiry < 1 then Inl (BadHorizon daysToExpiry)
      else bind_res (Validate p) (\<lambda>_.
        let h = first_variance p s
        in Inr (math_Sqrt (lit 252 *
             forward_sum (gpOmega p) (Persistence p) (nat (daysToExpiry - 1)) h h /
             f64_of_int daysToExpiry))))"

section \<open>Term structures\<close>

definition FlatVol_SigmaBar :: "f64 \<Rightarrow> f64 \<Rightarrow> f64" where
  "FlatVol_SigmaBar vol daysToExpiry = vol"

record garch_model =
  gmP :: garch_params
  gmS :: garch_state

definition NewModel :: "garch_params \<Rightarrow> garch_state \<Rightarrow> garch_error + garch_model" where
  "NewModel p s = bind_res (Validate p) (\<lambda>_. Inr \<lparr>gmP = p, gmS = s\<rparr>)"

definition Model_SigmaBar :: "garch_model \<Rightarrow> f64 \<Rightarrow> f64" where
  "Model_SigmaBar m daysToExpiry =
     (let days = go_int (math_Round daysToExpiry);
          days = (if days < 1 then 1 else days)
      in case SigmaBarT (gmP m) (gmS m) days of Inr v \<Rightarrow> v | Inl _ \<Rightarrow> NaN)"

section \<open>Sign of the recursion\<close>

text \<open>
  The parameter range of a daily equity fit, in decimal units: validated, variance
  intercept between about 1.5e-8 and 1, persistence at most one millionth below one;
  and a last shock of at most 100 percent with a last variance of at most 1 or unknown.
\<close>

definition fitted :: "garch_params \<Rightarrow> garch_state \<Rightarrow> bool" where
  "fitted p s \<longleftrightarrow> Validate p = Inr () \<and>
     Fin (1 / 2 ^ 26) \<le> gpOmega p \<and> gpOmega p \<le> 1 \<and>
     finite64 (gpAlpha p) \<and> finite64 (gpBeta p) \<and> finite64 (gpGammaLeverage p) \<and>
     is_f64 (gpAlpha p) \<and> is_f64 (gpBeta p) \<and> is_f64 (gpGammaLeverage p) \<and>
     Persistence p \<le> Fin (1 - 1 / 2 ^ 20) \<and>
     finite64 (gsLastEps s) \<and> \<bar>gsLastEps s\<bar> \<le> 1 \<and> gsLastH s \<le> 1"

lemma Validate_ok:
  assumes "Validate p = Inr ()" "finite64 (gpAlpha p)" "finite64 (gpBeta p)" "finite64 (gpGammaLeverage p)"
  shows "0 \<le> gpAlpha p" "0 \<le> gpBeta p" "0 \<le> gpGammaLeverage p" "\<not> Persistence p \<ge> 1"
proof -
  have nn: "0 \<le> a" if "finite64 a" "\<not> a < (0 :: f64)" for a
    using that by (cases a) (simp_all add: zero_f64_def)
  have "\<not> gpAlpha p < 0 \<and> \<not> gpBeta p < 0 \<and> \<not> gpGammaLeverage p < 0 \<and> \<not> Persistence p \<ge> 1"
    using assms(1) by (simp add: Validate_def split: if_splits)
  then show "0 \<le> gpAlpha p" "0 \<le> gpBeta p" "0 \<le> gpGammaLeverage p" "\<not> Persistence p \<ge> 1"
    using nn assms(2-4) by blast+
qed

lemma fitted_coefficients:
  assumes "fitted p s"
  shows "bounded_by 1 (gpOmega p)" "bounded_by 1 (gpAlpha p)" "bounded_by 1 (gpBeta p)"
    "bounded_by 4 (gpGammaLeverage p)" "bounded_by 1 (Persistence p)"
proof -
  note v = Validate_ok [of p]
  have f: "Validate p = Inr ()" "finite64 (gpAlpha p)" "finite64 (gpBeta p)" "finite64 (gpGammaLeverage p)"
    "is_f64 (gpAlpha p)" "is_f64 (gpBeta p)" "is_f64 (gpGammaLeverage p)"
    using assms by (simp_all add: fitted_def)
  have pos: "0 \<le> gpAlpha p" "0 \<le> gpBeta p" "0 \<le> gpGammaLeverage p" using v f by simp_all
  obtain a b g where abg: "gpAlpha p = Fin a" "gpBeta p = Fin b" "gpGammaLeverage p = Fin g"
    using f by (auto simp: finite64_iff)
  have half: "0 \<le> lit (1 / 2) * gpGammaLeverage p"
    using pos(3) by (simp add: abg f64_simps zero_f64_def rnd_nonneg)
  have ab: "0 \<le> gpAlpha p + gpBeta p" using pos by (simp add: plus_nonneg)
  have isab: "is_f64 (gpAlpha p + gpBeta p)" by (simp add: abg)
  have h: "is_f64 (lit (1 / 2) * gpGammaLeverage p)" by (simp add: abg f64_simps)
  have P: "gpAlpha p + gpBeta p \<le> Persistence p" "lit (1 / 2) * gpGammaLeverage p \<le> Persistence p"
    unfolding Persistence_def
    using plus_ge_left [OF isab ab half] plus_ge_right [OF h ab half] by simp_all
  have P1: "Persistence p \<le> Fin 1"
    using assms by (cases "Persistence p") (auto simp: fitted_def)
  have "gpAlpha p \<le> gpAlpha p + gpBeta p" "gpBeta p \<le> gpAlpha p + gpBeta p"
    using plus_ge_left [OF f(5) pos(1,2)] plus_ge_right [OF f(6) pos(1,2)] by simp_all
  then have "gpAlpha p \<le> Fin 1" "gpBeta p \<le> Fin 1" using P(1) P1 le_f64_trans by blast+
  then show "bounded_by 1 (gpAlpha p)" "bounded_by 1 (gpBeta p)" using pos by (simp_all add: bounded_by_iff)
  show "bounded_by 1 (Persistence p)"
    using P1 le_f64_trans [OF ab P(1)] by (simp add: bounded_by_iff)
  show "bounded_by 1 (gpOmega p)"
    using assms by (cases "gpOmega p") (auto simp: fitted_def bounded_by_def one_f64_def)
  have "rnd (1 / 2 * g) \<le> Fin 1" using le_f64_trans [OF P(2) P1] by (simp add: abg f64_simps)
  moreover have "rnd 2 \<le> rnd (1 / 2 * g)" if "4 < g" using that by (intro rnd_mono) simp
  ultimately have "g \<le> 4" by (cases "rnd (1 / 2 * g)") (auto simp: f64_simps not_le [symmetric])
  then show "bounded_by 4 (gpGammaLeverage p)" using pos by (simp add: bounded_by_iff abg)
qed

lemma plus_ge_rounded:
  assumes "rnd (x + y) = Fin (x + y)" "Fin x \<le> a" "Fin y \<le> b" shows "Fin (x + y) \<le> a + b"
proof (cases a; cases b)
  fix u v assume "a = Fin u" "b = Fin v"
  then show ?thesis using assms rnd_mono [of "x + y" "u + v"] by simp
qed (use assms in simp_all)

lemma warm_start_bounded:
  assumes "fitted p s" shows "bounded_by (2 ^ 21) (warm_start p s)"
proof (cases "\<not> gsLastH s > 0 \<or> \<not> finite64 (gsLastH s)")
  case False
  then show ?thesis using assms
    by (cases "gsLastH s") (auto simp: warm_start_def fitted_def bounded_by_def zero_f64_def one_f64_def)
next
  case True
  obtain w where w: "gpOmega p = Fin w" "0 \<le> w" "w \<le> 1"
    using fitted_coefficients(1) [OF assms] by (auto simp: bounded_by_def)
  obtain r where r: "Persistence p = Fin r" "0 \<le> r" "r \<le> 1 - 1 / 2 ^ 20"
    using fitted_coefficients(5) [OF assms] assms by (auto simp: bounded_by_def fitted_def)
  have "rnd (1 / 2 ^ 20) = Fin (1 / 2 ^ 20)" using rnd_dyadic [of 1 20] by simp
  then obtain d where d: "1 - Persistence p = Fin d" "1 / 2 ^ 20 \<le> d" "d \<le> 1"
    using rnd_between [of "1 / 2 ^ 20" 1 "1 - r"] r by (auto simp: one_f64_def minus_f64_def)
  have "w / d \<le> 1 / (1 / 2 ^ 20)" using w d(2) by (intro frac_le) simp_all
  then have "bounded_by (2 ^ 21) (rnd (w / d))" using w d(2) by (intro bounded_by_rnd) simp_all
  moreover have "d \<noteq> 0" using d(2) by auto
  ultimately show ?thesis using True by (simp add: warm_start_def UnconditionalDailyVar_def w d(1))
qed

lemma shock_bounded:
  assumes "bounded_by 5 c" "finite64 e" "\<bar>e\<bar> \<le> 1" shows "bounded_by 5 (c * e * e)"
proof -
  obtain x y where xy: "c = Fin x" "e = Fin y" "0 \<le> x" "x \<le> 5" "\<bar>y\<bar> \<le> 1"
    using assms by (auto simp: bounded_by_def finite64_iff one_f64_def)
  have "\<bar>x * y\<bar> \<le> 5 * 1" unfolding abs_mult using xy by (intro mult_mono) simp_all
  then have "- 5 \<le> x * y" "x * y \<le> 5" by linarith+
  then obtain z where z: "rnd (x * y) = Fin z" "- 5 \<le> z" "z \<le> 5"
    using rnd_between [of "- 5" 5 "x * y"] by (auto simp: f64_simps)
  have "0 \<le> z * y"
  proof (cases "0 \<le> y")
    case True
    then have "Fin 0 \<le> rnd (x * y)" using xy by (intro rnd_nonneg) simp
    with True z show ?thesis by simp
  next
    case False
    then have "rnd (x * y) \<le> rnd 0" using xy by (intro rnd_mono) (simp add: mult_nonneg_nonpos)
    with False z show ?thesis by (simp add: mult_nonpos_nonpos)
  qed
  moreover have "\<bar>z * y\<bar> \<le> 5 * 1" unfolding abs_mult using xy z by (intro mult_mono) simp_all
  ultimately have "bounded_by 5 (rnd (z * y))" by (intro bounded_by_rnd) simp_all
  then show ?thesis by (simp add: xy z)
qed

lemma first_variance_bounds:
  assumes "fitted p s"
  shows "bounded_by (2 ^ 22) (first_variance p s)" "Fin (1 / 2 ^ 26) \<le> first_variance p s"
proof -
  note c = fitted_coefficients [OF assms]
  let ?neg = "if gsLastEps s < 0 then 1 else 0 :: f64"
  let ?shock = "(gpAlpha p + gpGammaLeverage p * ?neg) * gsLastEps s * gsLastEps s"
  have "bounded_by 1 ?neg" by (simp add: bounded_by_def one_f64_def zero_f64_def)
  then have "bounded_by 4 (gpGammaLeverage p * ?neg)" using bounded_by_times [OF c(4)] by fastforce
  then have "bounded_by 5 (gpAlpha p + gpGammaLeverage p * ?neg)"
    using bounded_by_plus [OF c(2)] by fastforce
  then have sh: "bounded_by 5 ?shock" using assms by (intro shock_bounded) (simp_all add: fitted_def)
  have b: "bounded_by (2 ^ 21) (gpBeta p * warm_start p s)"
    using bounded_by_times [OF c(3) warm_start_bounded [OF assms]] by simp
  have "bounded_by 6 (gpOmega p + ?shock)" using bounded_by_plus [OF c(1) sh] by simp
  then have "bounded_by (6 + 2 ^ 21) (first_variance p s)"
    unfolding first_variance_def Let_def using b by (rule bounded_by_plus) simp
  then show "bounded_by (2 ^ 22) (first_variance p s)" by (rule bounded_by_mono) simp
  have e: "rnd (1 / 2 ^ 26 + 0) = Fin (1 / 2 ^ 26 + 0)" using rnd_dyadic [of 1 26] by simp
  have "Fin (1 / 2 ^ 26 + 0) \<le> gpOmega p + ?shock"
    using e assms sh by (intro plus_ge_rounded) (simp_all add: fitted_def bounded_by_iff zero_f64_def)
  then have "Fin (1 / 2 ^ 26 + 0) \<le> gpOmega p + ?shock + gpBeta p * warm_start p s"
    using e b by (intro plus_ge_rounded) (simp_all add: bounded_by_iff zero_f64_def)
  then show "Fin (1 / 2 ^ 26) \<le> first_variance p s" by (simp add: first_variance_def Let_def)
qed

lemma forward_sum_bounds:
  assumes "bounded_by B h" "bounded_by S s" "Fin (of_int m / 2 ^ 26) \<le> s" "0 \<le> m"
    and "bounded_by 1 omega" "Fin (1 / 2 ^ 26) \<le> omega" "bounded_by 1 coef"
    and "0 \<le> B" "m + int n \<le> 2 ^ 53" "S + int n * (B + int n) \<le> 2 ^ 53"
  shows "bounded_by (S + int n * (B + int n)) (forward_sum omega coef n h s) \<and>
    Fin (of_int (m + int n) / 2 ^ 26) \<le> forward_sum omega coef n h s"
  using assms
proof (induction n arbitrary: h s B S m)
  case 0
  then show ?case by simp
next
  case (Suc n)
  let ?h = "omega + coef * h"
  have S0: "0 \<le> S" using Suc.prems(2) by (auto simp: bounded_by_def)
  have e: "int (Suc n) * (B + int (Suc n)) = (1 + B) + int n * (B + 1 + int n) + int n"
    by (simp add: algebra_simps)
  have BS: "1 + B \<le> 2 ^ 53" "S + (1 + B) \<le> 2 ^ 53" "S + (1 + B) + int n * (1 + B + int n) \<le> 2 ^ 53"
    using Suc.prems(8,10) S0 unfolding e by (smt (verit) mult_nonneg_nonneg of_nat_0_le_iff add.commute)+
  have "bounded_by (1 * B) (coef * h)"
    using Suc.prems(7,1) by (rule bounded_by_times) (use BS(1) in simp)
  then have h: "bounded_by (1 + B) ?h" using bounded_by_plus [OF Suc.prems(5)] BS(1) by simp
  have s: "bounded_by (S + (1 + B)) (s + ?h)" using bounded_by_plus [OF Suc.prems(2) h BS(2)] .
  have r: "rnd (1 / 2 ^ 26 + 0) = Fin (1 / 2 ^ 26 + 0)" using rnd_dyadic [of 1 26] by simp
  have "Fin (1 / 2 ^ 26 + 0) \<le> ?h"
    using r Suc.prems(6) \<open>bounded_by (1 * B) (coef * h)\<close>
    by (intro plus_ge_rounded) (simp_all add: bounded_by_iff zero_f64_def)
  then have hl: "Fin (1 / 2 ^ 26) \<le> ?h" by simp
  have mm: "of_int m / 2 ^ 26 + 1 / 2 ^ 26 = (of_int (m + 1) / 2 ^ 26 :: real)"
    by (simp add: add_divide_distrib)
  have "rnd (of_int (m + 1) / 2 ^ 26) = Fin (of_int (m + 1) / 2 ^ 26)"
    using Suc.prems(4,9) by (intro rnd_dyadic) simp_all
  then have sl: "Fin (of_int (m + 1) / 2 ^ 26) \<le> s + ?h"
    using plus_ge_rounded [of "of_int m / 2 ^ 26" "1 / 2 ^ 26" s ?h] Suc.prems(3) hl unfolding mm by simp
  have "bounded_by (S + (1 + B) + int n * (1 + B + int n)) (forward_sum omega coef n ?h (s + ?h)) \<and>
      Fin (of_int (m + 1 + int n) / 2 ^ 26) \<le> forward_sum omega coef n ?h (s + ?h)"
    using Suc.prems(4-10) BS(3) by (intro Suc.IH [OF h s sl]) simp_all
  moreover have "S + (1 + B) + int n * (1 + B + int n) \<le> S + int (Suc n) * (B + int (Suc n))"
    unfolding e by (simp add: algebra_simps)
  ultimately show ?case
    by (auto simp: Let_def add_ac elim: bounded_by_mono)
qed

text \<open>
  Fact. The fitted term structure always prices: for parameters in the range of
  a daily fit, and any last shock and variance in theirs, the anchor volatility of every
  horizon up to 10000 days is a finite number above the step of the vanna difference, so
  the solver never rejects it.
\<close>

theorem fitted_vol_usable:
  assumes "fitted p s" "1 \<le> days" "days \<le> 10000"
  shows "\<exists>v. SigmaBarT p s days = Inr (Fin v) \<and> 1 / 1024 \<le> v"
proof -
  note c = fitted_coefficients [OF assms(1)]
  note f = first_variance_bounds [OF assms(1)]
  let ?s = "forward_sum (gpOmega p) (Persistence p) (nat (days - 1)) (first_variance p s) (first_variance p s)"
  have lim: "2 ^ 22 + int (nat (days - 1)) * (2 ^ 22 + int (nat (days - 1))) \<le> 2 ^ 36"
  proof -
    have "int (nat (days - 1)) * (2 ^ 22 + int (nat (days - 1))) \<le> 10000 * (2 ^ 22 + 10000)"
      using assms(2,3) by (intro mult_mono) simp_all
    then show ?thesis by simp
  qed
  have fs: "bounded_by (2 ^ 22 + int (nat (days - 1)) * (2 ^ 22 + int (nat (days - 1)))) ?s \<and>
      Fin (of_int (1 + int (nat (days - 1))) / 2 ^ 26) \<le> ?s"
    using f c assms lim
    by (intro forward_sum_bounds [where B = "2 ^ 22"]) (simp_all add: fitted_def)
  then have "bounded_by (2 ^ 36) ?s" using lim by (blast intro: bounded_by_mono)
  then obtain t where t: "?s = Fin t" "t \<le> of_int (2 ^ 36)" "0 \<le> t" by (auto simp: bounded_by_def)
  have t2: "of_int days / 2 ^ 26 \<le> t" using fs assms(2) unfolding t(1) by simp
  have d: "f64_of_int days = Fin (of_int days)"
    unfolding f64_of_int_def using assms by (intro rnd_of_int) simp
  have r1: "rnd (of_int (252 * days) / 2 ^ 26) = Fin (of_int (252 * days) / 2 ^ 26)"
    using assms by (intro rnd_dyadic) simp_all
  obtain u where u: "rnd (252 * t) = Fin u" "of_int (252 * days) / 2 ^ 26 \<le> u" "u \<le> 2 ^ 44"
  proof -
    have "rnd (2 ^ 44) = Fin (2 ^ 44)" using rnd_of_int [of "2 ^ 44"] by simp
    moreover have "of_int (252 * days) / 2 ^ 26 \<le> 252 * t" using t2 by simp
    moreover have "252 * t \<le> 2 ^ 44" using t(2) by simp
    ultimately show thesis using rnd_between [OF r1] that by blast
  qed
  have q: "252 / 2 ^ 26 \<le> u / of_int days" "u / of_int days \<le> 2 ^ 44 / 1"
    using u assms by (simp add: field_simps) (intro frac_le; use u assms in simp)
  have "rnd (252 / 2 ^ 26) = Fin (252 / 2 ^ 26)" using rnd_dyadic [of 252 26] by simp
  moreover have "rnd (2 ^ 44 / 1) = Fin (2 ^ 44 / 1)" using rnd_of_int [of "2 ^ 44"] by simp
  ultimately obtain w where w: "rnd (u / of_int days) = Fin w" "252 / 2 ^ 26 \<le> w" "w \<le> 2 ^ 44"
    using rnd_between [OF _ _ q] by auto
  have "sqrt ((1 / 2 ^ 10) ^ 2) \<le> sqrt w" using w(2) by (intro real_sqrt_le_mono) (simp add: power_divide)
  then have lo: "1 / 2 ^ 10 \<le> sqrt w" by simp
  have "sqrt w \<le> sqrt ((2 ^ 22) ^ 2)" using w(3) by (intro real_sqrt_le_mono) simp
  then have hi: "sqrt w \<le> of_int (2 ^ 22)" by simp
  have "rnd (1 / 2 ^ 10) = Fin (1 / 2 ^ 10)" using rnd_dyadic [of 1 10] by simp
  then obtain v where v: "rnd (sqrt w) = Fin v" "1 / 2 ^ 10 \<le> v"
    using rnd_between [OF _ _ lo hi] rnd_of_int [of "2 ^ 22"] by auto
  have "\<not> w < 0" using w(2) by simp
  with v w(1) u(1) t(1) d assms show ?thesis
    by (auto simp: SigmaBarT_def fitted_def Let_def f64_simps)
qed

definition demo_params :: garch_params where
  "demo_params = \<lparr>gpTicker = ''SPY'', gpOmega = Fin (1 / 2 ^ 16), gpAlpha = Fin 0, gpGammaLeverage = Fin 0,
     gpBeta = Fin (1 / 2), gpDist = ''t'', gpNObs = 500, gpFittedAtMs = 0\<rparr>"

definition demo_state :: garch_state where
  "demo_state = \<lparr>gsTicker = ''SPY'', gsLastH = Fin 0, gsLastEps = Fin (- (1 / 2)), gsUpdatedAtMs = 0\<rparr>"

theorem fitted_vol_usable_witness:
  "\<exists>v. SigmaBarT demo_params demo_state 30 = Inr (Fin v) \<and> 1 / 1024 \<le> v"
proof (rule fitted_vol_usable)
  have "is_f64 (Fin 0)" "is_f64 (Fin (1 / 2))" using is_f64_rnd [of 0] is_f64_rnd [of "1 / 2"]
    by (simp_all add: f64_simps)
  moreover have "Persistence demo_params = Fin (1 / 2)"
    by (simp add: Persistence_def demo_params_def f64_simps)
  ultimately show "fitted demo_params demo_state"
    by (simp add: fitted_def Validate_def) (simp add: demo_params_def demo_state_def zero_f64_def one_f64_def)
qed simp_all

end
