(* ===== verification/Systems.thy ===== *)
theory Systems
  imports Main
begin

text \<open>
  Components that run as state machines share one interface: initial states and a step
  relation. The locale gives the reachable states and the invariant rule.
\<close>

locale transition_system =
  fixes init :: "'s \<Rightarrow> bool" and step :: "'s \<Rightarrow> 's \<Rightarrow> bool"
begin

inductive reachable :: "'s \<Rightarrow> bool" where
  start: "init s \<Longrightarrow> reachable s"
| move: "reachable s \<Longrightarrow> step s t \<Longrightarrow> reachable t"

lemma invariant:
  assumes "reachable s" "\<And>s. init s \<Longrightarrow> P s" "\<And>s t. reachable s \<Longrightarrow> P s \<Longrightarrow> step s t \<Longrightarrow> P t"
  shows "P s"
  using assms(1) by (induction rule: reachable.induct) (auto intro: assms(2,3))

lemma reachable_steps: "reachable s \<Longrightarrow> step\<^sup>*\<^sup>* s t \<Longrightarrow> reachable t"
  by (rotate_tac, induction rule: rtranclp_induct) (auto intro: reachable.move)

end

end
