(* ===== verification/Book.thy ===== *)
theory Book
  imports Market_Types "HOL-Library.AList_Mapping"
begin

text \<open>
  Package \<^verbatim>\<open>market\<close>, the ingestion seam (\<^verbatim>\<open>feed.go\<close>): contract validation, the
  in-memory book and its four operations. The interface \<^verbatim>\<open>Feed\<close> together with the
  reader \<^verbatim>\<open>Latest\<close> is the locale \<open>market_feed\<close>: what a reader sees after an accepted
  event, and that a refused event is invisible. The book interprets it. The mutex makes
  each operation atomic, so an operation is one function on the book.
\<close>

section \<open>Validation\<close>

definition saneSpot :: "f64 \<Rightarrow> bool" where
  "saneSpot v \<longleftrightarrow> finite64 v \<and> v > 0 \<and> v < lit 1000000000"

definition validateContract :: "contract \<Rightarrow> market_error + contract" where
  "validateContract c =
     (if cConId c = 0 then Inl InvalidSnapshot
      else if \<not> finite64 (cStrike c) \<or> cStrike c \<le> 0 then Inl InvalidSnapshot
      else if cRight c \<noteq> RightCall \<and> cRight c \<noteq> RightPut then Inl InvalidSnapshot
      else if cOpenInterest c < 0 \<or> \<not> finite64 (cOpenInterest c) then Inl InvalidSnapshot
      else if cBid c < 0 \<or> cAsk c < 0 \<or> \<not> finite64 (cBid c) \<or> \<not> finite64 (cAsk c)
        then Inl InvalidSnapshot
      else if cSettlement c \<notin> {[], SettlementAM, SettlementPM} then Inl InvalidSnapshot
      else Inr (if feq (cMultiplier c) 0 then c\<lparr>cMultiplier := DefaultMultiplier\<rparr> else c))"

text \<open>
  The loop of \<^verbatim>\<open>ApplyChainSnapshot\<close> writes through \<^verbatim>\<open>snap.Contracts[i]\<close>, the caller's
  backing array: the result is the array after the loop and the error that ended it, so
  a refused chain has its leading contracts already filled in.
\<close>

definition fill_exchange :: "string \<Rightarrow> contract \<Rightarrow> contract" where
  "fill_exchange exch c =
     (if cExchange c = [] \<and> exch \<noteq> [] then c\<lparr>cExchange := exch\<rparr> else c)"

fun fill_contracts :: "string \<Rightarrow> contract list \<Rightarrow> contract list \<times> market_error option" where
  "fill_contracts exch [] = ([], None)"
| "fill_contracts exch (c # cs) =
     (case validateContract c of
        Inl e \<Rightarrow> (c # cs, Some e)
      | Inr c' \<Rightarrow> (case fill_contracts exch cs of (cs', e) \<Rightarrow> (fill_exchange exch c' # cs', e)))"

section \<open>The in-memory book\<close>

record book_state =
  bsChain :: chain_snapshot
  bsSpot :: f64
  bsSpotAsOfMs :: int

type_synonym book = "(string, book_state) mapping"

definition NewInMemoryBook :: book where
  "NewInMemoryBook = Mapping.empty"

definition ApplyChainSnapshot :: "book \<Rightarrow> chain_snapshot \<Rightarrow> contract list \<times> (market_error + book)" where
  "ApplyChainSnapshot b snap =
     (if chTicker snap = [] then (chContracts snap, Inl InvalidSnapshot)
      else if \<not> saneSpot (chSpot snap) then (chContracts snap, Inl InvalidSnapshot)
      else case fill_contracts (chExchange snap) (chContracts snap) of
             (cs, Some e) \<Rightarrow> (cs, Inl e)
           | (cs, None) \<Rightarrow>
               (cs, Inr (Mapping.update (chTicker snap)
                  \<lparr>bsChain = snap\<lparr>chContracts := cs\<rparr>, bsSpot = chSpot snap, bsSpotAsOfMs = chAsOfMs snap\<rparr> b)))"

definition ApplySpot :: "book \<Rightarrow> string \<Rightarrow> f64 \<Rightarrow> int \<Rightarrow> market_error + book" where
  "ApplySpot b ticker spot asOfMs =
     (if ticker = [] then Inl InvalidSnapshot
      else if \<not> saneSpot spot then Inl InvalidSnapshot
      else case Mapping.lookup b ticker of
             None \<Rightarrow> Inl (UnknownTicker ticker)
           | Some bs \<Rightarrow>
               Inr (Mapping.update ticker
                 (bs\<lparr>bsSpot := spot, bsSpotAsOfMs := asOfMs,
                     bsChain := (bsChain bs)\<lparr>chSpot := spot,
                       chAsOfMs := max (chAsOfMs (bsChain bs)) asOfMs\<rparr>\<rparr>) b))"

definition Latest :: "book \<Rightarrow> string \<Rightarrow> book_state option" where
  "Latest b ticker = Mapping.lookup b ticker"

definition Tickers :: "book \<Rightarrow> string list" where
  "Tickers b = Mapping.ordered_keys b"

section \<open>The feed interface\<close>

text \<open>What a client of \<^verbatim>\<open>Feed\<close> sends: whole chains and spot ticks.\<close>

datatype feed_event = ChainEvent chain_snapshot | SpotEvent string f64 int

fun event_ticker :: "feed_event \<Rightarrow> string" where
  "event_ticker (ChainEvent s) = chTicker s"
| "event_ticker (SpotEvent t _ _) = t"

text \<open>
  The contract per ticker: the state a reader of that ticker sees after one event
  addressed to it. A chain replaces, a tick moves the spot of an existing chain, and
  structurally bad input changes nothing.
\<close>

definition contract_ok :: "contract \<Rightarrow> bool" where
  "contract_ok c \<longleftrightarrow> \<not> isl (validateContract c)"

definition chain_ok :: "chain_snapshot \<Rightarrow> bool" where
  "chain_ok s \<longleftrightarrow> chTicker s \<noteq> [] \<and> saneSpot (chSpot s) \<and>
     list_all contract_ok (chContracts s)"

definition accepted_contract :: "string \<Rightarrow> contract \<Rightarrow> contract" where
  "accepted_contract exch c =
     fill_exchange exch (case validateContract c of Inr c' \<Rightarrow> c' | Inl _ \<Rightarrow> c)"

fun view_step :: "feed_event \<Rightarrow> book_state option \<Rightarrow> book_state option" where
  "view_step (ChainEvent s) v =
     (if chain_ok s
      then Some \<lparr>bsChain = s\<lparr>chContracts := map (accepted_contract (chExchange s)) (chContracts s)\<rparr>,
                 bsSpot = chSpot s, bsSpotAsOfMs = chAsOfMs s\<rparr>
      else v)"
| "view_step (SpotEvent t p ms) v =
     (if t \<noteq> [] \<and> saneSpot p
      then map_option (\<lambda>bs. \<lparr>bsChain = (bsChain bs)\<lparr>chSpot := p, chAsOfMs := max (chAsOfMs (bsChain bs)) ms\<rparr>,
                             bsSpot = p, bsSpotAsOfMs = ms\<rparr>) v
      else v)"

locale market_feed =
  fixes apply_chain :: "'b \<Rightarrow> chain_snapshot \<Rightarrow> market_error + 'b"
    and apply_spot :: "'b \<Rightarrow> string \<Rightarrow> f64 \<Rightarrow> int \<Rightarrow> market_error + 'b"
    and latest :: "'b \<Rightarrow> string \<Rightarrow> book_state option"
  assumes chain_accepts: "(\<exists>b'. apply_chain b s = Inr b') \<longleftrightarrow> chain_ok s"
    and chain_reads: "apply_chain b s = Inr b' \<Longrightarrow>
          latest b' t = (if t = chTicker s then view_step (ChainEvent s) (latest b t) else latest b t)"
    and spot_accepts: "(\<exists>b'. apply_spot b t p ms = Inr b') \<longleftrightarrow>
          t \<noteq> [] \<and> saneSpot p \<and> latest b t \<noteq> None"
    and spot_reads: "apply_spot b t p ms = Inr b' \<Longrightarrow>
          latest b' u = (if u = t then view_step (SpotEvent t p ms) (latest b u) else latest b u)"
begin

text \<open>One event sent by a client that drops the error, as the edge and the CLI do.\<close>

definition send :: "feed_event \<Rightarrow> 'b \<Rightarrow> 'b" where
  "send e b = (case (case e of ChainEvent s \<Rightarrow> apply_chain b s | SpotEvent t p ms \<Rightarrow> apply_spot b t p ms)
               of Inr b' \<Rightarrow> b' | Inl _ \<Rightarrow> b)"

lemma latest_send:
  "latest (send e b) t = (if event_ticker e = t then view_step e (latest b t) else latest b t)"
proof (cases e)
  case (ChainEvent s)
  show ?thesis
  proof (cases "apply_chain b s")
    case (Inl x)
    then have "\<not> chain_ok s" using chain_accepts [of b s] by simp
    with Inl ChainEvent show ?thesis by (simp add: send_def)
  next
    case (Inr b')
    with ChainEvent chain_reads [OF Inr] show ?thesis by (simp add: send_def)
  qed
next
  case (SpotEvent u p ms)
  show ?thesis
  proof (cases "apply_spot b u p ms")
    case (Inl x)
    then have "\<not> (u \<noteq> [] \<and> saneSpot p \<and> latest b u \<noteq> None)"
      using spot_accepts [of b u p ms] by simp
    with Inl SpotEvent show ?thesis by (auto simp: send_def)
  next
    case (Inr b')
    with SpotEvent spot_reads [OF Inr] show ?thesis by (auto simp: send_def)
  qed
qed

lemma latest_run:
  "latest (fold send es b) t = fold view_step (filter (\<lambda>e. event_ticker e = t) es) (latest b t)"
  by (induction es arbitrary: b) (simp_all add: latest_send)

lemma run_invariant:
  assumes "\<And>e v. P v \<Longrightarrow> P (view_step e v)" "P (latest b t)"
  shows "P (latest (fold send es b) t)"
proof -
  have "P (fold view_step xs v)" if "P v" for xs v
    using that by (induction xs arbitrary: v) (simp_all add: assms(1))
  with assms(2) show ?thesis by (simp add: latest_run)
qed

end

section \<open>The book is a feed\<close>

lemma fill_contracts_spec:
  "(snd (fill_contracts exch cs) = None) = list_all contract_ok cs \<and>
   (list_all contract_ok cs \<longrightarrow> fst (fill_contracts exch cs) = map (accepted_contract exch) cs)"
proof (induction cs)
  case Nil
  show ?case by simp
next
  case (Cons c cs)
  show ?case
  proof (cases "validateContract c")
    case (Inl e)
    then show ?thesis by (simp add: contract_ok_def)
  next
    case (Inr c')
    with Cons show ?thesis
      by (cases "fill_contracts exch cs") (simp add: contract_ok_def accepted_contract_def)
  qed
qed

lemma ApplyChainSnapshot_Inr:
  "snd (ApplyChainSnapshot b s) = Inr b' \<longleftrightarrow> chain_ok s \<and>
     b' = Mapping.update (chTicker s)
       \<lparr>bsChain = s\<lparr>chContracts := map (accepted_contract (chExchange s)) (chContracts s)\<rparr>,
        bsSpot = chSpot s, bsSpotAsOfMs = chAsOfMs s\<rparr> b"
  using fill_contracts_spec [of "chExchange s" "chContracts s"]
  by (cases "fill_contracts (chExchange s) (chContracts s)")
    (auto simp: ApplyChainSnapshot_def chain_ok_def split: option.splits)

interpretation bk: market_feed "\<lambda>b s. snd (ApplyChainSnapshot b s)" ApplySpot Latest
proof unfold_locales
  fix b s
  show "(\<exists>b'. snd (ApplyChainSnapshot b s) = Inr b') \<longleftrightarrow> chain_ok s"
    by (simp add: ApplyChainSnapshot_Inr)
next
  fix b b' s t
  assume "snd (ApplyChainSnapshot b s) = Inr b'"
  then show "Latest b' t = (if t = chTicker s then view_step (ChainEvent s) (Latest b t) else Latest b t)"
    by (auto simp: ApplyChainSnapshot_Inr Latest_def lookup_update')
next
  fix b t p ms
  show "(\<exists>b'. ApplySpot b t p ms = Inr b') \<longleftrightarrow> t \<noteq> [] \<and> saneSpot p \<and> Latest b t \<noteq> None"
    by (auto simp: ApplySpot_def Latest_def split: option.splits)
next
  fix b b' t p ms u
  assume "ApplySpot b t p ms = Inr b'"
  then show "Latest b' u = (if u = t then view_step (SpotEvent t p ms) (Latest b u) else Latest b u)"
    by (auto simp: ApplySpot_def Latest_def lookup_update' split: option.splits if_splits)
qed

text \<open>The client loop over the book, written out.\<close>

definition book_send :: "feed_event \<Rightarrow> book \<Rightarrow> book" where
  "book_send e b =
     (case (case e of ChainEvent s \<Rightarrow> snd (ApplyChainSnapshot b s)
                    | SpotEvent t p ms \<Rightarrow> ApplySpot b t p ms)
      of Inr b' \<Rightarrow> b' | Inl _ \<Rightarrow> b)"

lemma book_send_eq: "book_send = bk.send"
  by (simp add: fun_eq_iff book_send_def bk.send_def)

lemma Latest_empty [simp]: "Latest NewInMemoryBook t = None"
  by (simp add: Latest_def NewInMemoryBook_def)

section \<open>Well-formed books\<close>

definition wf_contract :: "contract \<Rightarrow> bool" where
  "wf_contract c \<longleftrightarrow> cConId c \<noteq> 0 \<and> finite64 (cStrike c) \<and> cStrike c > 0 \<and>
     cRight c \<in> {RightCall, RightPut} \<and>
     finite64 (cOpenInterest c) \<and> cOpenInterest c \<ge> 0 \<and>
     finite64 (cBid c) \<and> cBid c \<ge> 0 \<and> finite64 (cAsk c) \<and> cAsk c \<ge> 0 \<and>
     cSettlement c \<in> {[], SettlementAM, SettlementPM} \<and> cMultiplier c \<noteq> 0"

definition wf_state :: "string \<Rightarrow> book_state \<Rightarrow> bool" where
  "wf_state t bs \<longleftrightarrow> chTicker (bsChain bs) = t \<and> t \<noteq> [] \<and> saneSpot (bsSpot bs) \<and>
     chSpot (bsChain bs) = bsSpot bs \<and> bsSpotAsOfMs bs \<le> chAsOfMs (bsChain bs) \<and>
     (\<forall>c \<in> set (chContracts (bsChain bs)). wf_contract c \<and>
        (chExchange (bsChain bs) \<noteq> [] \<longrightarrow> cExchange c \<noteq> []))"

lemma finite64_nonneg: "finite64 a \<Longrightarrow> \<not> a < 0 \<Longrightarrow> a \<ge> (0 :: f64)"
  by (cases a) (auto simp: zero_f64_def)

lemma finite64_pos: "finite64 a \<Longrightarrow> \<not> a \<le> 0 \<Longrightarrow> a > (0 :: f64)"
  by (cases a) (auto simp: zero_f64_def)

lemma validateContract_wf:
  assumes "validateContract c = Inr c'" shows "wf_contract c'"
proof -
  have "cMultiplier c' \<noteq> 0"
    using assms by (auto simp: validateContract_def feq_def DefaultMultiplier_def zero_f64_def f64_simps
        split: if_splits)
  then show ?thesis
    using assms finite64_nonneg finite64_pos
    by (auto simp: validateContract_def wf_contract_def split: if_splits)
qed

lemma wf_fill_exchange: "wf_contract (fill_exchange exch c) = wf_contract c"
  by (simp add: fill_exchange_def wf_contract_def)

lemma view_step_wf:
  assumes "\<forall>bs. v = Some bs \<longrightarrow> wf_state t bs" "event_ticker e = t" "view_step e v = Some bs'"
  shows "wf_state t bs'"
proof (cases e)
  case (ChainEvent s)
  show ?thesis
  proof (cases "chain_ok s")
    case True
    have "wf_contract (accepted_contract (chExchange s) c) \<and>
        (chExchange s \<noteq> [] \<longrightarrow> cExchange (accepted_contract (chExchange s) c) \<noteq> [])"
      if c: "c \<in> set (chContracts s)" for c
    proof -
      have "\<not> isl (validateContract c)"
        using c True by (simp add: chain_ok_def list_all_iff contract_ok_def)
      then obtain c' where c': "validateContract c = Inr c'"
        by (cases "validateContract c") simp_all
      then show ?thesis
        using validateContract_wf [OF c']
        by (simp add: accepted_contract_def wf_fill_exchange) (simp add: fill_exchange_def)
    qed
    with True ChainEvent assms(2,3) show ?thesis
      by (auto simp: wf_state_def chain_ok_def)
  next
    case False
    with ChainEvent assms show ?thesis by simp
  qed
next
  case (SpotEvent u p ms)
  then show ?thesis
    using assms by (auto simp: wf_state_def split: if_splits)
qed

lemma Latest_wf:
  assumes "Latest (fold book_send es NewInMemoryBook) t = Some bs"
  shows "wf_state t bs"
proof -
  have run: "\<forall>bs. fold view_step xs v = Some bs \<longrightarrow> wf_state t bs"
    if "\<forall>bs. v = Some bs \<longrightarrow> wf_state t bs" "\<forall>e \<in> set xs. event_ticker e = t" for xs v
    using that
  proof (induction xs arbitrary: v)
    case Nil
    then show ?case by simp
  next
    case (Cons e xs)
    have "\<forall>bs. view_step e v = Some bs \<longrightarrow> wf_state t bs"
      using view_step_wf [OF Cons.prems(1), of e] Cons.prems(2) by auto
    then have "\<forall>bs. fold view_step xs (view_step e v) = Some bs \<longrightarrow> wf_state t bs"
      by (rule Cons.IH) (use Cons.prems(2) in simp)
    then show ?case by (simp only: fold_simps)
  qed
  have "\<forall>bs. fold view_step (filter (\<lambda>e. event_ticker e = t) es) None = Some bs \<longrightarrow> wf_state t bs"
    by (rule run) simp_all
  with assms show ?thesis by (simp add: book_send_eq bk.latest_run)
qed

text \<open>
  Fact. After any sequence of chains and ticks, valid or not, every state the
  book serves is well formed: filed under its own non-empty ticker, with a positive
  spot below the unset marker that the chain header agrees with, a time stamp the chain
  stamp never trails, and contracts that all pass validation and carry a multiplier.
\<close>

theorem book_states_wf:
  assumes "Latest (fold book_send es NewInMemoryBook) t = Some bs"
  shows "wf_state t bs"
  using assms by (rule Latest_wf)

definition book_demo_contract :: contract where
  "book_demo_contract =
     \<lparr>cConId = 7, cTicker = ''SPY'', cStrike = Fin 100, cRight = ''C'', cExpiryDate = ''20261016'',
      cTradingClass = ''SPY'', cMultiplier = Fin 0, cOpenInterest = Fin 10, cExchange = [],
      cSettlement = [], cSDTier = Fin 0, cIV = Fin 0, cBid = Fin 1, cAsk = Fin 2\<rparr>"

definition book_demo_chain :: chain_snapshot where
  "book_demo_chain = \<lparr>chTicker = ''SPY'', chSpot = Fin 100, chAsOfMs = 5,
     chContracts = [book_demo_contract], chUnderlyingType = ''STK'', chExchange = ''SMART''\<rparr>"

lemma book_demo_valid:
  "validateContract book_demo_contract = Inr (book_demo_contract\<lparr>cMultiplier := Fin 100\<rparr>)"
  by (simp add: validateContract_def book_demo_contract_def RightCall_def DefaultMultiplier_def
      zero_f64_def f64_simps)

lemma book_demo_sane: "saneSpot (Fin 100)" "saneSpot (Fin 101)"
  by (simp_all add: saneSpot_def zero_f64_def f64_simps)

lemma book_demo_ok: "chain_ok book_demo_chain"
  by (simp add: chain_ok_def contract_ok_def book_demo_sane book_demo_valid book_demo_chain_def)

lemma book_demo_latest:
  "Latest (fold book_send [ChainEvent book_demo_chain, SpotEvent ''SPY'' (Fin 101) 3,
      SpotEvent ''QQQ'' (Fin 101) 9, SpotEvent ''SPY'' NaN 9] NewInMemoryBook) ''SPY'' =
   Some \<lparr>bsChain = book_demo_chain\<lparr>chSpot := Fin 101, chContracts :=
       [book_demo_contract\<lparr>cMultiplier := Fin 100, cExchange := ''SMART''\<rparr>]\<rparr>,
     bsSpot = Fin 101, bsSpotAsOfMs = 3\<rparr>"
proof -
  have "\<not> saneSpot NaN" by (simp add: saneSpot_def)
  moreover have t: "chTicker book_demo_chain = ''SPY''" by (simp add: book_demo_chain_def)
  moreover have "accepted_contract ''SMART'' book_demo_contract =
      book_demo_contract\<lparr>cMultiplier := Fin 100, cExchange := ''SMART''\<rparr>"
    by (simp add: accepted_contract_def book_demo_valid fill_exchange_def)
      (simp add: book_demo_contract_def)
  ultimately show ?thesis
    using book_demo_ok book_demo_sane
    by (simp only: book_send_eq bk.latest_run) (simp add: book_demo_chain_def)
qed

theorem book_states_wf_witness:
  "wf_state ''SPY'' \<lparr>bsChain = book_demo_chain\<lparr>chSpot := Fin 101, chContracts :=
       [book_demo_contract\<lparr>cMultiplier := Fin 100, cExchange := ''SMART''\<rparr>]\<rparr>,
     bsSpot = Fin 101, bsSpotAsOfMs = 3\<rparr>"
  by (rule book_states_wf [OF book_demo_latest])

text \<open>
  Property C8. The book refines one independent state per ticker: what \<^verbatim>\<open>Latest\<close> serves
  after any event sequence is the per-ticker contract run over the events of that
  ticker alone, refused events included.
\<close>

theorem book_refines_views:
  "Latest (fold book_send es NewInMemoryBook) t =
     fold view_step (filter (\<lambda>e. event_ticker e = t) es) None"
  by (simp add: book_send_eq bk.latest_run)

text \<open>
  \<^verbatim>\<open>Tickers\<close> lists exactly the tickers \<^verbatim>\<open>Latest\<close> knows, sorted and without repeats.
\<close>

lemma finite_book: "finite (Mapping.keys b) \<Longrightarrow> finite (Mapping.keys (book_send e b))"
  by (auto simp: book_send_def ApplyChainSnapshot_def ApplySpot_def
      split: feed_event.splits sum.splits prod.splits option.splits if_splits)

lemma finite_run: "finite (Mapping.keys b) \<Longrightarrow> finite (Mapping.keys (fold book_send es b))"
  by (induction es arbitrary: b) (simp_all add: finite_book)

lemma Tickers_run:
  fixes es defines "b \<equiv> fold book_send es NewInMemoryBook"
  shows "sorted (Tickers b) \<and> distinct (Tickers b) \<and> set (Tickers b) = {t. Latest b t \<noteq> None}"
proof -
  have "finite (Mapping.keys b)"
    unfolding b_def by (rule finite_run) (simp add: NewInMemoryBook_def)
  then show ?thesis
    by (simp add: Tickers_def ordered_keys_def Latest_def keys_dom_lookup dom_def)
qed

end
