(* ===== verification/Collect.thy ===== *)
theory Collect
  imports Float64
begin

text \<open>
  The two loop idioms of the aggregation code, as interfaces. \<open>grouping\<close>: a Go map of
  accumulators filled by "look the key up, create the entry if it is missing, add to
  it", together with the slice of keys in order of first insertion; its client lemma
  gives the finished accumulators in closed form. \<open>best_scan\<close>: a running best under a
  strict comparison; its client lemma says which element wins.
\<close>

section \<open>Grouping\<close>

fun upsert :: "('a \<Rightarrow> bool) \<Rightarrow> ('a \<Rightarrow> 'a) \<Rightarrow> 'a \<Rightarrow> 'a list \<Rightarrow> 'a list" where
  "upsert P f z [] = [f z]"
| "upsert P f z (x # xs) = (if P x then f x # xs else x # upsert P f z xs)"

lemma upsert_new: "\<forall>x \<in> set xs. \<not> P x \<Longrightarrow> upsert P f z xs = xs @ [f z]"
  by (induction xs) simp_all

lemma upsert_map:
  assumes "distinct ks" "k \<in> set ks" "\<forall>k' \<in> set ks. P (g k') \<longleftrightarrow> k' = k"
  shows "upsert P f z (map g ks) = map (\<lambda>k'. if k' = k then f (g k') else g k') ks"
  using assms
proof (induction ks)
  case Nil
  then show ?case by simp
next
  case (Cons a ks)
  show ?case
  proof (cases "a = k")
    case True
    then have "map (\<lambda>k'. if k' = k then f (g k') else g k') ks = map g ks"
      using Cons.prems(1) by (intro map_cong) auto
    then show ?thesis using True Cons.prems(3) by simp
  next
    case False
    then show ?thesis using Cons by simp
  qed
qed

lemma upsert_invariant:
  "list_all Q xs \<Longrightarrow> (\<And>x. Q x \<Longrightarrow> Q (f x)) \<Longrightarrow> Q (f z) \<Longrightarrow> list_all Q (upsert P f z xs)"
  by (induction xs) simp_all

locale grouping =
  fixes same :: "'k \<Rightarrow> 'k \<Rightarrow> bool"
    and ekey :: "'a \<Rightarrow> 'k" and xkey :: "'x \<Rightarrow> 'k"
    and new :: "'x \<Rightarrow> 'a" and add :: "'x \<Rightarrow> 'a \<Rightarrow> 'a"
  assumes new_key: "ekey (new x) = xkey x"
    and add_key: "ekey (add x a) = ekey a"
begin

definition group_step :: "'x \<Rightarrow> 'a list \<Rightarrow> 'a list" where
  "group_step x = upsert (\<lambda>a. same (ekey a) (xkey x)) (add x) (new x)"

definition proper :: "'x list \<Rightarrow> bool" where
  "proper xs \<longleftrightarrow> (\<forall>x \<in> set xs. \<forall>y \<in> set xs. same (xkey x) (xkey y) \<longleftrightarrow> xkey x = xkey y)"

definition group_of :: "'x list \<Rightarrow> 'k \<Rightarrow> 'a" where
  "group_of xs k = (let ys = filter (\<lambda>x. xkey x = k) xs in fold add ys (new (hd ys)))"

lemma fold_add_key: "ekey (fold add ys a) = ekey a"
  by (induction ys arbitrary: a) (simp_all add: add_key)

lemma group_of_key: assumes "k \<in> xkey ` set xs" shows "ekey (group_of xs k) = k"
proof -
  have "filter (\<lambda>x. xkey x = k) xs \<noteq> []" using assms by (auto simp: filter_empty_conv)
  then have "hd (filter (\<lambda>x. xkey x = k) xs) \<in> set (filter (\<lambda>x. xkey x = k) xs)" by (rule hd_in_set)
  then show ?thesis by (simp add: group_of_def Let_def fold_add_key new_key)
qed

lemma group_of_other: "xkey y \<noteq> k \<Longrightarrow> group_of (xs @ [y]) k = group_of xs k"
  by (simp add: group_of_def)

lemma group_of_same:
  assumes "xkey y \<in> xkey ` set xs"
  shows "group_of (xs @ [y]) (xkey y) = add y (group_of xs (xkey y))"
proof -
  have "filter (\<lambda>x. xkey x = xkey y) xs \<noteq> []" using assms by (auto simp: filter_empty_conv)
  then show ?thesis by (simp add: group_of_def Let_def hd_append2)
qed

lemma group_closed:
  "proper xs \<Longrightarrow> fold group_step xs [] = map (group_of xs) (firsts [] (map xkey xs))"
proof (induction xs rule: rev_induct)
  case Nil
  show ?case by simp
next
  case (snoc y xs)
  let ?ks = "firsts [] (map xkey xs)"
  have p: "proper xs" using snoc.prems by (simp add: proper_def)
  have ks: "set ?ks = xkey ` set xs" "distinct ?ks" by (simp_all add: set_firsts distinct_firsts)
  have hit: "same (ekey (group_of xs k)) (xkey y) \<longleftrightarrow> k = xkey y" if k: "k \<in> set ?ks" for k
  proof -
    obtain x where x: "x \<in> set xs" "k = xkey x" using k ks(1) by auto
    then show ?thesis using snoc.prems group_of_key [of k xs] by (auto simp: proper_def)
  qed
  have f: "fold group_step (xs @ [y]) [] = group_step y (map (group_of xs) ?ks)"
    using snoc.IH [OF p] by simp
  show ?case
  proof (cases "xkey y \<in> set ?ks")
    case True
    have "map (\<lambda>k'. if k' = xkey y then add y (group_of xs k') else group_of xs k') ?ks =
        map (group_of (xs @ [y])) ?ks"
      using True ks(1) by (intro map_cong refl) (auto simp: group_of_same group_of_other)
    then show ?thesis
      unfolding f using True hit ks
      by (simp add: group_step_def upsert_map [where k = "xkey y"] firsts_snoc)
  next
    case False
    then have "xkey y \<notin> xkey ` set xs" using ks(1) by simp
    then have "filter (\<lambda>x. xkey x = xkey y) xs = []" by (auto simp: filter_empty_conv) (metis image_eqI)
    then have g: "group_of (xs @ [y]) (xkey y) = add y (new y)" by (simp add: group_of_def)
    have "\<forall>a \<in> set (map (group_of xs) ?ks). \<not> same (ekey a) (xkey y)"
      using hit False by auto
    then have "group_step y (map (group_of xs) ?ks) = map (group_of xs) ?ks @ [add y (new y)]"
      unfolding group_step_def by (rule upsert_new)
    moreover have m: "map (group_of xs) ?ks = map (group_of (xs @ [y])) ?ks"
      using False by (intro map_cong refl group_of_other [symmetric]) metis
    ultimately have "fold group_step (xs @ [y]) [] = map (group_of (xs @ [y])) ?ks @ [add y (new y)]"
      unfolding f by (simp only:)
    then show ?thesis
      using \<open>xkey y \<notin> xkey ` set xs\<close> g by (simp only: map_append list.map firsts_snoc) simp
  qed
qed

end

section \<open>Running best\<close>

locale best_scan =
  fixes better :: "'v \<Rightarrow> 'v \<Rightarrow> bool" and ok :: "'v \<Rightarrow> bool"
  assumes irrefl: "\<not> better v v"
    and trans: "better u v \<Longrightarrow> better v w \<Longrightarrow> better u w"
    and split: "ok u \<Longrightarrow> ok v \<Longrightarrow> ok w \<Longrightarrow> better u w \<Longrightarrow> better u v \<or> better v w"
begin

definition scan_step :: "('a \<Rightarrow> 'v) \<Rightarrow> 'a \<Rightarrow> 'a option \<Rightarrow> 'a option" where
  "scan_step score x best =
     (case best of None \<Rightarrow> Some x | Some b \<Rightarrow> if better (score x) (score b) then Some x else best)"

definition wins :: "('a \<Rightarrow> 'v) \<Rightarrow> 'a list \<Rightarrow> nat \<Rightarrow> bool" where
  "wins score xs i \<longleftrightarrow> i < length xs \<and>
     (\<forall>j < length xs. \<not> better (score (xs ! j)) (score (xs ! i))) \<and>
     (\<forall>j < i. better (score (xs ! i)) (score (xs ! j)))"

lemma scan_wins:
  assumes "list_all (\<lambda>x. ok (score x)) xs" "xs \<noteq> []"
  shows "\<exists>i. wins score xs i \<and> fold (scan_step score) xs None = Some (xs ! i)"
  using assms
proof (induction xs rule: rev_induct)
  case Nil
  then show ?case by simp
next
  case (snoc y xs)
  show ?case
  proof (cases "xs = []")
    case True
    then show ?thesis by (auto simp: wins_def scan_step_def irrefl)
  next
    case False
    then obtain i where i: "wins score xs i" "fold (scan_step score) xs None = Some (xs ! i)"
      using snoc by auto
    have ok: "ok (score y)" "\<forall>j < length xs. ok (score (xs ! j))"
      using snoc.prems(1) by (auto simp: list_all_length nth_append) (metis less_SucI)
    have l: "i < length xs" "\<forall>j < length xs. \<not> better (score (xs ! j)) (score (xs ! i))"
      "\<forall>j < i. better (score (xs ! i)) (score (xs ! j))" using i(1) by (simp_all add: wins_def)
    show ?thesis
    proof (cases "better (score y) (score (xs ! i))")
      case True
      have b: "better (score y) (score (xs ! j))" if "j < length xs" for j
        using split [OF ok(1) _ _ True, of "score (xs ! j)"] ok l(1,2) that by blast
      have nb: "\<not> better (score (xs ! j)) (score y)" if "j < length xs" for j
        using b [OF that] trans irrefl by blast
      have "wins score (xs @ [y]) (length xs)"
        using b nb by (auto simp: wins_def nth_append irrefl less_Suc_eq)
      moreover have "fold (scan_step score) (xs @ [y]) None = Some y"
        using i(2) True by (simp add: scan_step_def [of _ y])
      ultimately show ?thesis by (intro exI [of _ "length xs"]) simp
    next
      case False
      have "wins score (xs @ [y]) i"
        using l False by (auto simp: wins_def nth_append less_Suc_eq)
      moreover have "fold (scan_step score) (xs @ [y]) None = Some (xs ! i)"
        using i(2) False by (simp add: scan_step_def [of _ y])
      ultimately show ?thesis using l(1) by (intro exI [of _ i]) (simp add: nth_append)
    qed
  qed
qed

end

text \<open>Both comparisons of floats are such scans, away from NaN.\<close>

interpretation highest: best_scan "\<lambda>u v. u > v" "\<lambda>v :: f64. v \<noteq> NaN"
proof unfold_locales
  fix u v w :: f64
  show "\<not> v > v" by simp
  show "u > v \<Longrightarrow> v > w \<Longrightarrow> u > w" by (rule less_f64_trans)
  show "u \<noteq> NaN \<Longrightarrow> v \<noteq> NaN \<Longrightarrow> w \<noteq> NaN \<Longrightarrow> u > w \<Longrightarrow> u > v \<or> v > w"
    by (cases u; cases v; cases w) auto
qed

interpretation lowest: best_scan "\<lambda>u v. u < v" "\<lambda>v :: f64. v \<noteq> NaN"
proof unfold_locales
  fix u v w :: f64
  show "\<not> v < v" by simp
  show "u < v \<Longrightarrow> v < w \<Longrightarrow> u < w" by (rule less_f64_trans)
  show "u \<noteq> NaN \<Longrightarrow> v \<noteq> NaN \<Longrightarrow> w \<noteq> NaN \<Longrightarrow> u < w \<Longrightarrow> u < v \<or> v < w"
    by (cases u; cases v; cases w) auto
qed

section \<open>Running minimum and maximum\<close>

lemma fold_lo_bounds:
  assumes "\<forall>x \<in> set xs. f x \<noteq> NaN" "m \<noteq> NaN"
  shows "fold (\<lambda>x m. if f x < m then f x else m) xs m \<in> insert m (f ` set xs) \<and>
    fold (\<lambda>x m. if f x < m then f x else m) xs m \<le> m \<and>
    (\<forall>x \<in> set xs. fold (\<lambda>x m. if f x < m then f x else m) xs m \<le> f x)"
  using assms
proof (induction xs arbitrary: m)
  case (Cons x xs)
  let ?m = "if f x < m then f x else m"
  have m: "?m \<noteq> NaN" "?m \<le> m" "?m \<le> f x" "?m \<in> {m, f x}"
    using Cons.prems less_f64_imp_le less_f64_iff [of "f x" m] by auto
  have IH: "fold (\<lambda>x m. if f x < m then f x else m) xs ?m \<in> insert ?m (f ` set xs)"
    "fold (\<lambda>x m. if f x < m then f x else m) xs ?m \<le> ?m"
    "\<forall>x \<in> set xs. fold (\<lambda>x m. if f x < m then f x else m) xs ?m \<le> f x"
    using Cons.IH [OF _ m(1)] Cons.prems(1) by auto
  have "fold (\<lambda>x m. if f x < m then f x else m) xs ?m \<in> insert m (f ` insert x (set xs))"
    using IH(1) m(4) by (elim insertE) (simp_all only: insert_iff image_insert simp_thms empty_iff)
  then show ?case
    unfolding fold_simps list.set using IH(3) le_f64_trans [OF IH(2) m(2)] le_f64_trans [OF IH(2) m(3)]
    by (simp only: ball_simps simp_thms)
qed simp

lemma fold_hi_bounds:
  assumes "\<forall>x \<in> set xs. f x \<noteq> NaN" "m \<noteq> NaN"
  shows "fold (\<lambda>x m. if f x > m then f x else m) xs m \<in> insert m (f ` set xs) \<and>
    m \<le> fold (\<lambda>x m. if f x > m then f x else m) xs m \<and>
    (\<forall>x \<in> set xs. f x \<le> fold (\<lambda>x m. if f x > m then f x else m) xs m)"
  using assms
proof (induction xs arbitrary: m)
  case (Cons x xs)
  let ?m = "if f x > m then f x else m"
  have m: "?m \<noteq> NaN" "m \<le> ?m" "f x \<le> ?m" "?m \<in> {m, f x}"
    using Cons.prems less_f64_imp_le less_f64_iff [of m "f x"] by auto
  have IH: "fold (\<lambda>x m. if f x > m then f x else m) xs ?m \<in> insert ?m (f ` set xs)"
    "?m \<le> fold (\<lambda>x m. if f x > m then f x else m) xs ?m"
    "\<forall>x \<in> set xs. f x \<le> fold (\<lambda>x m. if f x > m then f x else m) xs ?m"
    using Cons.IH [OF _ m(1)] Cons.prems(1) by auto
  have "fold (\<lambda>x m. if f x > m then f x else m) xs ?m \<in> insert m (f ` insert x (set xs))"
    using IH(1) m(4) by (elim insertE) (simp_all only: insert_iff image_insert simp_thms empty_iff)
  then show ?case
    unfolding fold_simps list.set using IH(3) le_f64_trans [OF m(2) IH(2)] le_f64_trans [OF m(3) IH(2)]
    by (simp only: ball_simps simp_thms)
qed simp

end
