(* ===== verification/Rootfind.thy ===== *)
theory Rootfind
  imports Float64
begin

text \<open>
  Package \<^verbatim>\<open>rootfind\<close>: the Brent-Dekker root finder. The loop variables are a record, one
  turn of the loop body is \<open>brent_step\<close>, and the loop runs at most \<^verbatim>\<open>maxIter\<close> turns, so
  its recursion is on the turns left. The objective is an argument.
\<close>

definition DefaultTol :: real where "DefaultTol = 1 / 1000"
definition DefaultMaxIter :: nat where "DefaultMaxIter = 100"

datatype root_error = ErrNaN | ErrNoBracket

record brent =
  brA :: f64
  brFa :: f64
  brB :: f64
  brFb :: f64
  brC :: f64
  brFc :: f64
  brD :: f64
  brE :: f64

text \<open>The two renamings at the top of the loop body.\<close>

definition brent_rebracket :: "brent \<Rightarrow> brent" where
  "brent_rebracket s =
     (if (brFb s > 0) = (brFc s > 0)
      then s\<lparr>brC := brA s, brFc := brFa s, brD := brB s - brA s, brE := brB s - brA s\<rparr> else s)"

definition brent_swap :: "brent \<Rightarrow> brent" where
  "brent_swap s =
     (if \<bar>brFc s\<bar> < \<bar>brFb s\<bar>
      then s\<lparr>brA := brB s, brFa := brFb s, brB := brC s, brFb := brFc s, brC := brB s, brFc := brFb s\<rparr>
      else s)"

definition brent_tol1 :: "f64 \<Rightarrow> f64 \<Rightarrow> f64" where
  "brent_tol1 tol b = lit (2 * (1 / 10 ^ 15)) * \<bar>b\<bar> + lit (1 / 2) * tol"

text \<open>The interpolant \<open>p / q\<close>: secant when \<open>a = c\<close>, inverse quadratic otherwise.\<close>

definition brent_pq :: "brent \<Rightarrow> f64 \<Rightarrow> f64 \<times> f64" where
  "brent_pq s xm =
     (let r1 = brFb s / brFa s;
          (p, q) =
            if feq (brA s) (brC s) then (lit 2 * xm * r1, 1 - r1)
            else let q0 = brFa s / brFc s; r = brFb s / brFc s
                 in (r1 * (lit 2 * xm * q0 * (q0 - r) - (brB s - brA s) * (r - 1)),
                     (q0 - 1) * (r - 1) * (r1 - 1));
          q' = (if p > 0 then - q else q)
      in (\<bar>p\<bar>, q'))"

text \<open>The choice of the step: the pair \<open>(d, e)\<close>.\<close>

definition brent_de :: "brent \<Rightarrow> f64 \<Rightarrow> f64 \<Rightarrow> f64 \<times> f64" where
  "brent_de s xm tol1 =
     (if \<bar>brE s\<bar> \<ge> tol1 \<and> \<bar>brFa s\<bar> > \<bar>brFb s\<bar>
      then case brent_pq s xm of (p, q) \<Rightarrow>
             let min1 = lit 3 * xm * q - \<bar>tol1 * q\<bar>; min2 = \<bar>brE s * q\<bar>
             in if lit 2 * p < math_Min min1 min2 then (p / q, brD s) else (xm, xm)
      else (xm, xm))"

definition brent_move :: "f64 \<Rightarrow> f64 \<Rightarrow> f64 \<Rightarrow> f64 \<Rightarrow> f64" where
  "brent_move b d xm tol1 =
     (if \<bar>d\<bar> > tol1 then b + d else if xm < 0 then b - tol1 else b + tol1)"

datatype brent_out = Converged f64 | Exhausted f64 | BadValue

datatype brent_turn = Stop brent_out | Next brent

definition brent_step :: "(f64 \<Rightarrow> f64) \<Rightarrow> f64 \<Rightarrow> brent \<Rightarrow> brent_turn" where
  "brent_step f tol s0 =
     (let s = brent_swap (brent_rebracket s0);
          tol1 = brent_tol1 tol (brB s);
          xm = lit (1 / 2) * (brC s - brB s)
      in if \<bar>xm\<bar> \<le> tol1 \<or> feq (brFb s) 0 then Stop (Converged (brB s))
         else case brent_de s xm tol1 of (d, e) \<Rightarrow>
           let b' = brent_move (brB s) d xm tol1; fb' = f b'
           in if \<not> finite64 fb' then Stop BadValue
              else Next (s\<lparr>brA := brB s, brFa := brFb s, brB := b', brFb := fb', brD := d, brE := e\<rparr>))"

fun brent_loop :: "(f64 \<Rightarrow> f64) \<Rightarrow> f64 \<Rightarrow> nat \<Rightarrow> brent \<Rightarrow> brent_out" where
  "brent_loop f tol 0 s = Exhausted (brB s)"
| "brent_loop f tol (Suc n) s =
     (case brent_step f tol s of Stop r \<Rightarrow> r | Next s' \<Rightarrow> brent_loop f tol n s')"

definition brent_init :: "(f64 \<Rightarrow> f64) \<Rightarrow> f64 \<Rightarrow> f64 \<Rightarrow> brent" where
  "brent_init f a b =
     \<lparr>brA = a, brFa = f a, brB = b, brFb = f b, brC = b, brFc = f b, brD = b - a, brE = b - a\<rparr>"

definition FindRoot :: "(f64 \<Rightarrow> f64) \<Rightarrow> f64 \<Rightarrow> f64 \<Rightarrow> f64 \<Rightarrow> nat \<Rightarrow> root_error + f64" where
  "FindRoot f a b tol maxIter =
     (let fa = f a; fb = f b
      in if \<not> finite64 fa \<or> \<not> finite64 fb then Inl ErrNaN
         else if fa * fb > 0 then Inl ErrNoBracket
         else if feq fa 0 then Inr a
         else if feq fb 0 then Inr b
         else case brent_loop f tol maxIter (brent_init f a b) of
                Converged r \<Rightarrow> Inr r | Exhausted r \<Rightarrow> Inr r | BadValue \<Rightarrow> Inl ErrNaN)"

section \<open>The bracket invariant\<close>

text \<open>
  At the top of the loop body the stored values are the objective's, all finite, and one
  of the two candidate brackets \<open>(b, c)\<close> and \<open>(b, a)\<close> has the sign change.
\<close>

definition opposite :: "f64 \<Rightarrow> f64 \<Rightarrow> bool" where
  "opposite u v \<longleftrightarrow> (u > 0) \<noteq> (v > 0)"

definition brent_inv :: "(f64 \<Rightarrow> f64) \<Rightarrow> brent \<Rightarrow> bool" where
  "brent_inv f s \<longleftrightarrow> brFa s = f (brA s) \<and> brFb s = f (brB s) \<and> brFc s = f (brC s) \<and>
     finite64 (brFa s) \<and> finite64 (brFb s) \<and> finite64 (brFc s) \<and>
     (opposite (brFb s) (brFc s) \<or> opposite (brFb s) (brFa s))"

definition brent_bracketed :: "(f64 \<Rightarrow> f64) \<Rightarrow> brent \<Rightarrow> bool" where
  "brent_bracketed f s \<longleftrightarrow> brent_inv f s \<and> opposite (brFb s) (brFc s) \<and> \<bar>brFb s\<bar> \<le> \<bar>brFc s\<bar>"

lemma finite64_abs_total: "finite64 a \<Longrightarrow> finite64 b \<Longrightarrow> \<not> \<bar>b\<bar> < \<bar>a\<bar> \<Longrightarrow> \<bar>a\<bar> \<le> \<bar>b\<bar>"
  by (cases a; cases b) auto

lemma brent_rename_bracketed:
  assumes "brent_inv f s" shows "brent_bracketed f (brent_swap (brent_rebracket s))"
proof -
  have r: "brent_inv f (brent_rebracket s)" "opposite (brFb (brent_rebracket s)) (brFc (brent_rebracket s))"
    using assms by (auto simp: brent_inv_def brent_rebracket_def opposite_def)
  then show ?thesis
    using finite64_abs_total
    by (auto simp: brent_bracketed_def brent_swap_def brent_inv_def opposite_def less_f64_imp_le)
qed

lemma brent_step_cases:
  assumes "brent_inv f s0"
  defines "s \<equiv> brent_swap (brent_rebracket s0)"
  shows "brent_step f tol s0 = Next s' \<Longrightarrow> brent_inv f s'"
    and "brent_step f tol s0 = Stop (Converged r) \<Longrightarrow>
      r = brB s \<and> brent_bracketed f s \<and>
      (\<bar>lit (1 / 2) * (brC s - r)\<bar> \<le> brent_tol1 tol r \<or> f r = 0)"
    and "brent_step f tol s0 \<noteq> Stop (Exhausted r)"
proof -
  have b: "brent_bracketed f s" unfolding s_def using assms(1) by (rule brent_rename_bracketed)
  show "brent_inv f s'" if "brent_step f tol s0 = Next s'"
    using that b unfolding brent_step_def s_def [symmetric]
    by (auto simp: Let_def brent_bracketed_def brent_inv_def opposite_def split: if_splits prod.splits)
  show "r = brB s \<and> brent_bracketed f s \<and> (\<bar>lit (1 / 2) * (brC s - r)\<bar> \<le> brent_tol1 tol r \<or> f r = 0)"
    if "brent_step f tol s0 = Stop (Converged r)"
    using that b unfolding brent_step_def s_def [symmetric]
    by (auto simp: Let_def feq_def brent_bracketed_def brent_inv_def split: if_splits prod.splits)
  show "brent_step f tol s0 \<noteq> Stop (Exhausted r)"
    by (simp add: brent_step_def Let_def split: prod.splits)
qed

text \<open>What a returned point certifies.\<close>

definition certified :: "(f64 \<Rightarrow> f64) \<Rightarrow> f64 \<Rightarrow> f64 \<Rightarrow> bool" where
  "certified f tol r \<longleftrightarrow> f r = 0 \<or>
     (\<exists>c. opposite (f r) (f c) \<and> \<bar>f r\<bar> \<le> \<bar>f c\<bar> \<and> \<bar>lit (1 / 2) * (c - r)\<bar> \<le> brent_tol1 tol r)"

lemma brent_loop_certified:
  assumes "brent_inv f s"
  shows "brent_loop f tol n s = Converged r \<Longrightarrow> certified f tol r"
    and "brent_loop f tol n s = Exhausted r \<Longrightarrow> finite64 (f r) \<and> (\<exists>c. opposite (f r) (f c))"
  using assms
proof (induction n arbitrary: s)
  case 0
  { case 1 then show ?case by simp }
  { case 2 then show ?case by (auto simp: brent_inv_def) }
next
  case (Suc n)
  { case 1
    show ?case
    proof (cases "brent_step f tol s")
      case (Stop x)
      then have "brent_step f tol s = Stop (Converged r)" using 1 by simp
      from brent_step_cases(2) [OF 1(2) this] show ?thesis
        by (auto simp: certified_def brent_bracketed_def brent_inv_def)
    next
      case (Next s')
      then show ?thesis using Suc(1) [of s'] 1 brent_step_cases(1) [OF 1(2)] by simp
    qed }
  { case 2
    show ?case
    proof (cases "brent_step f tol s")
      case (Stop x)
      then show ?thesis using 2 brent_step_cases(3) [OF 2(2)] by auto
    next
      case (Next s')
      then show ?thesis using Suc(2) [of s'] 2 brent_step_cases(1) [OF 2(2)] by simp
    qed }
qed

lemma brent_init_inv:
  "finite64 (f a) \<Longrightarrow> finite64 (f b) \<Longrightarrow> opposite (f a) (f b) \<Longrightarrow> brent_inv f (brent_init f a b)"
  by (auto simp: brent_inv_def brent_init_def opposite_def)

lemma FindRoot_certified:
  assumes "finite64 (f a)" "finite64 (f b)" "opposite (f a) (f b)"
  shows "FindRoot f a b tol maxIter = Inl ErrNaN \<or>
    (\<exists>r. FindRoot f a b tol maxIter = Inr r \<and>
       (certified f tol r \<or>
        brent_loop f tol maxIter (brent_init f a b) = Exhausted r \<and> (\<exists>c. opposite (f r) (f c))))"
proof -
  obtain x y where xy: "f a = Fin x" "f b = Fin y" using assms(1,2) by (auto simp: finite64_iff)
  have "x * y \<le> 0" using assms(3) by (auto simp: xy opposite_def zero_f64_def mult_le_0_iff)
  then have nb: "\<not> f a * f b > 0"
    using rnd_mono [of "x * y" 0] by (cases "rnd (x * y)") (auto simp: xy zero_f64_def)
  have "brent_inv f (brent_init f a b)" using assms by (rule brent_init_inv)
  note L = brent_loop_certified [OF this]
  consider "feq (f a) 0" | "\<not> feq (f a) 0" "feq (f b) 0" | "\<not> feq (f a) 0" "\<not> feq (f b) 0" by blast
  then show ?thesis
  proof cases
    case 3
    then show ?thesis
      using assms nb L [of tol maxIter] by (cases "brent_loop f tol maxIter (brent_init f a b)")
        (auto simp: FindRoot_def)
  qed (use assms nb in \<open>auto simp: FindRoot_def certified_def feq_def\<close>)
qed

text \<open>
  Property C31. On a bracket with a genuine sign change the finder never returns a
  silently wrong point: it always returns, and either the objective was NaN or infinite
  somewhere and the result is the error, or the returned point is an exact zero or has
  a partner of opposite sign within the tolerance and no smaller residual, or the
  iteration budget ran out and the point still faces a value of opposite sign.
\<close>

theorem find_root_certified:
  assumes "finite64 (f a)" "finite64 (f b)" "opposite (f a) (f b)"
  shows "FindRoot f a b tol maxIter = Inl ErrNaN \<or>
    (\<exists>r. FindRoot f a b tol maxIter = Inr r \<and>
       (certified f tol r \<or>
        brent_loop f tol maxIter (brent_init f a b) = Exhausted r \<and> (\<exists>c. opposite (f r) (f c))))"
  using assms by (rule FindRoot_certified)

definition step_objective :: "f64 \<Rightarrow> f64" where
  "step_objective x = (if x < Fin (1 / 2) then Fin (- 1) else Fin 1)"

theorem find_root_certified_witness:
  "FindRoot step_objective (Fin 0) (Fin 1) (Fin 1) 100 = Inl ErrNaN \<or>
    (\<exists>r. FindRoot step_objective (Fin 0) (Fin 1) (Fin 1) 100 = Inr r \<and>
       (certified step_objective (Fin 1) r \<or>
        brent_loop step_objective (Fin 1) 100 (brent_init step_objective (Fin 0) (Fin 1)) = Exhausted r \<and>
        (\<exists>c. opposite (step_objective r) (step_objective c))))"
  by (rule find_root_certified) (simp_all add: step_objective_def opposite_def zero_f64_def)

lemma rnd_product_pos: assumes "1 / 2 ^ 1000 \<le> z" shows "rnd z > 0"
proof -
  have "rnd (1 / 2 ^ 1000) = Fin (1 / 2 ^ 1000)" using rnd_dyadic [of 1 1000] by simp
  with rnd_mono [OF assms] have "Fin (1 / 2 ^ 1000) \<le> rnd z" by simp
  moreover have "(0 :: real) < 1 / 2 ^ 1000" by simp
  then have "0 < Fin (1 / 2 ^ 1000)" by (simp only: zero_f64_def less_f64_Fin)
  ultimately show ?thesis using less_f64_le_trans by blast
qed

text \<open>
  Fact. For end values whose product cannot underflow the bracket test is
  exact: the finder reports that there is no bracket precisely when both values have the
  same sign.
\<close>

theorem no_bracket_exact:
  assumes "f a = Fin x" "f b = Fin y" "1 / 2 ^ 500 \<le> \<bar>x\<bar>" "1 / 2 ^ 500 \<le> \<bar>y\<bar>"
  shows "FindRoot f a b tol n = Inl ErrNoBracket \<longleftrightarrow> (x > 0) = (y > 0)"
proof -
  have pow: "(0 :: real) < 1 / 2 ^ 500" by simp
  then have nz: "x \<noteq> 0" "y \<noteq> 0" using assms(3,4) by auto
  have "(1 / 2 ^ 500) * (1 / 2 ^ 500) \<le> \<bar>x\<bar> * \<bar>y\<bar>"
    using assms(3,4) pow by (intro mult_mono) simp_all
  then have big: "1 / 2 ^ 1000 \<le> \<bar>x * y\<bar>" by (simp add: abs_mult power_add [symmetric])
  have prod: "rnd (x * y) > 0 \<longleftrightarrow> x * y > 0"
  proof (cases "x * y > 0")
    case True
    then show ?thesis using big rnd_product_pos [of "x * y"] by simp
  next
    case False
    then have "rnd (x * y) \<le> Fin 0" using rnd_mono [of "x * y" 0] by simp
    with False show ?thesis by (simp add: less_f64_def zero_f64_def)
  qed
  have "FindRoot f a b tol n = Inl ErrNoBracket \<longleftrightarrow> rnd (x * y) > 0"
    using assms(1,2) nz by (auto simp: FindRoot_def Let_def zero_f64_def split: brent_out.splits)
  also have "\<dots> \<longleftrightarrow> (x > 0) = (y > 0)"
    unfolding prod using nz by (auto simp: zero_less_mult_iff)
  finally show ?thesis .
qed

theorem no_bracket_exact_witness:
  "FindRoot (\<lambda>_. Fin 1) (Fin 0) (Fin 1) (Fin 1) 100 = Inl ErrNoBracket"
  using no_bracket_exact [of "\<lambda>_. Fin 1" "Fin 0" 1 "Fin 1" 1 "Fin 1" 100] by simp

text \<open>
  Fact. The bracket test is a rounded product, so for tiny values it fails: two
  positive values whose product underflows are taken for a bracket, and the finder
  returns an end of the interval where the objective is not zero and has no sign change.
\<close>

theorem no_bracket_underflow:
  "FindRoot (\<lambda>_. Fin (1 / 2 ^ 600)) (Fin 0) (Fin 1) (Fin 1) 100 = Inr (Fin 1)"
proof -
  define k :: real where "k = 1 / 2 ^ 600"
  have k: "0 < k" by (simp add: k_def)
  have "k * k = 1 / 2 ^ 1200" by (simp add: k_def power_add [symmetric])
  also have "rnd \<dots> = Fin 0" by (rule rnd_tiny [OF refl]) simp
  finally have kk: "rnd (k * k) = Fin 0" .
  obtain z where z: "rnd (2 * (1 / 10 ^ 15)) = Fin z" "0 \<le> z"
    using rnd_unit [of "2 * (1 / 10 ^ 15)"] by auto
  have t: "Fin (1 / 2) \<le> brent_tol1 (Fin 1) (Fin 1)"
  proof -
    obtain w where w: "rnd (z * 1) = Fin w" "0 \<le> w"
      using rnd_nonneg [OF z(2)] is_f64_Fin_rnd [of z] z by (metis is_f64_rnd mult.right_neutral)
    have "brent_tol1 (Fin 1) (Fin 1) = rnd (w + 1 / 2)"
      using z w by (simp add: brent_tol1_def f64_simps)
    moreover have "rnd (1 / 2) \<le> rnd (w + 1 / 2)" using w(2) by (intro rnd_mono) simp
    ultimately show ?thesis by (simp add: f64_simps)
  qed
  let ?f = "\<lambda>_ :: f64. Fin k"
  have "brent_step ?f (Fin 1) (brent_init ?f (Fin 0) (Fin 1)) = Stop (Converged (Fin 1))"
    using t by (simp add: brent_step_def brent_init_def brent_rebracket_def brent_swap_def Let_def
        minus_f64_def f64_simps)
  then have "brent_loop ?f (Fin 1) 100 (brent_init ?f (Fin 0) (Fin 1)) = Converged (Fin 1)"
    by (simp add: numeral_eq_Suc)
  then have "FindRoot ?f (Fin 0) (Fin 1) (Fin 1) 100 = Inr (Fin 1)"
    using k kk by (simp add: FindRoot_def Let_def zero_f64_def)
  then show ?thesis by (simp only: k_def)
qed

section \<open>Staying in the bracket\<close>

text \<open>An interpolated step that is accepted is at most three quarters of the bracket.\<close>

lemma accepted_quotient:
  assumes "Fin 0 \<le> p" "0 < t" "lit 2 * p < z - \<bar>Fin t * q\<bar>" "z = Fin y * q"
  shows "\<exists>P Q. p = Fin P \<and> q = Fin Q \<and> 0 \<le> P \<and> 2 * P < y * Q"
proof -
  have f: "finite64 q"
  proof (rule ccontr)
    assume "\<not> finite64 q"
    then have "\<not> lit 2 * p < z - \<bar>Fin t * q\<bar>"
      using assms(1,2) unfolding assms(4) by (cases q; cases p) (auto simp: minus_f64_def sgn_inf_def f64_simps zero_f64_def)
    with assms(3) show False by simp
  qed
  then obtain Q where Q: "q = Fin Q" by (auto simp: finite64_iff)
  obtain P where P: "p = Fin P" "0 \<le> P"
    using assms(1,3) by (cases p) (auto simp: f64_simps sgn_inf_def less_f64_def)
  have "\<bar>Fin t * q\<bar> = PInf \<or> (\<exists>w \<ge> 0. \<bar>Fin t * q\<bar> = Fin w)" by (cases "Fin t * q") (simp_all add: Q)
  then have "z - \<bar>Fin t * q\<bar> \<le> z"
  proof
    assume "\<exists>w \<ge> 0. \<bar>Fin t * q\<bar> = Fin w"
    then obtain w where w: "0 \<le> w" "\<bar>Fin t * q\<bar> = Fin w" by blast
    show ?thesis
    proof (cases z)
      case (Fin v)
      then have "rnd v = Fin v" using rnd_Fin_iff by (simp add: assms(4) Q)
      moreover have "rnd (v - w) \<le> rnd v" using w(1) by (intro rnd_mono) simp
      ultimately show ?thesis by (simp add: w(2) Fin minus_f64_def)
    qed (use w(2) [unfolded Q] in \<open>simp_all add: minus_f64_def assms(4) Q\<close>)
  qed (use assms(3) in \<open>cases z; auto simp: minus_f64_def less_f64_def dest: le_f64_not_NaN\<close>)
  then have lt: "rnd (2 * P) < rnd (y * Q)" using assms(3) less_f64_le_trans by (fastforce simp: P Q assms(4) f64_simps)
  have "2 * P < y * Q"
  proof (rule ccontr)
    assume "\<not> 2 * P < y * Q"
    then have "rnd (y * Q) \<le> rnd (2 * P)" by (intro rnd_mono) simp
    with lt show False by (simp add: less_f64_def)
  qed
  with P Q show ?thesis by blast
qed

lemma rnd_real_scaled:
  assumes "1 / 2 ^ 13 \<le> \<bar>D\<bar>" "0 \<le> k" "k \<le> 13 / 16" shows "\<exists>u. rnd_real (k * D) = u * D \<and> 0 \<le> u \<and> u \<le> 1"
proof -
  have pos: "0 \<le> rnd_real (k * E) \<and> rnd_real (k * E) \<le> E" if "1 / 2 ^ 13 \<le> E" for E
  proof -
    have E: "0 < E" using that by (rule less_le_trans [rotated]) simp
    have "(1 :: real) / 2 ^ 60 \<le> 13 / 16 * (1 / 2 ^ 13)" by simp
    also have "\<dots> \<le> 13 / 16 * E" using that by (intro mult_left_mono) simp_all
    finally have "\<bar>rnd_real (13 / 16 * E) - 13 / 16 * E\<bar> \<le> \<bar>13 / 16 * E\<bar> / 64" using E by (intro rnd_real_relative) simp
    then have "rnd_real (13 / 16 * E) - 13 / 16 * E \<le> \<bar>13 / 16 * E\<bar> / 64" by (rule abs_le_D1)
    moreover have "\<bar>13 / 16 * E\<bar> = 13 / 16 * E" using E by (intro abs_of_nonneg) simp
    ultimately have "rnd_real (13 / 16 * E) \<le> E" using E by linarith
    moreover have "rnd_real (k * E) \<le> rnd_real (13 / 16 * E)" using assms(3) E by (intro rnd_real_mono mult_right_mono) simp_all
    moreover have "0 \<le> rnd_real (k * E)" using assms(2) E by (intro rnd_real_nonneg) simp
    ultimately show ?thesis by simp
  qed
  have D: "D \<noteq> 0" using assms(1) by auto
  have "rnd_real (k * D) = rnd_real (k * D) / D * D" using D by simp
  moreover have "0 \<le> rnd_real (k * D) / D \<and> rnd_real (k * D) / D \<le> 1"
  proof (cases "0 < D")
    case True
    then show ?thesis using pos [of D] assms(1) by simp
  next
    case False
    then have "rnd_real (k * D) = - rnd_real (k * (- D))" using rnd_real_minus [of "k * D"] by simp
    then show ?thesis using pos [of "- D"] assms(1) False D by (simp add: divide_simps)
  qed
  ultimately show ?thesis by blast
qed

text \<open>The middle of the bracket, when it is further than the tolerance.\<close>

lemma brent_middle:
  assumes "\<bar>D\<bar> \<le> 2 ^ 51" "rnd D = Fin R" "rnd (R / 2) = Fin X" "1 / 2 ^ 12 < \<bar>X\<bar>"
  shows "1 / 2 ^ 13 \<le> \<bar>D\<bar>" "\<exists>u. X = u * D \<and> 15 / 32 \<le> u \<and> u \<le> 17 / 32"
proof -
  have rx: "R = rnd_real D" "X = rnd_real (R / 2)" using assms(2,3) by (simp_all add: rnd_Fin)
  have small: "\<bar>rnd_real y\<bar> \<le> 1 / 2 ^ n" if "\<bar>y\<bar> \<le> 1 / 2 ^ n" "n \<le> 1074" for y n
  proof -
    have e: "rnd_real (1 / 2 ^ n) = 1 / 2 ^ n" using rnd_real_dyadic [of 1 n] that(2) by simp
    have "rnd_real y \<le> 1 / 2 ^ n" "rnd_real (- y) \<le> 1 / 2 ^ n"
      using rnd_real_mono [of y "1 / 2 ^ n"] rnd_real_mono [of "- y" "1 / 2 ^ n"] that(1) e by (simp_all add: abs_le_iff)
    then show ?thesis by (simp add: rnd_real_minus abs_le_iff)
  qed
  show D: "1 / 2 ^ 13 \<le> \<bar>D\<bar>"
  proof (rule ccontr)
    assume "\<not> 1 / 2 ^ 13 \<le> \<bar>D\<bar>"
    then have "\<bar>R\<bar> \<le> 1 / 2 ^ 13" unfolding rx(1) by (intro small) simp_all
    then have "\<bar>X\<bar> \<le> 1 / 2 ^ 14" unfolding rx(2) by (intro small) simp_all
    with assms(4) show False by simp
  qed
  have "(1 :: real) / 2 ^ 60 \<le> 1 / 2 ^ 13" by simp
  then have r: "\<bar>R - D\<bar> \<le> \<bar>D\<bar> / 64" unfolding rx(1) using D by (intro rnd_real_relative) linarith
  then have R: "1 / 2 ^ 14 \<le> \<bar>R\<bar>" using D by (simp add: abs_real_def split: if_splits)
  have "(1 :: real) / 2 ^ 60 \<le> 1 / 2 ^ 15" by simp
  then have x: "\<bar>X - R / 2\<bar> \<le> \<bar>R / 2\<bar> / 64" unfolding rx(2) using R by (intro rnd_real_relative) simp
  have nz: "D \<noteq> 0" using D by auto
  show "\<exists>u. X = u * D \<and> 15 / 32 \<le> u \<and> u \<le> 17 / 32"
  proof (intro exI [of _ "X / D"] conjI)
    show "X = X / D * D" using nz by simp
    show "15 / 32 \<le> X / D" "X / D \<le> 17 / 32" using nz r x by (cases "0 < D"; simp add: divide_simps abs_le_iff; linarith)+
  qed
qed

lemma rnd_toward:
  assumes "rnd b = Fin b" "rnd c = Fin c" "0 \<le> u" "u \<le> 1"
  shows "\<exists>r. rnd (b + u * (c - b)) = Fin r \<and> min b c \<le> r \<and> r \<le> max b c \<and> rnd r = Fin r"
proof -
  have "min b c \<le> b + u * (c - b)" "b + u * (c - b) \<le> max b c"
  proof -
    have "b + u * (c - b) = (1 - u) * b + u * c" by (simp add: algebra_simps)
    moreover have "min b c \<le> (1 - u) * b + u * c" "(1 - u) * b + u * c \<le> max b c"
      using assms(3,4) convex_bound_le [of b "max b c" c "1 - u" u] convex_bound_le [of "- b" "- min b c" "- c" "1 - u" u]
      by (simp_all add: algebra_simps min_def max_def split: if_splits)
    ultimately show "min b c \<le> b + u * (c - b)" "b + u * (c - b) \<le> max b c" by simp_all
  qed
  moreover have "rnd (min b c) = Fin (min b c)" "rnd (max b c) = Fin (max b c)" using assms by (simp_all add: min_def max_def)
  ultimately obtain r where "rnd (b + u * (c - b)) = Fin r" "min b c \<le> r" "r \<le> max b c" using rnd_between by blast
  then show ?thesis using rnd_Fin_iff by blast
qed

lemma brent_stays:
  assumes s: "brB s = Fin b" "brC s = Fin c" "rnd b = Fin b" "rnd c = Fin c" "\<bar>b\<bar> \<le> 2 ^ 50" "\<bar>c\<bar> \<le> 2 ^ 50"
    and t: "tol1 = Fin t" "1 / 2 ^ 12 \<le> t" and xm: "xm = lit (1 / 2) * (brC s - brB s)" "\<not> \<bar>xm\<bar> \<le> tol1"
    and de: "brent_de s xm tol1 = (d, e)"
  shows "\<exists>r. brent_move (brB s) d xm tol1 = Fin r \<and> min b c \<le> r \<and> r \<le> max b c \<and> rnd r = Fin r"
proof -
  define D where "D = c - b"
  have D51: "\<bar>D\<bar> \<le> 2 ^ 51" using s(5,6) by (simp add: D_def)
  have p51: "rnd (- (2 ^ 51)) = Fin (- (2 ^ 51))" "rnd (2 ^ 51) = Fin (2 ^ 51)"
    using rnd_of_int [of "- (2 ^ 51)"] rnd_of_int [of "2 ^ 51"] by simp_all
  obtain R where R: "rnd D = Fin R" "- (2 ^ 51) \<le> R" "R \<le> 2 ^ 51" using rnd_between [OF p51, of D] D51 by (auto simp: abs_le_iff)
  obtain X where X: "rnd (R / 2) = Fin X" using rnd_between [OF p51, of "R / 2"] R by auto
  have x: "xm = Fin X" using R(1) X by (simp add: xm(1) s(1,2) minus_f64_def D_def f64_simps)
  have big: "t < \<bar>X\<bar>" using xm(2) by (simp add: x t(1))
  then have "1 / 2 ^ 12 < \<bar>X\<bar>" using t(2) by simp
  note mid = brent_middle [OF D51 R(1) X this]
  obtain u where u: "X = u * D" "15 / 32 \<le> u" "u \<le> 17 / 32" using mid(2) by blast
  have nz: "D \<noteq> 0" using mid(1) by auto
  have to: "\<exists>r. rnd (b + v) = Fin r \<and> min b c \<le> r \<and> r \<le> max b c \<and> rnd r = Fin r" if "v = k * D" "0 \<le> k" "k \<le> 1" for v k
    using rnd_toward [OF s(3,4) that(2,3)] that(1) by (simp add: D_def)
  have d: "\<exists>k. d = Fin (k * D) \<and> 0 \<le> k \<and> k \<le> 1"
  proof -
    obtain p q where pq: "brent_pq s xm = (p, q)" by fastforce
    consider "d = xm" | "d = p / q" "lit 2 * p < math_Min (lit 3 * xm * q - \<bar>tol1 * q\<bar>) \<bar>brE s * q\<bar>"
      using de by (auto simp: brent_de_def pq Let_def split: if_splits)
    then show ?thesis
    proof cases
      case 1
      then show ?thesis using u by (auto simp: x)
    next
      case 2
      have y51: "\<bar>3 * X\<bar> \<le> 2 ^ 53"
      proof -
        have "\<bar>X\<bar> \<le> 17 / 32 * \<bar>D\<bar>" unfolding u(1) abs_mult using u by (intro mult_right_mono) simp_all
        then show ?thesis using D51 by (simp add: abs_mult)
      qed
      have "rnd (- (2 ^ 53)) = Fin (- (2 ^ 53))" "rnd (2 ^ 53) = Fin (2 ^ 53)"
        using rnd_of_int [of "- (2 ^ 53)"] rnd_of_int [of "2 ^ 53"] by simp_all
      from rnd_between [OF this, of "3 * X"] y51 obtain y where y: "rnd (3 * X) = Fin y" by (auto simp: abs_le_iff)
      obtain p0 where "p = \<bar>p0\<bar>" using pq by (auto simp: brent_pq_def Let_def split: prod.splits)
      moreover have "p \<noteq> NaN" using 2(2) by (auto simp: f64_simps)
      ultimately have "0 \<le> p" by (cases p0) (auto simp: zero_f64_def)
      then have "Fin 0 \<le> p" by (simp add: zero_f64_def)
      moreover have "lit 2 * p < lit 3 * xm * q - \<bar>Fin t * q\<bar>" using math_Min_le [OF 2(2)] by (simp only: t(1))
      moreover have "lit 3 * xm * q = Fin y * q" using y by (simp add: x f64_simps)
      moreover have "0 < t" using t(2) by (rule less_le_trans [rotated]) simp
      ultimately obtain P Q where PQ: "p = Fin P" "q = Fin Q" "0 \<le> P" "2 * P < y * Q" using accepted_quotient by blast
      have yr: "y = rnd_real (3 * X)" using y by (rule rnd_Fin)
      have "(1 :: real) / 2 ^ 60 \<le> 1 / 2 ^ 12" by simp
      then have ye: "\<bar>y - 3 * X\<bar> \<le> \<bar>3 * X\<bar> / 64" unfolding yr using big t(2) by (intro rnd_real_relative) (simp add: abs_mult)
      have yQ: "0 < y * Q" using PQ(3,4) by simp
      then have Q: "Q \<noteq> 0" "y \<noteq> 0" by auto
      define k where "k = P / Q / D"
      have e: "y / D - 3 * u = (y - 3 * X) / D" "\<bar>3 * X\<bar> / 64 = 3 * u / 64 * \<bar>D\<bar>"
        using nz u by (simp_all add: u(1) field_simps abs_mult)
      then have "\<bar>y / D - 3 * u\<bar> \<le> 3 * u / 64" using ye nz by (simp add: abs_divide pos_divide_le_eq)
      then have "0 \<le> y / D \<and> y / D \<le> 26 / 16" using u unfolding abs_le_iff by linarith
      moreover have "0 \<le> P / (y * Q)" "P / (y * Q) \<le> 1 / 2" using PQ(3,4) yQ by (simp_all add: divide_simps)
      moreover have kk: "k = P / (y * Q) * (y / D)" using Q by (simp add: k_def)
      ultimately have "0 \<le> k" "k \<le> 1 / 2 * (26 / 16)" unfolding kk by (simp_all add: mult_mono del: times_divide_eq_right times_divide_eq_left)
      then obtain v where v: "rnd_real (k * D) = v * D" "0 \<le> v" "v \<le> 1" using rnd_real_scaled [OF mid(1), of k] by auto
      have kd: "P / Q = k * D" using nz by (simp add: k_def)
      have "\<bar>v * D\<bar> \<le> 2 ^ 51" using v D51 by (simp add: abs_mult mult_le_one order_trans [OF mult_left_le_one_le])
      then have "\<bar>v * D\<bar> \<le> max_finite" using max_finite_ge by simp
      then have "rnd (P / Q) = Fin (v * D)" unfolding kd rnd_def Let_def v(1) by (auto simp: abs_le_iff)
      then show ?thesis using v Q by (auto simp: 2(1) PQ)
    qed
  qed
  then obtain k where k: "d = Fin (k * D)" "0 \<le> k" "k \<le> 1" by blast
  show ?thesis
  proof (cases "\<bar>d\<bar> > tol1")
    case True
    then show ?thesis using to [OF refl k(2,3)] by (simp add: brent_move_def s(1) k(1))
  next
    case False
    have "(if X < 0 then - t else t) = t / \<bar>D\<bar> * D"
      using nz u by (cases "0 < D") (auto simp: u(1) zero_less_mult_iff mult_less_0_iff)
    moreover have "0 \<le> t / \<bar>D\<bar>" using t(2) order_trans [of 0 "1 / 2 ^ 12" t] by simp
    moreover have "t / \<bar>D\<bar> \<le> 1"
    proof -
      have "\<bar>X\<bar> \<le> 1 * \<bar>D\<bar>" unfolding u(1) abs_mult using u by (intro mult_right_mono) simp_all
      then show ?thesis using big nz by (simp add: divide_simps)
    qed
    ultimately have "\<exists>r. rnd (b + (if X < 0 then - t else t)) = Fin r \<and> min b c \<le> r \<and> r \<le> max b c \<and> rnd r = Fin r" by (rule to)
    moreover have "brent_move (brB s) d xm tol1 = rnd (b + (if X < 0 then - t else t))"
      using False by (simp add: brent_move_def s(1) x t(1) zero_f64_def minus_f64_def)
    ultimately show ?thesis by simp
  qed
qed


text \<open>All three points of the loop are machine numbers between two bounds.\<close>

definition in_box :: "real \<Rightarrow> real \<Rightarrow> f64 \<Rightarrow> bool" where
  "in_box l h v \<longleftrightarrow> (\<exists>x. v = Fin x \<and> rnd x = Fin x \<and> l \<le> x \<and> x \<le> h)"

definition boxed :: "real \<Rightarrow> real \<Rightarrow> brent \<Rightarrow> bool" where
  "boxed l h s \<longleftrightarrow> in_box l h (brA s) \<and> in_box l h (brB s) \<and> in_box l h (brC s)"

lemma boxed_rename: "boxed l h s \<Longrightarrow> boxed l h (brent_swap (brent_rebracket s))"
  by (simp add: boxed_def brent_swap_def brent_rebracket_def)

lemma tol1_wide:
  assumes "in_box (- (2 ^ 50)) (2 ^ 50) b" "1 / 2 ^ 11 \<le> t" "t \<le> 1"
  shows "\<exists>u. brent_tol1 (Fin t) b = Fin u \<and> 1 / 2 ^ 12 \<le> u"
proof -
  obtain x where x: "b = Fin x" "\<bar>x\<bar> \<le> 2 ^ 50" using assms(1) by (auto simp: in_box_def abs_le_iff)
  obtain z where z: "rnd (2 * (1 / 10 ^ 15)) = Fin z" "0 \<le> z" "z \<le> 1" using rnd_unit [of "2 * (1 / 10 ^ 15)"] by auto
  have p: "rnd 0 = Fin 0" "rnd (2 ^ 50) = Fin (2 ^ 50)" "rnd (2 ^ 51) = Fin (2 ^ 51)"
    using rnd_of_int [of "2 ^ 50"] rnd_of_int [of "2 ^ 51"] by simp_all
  have "0 \<le> z * \<bar>x\<bar>" "z * \<bar>x\<bar> \<le> 2 ^ 50"
    using z x(2) mult_mono [of z 1 "\<bar>x\<bar>" "2 ^ 50"] by simp_all
  then obtain w where w: "rnd (z * \<bar>x\<bar>) = Fin w" "0 \<le> w" "w \<le> 2 ^ 50" using rnd_between [OF p(1,2)] by blast
  have q: "rnd (1 / 2 ^ 12) = Fin (1 / 2 ^ 12)" using rnd_dyadic [of 1 12] by simp
  obtain v where v: "rnd (t / 2) = Fin v" "1 / 2 ^ 12 \<le> v" "v \<le> 1"
    using rnd_between [OF q rnd_1, of "t / 2"] assms(2,3) by auto
  obtain u where u: "rnd (w + v) = Fin u" "1 / 2 ^ 12 \<le> u"
    using rnd_between [OF q p(3), of "w + v"] w v by auto
  have "brent_tol1 (Fin t) b = rnd (w + v)" using z w(1) v(1) by (simp add: brent_tol1_def x(1) f64_simps)
  then show ?thesis using u by (intro exI [of _ u]) simp
qed

lemma brent_step_boxed:
  assumes "boxed l h s0" "- (2 ^ 50) \<le> l" "h \<le> 2 ^ 50" "1 / 2 ^ 11 \<le> t" "t \<le> 1"
  shows "brent_step f (Fin t) s0 = Next s' \<Longrightarrow> boxed l h s'"
    and "brent_step f (Fin t) s0 = Stop (Converged r) \<Longrightarrow> in_box l h r"
proof -
  define s where "s = brent_swap (brent_rebracket s0)"
  have bx: "boxed l h s" unfolding s_def using assms(1) by (rule boxed_rename)
  show "in_box l h r" if "brent_step f (Fin t) s0 = Stop (Converged r)"
    using that bx unfolding brent_step_def s_def [symmetric] by (auto simp: boxed_def Let_def split: if_splits prod.splits)
  show "boxed l h s'" if "brent_step f (Fin t) s0 = Next s'"
  proof -
    obtain b c where bc: "brB s = Fin b" "rnd b = Fin b" "l \<le> b" "b \<le> h" "brC s = Fin c" "rnd c = Fin c" "l \<le> c" "c \<le> h"
      using bx by (auto simp: boxed_def in_box_def)
    have "in_box (- (2 ^ 50)) (2 ^ 50) (brB s)" using bc assms(2,3) by (auto simp: in_box_def)
    then obtain u where u: "brent_tol1 (Fin t) (brB s) = Fin u" "1 / 2 ^ 12 \<le> u" using tol1_wide [OF _ assms(4,5)] by blast
    define xm where "xm = lit (1 / 2) * (brC s - brB s)"
    obtain d e where de: "brent_de s xm (Fin u) = (d, e)" by fastforce
    have n: "\<not> \<bar>xm\<bar> \<le> Fin u" and s': "s' = s\<lparr>brA := brB s, brFa := brFb s, brB := brent_move (brB s) d xm (Fin u),
        brFb := f (brent_move (brB s) d xm (Fin u)), brD := d, brE := e\<rparr>"
      using that unfolding brent_step_def s_def [symmetric] Let_def u(1) xm_def [symmetric] de prod.case
      by (simp_all split: if_splits)
    have "\<bar>b\<bar> \<le> 2 ^ 50" "\<bar>c\<bar> \<le> 2 ^ 50" using bc assms(2,3) by (simp_all add: abs_le_iff)
    then obtain x where x: "brent_move (brB s) d xm (Fin u) = Fin x" "min b c \<le> x" "x \<le> max b c" "rnd x = Fin x"
      using brent_stays [OF bc(1,5,2,6) _ _ refl u(2) xm_def n de] by blast
    then have "in_box l h (brent_move (brB s) d xm (Fin u))" using bc by (auto simp: in_box_def min_def max_def split: if_splits)
    then show ?thesis using bx by (simp add: s' boxed_def)
  qed
qed

lemma brent_loop_boxed:
  assumes "boxed l h s" "- (2 ^ 50) \<le> l" "h \<le> 2 ^ 50" "1 / 2 ^ 11 \<le> t" "t \<le> 1"
    and "brent_loop f (Fin t) n s = Converged r \<or> brent_loop f (Fin t) n s = Exhausted r"
  shows "in_box l h r"
  using assms(1,6)
proof (induction n arbitrary: s)
  case (Suc n)
  note st = brent_step_boxed [OF Suc.prems(1) assms(2-5), of f]
  show ?case
  proof (cases "brent_step f (Fin t) s")
    case (Stop x)
    have "brent_step f (Fin t) s \<noteq> Stop (Exhausted r)" by (simp add: brent_step_def Let_def split: prod.splits)
    then show ?thesis using Stop Suc.prems(2) st(2) by auto
  next
    case (Next s')
    then show ?thesis using Suc.IH [OF st(1) [OF Next]] Suc.prems(2) by simp
  qed
qed (auto simp: boxed_def)

text \<open>The finder stays in its bracket, for bounds up to \<open>2 ^ 50\<close> and a tolerance that is not tiny.\<close>

lemma FindRoot_within:
  assumes "FindRoot f a b (Fin t) n = Inr r" "in_box l h a" "in_box l h b"
    and "- (2 ^ 50) \<le> l" "h \<le> 2 ^ 50" "1 / 2 ^ 11 \<le> t" "t \<le> 1"
  shows "in_box l h r"
proof -
  have "boxed l h (brent_init f a b)" using assms(2,3) by (simp add: boxed_def brent_init_def)
  from brent_loop_boxed [OF this assms(4-7), of f n r] show ?thesis
    using assms(1-3) by (auto simp: FindRoot_def Let_def split: if_splits brent_out.splits)
qed

text \<open>The tolerance in use.\<close>

lemma DefaultTol_wide: "\<exists>t. lit DefaultTol = Fin t \<and> 1 / 2 ^ 11 \<le> t \<and> t \<le> 1"
  using rnd_between [of "1 / 2 ^ 11" 1 DefaultTol] rnd_dyadic [of 1 11] by (auto simp: DefaultTol_def)

end
