(* ===== verification/Solver.thy ===== *)
theory Solver
  imports Float64
begin

text \<open>
  Package \<^verbatim>\<open>solver\<close>: the Bjerksund-Stensland pricer (\<^verbatim>\<open>bs2002.go\<close>) and the
  finite-difference Greeks (\<^verbatim>\<open>greeks.go\<close>), operation by operation in rounded arithmetic.
\<close>

datatype solver_error =
  BadSpotStrike | BadTime | BadVol | BadRight string | BadYears | BadSigma

section \<open>The pricer\<close>

definition sqrt2 :: real where "sqrt2 = 14142135623730951 / 10 ^ 16"
definition volFloor :: real where "volFloor = 1 / 10 ^ 12"

definition normCdf :: "f64 \<Rightarrow> f64" where
  "normCdf x = lit (1 / 2) * (1 + math_Erf (x / lit sqrt2))"

text \<open>The closure \<^verbatim>\<open>phi\<close> of the closed form, with its captured variables first.\<close>

definition bs_phi :: "f64 \<Rightarrow> f64 \<Rightarrow> f64 \<Rightarrow> f64 \<Rightarrow> f64 \<Rightarrow> f64 \<Rightarrow> f64 \<Rightarrow> f64 \<Rightarrow> f64 \<Rightarrow> f64" where
  "bs_phi r b v2 sigma sIn tIn gammaExp hBoundary iBoundary =
     (let lambdaVal = (- r + gammaExp * b + lit (1 / 2) * gammaExp * (gammaExp - 1) * v2) * tIn;
          d = - (math_Log (sIn / hBoundary) + (b + (gammaExp - lit (1 / 2)) * v2) * tIn)
                / (sigma * math_Sqrt tIn);
          kappa = (lit 2 * b) / v2 + (lit 2 * gammaExp - 1)
      in math_Exp lambdaVal * math_Pow sIn gammaExp *
           (normCdf d - math_Pow (iBoundary / sIn) kappa *
              normCdf (d - (lit 2 * math_Log (iBoundary / sIn)) / (sigma * math_Sqrt tIn))))"

definition bs_european :: "f64 \<Rightarrow> f64 \<Rightarrow> f64 \<Rightarrow> f64 \<Rightarrow> f64 \<Rightarrow> f64 \<Rightarrow> f64" where
  "bs_european S K T r q sigma =
     (let b = r - q; v2 = sigma * sigma; sqrtT = math_Sqrt T;
          d1 = (math_Log (S / K) + (b + lit (1 / 2) * v2) * T) / (sigma * sqrtT);
          d2 = d1 - sigma * sqrtT
      in S * math_Exp (- q * T) * normCdf d1 - K * math_Exp (- r * T) * normCdf d2)"

text \<open>The early-exercise trigger and the closed form below it.\<close>

definition bs_beta :: "f64 \<Rightarrow> f64 \<Rightarrow> f64 \<Rightarrow> f64" where
  "bs_beta r b v2 =
     (lit (1 / 2) - b / v2) +
       math_Sqrt ((b / v2 - lit (1 / 2)) * (b / v2 - lit (1 / 2)) + lit 2 * r / v2)"

definition bs_trigger :: "f64 \<Rightarrow> f64 \<Rightarrow> f64 \<Rightarrow> f64 \<Rightarrow> f64 \<Rightarrow> f64" where
  "bs_trigger K T r b sigma =
     (let v2 = sigma * sigma; sqrtT = math_Sqrt T;
          beta = bs_beta r b v2;
          bInf = (beta / (beta - 1)) * K;
          b0 = math_Max K ((r / (r - b)) * K);
          hExp = - (b * T + lit 2 * sigma * sqrtT) * (b0 / (bInf - b0))
      in b0 + (bInf - b0) * (1 - math_Exp hExp))"

definition bs_american :: "f64 \<Rightarrow> f64 \<Rightarrow> f64 \<Rightarrow> f64 \<Rightarrow> f64 \<Rightarrow> f64 \<Rightarrow> f64 \<Rightarrow> f64" where
  "bs_american S K T r b sigma triggerI =
     (let v2 = sigma * sigma; beta = bs_beta r b v2;
          alpha = (triggerI - K) * math_Pow triggerI (- beta);
          phi = bs_phi r b v2 sigma
      in alpha * math_Pow S beta - alpha * phi S T beta triggerI triggerI +
         phi S T 1 triggerI triggerI - phi S T 1 K triggerI -
         K * phi S T 0 triggerI triggerI + K * phi S T 0 K triggerI)"

definition BjerksundStenslandCall ::
    "f64 \<Rightarrow> f64 \<Rightarrow> f64 \<Rightarrow> f64 \<Rightarrow> f64 \<Rightarrow> f64 \<Rightarrow> solver_error + f64" where
  "BjerksundStenslandCall S K T r q sigma =
     (if S \<le> 0 \<or> K \<le> 0 then Inl BadSpotStrike
      else if T < 0 then Inl BadTime
      else if sigma < 0 then Inl BadVol
      else if feq T 0 then Inr (math_Max 0 (S - K))
      else if sigma < lit volFloor
        then Inr (math_Max 0 (S * math_Exp (- q * T) - K * math_Exp (- r * T)))
      else let b = r - q
           in if b \<ge> r then Inr (bs_european S K T r q sigma)
              else let triggerI = bs_trigger K T r b sigma
                   in if S \<ge> triggerI then Inr (S - K)
                      else Inr (bs_american S K T r b sigma triggerI))"

definition BjerksundStenslandPut ::
    "f64 \<Rightarrow> f64 \<Rightarrow> f64 \<Rightarrow> f64 \<Rightarrow> f64 \<Rightarrow> f64 \<Rightarrow> solver_error + f64" where
  "BjerksundStenslandPut S K T r q sigma = BjerksundStenslandCall K S T q r sigma"

section \<open>The Greeks\<close>

definition hSFloor :: real where "hSFloor = 1 / 10000"
definition hSRel :: real where "hSRel = 1 / 10000"
definition HTStep :: real where "HTStep = 1 / 365"
definition HVolStep :: real where "HVolStep = 1 / 10000"
definition charmTimeFloor :: real where "charmTimeFloor = 1 / 100000"

definition HStep :: "f64 \<Rightarrow> f64" where
  "HStep spot = math_Max (lit hSFloor) (spot * lit hSRel)"

record greeks =
  gPrice :: f64
  gDelta :: f64
  gGamma :: f64
  gVanna :: f64
  gCharm :: f64

text \<open>The closure \<^verbatim>\<open>priceAt\<close>; its callers fail with the first error of the calls, in order.\<close>

definition priceAt ::
    "string \<Rightarrow> f64 \<Rightarrow> f64 \<Rightarrow> f64 \<Rightarrow> f64 \<Rightarrow> f64 \<Rightarrow> f64 \<Rightarrow> solver_error + f64" where
  "priceAt right strike r q s t vol =
     (if right = ''C'' then BjerksundStenslandCall s strike t r q vol
      else BjerksundStenslandPut s strike t r q vol)"

text \<open>A delta at one volatility and time: two prices and their central difference.\<close>

definition delta_fd ::
    "string \<Rightarrow> f64 \<Rightarrow> f64 \<Rightarrow> f64 \<Rightarrow> f64 \<Rightarrow> f64 \<Rightarrow> f64 \<Rightarrow> f64 \<Rightarrow> solver_error + f64" where
  "delta_fd right strike r q spot hs t vol =
     bind_res (priceAt right strike r q (spot + hs) t vol) (\<lambda>u.
     bind_res (priceAt right strike r q (spot - hs) t vol) (\<lambda>d.
     Inr ((u - d) / (lit 2 * hs))))"

definition ComputeGreeks ::
    "f64 \<Rightarrow> f64 \<Rightarrow> f64 \<Rightarrow> f64 \<Rightarrow> f64 \<Rightarrow> f64 \<Rightarrow> string \<Rightarrow> solver_error + greeks" where
  "ComputeGreeks spot strike expiryYears r q sigma right0 =
     (let right = ToUpper (TrimSpace right0)
      in if right \<noteq> ''C'' \<and> right \<noteq> ''P'' then Inl (BadRight right)
         else if spot \<le> 0 \<or> strike \<le> 0 then Inl BadSpotStrike
         else if expiryYears \<le> 0 then Inl BadYears
         else if sigma \<le> lit HVolStep then Inl BadSigma
         else let price = priceAt right strike r q;
                  hs = HStep spot;
                  deltaAt = delta_fd right strike r q spot hs
              in bind_res (price spot expiryYears sigma) (\<lambda>base.
                 bind_res (price (spot + hs) expiryYears sigma) (\<lambda>up.
                 bind_res (price (spot - hs) expiryYears sigma) (\<lambda>dn.
                 let delta = (up - dn) / (lit 2 * hs);
                     gamma = (up - lit 2 * base + dn) / (hs * hs)
                 in bind_res (deltaAt expiryYears (sigma + lit HVolStep)) (\<lambda>dvUp.
                    bind_res (deltaAt expiryYears (sigma - lit HVolStep)) (\<lambda>dvDn.
                    let vanna = (dvUp - dvDn) / lit (2 * HVolStep);
                        tDecay = math_Max (lit charmTimeFloor) (expiryYears - lit HTStep)
                    in bind_res (deltaAt tDecay sigma) (\<lambda>deltaT.
                       let charm = - (delta - deltaT) / lit HTStep
                       in Inr \<lparr>gPrice = math_Max 0 base, gDelta = delta, gGamma = gamma,
                               gVanna = vanna, gCharm = charm\<rparr>)))))))"

section \<open>When pricing fails\<close>

definition price_args_ok :: "f64 \<Rightarrow> f64 \<Rightarrow> f64 \<Rightarrow> f64 \<Rightarrow> bool" where
  "price_args_ok S K T sigma \<longleftrightarrow> \<not> S \<le> 0 \<and> \<not> K \<le> 0 \<and> \<not> T < 0 \<and> \<not> sigma < 0"

lemma BjerksundStenslandCall_ok:
  "(\<exists>p. BjerksundStenslandCall S K T r q sigma = Inr p) \<longleftrightarrow> price_args_ok S K T sigma"
  by (simp add: BjerksundStenslandCall_def price_args_ok_def Let_def)

lemma priceAt_ok:
  "(\<exists>p. priceAt right strike r q s t vol = Inr p) \<longleftrightarrow> price_args_ok s strike t vol"
proof (cases "right = ''C''")
  case True
  then show ?thesis by (simp add: priceAt_def BjerksundStenslandCall_ok)
next
  case False
  then have "(\<exists>p. priceAt right strike r q s t vol = Inr p) \<longleftrightarrow> price_args_ok strike s t vol"
    by (simp add: priceAt_def BjerksundStenslandPut_def BjerksundStenslandCall_ok)
  then show ?thesis by (auto simp: price_args_ok_def)
qed

lemma bind_res_ok: "(\<exists>y. bind_res m f = Inr y) \<longleftrightarrow> (\<exists>x. m = Inr x \<and> (\<exists>y. f x = Inr y))"
  by (cases m) simp_all

lemma delta_fd_ok:
  "(\<exists>d. delta_fd right strike r q spot hs t vol = Inr d) \<longleftrightarrow>
     price_args_ok (spot + hs) strike t vol \<and> price_args_ok (spot - hs) strike t vol"
  by (simp add: delta_fd_def bind_res_ok priceAt_ok)

lemma lit_pos: assumes "1 / 2 ^ 1000 \<le> x" "x \<le> 1" shows "\<exists>r. lit x = Fin r \<and> 0 < r"
proof -
  have p: "(0 :: real) < 1 / 2 ^ 1000" by simp
  have "rnd (1 / 2 ^ 1000) = Fin (1 / 2 ^ 1000)" using rnd_dyadic [of 1 1000] by simp
  then obtain r where "rnd x = Fin r" "1 / 2 ^ 1000 \<le> r"
    using rnd_between [OF _ rnd_1 assms] by blast
  then show ?thesis using p less_le_trans by blast
qed

lemma math_Max_ge: "lit x = Fin r \<Longrightarrow> math_Max (lit x) a = NaN \<or> Fin r \<le> math_Max (lit x) a"
  by (cases a) (auto simp: math_Max_def)

lemma spot_up_pos:
  assumes "\<not> spot \<le> 0" shows "\<not> spot + HStep spot \<le> 0"
proof -
  obtain r where r: "lit hSFloor = Fin r" "0 < r" using lit_pos [of hSFloor] by (auto simp: hSFloor_def)
  have fr: "rnd r = Fin r" using is_f64_Fin_rnd [of r] is_f64_rnd [of hSFloor] r by simp
  have h: "HStep spot = NaN \<or> Fin r \<le> HStep spot"
    unfolding HStep_def using math_Max_ge [OF r(1)] by simp
  show ?thesis
  proof (cases spot; cases "HStep spot")
    fix x y assume a: "spot = Fin x" "HStep spot = Fin y"
    then have "r \<le> x + y" using assms h by (simp add: zero_f64_def)
    then have "Fin r \<le> rnd (x + y)" using rnd_mono [of r "x + y"] fr by simp
    then have "\<not> rnd (x + y) \<le> Fin 0" using r(2) by (cases "rnd (x + y)") auto
    moreover have "spot + HStep spot = Fin x + Fin y" by (rule arg_cong2 [OF a])
    ultimately show ?thesis by (simp add: zero_f64_def)
  qed (use assms h in \<open>simp_all add: zero_f64_def\<close>)
qed

lemma vol_steps:
  assumes "\<not> sigma \<le> lit HVolStep"
  shows "\<not> sigma < 0" "\<not> sigma + lit HVolStep < 0" "\<not> sigma - lit HVolStep < 0"
proof -
  obtain h where h: "lit HVolStep = Fin h" "0 < h" using lit_pos [of HVolStep] by (auto simp: HVolStep_def)
  have n: "\<not> rnd z < Fin 0" if "0 \<le> z" for z using rnd_nonneg [OF that] by (simp add: less_f64_def)
  have "\<not> sigma < 0 \<and> \<not> sigma + lit HVolStep < 0 \<and> \<not> sigma - lit HVolStep < 0"
  proof (cases sigma)
    case (Fin x)
    then have "h < x" using assms by (simp add: h)
    then have "0 < x" using h(2) by linarith
    with \<open>h < x\<close> h(2) show ?thesis
      using n [of "x + h"] n [of "x - h"] by (simp add: Fin h(1) minus_f64_def zero_f64_def)
  qed (use assms in \<open>simp_all add: h minus_f64_def zero_f64_def\<close>)
  then show "\<not> sigma < 0" "\<not> sigma + lit HVolStep < 0" "\<not> sigma - lit HVolStep < 0" by simp_all
qed

lemma decay_time: "\<not> math_Max (lit charmTimeFloor) t < 0"
proof -
  obtain h where h: "lit charmTimeFloor = Fin h" "0 < h"
    using lit_pos [of charmTimeFloor] by (auto simp: charmTimeFloor_def)
  then show ?thesis using math_Max_ge [OF h(1), of t]
    by (cases "math_Max (lit charmTimeFloor) t") (auto simp: zero_f64_def)
qed

text \<open>
  The lower spot is positive for every spot of at least 1/4096: the step is then at most
  half the spot.
\<close>

lemma spot_down_pos:
  assumes "1 / 4096 \<le> x" "x \<le> 2 ^ 40" shows "\<not> Fin x - HStep (Fin x) \<le> 0"
proof -
  have c: "\<exists>r. lit (1 / 10000) = Fin r \<and> 0 \<le> r \<and> r \<le> 1 / 2 ^ 13"
    using rnd_between [of 0 "1 / 2 ^ 13" "1 / 10000"] rnd_dyadic [of 1 13] by simp
  then obtain r where r: "lit (1 / 10000) = Fin r" "0 \<le> r" "r \<le> 1 / 2 ^ 13" by blast
  have "x * r \<le> x * (1 / 2 ^ 13)" using r assms(1) by (intro mult_left_mono) simp_all
  moreover have "x * (1 / 2 ^ 13) = x / 8192" by simp
  ultimately have u: "x * r \<le> x / 8192" by linarith
  have "rnd (2 ^ 40) = Fin (2 ^ 40)" using rnd_of_int [of "2 ^ 40"] by simp
  moreover have "0 \<le> x * r" using r(2) assms(1) by simp
  moreover have "x / 8192 \<le> 2 ^ 40" using assms(2) by simp
  then have "x * r \<le> 2 ^ 40" using u by linarith
  ultimately obtain y where y: "rnd (x * r) = Fin y" "0 \<le> y"
    using rnd_between [OF rnd_0] by blast
  have "y \<le> x / 2"
  proof -
    have "y = rnd_real (x * r)" using rnd_Fin [OF y(1)] .
    also have "\<dots> \<le> x * r + 2 powi ulp_exp (x * r) / 2" using rnd_real_error [of "x * r"] by linarith
    finally have e: "y \<le> x * r + 2 powi ulp_exp (x * r) / 2" .
    show ?thesis
    proof (cases "0 < x * r \<and> - 1074 < ulp_exp (x * r)")
      case True
      then have "2 powi (ulp_exp (x * r) + 52) \<le> x * r" by (intro ulp_exp_lower) simp_all
      moreover have "(2 :: real) powi ulp_exp (x * r) \<le> 2 powi (ulp_exp (x * r) + 52)"
        by (rule powi_mono) simp
      ultimately show ?thesis using e u assms(1) by linarith
    next
      case False
      have "(2 :: real) powi ulp_exp (x * r) \<le> 1 / 1048576" if "\<not> - 1074 < ulp_exp (x * r)"
      proof -
        have "(2 :: real) powi ulp_exp (x * r) \<le> 2 powi (- 20)" by (rule powi_mono) (use that in simp)
        then show ?thesis by (simp add: power_int_def power_one_over)
      qed
      moreover have "y = 0" if "x * r = 0" using \<open>y = rnd_real (x * r)\<close> unfolding that by simp
      moreover have "x * r = 0" if "\<not> 0 < x * r" using that \<open>0 \<le> x * r\<close> by linarith
      ultimately consider "y = 0" | "2 powi ulp_exp (x * r) \<le> (1 / 1048576 :: real)" using False by blast
      then show ?thesis using e u assms(1) by cases linarith+
    qed
  qed
  moreover have "r \<le> x / 2" using r(3) assms(1) by simp
  moreover have "HStep (Fin x) = Fin (max r y)"
    using r y by (simp add: HStep_def hSFloor_def hSRel_def math_Max_def max_def)
  moreover define h where "h = max r y"
  ultimately have h: "HStep (Fin x) = Fin h" "h \<le> x / 2" "0 \<le> h"
    using r(2) by simp_all
  have "rnd (1 / 2 ^ 13) = Fin (1 / 2 ^ 13)" using rnd_dyadic [of 1 13] by simp
  then have "Fin (1 / 2 ^ 13) \<le> rnd (x - h)"
    using rnd_mono [of "1 / 2 ^ 13" "x - h"] h(2) assms(1) by simp
  then have "\<not> rnd (x - h) \<le> Fin 0" by (cases "rnd (x - h)") auto
  then show ?thesis by (simp add: h(1) minus_f64_def zero_f64_def)
qed

lemma ComputeGreeks_ok:
  "(\<exists>g. ComputeGreeks spot strike T r q sigma right = Inr g) \<longleftrightarrow>
     ToUpper (TrimSpace right) \<in> {''C'', ''P''} \<and> \<not> spot \<le> 0 \<and> \<not> strike \<le> 0 \<and> \<not> T \<le> 0 \<and>
     \<not> sigma \<le> lit HVolStep \<and> \<not> spot - HStep spot \<le> 0"
proof (cases "ToUpper (TrimSpace right) \<in> {''C'', ''P''} \<and> \<not> spot \<le> 0 \<and> \<not> strike \<le> 0 \<and> \<not> T \<le> 0 \<and>
     \<not> sigma \<le> lit HVolStep")
  case False
  then show ?thesis by (auto simp: ComputeGreeks_def Let_def)
next
  case True
  then have t: "\<not> T < 0" using less_f64_imp_le by blast
  have ok: "price_args_ok s strike t' v \<longleftrightarrow> \<not> s \<le> 0" if "\<not> t' < 0" "\<not> v < 0" for s t' v
    using that True by (simp add: price_args_ok_def)
  have up: "\<not> spot + HStep spot \<le> 0" using True by (intro spot_up_pos) blast
  note vs = vol_steps [of sigma] and dt = decay_time
  show ?thesis
    using True t up vs by (auto simp: ComputeGreeks_def Let_def bind_res_ok priceAt_ok delta_fd_ok ok dt)
qed

text \<open>
  Property C32. The Greeks of a contract fail exactly on the documented inputs: a right
  that is not a call or a put, a non-positive spot, strike or time, a volatility at or
  below the vanna step, or a spot so small that the lower spot of the central difference
  is not positive. The nine pricings of the differences never fail otherwise.
\<close>

theorem greeks_ok_iff:
  "(\<exists>g. ComputeGreeks spot strike T r q sigma right = Inr g) \<longleftrightarrow>
     ToUpper (TrimSpace right) \<in> {''C'', ''P''} \<and> \<not> spot \<le> 0 \<and> \<not> strike \<le> 0 \<and> \<not> T \<le> 0 \<and>
     \<not> sigma \<le> lit HVolStep \<and> \<not> spot - HStep spot \<le> 0"
  by (rule ComputeGreeks_ok)

end
