(* ===== verification/Volblend.thy ===== *)
theory Volblend
  imports Float64
begin

text \<open>
  Package \<^verbatim>\<open>volblend\<close>: the weight of a live implied volatility against the anchor, the
  variance blend and the skew carrier. The constants are untyped in Go, so
  \<open>1 - WMin\<close> and \<open>-LambdaT\<close> are rounded once, from their exact values.
\<close>

section \<open>Weights\<close>

definition WMin :: real where "WMin = 35 / 100"
definition LambdaT :: real where "LambdaT = 8710677271722231 / 1000000000000000"
definition LambdaSpread :: real where "LambdaSpread = 25"

record quote =
  qBid :: f64
  qAsk :: f64
  qOK :: bool

definition QuoteOf :: "f64 \<Rightarrow> f64 \<Rightarrow> quote" where
  "QuoteOf bid ask = \<lparr>qBid = bid, qAsk = ask, qOK = (bid > 0 \<or> ask > 0)\<rparr>"

definition TermWeight :: "f64 \<Rightarrow> f64" where
  "TermWeight expiryYears = lit WMin + lit (1 - WMin) * math_Exp (lit (- LambdaT) * expiryYears)"

definition quote_mid :: "quote \<Rightarrow> f64" where
  "quote_mid q = (qBid q + qAsk q) / lit 2"

definition SpreadFactor :: "quote \<Rightarrow> f64" where
  "SpreadFactor q =
     (let mid = quote_mid q
      in if mid \<le> 0 then 0
         else let rel = (qAsk q - qBid q) / mid in 1 / (1 + lit LambdaSpread * rel * rel))"

definition stale_or_crossed :: "quote \<Rightarrow> bool" where
  "stale_or_crossed q \<longleftrightarrow> quote_mid q \<le> lit (1 / 10000) \<or> qAsk q < qBid q"

definition LiveIVWeight :: "f64 \<Rightarrow> quote \<Rightarrow> f64" where
  "LiveIVWeight expiryYears q =
     (if expiryYears \<le> 0 then 1
      else let phi = TermWeight expiryYears
           in if \<not> qOK q then phi
              else if stale_or_crossed q then phi * lit (1 / 10)
              else go_min 1 (go_max 0 (phi * SpreadFactor q)))"

section \<open>Blends\<close>

definition BlendVariance :: "f64 \<Rightarrow> f64 \<Rightarrow> f64 \<Rightarrow> quote \<Rightarrow> f64" where
  "BlendVariance liveIV anchorVol expiryYears q =
     (let w = LiveIVWeight expiryYears q;
          v = w * liveIV * liveIV + (1 - w) * anchorVol * anchorVol
      in math_Sqrt (math_Max (lit (1 / 1000000)) v))"

definition minSkewMult :: real where "minSkewMult = 2 / 10"
definition maxSkewMult :: real where "maxSkewMult = 5"

definition shapeExponent :: "quote \<Rightarrow> f64" where
  "shapeExponent q =
     (if \<not> qOK q then 1 else if stale_or_crossed q then 0 else SpreadFactor q)"

definition blend_level :: "f64 \<Rightarrow> f64 \<Rightarrow> f64 \<Rightarrow> quote \<Rightarrow> f64" where
  "blend_level atmIV anchorVol expiryYears atm =
     (let w = LiveIVWeight expiryYears atm in w * atmIV + (1 - w) * anchorVol)"

definition BlendSkewCarrier :: "f64 \<Rightarrow> f64 \<Rightarrow> f64 \<Rightarrow> f64 \<Rightarrow> quote \<Rightarrow> quote \<Rightarrow> f64" where
  "BlendSkewCarrier strikeIV atmIV anchorVol expiryYears strike atm =
     (if atmIV \<le> lit (1 / 10000)
      then if strikeIV \<le> lit (1 / 10000) then anchorVol
           else BlendVariance strikeIV anchorVol expiryYears strike
      else let level = blend_level atmIV anchorVol expiryYears atm
           in if strikeIV \<le> lit (1 / 10000) then level
              else let mult = go_min (lit maxSkewMult) (go_max (lit minSkewMult) (strikeIV / atmIV))
                   in level * math_Pow mult (shapeExponent strike))"

section \<open>Bounds of the weights\<close>

text \<open>A value in the unit interval.\<close>

definition in_unit :: "f64 \<Rightarrow> bool" where
  "in_unit a \<longleftrightarrow> (\<exists>r. a = Fin r \<and> 0 \<le> r \<and> r \<le> 1)"

lemma in_unit_Fin [simp]: "in_unit (Fin r) \<longleftrightarrow> 0 \<le> r \<and> r \<le> 1"
  by (simp add: in_unit_def)

lemma in_unit_rnd: "0 \<le> x \<Longrightarrow> x \<le> 1 \<Longrightarrow> in_unit (rnd x)"
  using rnd_unit [of x] by (auto simp: in_unit_def)

lemma in_unit_times: assumes "in_unit a" "in_unit b" shows "in_unit (a * b)"
proof -
  obtain x y where ab: "a = Fin x" "b = Fin y" "0 \<le> x" "x \<le> 1" "0 \<le> y" "y \<le> 1"
    using assms by (auto simp: in_unit_def)
  then have "0 \<le> x * y" "x * y \<le> 1" by (simp_all add: mult_le_one)
  then show ?thesis by (simp add: ab in_unit_rnd)
qed

lemma ulp_exp_less:
  assumes "0 < x" "x < 2 powi k" "- 1021 \<le> k" shows "ulp_exp x \<le> k - 53"
proof -
  have "log 2 x < of_int k"
    using assms(1,2) by (subst log_less_iff) (simp_all add: powr_real_of_int')
  then have "\<lfloor>log 2 x\<rfloor> < k" by (simp add: floor_less_iff)
  then show ?thesis using assms(1,3) by (simp add: ulp_exp_def)
qed

lemma rnd_below:
  assumes "0 < x" "x < 2 powi k" "- 1021 \<le> k" "k \<le> 0"
  shows "\<exists>r. rnd x = Fin r \<and> 0 \<le> r \<and> r \<le> x + 2 powi (k - 54)"
proof -
  have "(2 :: real) powi k \<le> 2 powi 0" by (rule powi_mono) (use assms(4) in simp)
  then have "x \<le> 1" using assms(2) by simp
  then obtain r where r: "rnd x = Fin r" "0 \<le> r" using rnd_unit [of x] assms(1) by auto
  have "r = rnd_real x" using rnd_Fin [OF r(1)] .
  moreover have "(2 :: real) powi ulp_exp x \<le> 2 powi (k - 53)"
    by (rule powi_mono [OF ulp_exp_less [OF assms(1-3)]])
  moreover have "(2 :: real) powi (k - 53) = 2 * 2 powi (k - 54)"
    using powi_split [of 1 "k - 54"] by simp
  ultimately have "r \<le> x + 2 powi (k - 54)" using rnd_real_error [of x] by linarith
  with r show ?thesis by blast
qed

lemma WMin_lits:
  "\<exists>a b. lit WMin = Fin b \<and> lit (1 - WMin) = Fin a \<and> 0 \<le> a \<and> 0 \<le> b \<and> a \<le> 1 \<and>
     a + b \<le> 1 + 1 / 2 ^ 53"
proof -
  obtain b where b: "lit WMin = Fin b" "0 \<le> b" "b \<le> WMin + 2 powi (- 1 - 54)"
    using rnd_below [of WMin "- 1"] by (auto simp: WMin_def power_int_minus)
  obtain a where a: "lit (1 - WMin) = Fin a" "0 \<le> a" "a \<le> 1 - WMin + 2 powi (0 - 54)"
    using rnd_below [of "1 - WMin" 0] by (auto simp: WMin_def)
  have p: "(2 :: real) powi (- 1 - 54) \<le> 1 / 2 ^ 54" "(2 :: real) powi (0 - 54) = 1 / 2 ^ 54"
    by (simp_all add: power_int_def power_one_over)
  have "a \<le> 1" using rnd_unit [of "1 - WMin"] a by (auto simp: WMin_def)
  moreover have "a + b \<le> 1 + 2 * (1 / 2 ^ 54)" using a(3) b(3) p by linarith
  then have "a + b \<le> 1 + 1 / 2 ^ 53" by simp
  ultimately show ?thesis using a b by blast
qed

lemma exp_decay_unit:
  assumes "0 < T" shows "in_unit (math_Exp (lit (- LambdaT) * T))"
proof -
  have u: "in_unit (math_Exp (rnd x))" if "x \<le> 0" for x
  proof -
    have "rnd x \<le> Fin 0" using rnd_mono [OF that] by simp
    then show ?thesis
      by (cases "rnd x") (auto intro!: in_unit_rnd)
  qed
  obtain l where l: "lit (- LambdaT) = Fin l" "- 9 \<le> l" "l \<le> - 8"
    using rnd_between [of "- 9" "- 8" "- LambdaT"] by (auto simp: LambdaT_def f64_simps)
  show ?thesis
  proof (cases T)
    case (Fin t)
    then have "l * t \<le> 0" using assms l by (simp add: zero_f64_def mult_nonpos_nonneg)
    then show ?thesis using l u by (simp add: Fin)
  next
    case PInf
    then show ?thesis using l by (simp add: sgn_inf_def)
  qed (use assms in \<open>simp_all add: zero_f64_def\<close>)
qed

lemma TermWeight_bounds:
  assumes "0 < T" shows "in_unit (TermWeight T)" "lit WMin \<le> TermWeight T"
proof -
  obtain a b where ab: "lit WMin = Fin b" "lit (1 - WMin) = Fin a" "0 \<le> a" "0 \<le> b" "a \<le> 1"
    "a + b \<le> 1 + 1 / 2 ^ 53" using WMin_lits by blast
  obtain e where e: "math_Exp (lit (- LambdaT) * T) = Fin e" "0 \<le> e" "e \<le> 1"
    using exp_decay_unit [OF assms] by (auto simp: in_unit_def)
  have ra: "rnd a = Fin a" and rb: "rnd b = Fin b"
    using is_f64_Fin_rnd is_f64_rnd ab(1,2) by metis+
  have "a * e \<le> a" using ab(3) e by (simp add: mult_left_le)
  then obtain z where z: "rnd (a * e) = Fin z" "0 \<le> z" "z \<le> a"
    using rnd_between [of 0 a "a * e"] ra ab(3) e by auto
  have "rnd_real (b + z) \<le> 1" using z ab(6) by (intro rnd_real_one_up) simp
  moreover have "b \<le> rnd_real (b + z)"
    using rnd_real_mono [of b "b + z"] rnd_Fin [OF rb] z(2) by simp
  ultimately have "rnd (b + z) = Fin (rnd_real (b + z))"
    using ab(4) max_finite_ge by (auto simp: rnd_def Let_def)
  then have t: "TermWeight T = Fin (rnd_real (b + z))"
    by (simp add: TermWeight_def ab e z)
  show "in_unit (TermWeight T)"
    using \<open>rnd_real (b + z) \<le> 1\<close> \<open>b \<le> rnd_real (b + z)\<close> ab(4) by (simp add: t)
  show "lit WMin \<le> TermWeight T" using \<open>b \<le> rnd_real (b + z)\<close> by (simp add: t ab)
qed

text \<open>A two-sided quote as the feed delivers it: finite, non-negative, representable.\<close>

definition sane_quote :: "quote \<Rightarrow> bool" where
  "sane_quote q \<longleftrightarrow> finite64 (qBid q) \<and> finite64 (qAsk q) \<and> is_f64 (qBid q) \<and> is_f64 (qAsk q) \<and>
     0 \<le> qBid q \<and> 0 \<le> qAsk q"

lemma sane_quote_diff: assumes "sane_quote q" shows "finite64 (qAsk q - qBid q)"
proof -
  obtain b a where ba: "qBid q = Fin b" "qAsk q = Fin a" "0 \<le> b" "0 \<le> a"
    "is_f64 (Fin b)" "is_f64 (Fin a)"
    using assms by (auto simp: sane_quote_def finite64_iff zero_f64_def)
  have "rnd (- b) = Fin (- b)" "rnd a = Fin a"
    using ba(5,6) by (simp_all add: rnd_minus is_f64_Fin_rnd)
  then have "\<exists>r. rnd (a + - b) = Fin r \<and> - b \<le> r \<and> r \<le> a"
    using ba(3,4) by (intro rnd_between) simp_all
  then show ?thesis by (auto simp: minus_f64_def ba)
qed

lemma square_not_neg:
  assumes "r \<noteq> NaN" shows "lit LambdaSpread * r * r \<noteq> NaN \<and> 0 \<le> lit LambdaSpread * r * r"
proof (cases r)
  case (Fin x)
  have sq: "rnd (25 * x) * Fin x \<noteq> NaN \<and> 0 \<le> rnd (25 * x) * Fin x"
  proof (cases "0 \<le> x")
    case True
    then have "Fin 0 \<le> rnd (25 * x)" by (simp add: rnd_nonneg)
    with True show ?thesis
      by (cases "rnd (25 * x)"; cases "x = 0") (auto simp: zero_f64_def sgn_inf_def rnd_nonneg)
  next
    case False
    then have "rnd (25 * x) \<le> Fin 0" using rnd_mono [of "25 * x" 0] by simp
    with False show ?thesis
      by (cases "rnd (25 * x)")
        (auto simp: zero_f64_def sgn_inf_def mult_nonpos_nonpos intro!: rnd_nonneg)
  qed
  then show ?thesis by (simp add: Fin LambdaSpread_def f64_simps)
qed (use assms in \<open>simp_all add: LambdaSpread_def f64_simps sgn_inf_def zero_f64_def\<close>)

lemma inverse_unit: assumes "Fin 1 \<le> a" shows "in_unit (Fin 1 / a)"
proof (cases a)
  case (Fin x)
  with assms show ?thesis by (auto intro: in_unit_rnd)
qed (use assms in simp_all)

lemma SpreadFactor_unit:
  assumes "sane_quote q" shows "in_unit (SpreadFactor q)"
proof (cases "quote_mid q \<le> 0")
  case True
  then show ?thesis by (simp add: SpreadFactor_def zero_f64_def)
next
  case False
  obtain d where d: "qAsk q - qBid q = Fin d"
    using sane_quote_diff [OF assms] by (auto simp: finite64_iff)
  have "qBid q + qAsk q \<noteq> NaN" using assms by (auto simp: sane_quote_def finite64_iff)
  then have "quote_mid q \<noteq> NaN"
    by (cases "qBid q + qAsk q") (simp_all add: quote_mid_def f64_simps)
  then have m: "quote_mid q > 0" using False by (simp add: less_f64_iff zero_f64_def)
  have r: "Fin d / quote_mid q \<noteq> NaN"
    using m by (cases "quote_mid q") (auto simp: zero_f64_def)
  let ?s = "lit LambdaSpread * (Fin d / quote_mid q) * (Fin d / quote_mid q)"
  have s: "?s \<noteq> NaN" "0 \<le> ?s" using square_not_neg [OF r] by simp_all
  then have "Fin 1 \<le> 1 + ?s"
  proof (cases ?s)
    case (Fin y)
    then show ?thesis
      using s rnd_mono [of 1 "1 + y"] by (simp add: one_f64_def zero_f64_def)
  qed (simp_all add: one_f64_def zero_f64_def)
  then have "in_unit (Fin 1 / (1 + ?s))" by (rule inverse_unit)
  then show ?thesis using False by (simp add: SpreadFactor_def Let_def d one_f64_def)
qed

lemma clamp_unit: "in_unit a \<Longrightarrow> go_min 1 (go_max 0 a) = a"
  by (auto simp: in_unit_def go_min_def go_max_def one_f64_def zero_f64_def)

lemma lit_tenth_unit: "in_unit (lit (1 / 10))"
  by (rule in_unit_rnd) simp_all

lemma LiveIVWeight_unit:
  assumes "T \<noteq> NaN" "sane_quote q" shows "in_unit (LiveIVWeight T q)"
proof (cases "T \<le> 0")
  case True
  then show ?thesis by (simp add: LiveIVWeight_def one_f64_def)
next
  case False
  then have T: "0 < T" using assms(1) by (simp add: less_f64_iff zero_f64_def)
  have s: "in_unit (TermWeight T * SpreadFactor q)"
    using TermWeight_bounds(1) [OF T] SpreadFactor_unit [OF assms(2)] by (rule in_unit_times)
  have "in_unit (TermWeight T * lit (1 / 10))"
    using TermWeight_bounds(1) [OF T] lit_tenth_unit by (rule in_unit_times)
  then show ?thesis
    using False TermWeight_bounds(1) [OF T] s clamp_unit [OF s] by (simp add: LiveIVWeight_def Let_def)
qed

text \<open>
  Fact. The weight on the live volatility is a number between zero and one for
  every expiry and every sane quote, whatever the rounding: on the front expiry it is
  one, without quote information it is the term weight, which never falls below the
  back-month floor, and a stale or crossed quote keeps a tenth of it; otherwise the
  final clamp changes nothing.
\<close>

theorem live_weight_unit:
  assumes "T \<noteq> NaN" "sane_quote q"
  shows "in_unit (LiveIVWeight T q) \<and>
    (T \<le> 0 \<longrightarrow> LiveIVWeight T q = 1) \<and>
    (\<not> T \<le> 0 \<and> \<not> qOK q \<longrightarrow> LiveIVWeight T q = TermWeight T \<and> lit WMin \<le> LiveIVWeight T q) \<and>
    (\<not> T \<le> 0 \<and> qOK q \<and> stale_or_crossed q \<longrightarrow> LiveIVWeight T q = TermWeight T * lit (1 / 10)) \<and>
    (\<not> T \<le> 0 \<and> qOK q \<and> \<not> stale_or_crossed q \<longrightarrow>
       LiveIVWeight T q = TermWeight T * SpreadFactor q)"
proof (cases "T \<le> 0")
  case True
  then show ?thesis by (simp add: LiveIVWeight_def one_f64_def)
next
  case False
  then have T: "0 < T" using assms(1) by (simp add: less_f64_iff zero_f64_def)
  have s: "in_unit (TermWeight T * SpreadFactor q)"
    using TermWeight_bounds(1) [OF T] SpreadFactor_unit [OF assms(2)] by (rule in_unit_times)
  show ?thesis
    using False LiveIVWeight_unit [OF assms] TermWeight_bounds(2) [OF T] clamp_unit [OF s]
    by (auto simp: LiveIVWeight_def Let_def)
qed

theorem live_weight_unit_witness:
  "in_unit (LiveIVWeight 1 (QuoteOf (Fin 2) (Fin 1))) \<and>
   LiveIVWeight 1 (QuoteOf (Fin 2) (Fin 1)) = TermWeight 1 * lit (1 / 10)"
proof -
  have f: "is_f64 (Fin 2)" "is_f64 (Fin 1)"
    using is_f64_rnd [of 2] is_f64_rnd [of 1] by (simp_all add: f64_simps)
  have "sane_quote (QuoteOf (Fin 2) (Fin 1))"
    using f by (simp add: sane_quote_def QuoteOf_def zero_f64_def)
  moreover have "(1 :: f64) \<noteq> NaN" "\<not> (1 :: f64) \<le> 0" by (simp_all add: one_f64_def zero_f64_def)
  moreover have "qOK (QuoteOf (Fin 2) (Fin 1))" "stale_or_crossed (QuoteOf (Fin 2) (Fin 1))"
    by (simp_all add: QuoteOf_def stale_or_crossed_def zero_f64_def)
  ultimately show ?thesis using live_weight_unit [of 1 "QuoteOf (Fin 2) (Fin 1)"] by blast
qed

section \<open>Bounds of the blends\<close>

lemma in_unit_bounded: "in_unit a \<Longrightarrow> bounded_by 1 a"
  by (simp add: in_unit_def bounded_by_def)

lemma in_unit_complement: "in_unit w \<Longrightarrow> in_unit (1 - w)"
  by (auto simp: in_unit_def one_f64_def minus_f64_def intro!: rnd_unit)

lemma blend_variance_bounded:
  assumes "in_unit w" "bounded_by 1000 x" "bounded_by 1000 y"
  shows "bounded_by 2000000 (w * x * x + (1 - w) * y * y)"
proof -
  have "bounded_by 1000000 (w * x * x)"
    using bounded_by_times [OF bounded_by_times [OF in_unit_bounded [OF assms(1)] assms(2)] assms(2)] by simp
  moreover have "bounded_by 1000000 ((1 - w) * y * y)"
    using bounded_by_times [OF bounded_by_times [OF in_unit_bounded [OF in_unit_complement [OF assms(1)]]
          assms(3)] assms(3)] by simp
  ultimately show ?thesis using bounded_by_plus [of 1000000 _ 1000000] by simp
qed

text \<open>
  Fact. The variance blend of two volatilities is always a usable volatility: for
  live and anchor volatilities up to 1000 (100000 percent) it is a finite number above
  one part in 1024, the square root of the floor, and at most 2000; it is never NaN,
  zero or infinite.
\<close>

theorem blend_variance_usable:
  assumes "T \<noteq> NaN" "sane_quote q" "bounded_by 1000 liveIV" "bounded_by 1000 anchorVol"
  shows "\<exists>r. BlendVariance liveIV anchorVol T q = Fin r \<and> 1 / 1024 \<le> r \<and> r \<le> 2000"
proof -
  let ?v = "LiveIVWeight T q * liveIV * liveIV + (1 - LiveIVWeight T q) * anchorVol * anchorVol"
  have "in_unit (LiveIVWeight T q)" using assms(1,2) by (rule LiveIVWeight_unit)
  then have "bounded_by 2000000 ?v" using assms(3,4) by (rule blend_variance_bounded)
  then obtain v where v: "?v = Fin v" "0 \<le> v" "v \<le> 2000000" by (auto simp: bounded_by_def)
  have "rnd (1 / 2 ^ 20) = Fin (1 / 2 ^ 20)" using rnd_dyadic [of 1 20] by simp
  then obtain f where f: "lit (1 / 1000000) = Fin f" "1 / 2 ^ 20 \<le> f" "f \<le> 1"
    using rnd_between [of "1 / 2 ^ 20" 1 "1 / 1000000"] by auto
  obtain m where m: "math_Max (lit (1 / 1000000)) ?v = Fin m" "1 / 2 ^ 20 \<le> m" "m \<le> 2000000"
  proof
    show "math_Max (lit (1 / 1000000)) ?v = Fin (max f v)"
      unfolding v(1) f(1) by (simp add: math_Max_def max_def)
    show "1 / 2 ^ 20 \<le> max f v" "max f v \<le> 2000000" using v(3) f(2,3) by simp_all
  qed
  have "sqrt ((1 / 2 ^ 10) ^ 2) \<le> sqrt m" using m(2) by (intro real_sqrt_le_mono) (simp add: power_divide)
  then have lo: "1 / 2 ^ 10 \<le> sqrt m" by simp
  have "sqrt m \<le> sqrt (2000 ^ 2)" using m(3) by (intro real_sqrt_le_mono) simp
  then have hi: "sqrt m \<le> 2000" by simp
  have "rnd (1 / 2 ^ 10) = Fin (1 / 2 ^ 10)" using rnd_dyadic [of 1 10] by simp
  then obtain r where "rnd (sqrt m) = Fin r" "1 / 2 ^ 10 \<le> r" "r \<le> 2000"
    using rnd_between [OF _ _ lo hi] by (auto simp: f64_simps)
  moreover have "\<not> m < 0" using m(2) by (smt (verit) divide_pos_pos zero_less_power)
  ultimately show ?thesis by (auto simp: BlendVariance_def Let_def m(1))
qed

theorem blend_variance_usable_witness:
  "\<exists>r. BlendVariance (Fin 1) (Fin 0) 1 (QuoteOf (Fin 0) (Fin 0)) = Fin r \<and> 1 / 1024 \<le> r \<and> r \<le> 2000"
proof (rule blend_variance_usable)
  have "is_f64 (Fin 0)" using is_f64_rnd [of 0] by simp
  then show "sane_quote (QuoteOf (Fin 0) (Fin 0))"
    by (simp add: sane_quote_def QuoteOf_def zero_f64_def)
qed (simp_all add: one_f64_def bounded_by_def)

lemma powr_unit_bounds:
  fixes m e :: real
  assumes "0 < m" "0 \<le> e" "e \<le> 1" shows "min 1 m \<le> m powr e" "m powr e \<le> max 1 m"
proof -
  have "m powr 1 = m" "m powr 0 = 1" using assms(1) by (simp_all add: powr_one powr_zero_eq_one)
  then have "min 1 m \<le> m powr e \<and> m powr e \<le> max 1 m"
  proof (cases "1 \<le> m")
    case True
    have "m powr 0 \<le> m powr e" "m powr e \<le> m powr 1"
      by (rule powr_mono [OF assms(2) True]) (rule powr_mono [OF assms(3) True])
    then show ?thesis using True assms(1) by simp
  next
    case False
    then have l: "m \<le> 1" by simp
    have "m powr e \<le> m powr 0" "m powr 1 \<le> m powr e"
      using powr_mono' [OF assms(2) _ l] powr_mono' [OF assms(3) _ l] assms(1) by simp_all
    then show ?thesis using False assms(1) by simp
  qed
  then show "min 1 m \<le> m powr e" "m powr e \<le> max 1 m" by simp_all
qed

lemma math_Pow_unit:
  assumes "rnd lo = Fin lo" "rnd hi = Fin hi" "0 < lo" "lo \<le> 1" "1 \<le> hi" "lo \<le> m" "m \<le> hi" "in_unit e"
  shows "\<exists>p. math_Pow (Fin m) e = Fin p \<and> lo \<le> p \<and> p \<le> hi"
proof -
  obtain x where x: "e = Fin x" "0 \<le> x" "x \<le> 1" using assms(8) by (auto simp: in_unit_def)
  have m: "0 < m" using assms by simp
  have "lo \<le> m powr x" "m powr x \<le> hi"
    using powr_unit_bounds [OF m x(2,3)] assms by (auto simp: min_def max_def split: if_splits)
  then show ?thesis
    using rnd_between [OF assms(1,2)] assms m x by (auto simp: math_Pow_def)
qed

lemma shapeExponent_unit: "sane_quote q \<Longrightarrow> in_unit (shapeExponent q)"
  by (simp add: shapeExponent_def SpreadFactor_unit one_f64_def zero_f64_def)

lemma skew_mult_range:
  assumes "strikeIV \<noteq> NaN" "0 < strikeIV" "finite64 strikeIV" "0 < atmIV" "finite64 atmIV"
  shows "\<exists>lo m. lit minSkewMult = Fin lo \<and> 0 < lo \<and> lo \<le> 1 \<and> lo \<le> m \<and> m \<le> 5 \<and>
    go_min (lit maxSkewMult) (go_max (lit minSkewMult) (strikeIV / atmIV)) = Fin m"
proof -
  obtain x y where xy: "strikeIV = Fin x" "atmIV = Fin y" "0 < x" "0 < y"
    using assms by (auto simp: finite64_iff zero_f64_def)
  obtain lo where lo: "lit minSkewMult = Fin lo" "1 / 8 \<le> lo" "lo \<le> 1"
    using rnd_between [of "1 / 2 ^ 3" 1 minSkewMult] rnd_dyadic [of 1 3] by (auto simp: minSkewMult_def)
  have "Fin 0 \<le> rnd (x / y)" using xy by (simp add: rnd_nonneg)
  then show ?thesis
    using lo xy by (cases "rnd (x / y)")
      (auto simp: go_min_def go_max_def maxSkewMult_def f64_simps)
qed

lemma is_f64_plus [simp]: "is_f64 (a + b)"
  by (cases a; cases b) (simp_all, simp_all add: is_f64_def)

text \<open>
  Fact. The skew multiplier is hard-bounded: whenever the carrier takes a shape
  from a quoted strike, the volatility lies between a fifth and five times the blended
  level, however wild the quote; a stale or crossed strike quote contributes no shape
  at all, and without an at-the-money reference the result is the anchor or the variance
  blend against it.
\<close>

theorem skew_carrier_backstop:
  assumes "sane_quote strike" "finite64 strikeIV" "finite64 atmIV"
    and level: "blend_level atmIV anchorVol T atm = Fin L" "0 \<le> L"
  shows "(atmIV \<le> lit (1 / 10000) \<longrightarrow>
      BlendSkewCarrier strikeIV atmIV anchorVol T strike atm =
        (if strikeIV \<le> lit (1 / 10000) then anchorVol else BlendVariance strikeIV anchorVol T strike)) \<and>
    (\<not> atmIV \<le> lit (1 / 10000) \<longrightarrow> strikeIV \<le> lit (1 / 10000) \<longrightarrow>
      BlendSkewCarrier strikeIV atmIV anchorVol T strike atm = Fin L) \<and>
    (\<not> atmIV \<le> lit (1 / 10000) \<longrightarrow> \<not> strikeIV \<le> lit (1 / 10000) \<longrightarrow>
      Fin L * lit minSkewMult \<le> BlendSkewCarrier strikeIV atmIV anchorVol T strike atm \<and>
      BlendSkewCarrier strikeIV atmIV anchorVol T strike atm \<le> Fin L * lit maxSkewMult \<and>
      (qOK strike \<and> stale_or_crossed strike \<longrightarrow>
        BlendSkewCarrier strikeIV atmIV anchorVol T strike atm = Fin L))"
proof -
  let ?B = "BlendSkewCarrier strikeIV atmIV anchorVol T strike atm"
  have tiny: "Fin 0 \<le> lit (1 / 10000)" by (rule rnd_nonneg) simp
  have pos: "0 < a" if "\<not> a \<le> lit (1 / 10000)" "finite64 a" for a
    using that tiny by (cases a; cases "lit (1 / 10000)") (auto simp: zero_f64_def)
  have quoted: "Fin L * lit minSkewMult \<le> ?B \<and> ?B \<le> Fin L * lit maxSkewMult \<and>
      (qOK strike \<and> stale_or_crossed strike \<longrightarrow> ?B = Fin L)"
    if q: "\<not> atmIV \<le> lit (1 / 10000)" "\<not> strikeIV \<le> lit (1 / 10000)"
  proof -
    have nn: "strikeIV \<noteq> NaN" using assms(2) by auto
    obtain lo m where lm: "lit minSkewMult = Fin lo" "0 < lo" "lo \<le> 1" "lo \<le> m" "m \<le> 5"
      "go_min (lit maxSkewMult) (go_max (lit minSkewMult) (strikeIV / atmIV)) = Fin m"
      using skew_mult_range [OF nn pos [OF q(2) assms(2)] assms(2) pos [OF q(1) assms(3)] assms(3)] by blast
    have five: "lit maxSkewMult = Fin 5" by (simp add: maxSkewMult_def f64_simps)
    have rlo: "rnd lo = Fin lo" using is_f64_Fin_rnd [of lo] is_f64_rnd [of minSkewMult] lm(1) by simp
    have "\<exists>p. math_Pow (Fin m) (shapeExponent strike) = Fin p \<and> lo \<le> p \<and> p \<le> 5"
      using lm(2-5) shapeExponent_unit [OF assms(1)]
      by (intro math_Pow_unit [OF rlo]) (simp_all add: f64_simps)
    then obtain p where p: "math_Pow (Fin m) (shapeExponent strike) = Fin p" "lo \<le> p" "p \<le> 5"
      by blast
    have B: "?B = Fin L * Fin p"
      using q by (simp add: BlendSkewCarrier_def Let_def level(1) lm(6) p(1))
    have "is_f64 (Fin L)" unfolding level(1) [symmetric] by (simp add: blend_level_def Let_def)
    then have L: "Fin L * Fin 1 = Fin L" by (simp add: is_f64_Fin_rnd)
    have "?B = Fin L" if "qOK strike" "stale_or_crossed strike"
    proof -
      have "shapeExponent strike = Fin 0" using that by (simp add: shapeExponent_def zero_f64_def)
      then have "Fin p = Fin 1" using p(1) by (simp add: math_Pow_def)
      then show ?thesis using B L by simp
    qed
    moreover have "Fin L * Fin lo \<le> Fin L * Fin p" "Fin L * Fin p \<le> Fin L * Fin 5"
      using level(2) lm(2) p(2,3) by (simp_all add: rnd_mono mult_left_mono)
    ultimately show ?thesis unfolding B lm(1) five by blast
  qed
  show ?thesis
    using quoted by (auto simp: BlendSkewCarrier_def Let_def level(1))
qed

lemma unit_level: "blend_level (Fin 1) (Fin 1) 0 (QuoteOf (Fin 0) (Fin 0)) = Fin 1"
  by (simp add: blend_level_def LiveIVWeight_def zero_f64_def one_f64_def minus_f64_def f64_simps)

theorem skew_carrier_backstop_witness:
  "BlendSkewCarrier (Fin 64) (Fin 1) (Fin 1) 0 (QuoteOf (Fin 2) (Fin 1)) (QuoteOf (Fin 0) (Fin 0)) = Fin 1"
proof -
  have f: "is_f64 (Fin 2)" "is_f64 (Fin 1)"
    using is_f64_rnd [of 2] is_f64_rnd [of 1] by (simp_all add: f64_simps)
  have s: "sane_quote (QuoteOf (Fin 2) (Fin 1))"
    using f by (simp add: sane_quote_def QuoteOf_def zero_f64_def)
  have c: "qOK (QuoteOf (Fin 2) (Fin 1))" "stale_or_crossed (QuoteOf (Fin 2) (Fin 1))"
    by (simp_all add: QuoteOf_def stale_or_crossed_def zero_f64_def)
  obtain t where "lit (1 / 10000) = Fin t" "t \<le> 1 / 2"
    using rnd_between [of 0 "1 / 2" "1 / 10000"] by (auto simp: f64_simps)
  then have "\<not> Fin 1 \<le> lit (1 / 10000)" "\<not> Fin 64 \<le> lit (1 / 10000)" by simp_all
  then show ?thesis
    using skew_carrier_backstop [OF s, of "Fin 64" "Fin 1", OF _ _ unit_level] c by simp
qed

end
