(* ===== verification/Exposure.thy ===== *)
theory Exposure
  imports Market_Types Collect Rootfind Solver Volblend
begin

text \<open>
  Package \<^verbatim>\<open>exposure\<close>, the dollar exposures (\<^verbatim>\<open>exposure.go\<close>) and the aggregation of a book
  (\<^verbatim>\<open>aggregate.go\<close>): the pricing loop with its three families of accumulators, the walls,
  the zero-gamma flip, the blended volatility surface and the per-leg deltas. A Go map of
  accumulators with its slice of keys is one list in order of first insertion; float
  keys are compared with the language's equality, so a NaN key is never found again.
\<close>

section \<open>Dollar exposures\<close>

definition DealerQty :: "contract \<Rightarrow> f64" where
  "DealerQty c = (if cRight c = RightCall then cOpenInterest c else - cOpenInterest c)"

definition GEX :: "f64 \<Rightarrow> f64 \<Rightarrow> f64 \<Rightarrow> f64 \<Rightarrow> f64" where
  "GEX q gamma spot multiplier = q * gamma * spot * spot * lit (1 / 100) * multiplier"

definition DEX :: "f64 \<Rightarrow> f64 \<Rightarrow> f64 \<Rightarrow> f64 \<Rightarrow> f64" where
  "DEX q delta spot multiplier = q * delta * spot * multiplier"

definition VEX :: "f64 \<Rightarrow> f64 \<Rightarrow> f64 \<Rightarrow> f64 \<Rightarrow> f64" where
  "VEX q vanna spot multiplier = q * vanna * spot * lit (1 / 100) * multiplier"

definition CHEX :: "f64 \<Rightarrow> f64 \<Rightarrow> f64 \<Rightarrow> f64 \<Rightarrow> f64" where
  "CHEX q charm spot multiplier = q * charm * spot * multiplier"

section \<open>Inputs and errors\<close>

record book_inputs =
  biChain :: chain_snapshot
  biSpot :: f64
  biAsOf :: instant
  biR :: f64
  biQ :: f64
  biSigma :: "f64 \<Rightarrow> f64"
  biSkipFlip :: bool
  biLiveBlend :: bool

datatype exposure_error =
  EDate market_error | ESolver solver_error | ENoContracts | ERoot root_error | EPanic

definition multi_class :: "chain_snapshot \<Rightarrow> bool" where
  "multi_class chain \<longleftrightarrow> 1 < length (firsts [] (map cTradingClass (chContracts chain)))"

definition nul :: char where "nul = CHR 0x00"

section \<open>The blended surface\<close>

record strike_quote =
  sqStrike :: f64
  sqSumIV :: f64
  sqN :: int
  sqBid :: f64
  sqAsk :: f64
  sqOk :: bool

definition new_quote :: "contract \<Rightarrow> strike_quote" where
  "new_quote c = \<lparr>sqStrike = cStrike c, sqSumIV = 0, sqN = 0, sqBid = 0, sqAsk = 0, sqOk = False\<rparr>"

definition add_quote :: "contract \<Rightarrow> strike_quote \<Rightarrow> strike_quote" where
  "add_quote c q0 =
     (let q = q0\<lparr>sqSumIV := sqSumIV q0 + cIV c, sqN := sqN q0 + 1\<rparr>;
          hasQuote = (cBid c > 0 \<or> cAsk c > 0)
      in if \<not> sqOk q then q\<lparr>sqBid := cBid c, sqAsk := cAsk c, sqOk := hasQuote\<rparr>
         else if cRight c = RightCall \<and> hasQuote then q\<lparr>sqBid := cBid c, sqAsk := cAsk c\<rparr>
         else q)"

definition blend_key :: "bool \<Rightarrow> contract \<Rightarrow> string" where
  "blend_key multi c = cExpiryDate c @ [nul] @ (if multi then cTradingClass c else [])"

definition is_quoted :: "instant \<Rightarrow> contract \<Rightarrow> bool" where
  "is_quoted asOf c \<longleftrightarrow> \<not> cIV c \<le> 0 \<and> \<not> isl (DTE c asOf)"

text \<open>Pass 1: the quoted strikes of every group, a list of groups keyed by string.\<close>

definition quote_step ::
    "bool \<Rightarrow> instant \<Rightarrow> contract \<Rightarrow> (string \<times> strike_quote list) list \<Rightarrow> (string \<times> strike_quote list) list" where
  "quote_step multi asOf c groups =
     (if \<not> is_quoted asOf c then groups
      else upsert (\<lambda>g. fst g = blend_key multi c)
             (\<lambda>g. (fst g, upsert (\<lambda>q. feq (sqStrike q) (cStrike c)) (add_quote c) (new_quote c) (snd g)))
             (blend_key multi c, []) groups)"

text \<open>
  Pass 2: the quoted strike nearest the spot in every group, in ascending strikes; the
  running distance starts at the largest finite float.
\<close>

definition atm_step :: "f64 \<Rightarrow> strike_quote \<Rightarrow> f64 \<times> strike_quote option \<Rightarrow> f64 \<times> strike_quote option" where
  "atm_step spot q st =
     (let d = \<bar>sqStrike q - spot\<bar> in if d < fst st then (d, Some q) else st)"

definition atm_ref :: "f64 \<Rightarrow> strike_quote list \<Rightarrow> (f64 \<times> quote) option" where
  "atm_ref spot qs =
     (case snd (fold (atm_step spot) (sort_key (fkey \<circ> sqStrike) qs) (Fin max_finite, None)) of
        None \<Rightarrow> None
      | Some q \<Rightarrow> Some (sqSumIV q / f64_of_int (sqN q), \<lparr>qBid = sqBid q, qAsk = sqAsk q, qOK = sqOk q\<rparr>))"

definition zero_quote :: quote where
  "zero_quote = \<lparr>qBid = 0, qAsk = 0, qOK = False\<rparr>"

text \<open>Pass 3: one volatility per contract of the chain.\<close>

definition blended_vol ::
    "book_inputs \<Rightarrow> bool \<Rightarrow> (string \<times> strike_quote list) list \<Rightarrow> contract \<Rightarrow> f64" where
  "blended_vol inp multi groups c =
     (case DTE c (biAsOf inp) of
        Inl _ \<Rightarrow> biSigma inp 1
      | Inr dte \<Rightarrow>
          if dte < 1 then biSigma inp 1
          else case (case map_of groups (blend_key multi c) of
                       None \<Rightarrow> None | Some qs \<Rightarrow> atm_ref (biSpot inp) qs) of
                 None \<Rightarrow> BlendSkewCarrier (cIV c) 0 (biSigma inp dte) (dte / lit 365)
                           (QuoteOf (cBid c) (cAsk c)) zero_quote
               | Some (iv, q) \<Rightarrow> BlendSkewCarrier (cIV c) iv (biSigma inp dte) (dte / lit 365)
                           (QuoteOf (cBid c) (cAsk c)) q)"

definition blendedVols :: "book_inputs \<Rightarrow> bool \<Rightarrow> f64 list" where
  "blendedVols inp multi =
     (let cs = chContracts (biChain inp); groups = fold (quote_step multi (biAsOf inp)) cs []
      in map (blended_vol inp multi groups) cs)"

definition live_vols :: "book_inputs \<Rightarrow> f64 list option" where
  "live_vols inp = (if biLiveBlend inp then Some (blendedVols inp (multi_class (biChain inp))) else None)"

section \<open>Pricing one contract\<close>

record priced =
  pContract :: contract
  pDte :: f64
  pSigmaBar :: f64
  pGex :: f64
  pDex :: f64
  pVex :: f64
  pChex :: f64
  pSkew :: "skew_point option"

definition vol_at :: "book_inputs \<Rightarrow> f64 list option \<Rightarrow> nat \<Rightarrow> f64 \<Rightarrow> f64" where
  "vol_at inp vols i dte = (case vols of None \<Rightarrow> biSigma inp dte | Some vs \<Rightarrow> vs ! i)"

definition greeks_of :: "book_inputs \<Rightarrow> f64 \<Rightarrow> contract \<Rightarrow> f64 \<Rightarrow> f64 \<Rightarrow> solver_error + greeks" where
  "greeks_of inp spot c dte vol =
     ComputeGreeks spot (cStrike c) (dte / lit 365) (biR inp) (biQ inp) vol (cRight c)"

text \<open>
  The body of the pricing loop up to the accumulation: \<open>Inr None\<close> is the \<^verbatim>\<open>continue\<close> of an
  expired or same-day contract.
\<close>

definition price_contract ::
    "book_inputs \<Rightarrow> f64 list option \<Rightarrow> nat \<Rightarrow> contract \<Rightarrow> exposure_error + priced option" where
  "price_contract inp vols i c =
     (case DTE c (biAsOf inp) of
        Inl e \<Rightarrow> Inl (EDate e)
      | Inr dte \<Rightarrow>
          if dte < 1 then Inr None
          else case greeks_of inp (biSpot inp) c dte (vol_at inp vols i dte) of
                 Inl e \<Rightarrow> Inl (ESolver e)
               | Inr g \<Rightarrow>
                   let q = DealerQty c; mult = cMultiplier c; spot = biSpot inp;
                       p = \<lparr>pContract = c, pDte = dte, pSigmaBar = biSigma inp dte,
                            pGex = GEX q (gGamma g) spot mult, pDex = DEX q (gDelta g) spot mult,
                            pVex = VEX q (gVanna g) spot mult, pChex = CHEX q (gCharm g) spot mult,
                            pSkew = None\<rparr>
                   in if cIV c > 0
                      then case greeks_of inp spot c dte (cIV c) of
                             Inl e \<Rightarrow> Inl (ESolver e)
                           | Inr gq \<Rightarrow> Inr (Some (p\<lparr>pSkew := Some \<lparr>skStrike = cStrike c, skRight = cRight c,
                                                          skIV = cIV c, skDelta = gDelta gq\<rparr>\<rparr>))
                      else Inr (Some p))"

section \<open>Accumulators\<close>

definition add_totals :: "priced \<Rightarrow> totals \<Rightarrow> totals" where
  "add_totals p t = \<lparr>tGEX = tGEX t + pGex p, tDEX = tDEX t + pDex p,
                     tVEX = tVEX t + pVex p, tCHEX = tCHEX t + pChex p\<rparr>"

definition is_call :: "priced \<Rightarrow> bool" where
  "is_call p \<longleftrightarrow> cRight (pContract p) = RightCall"

definition pStrike :: "priced \<Rightarrow> f64" where "pStrike p = cStrike (pContract p)"

definition new_strike :: "priced \<Rightarrow> strike_exposure" where
  "new_strike p = \<lparr>seStrike = pStrike p, seCallGEX = 0, sePutGEX = 0, seNetGEX = 0\<rparr>"

definition add_strike :: "priced \<Rightarrow> strike_exposure \<Rightarrow> strike_exposure" where
  "add_strike p se =
     (if is_call p then se\<lparr>seCallGEX := seCallGEX se + pGex p, seNetGEX := seNetGEX se + pGex p\<rparr>
      else se\<lparr>sePutGEX := sePutGEX se + pGex p, seNetGEX := seNetGEX se + pGex p\<rparr>)"

definition strike_step :: "priced \<Rightarrow> strike_exposure list \<Rightarrow> strike_exposure list" where
  "strike_step p = upsert (\<lambda>se. feq (seStrike se) (pStrike p)) (add_strike p) (new_strike p)"

record expiry_acc =
  eaKey :: string
  eaGex :: expiry_gex
  eaStrikes :: "strike_exposure list"
  eaSkew :: "skew_point list"

definition exp_key :: "priced \<Rightarrow> string" where
  "exp_key p = cExpiryDate (pContract p) @ [nul] @ cTradingClass (pContract p)"

definition new_expiry :: "bool \<Rightarrow> priced \<Rightarrow> expiry_acc" where
  "new_expiry multi p =
     \<lparr>eaKey = exp_key p,
      eaGex = \<lparr>egExpiry = cExpiryDate (pContract p), egDTE = pDte p, egSigmaBar = pSigmaBar p,
               egTotals = zero_totals, egPerStrike = [], egSkew = [],
               egClass = (if multi then cTradingClass (pContract p) else [])\<rparr>,
      eaStrikes = [], eaSkew = []\<rparr>"

definition add_expiry :: "priced \<Rightarrow> expiry_acc \<Rightarrow> expiry_acc" where
  "add_expiry p ea =
     ea\<lparr>eaGex := (eaGex ea)\<lparr>egTotals := add_totals p (egTotals (eaGex ea))\<rparr>,
        eaStrikes := strike_step p (eaStrikes ea),
        eaSkew := eaSkew ea @ (case pSkew p of None \<Rightarrow> [] | Some sk \<Rightarrow> [sk])\<rparr>"

definition expiry_step :: "bool \<Rightarrow> priced \<Rightarrow> expiry_acc list \<Rightarrow> expiry_acc list" where
  "expiry_step multi p = upsert (\<lambda>ea. eaKey ea = exp_key p) (add_expiry p) (new_expiry multi p)"

record class_acc =
  caGex :: class_gex
  caStrikes :: "strike_exposure list"
  caHasCalls :: bool
  caHasPuts :: bool

definition pClass :: "priced \<Rightarrow> string" where "pClass p = cTradingClass (pContract p)"

definition new_class :: "priced \<Rightarrow> class_acc" where
  "new_class p =
     \<lparr>caGex = \<lparr>cgTradingClass = pClass p, cgSettlement = SettlementOf (pContract p), cgContracts = 0,
               cgTotals = zero_totals, cgCallWall = zero_wall, cgPutWall = zero_wall, cgPerStrike = []\<rparr>,
      caStrikes = [], caHasCalls = False, caHasPuts = False\<rparr>"

definition add_class :: "priced \<Rightarrow> class_acc \<Rightarrow> class_acc" where
  "add_class p ca =
     ca\<lparr>caGex := (caGex ca)\<lparr>cgContracts := cgContracts (caGex ca) + 1,
                            cgTotals := add_totals p (cgTotals (caGex ca))\<rparr>,
        caStrikes := strike_step p (caStrikes ca),
        caHasCalls := caHasCalls ca \<or> is_call p,
        caHasPuts := caHasPuts ca \<or> \<not> is_call p\<rparr>"

definition class_step :: "priced \<Rightarrow> class_acc list \<Rightarrow> class_acc list" where
  "class_step p = upsert (\<lambda>ca. cgTradingClass (caGex ca) = pClass p) (add_class p) (new_class p)"

record book_acc =
  baTotals :: totals
  baStrikes :: "strike_exposure list"
  baHasCalls :: bool
  baHasPuts :: bool
  baExpiries :: "expiry_acc list"
  baClasses :: "class_acc list"

definition zero_acc :: book_acc where
  "zero_acc = \<lparr>baTotals = zero_totals, baStrikes = [], baHasCalls = False, baHasPuts = False,
               baExpiries = [], baClasses = []\<rparr>"

definition accumulate :: "bool \<Rightarrow> priced \<Rightarrow> book_acc \<Rightarrow> book_acc" where
  "accumulate multi p acc =
     \<lparr>baTotals = add_totals p (baTotals acc),
      baStrikes = strike_step p (baStrikes acc),
      baHasCalls = (baHasCalls acc \<or> is_call p),
      baHasPuts = (baHasPuts acc \<or> \<not> is_call p),
      baExpiries = expiry_step multi p (baExpiries acc),
      baClasses = (if multi then class_step p (baClasses acc) else baClasses acc)\<rparr>"

definition book_step ::
    "book_inputs \<Rightarrow> f64 list option \<Rightarrow> bool \<Rightarrow> nat \<times> contract \<Rightarrow> book_acc \<Rightarrow> exposure_error + book_acc" where
  "book_step inp vols multi ic acc =
     bind_res (price_contract inp vols (fst ic) (snd ic))
       (\<lambda>r. Inr (case r of None \<Rightarrow> acc | Some p \<Rightarrow> accumulate multi p acc))"

definition book_loop :: "book_inputs \<Rightarrow> f64 list option \<Rightarrow> bool \<Rightarrow> exposure_error + book_acc" where
  "book_loop inp vols multi =
     fold_res (book_step inp vols multi) (enumerate 0 (chContracts (biChain inp))) zero_acc"

section \<open>Walls\<close>

definition call_step :: "strike_exposure \<Rightarrow> wall \<Rightarrow> wall" where
  "call_step se w =
     (if \<not> wHasWall w \<or> seCallGEX se > wBestGEX w
      then \<lparr>wStrike = seStrike se, wHasWall = True, wBestGEX = seCallGEX se\<rparr> else w)"

definition put_step :: "strike_exposure \<Rightarrow> wall \<Rightarrow> wall" where
  "put_step se w =
     (if \<not> wHasWall w \<or> sePutGEX se < wBestGEX w
      then \<lparr>wStrike = seStrike se, wHasWall = True, wBestGEX = sePutGEX se\<rparr> else w)"

definition findWalls :: "strike_exposure list \<Rightarrow> bool \<Rightarrow> bool \<Rightarrow> wall \<times> wall" where
  "findWalls perStrike hasCalls hasPuts =
     (if hasCalls then fold call_step perStrike zero_wall else zero_wall,
      if hasPuts then fold put_step perStrike zero_wall else zero_wall)"

section \<open>The flip\<close>

definition flipPoints :: nat where "flipPoints = 81"
definition flipSpan :: real where "flipSpan = 20 / 100"

definition gex_step ::
    "book_inputs \<Rightarrow> f64 \<Rightarrow> f64 list option \<Rightarrow> nat \<times> contract \<Rightarrow> f64 \<Rightarrow> exposure_error + f64" where
  "gex_step inp spot vols ic tot =
     (let c = snd ic in
      case DTE c (biAsOf inp) of
        Inl e \<Rightarrow> Inl (EDate e)
      | Inr dte \<Rightarrow>
          if dte < 1 then Inr tot
          else case greeks_of inp spot c dte (vol_at inp vols (fst ic) dte) of
                 Inl e \<Rightarrow> Inl (ESolver e)
               | Inr g \<Rightarrow> Inr (tot + GEX (DealerQty c) (gGamma g) spot (cMultiplier c)))"

definition totalGEXAt :: "book_inputs \<Rightarrow> f64 \<Rightarrow> f64 list option \<Rightarrow> exposure_error + f64" where
  "totalGEXAt inp spot vols =
     fold_res (gex_step inp spot vols) (enumerate 0 (chContracts (biChain inp))) 0"

definition flip_spot :: "f64 \<Rightarrow> nat \<Rightarrow> f64" where
  "flip_spot spot i =
     (let lo = spot * lit (1 - flipSpan); hi = spot * lit (1 + flipSpan)
      in lo + (hi - lo) * f64_of_int (int i) / lit (of_nat flipPoints - 1))"

definition flip_profile :: "book_inputs \<Rightarrow> f64 list option \<Rightarrow> exposure_error + spot_gex_point list" where
  "flip_profile inp vols =
     map_res (\<lambda>i. bind_res (totalGEXAt inp (flip_spot (biSpot inp) i) vols)
                    (\<lambda>t. Inr \<lparr>sgSpot = flip_spot (biSpot inp) i, sgTotalGEX = t\<rparr>)) [0..<flipPoints]"

definition sign_change :: "spot_gex_point list \<Rightarrow> nat \<Rightarrow> bool" where
  "sign_change prof i \<longleftrightarrow> (sgTotalGEX (prof ! i) > 0) \<noteq> (sgTotalGEX (prof ! Suc i) > 0)"

definition mid_distance :: "f64 \<Rightarrow> spot_gex_point list \<Rightarrow> nat \<Rightarrow> f64" where
  "mid_distance spot prof i = \<bar>(sgSpot (prof ! i) + sgSpot (prof ! Suc i)) / lit 2 - spot\<bar>"

definition nearest_step ::
    "f64 \<Rightarrow> spot_gex_point list \<Rightarrow> nat \<Rightarrow> f64 \<times> nat option \<Rightarrow> f64 \<times> nat option" where
  "nearest_step spot prof i st =
     (if sign_change prof i \<and> mid_distance spot prof i < fst st
      then (mid_distance spot prof i, Some i) else st)"

definition nearest_bracket :: "f64 \<Rightarrow> spot_gex_point list \<Rightarrow> nat option" where
  "nearest_bracket spot prof =
     snd (fold (nearest_step spot prof) [0..<length prof - 1] (Fin max_finite, None))"

definition gex_objective :: "book_inputs \<Rightarrow> f64 list option \<Rightarrow> f64 \<Rightarrow> f64" where
  "gex_objective inp vols s = (case totalGEXAt inp s vols of Inl _ \<Rightarrow> NaN | Inr t \<Rightarrow> t)"

definition FindFlip :: "book_inputs \<Rightarrow> f64 list option \<Rightarrow> exposure_error + flip_result" where
  "FindFlip inp vols =
     bind_res (flip_profile inp vols) (\<lambda>prof.
       case nearest_bracket (biSpot inp) prof of
         None \<Rightarrow> Inr \<lparr>frHasFlip = False, frFlipSpot = 0, frProfile = prof\<rparr>
       | Some i \<Rightarrow>
           (case FindRoot (gex_objective inp vols) (sgSpot (prof ! i)) (sgSpot (prof ! Suc i))
                   (lit DefaultTol) DefaultMaxIter of
              Inl e \<Rightarrow> Inl (ERoot e)
            | Inr z \<Rightarrow> Inr \<lparr>frHasFlip = True, frFlipSpot = z, frProfile = prof\<rparr>))"

section \<open>ComputeSnapshot\<close>

text \<open>
  Reading the accumulators back in key order: a key that the map does not find is the
  nil dereference of the source.
\<close>

definition read_strikes :: "strike_exposure list \<Rightarrow> exposure_error + strike_exposure list" where
  "read_strikes ss =
     map_res (\<lambda>k. case find (\<lambda>se. feq (seStrike se) k) ss of None \<Rightarrow> Inl EPanic | Some se \<Rightarrow> Inr se)
       (sort_key fkey (map seStrike ss))"

text \<open>
  The skew points of an expiry are sorted by strike and right. \<^verbatim>\<open>slices.SortFunc\<close> leaves the order of equal
  points open; here they keep the order of the contracts. Points are equal in the key only where one
  expiry has two quoted contracts of the same strike and right, as with two trading classes;
  no other level reads the order.
\<close>

definition skew_key :: "skew_point \<Rightarrow> (nat \<times> real) \<times> string" where
  "skew_key sk = (fkey (skStrike sk), skRight sk)"

definition finish_expiry :: "expiry_acc \<Rightarrow> exposure_error + expiry_gex" where
  "finish_expiry ea =
     bind_res (read_strikes (eaStrikes ea)) (\<lambda>ss.
       Inr ((eaGex ea)\<lparr>egPerStrike := ss, egSkew := sort_key skew_key (eaSkew ea)\<rparr>))"

definition finish_class :: "class_acc \<Rightarrow> exposure_error + class_gex" where
  "finish_class ca =
     bind_res (read_strikes (caStrikes ca)) (\<lambda>ss.
       case findWalls ss (caHasCalls ca) (caHasPuts ca) of (cw, pw) \<Rightarrow>
         Inr ((caGex ca)\<lparr>cgPerStrike := ss, cgCallWall := cw, cgPutWall := pw\<rparr>))"

definition base_snapshot ::
    "book_inputs \<Rightarrow> book_acc \<Rightarrow> strike_exposure list \<Rightarrow> expiry_gex list \<Rightarrow> class_gex list \<Rightarrow> snapshot" where
  "base_snapshot inp acc ss es cs =
     (case findWalls ss (baHasCalls acc) (baHasPuts acc) of (cw, pw) \<Rightarrow>
      \<lparr>snTicker = chTicker (biChain inp), snAsOfMs = chAsOfMs (biChain inp), snSpot = biSpot inp,
       snTotals = baTotals acc, snCallWall = cw, snPutWall = pw,
       snHasGammaFlip = False, snGammaFlipSpot = 0, snRegime = RegimeFor (tGEX (baTotals acc)),
       snPerStrike = ss, snPerExpiry = es, snSpotProfile = [], snClasses = cs\<rparr>)"

definition with_flip :: "flip_result \<Rightarrow> snapshot \<Rightarrow> snapshot" where
  "with_flip fl sn = sn\<lparr>snHasGammaFlip := frHasFlip fl, snGammaFlipSpot := frFlipSpot fl,
                        snSpotProfile := frProfile fl\<rparr>"

definition ComputeSnapshot :: "book_inputs \<Rightarrow> exposure_error + snapshot" where
  "ComputeSnapshot inp =
     (let multi = multi_class (biChain inp); vols = live_vols inp
      in bind_res (book_loop inp vols multi) (\<lambda>acc.
         if baStrikes acc = [] then Inl ENoContracts
         else bind_res (read_strikes (baStrikes acc)) (\<lambda>ss.
              bind_res (map_res finish_expiry (sort_key eaKey (baExpiries acc))) (\<lambda>es.
              bind_res (if multi then map_res finish_class (sort_key (cgTradingClass \<circ> caGex) (baClasses acc))
                        else Inr []) (\<lambda>cs.
              let sn = base_snapshot inp acc ss es cs
              in if biSkipFlip inp then Inr sn
                 else bind_res (FindFlip inp vols) (\<lambda>fl. Inr (with_flip fl sn)))))))"

section \<open>Per-leg deltas\<close>

record leg_ref =
  lrConId :: int
  lrTradingClass :: string
  lrExpiry :: string
  lrRight :: string
  lrStrike :: f64

record leg_price =
  lpDelta :: f64
  lpMultiplier :: f64
  lpOk :: bool

definition zero_price :: leg_price where
  "zero_price = \<lparr>lpDelta = 0, lpMultiplier = 0, lpOk = False\<rparr>"

text \<open>
  The lookup key of an unresolved leg. The source joins the parts with NUL bytes, the
  strike in its shortest decimal form; the model keeps the tuple.
\<close>

definition leg_key :: "contract \<Rightarrow> string \<times> string \<times> string \<times> f64" where
  "leg_key c = (cTradingClass c, cExpiryDate c, cRight c, cStrike c)"

definition ref_key :: "leg_ref \<Rightarrow> string \<times> string \<times> string \<times> f64" where
  "ref_key r = (lrTradingClass r, lrExpiry r, lrRight r, lrStrike r)"

text \<open>The last contract with a conId wins, the first with a key wins.\<close>

definition by_con :: "contract list \<Rightarrow> int \<Rightarrow> nat option" where
  "by_con cs k = (if k = 0 then None else find (\<lambda>i. cConId (cs ! i) = k) (rev [0..<length cs]))"

definition by_key :: "contract list \<Rightarrow> string \<times> string \<times> string \<times> f64 \<Rightarrow> nat option" where
  "by_key cs k = find (\<lambda>i. leg_key (cs ! i) = k) [0..<length cs]"

definition resolve_leg :: "contract list \<Rightarrow> leg_ref \<Rightarrow> nat option" where
  "resolve_leg cs r =
     (case by_con cs (lrConId r) of Some i \<Rightarrow> Some i | None \<Rightarrow> by_key cs (ref_key r))"

definition price_leg :: "book_inputs \<Rightarrow> f64 list option \<Rightarrow> leg_ref \<Rightarrow> leg_price" where
  "price_leg inp vols r =
     (let cs = chContracts (biChain inp)
      in case resolve_leg cs r of
           None \<Rightarrow> zero_price
         | Some i \<Rightarrow>
             (case DTE (cs ! i) (biAsOf inp) of
                Inl _ \<Rightarrow> zero_price
              | Inr dte \<Rightarrow>
                  if dte < 1 then zero_price
                  else case greeks_of inp (biSpot inp) (cs ! i) dte (vol_at inp vols i dte) of
                         Inl _ \<Rightarrow> zero_price
                       | Inr g \<Rightarrow> \<lparr>lpDelta = gDelta g, lpMultiplier = cMultiplier (cs ! i), lpOk = True\<rparr>))"

definition ContractDeltas :: "book_inputs \<Rightarrow> leg_ref list \<Rightarrow> leg_price list" where
  "ContractDeltas inp refs = map (price_leg inp (live_vols inp)) refs"

end
