(* ===== verification/Exposure_Book.thy ===== *)
theory Exposure_Book
  imports Exposure
begin

text \<open>
  What \<^verbatim>\<open>ComputeSnapshot\<close> computes: the three families of accumulators are instances of
  \<open>grouping\<close>, so the finished snapshot is a fold over the live contracts of the chain,
  of each strike, of each expiry and of each trading class, in chain order; the walls
  are instances of \<open>best_scan\<close>.
\<close>

section \<open>The accumulators as groupings\<close>

interpretation st: grouping feq seStrike pStrike new_strike add_strike
  by unfold_locales (simp_all add: new_strike_def add_strike_def)

interpretation ex: grouping "(=)" eaKey exp_key "new_expiry multi" add_expiry for multi
  by unfold_locales (simp_all add: new_expiry_def add_expiry_def)

interpretation cl: grouping "(=)" "\<lambda>ca. cgTradingClass (caGex ca)" pClass new_class add_class
  by unfold_locales (simp_all add: new_class_def add_class_def)

lemma step_groups:
  "strike_step = st.group_step" "expiry_step multi = ex.group_step multi" "class_step = cl.group_step"
  by (simp_all add: fun_eq_iff strike_step_def st.group_step_def expiry_step_def ex.group_step_def
      class_step_def cl.group_step_def)

text \<open>The live contracts of a book, priced, in chain order.\<close>

definition priced_live :: "book_inputs \<Rightarrow> f64 list option \<Rightarrow> priced list" where
  "priced_live inp vols =
     List.map_filter (\<lambda>ic. case price_contract inp vols (fst ic) (snd ic) of Inr r \<Rightarrow> r | Inl _ \<Rightarrow> None)
       (enumerate 0 (chContracts (biChain inp)))"

lemma fold_book_step:
  "fold_res (book_step inp vols multi) ics acc = Inr acc' \<Longrightarrow>
     acc' = fold (accumulate multi) (List.map_filter
       (\<lambda>ic. case price_contract inp vols (fst ic) (snd ic) of Inr r \<Rightarrow> r | Inl _ \<Rightarrow> None) ics) acc"
proof (induction ics arbitrary: acc)
  case Nil
  then show ?case by (simp add: List.map_filter_def)
next
  case (Cons ic ics)
  then show ?case
    by (cases "price_contract inp vols (fst ic) (snd ic)")
      (auto simp: book_step_def List.map_filter_def split: option.splits)
qed

lemma book_loop_Inr:
  "book_loop inp vols multi = Inr acc \<Longrightarrow> acc = fold (accumulate multi) (priced_live inp vols) zero_acc"
  unfolding book_loop_def priced_live_def by (rule fold_book_step)

lemma fold_accumulate:
  "fold (accumulate multi) ps acc =
     \<lparr>baTotals = fold add_totals ps (baTotals acc),
      baStrikes = fold strike_step ps (baStrikes acc),
      baHasCalls = (baHasCalls acc \<or> list_ex is_call ps),
      baHasPuts = (baHasPuts acc \<or> list_ex (\<lambda>p. \<not> is_call p) ps),
      baExpiries = fold (expiry_step multi) ps (baExpiries acc),
      baClasses = (if multi then fold class_step ps (baClasses acc) else baClasses acc)\<rparr>"
  by (induction ps arbitrary: acc) (auto simp: accumulate_def)

section \<open>Closed forms of the accumulators\<close>

definition strike_of :: "priced list \<Rightarrow> f64 \<Rightarrow> strike_exposure" where
  "strike_of ps k = fold add_strike (filter (\<lambda>p. pStrike p = k) ps)
     \<lparr>seStrike = k, seCallGEX = 0, sePutGEX = 0, seNetGEX = 0\<rparr>"

definition strikes_of :: "priced list \<Rightarrow> strike_exposure list" where
  "strikes_of ps = map (strike_of ps) (sort_key fkey (firsts [] (map pStrike ps)))"

definition expiry_of :: "bool \<Rightarrow> priced list \<Rightarrow> string \<Rightarrow> expiry_gex" where
  "expiry_of multi ps k =
     (let ys = filter (\<lambda>p. exp_key p = k) ps; y = hd ys
      in \<lparr>egExpiry = cExpiryDate (pContract y), egDTE = pDte y, egSigmaBar = pSigmaBar y,
          egTotals = fold add_totals ys zero_totals, egPerStrike = strikes_of ys,
          egSkew = sort_key skew_key (List.map_filter pSkew ys),
          egClass = (if multi then cTradingClass (pContract y) else [])\<rparr>)"

definition class_of :: "priced list \<Rightarrow> string \<Rightarrow> class_gex" where
  "class_of ps k =
     (let ys = filter (\<lambda>p. pClass p = k) ps;
          (cw, pw) = findWalls (strikes_of ys) (list_ex is_call ys) (list_ex (\<lambda>p. \<not> is_call p) ys)
      in \<lparr>cgTradingClass = k, cgSettlement = SettlementOf (pContract (hd ys)),
          cgContracts = int (length ys), cgTotals = fold add_totals ys zero_totals,
          cgCallWall = cw, cgPutWall = pw, cgPerStrike = strikes_of ys\<rparr>)"

definition no_nan_strikes :: "priced list \<Rightarrow> bool" where
  "no_nan_strikes ps \<longleftrightarrow> (\<forall>p \<in> set ps. pStrike p \<noteq> NaN)"

lemma st_proper: "no_nan_strikes ps \<Longrightarrow> st.proper ps"
  by (auto simp: st.proper_def no_nan_strikes_def feq_def)

lemma st_group_of: assumes "k \<in> pStrike ` set ps" shows "st.group_of ps k = strike_of ps k"
proof -
  let ?ys = "filter (\<lambda>p. pStrike p = k) ps"
  have "?ys \<noteq> []" using assms by (auto simp: filter_empty_conv)
  then have "hd ?ys \<in> set ?ys" by (rule hd_in_set)
  then show ?thesis by (simp add: st.group_of_def strike_of_def Let_def new_strike_def)
qed

lemma strikes_closed:
  assumes "no_nan_strikes ps"
  shows "fold strike_step ps [] = map (strike_of ps) (firsts [] (map pStrike ps))"
proof -
  have "fold strike_step ps [] = map (st.group_of ps) (firsts [] (map pStrike ps))"
    unfolding step_groups by (rule st.group_closed [OF st_proper [OF assms]])
  also have "\<dots> = map (strike_of ps) (firsts [] (map pStrike ps))"
    by (intro map_cong refl st_group_of) (simp add: set_firsts)
  finally show ?thesis .
qed

lemma seStrike_strike_of [simp]: "seStrike (strike_of ps k) = k"
  unfolding strike_of_def using st.fold_add_key by simp

lemma map_sort_key_same: "map seStrike (map (strike_of ps) ks) = ks"
  by (simp add: map_idI)

lemma find_distinct:
  assumes "distinct ks" "k \<in> set ks" "k \<noteq> NaN"
  shows "find (\<lambda>se. feq (seStrike se) k) (map (strike_of ps) ks) = Some (strike_of ps k)"
  using assms by (induction ks) (auto simp: feq_def)

lemma read_strikes_closed:
  assumes "no_nan_strikes ps"
  shows "read_strikes (fold strike_step ps []) = Inr (strikes_of ps)"
proof -
  let ?ks = "firsts [] (map pStrike ps)"
  have nn: "k \<noteq> NaN" if "k \<in> set ?ks" for k
    using that assms by (auto simp: set_firsts no_nan_strikes_def)
  have "read_strikes (map (strike_of ps) ?ks) = Inr (map (strike_of ps) (sort_key fkey ?ks))"
    unfolding read_strikes_def map_sort_key_same
    by (rule map_res_total) (simp add: find_distinct distinct_firsts nn)
  then show ?thesis by (simp add: strikes_closed [OF assms] strikes_of_def)
qed

lemma no_nan_filter: "no_nan_strikes ps \<Longrightarrow> no_nan_strikes (filter P ps)"
  by (simp add: no_nan_strikes_def)

lemma fold_add_expiry:
  "fold add_expiry ys ea =
     ea\<lparr>eaGex := (eaGex ea)\<lparr>egTotals := fold add_totals ys (egTotals (eaGex ea))\<rparr>,
        eaStrikes := fold strike_step ys (eaStrikes ea),
        eaSkew := eaSkew ea @ List.map_filter pSkew ys\<rparr>"
  by (induction ys arbitrary: ea) (auto simp: add_expiry_def List.map_filter_def split: option.splits)

lemma fold_add_class:
  "fold add_class ys ca =
     ca\<lparr>caGex := (caGex ca)\<lparr>cgContracts := cgContracts (caGex ca) + int (length ys),
                            cgTotals := fold add_totals ys (cgTotals (caGex ca))\<rparr>,
        caStrikes := fold strike_step ys (caStrikes ca),
        caHasCalls := caHasCalls ca \<or> list_ex is_call ys,
        caHasPuts := caHasPuts ca \<or> list_ex (\<lambda>p. \<not> is_call p) ys\<rparr>"
  by (induction ys arbitrary: ca) (auto simp: add_class_def)

lemma finish_expiry_closed:
  assumes "no_nan_strikes ps"
  shows "finish_expiry (ex.group_of multi ps k) = Inr (expiry_of multi ps k)"
  using read_strikes_closed [OF no_nan_filter [OF assms], of "\<lambda>p. exp_key p = k"]
  by (simp add: finish_expiry_def ex.group_of_def fold_add_expiry new_expiry_def expiry_of_def Let_def)

lemma finish_class_closed:
  assumes "no_nan_strikes ps" "k \<in> pClass ` set ps"
  shows "finish_class (cl.group_of ps k) = Inr (class_of ps k)"
proof -
  let ?ys = "filter (\<lambda>p. pClass p = k) ps"
  have "?ys \<noteq> []" using assms(2) by (auto simp: filter_empty_conv)
  then have "pClass (hd ?ys) = k" using hd_in_set by fastforce
  then show ?thesis
    using read_strikes_closed [OF no_nan_filter [OF assms(1)], of "\<lambda>p. pClass p = k"]
    by (simp add: finish_class_def cl.group_of_def fold_add_class new_class_def class_of_def Let_def
        split: prod.splits)
qed

lemma expiries_closed:
  "fold (expiry_step multi) ps [] = map (ex.group_of multi ps) (firsts [] (map exp_key ps))"
  unfolding step_groups by (rule ex.group_closed) (simp add: ex.proper_def)

lemma classes_closed:
  "fold class_step ps [] = map (cl.group_of ps) (firsts [] (map pClass ps))"
  unfolding step_groups by (rule cl.group_closed) (simp add: cl.proper_def)

lemma insort_same_key:
  "key (f x) = x \<Longrightarrow> \<forall>k \<in> set ks. key (f k) = k \<Longrightarrow> insort_key key (f x) (map f ks) = map f (insort x ks)"
  by (induction ks) simp_all

lemma sort_key_same_key:
  "\<forall>k \<in> set ks. key (f k) = k \<Longrightarrow> sort_key key (map f ks) = map f (sort ks)"
  by (induction ks) (simp_all add: insort_same_key)

lemma finish_expiries:
  assumes "no_nan_strikes ps"
  shows "map_res finish_expiry (sort_key eaKey (fold (expiry_step multi) ps [])) =
    Inr (map (expiry_of multi ps) (sort (firsts [] (map exp_key ps))))"
proof -
  have "sort_key eaKey (fold (expiry_step multi) ps []) =
      map (ex.group_of multi ps) (sort (firsts [] (map exp_key ps)))"
    unfolding expiries_closed by (rule sort_key_same_key) (simp add: set_firsts ex.group_of_key)
  moreover have "map_res finish_expiry (map (ex.group_of multi ps) ks) = Inr (map (expiry_of multi ps) ks)" for ks
    by (induction ks) (simp_all add: finish_expiry_closed [OF assms])
  ultimately show ?thesis by simp
qed

lemma finish_classes:
  assumes "no_nan_strikes ps"
  shows "map_res finish_class (sort_key (cgTradingClass \<circ> caGex) (fold class_step ps [])) =
    Inr (map (class_of ps) (sort (firsts [] (map pClass ps))))"
proof -
  have "sort_key (cgTradingClass \<circ> caGex) (fold class_step ps []) =
      map (cl.group_of ps) (sort (firsts [] (map pClass ps)))"
    unfolding classes_closed
    using cl.group_of_key by (intro sort_key_same_key) (simp add: set_firsts)
  moreover have "map_res finish_class (map (cl.group_of ps) ks) = Inr (map (class_of ps) ks)"
    if "set ks \<subseteq> pClass ` set ps" for ks
    using that by (induction ks) (simp_all add: finish_class_closed [OF assms])
  moreover have "set (sort (firsts [] (map pClass ps))) \<subseteq> pClass ` set ps" by (simp add: set_firsts)
  ultimately show ?thesis by simp
qed

section \<open>The snapshot\<close>

text \<open>
  A successful computation: its accumulators are the folds over the priced live
  contracts, of which there is at least one.
\<close>

lemma ComputeSnapshot_Inr:
  assumes "ComputeSnapshot inp = Inr sn"
  obtains acc ss es cs base where
    "acc = fold (accumulate (multi_class (biChain inp))) (priced_live inp (live_vols inp)) zero_acc"
    "baStrikes acc \<noteq> []"
    "read_strikes (baStrikes acc) = Inr ss"
    "map_res finish_expiry (sort_key eaKey (baExpiries acc)) = Inr es"
    "(if multi_class (biChain inp)
      then map_res finish_class (sort_key (cgTradingClass \<circ> caGex) (baClasses acc)) else Inr []) = Inr cs"
    "base = base_snapshot inp acc ss es cs"
    "biSkipFlip inp \<and> sn = base \<or>
     \<not> biSkipFlip inp \<and> (\<exists>fl. FindFlip inp (live_vols inp) = Inr fl \<and> sn = with_flip fl base)"
  using assms book_loop_Inr
  by (auto simp: ComputeSnapshot_def Let_def bind_res_Inr_iff split: if_splits)

lemma FindFlip_profile:
  assumes "FindFlip inp vols = Inr fl"
  obtains prof where "flip_profile inp vols = Inr prof" "frProfile fl = prof"
proof (cases "flip_profile inp vols")
  case (Inl e)
  then show thesis using assms by (simp add: FindFlip_def)
next
  case (Inr prof)
  have "frProfile fl = prof"
  proof (cases "nearest_bracket (biSpot inp) prof")
    case None
    then show ?thesis using assms Inr by (auto simp: FindFlip_def)
  next
    case (Some i)
    then show ?thesis using assms Inr
      by (cases "FindRoot (gex_objective inp vols) (sgSpot (prof ! i)) (sgSpot (prof ! Suc i))
            (lit DefaultTol) DefaultMaxIter") (auto simp: FindFlip_def)
  qed
  then show thesis using that Inr by blast
qed

definition same_levels :: "snapshot \<Rightarrow> snapshot \<Rightarrow> bool" where
  "same_levels a b \<longleftrightarrow> a\<lparr>snHasGammaFlip := snHasGammaFlip b, snGammaFlipSpot := snGammaFlipSpot b,
     snSpotProfile := snSpotProfile b\<rparr> = b"

lemma same_levels_fields:
  "same_levels a b \<longleftrightarrow> snTicker a = snTicker b \<and> snAsOfMs a = snAsOfMs b \<and> snSpot a = snSpot b \<and>
     snTotals a = snTotals b \<and> snCallWall a = snCallWall b \<and> snPutWall a = snPutWall b \<and>
     snRegime a = snRegime b \<and> snPerStrike a = snPerStrike b \<and> snPerExpiry a = snPerExpiry b \<and>
     snClasses a = snClasses b"
  by (cases a; cases b) (auto simp: same_levels_def)

lemma ComputeSnapshot_levels:
  assumes "ComputeSnapshot inp = Inr sn"
  defines "ps \<equiv> priced_live inp (live_vols inp)" and "multi \<equiv> multi_class (biChain inp)"
  assumes nn: "no_nan_strikes ps"
  shows "ps \<noteq> []"
    and "snTotals sn = fold add_totals ps zero_totals"
    and "snPerStrike sn = strikes_of ps"
    and "snPerExpiry sn = map (expiry_of multi ps) (sort (firsts [] (map exp_key ps)))"
    and "snClasses sn = (if multi then map (class_of ps) (sort (firsts [] (map pClass ps))) else [])"
    and "(snCallWall sn, snPutWall sn) =
           findWalls (strikes_of ps) (list_ex is_call ps) (list_ex (\<lambda>p. \<not> is_call p) ps)"
    and "snRegime sn = RegimeFor (tGEX (snTotals sn))"
proof -
  obtain acc ss es cs base where c:
    "acc = fold (accumulate multi) ps zero_acc" "baStrikes acc \<noteq> []"
    "read_strikes (baStrikes acc) = Inr ss"
    "map_res finish_expiry (sort_key eaKey (baExpiries acc)) = Inr es"
    "(if multi then map_res finish_class (sort_key (cgTradingClass \<circ> caGex) (baClasses acc)) else Inr []) = Inr cs"
    "base = base_snapshot inp acc ss es cs"
    "biSkipFlip inp \<and> sn = base \<or>
     \<not> biSkipFlip inp \<and> (\<exists>fl. FindFlip inp (live_vols inp) = Inr fl \<and> sn = with_flip fl base)"
    using ComputeSnapshot_Inr [OF assms(1)] unfolding ps_def multi_def by metis
  have acc: "baTotals acc = fold add_totals ps zero_totals" "baStrikes acc = fold strike_step ps []"
    "baHasCalls acc = list_ex is_call ps" "baHasPuts acc = list_ex (\<lambda>p. \<not> is_call p) ps"
    "baExpiries acc = fold (expiry_step multi) ps []"
    "multi \<Longrightarrow> baClasses acc = fold class_step ps []"
    by (simp_all add: c(1) fold_accumulate zero_acc_def)
  have ss: "ss = strikes_of ps" using c(3) read_strikes_closed [OF nn] by (simp add: acc(2))
  have es: "es = map (expiry_of multi ps) (sort (firsts [] (map exp_key ps)))"
    using c(4) by (simp add: acc(5) finish_expiries [OF nn])
  have cs: "cs = (if multi then map (class_of ps) (sort (firsts [] (map pClass ps))) else [])"
    using c(5) acc(6) finish_classes [OF nn] by (cases multi) simp_all
  show "ps \<noteq> []" using c(2) by (auto simp: acc(2))
  have lv: "same_levels sn base"
    using c(7) by (auto simp: same_levels_fields with_flip_def)
  obtain cw pw where w: "findWalls (strikes_of ps) (list_ex is_call ps) (list_ex (\<lambda>p. \<not> is_call p) ps) = (cw, pw)"
    by fastforce
  show "snTotals sn = fold add_totals ps zero_totals" "snPerStrike sn = strikes_of ps"
    "snPerExpiry sn = map (expiry_of multi ps) (sort (firsts [] (map exp_key ps)))"
    "snClasses sn = (if multi then map (class_of ps) (sort (firsts [] (map pClass ps))) else [])"
    "(snCallWall sn, snPutWall sn) =
       findWalls (strikes_of ps) (list_ex is_call ps) (list_ex (\<lambda>p. \<not> is_call p) ps)"
    "snRegime sn = RegimeFor (tGEX (snTotals sn))"
    using lv by (simp_all add: same_levels_fields c(6) base_snapshot_def acc(1,3,4) ss es cs w)
qed

section \<open>When the snapshot is computed\<close>

lemma fold_res_ok:
  assumes "\<And>x s. x \<in> set xs \<Longrightarrow> \<exists>s'. f x s = Inr s'" shows "\<exists>s'. fold_res f xs s = Inr s'"
  using assms
proof (induction xs arbitrary: s)
  case Nil
  show ?case by simp
next
  case (Cons x xs)
  obtain s1 where "f x s = Inr s1" using Cons.prems [of x s] by auto
  then show ?case using Cons by simp
qed

lemma in_map_filter: "y \<in> set (List.map_filter f xs) \<longleftrightarrow> (\<exists>x \<in> set xs. f x = Some y)"
  by (induction xs) (auto simp: List.map_filter_def)

lemma priced_live_in:
  "p \<in> set (priced_live inp vols) \<longleftrightarrow>
     (\<exists>ic \<in> set (enumerate 0 (chContracts (biChain inp))). price_contract inp vols (fst ic) (snd ic) = Inr (Some p))"
  unfolding priced_live_def in_map_filter by (intro bex_cong refl) (simp split: sum.splits)

lemma snd_enumerate: "snd ` set (enumerate n cs) = set cs"
  by (metis list.set_map map_snd_enumerate)

lemma in_enumerate: assumes "ic \<in> set (enumerate n cs)" shows "snd ic \<in> set cs"
  using imageI [OF assms, of snd] by (simp only: snd_enumerate)

lemma price_contract_contract:
  "price_contract inp vols i c = Inr (Some p) \<Longrightarrow> pContract p = c"
  by (auto simp: price_contract_def Let_def split: sum.splits if_splits)

lemma ComputeSnapshot_ok:
  assumes priced: "\<And>i c. c \<in> set (chContracts (biChain inp)) \<Longrightarrow>
      \<exists>r. price_contract inp (live_vols inp) i c = Inr r"
    and live: "\<exists>c \<in> set (chContracts (biChain inp)). \<forall>i. price_contract inp (live_vols inp) i c \<noteq> Inr None"
    and nn: "\<And>c. c \<in> set (chContracts (biChain inp)) \<Longrightarrow> cStrike c \<noteq> NaN"
    and skip: "biSkipFlip inp"
  shows "\<exists>sn. ComputeSnapshot inp = Inr sn"
proof -
  let ?ps = "priced_live inp (live_vols inp)" and ?multi = "multi_class (biChain inp)"
  have "\<exists>acc. book_loop inp (live_vols inp) ?multi = Inr acc"
    unfolding book_loop_def
  proof (rule fold_res_ok)
    fix x s assume "x \<in> set (enumerate 0 (chContracts (biChain inp)))"
    then have "snd x \<in> set (chContracts (biChain inp))" by (rule in_enumerate)
    then obtain r where "price_contract inp (live_vols inp) (fst x) (snd x) = Inr r" using priced by blast
    then show "\<exists>s'. book_step inp (live_vols inp) ?multi x s = Inr s'" by (simp add: book_step_def)
  qed
  then obtain acc where acc: "book_loop inp (live_vols inp) ?multi = Inr acc" by blast
  note a = book_loop_Inr [OF acc]
  have n: "no_nan_strikes ?ps"
  proof -
    have "pStrike p \<noteq> NaN" if p: "p \<in> set ?ps" for p
    proof -
      obtain ic where ic: "ic \<in> set (enumerate 0 (chContracts (biChain inp)))"
        "price_contract inp (live_vols inp) (fst ic) (snd ic) = Inr (Some p)" using p priced_live_in by blast
      have "snd ic \<in> set (chContracts (biChain inp))" using ic(1) by (rule in_enumerate)
      then show ?thesis using nn price_contract_contract [OF ic(2)] by (simp add: pStrike_def)
    qed
    then show ?thesis by (simp add: no_nan_strikes_def)
  qed
  obtain c where c: "c \<in> set (chContracts (biChain inp))" "\<forall>i. price_contract inp (live_vols inp) i c \<noteq> Inr None"
    using live by blast
  have "c \<in> snd ` set (enumerate 0 (chContracts (biChain inp)))" using c(1) by (simp only: snd_enumerate)
  then obtain ic where i: "ic \<in> set (enumerate 0 (chContracts (biChain inp)))" "snd ic = c" by blast
  obtain r where r: "price_contract inp (live_vols inp) (fst ic) c = Inr r" using priced [OF c(1)] by blast
  then obtain p where "r = Some p" using c(2) by (cases r) simp_all
  then have "p \<in> set ?ps" using i r by (auto simp: priced_live_in)
  then have "set (firsts [] (map pStrike ?ps)) \<noteq> {}" by (auto simp: set_firsts)
  then have ne: "baStrikes acc \<noteq> []"
    unfolding a by (simp add: fold_accumulate zero_acc_def strikes_closed [OF n])
  have "map_res finish_expiry (sort_key eaKey (baExpiries acc)) =
      Inr (map (expiry_of ?multi ?ps) (sort (firsts [] (map exp_key ?ps))))"
    unfolding a by (simp add: fold_accumulate zero_acc_def finish_expiries [OF n])
  moreover have "map_res finish_class (sort_key (cgTradingClass \<circ> caGex) (baClasses acc)) =
      Inr (map (class_of ?ps) (sort (firsts [] (map pClass ?ps))))" if ?multi
    unfolding a using that finish_classes [OF n] by (simp add: fold_accumulate zero_acc_def)
  moreover have "read_strikes (baStrikes acc) = Inr (strikes_of ?ps)"
    unfolding a by (simp add: fold_accumulate zero_acc_def read_strikes_closed [OF n])
  ultimately show ?thesis
    using acc ne skip by (auto simp: ComputeSnapshot_def Let_def)
qed

end
