(* ===== verification/Flip_Demo.thy ===== *)
theory Flip_Demo
  imports Exposure_Book
begin

text \<open>
  A book on which the flip can be followed to its value: one call under an infinite rate and
  a carry that discounts the spot to the smallest positive number. Its exposure is zero at
  every point of the flip grid except the spot itself, where it is positive. The
  properties of the flip are applied to it.
\<close>

section \<open>The smallest positive number\<close>

definition least :: real where "least = 2 powi (- 1074)"

lemma least_pos: "0 < least"
  by (simp add: least_def)

lemma least_pow: "least = 1 / 2 ^ 1074"
  using powi_nat [of 1074] by (simp add: least_def power_int_minus inverse_eq_divide)

lemma least_multiple: assumes "\<bar>m\<bar> \<le> 2 ^ 53" shows "rnd (of_int m * least) = Fin (of_int m * least)"
  using rnd_dyadic [of m 1074] assms by (simp add: least_pow)

lemma rnd_least: assumes "0 < z" "z \<le> 2 ^ 40" shows "rnd (z * least) = Fin (of_int (round_even z) * least)"
proof -
  have p: "0 < z * least" using assms(1) least_pos by simp
  have "ulp_exp (z * least) = - 1074"
  proof (rule ccontr)
    assume "ulp_exp (z * least) \<noteq> - 1074"
    then have u: "- 1074 < ulp_exp (z * least)" by (auto simp: ulp_exp_def max_def split: if_splits)
    have "(2 :: real) powi (- 1022) \<le> 2 powi (ulp_exp (z * least) + 52)" using u by (intro powi_mono) simp
    also have "\<dots> \<le> z * least" using ulp_exp_lower [OF p u] .
    also have "\<dots> \<le> 2 ^ 40 * least" using assms(2) least_pos by (intro mult_right_mono) simp_all
    also have "\<dots> = 2 powi (- 1034)" using powi_split [of 40 "- 1074"] powi_nat [of 40] by (simp add: least_def)
    finally show False by simp
  qed
  then have "rnd_real (z * least) = of_int (round_even z) * least" using rnd_real_pos_eq [OF p] by (simp add: least_def)
  moreover have "0 \<le> round_even z" "round_even z \<le> 2 ^ 40 + 1"
    using round_even_mono [of 0 z] round_even_of_int [of 0] round_even_mono [OF assms(2)] round_even_of_int [of "2 ^ 40"] assms(1) by simp_all
  then have "rnd_real (of_int (round_even z) * least) = of_int (round_even z) * least \<and> \<bar>of_int (round_even z) * least\<bar> \<le> max_finite"
    using least_multiple [of "round_even z"] rnd_Fin [of "of_int (round_even z) * least"] is_f64_rnd [of "of_int (round_even z) * least"]
    by (simp add: is_f64_def)
  ultimately show ?thesis by (auto simp: rnd_def Let_def abs_le_iff)
qed

lemma round_near: "1 / 2 < z \<Longrightarrow> z < 3 / 2 \<Longrightarrow> round_even z = 1" "3 / 2 < z \<Longrightarrow> z < 5 / 2 \<Longrightarrow> round_even z = 2"
proof -
  show "round_even z = 1" if "1 / 2 < z" "z < 3 / 2"
  proof (cases "z < 1")
    case True
    then have "\<lfloor>z\<rfloor> = 0" using that by (intro floor_unique) simp_all
    then show ?thesis using that by (simp add: round_even_def)
  next
    case False
    then have "\<lfloor>z\<rfloor> = 1" using that by (intro floor_unique) simp_all
    then show ?thesis using that by (simp add: round_even_def)
  qed
  show "round_even z = 2" if "3 / 2 < z" "z < 5 / 2"
  proof (cases "z < 2")
    case True
    then have "\<lfloor>z\<rfloor> = 1" using that by (intro floor_unique) simp_all
    then show ?thesis using that by (simp add: round_even_def)
  next
    case False
    then have "\<lfloor>z\<rfloor> = 2" using that by (intro floor_unique) simp_all
    then show ?thesis using that by (simp add: round_even_def)
  qed
qed

text \<open>A carry under which a discounted unit is the smallest positive number.\<close>

definition carry_rate :: real where "carry_rate = rnd_real (1074 * ln 2)"

lemma ln2_ge_half: "1 / 2 \<le> ln (2 :: real)"
  using ln_le_minus_one [of "1 / 2 :: real"] by (simp add: ln_div)

lemma carry_close: "\<bar>carry_rate - 1074 * ln 2\<bar> \<le> 1 / 2 ^ 42"
proof -
  have "\<bar>rnd_real (1074 * ln 2) - 1074 * ln 2\<bar> \<le> \<bar>1074 * ln 2 :: real\<bar> / 2 ^ 53"
    using ln2_ge_half by (intro rnd_real_precise) (simp add: abs_mult)
  also have "\<dots> \<le> 2048 / 2 ^ 53" using ln_2_less_1 by (intro divide_right_mono) (simp_all add: abs_mult)
  finally show ?thesis by (simp add: carry_rate_def)
qed

lemma carry_discount: "rnd (exp (- carry_rate)) = Fin least"
proof -
  define e where "e = 1074 * ln 2 - carry_rate"
  have e: "\<bar>e\<bar> \<le> 1 / 2 ^ 42" using carry_close by (simp add: e_def abs_minus_commute)
  have "exp (- carry_rate) = exp e * exp (- (1074 * ln 2))" by (simp add: e_def exp_add [symmetric])
  moreover have "exp (- (1074 * ln 2)) = least"
    using exp_of_nat_mult [of 1074 "ln 2 :: real"] by (simp add: exp_minus least_pow inverse_eq_divide)
  ultimately have x: "exp (- carry_rate) = exp e * least" by simp
  have "1 + e \<le> exp e" "1 - e \<le> exp (- e)" using exp_ge_add_one_self [of e] exp_ge_add_one_self [of "- e"] by simp_all
  moreover have "exp e * exp (- e) = 1" by (simp add: exp_add [symmetric])
  moreover have e4: "- (1 / 4) \<le> e" "e \<le> 1 / 4" using e by (simp_all add: abs_le_iff)
  ultimately have "exp e * (3 / 4) \<le> 1" using mult_left_mono [of "3 / 4" "exp (- e)" "exp e"] by simp
  then have "1 / 2 < exp e" "exp e < 3 / 2" using e4(1) \<open>1 + e \<le> exp e\<close> by linarith+
  then have "round_even (exp e) = 1" "exp e \<le> 2 ^ 40" using round_near(1) by simp_all
  then show ?thesis using rnd_least [of "exp e"] by (simp add: x)
qed

lemma carry_machine: "rnd carry_rate = Fin carry_rate"
proof -
  have "\<bar>carry_rate\<bar> \<le> 2 ^ 53" 
    using abs_le_D1 [OF carry_close] abs_le_D2 [OF carry_close] ln_2_less_1 ln2_ge_half by (simp add: abs_le_iff)
  then show ?thesis using max_finite_ge by (intro rnd_eqI) (simp_all add: carry_rate_def rnd_real_idem)
qed

section \<open>The price of a deep carry\<close>

text \<open>
  With an infinite rate and this carry the pricer discounts the strike away and the spot to
  the smallest number: the price of a call counts the spot in whole units, and its curvature
  is felt only near the half of a unit.
\<close>

lemma all_of_it: "normCdf PInf = Fin 1"
proof -
  obtain r where "lit sqrt2 = Fin r" "0 < r"
    using rnd_between [of 1 2 sqrt2] by (auto simp: sqrt2_def f64_simps)
  then have "PInf / lit sqrt2 = PInf" by simp
  then show ?thesis by (simp add: normCdf_def one_f64_def f64_simps)
qed

lemma ln_machine: assumes "1 / 2 \<le> s" "s \<le> 4" shows "\<exists>l. math_Log (Fin s / Fin 100) = Fin l"
proof -
  have "rnd (1 / 2 ^ 8) = Fin (1 / 2 ^ 8)" using rnd_dyadic [of 1 8] by simp
  from rnd_between [OF this rnd_1, of "s / 100"] assms obtain r where r: "rnd (s / 100) = Fin r" "1 / 2 ^ 8 \<le> r" "r \<le> 1" by auto
  then have pos: "0 < r" by (auto intro: less_le_trans [of 0 "1 / 2 ^ 8"])
  have "ln r \<le> 0" using pos r(3) by (simp add: ln_le_zero_iff)
  moreover have "- 256 \<le> ln r"
  proof -
    have "- ln r = ln (1 / r)" using pos by (simp add: ln_div)
    also have "\<dots> \<le> 1 / r - 1" using pos by (intro ln_le_minus_one) simp
    also have "\<dots> \<le> 256" using r(2) pos by (simp add: divide_simps)
    finally show ?thesis by simp
  qed
  moreover have "rnd (- 256) = Fin (- 256)" using rnd_of_int [of "- 256"] by simp
  ultimately obtain l where "rnd (ln r) = Fin l" using rnd_between [of "- 256" 0 "ln r"] by auto
  then show ?thesis using r(1) pos by simp
qed

lemma carry_price:
  assumes "1 / 2 \<le> s" "s \<le> 4"
  shows "priceAt ''C'' (Fin 100) PInf (Fin carry_rate) (Fin s) (Fin 1) (Fin (1 / 4)) = Inr (Fin (of_int (round_even s) * least))"
proof -
  obtain l where l: "math_Log (Fin s / Fin 100) = Fin l" using ln_machine [OF assms] by blast
  have f: "\<not> Fin (1 / 4) < lit volFloor"
  proof -
    have "rnd (1 / 8) = Fin (1 / 8)" using rnd_dyadic [of 1 3] by simp
    from rnd_between [OF rnd_0 this, of volFloor] show ?thesis by (auto simp: volFloor_def)
  qed
  have b: "PInf - Fin carry_rate = PInf" by (simp add: minus_f64_def)
  have d: "math_Exp (lit (- carry_rate)) = Fin least"
    using carry_machine rnd_minus [of carry_rate] by (simp add: carry_discount)
  have r: "rnd (s * least) = Fin (of_int (round_even s) * least)" using assms by (intro rnd_least) simp_all
  have rr: "rnd (of_int (round_even s) * least) = Fin (of_int (round_even s) * least)" using r by (rule rnd_Fin_iff)
  have v: "rnd (1 / 16) = Fin (1 / 16)" "rnd (1 / 32) = Fin (1 / 32)" using rnd_dyadic [of 1 4] rnd_dyadic [of 1 5] by simp_all
  have d1: "(Fin l + (PInf + lit (1 / 2) * (Fin (1 / 4) * Fin (1 / 4))) * Fin 1) / (Fin (1 / 4) * math_Sqrt (Fin 1)) = PInf"
    using v by (simp add: f64_simps sgn_inf_def)
  have "bs_european (Fin s) (Fin 100) (Fin 1) PInf (Fin carry_rate) (Fin (1 / 4)) = Fin (of_int (round_even s) * least)"
    unfolding bs_european_def Let_def b l d1
    by (simp add: d all_of_it r rr minus_f64_def f64_simps sgn_inf_def)
  then show ?thesis
    using assms f by (simp add: priceAt_def BjerksundStenslandCall_def b zero_f64_def Let_def)
qed

section \<open>The curvature\<close>

lemma round_in: assumes "7 / 8 \<le> z" "z \<le> 9 / 4" "z \<noteq> 3 / 2" shows "round_even z \<in> {1, 2}"
  using assms round_near [of z] by (cases "z < 3 / 2") auto

text \<open>The step of the differences, for a spot between one and two.\<close>

lemma step_size:
  assumes "1 \<le> s" "s \<le> 2"
  shows "\<exists>h. HStep (Fin s) = Fin h \<and> 1 / 2 ^ 14 \<le> h \<and> h \<le> 1 / 2 ^ 12 \<and> (5 / 4 \<le> s \<longrightarrow> 7 / 2 ^ 16 \<le> h) \<and>
    (23 / 16 \<le> s \<longrightarrow> 9 / 2 ^ 16 \<le> h)"
proof -
  have p: "rnd (6 / 2 ^ 16) = Fin (6 / 2 ^ 16)" "rnd (7 / 2 ^ 16) = Fin (7 / 2 ^ 16)" "rnd (9 / 2 ^ 16) = Fin (9 / 2 ^ 16)"
    "rnd (1 / 2 ^ 12) = Fin (1 / 2 ^ 12)" "rnd (1 / 2 ^ 13) = Fin (1 / 2 ^ 13)" "rnd (26214 / 2 ^ 28) = Fin (26214 / 2 ^ 28)"
    using rnd_dyadic [of 6 16] rnd_dyadic [of 7 16] rnd_dyadic [of 9 16] rnd_dyadic [of 1 12] rnd_dyadic [of 1 13] rnd_dyadic [of 26214 28]
    by simp_all
  obtain f where f: "lit hSFloor = Fin f" "26214 / 2 ^ 28 \<le> f" "f \<le> 1 / 2 ^ 13"
    using rnd_between [OF p(6,5), of hSFloor] by (auto simp: hSFloor_def)
  have fl: "lit hSRel = Fin f" using f(1) by (simp add: hSRel_def hSFloor_def)
  have lo: "26214 / 2 ^ 28 * s \<le> s * f" using f(2) assms(1) by (simp add: mult.commute)
  have "s * f \<le> 2 * (1 / 2 ^ 13)" using f assms by (intro mult_mono) simp_all
  moreover have "6 / 2 ^ 16 \<le> 26214 / 2 ^ 28 * s" using assms(1) by simp
  then have "6 / 2 ^ 16 \<le> s * f" using lo by (rule order_trans)
  ultimately obtain g where g: "rnd (s * f) = Fin g" "6 / 2 ^ 16 \<le> g" "g \<le> 1 / 2 ^ 12" using rnd_between [OF p(1,4), of "s * f"] by auto
  have up: "c \<le> g" if "rnd c = Fin c" "c \<le> 26214 / 2 ^ 28 * s" for c
    using rnd_mono [OF order_trans [OF that(2) lo]] that(1) g(1) by simp
  have "7 / 2 ^ 16 \<le> g" if "5 / 4 \<le> s" using that by (intro up p) simp
  moreover have "9 / 2 ^ 16 \<le> g" if "23 / 16 \<le> s" using that by (intro up p) simp
  moreover have "HStep (Fin s) = Fin (max f g)" by (auto simp: HStep_def f(1) fl g(1) math_Max_def max_def)
  ultimately show ?thesis using f g by auto
qed

text \<open>The Greeks of the call: only the gamma matters here.\<close>

lemma carry_greeks:
  assumes "HStep (Fin s) = Fin h" "rnd (s + h) = Fin u" "rnd (s - h) = Fin d" "1 \<le> s" "s \<le> 2" "7 / 8 \<le> u" "u \<le> 9 / 4" "7 / 8 \<le> d" "d \<le> 9 / 4"
    and "rnd (h * h) = Fin G" "G \<noteq> 0" "round_even u - 2 * round_even s + round_even d = k"
    and "\<bar>round_even u\<bar> \<le> 2" "\<bar>round_even s\<bar> \<le> 2" "\<bar>round_even d\<bar> \<le> 2"
  shows "\<exists>g. ComputeGreeks (Fin s) (Fin 100) (Fin 1) PInf (Fin carry_rate) (Fin (1 / 4)) ''C'' = Inr g \<and>
    gGamma g = rnd (of_int k * least / G)"
proof -
  have c: "ToUpper (TrimSpace ''C'') = ''C''" by code_simp
  have v: "\<not> Fin (1 / 4) \<le> lit HVolStep"
  proof -
    have "rnd (1 / 8) = Fin (1 / 8)" using rnd_dyadic [of 1 3] by simp
    from rnd_between [OF rnd_0 this, of HVolStep] show ?thesis by (auto simp: HVolStep_def)
  qed
  have sd: "Fin s + HStep (Fin s) = Fin u" "Fin s - HStep (Fin s) = Fin d" using assms(1-3) by (simp_all add: minus_f64_def)
  have "\<exists>g. ComputeGreeks (Fin s) (Fin 100) (Fin 1) PInf (Fin carry_rate) (Fin (1 / 4)) ''C'' = Inr g"
    unfolding ComputeGreeks_ok c sd using assms(4,8) v by (simp add: zero_f64_def)
  then obtain g where g: "ComputeGreeks (Fin s) (Fin 100) (Fin 1) PInf (Fin carry_rate) (Fin (1 / 4)) ''C'' = Inr g" by blast
  have pr: "priceAt ''C'' (Fin 100) PInf (Fin carry_rate) (Fin z) (Fin 1) (Fin (1 / 4)) = Inr (Fin (of_int (round_even z) * least))"
    if "7 / 8 \<le> z" "z \<le> 9 / 4" for z using that by (intro carry_price) simp_all
  have "7 / 8 \<le> s" "s \<le> 9 / 4" using assms(4,5) by simp_all
  note prs = pr [OF this] pr [OF assms(6,7)] pr [OF assms(8,9)]
  have "gGamma g = (Fin (of_int (round_even u) * least) - lit 2 * Fin (of_int (round_even s) * least) + Fin (of_int (round_even d) * least)) / (Fin h * Fin h)"
    using g unfolding ComputeGreeks_def c Let_def assms(1)
    by (auto simp: bind_res_Inr_iff sd [unfolded assms(1)] assms(2) prs split: if_splits)
  moreover have "lit 2 * Fin (of_int (round_even s) * least) = Fin (of_int (2 * round_even s) * least)"
    using least_multiple [of "2 * round_even s"] assms(14) by (simp add: f64_simps mult.assoc)
  moreover have "Fin (of_int (round_even u) * least) - Fin (of_int (2 * round_even s) * least) = Fin (of_int (round_even u - 2 * round_even s) * least)"
    using least_multiple [of "round_even u - 2 * round_even s"] assms(13,14) by (simp add: minus_f64_def left_diff_distrib)
  moreover have "Fin (of_int (round_even u - 2 * round_even s) * least) + Fin (of_int (round_even d) * least) = Fin (of_int k * least)"
  proof -
    have "\<bar>k\<bar> \<le> 2 ^ 53" using assms(12-15) by simp
    moreover have "of_int (round_even u - 2 * round_even s) * least + of_int (round_even d) * least =
        of_int (round_even u - 2 * round_even s + round_even d) * least" by (simp add: algebra_simps)
    ultimately show ?thesis using least_multiple [of k] assms(12) by (simp only: plus_f64.simps)
  qed
  ultimately have "gGamma g = rnd (of_int k * least / G)" using assms(10,11) by simp
  with g show ?thesis by blast
qed

lemma step_square: assumes "1 / 2 ^ 14 \<le> h" "h \<le> 1 / 2 ^ 12" shows "\<exists>G. rnd (h * h) = Fin G \<and> 1 / 2 ^ 28 \<le> G \<and> G \<le> 1 / 2 ^ 24"
proof -
  have "1 / 2 ^ 14 * (1 / 2 ^ 14) \<le> h * h" "h * h \<le> 1 / 2 ^ 12 * (1 / 2 ^ 12)" using assms by (intro mult_mono; simp)+
  then show ?thesis using rnd_between [of "1 / 2 ^ 28" "1 / 2 ^ 24" "h * h"] rnd_dyadic [of 1 28] rnd_dyadic [of 1 24] by simp
qed

lemma rnd_in_dyadic:
  assumes "of_int i / 2 ^ n \<le> z" "z \<le> of_int j / 2 ^ n" "\<bar>i\<bar> \<le> 2 ^ 53" "\<bar>j\<bar> \<le> 2 ^ 53" "n \<le> 1074"
  shows "\<exists>r. rnd z = Fin r \<and> of_int i / 2 ^ n \<le> r \<and> r \<le> of_int j / 2 ^ n"
  using rnd_between [OF rnd_dyadic [OF assms(3,5)] rnd_dyadic [OF assms(4,5)] assms(1,2)] .

lemma flat_gamma:
  assumes "9 / 8 \<le> s" "s \<le> 15 / 8" "s \<le> 3 / 2 - 1 / 2 ^ 9 \<or> 3 / 2 + 1 / 2 ^ 9 \<le> s"
  shows "\<exists>g. ComputeGreeks (Fin s) (Fin 100) (Fin 1) PInf (Fin carry_rate) (Fin (1 / 4)) ''C'' = Inr g \<and> gGamma g = Fin 0"
proof -
  obtain h where h: "HStep (Fin s) = Fin h" "1 / 2 ^ 14 \<le> h" "h \<le> 1 / 2 ^ 12" using step_size [of s] assms by auto
  obtain G where G: "rnd (h * h) = Fin G" "1 / 2 ^ 28 \<le> G" using step_square [OF h(2,3)] by blast
  have nz: "G \<noteq> 0" using G(2) by auto
  have h': "0 \<le> h" using h(2) by (rule order_trans [rotated]) simp
  show ?thesis
  proof (cases "s \<le> 3 / 2 - 1 / 2 ^ 9")
    case True
    obtain u where u: "rnd (s + h) = Fin u" "9 / 8 \<le> u" "u \<le> 3 / 2 - 1 / 2 ^ 10"
      using rnd_in_dyadic [of 1152 10 "s + h" 1535] assms(1) True h(3) h' by auto
    obtain d where d: "rnd (s - h) = Fin d" "1 \<le> d" "d \<le> 3 / 2 - 1 / 2 ^ 10"
      using rnd_in_dyadic [of 1024 10 "s - h" 1535] assms(1) True h(3) h' by auto
    have e: "round_even u = 1" "round_even s = 1" "round_even d = 1" using u d True assms(1) by (auto intro!: round_near(1))
    show ?thesis using carry_greeks [OF h(1) u(1) d(1) _ _ _ _ _ _ G(1) nz, of 0] assms u d True by (simp add: e)
  next
    case False
    then have t: "3 / 2 + 1 / 2 ^ 9 \<le> s" using assms(3) by simp
    obtain u where u: "rnd (s + h) = Fin u" "3 / 2 + 1 / 2 ^ 10 \<le> u" "u \<le> 2"
      using rnd_in_dyadic [of 1537 10 "s + h" 2048] assms(2) t h(3) h' by auto
    obtain d where d: "rnd (s - h) = Fin d" "3 / 2 + 1 / 2 ^ 10 \<le> d" "d \<le> 2"
      using rnd_in_dyadic [of 1537 10 "s - h" 2048] assms(2) t h(3) h' by auto
    have e: "round_even u = 2" "round_even s = 2" "round_even d = 2" using u d t assms(2) by (auto intro!: round_near(2))
    show ?thesis using carry_greeks [OF h(1) u(1) d(1) _ _ _ _ _ _ G(1) nz, of 0] assms u d t by (simp add: e)
  qed
qed

lemma kink_gamma:
  assumes "3 / 2 - 1 / 2 ^ 13 - 1 / 2 ^ 20 \<le> s" "s \<le> 3 / 2 - 1 / 2 ^ 14"
  shows "\<exists>g c. ComputeGreeks (Fin s) (Fin 100) (Fin 1) PInf (Fin carry_rate) (Fin (1 / 4)) ''C'' = Inr g \<and> gGamma g = Fin c \<and>
    1 / 2 ^ 1050 \<le> c \<and> c \<le> 1 / 2 ^ 1040"
proof -
  obtain h where h: "HStep (Fin s) = Fin h" "1 / 2 ^ 14 \<le> h" "h \<le> 1 / 2 ^ 12" "9 / 2 ^ 16 \<le> h" using step_size [of s] assms by auto
  obtain G where G: "rnd (h * h) = Fin G" "1 / 2 ^ 28 \<le> G" "G \<le> 1 / 2 ^ 24" using step_square [OF h(2,3)] by blast
  have gp: "0 < G" using G(2) by (rule less_le_trans [rotated]) simp
  obtain u where u: "rnd (s + h) = Fin u" "3 / 2 + 1 / 2 ^ 17 \<le> u" "u \<le> 2"
    using rnd_in_dyadic [of 196609 17 "s + h" 262144] assms h(3,4) by auto
  obtain d where d: "rnd (s - h) = Fin d" "1 \<le> d" "d \<le> 3 / 2 - 1 / 2 ^ 14"
    using rnd_in_dyadic [of 16384 14 "s - h" 24575] assms h(2,3) by auto
  have e: "round_even u = 2" "round_even s = 1" "round_even d = 1"
    using u d assms by (auto intro!: round_near)
  show ?thesis
  proof -
    obtain g where g: "ComputeGreeks (Fin s) (Fin 100) (Fin 1) PInf (Fin carry_rate) (Fin (1 / 4)) ''C'' = Inr g"
      "gGamma g = rnd (of_int 1 * least / G)"
      using carry_greeks [OF h(1) u(1) d(1) _ _ _ _ _ _ G(1), of 1] assms u d gp by (auto simp: e)
    have "(1 :: real) / 2 ^ 1050 \<le> least / G"
    proof -
      have "(1 :: real) / 2 ^ 1050 = least * 2 ^ 24" by (simp add: least_pow power_add [symmetric] divide_simps)
      also have "\<dots> \<le> least * (1 / G)" using G(3) gp least_pos by (intro mult_left_mono) (simp_all add: divide_simps)
      finally show ?thesis by simp
    qed
    moreover have "least / G \<le> 1 / 2 ^ 1040"
    proof -
      have "least * (1 / G) \<le> least * 2 ^ 28" using G(2) gp least_pos by (intro mult_left_mono) (simp_all add: divide_simps)
      also have "\<dots> = 1 / 2 ^ 1046" by (simp add: least_pow power_add [symmetric] divide_simps)
      also have "\<dots> \<le> 1 / 2 ^ 1040" by (intro divide_left_mono power_increasing) simp_all
      finally show ?thesis by simp
    qed
    ultimately obtain c where "rnd (least / G) = Fin c" "1 / 2 ^ 1050 \<le> c" "c \<le> 1 / 2 ^ 1040"
      using rnd_between [of "1 / 2 ^ 1050" "1 / 2 ^ 1040" "least / G"] rnd_dyadic [of 1 1050] rnd_dyadic [of 1 1040]
      by (simp del: power_numeral) blast
    with g show ?thesis by auto
  qed
qed

section \<open>A book with one flip\<close>

definition flip_call :: contract where
  "flip_call =
     \<lparr>cConId = 1, cTicker = ''SPX'', cStrike = Fin 100, cRight = ''C'', cExpiryDate = ''19710101'',
      cTradingClass = ''SPX'', cMultiplier = Fin 100, cOpenInterest = Fin 10, cExchange = ''CBOE'',
      cSettlement = [], cSDTier = Fin 0, cIV = Fin 0, cBid = Fin 0, cAsk = Fin 0\<rparr>"

definition flip_at :: real where "flip_at = 3 / 2 - 1 / 2 ^ 13"

definition flip_inputs :: book_inputs where
  "flip_inputs =
     \<lparr>biChain = \<lparr>chTicker = ''SPX'', chSpot = Fin flip_at, chAsOfMs = 0, chContracts = [flip_call],
        chUnderlyingType = ''IND'', chExchange = ''CBOE''\<rparr>,
      biSpot = Fin flip_at, biAsOf = 0, biR = PInf, biQ = Fin carry_rate, biSigma = (\<lambda>_. Fin (1 / 4)),
      biSkipFlip = False, biLiveBlend = False\<rparr>"

lemma flip_call_DTE: "DTE flip_call 0 = Inr (Fin 365)"
proof -
  have "parse_ymd ''19710101'' = Some 365" "day_of 0 = 0" by code_simp+
  then show ?thesis using DTE_days [of flip_call 365 0] by (simp add: flip_call_def)
qed

lemma flip_total:
  assumes "ComputeGreeks (Fin s) (Fin 100) (Fin 1) PInf (Fin carry_rate) (Fin (1 / 4)) ''C'' = Inr g"
  shows "totalGEXAt flip_inputs (Fin s) None = Inr (0 + GEX (Fin 10) (gGamma g) (Fin s) (Fin 100))"
proof -
  have "Fin 365 / lit 365 = Fin 1" using rnd_of_int [of 365] by simp
  then have "greeks_of flip_inputs (Fin s) flip_call (Fin 365) (Fin (1 / 4)) = Inr g"
    using assms by (simp add: greeks_of_def flip_inputs_def flip_call_def)
  moreover have "DealerQty flip_call = Fin 10" by (simp add: DealerQty_def flip_call_def RightCall_def)
  moreover have "chContracts (biChain flip_inputs) = [flip_call]" "biAsOf flip_inputs = 0" "biSigma flip_inputs = (\<lambda>_. Fin (1 / 4))"
    "cMultiplier flip_call = Fin 100" by (simp_all add: flip_inputs_def flip_call_def)
  ultimately show ?thesis
    by (simp add: totalGEXAt_def gex_step_def flip_call_DTE vol_at_def one_f64_def)
qed

lemma flat_total:
  assumes "9 / 8 \<le> s" "s \<le> 15 / 8" "s \<le> 3 / 2 - 1 / 2 ^ 9 \<or> 3 / 2 + 1 / 2 ^ 9 \<le> s"
  shows "totalGEXAt flip_inputs (Fin s) None = Inr (Fin 0)"
proof -
  obtain g where g: "ComputeGreeks (Fin s) (Fin 100) (Fin 1) PInf (Fin carry_rate) (Fin (1 / 4)) ''C'' = Inr g" "gGamma g = Fin 0"
    using flat_gamma [OF assms] by blast
  obtain r where "lit (1 / 100) = Fin r" using rnd_unit [of "1 / 100"] by auto
  then show ?thesis using flip_total [OF g(1)] by (simp add: g(2) GEX_def zero_f64_def)
qed

lemma rnd_scaled:
  assumes "1 / 2 ^ m \<le> z" "z \<le> 1 / 2 ^ n" "1 / 2 ^ j \<le> k" "k \<le> 2 ^ i" "i \<le> n" "m + j \<le> 1074"
  shows "\<exists>r. rnd (z * k) = Fin r \<and> 1 / 2 ^ (m + j) \<le> r \<and> r \<le> 1 / 2 ^ (n - i)"
proof -
  have z: "0 \<le> z" using assms(1) by (rule order_trans [rotated]) simp
  have k: "0 \<le> k" using assms(3) by (rule order_trans [rotated]) simp
  have "1 / 2 ^ m * (1 / 2 ^ j) \<le> z * k" using assms z by (intro mult_mono) simp_all
  then have a: "1 / 2 ^ (m + j) \<le> z * k" by (simp add: power_add)
  have "z * k \<le> 1 / 2 ^ n * 2 ^ i" using assms k by (intro mult_mono) simp_all
  also have "\<dots> = 1 / 2 ^ (n - i)" using assms(5) by (simp add: power_diff)
  finally have b: "z * k \<le> 1 / 2 ^ (n - i)" .
  have l: "(1 :: real) / 2 ^ (m + j) \<le> 1 / 2 ^ (n - i)" using a b by (rule order_trans)
  have "n - i \<le> 1074"
  proof (rule ccontr)
    assume "\<not> n - i \<le> 1074"
    then have "(1 :: real) / 2 ^ (n - i) < 1 / 2 ^ 1074" by (intro divide_strict_left_mono power_strict_increasing) simp_all
    also have "\<dots> \<le> 1 / 2 ^ (m + j)" using assms(6) by (intro divide_left_mono power_increasing) simp_all
    finally show False using l by simp
  qed
  then show ?thesis using rnd_between [OF _ _ a b] rnd_dyadic [of 1 "m + j"] rnd_dyadic [of 1 "n - i"] assms(6) by simp
qed

lemma kink_total:
  assumes "3 / 2 - 1 / 2 ^ 13 - 1 / 2 ^ 20 \<le> s" "s \<le> 3 / 2 - 1 / 2 ^ 14"
  shows "\<exists>v. totalGEXAt flip_inputs (Fin s) None = Inr (Fin v) \<and> 0 < v"
proof -
  obtain g c where g: "ComputeGreeks (Fin s) (Fin 100) (Fin 1) PInf (Fin carry_rate) (Fin (1 / 4)) ''C'' = Inr g" "gGamma g = Fin c"
    "1 / 2 ^ 1050 \<le> c" "c \<le> 1 / 2 ^ 1040" using kink_gamma [OF assms] by blast
  have t: "(10 :: real) \<le> 2 ^ 4" "(100 :: real) \<le> 2 ^ 7" by simp_all
  have s: "1 / 2 ^ 0 \<le> s" "s \<le> 2 ^ 1" using assms by simp_all
  obtain h where h: "lit (1 / 100) = Fin h" "1 / 2 ^ 7 \<le> h" "h \<le> 2 ^ 0"
    using rnd_between [of "1 / 2 ^ 7" 1 "1 / 100"] rnd_dyadic [of 1 7] by auto
  obtain a where a: "rnd (c * 10) = Fin a" "1 / 2 ^ 1050 \<le> a" "a \<le> 1 / 2 ^ 1036"
    using rnd_scaled [OF g(3,4) _ t(1), of 0] by (simp del: power_numeral) blast
  obtain b where b: "rnd (a * s) = Fin b" "1 / 2 ^ 1050 \<le> b" "b \<le> 1 / 2 ^ 1035"
    using rnd_scaled [OF a(2,3) s] by (simp del: power_numeral) blast
  obtain d where d: "rnd (b * s) = Fin d" "1 / 2 ^ 1050 \<le> d" "d \<le> 1 / 2 ^ 1034"
    using rnd_scaled [OF b(2,3) s] by (simp del: power_numeral) blast
  obtain e where e: "rnd (d * h) = Fin e" "1 / 2 ^ 1057 \<le> e" "e \<le> 1 / 2 ^ 1034"
    using rnd_scaled [OF d(2,3) h(2,3)] by (simp del: power_numeral) blast
  obtain f where f: "rnd (e * 100) = Fin f" "1 / 2 ^ 1057 \<le> f"
    using rnd_scaled [OF e(2,3) _ t(2), of 0] by (simp del: power_numeral) blast
  have "GEX (Fin 10) (Fin c) (Fin s) (Fin 100) = Fin f"
    using a(1) b(1) d(1) e(1) f(1) by (simp add: GEX_def h(1) mult.commute [of 10])
  moreover have "rnd f = Fin f" using f(1) by (rule rnd_Fin_iff)
  ultimately have "totalGEXAt flip_inputs (Fin s) None = Inr (Fin f)"
    using flip_total [OF g(1)] by (simp add: g(2) zero_f64_def)
  moreover have "0 < f" using f(2) by (rule less_le_trans [rotated]) simp
  ultimately show ?thesis by blast
qed

text \<open>The grid around this spot.\<close>

lemma rnd_close:
  assumes "\<bar>y - z\<bar> \<le> e" "1 / 2 ^ 8 \<le> z" "z \<le> 64" "e \<le> 1 / 2 ^ 10"
  shows "\<exists>r. rnd y = Fin r \<and> \<bar>r - z\<bar> \<le> e + 1 / 2 ^ 46"
proof -
  have y: "1 / 2 ^ 9 \<le> y" "y \<le> 65" using abs_le_D1 [OF assms(1)] abs_le_D2 [OF assms(1)] assms(2-4) by simp_all
  obtain r where r: "rnd y = Fin r" using rnd_between [of 0 128 y] rnd_of_int [of 128] y by auto
  have "\<bar>rnd_real y - y\<bar> \<le> \<bar>y\<bar> / 2 ^ 53" using y(1) by (intro rnd_real_precise) simp
  also have "\<dots> \<le> 128 / 2 ^ 53" using y by (intro divide_right_mono) simp_all
  finally have "\<bar>r - y\<bar> \<le> 128 / 2 ^ 53" using rnd_Fin [OF r] by simp
  moreover have "(128 :: real) / 2 ^ 53 = 1 / 2 ^ 46" by simp
  ultimately have "\<bar>r - z\<bar> \<le> e + 1 / 2 ^ 46" using assms(1) by linarith
  with r show ?thesis by blast
qed

lemma close_mult: "\<bar>y - z\<bar> \<le> e \<Longrightarrow> 0 \<le> k \<Longrightarrow> \<bar>k * y - k * z\<bar> \<le> k * (e :: real)"
  using abs_mult [of k "y - z"] by (simp add: right_diff_distrib mult_left_mono)

lemma flip_grid:
  assumes "i \<le> 80"
  shows "\<exists>r. flip_spot (Fin flip_at) i = Fin r \<and> \<bar>r - flip_at * (8 / 10 + real i / 200)\<bar> \<le> 1 / 2 ^ 30"
proof -
  have x: "149 / 100 \<le> flip_at" "flip_at \<le> 3 / 2" by (simp_all add: flip_at_def)
  obtain a where a: "lit (1 - flipSpan) = Fin a" "\<bar>a - 8 / 10\<bar> \<le> 1 / 2 ^ 46"
    using rnd_close [of "8 / 10" "8 / 10" 0] by (auto simp: flipSpan_def)
  obtain b where b: "lit (1 + flipSpan) = Fin b" "\<bar>b - 12 / 10\<bar> \<le> 1 / 2 ^ 46"
    using rnd_close [of "12 / 10" "12 / 10" 0] by (auto simp: flipSpan_def)
  have s: "flip_at * (1 / 2 ^ 46) \<le> 1 / 2 ^ 45" using x by simp
  obtain lo where lo: "rnd (flip_at * a) = Fin lo" "\<bar>lo - flip_at * (8 / 10)\<bar> \<le> 1 / 2 ^ 44"
    using rnd_close [of "flip_at * a" "flip_at * (8 / 10)" "1 / 2 ^ 45"] order_trans [OF close_mult [OF a(2), of flip_at] s] x by auto
  obtain hi where hi: "rnd (flip_at * b) = Fin hi" "\<bar>hi - flip_at * (12 / 10)\<bar> \<le> 1 / 2 ^ 44"
    using rnd_close [of "flip_at * b" "flip_at * (12 / 10)" "1 / 2 ^ 45"] order_trans [OF close_mult [OF b(2), of flip_at] s] x by auto
  have "\<bar>(hi - lo) - flip_at * (4 / 10)\<bar> \<le> 1 / 2 ^ 43"
  proof -
    have "(1 :: real) / 2 ^ 43 = 1 / 2 ^ 44 + 1 / 2 ^ 44" by simp
    then show ?thesis using lo(2) hi(2) by linarith
  qed
  then obtain D where D: "rnd (hi - lo) = Fin D" "\<bar>D - flip_at * (4 / 10)\<bar> \<le> 1 / 2 ^ 42"
    using rnd_close [of "hi - lo" "flip_at * (4 / 10)" "1 / 2 ^ 43"] x by auto
  have fi: "f64_of_int (int i) = Fin (real i)" using assms rnd_of_int [of "int i"] by (simp add: f64_of_int_def)
  obtain w where w: "rnd (D * real i) / Fin 80 = Fin w" "\<bar>w - flip_at * (real i / 200)\<bar> \<le> 1 / 2 ^ 33"
  proof (cases "i = 0")
    case True
    then show ?thesis using that [of 0] by simp
  next
    case False
    then have i: "1 \<le> real i" "real i \<le> 80" using assms by simp_all
    have l: "149 / 100 * (4 / 10) * 1 \<le> flip_at * (4 / 10) * real i" "flip_at * (4 / 10) * real i \<le> 3 / 2 * (4 / 10) * 80"
      using x i by (intro mult_mono; simp)+
    have "real i * (1 / 2 ^ 42) \<le> 1 / 2 ^ 35" using i by simp
    from order_trans [OF close_mult [OF D(2), of "real i"] this]
    have "\<bar>D * real i - flip_at * (4 / 10) * real i\<bar> \<le> 1 / 2 ^ 35" by (simp add: mult.commute mult.left_commute)
    from rnd_close [OF this] l obtain y where y: "rnd (D * real i) = Fin y" "\<bar>y - flip_at * (4 / 10) * real i\<bar> \<le> 1 / 2 ^ 34" by auto
    have "\<bar>y / 80 - flip_at * (real i / 200)\<bar> \<le> 1 / 2 ^ 34"
    proof -
      have "y / 80 - flip_at * (real i / 200) = (y - flip_at * (4 / 10) * real i) / 80" by (simp add: field_simps)
      then have "\<bar>y / 80 - flip_at * (real i / 200)\<bar> = \<bar>y - flip_at * (4 / 10) * real i\<bar> / 80" by (simp only: abs_divide abs_numeral)
      also have "\<dots> \<le> 1 / 2 ^ 34 / 80" using y(2) by (intro divide_right_mono) simp_all
      finally show ?thesis by simp
    qed
    moreover have "149 / 100 * (1 / 200) \<le> flip_at * (real i / 200)" "flip_at * (real i / 200) \<le> 3 / 2 * (80 / 200)"
      using x i by (intro mult_mono; simp)+
    ultimately obtain w where "rnd (y / 80) = Fin w" "\<bar>w - flip_at * (real i / 200)\<bar> \<le> 1 / 2 ^ 34 + 1 / 2 ^ 46"
      using rnd_close [of "y / 80" "flip_at * (real i / 200)" "1 / 2 ^ 34"] by auto
    then show ?thesis using that [of w] y(1) by simp
  qed
  have z: "flip_at * (8 / 10) \<le> flip_at * (8 / 10 + real i / 200)" "flip_at * (8 / 10 + real i / 200) \<le> 3 / 2 * (8 / 10 + 80 / 200)"
    using x assms by (simp, intro mult_mono) simp_all
  have "\<bar>lo + w - flip_at * (8 / 10 + real i / 200)\<bar> \<le> 1 / 2 ^ 32"
    using lo(2) w(2) unfolding distrib_left abs_le_iff by simp
  moreover have "(1 :: real) / 2 ^ 8 \<le> 149 / 100 * (8 / 10)" "149 / 100 * (8 / 10) \<le> flip_at * (8 / 10)" using x by simp_all
  then have "1 / 2 ^ 8 \<le> flip_at * (8 / 10 + real i / 200)" using z(1) by linarith
  moreover have "flip_at * (8 / 10 + real i / 200) \<le> 64" using z(2) by simp
  ultimately obtain r where r: "rnd (lo + w) = Fin r" "\<bar>r - flip_at * (8 / 10 + real i / 200)\<bar> \<le> 1 / 2 ^ 32 + 1 / 2 ^ 46"
    using rnd_close [of "lo + w" "flip_at * (8 / 10 + real i / 200)" "1 / 2 ^ 32"] by auto
  have "(1 :: real) / 2 ^ 32 + 1 / 2 ^ 46 \<le> 1 / 2 ^ 30" by simp
  then have "\<bar>r - flip_at * (8 / 10 + real i / 200)\<bar> \<le> 1 / 2 ^ 30" using r(2) by linarith
  note r(1) this
  moreover have "flip_spot (Fin flip_at) i = rnd (lo + w)"
    using lo(1) hi(1) D(1) w(1) by (simp add: flip_spot_def Let_def a(1) b(1) fi minus_f64_def flipPoints_def f64_simps)
  ultimately show ?thesis by auto
qed

lemma flip_values:
  assumes "i \<le> 80"
  shows "\<exists>v. totalGEXAt flip_inputs (flip_spot (Fin flip_at) i) None = Inr (Fin v) \<and> (if i = 40 then 0 < v else v = 0)"
proof -
  obtain r where r: "flip_spot (Fin flip_at) i = Fin r" "\<bar>r - flip_at * (8 / 10 + real i / 200)\<bar> \<le> 1 / 2 ^ 30"
    using flip_grid [OF assms] by blast
  consider "i = 40" | "i \<le> 39" | "41 \<le> i" by linarith
  then show ?thesis
  proof cases
    case 1
    then have near: "\<bar>r - flip_at\<bar> \<le> 1 / 2 ^ 30" using r(2) by simp
    then have "3 / 2 - 1 / 2 ^ 13 - 1 / 2 ^ 20 \<le> r" "r \<le> 3 / 2 - 1 / 2 ^ 14"
      using abs_le_D1 [OF near] abs_le_D2 [OF near] by (simp_all add: flip_at_def)
    from kink_total [OF this] show ?thesis using 1 r(1) by auto
  next
    case 2
    have "real i \<le> 39" using 2 by simp
    moreover have "0 \<le> real i" by simp
    ultimately have "9 / 8 \<le> r" "r \<le> 3 / 2 - 1 / 2 ^ 9"
      using abs_le_D1 [OF r(2)] abs_le_D2 [OF r(2)] unfolding flip_at_def by (simp_all add: field_simps)
    then have "totalGEXAt flip_inputs (Fin r) None = Inr (Fin 0)" by (intro flat_total) simp_all
    then show ?thesis using 2 r(1) by simp
  next
    case 3
    have "41 \<le> real i" "real i \<le> 80" using 3 assms by simp_all
    then have "3 / 2 + 1 / 2 ^ 9 \<le> r" "r \<le> 15 / 8"
      using abs_le_D1 [OF r(2)] abs_le_D2 [OF r(2)] unfolding flip_at_def by (simp_all add: field_simps)
    then have "totalGEXAt flip_inputs (Fin r) None = Inr (Fin 0)" by (intro flat_total) simp_all
    then show ?thesis using 3 r(1) by simp
  qed
qed

end
