(* ===== verification/Exposure_Props.thy ===== *)
theory Exposure_Props
  imports Exposure_Book Flip_Demo
begin

text \<open>
  The properties of a computed snapshot: its levels as folds over the live contracts, the
  segregation of trading classes, the walls as extrema, the flip as the certified sign
  change nearest the spot, the agreement of the blended surface with the anchor when no
  volatility is quoted, and the inputs on which the computation succeeds or fails.
\<close>

section \<open>Pricing succeeds\<close>

definition sane_inputs :: "book_inputs \<Rightarrow> bool" where
  "sane_inputs inp \<longleftrightarrow> Fin (1 / 4096) \<le> biSpot inp \<and> biSpot inp \<le> Fin (2 ^ 40) \<and>
     \<not> biLiveBlend inp \<and> biSkipFlip inp"

definition sane_contract :: "instant \<Rightarrow> contract \<Rightarrow> bool" where
  "sane_contract asOf c \<longleftrightarrow> cRight c \<in> {RightCall, RightPut} \<and> 0 < cStrike c \<and>
     \<not> isl (DTE c asOf) \<and> (cIV c \<le> 0 \<or> lit HVolStep < cIV c)"

definition usable_anchor :: "(f64 \<Rightarrow> f64) \<Rightarrow> bool" where
  "usable_anchor sigma \<longleftrightarrow> (\<forall>dte. \<not> dte < 1 \<longrightarrow> lit HVolStep < sigma dte)"

definition is_live :: "instant \<Rightarrow> contract \<Rightarrow> bool" where
  "is_live asOf c \<longleftrightarrow> (case DTE c asOf of Inl _ \<Rightarrow> False | Inr dte \<Rightarrow> \<not> dte < 1)"

lemma rights_upper: "r \<in> {RightCall, RightPut} \<Longrightarrow> ToUpper (TrimSpace r) \<in> {''C'', ''P''}"
  by (auto simp: RightCall_def RightPut_def) code_simp+

lemma not_le_if_less: "(a :: f64) < b \<Longrightarrow> \<not> b \<le> a"
  by (simp add: less_f64_def)

lemma year_fraction_pos: assumes "\<not> dte < (1 :: f64)" shows "\<not> dte / lit 365 \<le> 0"
proof (cases dte)
  case (Fin d)
  then have "1 / 512 \<le> d / 365" using assms by (simp add: one_f64_def)
  moreover have "rnd (1 / 512) = Fin (1 / 512)" using rnd_dyadic [of 1 9] by simp
  ultimately have "Fin (1 / 512) \<le> rnd (d / 365)" using rnd_mono [of "1 / 512" "d / 365"] by simp
  then show ?thesis by (cases "rnd (d / 365)") (auto simp: Fin f64_simps zero_f64_def)
qed (use assms in \<open>simp_all add: f64_simps one_f64_def zero_f64_def\<close>)

lemma greeks_of_ok:
  assumes "sane_inputs inp" "sane_contract asOf c" "\<not> dte < 1" "lit HVolStep < vol"
  shows "\<exists>g. greeks_of inp (biSpot inp) c dte vol = Inr g"
proof -
  obtain x where x: "biSpot inp = Fin x" "1 / 4096 \<le> x" "x \<le> 2 ^ 40"
    using assms(1) by (cases "biSpot inp") (auto simp: sane_inputs_def)
  have "\<not> biSpot inp \<le> 0" "\<not> biSpot inp - HStep (biSpot inp) \<le> 0"
    using spot_down_pos [OF x(2,3)] x by (simp_all add: zero_f64_def)
  moreover have "\<not> cStrike c \<le> 0" using assms(2) by (simp add: sane_contract_def not_le_if_less)
  moreover have "ToUpper (TrimSpace (cRight c)) \<in> {''C'', ''P''}"
    using assms(2) by (intro rights_upper) (simp add: sane_contract_def)
  ultimately show ?thesis
    unfolding greeks_of_def ComputeGreeks_ok
    using year_fraction_pos [OF assms(3)] not_le_if_less [OF assms(4)] by blast
qed

lemma price_contract_ok:
  assumes "sane_inputs inp" "usable_anchor (biSigma inp)" "sane_contract (biAsOf inp) c"
  shows "\<exists>r. price_contract inp (live_vols inp) i c = Inr r \<and> (r = None \<longleftrightarrow> \<not> is_live (biAsOf inp) c)"
proof -
  have v: "live_vols inp = None" using assms(1) by (simp add: live_vols_def sane_inputs_def)
  obtain dte where d: "DTE c (biAsOf inp) = Inr dte"
    using assms(3) by (cases "DTE c (biAsOf inp)") (auto simp: sane_contract_def)
  show ?thesis
  proof (cases "dte < 1")
    case True
    then show ?thesis by (simp add: price_contract_def d is_live_def)
  next
    case False
    then have "lit HVolStep < biSigma inp dte" using assms(2) by (simp add: usable_anchor_def)
    then obtain g where g: "greeks_of inp (biSpot inp) c dte (biSigma inp dte) = Inr g"
      using greeks_of_ok [OF assms(1,3) False] by blast
    have iv: "\<exists>gq. greeks_of inp (biSpot inp) c dte (cIV c) = Inr gq" if "cIV c > 0"
    proof -
      have "lit HVolStep < cIV c" using assms(3) that not_le_if_less by (auto simp: sane_contract_def)
      then show ?thesis using greeks_of_ok [OF assms(1,3) False] by blast
    qed
    then show ?thesis
      using g False by (auto simp: price_contract_def d is_live_def v vol_at_def Let_def)
  qed
qed

lemma snapshot_succeeds:
  assumes "sane_inputs inp" "usable_anchor (biSigma inp)"
    and "\<forall>c \<in> set (chContracts (biChain inp)). sane_contract (biAsOf inp) c"
    and "\<exists>c \<in> set (chContracts (biChain inp)). is_live (biAsOf inp) c"
  shows "\<exists>sn. ComputeSnapshot inp = Inr sn"
proof (rule ComputeSnapshot_ok)
  fix i c assume "c \<in> set (chContracts (biChain inp))"
  then show "\<exists>r. price_contract inp (live_vols inp) i c = Inr r"
    using price_contract_ok [OF assms(1,2)] assms(3) by blast
next
  show "\<exists>c \<in> set (chContracts (biChain inp)). \<forall>i. price_contract inp (live_vols inp) i c \<noteq> Inr None"
    using price_contract_ok [OF assms(1,2)] assms(3,4) by (metis Inr_inject)
next
  fix c assume "c \<in> set (chContracts (biChain inp))"
  then have "0 < cStrike c" using assms(3) by (simp add: sane_contract_def)
  then show "cStrike c \<noteq> NaN" by auto
qed (use assms(1) in \<open>simp add: sane_inputs_def\<close>)

text \<open>A small two-class book on which every level is populated.\<close>

definition demo_leg :: "int \<Rightarrow> string \<Rightarrow> string \<Rightarrow> real \<Rightarrow> contract" where
  "demo_leg i cls r k =
     \<lparr>cConId = i, cTicker = ''SPX'', cStrike = Fin k, cRight = r, cExpiryDate = ''19710101'',
      cTradingClass = cls, cMultiplier = Fin 100, cOpenInterest = Fin 10, cExchange = ''CBOE'',
      cSettlement = [], cSDTier = Fin 0, cIV = Fin 0, cBid = Fin 0, cAsk = Fin 0\<rparr>"

definition demo_inputs :: book_inputs where
  "demo_inputs =
     \<lparr>biChain = \<lparr>chTicker = ''SPX'', chSpot = Fin 100, chAsOfMs = 0,
        chContracts = [demo_leg 1 ''SPX'' ''C'' 100, demo_leg 2 ''SPXW'' ''P'' 90],
        chUnderlyingType = ''IND'', chExchange = ''CBOE''\<rparr>,
      biSpot = Fin 100, biAsOf = 0, biR = Fin 0, biQ = Fin 0, biSigma = (\<lambda>_. Fin (1 / 4)),
      biSkipFlip = True, biLiveBlend = False\<rparr>"

lemma demo_leg_DTE: "DTE (demo_leg i cls r k) 0 = Inr (Fin 365)"
proof -
  have "parse_ymd ''19710101'' = Some 365" "day_of 0 = 0" by code_simp+
  then show ?thesis using DTE_days [of "demo_leg i cls r k" 365 0] by (simp add: demo_leg_def)
qed

lemma small_HVolStep: "lit HVolStep < Fin (1 / 4)"
proof -
  obtain t where "lit HVolStep = Fin t" "t \<le> 1 / 8"
    using rnd_between [of 0 "1 / 8" HVolStep] rnd_dyadic [of 1 3] by (auto simp: HVolStep_def)
  then show ?thesis by simp
qed

lemma demo_inputs_ok:
  "sane_inputs demo_inputs" "usable_anchor (biSigma demo_inputs)"
  "\<forall>c \<in> set (chContracts (biChain demo_inputs)). sane_contract (biAsOf demo_inputs) c"
  "\<exists>c \<in> set (chContracts (biChain demo_inputs)). is_live (biAsOf demo_inputs) c"
proof -
  show "sane_inputs demo_inputs" by (simp add: sane_inputs_def demo_inputs_def)
  show "usable_anchor (biSigma demo_inputs)"
    using small_HVolStep by (simp add: usable_anchor_def demo_inputs_def)
  show "\<forall>c \<in> set (chContracts (biChain demo_inputs)). sane_contract (biAsOf demo_inputs) c"
    by (simp add: demo_inputs_def sane_contract_def demo_leg_DTE)
      (simp add: demo_leg_def RightCall_def RightPut_def zero_f64_def)
  show "\<exists>c \<in> set (chContracts (biChain demo_inputs)). is_live (biAsOf demo_inputs) c"
    by (simp add: demo_inputs_def is_live_def demo_leg_DTE one_f64_def)
qed

lemma demo_snapshot: "\<exists>sn. ComputeSnapshot demo_inputs = Inr sn"
  using demo_inputs_ok by (rule snapshot_succeeds)

text \<open>The strikes of the priced contracts are those of the chain.\<close>

definition nan_free :: "book_inputs \<Rightarrow> bool" where
  "nan_free inp \<longleftrightarrow> (\<forall>c \<in> set (chContracts (biChain inp)). cStrike c \<noteq> NaN)"

lemma nan_free_strikes: assumes "nan_free inp" shows "no_nan_strikes (priced_live inp vols)"
proof -
  have "pStrike p \<noteq> NaN" if p: "p \<in> set (priced_live inp vols)" for p
  proof -
    obtain ic where ic: "ic \<in> set (enumerate 0 (chContracts (biChain inp)))"
      "price_contract inp vols (fst ic) (snd ic) = Inr (Some p)"
      using p priced_live_in by blast
    have "snd ic \<in> set (chContracts (biChain inp))" using ic(1) by (rule in_enumerate)
    then show ?thesis using price_contract_contract [OF ic(2)] assms by (auto simp: pStrike_def nan_free_def)
  qed
  then show ?thesis by (simp add: no_nan_strikes_def)
qed

lemma demo_nan_free: "nan_free demo_inputs"
  by (simp add: nan_free_def demo_inputs_def demo_leg_def)

lemmas demo_no_nan = nan_free_strikes [OF demo_nan_free]

lemma ComputeSnapshot_frame:
  assumes "ComputeSnapshot inp = Inr sn"
  shows "snTicker sn = chTicker (biChain inp) \<and> snAsOfMs sn = chAsOfMs (biChain inp) \<and> snSpot sn = biSpot inp \<and>
    (if biSkipFlip inp then \<not> snHasGammaFlip sn \<and> snGammaFlipSpot sn = 0 \<and> snSpotProfile sn = []
     else FindFlip inp (live_vols inp) =
       Inr \<lparr>frHasFlip = snHasGammaFlip sn, frFlipSpot = snGammaFlipSpot sn, frProfile = snSpotProfile sn\<rparr>)"
proof -
  obtain acc ss es cs base where base: "base = base_snapshot inp acc ss es cs"
    "biSkipFlip inp \<and> sn = base \<or> \<not> biSkipFlip inp \<and> (\<exists>fl. FindFlip inp (live_vols inp) = Inr fl \<and> sn = with_flip fl base)"
    using ComputeSnapshot_Inr [OF assms] by metis
  then show ?thesis
    by (cases "findWalls ss (baHasCalls acc) (baHasPuts acc)") (auto simp: base_snapshot_def with_flip_def)
qed

text \<open>
  Property C5. Every field of a snapshot of a chain in which no strike is NaN: the totals are the
  fold of the rounded additions over the live contracts in chain order; the per-strike curve
  is sorted by strike with one entry per strike traded; the call and the put wall are what
  \<^verbatim>\<open>findWalls\<close> reads off that curve for the sides that are traded; the per-expiry table is sorted by expiry
  and class, and each row folds its own contracts into totals, curve and sorted skew; the class
  rows fold the contracts of one class each with walls of their own, and are there only on a
  chain with several classes; the regime is the sign of the total; the flip is that of \<^verbatim>\<open>FindFlip\<close>, or
  left empty when it is skipped; ticker, time and spot are those of the input.
\<close>

theorem snapshot_is_fold:
  assumes "ComputeSnapshot inp = Inr sn" "\<forall>c \<in> set (chContracts (biChain inp)). cStrike c \<noteq> NaN"
  shows "priced_live inp (live_vols inp) \<noteq> [] \<and>
    snTicker sn = chTicker (biChain inp) \<and> snAsOfMs sn = chAsOfMs (biChain inp) \<and> snSpot sn = biSpot inp \<and>
    snTotals sn = fold add_totals (priced_live inp (live_vols inp)) zero_totals \<and>
    snPerStrike sn = strikes_of (priced_live inp (live_vols inp)) \<and>
    snCallWall sn = fst (findWalls (snPerStrike sn) (list_ex is_call (priced_live inp (live_vols inp)))
      (list_ex (\<lambda>p. \<not> is_call p) (priced_live inp (live_vols inp)))) \<and>
    snPutWall sn = snd (findWalls (snPerStrike sn) (list_ex is_call (priced_live inp (live_vols inp)))
      (list_ex (\<lambda>p. \<not> is_call p) (priced_live inp (live_vols inp)))) \<and>
    snPerExpiry sn = map (expiry_of (multi_class (biChain inp)) (priced_live inp (live_vols inp)))
      (sort (firsts [] (map exp_key (priced_live inp (live_vols inp))))) \<and>
    snClasses sn = (if multi_class (biChain inp)
      then map (class_of (priced_live inp (live_vols inp))) (sort (firsts [] (map pClass (priced_live inp (live_vols inp)))))
      else []) \<and>
    snRegime sn = RegimeFor (tGEX (snTotals sn)) \<and>
    (if biSkipFlip inp then \<not> snHasGammaFlip sn \<and> snGammaFlipSpot sn = 0 \<and> snSpotProfile sn = []
     else FindFlip inp (live_vols inp) =
       Inr \<lparr>frHasFlip = snHasGammaFlip sn, frFlipSpot = snGammaFlipSpot sn, frProfile = snSpotProfile sn\<rparr>)"
proof -
  have "no_nan_strikes (priced_live inp (live_vols inp))" using assms(2) by (intro nan_free_strikes) (simp add: nan_free_def)
  note lv = ComputeSnapshot_levels [OF assms(1) this]
  show ?thesis using lv(1-5,7) ComputeSnapshot_frame [OF assms(1)] arg_cong [OF lv(6), of fst] arg_cong [OF lv(6), of snd]
    by simp
qed

theorem snapshot_is_fold_witness:
  "\<exists>sn. ComputeSnapshot demo_inputs = Inr sn \<and>
     snTotals sn = fold add_totals (priced_live demo_inputs (live_vols demo_inputs)) zero_totals \<and>
     snCallWall sn = fst (findWalls (snPerStrike sn) (list_ex is_call (priced_live demo_inputs (live_vols demo_inputs)))
      (list_ex (\<lambda>p. \<not> is_call p) (priced_live demo_inputs (live_vols demo_inputs))))"
proof -
  obtain sn where sn: "ComputeSnapshot demo_inputs = Inr sn" using demo_snapshot by blast
  from snapshot_is_fold [OF sn demo_nan_free [unfolded nan_free_def]] sn show ?thesis by blast
qed

text \<open>
  Fact. Trading classes are segregated: on a chain with several classes the
  snapshot has one row per class with live contracts, sorted by name, whose count,
  totals, strikes and walls fold the contracts of that class alone and whose settlement
  is that of its first contract; on a single-class chain there are no class rows.
\<close>

theorem snapshot_classes_segregated:
  assumes "ComputeSnapshot inp = Inr sn" "no_nan_strikes (priced_live inp (live_vols inp))"
  shows "snClasses sn = (if multi_class (biChain inp)
    then map (class_of (priced_live inp (live_vols inp)))
      (sort (firsts [] (map pClass (priced_live inp (live_vols inp)))))
    else [])"
  using ComputeSnapshot_levels(5) [OF assms] .

theorem snapshot_classes_segregated_witness:
  "\<exists>sn. ComputeSnapshot demo_inputs = Inr sn \<and>
     snClasses sn = map (class_of (priced_live demo_inputs (live_vols demo_inputs)))
       (sort (firsts [] (map pClass (priced_live demo_inputs (live_vols demo_inputs)))))"
proof -
  obtain sn where sn: "ComputeSnapshot demo_inputs = Inr sn" using demo_snapshot by blast
  have "multi_class (biChain demo_inputs)"
    by (simp add: multi_class_def demo_inputs_def demo_leg_def)
  then show ?thesis using snapshot_classes_segregated [OF sn demo_no_nan] sn by auto
qed

section \<open>Walls\<close>

definition call_wall_of :: "strike_exposure \<Rightarrow> wall" where
  "call_wall_of se = \<lparr>wStrike = seStrike se, wHasWall = True, wBestGEX = seCallGEX se\<rparr>"

definition put_wall_of :: "strike_exposure \<Rightarrow> wall" where
  "put_wall_of se = \<lparr>wStrike = seStrike se, wHasWall = True, wBestGEX = sePutGEX se\<rparr>"

lemma call_scan:
  "fold call_step ss (case b of None \<Rightarrow> zero_wall | Some se \<Rightarrow> call_wall_of se) =
     (case fold (highest.scan_step seCallGEX) ss b of None \<Rightarrow> zero_wall | Some se \<Rightarrow> call_wall_of se)"
proof (induction ss arbitrary: b)
  case Nil
  show ?case by simp
next
  case (Cons se ss)
  have "call_step se (case b of None \<Rightarrow> zero_wall | Some se \<Rightarrow> call_wall_of se) =
      (case highest.scan_step seCallGEX se b of None \<Rightarrow> zero_wall | Some se \<Rightarrow> call_wall_of se)"
    by (auto simp: call_step_def highest.scan_step_def call_wall_of_def zero_wall_def split: option.splits)
  then show ?case by (simp only: fold_simps Cons.IH)
qed

lemma put_scan:
  "fold put_step ss (case b of None \<Rightarrow> zero_wall | Some se \<Rightarrow> put_wall_of se) =
     (case fold (lowest.scan_step sePutGEX) ss b of None \<Rightarrow> zero_wall | Some se \<Rightarrow> put_wall_of se)"
proof (induction ss arbitrary: b)
  case Nil
  show ?case by simp
next
  case (Cons se ss)
  have "put_step se (case b of None \<Rightarrow> zero_wall | Some se \<Rightarrow> put_wall_of se) =
      (case lowest.scan_step sePutGEX se b of None \<Rightarrow> zero_wall | Some se \<Rightarrow> put_wall_of se)"
    by (auto simp: put_step_def lowest.scan_step_def put_wall_of_def zero_wall_def split: option.splits)
  then show ?case by (simp only: fold_simps Cons.IH)
qed

text \<open>
  Property C11. The walls are extrema of the curve: a side without contracts has no
  wall; otherwise the call wall is the strike with the greatest call exposure and the
  put wall the strike with the least put exposure, the first such strike of the curve
  when several tie.
\<close>

theorem walls_are_extrema:
  assumes "ss \<noteq> []" "\<forall>se \<in> set ss. seCallGEX se \<noteq> NaN \<and> sePutGEX se \<noteq> NaN"
  shows "(\<not> hasCalls \<longrightarrow> fst (findWalls ss hasCalls hasPuts) = zero_wall) \<and>
    (\<not> hasPuts \<longrightarrow> snd (findWalls ss hasCalls hasPuts) = zero_wall) \<and>
    (hasCalls \<longrightarrow> (\<exists>i < length ss. fst (findWalls ss hasCalls hasPuts) =
        \<lparr>wStrike = seStrike (ss ! i), wHasWall = True, wBestGEX = seCallGEX (ss ! i)\<rparr> \<and>
        (\<forall>j < length ss. \<not> seCallGEX (ss ! j) > seCallGEX (ss ! i)) \<and>
        (\<forall>j < i. seCallGEX (ss ! i) > seCallGEX (ss ! j)))) \<and>
    (hasPuts \<longrightarrow> (\<exists>i < length ss. snd (findWalls ss hasCalls hasPuts) =
        \<lparr>wStrike = seStrike (ss ! i), wHasWall = True, wBestGEX = sePutGEX (ss ! i)\<rparr> \<and>
        (\<forall>j < length ss. \<not> sePutGEX (ss ! j) < sePutGEX (ss ! i)) \<and>
        (\<forall>j < i. sePutGEX (ss ! i) < sePutGEX (ss ! j))))"
proof -
  obtain i where i: "highest.wins seCallGEX ss i" "fold (highest.scan_step seCallGEX) ss None = Some (ss ! i)"
    using highest.scan_wins [of seCallGEX ss] assms by (auto simp: list_all_iff)
  obtain k where k: "lowest.wins sePutGEX ss k" "fold (lowest.scan_step sePutGEX) ss None = Some (ss ! k)"
    using lowest.scan_wins [of sePutGEX ss] assms by (auto simp: list_all_iff)
  have "fold call_step ss zero_wall = call_wall_of (ss ! i)" "fold put_step ss zero_wall = put_wall_of (ss ! k)"
    using call_scan [of ss None] put_scan [of ss None] i(2) k(2) by simp_all
  then show ?thesis
    using i(1) k(1) by (auto simp: findWalls_def call_wall_of_def put_wall_of_def highest.wins_def lowest.wins_def)
qed

definition demo_curve :: "strike_exposure list" where
  "demo_curve =
     [\<lparr>seStrike = Fin 90, seCallGEX = Fin 1, sePutGEX = Fin (- 3), seNetGEX = Fin (- 2)\<rparr>,
      \<lparr>seStrike = Fin 100, seCallGEX = Fin 5, sePutGEX = Fin (- 3), seNetGEX = Fin 2\<rparr>]"

theorem walls_are_extrema_witness:
  "(\<exists>i < 2. fst (findWalls demo_curve True True) =
        \<lparr>wStrike = seStrike (demo_curve ! i), wHasWall = True, wBestGEX = seCallGEX (demo_curve ! i)\<rparr>) \<and>
   findWalls demo_curve True True =
     (\<lparr>wStrike = Fin 100, wHasWall = True, wBestGEX = Fin 5\<rparr>,
      \<lparr>wStrike = Fin 90, wHasWall = True, wBestGEX = Fin (- 3)\<rparr>)"
proof
  have "length demo_curve = 2" "demo_curve \<noteq> []"
    "\<forall>se \<in> set demo_curve. seCallGEX se \<noteq> NaN \<and> sePutGEX se \<noteq> NaN"
    by (simp_all add: demo_curve_def)
  then show "\<exists>i < 2. fst (findWalls demo_curve True True) =
        \<lparr>wStrike = seStrike (demo_curve ! i), wHasWall = True, wBestGEX = seCallGEX (demo_curve ! i)\<rparr>"
    using walls_are_extrema [of demo_curve True True] by auto
  show "findWalls demo_curve True True =
     (\<lparr>wStrike = Fin 100, wHasWall = True, wBestGEX = Fin 5\<rparr>,
      \<lparr>wStrike = Fin 90, wHasWall = True, wBestGEX = Fin (- 3)\<rparr>)"
    by (simp add: findWalls_def demo_curve_def call_step_def put_step_def zero_wall_def)
qed

section \<open>The blended surface without quotes\<close>

lemma no_quotes_groups:
  "\<forall>c \<in> set cs. cIV c \<le> 0 \<Longrightarrow> fold (quote_step multi asOf) cs groups = groups"
  by (induction cs arbitrary: groups) (simp_all add: quote_step_def is_quoted_def)

lemma no_quote_vol:
  assumes "cIV c \<le> 0" "DTE c (biAsOf inp) = Inr dte" "\<not> dte < 1"
  shows "blended_vol inp multi [] c = biSigma inp dte"
proof -
  have "Fin 0 \<le> lit (1 / 10000)" by (rule rnd_nonneg) simp
  then have "(0 :: f64) \<le> lit (1 / 10000)" "cIV c \<le> lit (1 / 10000)"
    using assms(1) le_f64_trans by (auto simp: zero_f64_def)
  then show ?thesis using assms by (simp add: blended_vol_def BlendSkewCarrier_def)
qed

lemma no_quote_vols:
  assumes "\<forall>c \<in> set (chContracts (biChain inp)). cIV c \<le> 0" "i < length (chContracts (biChain inp))"
    "DTE (chContracts (biChain inp) ! i) (biAsOf inp) = Inr dte" "\<not> dte < 1"
  shows "blendedVols inp multi ! i = biSigma inp dte"
  using no_quote_vol [OF _ assms(3,4)] assms(1,2) no_quotes_groups [OF assms(1)]
  by (simp add: blendedVols_def Let_def)

lemma blend_irrelevant_step:
  assumes "\<forall>c \<in> set (chContracts (biChain inp)). cIV c \<le> 0"
    "ic \<in> set (enumerate 0 (chContracts (biChain inp)))"
  shows "price_contract inp (Some (blendedVols inp multi)) (fst ic) (snd ic) =
         price_contract inp None (fst ic) (snd ic)"
    and "gex_step inp spot (Some (blendedVols inp multi)) ic = gex_step inp spot None ic"
proof -
  have ic: "fst ic < length (chContracts (biChain inp))" "snd ic = chContracts (biChain inp) ! fst ic"
    using assms(2) by (auto simp: in_set_enumerate_eq)
  have "vol_at inp (Some (blendedVols inp multi)) (fst ic) dte = vol_at inp None (fst ic) dte"
    if "DTE (snd ic) (biAsOf inp) = Inr dte" "\<not> dte < 1" for dte
    using no_quote_vols [OF assms(1) ic(1), of dte multi] that ic(2) by (simp add: vol_at_def)
  then show "price_contract inp (Some (blendedVols inp multi)) (fst ic) (snd ic) =
         price_contract inp None (fst ic) (snd ic)"
    and "gex_step inp spot (Some (blendedVols inp multi)) ic = gex_step inp spot None ic"
    by (auto simp: price_contract_def gex_step_def Let_def fun_eq_iff split: sum.splits)
qed

lemma fold_res_cong:
  "(\<And>x s. x \<in> set xs \<Longrightarrow> f x s = g x s) \<Longrightarrow> fold_res f xs s = fold_res g xs s"
proof (induction xs arbitrary: s)
  case Nil
  show ?case by simp
next
  case (Cons x xs)
  then have "fold_res f xs = fold_res g xs" by (simp add: fun_eq_iff)
  then show ?case using Cons.prems by simp
qed

lemma blend_irrelevant:
  assumes "\<forall>c \<in> set (chContracts (biChain inp)). cIV c \<le> 0"
  shows "book_loop inp (Some (blendedVols inp m)) multi = book_loop inp None multi"
    and "totalGEXAt inp spot (Some (blendedVols inp m)) = totalGEXAt inp spot None"
    and "FindFlip inp (Some (blendedVols inp m)) = FindFlip inp None"
proof -
  show "book_loop inp (Some (blendedVols inp m)) multi = book_loop inp None multi"
    unfolding book_loop_def
    by (intro fold_res_cong) (simp add: book_step_def blend_irrelevant_step(1) [OF assms])
  show t: "totalGEXAt inp spot (Some (blendedVols inp m)) = totalGEXAt inp spot None" for spot
    unfolding totalGEXAt_def by (intro fold_res_cong) (simp add: blend_irrelevant_step(2) [OF assms])
  have o: "gex_objective inp (Some (blendedVols inp m)) = gex_objective inp None"
    by (simp add: fun_eq_iff gex_objective_def t)
  show "FindFlip inp (Some (blendedVols inp m)) = FindFlip inp None"
    unfolding FindFlip_def flip_profile_def o t ..
qed

lemma update_inputs:
  "book_loop (inp\<lparr>biLiveBlend := b\<rparr>) = book_loop inp" "FindFlip (inp\<lparr>biLiveBlend := b\<rparr>) = FindFlip inp"
  "base_snapshot (inp\<lparr>biLiveBlend := b\<rparr>) = base_snapshot inp" "blendedVols (inp\<lparr>biLiveBlend := b\<rparr>) = blendedVols inp"
proof -
  have g: "greeks_of (inp\<lparr>biLiveBlend := b\<rparr>) = greeks_of inp" "vol_at (inp\<lparr>biLiveBlend := b\<rparr>) = vol_at inp"
    by (simp_all add: fun_eq_iff greeks_of_def vol_at_def split: option.split)
  have s: "gex_step (inp\<lparr>biLiveBlend := b\<rparr>) = gex_step inp" "price_contract (inp\<lparr>biLiveBlend := b\<rparr>) = price_contract inp"
    by (simp_all add: fun_eq_iff gex_step_def price_contract_def g Let_def split: sum.split)
  have t: "totalGEXAt (inp\<lparr>biLiveBlend := b\<rparr>) = totalGEXAt inp" by (simp add: fun_eq_iff totalGEXAt_def s)
  show "book_loop (inp\<lparr>biLiveBlend := b\<rparr>) = book_loop inp"
  proof -
    have bs: "book_step (inp\<lparr>biLiveBlend := b\<rparr>) = book_step inp" unfolding fun_eq_iff book_step_def s by simp
    show ?thesis by (intro ext) (simp add: book_loop_def bs)
  qed
  show "FindFlip (inp\<lparr>biLiveBlend := b\<rparr>) = FindFlip inp"
  proof -
    have o: "gex_objective (inp\<lparr>biLiveBlend := b\<rparr>) = gex_objective inp" by (simp add: fun_eq_iff gex_objective_def t)
    show ?thesis by (intro ext) (unfold FindFlip_def flip_profile_def t o, simp)
  qed
  show "base_snapshot (inp\<lparr>biLiveBlend := b\<rparr>) = base_snapshot inp"
    by (simp add: fun_eq_iff base_snapshot_def)
  show "blendedVols (inp\<lparr>biLiveBlend := b\<rparr>) = blendedVols inp"
  proof -
    have v: "blended_vol (inp\<lparr>biLiveBlend := b\<rparr>) = blended_vol inp"
      by (simp add: fun_eq_iff blended_vol_def split: sum.split option.split)
    show ?thesis by (intro ext) (simp add: blendedVols_def v)
  qed
qed

text \<open>
  Fact. The blend is conservative: on a chain where no contract quotes an implied
  volatility, turning the live blend on changes nothing, errors, levels and flip
  included: every contract prices at the anchor.
\<close>

theorem blend_without_quotes:
  assumes "\<forall>c \<in> set (chContracts (biChain inp)). cIV c \<le> 0"
  shows "ComputeSnapshot (inp\<lparr>biLiveBlend := True\<rparr>) = ComputeSnapshot (inp\<lparr>biLiveBlend := False\<rparr>)"
  by (simp add: ComputeSnapshot_def live_vols_def Let_def update_inputs blend_irrelevant [OF assms]
      cong: if_cong)

theorem blend_without_quotes_witness:
  "ComputeSnapshot (demo_inputs\<lparr>biLiveBlend := True\<rparr>) = ComputeSnapshot (demo_inputs\<lparr>biLiveBlend := False\<rparr>)"
  by (rule blend_without_quotes) (simp add: demo_inputs_def demo_leg_def zero_f64_def)

section \<open>The flip\<close>

text \<open>The scan for the nearest bracket is a running minimum over the sign changes.\<close>

lemma nearest_scan:
  assumes "\<forall>i \<in> set idxs. mid_distance spot prof i < Fin max_finite"
    "st = (case b of None \<Rightarrow> (Fin max_finite, None) | Some i \<Rightarrow> (mid_distance spot prof i, Some i))"
  shows "snd (fold (nearest_step spot prof) idxs st) =
    fold (lowest.scan_step (mid_distance spot prof)) (filter (sign_change prof) idxs) b"
  using assms
proof (induction idxs arbitrary: st b)
  case Nil
  then show ?case by (cases b) simp_all
next
  case (Cons i idxs)
  show ?case
  proof (cases "sign_change prof i")
    case False
    then show ?thesis using Cons.IH [of st b] Cons.prems by (simp add: nearest_step_def)
  next
    case True
    let ?b = "lowest.scan_step (mid_distance spot prof) i b"
    have "nearest_step spot prof i st =
        (case ?b of None \<Rightarrow> (Fin max_finite, None) | Some i \<Rightarrow> (mid_distance spot prof i, Some i))"
      using True Cons.prems by (cases b) (auto simp: nearest_step_def lowest.scan_step_def)
    then show ?thesis using Cons.IH [of _ ?b] Cons.prems(1) True by simp
  qed
qed

lemma nearest_bracket_spec:
  assumes "\<forall>i < length prof - 1. mid_distance spot prof i < Fin max_finite"
  shows "case nearest_bracket spot prof of
      None \<Rightarrow> \<forall>i < length prof - 1. \<not> sign_change prof i
    | Some i \<Rightarrow> i < length prof - 1 \<and> sign_change prof i \<and>
        (\<forall>j < length prof - 1. sign_change prof j \<longrightarrow> \<not> mid_distance spot prof j < mid_distance spot prof i)"
proof -
  let ?is = "filter (sign_change prof) [0..<length prof - 1]"
  have nb: "nearest_bracket spot prof = fold (lowest.scan_step (mid_distance spot prof)) ?is None"
    unfolding nearest_bracket_def using nearest_scan [OF _ refl, of "[0..<length prof - 1]" spot prof None] assms by simp
  show ?thesis
  proof (cases "?is = []")
    case True
    then show ?thesis by (simp add: nb filter_empty_conv)
  next
    case False
    have "mid_distance spot prof i \<noteq> NaN" if "i < length prof - 1" for i
      using assms that by (cases "mid_distance spot prof i") auto
    then have "list_all (\<lambda>i. mid_distance spot prof i \<noteq> NaN) ?is" by (simp add: list_all_iff)
    then obtain k where k: "lowest.wins (mid_distance spot prof) ?is k"
      "fold (lowest.scan_step (mid_distance spot prof)) ?is None = Some (?is ! k)"
      using lowest.scan_wins False by blast
    have kl: "k < length ?is" and best: "\<forall>j < length ?is. \<not> mid_distance spot prof (?is ! j) < mid_distance spot prof (?is ! k)"
      using k(1) by (simp_all add: lowest.wins_def)
    have "\<not> mid_distance spot prof j < mid_distance spot prof (?is ! k)"
      if "j < length prof - 1" "sign_change prof j" for j
    proof -
      have "j \<in> set ?is" using that by simp
      then obtain m where "m < length ?is" "?is ! m = j" unfolding in_set_conv_nth by blast
      then show ?thesis using best by blast
    qed
    moreover have "?is ! k \<in> set ?is" using kl by (rule nth_mem)
    then have "?is ! k < length prof - 1" "sign_change prof (?is ! k)" by auto
    ultimately show ?thesis unfolding nb k(2) by simp
  qed
qed

text \<open>Grid spots and distances stay finite for every spot up to 2 to the 40.\<close>

lemma flip_spot_bounded:
  assumes "0 \<le> x" "x \<le> 2 ^ 40" "i \<le> 80" shows "bounded_by (2 ^ 50) (flip_spot (Fin x) i)"
proof -
  obtain a b where ab: "lit (1 - flipSpan) = Fin a" "lit (1 + flipSpan) = Fin b" "0 \<le> a" "a \<le> 1" "1 \<le> b" "b \<le> 2"
    using rnd_between [of 0 1 "1 - flipSpan"] rnd_between [of 1 2 "1 + flipSpan"]
    by (auto simp: flipSpan_def f64_simps)
  have bx: "bounded_by (2 ^ 40) (Fin x)" "bounded_by 1 (Fin a)" "bounded_by 2 (Fin b)"
    using assms(1,2) ab by (simp_all add: bounded_by_def)
  obtain lo where lo: "Fin x * Fin a = Fin lo" "0 \<le> lo" "lo \<le> 2 ^ 40"
    using bounded_by_times [OF bx(1,2)] by (auto simp: bounded_by_def)
  obtain hi where hi: "Fin x * Fin b = Fin hi" "0 \<le> hi" "hi \<le> 2 ^ 41"
    using bounded_by_times [OF bx(1,3)] by (auto simp: bounded_by_def)
  have "rnd (x * a) \<le> rnd (x * b)" using assms(1) ab by (intro rnd_mono mult_left_mono) simp_all
  then have le: "lo \<le> hi" using lo hi by simp
  have d: "bounded_by (2 ^ 41) (Fin hi - Fin lo)"
    using le hi lo bounded_by_rnd [of "hi - lo" "2 ^ 41"] by (simp add: minus_f64_def)
  have "bounded_by 80 (f64_of_int (int i))"
    unfolding f64_of_int_def using assms(3) by (intro bounded_by_rnd) simp_all
  from bounded_by_times [OF d this] have "bounded_by (2 ^ 41 * 80) ((Fin hi - Fin lo) * f64_of_int (int i))" by simp
  then obtain y where y: "(Fin hi - Fin lo) * f64_of_int (int i) = Fin y" "0 \<le> y" "y \<le> 2 ^ 41 * 80"
    by (auto simp: bounded_by_def)
  have "bounded_by (2 ^ 49) (Fin y / lit (of_nat flipPoints - 1))"
    using y bounded_by_rnd [of "y / 80" "2 ^ 49"] by (simp add: flipPoints_def f64_simps)
  moreover have "bounded_by (2 ^ 40) (Fin lo)" using lo by (simp add: bounded_by_def)
  ultimately have "bounded_by (2 ^ 40 + 2 ^ 49) (Fin lo + Fin y / lit (of_nat flipPoints - 1))"
    by (intro bounded_by_plus) simp_all
  then have "bounded_by (2 ^ 40 + 2 ^ 49) (flip_spot (Fin x) i)"
    unfolding flip_spot_def Let_def ab(1,2) lo(1) hi(1) y(1) .
  then show ?thesis by (rule bounded_by_mono) simp
qed

lemma mid_distance_finite:
  assumes "0 \<le> x" "x \<le> 2 ^ 40" "bounded_by (2 ^ 50) (sgSpot (prof ! i))" "bounded_by (2 ^ 50) (sgSpot (prof ! Suc i))"
  shows "mid_distance (Fin x) prof i < Fin max_finite"
proof -
  obtain s where s: "sgSpot (prof ! i) + sgSpot (prof ! Suc i) = Fin s" "0 \<le> s" "s \<le> 2 ^ 51"
    using bounded_by_plus [OF assms(3,4)] by (auto simp: bounded_by_def)
  obtain h where h: "rnd (s / 2) = Fin h" "0 \<le> h" "h \<le> 2 ^ 51"
    using bounded_by_rnd [of "s / 2" "2 ^ 51"] s by (auto simp: bounded_by_def)
  have "- (2 ^ 40) \<le> h - x" "h - x \<le> 2 ^ 51" using assms(1,2) h by simp_all
  moreover have "rnd (- (2 ^ 40)) = Fin (- (2 ^ 40))" "rnd (2 ^ 51) = Fin (2 ^ 51)"
    using rnd_of_int [of "- (2 ^ 40)"] rnd_of_int [of "2 ^ 51"] by simp_all
  ultimately obtain r where r: "rnd (h - x) = Fin r" "- (2 ^ 40) \<le> r" "r \<le> 2 ^ 51"
    using rnd_between by blast
  then have "\<bar>r\<bar> < 2 ^ 53" by (simp add: abs_less_iff)
  then have "\<bar>r\<bar> < max_finite" using max_finite_ge by linarith
  then show ?thesis using s(1) h(1) r(1) by (simp add: mid_distance_def minus_f64_def f64_simps)
qed

lemma flip_profile_spec:
  assumes "flip_profile inp vols = Inr prof"
  shows "length prof = 81"
    and "i < 81 \<Longrightarrow> sgSpot (prof ! i) = flip_spot (biSpot inp) i"
    and "i < 81 \<Longrightarrow> totalGEXAt inp (sgSpot (prof ! i)) vols = Inr (sgTotalGEX (prof ! i))"
proof -
  let ?f = "\<lambda>i. bind_res (totalGEXAt inp (flip_spot (biSpot inp) i) vols)
      (\<lambda>t. Inr \<lparr>sgSpot = flip_spot (biSpot inp) i, sgTotalGEX = t\<rparr>)"
  have m: "map ?f [0..<81] = map Inr prof"
    using assms by (simp add: flip_profile_def flipPoints_def map_res_Inr_iff)
  have l: "length prof = 81" using map_eq_imp_length_eq [OF m] by simp
  then show "length prof = 81" .
  have "?f i = Inr (prof ! i)" if "i < 81" using arg_cong [OF m, of "\<lambda>xs. xs ! i"] that l by simp
  then show "i < 81 \<Longrightarrow> sgSpot (prof ! i) = flip_spot (biSpot inp) i"
    "i < 81 \<Longrightarrow> totalGEXAt inp (sgSpot (prof ! i)) vols = Inr (sgTotalGEX (prof ! i))"
    by (cases "totalGEXAt inp (flip_spot (biSpot inp) i) vols"; auto dest: sym)+
qed

text \<open>The grid is increasing.\<close>

lemma flip_spot_form:
  assumes "0 \<le> x" "x \<le> 2 ^ 40"
  shows "\<exists>lo D. 0 \<le> lo \<and> 0 \<le> D \<and> (\<forall>i \<le> 80. flip_spot (Fin x) i = rnd (lo + rnd_real (rnd_real (D * real i) / 80)))"
proof -
  obtain a b where ab: "lit (1 - flipSpan) = Fin a" "lit (1 + flipSpan) = Fin b" "0 \<le> a" "a \<le> 1" "1 \<le> b" "b \<le> 2"
    using rnd_between [of 0 1 "1 - flipSpan"] rnd_between [of 1 2 "1 + flipSpan"]
    by (auto simp: flipSpan_def f64_simps)
  have bx: "bounded_by (2 ^ 40) (Fin x)" "bounded_by 1 (Fin a)" "bounded_by 2 (Fin b)"
    using assms ab by (simp_all add: bounded_by_def)
  obtain lo where lo: "Fin x * Fin a = Fin lo" "0 \<le> lo" "lo \<le> 2 ^ 40"
    using bounded_by_times [OF bx(1,2)] by (auto simp: bounded_by_def)
  obtain hi where hi: "Fin x * Fin b = Fin hi" "0 \<le> hi" "hi \<le> 2 ^ 41"
    using bounded_by_times [OF bx(1,3)] by (auto simp: bounded_by_def)
  have "rnd (x * a) \<le> rnd (x * b)" using assms(1) ab by (intro rnd_mono mult_left_mono) simp_all
  then have le: "lo \<le> hi" using lo hi by simp
  obtain D where D: "Fin hi - Fin lo = Fin D" "0 \<le> D" "D \<le> 2 ^ 41"
    using le hi lo bounded_by_rnd [of "hi - lo" "2 ^ 41"] by (auto simp: minus_f64_def bounded_by_def)
  have "flip_spot (Fin x) i = rnd (lo + rnd_real (rnd_real (D * real i) / 80))" if "i \<le> 80" for i
  proof -
    have i: "f64_of_int (int i) = Fin (real i)" using that rnd_of_int [of "int i"] by (simp add: f64_of_int_def)
    have "bounded_by 80 (Fin (real i))" "bounded_by (2 ^ 41) (Fin D)" using that D by (simp_all add: bounded_by_def)
    from bounded_by_times [OF this(2,1)] obtain y where y: "rnd (D * real i) = Fin y" "0 \<le> y" "y \<le> 2 ^ 41 * 80"
      by (auto simp: bounded_by_def)
    obtain z where z: "rnd (y / 80) = Fin z" using bounded_by_rnd [of "y / 80" "2 ^ 49"] y by (auto simp: bounded_by_def)
    have "flip_spot (Fin x) i = rnd (lo + z)"
      unfolding flip_spot_def Let_def ab(1,2) lo(1) hi(1) D(1) i using y z by (simp add: flipPoints_def f64_simps)
    then show ?thesis using rnd_Fin [OF y(1)] rnd_Fin [OF z] by simp
  qed
  with lo(2) D(2) show ?thesis by blast
qed

lemma flip_spot_grid:
  assumes "0 \<le> x" "x \<le> 2 ^ 40" "i \<le> j" "j \<le> 80"
  shows "\<exists>r s. flip_spot (Fin x) i = Fin r \<and> flip_spot (Fin x) j = Fin s \<and> rnd r = Fin r \<and> rnd s = Fin s \<and>
    0 \<le> r \<and> r \<le> s \<and> s \<le> 2 ^ 50"
proof -
  obtain lo D where f: "0 \<le> lo" "0 \<le> D" "\<forall>i \<le> 80. flip_spot (Fin x) i = rnd (lo + rnd_real (rnd_real (D * real i) / 80))"
    using flip_spot_form [OF assms(1,2)] by blast
  have "rnd_real (rnd_real (D * real i) / 80) \<le> rnd_real (rnd_real (D * real j) / 80)"
    using f(2) assms(3) by (intro rnd_real_mono divide_right_mono mult_left_mono) simp_all
  then have "flip_spot (Fin x) i \<le> flip_spot (Fin x) j" using f(3) assms(3,4) by (simp add: rnd_mono)
  moreover obtain r where r: "flip_spot (Fin x) i = Fin r" "0 \<le> r" using flip_spot_bounded [OF assms(1,2), of i] assms(3,4) by (auto simp: bounded_by_def)
  moreover obtain s where s: "flip_spot (Fin x) j = Fin s" "s \<le> 2 ^ 50" using flip_spot_bounded [OF assms(1,2,4)] by (auto simp: bounded_by_def)
  moreover have "rnd r = Fin r" "rnd s = Fin s" using f(3) assms(3,4) r(1) s(1) rnd_Fin_iff by auto
  ultimately show ?thesis by auto
qed

text \<open>
  Property C10. The zero-gamma flip: the profile has 81 grid points with the total
  exposure of the re-priced book at each; there is a flip exactly when two neighbouring
  points differ in sign; and the reported flip lies in the sign-changing interval with the least
  distance to the spot, where it is an exact zero, or has a partner of opposite sign
  within the tolerance and no smaller residual; the one exception is a root finder whose hundred
  turns were not enough, and then the flip is its last iterate. Spots from zero to \<open>2 ^ 40\<close>.
\<close>

theorem flip_is_nearest_sign_change:
  assumes "FindFlip inp vols = Inr fl" "biSpot inp = Fin x" "0 \<le> x" "x \<le> 2 ^ 40"
  shows "length (frProfile fl) = 81 \<and>
    (\<forall>i < 81. sgSpot (frProfile fl ! i) = flip_spot (Fin x) i \<and>
       totalGEXAt inp (sgSpot (frProfile fl ! i)) vols = Inr (sgTotalGEX (frProfile fl ! i))) \<and>
    (frHasFlip fl \<longleftrightarrow> (\<exists>i < 80. sign_change (frProfile fl) i)) \<and>
    (frHasFlip fl \<longrightarrow> (\<exists>i < 80. sign_change (frProfile fl) i \<and>
       (\<forall>j < 80. sign_change (frProfile fl) j \<longrightarrow>
          \<not> mid_distance (Fin x) (frProfile fl) j < mid_distance (Fin x) (frProfile fl) i) \<and>
       flip_spot (Fin x) i \<le> frFlipSpot fl \<and> frFlipSpot fl \<le> flip_spot (Fin x) (Suc i) \<and>
       (certified (gex_objective inp vols) (lit DefaultTol) (frFlipSpot fl) \<or>
        brent_loop (gex_objective inp vols) (lit DefaultTol) DefaultMaxIter
          (brent_init (gex_objective inp vols) (flip_spot (Fin x) i) (flip_spot (Fin x) (Suc i))) = Exhausted (frFlipSpot fl))))"
proof -
  obtain prof where prof: "flip_profile inp vols = Inr prof" "frProfile fl = prof"
    using assms(1) by (rule FindFlip_profile)
  note ps = flip_profile_spec [OF prof(1)]
  have spots: "sgSpot (prof ! i) = flip_spot (Fin x) i" if "i < 81" for i
    using ps(2) [OF that] by (simp add: assms(2))
  have "mid_distance (Fin x) prof i < Fin max_finite" if "i < 80" for i
    using that flip_spot_bounded [OF assms(3,4)] spots by (intro mid_distance_finite [OF assms(3,4)]) simp_all
  then have nb: "case nearest_bracket (Fin x) prof of
      None \<Rightarrow> \<forall>i < 80. \<not> sign_change prof i
    | Some i \<Rightarrow> i < 80 \<and> sign_change prof i \<and>
        (\<forall>j < 80. sign_change prof j \<longrightarrow> \<not> mid_distance (Fin x) prof j < mid_distance (Fin x) prof i)"
    using nearest_bracket_spec [of prof "Fin x"] ps(1) by (cases "nearest_bracket (Fin x) prof") simp_all
  have head: "length prof = 81 \<and> (\<forall>i < 81. sgSpot (prof ! i) = flip_spot (Fin x) i \<and>
       totalGEXAt inp (sgSpot (prof ! i)) vols = Inr (sgTotalGEX (prof ! i)))"
    using ps spots by blast
  show ?thesis
  proof (cases "nearest_bracket (Fin x) prof")
    case None
    then have "frHasFlip fl = False" using assms(1,2) prof(1) by (auto simp: FindFlip_def)
    moreover have "\<forall>i < 80. \<not> sign_change prof i" using None nb by simp
    ultimately show ?thesis using head unfolding prof(2) by blast
  next
    case (Some i)
    then have i: "i < 80" "sign_change prof i"
      "\<forall>j < 80. sign_change prof j \<longrightarrow> \<not> mid_distance (Fin x) prof j < mid_distance (Fin x) prof i"
      using nb by simp_all
    let ?f = "gex_objective inp vols" and ?a = "flip_spot (Fin x) i" and ?b = "flip_spot (Fin x) (Suc i)"
    have r: "FindRoot ?f ?a ?b (lit DefaultTol) DefaultMaxIter = Inr (frFlipSpot fl)" "frHasFlip fl"
      using assms(1,2) prof(1) Some spots i(1)
      by (auto simp: FindFlip_def split: sum.splits)
    have v: "?f ?a = sgTotalGEX (prof ! i)" "?f ?b = sgTotalGEX (prof ! Suc i)"
      using ps(3) [of i] ps(3) [of "Suc i"] spots [of i] spots [of "Suc i"] i(1)
      by (simp_all add: gex_objective_def)
    have "finite64 (?f ?a)" "finite64 (?f ?b)"
      using r(1) by (auto simp: FindRoot_def Let_def split: if_splits)
    moreover have "opposite (?f ?a) (?f ?b)" using i(2) by (simp add: v opposite_def sign_change_def)
    ultimately have c: "certified ?f (lit DefaultTol) (frFlipSpot fl) \<or>
        brent_loop ?f (lit DefaultTol) DefaultMaxIter (brent_init ?f ?a ?b) = Exhausted (frFlipSpot fl)"
      using FindRoot_certified [of ?f ?a ?b "lit DefaultTol" DefaultMaxIter] r(1) by auto
    obtain u w where uw: "?a = Fin u" "?b = Fin w" "rnd u = Fin u" "rnd w = Fin w" "0 \<le> u" "u \<le> w" "w \<le> 2 ^ 50"
      using flip_spot_grid [OF assms(3,4), of i "Suc i"] i(1) by auto
    obtain t where t: "lit DefaultTol = Fin t" "1 / 2 ^ 11 \<le> t" "t \<le> 1" using DefaultTol_wide by blast
    have "in_box u w ?a" "in_box u w ?b" using uw by (simp_all add: in_box_def)
    moreover have "FindRoot ?f ?a ?b (Fin t) DefaultMaxIter = Inr (frFlipSpot fl)" using r(1) unfolding t(1) .
    ultimately have "in_box u w (frFlipSpot fl)" using FindRoot_within [of ?f ?a ?b t] uw(5,7) t(2,3) by simp
    then have "?a \<le> frFlipSpot fl" "frFlipSpot fl \<le> ?b" by (auto simp: in_box_def uw(1,2))
    then show ?thesis using head i r(2) c unfolding prof(2) by blast
  qed
qed

lemma flip_found: "\<exists>fl. FindFlip flip_inputs None = Inr fl \<and> frHasFlip fl"
proof -
  have "\<forall>i. \<exists>v. i \<le> 80 \<longrightarrow> totalGEXAt flip_inputs (flip_spot (Fin flip_at) i) None = Inr (Fin v) \<and> (if i = 40 then 0 < v else v = 0)"
    using flip_values by blast
  from choice [OF this] obtain V where
    W: "\<forall>i. i \<le> 80 \<longrightarrow> totalGEXAt flip_inputs (flip_spot (Fin flip_at) i) None = Inr (Fin (V i)) \<and> (if i = 40 then 0 < V i else V i = 0)" by blast
  have V: "totalGEXAt flip_inputs (flip_spot (Fin flip_at) i) None = Inr (Fin (V i))" "i \<noteq> 40 \<Longrightarrow> V i = 0" "i = 40 \<Longrightarrow> 0 < V i" if "i \<le> 80" for i
    using W [rule_format, OF that] by auto
  define prof where "prof = map (\<lambda>i. \<lparr>sgSpot = flip_spot (Fin flip_at) i, sgTotalGEX = Fin (V i)\<rparr>) [0..<flipPoints]"
  have x: "biSpot flip_inputs = Fin flip_at" "0 \<le> flip_at" "flip_at \<le> 2 ^ 40" by (simp_all add: flip_inputs_def flip_at_def)
  have p: "flip_profile flip_inputs None = Inr prof"
    unfolding flip_profile_def prof_def x(1) by (rule map_res_total) (simp add: V(1) flipPoints_def)
  have at: "sgSpot (prof ! i) = flip_spot (Fin flip_at) i" "sgTotalGEX (prof ! i) = Fin (V i)" if "i \<le> 80" for i
    using that by (simp_all add: prof_def flipPoints_def del: upt_Suc)
  have ch: "sign_change prof i \<longleftrightarrow> i = 39 \<or> i = 40" if "i < 80" for i
    using that V(2,3) [of i] V(2,3) [of "Suc i"] by (cases "i = 39"; cases "i = 40") (simp_all add: sign_change_def at zero_f64_def)
  have l: "length prof = 81" by (simp add: prof_def flipPoints_def)
  have sc: "\<exists>i < 80. sign_change prof i" using ch by (intro exI [of _ 39]) simp
  have "mid_distance (Fin flip_at) prof i < Fin max_finite" if "i < 80" for i
    using that flip_spot_bounded [OF x(2,3)] at(1) by (intro mid_distance_finite [OF x(2,3)]) simp_all
  then obtain i where i: "nearest_bracket (Fin flip_at) prof = Some i" "i < 80" "i = 39 \<or> i = 40"
    using nearest_bracket_spec [of prof "Fin flip_at"] l ch sc by (cases "nearest_bracket (Fin flip_at) prof") auto
  have f: "gex_objective flip_inputs None (flip_spot (Fin flip_at) k) = Fin (V k)" if "k \<le> 80" for k
    using V(1) [OF that] by (simp add: gex_objective_def)
  have "\<exists>z. FindRoot (gex_objective flip_inputs None) (flip_spot (Fin flip_at) i) (flip_spot (Fin flip_at) (Suc i)) (lit DefaultTol) DefaultMaxIter = Inr z"
    using i(2,3) V(2) [of 39] V(2) [of 41] by (auto simp: FindRoot_def f feq_def zero_f64_def)
  then show ?thesis using p i at(1) by (auto simp: FindFlip_def x(1))
qed

theorem flip_is_nearest_sign_change_witness:
  "\<exists>fl. FindFlip flip_inputs None = Inr fl \<and> frHasFlip fl \<and> length (frProfile fl) = 81 \<and>
     (\<exists>i < 80. sign_change (frProfile fl) i \<and>
        flip_spot (biSpot flip_inputs) i \<le> frFlipSpot fl \<and> frFlipSpot fl \<le> flip_spot (biSpot flip_inputs) (Suc i))"
proof -
  obtain fl where fl: "FindFlip flip_inputs None = Inr fl" "frHasFlip fl" using flip_found by blast
  have x: "biSpot flip_inputs = Fin flip_at" "0 \<le> flip_at" "flip_at \<le> 2 ^ 40" by (simp_all add: flip_inputs_def flip_at_def)
  show ?thesis using flip_is_nearest_sign_change [OF fl(1) x] fl x(1) by auto
qed

section \<open>One bad contract\<close>

lemma fold_res_fails:
  assumes "x \<in> set xs" "\<And>s. isl (f x s)" shows "isl (fold_res f xs s)"
  using assms(1)
proof (induction xs arbitrary: s)
  case Nil
  then show ?case by simp
next
  case (Cons y ys)
  show ?case
  proof (cases "y = x")
    case True
    then show ?thesis using assms(2) [of s] by (cases "f y s") simp_all
  next
    case False
    then show ?thesis using Cons by (cases "f y s") simp_all
  qed
qed

lemma price_contract_fails:
  assumes "c \<in> set (chContracts (biChain inp))" "\<And>i. isl (price_contract inp (live_vols inp) i c)"
  shows "isl (ComputeSnapshot inp)"
proof -
  have "c \<in> snd ` set (enumerate 0 (chContracts (biChain inp)))" using assms(1) by (simp only: snd_enumerate)
  then obtain ic where ic: "ic \<in> set (enumerate 0 (chContracts (biChain inp)))" "snd ic = c" by blast
  have "isl (book_step inp (live_vols inp) multi ic s)" for multi s
    using assms(2) [of "fst ic"] ic(2)
    by (cases "price_contract inp (live_vols inp) (fst ic) (snd ic)") (simp_all add: book_step_def)
  then have "isl (book_loop inp (live_vols inp) (multi_class (biChain inp)))"
    unfolding book_loop_def by (rule fold_res_fails [OF ic(1)])
  then obtain e where "book_loop inp (live_vols inp) (multi_class (biChain inp)) = Inl e"
    by (auto simp: isl_def)
  then show ?thesis by (simp add: ComputeSnapshot_def Let_def)
qed

text \<open>
  Fact. One junk quote blocks the whole book: a live contract whose quoted implied
  volatility is positive but not above the vanna step makes every snapshot of its chain
  fail, because the skew pricing of that contract is an error of the loop. The feed does
  not validate the field.
\<close>

theorem junk_iv_blocks_snapshot:
  assumes "c \<in> set (chContracts (biChain inp))" "is_live (biAsOf inp) c"
    "0 < cIV c" "cIV c \<le> lit HVolStep"
  shows "\<exists>e. ComputeSnapshot inp = Inl e"
proof -
  obtain dte where d: "DTE c (biAsOf inp) = Inr dte" "\<not> dte < 1"
    using assms(2) by (auto simp: is_live_def split: sum.splits)
  have g: "isl (greeks_of inp spot c dte (cIV c))" for spot
  proof -
    have "\<not> (\<exists>g. greeks_of inp spot c dte (cIV c) = Inr g)"
      unfolding greeks_of_def ComputeGreeks_ok using assms(4) by blast
    then show ?thesis by (cases "greeks_of inp spot c dte (cIV c)") simp_all
  qed
  then obtain e where e: "greeks_of inp (biSpot inp) c dte (cIV c) = Inl e" unfolding isl_def by blast
  have "isl (price_contract inp (live_vols inp) i c)" for i
    using d assms(3) e
    by (cases "greeks_of inp (biSpot inp) c dte (vol_at inp (live_vols inp) i dte)")
      (simp_all add: price_contract_def Let_def)
  then have "isl (ComputeSnapshot inp)" by (rule price_contract_fails [OF assms(1)])
  then show ?thesis by (cases "ComputeSnapshot inp") simp_all
qed

theorem junk_iv_blocks_snapshot_witness:
  "\<exists>e. ComputeSnapshot (demo_inputs\<lparr>biChain := (biChain demo_inputs)\<lparr>chContracts :=
      [demo_leg 1 ''SPX'' ''C'' 100, (demo_leg 2 ''SPX'' ''P'' 90)\<lparr>cIV := Fin (1 / 2 ^ 14)\<rparr>]\<rparr>\<rparr>) = Inl e"
proof (rule junk_iv_blocks_snapshot)
  let ?c = "(demo_leg 2 ''SPX'' ''P'' 90)\<lparr>cIV := Fin (1 / 2 ^ 14)\<rparr>"
  let ?inp = "demo_inputs\<lparr>biChain := (biChain demo_inputs)\<lparr>chContracts := [demo_leg 1 ''SPX'' ''C'' 100, ?c]\<rparr>\<rparr>"
  show "?c \<in> set (chContracts (biChain ?inp))" by (simp add: demo_inputs_def)
  have "DTE ?c 0 = DTE (demo_leg 2 ''SPX'' ''P'' 90) 0" by (simp add: DTE_def)
  then show "is_live (biAsOf ?inp) ?c" by (simp add: is_live_def demo_inputs_def demo_leg_DTE one_f64_def)
  show "0 < cIV ?c" by (simp add: zero_f64_def)
  have "rnd (1 / 2 ^ 14) \<le> rnd HVolStep" by (rule rnd_mono) (simp add: HVolStep_def)
  then show "cIV ?c \<le> lit HVolStep" using rnd_dyadic [of 1 14] by simp
qed

section \<open>Leg deltas\<close>

lemma price_contract_delta:
  assumes "price_contract inp vols i c = Inr (Some p)"
  obtains dte g where "DTE c (biAsOf inp) = Inr dte" "\<not> dte < 1"
    "greeks_of inp (biSpot inp) c dte (vol_at inp vols i dte) = Inr g"
    "pDex p = DEX (DealerQty c) (gDelta g) (biSpot inp) (cMultiplier c)"
  using assms by (auto simp: price_contract_def Let_def split: sum.splits if_splits)

text \<open>
  Fact. The hedge prices a leg as the engine does: a leg that resolves to a
  contract the snapshot prices gets the delta behind that contract's delta exposure, at
  the same volatility, blended surface included; a leg that resolves to nothing, or to
  an expired contract, prices to zero and is flagged.
\<close>

theorem leg_delta_matches_snapshot:
  assumes "k < length refs"
  shows "(\<forall>i p. resolve_leg (chContracts (biChain inp)) (refs ! k) = Some i \<longrightarrow>
      price_contract inp (live_vols inp) i (chContracts (biChain inp) ! i) = Inr (Some p) \<longrightarrow>
      lpOk (ContractDeltas inp refs ! k) \<and>
      pDex p = DEX (DealerQty (chContracts (biChain inp) ! i)) (lpDelta (ContractDeltas inp refs ! k))
        (biSpot inp) (lpMultiplier (ContractDeltas inp refs ! k))) \<and>
    (resolve_leg (chContracts (biChain inp)) (refs ! k) = None \<longrightarrow> ContractDeltas inp refs ! k = zero_price) \<and>
    (\<forall>i. resolve_leg (chContracts (biChain inp)) (refs ! k) = Some i \<longrightarrow>
      \<not> is_live (biAsOf inp) (chContracts (biChain inp) ! i) \<longrightarrow> ContractDeltas inp refs ! k = zero_price)"
proof -
  have c: "ContractDeltas inp refs ! k = price_leg inp (live_vols inp) (refs ! k)"
    using assms by (simp add: ContractDeltas_def)
  show ?thesis
  proof (intro conjI allI impI)
    fix i p assume r: "resolve_leg (chContracts (biChain inp)) (refs ! k) = Some i"
      and p: "price_contract inp (live_vols inp) i (chContracts (biChain inp) ! i) = Inr (Some p)"
    obtain dte g where "DTE (chContracts (biChain inp) ! i) (biAsOf inp) = Inr dte" "\<not> dte < 1"
      "greeks_of inp (biSpot inp) (chContracts (biChain inp) ! i) dte (vol_at inp (live_vols inp) i dte) = Inr g"
      "pDex p = DEX (DealerQty (chContracts (biChain inp) ! i)) (gDelta g) (biSpot inp)
        (cMultiplier (chContracts (biChain inp) ! i))"
      using p by (rule price_contract_delta)
    then show "lpOk (ContractDeltas inp refs ! k)"
      "pDex p = DEX (DealerQty (chContracts (biChain inp) ! i)) (lpDelta (ContractDeltas inp refs ! k))
        (biSpot inp) (lpMultiplier (ContractDeltas inp refs ! k))"
      using r by (simp_all add: c price_leg_def)
  qed (auto simp: c price_leg_def is_live_def split: sum.splits if_splits)
qed

definition demo_ref :: leg_ref where
  "demo_ref = \<lparr>lrConId = 0, lrTradingClass = ''SPX'', lrExpiry = ''19710101'', lrRight = ''C'', lrStrike = Fin 100\<rparr>"

theorem leg_delta_matches_snapshot_witness:
  "lpOk (ContractDeltas demo_inputs [demo_ref] ! 0)"
proof -
  let ?c = "chContracts (biChain demo_inputs) ! 0"
  have r: "resolve_leg (chContracts (biChain demo_inputs)) ([demo_ref] ! 0) = Some 0"
    by (simp add: resolve_leg_def by_con_def by_key_def demo_ref_def ref_key_def leg_key_def demo_inputs_def
        demo_leg_def upt_conv_Cons)
  have m: "?c \<in> set (chContracts (biChain demo_inputs))" by (simp add: demo_inputs_def)
  have "is_live (biAsOf demo_inputs) ?c"
    by (simp add: demo_inputs_def is_live_def demo_leg_DTE one_f64_def)
  then obtain p where "price_contract demo_inputs (live_vols demo_inputs) 0 ?c = Inr (Some p)"
    using price_contract_ok [OF demo_inputs_ok(1,2), of ?c 0] demo_inputs_ok(3) m by blast
  then show ?thesis using leg_delta_matches_snapshot [of 0 "[demo_ref]" demo_inputs] r by auto
qed

end
