(* ===== verification/Engine.thy ===== *)
theory Engine
  imports Systems Book Exposure_Props
begin

text \<open>
  Package \<^verbatim>\<open>exposure\<close>, the cadence engine (\<^verbatim>\<open>engine.go\<close>): the cached snapshot and the two
  recomputations, and the engine with the book it watches as a transition system, one
  step per select case of \<^verbatim>\<open>Run\<close> and per event of the feed. The clock is an argument of
  each recomputation. The atomic pointer makes a published snapshot one assignment.
\<close>

section \<open>Operations\<close>

record engine_config =
  ecTicker :: string
  ecR :: f64
  ecQ :: f64
  ecLevelsEvery :: duration
  ecFlipEvery :: duration
  ecBlendIVs :: bool

definition withDefaults :: "engine_config \<Rightarrow> engine_config" where
  "withDefaults c =
     (let c1 = (if ecLevelsEvery c \<le> 0 then c\<lparr>ecLevelsEvery := second_ns\<rparr> else c)
      in if ecFlipEvery c1 \<le> 0 then c1\<lparr>ecFlipEvery := 5 * second_ns\<rparr> else c1)"

record engine =
  enSigma :: "f64 \<Rightarrow> f64"
  enCfg :: engine_config
  enSnap :: "snapshot option"
  enStopped :: bool

definition NewEngine :: "(f64 \<Rightarrow> f64) \<Rightarrow> engine_config \<Rightarrow> engine" where
  "NewEngine sigma cfg = \<lparr>enSigma = sigma, enCfg = withDefaults cfg, enSnap = None, enStopped = False\<rparr>"

definition engine_inputs :: "engine \<Rightarrow> book_state \<Rightarrow> instant \<Rightarrow> bool \<Rightarrow> book_inputs" where
  "engine_inputs e bs now skip =
     \<lparr>biChain = bsChain bs, biSpot = bsSpot bs, biAsOf = now, biR = ecR (enCfg e), biQ = ecQ (enCfg e),
      biSigma = enSigma e, biSkipFlip = skip, biLiveBlend = ecBlendIVs (enCfg e)\<rparr>"

definition carry_flip :: "snapshot option \<Rightarrow> snapshot \<Rightarrow> snapshot" where
  "carry_flip prev sn =
     (case prev of None \<Rightarrow> sn
      | Some p \<Rightarrow> sn\<lparr>snHasGammaFlip := snHasGammaFlip p, snGammaFlipSpot := snGammaFlipSpot p,
                     snSpotProfile := snSpotProfile p\<rparr>)"

definition RecomputeLevels :: "book \<Rightarrow> instant \<Rightarrow> engine \<Rightarrow> engine" where
  "RecomputeLevels b now e =
     (case Latest b (ecTicker (enCfg e)) of
        None \<Rightarrow> e
      | Some bs \<Rightarrow>
          (case ComputeSnapshot (engine_inputs e bs now True) of
             Inl _ \<Rightarrow> e
           | Inr sn \<Rightarrow> e\<lparr>enSnap := Some (carry_flip (enSnap e) sn)\<rparr>))"

definition RecomputeFlip :: "book \<Rightarrow> instant \<Rightarrow> engine \<Rightarrow> engine" where
  "RecomputeFlip b now e =
     (case Latest b (ecTicker (enCfg e)) of
        None \<Rightarrow> e
      | Some bs \<Rightarrow>
          (case ComputeSnapshot (engine_inputs e bs now False) of
             Inl _ \<Rightarrow> e
           | Inr sn \<Rightarrow> e\<lparr>enSnap := Some sn\<rparr>))"

definition Engine_Snapshot :: "engine \<Rightarrow> snapshot option" where
  "Engine_Snapshot e = enSnap e"

definition Engine_Stop :: "engine \<Rightarrow> engine" where
  "Engine_Stop e = e\<lparr>enStopped := True\<rparr>"

definition PricingInputs :: "book \<Rightarrow> instant \<Rightarrow> engine \<Rightarrow> book_inputs option" where
  "PricingInputs b now e = map_option (\<lambda>bs. engine_inputs e bs now False) (Latest b (ecTicker (enCfg e)))"

section \<open>Run\<close>

record engine_sys =
  syBook :: book
  syEngine :: engine

text \<open>\<^verbatim>\<open>Run\<close> primes the cache with both recomputations and then serves its tickers.\<close>

definition run_prime :: "instant \<Rightarrow> engine_sys \<Rightarrow> engine_sys" where
  "run_prime now s = s\<lparr>syEngine := RecomputeFlip (syBook s) now (RecomputeLevels (syBook s) now (syEngine s))\<rparr>"

inductive engine_init :: "engine_sys \<Rightarrow> bool" where
  "engine_init (run_prime now
     \<lparr>syBook = fold book_send es NewInMemoryBook, syEngine = NewEngine sigma cfg\<rparr>)"

inductive engine_step :: "engine_sys \<Rightarrow> engine_sys \<Rightarrow> bool" where
  feed: "engine_step s (s\<lparr>syBook := book_send ev (syBook s)\<rparr>)"
| levels: "\<not> enStopped (syEngine s) \<Longrightarrow>
     engine_step s (s\<lparr>syEngine := RecomputeLevels (syBook s) now (syEngine s)\<rparr>)"
| flip: "\<not> enStopped (syEngine s) \<Longrightarrow>
     engine_step s (s\<lparr>syEngine := RecomputeFlip (syBook s) now (syEngine s)\<rparr>)"
| stop: "engine_step s (s\<lparr>syEngine := Engine_Stop (syEngine s)\<rparr>)"

inductive_cases engine_initE: "engine_init s"

interpretation eng: transition_system engine_init engine_step .

section \<open>Invariant\<close>

text \<open>What a reader may rely on of a published snapshot.\<close>

definition published_ok :: "string \<Rightarrow> snapshot \<Rightarrow> bool" where
  "published_ok ticker sn \<longleftrightarrow> snTicker sn = ticker \<and> saneSpot (snSpot sn) \<and> snPerStrike sn \<noteq> [] \<and>
     snRegime sn = RegimeFor (tGEX (snTotals sn)) \<and> (snHasGammaFlip sn \<longrightarrow> length (snSpotProfile sn) = 81)"

lemma map_res_length: "map_res f xs = Inr ys \<Longrightarrow> length ys = length xs"
  by (metis length_map map_res_Inr_iff)

lemma FindFlip_length: "FindFlip inp vols = Inr fl \<Longrightarrow> length (frProfile fl) = 81"
proof -
  assume a: "FindFlip inp vols = Inr fl"
  then obtain prof where "flip_profile inp vols = Inr prof" "frProfile fl = prof" by (rule FindFlip_profile)
  then show ?thesis using map_res_length unfolding flip_profile_def flipPoints_def by fastforce
qed

lemma ComputeSnapshot_published:
  assumes "ComputeSnapshot (engine_inputs e bs now skip) = Inr sn" "wf_state t bs"
  shows "published_ok t sn"
proof -
  let ?inp = "engine_inputs e bs now skip"
  obtain acc ss es cs base where c: "baStrikes acc \<noteq> []" "read_strikes (baStrikes acc) = Inr ss"
    "base = base_snapshot ?inp acc ss es cs"
    "biSkipFlip ?inp \<and> sn = base \<or>
     \<not> biSkipFlip ?inp \<and> (\<exists>fl. FindFlip ?inp (live_vols ?inp) = Inr fl \<and> sn = with_flip fl base)"
    using ComputeSnapshot_Inr [OF assms(1)] by metis
  have "length ss = length (baStrikes acc)"
    using c(2) map_res_length by (fastforce simp: read_strikes_def)
  then have ss: "ss \<noteq> []" using c(1) by auto
  have b: "snTicker base = t" "snSpot base = bsSpot bs" "snPerStrike base = ss"
    "snRegime base = RegimeFor (tGEX (snTotals base))" "\<not> snHasGammaFlip base"
    using assms(2) by (simp_all add: c(3) base_snapshot_def engine_inputs_def wf_state_def split: prod.splits)
  have "saneSpot (bsSpot bs)" using assms(2) by (simp add: wf_state_def)
  then show ?thesis using c(4) b ss FindFlip_length by (auto simp: published_ok_def with_flip_def)
qed

lemma carry_flip_published:
  "published_ok t sn \<Longrightarrow> (\<And>p. prev = Some p \<Longrightarrow> published_ok t p) \<Longrightarrow> published_ok t (carry_flip prev sn)"
  by (cases prev) (auto simp: carry_flip_def published_ok_def)

definition engine_inv :: "engine_sys \<Rightarrow> bool" where
  "engine_inv s \<longleftrightarrow> (\<exists>es. syBook s = fold book_send es NewInMemoryBook) \<and>
     (\<forall>sn. enSnap (syEngine s) = Some sn \<longrightarrow> published_ok (ecTicker (enCfg (syEngine s))) sn)"

lemma RecomputeLevels_inv:
  assumes "\<And>t bs. Latest b t = Some bs \<Longrightarrow> wf_state t bs"
    and "\<forall>sn. enSnap e = Some sn \<longrightarrow> published_ok (ecTicker (enCfg e)) sn"
  shows "enCfg (RecomputeLevels b now e) = enCfg e"
    and "\<forall>sn. enSnap (RecomputeLevels b now e) = Some sn \<longrightarrow> published_ok (ecTicker (enCfg e)) sn"
proof -
  show "enCfg (RecomputeLevels b now e) = enCfg e"
    by (simp add: RecomputeLevels_def split: option.splits sum.splits)
  show "\<forall>sn. enSnap (RecomputeLevels b now e) = Some sn \<longrightarrow> published_ok (ecTicker (enCfg e)) sn"
    using assms ComputeSnapshot_published
    by (auto simp: RecomputeLevels_def intro!: carry_flip_published split: option.splits sum.splits)
qed

lemma RecomputeFlip_inv:
  assumes "\<And>t bs. Latest b t = Some bs \<Longrightarrow> wf_state t bs"
    and "\<forall>sn. enSnap e = Some sn \<longrightarrow> published_ok (ecTicker (enCfg e)) sn"
  shows "enCfg (RecomputeFlip b now e) = enCfg e"
    and "\<forall>sn. enSnap (RecomputeFlip b now e) = Some sn \<longrightarrow> published_ok (ecTicker (enCfg e)) sn"
proof -
  show "enCfg (RecomputeFlip b now e) = enCfg e"
    by (simp add: RecomputeFlip_def split: option.splits sum.splits)
  show "\<forall>sn. enSnap (RecomputeFlip b now e) = Some sn \<longrightarrow> published_ok (ecTicker (enCfg e)) sn"
    using assms ComputeSnapshot_published
    by (auto simp: RecomputeFlip_def split: option.splits sum.splits)
qed

lemma engine_inv_reachable: "eng.reachable s \<Longrightarrow> engine_inv s"
proof (erule eng.invariant)
  fix s assume "engine_init s"
  then obtain now es sigma cfg where s: "s = run_prime now
      \<lparr>syBook = fold book_send es NewInMemoryBook, syEngine = NewEngine sigma cfg\<rparr>"
    by (auto elim: engine_initE)
  let ?b = "fold book_send es NewInMemoryBook" and ?e = "NewEngine sigma cfg"
  have "\<forall>sn. enSnap ?e = Some sn \<longrightarrow> published_ok (ecTicker (enCfg ?e)) sn" by (simp add: NewEngine_def)
  note l = RecomputeLevels_inv [of ?b, OF Latest_wf this, where now = now]
  have "\<forall>sn. enSnap (RecomputeLevels ?b now ?e) = Some sn \<longrightarrow>
      published_ok (ecTicker (enCfg (RecomputeLevels ?b now ?e))) sn"
    using l by simp
  note f = RecomputeFlip_inv [of ?b, OF Latest_wf this, where now = now]
  show "engine_inv s" unfolding s engine_inv_def run_prime_def using f l by auto
next
  fix s t assume i: "engine_inv s" and st: "engine_step s t"
  obtain es where b: "syBook s = fold book_send es NewInMemoryBook"
    and p: "\<forall>sn. enSnap (syEngine s) = Some sn \<longrightarrow> published_ok (ecTicker (enCfg (syEngine s))) sn"
    using i by (auto simp: engine_inv_def)
  have wf: "Latest (syBook s) t = Some bs \<Longrightarrow> wf_state t bs" for t bs unfolding b by (rule Latest_wf)
  from st show "engine_inv t"
  proof (cases rule: engine_step.cases)
    case (feed ev)
    have "syBook t = fold book_send (es @ [ev]) NewInMemoryBook" by (simp add: feed b)
    moreover have "\<forall>sn. enSnap (syEngine t) = Some sn \<longrightarrow> published_ok (ecTicker (enCfg (syEngine t))) sn"
      using p by (simp add: feed)
    ultimately show ?thesis unfolding engine_inv_def by blast
  next
    case (levels now)
    then show ?thesis using RecomputeLevels_inv [OF wf p] b by (auto simp: engine_inv_def)
  next
    case (flip now)
    then show ?thesis using RecomputeFlip_inv [OF wf p] b by (auto simp: engine_inv_def)
  next
    case stop
    then show ?thesis using p b by (auto simp: engine_inv_def Engine_Stop_def)
  qed
qed

text \<open>
  Fact. In every reachable state of the book and the engine, whatever the feed
  sent, the cached snapshot is fit to serve: it is of the engine's ticker, at a positive
  spot below the unset marker, with a non-empty curve, a regime that agrees with its
  total exposure, and a full profile behind a reported flip.
\<close>

theorem engine_serves_good_snapshots:
  assumes "eng.reachable s" "Engine_Snapshot (syEngine s) = Some sn"
  shows "published_ok (ecTicker (enCfg (syEngine s))) sn"
  using engine_inv_reachable [OF assms(1)] assms(2) by (simp add: engine_inv_def Engine_Snapshot_def)

text \<open>An engine primed over a book with one live contract.\<close>

definition demo_spx :: chain_snapshot where
  "demo_spx = \<lparr>chTicker = ''SPX'', chSpot = Fin 100, chAsOfMs = 0,
     chContracts = [demo_leg 1 ''SPX'' ''C'' 100], chUnderlyingType = ''IND'', chExchange = ''CBOE''\<rparr>"

definition demo_config :: engine_config where
  "demo_config = \<lparr>ecTicker = ''SPX'', ecR = Fin 0, ecQ = Fin 0, ecLevelsEvery = 0, ecFlipEvery = 0,
     ecBlendIVs = False\<rparr>"

definition demo_sys :: engine_sys where
  "demo_sys = run_prime 0 \<lparr>syBook = fold book_send [ChainEvent demo_spx] NewInMemoryBook,
     syEngine = NewEngine (\<lambda>_. Fin (1 / 4)) demo_config\<rparr>"

lemma demo_sys_latest:
  "Latest (fold book_send [ChainEvent demo_spx] NewInMemoryBook) ''SPX'' =
     Some \<lparr>bsChain = demo_spx, bsSpot = Fin 100, bsSpotAsOfMs = 0\<rparr>"
proof -
  have v: "validateContract (demo_leg 1 ''SPX'' ''C'' 100) = Inr (demo_leg 1 ''SPX'' ''C'' 100)"
    by (simp add: validateContract_def demo_leg_def RightCall_def zero_f64_def)
  have a: "accepted_contract ''CBOE'' (demo_leg 1 ''SPX'' ''C'' 100) = demo_leg 1 ''SPX'' ''C'' 100"
    by (simp add: accepted_contract_def v fill_exchange_def) (simp add: demo_leg_def)
  have "chain_ok demo_spx"
    by (simp add: chain_ok_def demo_spx_def contract_ok_def v book_demo_sane)
  then show ?thesis
    by (simp only: book_send_eq bk.latest_run) (simp add: demo_spx_def a)
qed

lemma demo_sys_primed: "\<exists>sn. Engine_Snapshot (syEngine demo_sys) = Some sn"
proof -
  let ?b = "fold book_send [ChainEvent demo_spx] NewInMemoryBook"
  let ?e = "NewEngine (\<lambda>_. Fin (1 / 4)) demo_config"
  let ?inp = "engine_inputs ?e \<lparr>bsChain = demo_spx, bsSpot = Fin 100, bsSpotAsOfMs = 0\<rparr> 0 True"
  have cfg: "ecTicker (enCfg ?e) = ''SPX''" "ecBlendIVs (enCfg ?e) = False" "enSigma ?e = (\<lambda>_. Fin (1 / 4))"
    by (simp_all add: NewEngine_def withDefaults_def demo_config_def Let_def)
  have "\<exists>sn. ComputeSnapshot ?inp = Inr sn"
  proof (rule snapshot_succeeds)
    show "sane_inputs ?inp" by (simp add: sane_inputs_def engine_inputs_def cfg)
    show "usable_anchor (biSigma ?inp)"
      using small_HVolStep by (simp add: usable_anchor_def engine_inputs_def cfg)
    show "\<forall>c \<in> set (chContracts (biChain ?inp)). sane_contract (biAsOf ?inp) c"
      by (simp add: engine_inputs_def demo_spx_def sane_contract_def demo_leg_DTE)
        (simp add: demo_leg_def RightCall_def zero_f64_def)
    show "\<exists>c \<in> set (chContracts (biChain ?inp)). is_live (biAsOf ?inp) c"
      by (simp add: engine_inputs_def demo_spx_def is_live_def demo_leg_DTE one_f64_def)
  qed
  then have l: "\<exists>sn. enSnap (RecomputeLevels ?b 0 ?e) = Some sn"
    using demo_sys_latest by (auto simp: RecomputeLevels_def cfg)
  have "enSnap (RecomputeFlip b now e) \<noteq> None" if "enSnap e \<noteq> None" for b now e
    using that by (auto simp: RecomputeFlip_def split: option.splits sum.splits)
  then show ?thesis using l by (simp add: demo_sys_def run_prime_def Engine_Snapshot_def)
qed

lemma demo_sys_reachable: "eng.reachable demo_sys"
  unfolding demo_sys_def by (intro eng.reachable.start engine_init.intros)

theorem engine_serves_good_snapshots_witness:
  "\<exists>sn. Engine_Snapshot (syEngine demo_sys) = Some sn \<and>
     published_ok (ecTicker (enCfg (syEngine demo_sys))) sn"
  using demo_sys_primed engine_serves_good_snapshots [OF demo_sys_reachable] by blast

text \<open>The flip part of a snapshot.\<close>

definition flip_part :: "snapshot \<Rightarrow> bool \<times> f64 \<times> spot_gex_point list" where
  "flip_part sn = (snHasGammaFlip sn, snGammaFlipSpot sn, snSpotProfile sn)"

definition computed :: "engine_sys \<Rightarrow> instant \<Rightarrow> bool \<Rightarrow> snapshot \<Rightarrow> bool" where
  "computed s now skip sn \<longleftrightarrow> (\<exists>bs. Latest (syBook s) (ecTicker (enCfg (syEngine s))) = Some bs \<and>
     ComputeSnapshot (engine_inputs (syEngine s) bs now skip) = Inr sn)"

text \<open>
  Property C9. A snapshot once published is never lost or torn: a step keeps it as it
  is (a feed event, a stop, a failed or bookless recomputation), or replaces its levels
  by those of a successful levels pass and carries the flip over unchanged, or replaces
  it whole by a successful flip pass.
\<close>

theorem engine_step_publishes:
  assumes "engine_step s t" "Engine_Snapshot (syEngine s) = Some sn"
  shows "\<exists>sn'. Engine_Snapshot (syEngine t) = Some sn' \<and>
    (sn' = sn \<or>
     (\<exists>now new. computed s now True new \<and> same_levels sn' new \<and> flip_part sn' = flip_part sn) \<or>
     (\<exists>now. computed s now False sn'))"
  using assms(1)
proof (cases rule: engine_step.cases)
  case (levels now)
  show ?thesis
  proof (cases "\<exists>new. computed s now True new")
    case True
    then obtain new where n: "computed s now True new" by blast
    then have "enSnap (syEngine t) = Some (carry_flip (Some sn) new)"
      using assms(2) levels(1) by (auto simp: computed_def RecomputeLevels_def Engine_Snapshot_def)
    moreover have "same_levels (carry_flip (Some sn) new) new" "flip_part (carry_flip (Some sn) new) = flip_part sn"
      by (simp_all add: carry_flip_def same_levels_fields flip_part_def)
    ultimately show ?thesis using n by (auto simp: Engine_Snapshot_def)
  next
    case False
    then have "RecomputeLevels (syBook s) now (syEngine s) = syEngine s"
      by (auto simp: computed_def RecomputeLevels_def split: option.splits sum.splits)
    then show ?thesis using assms(2) levels(1) by simp
  qed
next
  case (flip now)
  show ?thesis
  proof (cases "\<exists>new. computed s now False new")
    case True
    then obtain new where n: "computed s now False new" by blast
    then have "enSnap (syEngine t) = Some new"
      using flip(1) by (auto simp: computed_def RecomputeFlip_def)
    then show ?thesis using n by (auto simp: Engine_Snapshot_def)
  next
    case False
    then have "RecomputeFlip (syBook s) now (syEngine s) = syEngine s"
      by (auto simp: computed_def RecomputeFlip_def split: option.splits sum.splits)
    then show ?thesis using assms(2) flip(1) by simp
  qed
qed (use assms(2) in \<open>auto simp: Engine_Snapshot_def Engine_Stop_def\<close>)

theorem engine_step_publishes_witness:
  "\<exists>sn'. Engine_Snapshot (syEngine (demo_sys\<lparr>syEngine := Engine_Stop (syEngine demo_sys)\<rparr>)) = Some sn'"
proof -
  obtain sn where sn: "Engine_Snapshot (syEngine demo_sys) = Some sn" using demo_sys_primed by blast
  show ?thesis using engine_step_publishes [OF engine_step.stop sn] by blast
qed

end
