(* ===== verification/Eastern.thy ===== *)
theory Eastern
  imports GoTime
begin

text \<open>
  Wall-clock time in New York. Package \<^verbatim>\<open>edge\<close> reads its windows in
  \<^verbatim>\<open>America/New_York\<close> (\<^verbatim>\<open>ET()\<close>); the offset here is the rule the embedded database
  carries for every instant since 2007: daylight time from 02:00 on the second Sunday of
  March to 02:00 on the first Sunday of November. What the windows rely on is the locale
  \<open>sunday_zone\<close>: the offset is four or five hours and only changes on a Sunday morning,
  so local days never run backwards and a local time off Sunday names one instant.
\<close>

section \<open>Zones that change on Sunday mornings\<close>

locale sunday_zone =
  fixes off :: "instant \<Rightarrow> duration"
  assumes off_range: "off t = - 5 * hour_ns \<or> off t = - 4 * hour_ns"
    and off_change: "t < u \<Longrightarrow> off t \<noteq> off u \<Longrightarrow>
      \<exists>n h. t < n * day_ns + h * hour_ns \<and> n * day_ns + h * hour_ns \<le> u \<and>
        6 \<le> h \<and> h \<le> 7 \<and> weekday n = 0"
begin

lemma day_unique: "n * day_ns \<le> l \<Longrightarrow> l < (n + 1) * day_ns \<Longrightarrow> l div day_ns = n"
  by (simp add: day_ns_def)

lemma hours_in_day: "n * day_ns \<le> l \<Longrightarrow> l < n * day_ns + 24 * hour_ns \<Longrightarrow> l div day_ns = n"
  by (rule day_unique) (simp_all add: day_ns_def hour_ns_def)

lemma local_less:
  assumes "t < u"
  shows "t + off t < u + off u \<or>
    (t + off t) div day_ns = (u + off u) div day_ns \<and> weekday ((t + off t) div day_ns) = 0"
proof (cases "off u = off t - hour_ns \<and> u - t \<le> hour_ns")
  case True
  then have ne: "off t \<noteq> off u" and o: "off t = - 4 * hour_ns" "off u = - 5 * hour_ns"
    using off_range [of t] off_range [of u] by (auto simp: hour_ns_def)
  from off_change [OF assms ne] obtain n h where
    nh: "t < n * day_ns + h * hour_ns" "n * day_ns + h * hour_ns \<le> u" "6 \<le> h" "h \<le> 7" "weekday n = 0"
    by blast
  have h: "6 * hour_ns \<le> h * hour_ns" "h * hour_ns \<le> 7 * hour_ns" "0 < hour_ns"
    using nh(3,4) by (simp_all add: hour_ns_def)
  have "(t + off t) div day_ns = n" "(u + off u) div day_ns = n"
    using nh(1,2) h o True by (intro hours_in_day; linarith)+
  then show ?thesis using nh(5) by simp
next
  case False
  then show ?thesis using off_range [of t] off_range [of u] assms by (auto simp: hour_ns_def)
qed

lemma day_mono: assumes "t \<le> u" shows "(t + off t) div day_ns \<le> (u + off u) div day_ns"
proof (cases "t = u")
  case False
  with assms local_less [of t u] show ?thesis by (auto simp: day_ns_def intro: zdiv_mono1)
qed simp

lemma weekday_less_iff:
  assumes "weekday ((t + off t) div day_ns) \<noteq> 0" "weekday ((u + off u) div day_ns) \<noteq> 0"
  shows "t < u \<longleftrightarrow> t + off t < u + off u"
  using assms local_less [of t u] local_less [of u t] by (cases t u rule: linorder_cases) auto

lemma stable_off_Sunday:
  assumes "weekday (l div day_ns) \<noteq> 0" shows "off (l - off l) = off l"
proof (rule ccontr)
  assume ne: "off (l - off l) \<noteq> off l"
  have lt: "l < l - off l" using off_range [of l] by (auto simp: hour_ns_def)
  from off_change [OF lt] ne obtain n h where
    nh: "l < n * day_ns + h * hour_ns" "n * day_ns + h * hour_ns \<le> l - off l" "6 \<le> h" "h \<le> 7"
      "weekday n = 0" by metis
  have h: "6 * hour_ns \<le> h * hour_ns" "h * hour_ns \<le> 7 * hour_ns" "0 < hour_ns"
    using nh(3,4) by (simp_all add: hour_ns_def)
  have "l div day_ns = n"
    using nh(1,2) h off_range [of l] by (intro hours_in_day; linarith)
  with nh(5) assms show False by simp
qed

lemma to_local_inverse:
  assumes "weekday (l div day_ns) \<noteq> 0" "c = l - off (l - off l)"
  shows "c + off c = l"
  using stable_off_Sunday [OF assms(1)] assms(2) by simp

lemma to_local_Sunday:
  assumes "weekday (l div day_ns) = 0" "c = l - off (l - off l)"
  shows "weekday ((c + off c) div day_ns) \<in> {0, 6}"
proof (cases "off c = off (l - off l)")
  case True
  with assms show ?thesis by simp
next
  case False
  define u where "u = l - off l"
  have c: "c = u + off l - off u" using assms(2) by (simp add: u_def)
  have ne: "off c \<noteq> off u" using False by (simp add: u_def)
  have "min c u < max c u" using ne by (cases "c = u") auto
  moreover have "off (min c u) \<noteq> off (max c u)" using ne by (auto simp: min_def max_def)
  ultimately obtain n h where
    nh: "min c u < n * day_ns + h * hour_ns" "n * day_ns + h * hour_ns \<le> max c u" "6 \<le> h" "h \<le> 7"
      "weekday n = 0" using off_change by metis
  have h: "6 * hour_ns \<le> h * hour_ns" "h * hour_ns \<le> 7 * hour_ns" "0 < hour_ns"
    using nh(3,4) by (simp_all add: hour_ns_def)
  have d: "\<bar>c - u\<bar> \<le> hour_ns" unfolding c using off_range [of l] off_range [of u] h(3) by auto
  have mm: "max c u \<le> c + hour_ns" "c - hour_ns \<le> min c u" using d h(3) by auto
  have r: "n * day_ns - 1 * hour_ns \<le> c + off c" "c + off c < n * day_ns + 5 * hour_ns"
    using nh(1,2) h mm off_range [of c] by linarith+
  have "(c + off c) div day_ns = n \<or> (c + off c) div day_ns = n - 1"
  proof (cases "n * day_ns \<le> c + off c")
    case True
    then show ?thesis using r(2) h(3) by (intro disjI1 hours_in_day) linarith+
  next
    case False
    moreover have "(n - 1) * day_ns \<le> n * day_ns - hour_ns"
      by (simp add: day_ns_def hour_ns_def left_diff_distrib)
    ultimately show ?thesis using r(1) by (intro disjI2 day_unique) auto
  qed
  moreover have "weekday (n - 1) = 6" using nh(5) unfolding weekday_def by presburger
  ultimately show ?thesis using nh(5) by auto
qed

end

section \<open>New York\<close>

definition first_sunday :: "int \<Rightarrow> int" where
  "first_sunday n = n + (7 - weekday n) mod 7"

definition dst_start :: "int \<Rightarrow> instant" where
  "dst_start y = (first_sunday (day_of_civil y 3 1) + 7) * day_ns + 7 * hour_ns"

definition dst_end :: "int \<Rightarrow> instant" where
  "dst_end y = first_sunday (day_of_civil y 11 1) * day_ns + 6 * hour_ns"

definition et_offset :: "instant \<Rightarrow> duration" where
  "et_offset t =
     (let y = year_of_day (t div day_ns)
      in if dst_start y \<le> t \<and> t < dst_end y then - 4 * hour_ns else - 5 * hour_ns)"

text \<open>\<^verbatim>\<open>t.In(ET())\<close> as the nanoseconds of its wall clock, and \<^verbatim>\<open>time.Date(..., ET())\<close>.\<close>

definition In_ET :: "instant \<Rightarrow> int" where
  "In_ET t = t + et_offset t"

definition Date_ET :: "int \<Rightarrow> instant" where
  "Date_ET l = l - et_offset (l - et_offset l)"

lemma weekday_first_sunday: "weekday (first_sunday n) = 0"
  unfolding first_sunday_def weekday_def by presburger

lemma weekday_add_7: "weekday (n + 7) = weekday n"
  unfolding weekday_def by presburger

lemma first_sunday_bounds: "n \<le> first_sunday n" "first_sunday n \<le> n + 6"
  unfolding first_sunday_def weekday_def by presburger+

lemma dst_in_year:
  "days_before_year y * day_ns \<le> dst_start y" "dst_start y < dst_end y"
  "dst_end y < days_before_year (y + 1) * day_ns"
proof -
  have m: "day_of_civil y 3 1 \<ge> days_before_year y + 59" "day_of_civil y 3 1 \<le> days_before_year y + 60"
    "day_of_civil y 11 1 \<ge> days_before_year y + 304" "day_of_civil y 11 1 \<le> days_before_year y + 305"
    by (simp_all add: day_of_civil_def eval_nat_numeral days_in_def)
  note b = first_sunday_bounds [of "day_of_civil y 3 1"] first_sunday_bounds [of "day_of_civil y 11 1"]
  have y: "days_before_year (y + 1) \<ge> days_before_year y + 365"
    by (simp add: days_before_year_Suc)
  show "days_before_year y * day_ns \<le> dst_start y" "dst_start y < dst_end y"
    "dst_end y < days_before_year (y + 1) * day_ns"
    using m b y by (simp_all add: dst_start_def dst_end_def day_ns_def hour_ns_def)
qed

lemma et_offset_dst:
  "et_offset t = (if \<exists>y. dst_start y \<le> t \<and> t < dst_end y then - 4 * hour_ns else - 5 * hour_ns)"
proof -
  have "year_of_day (t div day_ns) = y" if "dst_start y \<le> t" "t < dst_end y" for y
  proof (rule year_of_day_unique)
    have "days_before_year y * day_ns \<le> t" "t < days_before_year (y + 1) * day_ns"
      using that dst_in_year [of y] by linarith+
    then show "days_before_year y \<le> t div day_ns" "t div day_ns < days_before_year (y + 1)"
      by (simp_all add: day_ns_def)
  qed
  then show ?thesis by (auto simp: et_offset_def Let_def)
qed

lemma dst_start_sunday: "\<exists>n. dst_start y = n * day_ns + 7 * hour_ns \<and> weekday n = 0"
  using weekday_add_7 weekday_first_sunday by (auto simp: dst_start_def)

lemma dst_end_sunday: "\<exists>n. dst_end y = n * day_ns + 6 * hour_ns \<and> weekday n = 0"
  using weekday_first_sunday by (auto simp: dst_end_def)

interpretation et: sunday_zone et_offset
proof unfold_locales
  fix t show "et_offset t = - 5 * hour_ns \<or> et_offset t = - 4 * hour_ns"
    by (simp add: et_offset_def Let_def)
next
  fix t u
  assume lt: "t < u" and ne: "et_offset t \<noteq> et_offset u"
  let ?dst = "\<lambda>t. \<exists>y. dst_start y \<le> t \<and> t < dst_end y"
  have "?dst t \<noteq> ?dst u" using ne unfolding et_offset_dst by metis
  then consider y where "t < dst_start y" "dst_start y \<le> u" | y where "t < dst_end y" "dst_end y \<le> u"
    using lt by (metis linorder_not_less order.strict_trans order.strict_trans1)
  then show "\<exists>n h. t < n * day_ns + h * hour_ns \<and> n * day_ns + h * hour_ns \<le> u \<and>
      6 \<le> h \<and> h \<le> 7 \<and> weekday n = 0"
  proof cases
    case 1
    then show ?thesis using dst_start_sunday [of y] by (metis order_refl numeral_le_iff semiring_norm(68,71,69,72))
  next
    case 2
    then show ?thesis using dst_end_sunday [of y] by (metis order_refl numeral_le_iff semiring_norm(68,71,69,72))
  qed
qed

lemmas et_local = In_ET_def Date_ET_def

end
