(* ===== verification/Sweep_Policy.thy ===== *)
theory Sweep_Policy
  imports Eastern
begin

text \<open>
  Package \<^verbatim>\<open>edge\<close>, the sweep policy (\<^verbatim>\<open>sweep_policy.go\<close>): prices and durations of a pass,
  the shutoff windows in New York time, the reopening time a blocked row shows, and the
  normal form of a roster.
\<close>

section \<open>Knobs and estimates\<close>

definition SweepMaxTickers :: nat where "SweepMaxTickers = 2"
definition SweepPassRatePerMin :: int where "SweepPassRatePerMin = 210"
definition SweepMonitorEvery :: duration where "SweepMonitorEvery = 20 * second_ns"
definition MasterLogFlushEvery :: duration where "MasterLogFlushEvery = 5 * 60 * second_ns"

definition SweepPassEstimates :: "string \<rightharpoonup> f64" where
  "SweepPassEstimates = map_of
     [(''SPX'', lit (1044 / 100)), (''NDX'', lit 10), (''VIX'', lit (15 / 100)),
      (''TSLA'', lit (175 / 100)), (''NVDA'', lit (182 / 100)), (''SOXX'', lit (76 / 100)),
      (''GOOG'', lit 1), (''JPM'', lit (52 / 100))]"

definition SweepEstimate :: "string \<Rightarrow> f64 option" where
  "SweepEstimate ticker = SweepPassEstimates (ToUpper (TrimSpace ticker))"

definition SweepEstSeconds :: "string \<Rightarrow> int" where
  "SweepEstSeconds ticker =
     (case SweepEstimate ticker of
        None \<Rightarrow> 0
      | Some dollars \<Rightarrow>
          if dollars \<le> 0 then 0
          else let mins = go_div (go_int (dollars / lit (1 / 100))) SweepPassRatePerMin
               in if mins < 1 then 60 else mins * 60)"

section \<open>Windows\<close>

definition SweepWindowTickers :: "string list" where
  "SweepWindowTickers = [''SPX'', ''NDX'']"

definition sweepAllOpenSecs :: int where "sweepAllOpenSecs = 8 * 3600 + 15 * 60"
definition sweepAllCloseSecs :: int where "sweepAllCloseSecs = 18 * 3600 + 30 * 60"
definition sweepIndexOpenSecs :: int where "sweepIndexOpenSecs = 9 * 3600 + 20 * 60"
definition sweepIndexLastSecs :: int where "sweepIndexLastSecs = 16 * 3600 + 9 * 60 + 59"

definition IsSweepWindowTicker :: "string \<Rightarrow> bool" where
  "IsSweepWindowTicker ticker \<longleftrightarrow> (\<exists>w \<in> set SweepWindowTickers. ToUpper ticker = ToUpper w)"

text \<open>A wall clock reading is nanoseconds of local time: its day and its second of the day.\<close>

definition wall_day :: "int \<Rightarrow> int" where
  "wall_day l = l div day_ns"

definition secsOfDay :: "int \<Rightarrow> int" where
  "secsOfDay l =
     (let s = (l mod day_ns) div second_ns
      in (s div 3600) * 3600 + (s mod 3600 div 60) * 60 + s mod 60)"

definition on_weekend :: "int \<Rightarrow> bool" where
  "on_weekend l \<longleftrightarrow> weekday (wall_day l) = Saturday \<or> weekday (wall_day l) = Sunday"

definition TickerAllowed :: "string \<Rightarrow> instant \<Rightarrow> bool" where
  "TickerAllowed ticker now =
     (let et = In_ET now; s = secsOfDay et
      in if on_weekend et then False
         else if IsSweepWindowTicker ticker then s \<ge> sweepIndexOpenSecs \<and> s \<le> sweepIndexLastSecs
         else s \<ge> sweepAllOpenSecs \<and> s < sweepAllCloseSecs)"

text \<open>The dash of the first message is the three UTF-8 bytes of U+2014.\<close>

definition Reason :: "string \<Rightarrow> instant \<Rightarrow> string" where
  "Reason ticker now =
     (let et = In_ET now; s = secsOfDay et
      in if on_weekend et then ''weekend '' @ [CHR 0xE2, CHR 0x80, CHR 0x94] @ '' sweeps blocked''
         else if IsSweepWindowTicker ticker
           then if s < sweepIndexOpenSecs then ToUpper ticker @ '' opens 09:20 ET''
                else ToUpper ticker @ '' closed 16:10 ET''
         else if s < sweepAllOpenSecs \<or> s \<ge> sweepAllCloseSecs then ''sweeps blocked until 08:15 ET''
         else '''')"

text \<open>
  \<^verbatim>\<open>NextOpen\<close>: the loop over the next eight local days. \<^verbatim>\<open>AddDate\<close> keeps the wall clock
  and moves the date, then resolves the instant again.
\<close>

definition AddDays_ET :: "instant \<Rightarrow> int \<Rightarrow> instant" where
  "AddDays_ET t d = Date_ET (In_ET t + d * day_ns)"

definition open_secs :: "string \<Rightarrow> int" where
  "open_secs ticker = (if IsSweepWindowTicker ticker then sweepIndexOpenSecs else sweepAllOpenSecs)"

definition open_cand :: "string \<Rightarrow> int \<Rightarrow> instant" where
  "open_cand ticker n =
     Date_ET (n * day_ns + (open_secs ticker div 3600) * hour_ns
       + (open_secs ticker mod 3600 div 60) * 60 * second_ns + (open_secs ticker mod 60) * second_ns)"

fun next_open_loop :: "string \<Rightarrow> instant \<Rightarrow> int list \<Rightarrow> instant" where
  "next_open_loop ticker now [] = now"
| "next_open_loop ticker now (d # ds) =
     (let day = In_ET (AddDays_ET now d)
      in if on_weekend day then next_open_loop ticker now ds
         else let cand = open_cand ticker (wall_day day)
              in if cand > now then cand else next_open_loop ticker now ds)"

definition NextOpen :: "string \<Rightarrow> instant \<Rightarrow> instant" where
  "NextOpen ticker now = next_open_loop ticker now [0 .. 7]"

section \<open>Rosters\<close>

record sweep_entry = seTicker :: string

record sweep_error =
  serTicker :: string
  serReason :: string

definition roster_key :: "sweep_entry \<Rightarrow> string" where
  "roster_key e = ToUpper (TrimSpace (seTicker e))"

fun normalize_loop :: "string list \<Rightarrow> sweep_entry list \<Rightarrow> sweep_entry list \<Rightarrow> sweep_entry list" where
  "normalize_loop seen out [] = out"
| "normalize_loop seen out (e # es) =
     (let t = roster_key e
      in if t = [] \<or> t \<in> set seen then normalize_loop seen out es
         else let out' = out @ [\<lparr>seTicker = t\<rparr>]
              in if length out' \<ge> SweepMaxTickers then out' else normalize_loop (t # seen) out' es)"

definition NormalizeRoster :: "sweep_entry list \<Rightarrow> sweep_entry list" where
  "NormalizeRoster entries = normalize_loop [] [] entries"

fun distinct_loop :: "string list \<Rightarrow> nat \<Rightarrow> sweep_entry list \<Rightarrow> nat" where
  "distinct_loop seen n [] = n"
| "distinct_loop seen n (e # es) =
     (let t = roster_key e
      in if t = [] \<or> t \<in> set seen then distinct_loop seen n es
         else distinct_loop (t # seen) (Suc n) es)"

definition ValidateRoster :: "sweep_entry list \<Rightarrow> sweep_error + sweep_entry list" where
  "ValidateRoster entries =
     (let n = distinct_loop [] 0 entries
      in if n > SweepMaxTickers
         then Inl \<lparr>serTicker = [], serReason = ''sweep roster capped at '' @ dec_nat SweepMaxTickers @
                '' tickers (got '' @ dec_nat n @ '')''\<rparr>
         else Inr (NormalizeRoster entries))"

section \<open>The master-log grid\<close>

text \<open>\<^verbatim>\<open>Truncate\<close> counts from the zero time, 1 January of year 1.\<close>

definition zero_time :: instant where
  "zero_time = day_of_civil 1 1 1 * day_ns"

definition Truncate :: "instant \<Rightarrow> duration \<Rightarrow> instant" where
  "Truncate t d = (if d \<le> 0 then t else t - (t - zero_time) mod d)"

definition NextFlushTime :: "instant \<Rightarrow> instant" where
  "NextFlushTime now = Truncate now MasterLogFlushEvery + MasterLogFlushEvery"

section \<open>Roster lemmas\<close>

text \<open>The tickers a roster asks for: normalised, empties dropped, first mention wins.\<close>

definition asked :: "sweep_entry list \<Rightarrow> string list" where
  "asked es = firsts [] (filter (\<lambda>t. t \<noteq> []) (map roster_key es))"

lemma distinct_loop_firsts:
  "distinct_loop seen n es = n + length (firsts seen (filter (\<lambda>t. t \<noteq> []) (map roster_key es)))"
  by (induction es arbitrary: seen n) (auto simp: Let_def)

lemma normalize_loop_firsts:
  "length out < SweepMaxTickers \<Longrightarrow>
   normalize_loop seen out es = out @ map sweep_entry.make
     (take (SweepMaxTickers - length out) (firsts seen (filter (\<lambda>t. t \<noteq> []) (map roster_key es))))"
proof (induction es arbitrary: seen out)
  case Nil
  show ?case by simp
next
  case (Cons e es)
  show ?case
  proof (cases "roster_key e = [] \<or> roster_key e \<in> set seen")
    case True
    with Cons show ?thesis by (auto simp: Let_def)
  next
    case False
    let ?out = "out @ [\<lparr>seTicker = roster_key e\<rparr>]"
    show ?thesis
    proof (cases "length ?out \<ge> SweepMaxTickers")
      case True
      with Cons.prems have "SweepMaxTickers - length out = 1" by simp
      with True False show ?thesis by (auto simp: Let_def sweep_entry.defs)
    next
      case full: False
      then have k: "SweepMaxTickers - length out = Suc (SweepMaxTickers - length ?out)" by simp
      have "normalize_loop seen out (e # es) = normalize_loop (roster_key e # seen) ?out es"
        using False full by (simp add: Let_def)
      also have "\<dots> = ?out @ map sweep_entry.make (take (SweepMaxTickers - length ?out)
          (firsts (roster_key e # seen) (filter (\<lambda>t. t \<noteq> []) (map roster_key es))))"
        using full by (intro Cons.IH) simp
      finally show ?thesis using False unfolding k by (simp add: sweep_entry.defs)
    qed
  qed
qed

lemma NormalizeRoster_asked: "NormalizeRoster es = map sweep_entry.make (take SweepMaxTickers (asked es))"
  unfolding NormalizeRoster_def asked_def
  using normalize_loop_firsts [of "[]" "[]" es] by (simp add: SweepMaxTickers_def)

lemma ValidateRoster_asked:
  "ValidateRoster es = Inr r \<longleftrightarrow> length (asked es) \<le> SweepMaxTickers \<and> r = map sweep_entry.make (asked es)"
  using distinct_loop_firsts [of "[]" 0 es]
  by (auto simp: ValidateRoster_def NormalizeRoster_asked asked_def Let_def split: if_splits)

lemma asked_props: "distinct (asked es)" "t \<in> set (asked es) \<Longrightarrow> t \<noteq> [] \<and> ToUpper t = t \<and> TrimSpace t = t"
  by (auto simp: asked_def distinct_firsts set_firsts roster_key_def TrimSpace_ToUpper)

lemma firsts_distinct: "distinct xs \<Longrightarrow> set xs \<inter> set seen = {} \<Longrightarrow> firsts seen xs = xs"
  by (induction xs arbitrary: seen) auto

lemma asked_normal:
  assumes "distinct ts" "\<And>t. t \<in> set ts \<Longrightarrow> t \<noteq> [] \<and> ToUpper t = t \<and> TrimSpace t = t"
  shows "asked (map sweep_entry.make ts) = ts"
proof -
  have "map roster_key (map sweep_entry.make ts) = ts"
    using assms(2) by (simp add: roster_key_def sweep_entry.defs map_idI)
  moreover have "filter (\<lambda>t. t \<noteq> []) ts = ts" using assms(2) by (auto simp: filter_id_conv)
  ultimately show ?thesis by (simp add: asked_def firsts_distinct assms(1))
qed

text \<open>The shape of every roster the core installs or the edge clamps to.\<close>

definition wf_roster :: "sweep_entry list \<Rightarrow> bool" where
  "wf_roster r \<longleftrightarrow> length r \<le> SweepMaxTickers \<and> distinct (map seTicker r) \<and>
     (\<forall>e \<in> set r. seTicker e \<noteq> [] \<and> ToUpper (seTicker e) = seTicker e \<and> TrimSpace (seTicker e) = seTicker e)"

lemma map_make: "map seTicker (map sweep_entry.make ts) = ts"
  by (simp add: sweep_entry.defs o_def)

lemma wf_roster_Normalize: "wf_roster (NormalizeRoster es)"
  using asked_props(1) [of es] asked_props(2) [where es = es] set_take_subset [of SweepMaxTickers "asked es"]
  unfolding wf_roster_def NormalizeRoster_asked map_make
  by (auto simp: sweep_entry.defs distinct_take)

lemma wf_roster_filter: "wf_roster r \<Longrightarrow> wf_roster (filter P r)"
  unfolding wf_roster_def
  by (auto simp: distinct_map_filter le_trans [OF length_filter_le])

lemma wf_roster_empty [simp]: "wf_roster []"
  by (simp add: wf_roster_def)

lemma Normalize_wf_roster: assumes "wf_roster r" shows "NormalizeRoster r = r"
proof -
  have r: "map sweep_entry.make (map seTicker r) = r"
    by (simp add: sweep_entry.defs o_def map_idI)
  have "asked (map sweep_entry.make (map seTicker r)) = map seTicker r"
    using assms by (intro asked_normal) (auto simp: wf_roster_def)
  then have "asked r = map seTicker r" by (simp only: r)
  then show ?thesis using assms r by (simp add: NormalizeRoster_asked wf_roster_def)
qed

text \<open>
  Fact. A validated roster is exactly what was asked for, normalised: at most two
  tickers, upper case, trimmed, without repeats or blanks; asking for more is refused, and
  clamping a validated roster again, as the edge process does, changes nothing.
\<close>

theorem roster_normal_form:
  "(case ValidateRoster es of
      Inl e \<Rightarrow> length (asked es) > SweepMaxTickers \<and> serReason e \<noteq> []
    | Inr r \<Rightarrow> map seTicker r = asked es \<and> wf_roster r \<and> NormalizeRoster r = r)"
proof (cases "ValidateRoster es")
  case (Inl e)
  then show ?thesis
    using distinct_loop_firsts [of "[]" 0 es]
    by (auto simp: ValidateRoster_def asked_def Let_def split: if_splits)
next
  case (Inr r)
  then have r: "r = map sweep_entry.make (asked es)" "r = NormalizeRoster es"
    using ValidateRoster_asked [of es r] by (auto simp: ValidateRoster_def Let_def split: if_splits)
  then have "wf_roster r" using wf_roster_Normalize by metis
  moreover have "map seTicker r = asked es" unfolding r(1) by (rule map_make)
  ultimately show ?thesis using Inr Normalize_wf_roster by simp
qed

section \<open>Windows as intervals of local time\<close>

definition close_secs :: "string \<Rightarrow> int" where
  "close_secs ticker = (if IsSweepWindowTicker ticker then sweepIndexLastSecs + 1 else sweepAllCloseSecs)"

lemma hms_split: "(s div 3600) * 3600 + (s mod 3600 div 60) * 60 + s mod 60 = (s :: int)"
proof -
  have "s mod 60 = s mod 3600 mod 60" by (simp add: mod_mod_cancel)
  then show ?thesis
    using div_mult_mod_eq [of s 3600] div_mult_mod_eq [of "s mod 3600" 60] by linarith
qed

lemma secsOfDay_eq: "secsOfDay l = (l mod day_ns) div second_ns"
  by (simp only: secsOfDay_def Let_def hms_split)

lemma secsOfDay_bounds:
  "lo \<le> secsOfDay l \<longleftrightarrow> wall_day l * day_ns + lo * second_ns \<le> l"
  "secsOfDay l < hi \<longleftrightarrow> l < wall_day l * day_ns + hi * second_ns"
proof -
  have l: "l = wall_day l * day_ns + l mod day_ns" by (simp add: wall_day_def)
  have "lo \<le> secsOfDay l \<longleftrightarrow> lo * second_ns \<le> l mod day_ns"
    unfolding secsOfDay_eq by (simp add: second_ns_def) linarith
  then show "lo \<le> secsOfDay l \<longleftrightarrow> wall_day l * day_ns + lo * second_ns \<le> l" using l by linarith
  have "secsOfDay l < hi \<longleftrightarrow> l mod day_ns < hi * second_ns"
    unfolding secsOfDay_eq by (simp add: second_ns_def) linarith
  then show "secsOfDay l < hi \<longleftrightarrow> l < wall_day l * day_ns + hi * second_ns" using l by linarith
qed

lemma TickerAllowed_iff:
  "TickerAllowed t now \<longleftrightarrow>
     \<not> on_weekend (In_ET now) \<and>
     wall_day (In_ET now) * day_ns + open_secs t * second_ns \<le> In_ET now \<and>
     In_ET now < wall_day (In_ET now) * day_ns + close_secs t * second_ns"
proof -
  have "secsOfDay (In_ET now) \<le> sweepIndexLastSecs \<longleftrightarrow> secsOfDay (In_ET now) < sweepIndexLastSecs + 1"
    by linarith
  then show ?thesis
    by (simp only: TickerAllowed_def Let_def open_secs_def close_secs_def secsOfDay_bounds) auto
qed

lemma open_close: "0 \<le> open_secs t" "open_secs t < close_secs t" "close_secs t * second_ns \<le> day_ns"
  by (simp_all add: open_secs_def close_secs_def sweepIndexOpenSecs_def sweepAllOpenSecs_def
      sweepIndexLastSecs_def sweepAllCloseSecs_def second_ns_def day_ns_def)

lemma open_cand_eq: "open_cand t n = Date_ET (n * day_ns + open_secs t * second_ns)"
proof -
  have "(x div 3600) * hour_ns + (x mod 3600 div 60) * 60 * second_ns + (x mod 60) * second_ns =
      x * second_ns" for x
  proof -
    have h: "hour_ns = 3600 * second_ns" by (simp add: hour_ns_def second_ns_def)
    have "x * second_ns = ((x div 3600) * 3600 + (x mod 3600 div 60) * 60 + x mod 60) * second_ns"
      by (simp only: hms_split)
    then show ?thesis by (simp only: h distrib_right mult.assoc)
  qed
  then show ?thesis unfolding open_cand_def by (metis add.assoc)
qed

lemma wall_day_open: "wall_day (n * day_ns + open_secs t * second_ns) = n"
proof -
  have "open_secs t * second_ns < day_ns" "0 \<le> open_secs t * second_ns"
    using open_close [of t] by (simp_all add: second_ns_def)
  then show ?thesis
    unfolding wall_day_def using div_mult_self3 [of day_ns n "open_secs t * second_ns"]
    by (simp add: day_ns_def)
qed

lemma open_cand_local:
  assumes "weekday n \<noteq> 0" shows "In_ET (open_cand t n) = n * day_ns + open_secs t * second_ns"
proof -
  let ?l = "n * day_ns + open_secs t * second_ns"
  have "weekday (?l div day_ns) \<noteq> 0"
    using assms wall_day_open [of n t] by (simp add: wall_day_def)
  from et.to_local_inverse [OF this refl] show ?thesis
    by (simp add: In_ET_def open_cand_eq Date_ET_def)
qed

lemma AddDays_day:
  fixes now d defines "n \<equiv> wall_day (In_ET now) + d"
  shows "on_weekend (In_ET (AddDays_ET now d)) \<longleftrightarrow> weekday n \<in> {0, 6}"
    and "weekday n \<notin> {0, 6} \<Longrightarrow> wall_day (In_ET (AddDays_ET now d)) = n"
proof -
  let ?l = "In_ET now + d * day_ns"
  have n: "?l div day_ns = n" by (simp add: n_def wall_day_def day_ns_def)
  have c: "AddDays_ET now d = ?l - et_offset (?l - et_offset ?l)"
    by (simp add: AddDays_ET_def Date_ET_def)
  have eq: "In_ET (AddDays_ET now d) = ?l" if "weekday n \<noteq> 0"
    using et.to_local_inverse [OF _ c] that by (simp add: n In_ET_def [of "AddDays_ET now d"])
  have sun: "on_weekend (In_ET (AddDays_ET now d))" if "weekday n = 0"
    using et.to_local_Sunday [OF _ c] that
    by (auto simp: n on_weekend_def wall_day_def In_ET_def [of "AddDays_ET now d"])
  show "on_weekend (In_ET (AddDays_ET now d)) \<longleftrightarrow> weekday n \<in> {0, 6}"
    using eq sun by (cases "weekday n = 0") (auto simp: on_weekend_def wall_day_def n)
  show "weekday n \<notin> {0, 6} \<Longrightarrow> wall_day (In_ET (AddDays_ET now d)) = n"
    using eq by (simp add: wall_day_def n)
qed

lemma next_open_loop_find:
  fixes now defines "D \<equiv> wall_day (In_ET now)"
  shows "next_open_loop t now ds =
    (case find (\<lambda>d. weekday (D + d) \<notin> {0, 6} \<and> open_cand t (D + d) > now) ds of
       None \<Rightarrow> now | Some d \<Rightarrow> open_cand t (D + d))"
proof (induction ds)
  case Nil
  show ?case by simp
next
  case (Cons d ds)
  then show ?case
    using AddDays_day [of now d] by (auto simp: Let_def D_def)
qed

lemma later_day_later: "wall_day (In_ET t) < wall_day (In_ET u) \<Longrightarrow> t < u"
  using et.day_mono [of u t] by (force simp: wall_day_def In_ET_def not_less)

lemma weekend_over: "weekday n \<in> {0, 6} \<Longrightarrow> weekday (n + 2) \<notin> {0, 6}"
proof -
  assume "weekday n \<in> {0, 6}"
  then have "weekday (n + 2) = 2 \<or> weekday (n + 2) = 1"
    unfolding weekday_def by simp presburger
  then show ?thesis by auto
qed

text \<open>The loop always finds a day: of two days two apart, one is not on a weekend.\<close>

lemma NextOpen_day:
  fixes t now defines "D \<equiv> wall_day (In_ET now)"
  obtains d where "0 \<le> d" "d \<le> 7" "weekday (D + d) \<notin> {0, 6}" "now < open_cand t (D + d)"
    "NextOpen t now = open_cand t (D + d)"
    "\<And>k. 0 \<le> k \<Longrightarrow> k < d \<Longrightarrow> weekday (D + k) \<notin> {0, 6} \<Longrightarrow> open_cand t (D + k) \<le> now"
proof -
  let ?P = "\<lambda>d. weekday (D + d) \<notin> {0, 6} \<and> open_cand t (D + d) > now"
  let ?S = "{d \<in> set [0 .. 7]. ?P d}"
  have later: "?P d" if "0 < d" "weekday (D + d) \<notin> {0, 6}" for d
  proof -
    have "weekday (D + d) \<noteq> 0" using that by auto
    then have "wall_day (In_ET (open_cand t (D + d))) = D + d"
      using open_cand_local wall_day_open by metis
    then show ?thesis using that later_day_later [of now] by (simp add: D_def)
  qed
  have "weekday (D + 1) \<notin> {0, 6} \<or> weekday (D + 3) \<notin> {0, 6}"
    using weekend_over [of "D + 1"] by (auto simp: add.commute)
  then obtain d1 where d1: "d1 \<in> {1, 3 :: int}" "weekday (D + d1) \<notin> {0, 6}" by blast
  then have "d1 \<in> ?S" using later [of d1] by auto
  then have ne: "?S \<noteq> {}" by blast
  have fin: "finite ?S" by (rule finite_subset [of _ "set [0 .. 7]"]) auto
  define d where "d = Min ?S"
  have "d \<in> ?S" unfolding d_def using fin ne by (rule Min_in)
  moreover have "find ?P [0 .. 7] = Some d"
    unfolding d_def using find_sorted_Min [of "[0 .. 7]" ?P] ne by (simp only: sorted_upto if_False)
  then have "NextOpen t now = open_cand t (D + d)"
    unfolding NextOpen_def next_open_loop_find D_def by simp
  moreover have "open_cand t (D + k) \<le> now"
    if "0 \<le> k" "k < d" "weekday (D + k) \<notin> {0, 6}" for k
  proof (rule ccontr)
    assume "\<not> open_cand t (D + k) \<le> now"
    then have "k \<in> ?S" using that \<open>d \<in> ?S\<close> by auto
    then have "d \<le> k" unfolding d_def using fin by (rule Min_le [rotated])
    then show False using that by simp
  qed
  ultimately show thesis using that by auto
qed


lemma open_cand_allowed:
  assumes "weekday n \<notin> {0, 6}" shows "TickerAllowed t (open_cand t n)"
proof -
  have l: "In_ET (open_cand t n) = n * day_ns + open_secs t * second_ns"
    using assms by (intro open_cand_local) auto
  have "open_secs t * second_ns < close_secs t * second_ns"
    using open_close [of t] by (simp add: second_ns_def)
  then show ?thesis using assms by (simp add: TickerAllowed_iff l on_weekend_def wall_day_open)
qed

lemma open_cand_before:
  assumes "TickerAllowed t u"
  shows "open_cand t (wall_day (In_ET u)) \<le> u \<and> weekday (wall_day (In_ET u)) \<notin> {0, 6}"
proof -
  let ?n = "wall_day (In_ET u)"
  have w: "weekday ?n \<notin> {0, 6}" using assms by (auto simp: TickerAllowed_iff on_weekend_def)
  then have l: "In_ET (open_cand t ?n) = ?n * day_ns + open_secs t * second_ns"
    by (intro open_cand_local) auto
  have "weekday ((u + et_offset u) div day_ns) \<noteq> 0"
    "weekday ((open_cand t ?n + et_offset (open_cand t ?n)) div day_ns) \<noteq> 0"
    using w l wall_day_open [of ?n t] by (auto simp: wall_day_def In_ET_def)
  from et.weekday_less_iff [OF this] l assms have "\<not> u < open_cand t ?n"
    by (simp add: TickerAllowed_iff In_ET_def)
  with w show ?thesis by simp
qed

lemma same_window:
  assumes "TickerAllowed t u" "open_cand t (wall_day (In_ET u)) \<le> now" "now < u"
  shows "TickerAllowed t now"
proof -
  let ?n = "wall_day (In_ET u)"
  have w: "weekday ?n \<notin> {0, 6}" using open_cand_before [OF assms(1)] by simp
  then have l: "In_ET (open_cand t ?n) = ?n * day_ns + open_secs t * second_ns"
    by (intro open_cand_local) auto
  have "wall_day (In_ET (open_cand t ?n)) \<le> wall_day (In_ET now)" "wall_day (In_ET now) \<le> ?n"
    using et.day_mono [OF assms(2)] et.day_mono [of now u] assms(3)
    by (simp_all add: wall_day_def In_ET_def)
  then have n: "wall_day (In_ET now) = ?n" by (simp add: l wall_day_open)
  have wd: "weekday ((now + et_offset now) div day_ns) \<noteq> 0" "weekday ((u + et_offset u) div day_ns) \<noteq> 0"
    "weekday ((open_cand t ?n + et_offset (open_cand t ?n)) div day_ns) \<noteq> 0"
    using w n l wall_day_open [of ?n t] by (auto simp: wall_day_def In_ET_def)
  have "In_ET (open_cand t ?n) \<le> In_ET now" "In_ET now < In_ET u"
    using et.weekday_less_iff [OF wd(1,3)] et.weekday_less_iff [OF wd(1,2)] assms(2,3)
    by (simp_all add: In_ET_def)
  then show ?thesis
    using assms(1) w by (auto simp: TickerAllowed_iff n l on_weekend_def)
qed

text \<open>
  Fact. The reopening time a blocked row shows is right: it lies ahead, the window
  is open at that instant, and at no instant before it -- daylight-saving changes, weekends
  included.
\<close>

theorem next_open_reopens:
  assumes "\<not> TickerAllowed t now"
  shows "now < NextOpen t now \<and> TickerAllowed t (NextOpen t now) \<and>
    (\<forall>u. now \<le> u \<and> u < NextOpen t now \<longrightarrow> \<not> TickerAllowed t u)"
proof -
  let ?D = "wall_day (In_ET now)"
  obtain d where d: "0 \<le> d" "d \<le> 7" "weekday (?D + d) \<notin> {0, 6}" "now < open_cand t (?D + d)"
    "NextOpen t now = open_cand t (?D + d)"
    "\<And>k. 0 \<le> k \<Longrightarrow> k < d \<Longrightarrow> weekday (?D + k) \<notin> {0, 6} \<Longrightarrow> open_cand t (?D + k) \<le> now"
    using NextOpen_day by blast
  have day: "wall_day (In_ET (open_cand t (?D + d))) = ?D + d"
    using d(3) by (simp add: open_cand_local wall_day_open)
  have "\<not> TickerAllowed t u" if u: "now \<le> u" "u < NextOpen t now" for u
  proof
    assume al: "TickerAllowed t u"
    then have lt: "now < u" using assms u(1) by (cases "u = now") auto
    define k where "k = wall_day (In_ET u) - ?D"
    have k: "0 \<le> k" "k \<le> d" "wall_day (In_ET u) = ?D + k"
      using et.day_mono [OF u(1)] et.day_mono [of u "NextOpen t now"] u(2) day
      by (simp_all add: k_def d(5) wall_day_def In_ET_def)
    have c: "open_cand t (?D + k) \<le> u" "weekday (?D + k) \<notin> {0, 6}"
      using open_cand_before [OF al] k(3) by auto
    have "k \<noteq> d" using c(1) u(2) d(5) by auto
    then have "open_cand t (wall_day (In_ET u)) \<le> now" using d(6) [of k] k c(2) by simp
    then have "TickerAllowed t now" using same_window [OF al _ lt] by simp
    with assms show False ..
  qed
  then show ?thesis using d(4,5) open_cand_allowed [OF d(3)] by simp
qed


text \<open>
  Friday 30 October 2026, 18:30 in New York: the window has just closed and daylight time
  ends on the Sunday in between. The row reopens on Monday at 08:15 standard time.
\<close>

definition friday_close :: instant where
  "friday_close = day_of_civil 2026 10 30 * day_ns + 22 * hour_ns + 30 * 60 * second_ns"

lemma friday_close_blocked: "TickerAllowed ''TSLA'' friday_close = False"
  by code_simp

lemma friday_close_reopens:
  "NextOpen ''TSLA'' friday_close =
     day_of_civil 2026 11 2 * day_ns + 13 * hour_ns + 15 * 60 * second_ns"
  by code_simp

theorem next_open_reopens_witness:
  "friday_close < NextOpen ''TSLA'' friday_close \<and>
   TickerAllowed ''TSLA'' (day_of_civil 2026 11 2 * day_ns + 13 * hour_ns + 15 * 60 * second_ns) \<and>
   \<not> TickerAllowed ''TSLA'' (friday_close + day_ns)"
proof -
  have "friday_close \<le> friday_close + day_ns" "friday_close + day_ns < NextOpen ''TSLA'' friday_close"
    unfolding friday_close_reopens by code_simp+
  then show ?thesis
    using next_open_reopens [of "''TSLA''" friday_close] friday_close_blocked
    by (simp add: friday_close_reopens)
qed

text \<open>
  Fact. A refused click always carries a reason, and outside the two index tickers
  the reason is empty exactly when the window is open; an index ticker gets a reason even
  while its window is open.
\<close>

theorem reason_covers_blocks:
  "(Reason t now = []) = (\<not> IsSweepWindowTicker t \<and> TickerAllowed t now)"
  by (simp add: TickerAllowed_def Reason_def Let_def not_le not_less)

text \<open>
  Fact. The next flush is on the five-minute wall-clock grid, strictly ahead, and at
  most five minutes away.
\<close>

theorem next_flush_grid:
  "now < NextFlushTime now \<and> NextFlushTime now \<le> now + MasterLogFlushEvery \<and>
   NextFlushTime now mod (5 * 60 * second_ns) = 0"
proof -
  have z: "zero_time mod (5 * 60 * second_ns) = 0" by code_simp
  have d: "0 < 5 * 60 * second_ns" by (simp add: second_ns_def)
  have "(now - zero_time) mod (5 * 60 * second_ns) = now mod (5 * 60 * second_ns)"
    using z by (metis diff_zero mod_diff_right_eq)
  then have "NextFlushTime now = now - now mod (5 * 60 * second_ns) + 5 * 60 * second_ns"
    using d by (simp add: NextFlushTime_def Truncate_def MasterLogFlushEvery_def)
  moreover have "(now - now mod m + m) mod m = 0" for m :: int
    by (simp add: minus_mod_eq_mult_div)
  moreover have "now mod (5 * 60 * second_ns) < 5 * 60 * second_ns" "0 \<le> now mod (5 * 60 * second_ns)"
    using d by simp_all
  ultimately show ?thesis by (simp add: MasterLogFlushEvery_def)
qed

end
