(* ===== verification/Hedge.thy ===== *)
theory Hedge
  imports Sweep_Policy "HOL-Library.AList"
begin

text \<open>
  Package \<^verbatim>\<open>hedge\<close>: sizing and statistics (\<^verbatim>\<open>hedge.go\<close>), the closes files (\<^verbatim>\<open>closes.go\<close>), the legs of
  the portfolio (\<^verbatim>\<open>legs.go\<close>) and the session clock (\<^verbatim>\<open>session.go\<close>), in rounded arithmetic. The
  number scanner \<^verbatim>\<open>fmt.Sscanf\<close> is an argument of the parser, so what is shown of a parsed file
  holds whatever prefix of a field it accepts. The time zone data is present, as the serve
  binary embeds it.
\<close>

section \<open>Sizing\<close>

datatype hedge_error =
    EPreviousClose
  | ETooFewReturns
  | ELengths
  | EZeroVariance
  | EBenchVariance
  | EBenchSpot
  | EInsufficientHistory nat
  | ETooFewCloses nat
  | EImplausible string f64
  | EColumns nat
  | EDate string
  | EClose string
  | ENoRows
  | ERebased string f64 nat
  | ESeam string string f64

definition MaxPlausibleReturn :: f64 where "MaxPlausibleReturn = lit (35 / 100)"
definition MinSessions :: nat where "MinSessions = 200"

definition OptionLegDelta :: "f64 \<Rightarrow> f64 \<Rightarrow> int \<Rightarrow> f64" where
  "OptionLegDelta delta multiplier contracts = delta * multiplier * f64_of_int contracts"

definition NetPositionDelta :: "f64 \<Rightarrow> f64 list \<Rightarrow> f64" where
  "NetPositionDelta underlyingShares deltas = fold (\<lambda>d t. t + d) deltas underlyingShares"

definition DollarDelta :: "f64 \<Rightarrow> f64 \<Rightarrow> f64" where
  "DollarDelta netDelta spotPrice = netDelta * spotPrice"

definition DailyReturn :: "f64 \<Rightarrow> f64 \<Rightarrow> hedge_error + f64" where
  "DailyReturn cur prev = (if prev \<le> 0 then Inl EPreviousClose else Inr ((cur - prev) / prev))"

definition Mean :: "f64 list \<Rightarrow> f64" where
  "Mean rs = (if rs = [] then 0 else fold (\<lambda>r t. t + r) rs 0 / f64_of_int (int (length rs)))"

definition SampleVariance :: "f64 list \<Rightarrow> hedge_error + f64" where
  "SampleVariance rs =
     (if length rs < 2 then Inl ETooFewReturns
      else let m = Mean rs
           in Inr (fold (\<lambda>r t. t + (r - m) * (r - m)) rs 0 / f64_of_int (int (length rs) - 1)))"

definition SampleCovariance :: "f64 list \<Rightarrow> f64 list \<Rightarrow> hedge_error + f64" where
  "SampleCovariance ra rb =
     (if length ra \<noteq> length rb \<or> length ra < 2 then Inl ELengths
      else let ma = Mean ra; mb = Mean rb
           in Inr (fold (\<lambda>(a, b) t. t + (a - ma) * (b - mb)) (zip ra rb) 0 / f64_of_int (int (length ra) - 1)))"

definition AnnualizedVolatility :: "f64 list \<Rightarrow> hedge_error + f64" where
  "AnnualizedVolatility rs = bind_res (SampleVariance rs) (\<lambda>v. Inr (math_Sqrt v * math_Sqrt (lit 252)))"

definition Correlation :: "f64 list \<Rightarrow> f64 list \<Rightarrow> hedge_error + f64" where
  "Correlation ra rb =
     bind_res (SampleCovariance ra rb) (\<lambda>cov.
     bind_res (SampleVariance ra) (\<lambda>varA.
     bind_res (SampleVariance rb) (\<lambda>varB.
       let denom = math_Sqrt varA * math_Sqrt varB
       in if feq denom 0 then Inl EZeroVariance else Inr (cov / denom))))"

definition Beta :: "f64 list \<Rightarrow> f64 list \<Rightarrow> hedge_error + f64" where
  "Beta ra rb =
     bind_res (SampleCovariance ra rb) (\<lambda>cov.
     bind_res (SampleVariance rb) (\<lambda>benchVar.
       if feq benchVar 0 then Inl EBenchVariance else Inr (cov / benchVar)))"

definition HedgeDollarValue :: "f64 \<Rightarrow> f64 \<Rightarrow> f64" where
  "HedgeDollarValue beta dollarDelta = beta * dollarDelta"

definition TargetHedgeShares :: "f64 \<Rightarrow> f64 \<Rightarrow> hedge_error + int" where
  "TargetHedgeShares hedgeDollarValue benchSpot =
     (if benchSpot \<le> 0 then Inl EBenchSpot
      else Inr (go_int (math_Round (- (hedgeDollarValue / benchSpot)))))"

section \<open>Closes files\<close>

record close =
  clsDate :: string
  clsClose :: f64

definition parse_sep :: "char \<Rightarrow> string \<Rightarrow> int option" where
  "parse_sep c s =
     (if length s = 10 \<and> s ! 4 = c \<and> s ! 7 = c
      then parse_ymd (take 4 s @ take 2 (drop 5 s) @ drop 8 s) else None)"

definition parseDate :: "string \<Rightarrow> string option" where
  "parseDate s =
     map_option format_ymd
       (case parse_sep CHR ''-'' s of
          Some d \<Rightarrow> Some d
        | None \<Rightarrow> (case parse_ymd s of Some d \<Rightarrow> Some d | None \<Rightarrow> parse_sep CHR ''/'' s))"

definition parseClose :: "(string \<Rightarrow> f64 option) \<Rightarrow> string \<Rightarrow> hedge_error + f64" where
  "parseClose scan s =
     (case scan s of
        None \<Rightarrow> Inl (EClose s)
      | Some v \<Rightarrow> if v \<le> 0 then Inl (EClose s) else Inr v)"

fun strings_Split :: "char \<Rightarrow> string \<Rightarrow> string list" where
  "strings_Split c [] = [[]]"
| "strings_Split c (x # xs) =
     (if x = c then [] # strings_Split c xs
      else case strings_Split c xs of [] \<Rightarrow> [[x]] | w # ws \<Rightarrow> (x # w) # ws)"

definition put_close :: "string \<Rightarrow> f64 \<Rightarrow> close list \<Rightarrow> close list" where
  "put_close date v out =
     (if date \<in> clsDate ` set out
      then map (\<lambda>c. if clsDate c = date then \<lparr>clsDate = date, clsClose = v\<rparr> else c) out
      else out @ [\<lparr>clsDate = date, clsClose = v\<rparr>])"

fun closes_loop :: "(string \<Rightarrow> f64 option) \<Rightarrow> bool \<Rightarrow> close list \<Rightarrow> string list \<Rightarrow> hedge_error + close list" where
  "closes_loop scan header out [] = Inr out"
| "closes_loop scan header out (l # ls) =
     (let line = TrimSpace l
      in if line = [] then closes_loop scan header out ls
         else case strings_Split CHR '','' line of
                [f0, f1] \<Rightarrow>
                  (case parseDate (TrimSpace f0) of
                     None \<Rightarrow> if header then closes_loop scan header out ls else Inl (EDate (TrimSpace f0))
                   | Some date \<Rightarrow>
                       bind_res (parseClose scan (TrimSpace f1)) (\<lambda>v.
                         closes_loop scan False (put_close date v out) ls))
              | fs \<Rightarrow> Inl (EColumns (length fs)))"

definition ParseClosesCSV :: "(string \<Rightarrow> f64 option) \<Rightarrow> string \<Rightarrow> hedge_error + close list" where
  "ParseClosesCSV scan b =
     bind_res (closes_loop scan True [] (strings_Split (CHR 0x0A) b)) (\<lambda>out.
       if out = [] then Inl ENoRows else Inr (sort_key clsDate out))"

fun check_returns :: "close \<Rightarrow> close list \<Rightarrow> hedge_error + unit" where
  "check_returns prev [] = Inr ()"
| "check_returns prev (c # cs) =
     bind_res (DailyReturn (clsClose c) (clsClose prev)) (\<lambda>r.
       if r > MaxPlausibleReturn \<or> r < - MaxPlausibleReturn then Inl (EImplausible (clsDate c) r)
       else check_returns c cs)"

definition ValidateCloses :: "close list \<Rightarrow> hedge_error + unit" where
  "ValidateCloses closes =
     (case closes of
        c # d # cs \<Rightarrow> check_returns c (d # cs)
      | _ \<Rightarrow> Inl (ETooFewCloses (length closes)))"

definition look_of :: "close list \<Rightarrow> (string \<times> f64) list" where
  "look_of cs = fold (\<lambda>c. AList.update (clsDate c) (clsClose c)) cs []"

fun align_loop :: "(string \<times> f64) list \<Rightarrow> close list \<Rightarrow> close list \<times> close list \<times> nat" where
  "align_loop look [] = ([], [], length look)"
| "align_loop look (c # cs) =
     (case map_of look (clsDate c) of
        None \<Rightarrow> (case align_loop look cs of (a, b, dropped) \<Rightarrow> (a, b, Suc dropped))
      | Some bc \<Rightarrow>
          (case align_loop (AList.delete (clsDate c) look) cs of
             (a, b, dropped) \<Rightarrow> (c # a, \<lparr>clsDate = clsDate c, clsClose = bc\<rparr> # b, dropped)))"

definition AlignByDate :: "close list \<Rightarrow> close list \<Rightarrow> close list \<times> close list \<times> nat" where
  "AlignByDate asset bench = align_loop (look_of bench) asset"

fun returns_loop :: "close \<Rightarrow> close list \<Rightarrow> hedge_error + f64 list" where
  "returns_loop prev [] = Inr []"
| "returns_loop prev (c # cs) =
     bind_res (DailyReturn (clsClose c) (clsClose prev)) (\<lambda>r.
       bind_res (returns_loop c cs) (\<lambda>rs. Inr (r # rs)))"

definition Returns :: "close list \<Rightarrow> hedge_error + f64 list" where
  "Returns closes =
     (case closes of
        c # d # cs \<Rightarrow> returns_loop c (d # cs)
      | _ \<Rightarrow> Inl (ETooFewCloses (length closes)))"

section \<open>Continuity with stored history\<close>

definition overlapTolerance :: f64 where "overlapTolerance = lit (1 / 10000)"
definition maxSeamGapDays :: int where "maxSeamGapDays = 7"

definition ymdDays :: "string \<Rightarrow> string \<Rightarrow> int option" where
  "ymdDays a b =
     (case (parse_ymd a, parse_ymd b) of
        (Some ta, Some tb) \<Rightarrow> Some (go_int (Hours (time_Sub (tb * day_ns) (ta * day_ns)) / lit 24))
      | _ \<Rightarrow> None)"

definition drift_step :: "(string \<rightharpoonup> f64) \<Rightarrow> close \<Rightarrow> nat \<times> f64 \<times> string \<Rightarrow> nat \<times> f64 \<times> string" where
  "drift_step look c acc =
     (case look (clsDate c) of
        None \<Rightarrow> acc
      | Some old \<Rightarrow>
          (case acc of (n, worst, date) \<Rightarrow>
             let drift = clsClose c / old - 1
             in if \<bar>drift\<bar> > \<bar>worst\<bar> then (Suc n, drift, clsDate c) else (Suc n, worst, date)))"

definition seam_check :: "close \<Rightarrow> close \<Rightarrow> hedge_error + unit" where
  "seam_check older newer =
     (case ymdDays (clsDate older) (clsDate newer) of
        None \<Rightarrow> Inr ()
      | Some days \<Rightarrow>
          if days \<le> maxSeamGapDays
          then let r = (clsClose newer - clsClose older) / clsClose older
               in if r > MaxPlausibleReturn \<or> r < - MaxPlausibleReturn
                  then Inl (ESeam (clsDate older) (clsDate newer) r) else Inr ()
          else Inr ())"

definition CheckContinuity :: "close list \<Rightarrow> close list \<Rightarrow> hedge_error + unit" where
  "CheckContinuity incoming existing =
     (if incoming = [] \<or> existing = [] then Inr ()
      else case fold (drift_step (map_of (look_of existing))) incoming (0, 0, []) of
             (overlaps, worst, date) \<Rightarrow>
               if overlaps > 0 \<and> \<bar>worst\<bar> > overlapTolerance then Inl (ERebased date worst overlaps)
               else bind_res
                 (if clsDate (hd incoming) > clsDate (last existing)
                  then seam_check (last existing) (hd incoming) else Inr ())
                 (\<lambda>_. if clsDate (last incoming) < clsDate (hd existing)
                       then seam_check (last incoming) (hd existing) else Inr ()))"

section \<open>Pair statistics\<close>

record hedge_stats =
  hsN :: nat
  hsBeta :: f64
  hsRho :: f64
  hsVolA :: f64
  hsVolB :: f64

definition ComputeStats :: "close list \<Rightarrow> close list \<Rightarrow> hedge_error + hedge_stats" where
  "ComputeStats asset bench =
     (case AlignByDate asset bench of
        (a, b, _) \<Rightarrow>
          if length a < 3 then Inl (EInsufficientHistory (length a))
          else
            bind_res (Returns a) (\<lambda>ra.
            bind_res (Returns b) (\<lambda>rb.
            bind_res (Beta ra rb) (\<lambda>beta.
            bind_res (Correlation ra rb) (\<lambda>rho.
            bind_res (AnnualizedVolatility ra) (\<lambda>volA.
            bind_res (AnnualizedVolatility rb) (\<lambda>volB.
              Inr \<lparr>hsN = length ra, hsBeta = beta, hsRho = rho, hsVolA = volA, hsVolB = volB\<rparr>)))))))"

section \<open>Legs and the session clock\<close>

definition LegShare :: string where "LegShare = ''share''"
definition LegOption :: string where "LegOption = ''option''"

record leg =
  lgId :: int
  lgKind :: string
  lgShares :: f64
  lgLegConId :: int
  lgTradingClass :: string
  lgExpiry :: string
  lgRight :: string
  lgStrike :: f64
  lgContracts :: f64
  lgNote :: string
  lgUpdatedAtMs :: int

datatype leg_error = NoShares | BadRight | BadExpiry string | BadStrike | NoContracts | BadKind string | LongNote

definition leg_Validate :: "leg \<Rightarrow> leg_error option" where
  "leg_Validate l =
     (let note = (if length (lgNote l) > 64 then Some LongNote else None)
      in if lgKind l = LegShare then (if feq (lgShares l) 0 then Some NoShares else note)
         else if lgKind l = LegOption
         then if lgRight l \<noteq> ''C'' \<and> lgRight l \<noteq> ''P'' then Some BadRight
              else if Option.is_none (parse_ymd (lgExpiry l)) then Some (BadExpiry (lgExpiry l))
              else if lgStrike l \<le> 0 then Some BadStrike
              else if feq (lgContracts l) 0 then Some NoContracts
              else note
         else Some (BadKind (lgKind l)))"

definition USSession :: "instant \<Rightarrow> string \<times> bool" where
  "USSession now =
     (let et = In_ET now;
          mins = (et mod day_ns) div hour_ns * 60 + (et mod hour_ns) div (60 * second_ns)
      in (format_ymd (wall_day et), mins \<ge> 9 * 60 + 30 \<and> mins < 16 * 60))"

end
