(* ===== verification/Hedge_Props.thy ===== *)
theory Hedge_Props
  imports Hedge
begin

text \<open>
  What the hedge arithmetic guarantees: a parsed closes file is the last value of every date
  in calendar order, a validated one has returns inside the tripwire, two series are joined
  on exactly the dates they share, a series has beta one on itself, and the hedge is the
  nearest whole number of shares on the opposite side.
\<close>

section \<open>Closes files\<close>

definition close_pair :: "close \<Rightarrow> string \<times> f64" where
  "close_pair c = (clsDate c, clsClose c)"

lemma close_pair_make [simp]: "close_pair \<lparr>clsDate = d, clsClose = v\<rparr> = (d, v)"
  by (simp add: close_pair_def)

lemma close_eta: "\<lparr>clsDate = clsDate c, clsClose = clsClose c\<rparr> = c"
  by simp

lemma close_pair_in: "(d, v) \<in> close_pair ` cs \<longleftrightarrow> \<lparr>clsDate = d, clsClose = v\<rparr> \<in> cs"
proof
  assume "(d, v) \<in> close_pair ` cs"
  then obtain c where "c \<in> cs" "(d, v) = close_pair c" by blast
  then show "\<lparr>clsDate = d, clsClose = v\<rparr> \<in> cs" by (cases c) simp
qed (metis close_pair_make image_eqI)

lemma map_of_cons_close: "map_of (close_pair c # ps) x = (if clsDate c = x then Some (clsClose c) else map_of ps x)"
  by (simp add: close_pair_def)

text \<open>The dated row of a line, if it has one.\<close>

definition dated_row :: "(string \<Rightarrow> f64 option) \<Rightarrow> string \<Rightarrow> (string \<times> f64) option" where
  "dated_row scan l =
     (case strings_Split CHR '','' (TrimSpace l) of
        [f0, f1] \<Rightarrow> Option.bind (parseDate (TrimSpace f0)) (\<lambda>d. map_option (Pair d) (scan (TrimSpace f1)))
      | _ \<Rightarrow> None)"

definition dated_rows :: "(string \<Rightarrow> f64 option) \<Rightarrow> string \<Rightarrow> (string \<times> f64) list" where
  "dated_rows scan b = List.map_filter (dated_row scan) (strings_Split (CHR 0x0A) b)"

lemma dated_row_blank: "TrimSpace l = [] \<Longrightarrow> dated_row scan l = None"
  by (simp add: dated_row_def)

lemma closes_loop_rows:
  assumes "closes_loop scan header out ls = Inr out'"
  shows "out' = fold (\<lambda>(d, v). put_close d v) (List.map_filter (dated_row scan) ls) out \<and>
    (\<forall>(d, v) \<in> set (List.map_filter (dated_row scan) ls). \<not> v \<le> 0)"
  using assms
proof (induction ls arbitrary: header out)
  case Nil
  then show ?case by (simp add: List.map_filter_def)
next
  case (Cons l ls)
  show ?case
  proof (cases "TrimSpace l = []")
    case True
    then show ?thesis using Cons by (simp add: dated_row_blank List.map_filter_simps)
  next
    case line: False
    with Cons.prems obtain f0 f1 where f: "strings_Split CHR '','' (TrimSpace l) = [f0, f1]"
      by (auto simp: Let_def split: list.splits)
    show ?thesis
    proof (cases "parseDate (TrimSpace f0)")
      case None
      with Cons.prems line f have h: "closes_loop scan header out ls = Inr out'"
        by (auto simp: Let_def split: if_splits)
      have "dated_row scan l = None" by (simp add: dated_row_def f None)
      with Cons.IH [OF h] show ?thesis by (simp add: List.map_filter_simps)
    next
      case (Some d)
      with Cons.prems line f obtain v where v: "scan (TrimSpace f1) = Some v" "\<not> v \<le> 0"
        and r: "closes_loop scan False (put_close d v out) ls = Inr out'"
        by (auto simp: Let_def parseClose_def bind_res_Inr_iff split: option.splits if_splits)
      have "dated_row scan l = Some (d, v)" by (simp add: dated_row_def f Some v)
      with Cons.IH [OF r] v show ?thesis by (simp add: List.map_filter_simps)
    qed
  qed
qed

lemma put_close_dates:
  assumes "distinct (map clsDate out)" shows "distinct (map clsDate (put_close d v out))"
proof -
  have "map clsDate (map (\<lambda>c. if clsDate c = d then \<lparr>clsDate = d, clsClose = v\<rparr> else c) out) = map clsDate out"
    by (induction out) auto
  with assms show ?thesis by (auto simp: put_close_def simp del: map_map)
qed

lemma put_close_lookup:
  "map_of (map close_pair (put_close d v out)) = (map_of (map close_pair out))(d \<mapsto> v)"
proof -
  have absent: "map_of (map close_pair (out @ [\<lparr>clsDate = d, clsClose = v\<rparr>])) x = ((map_of (map close_pair out))(d \<mapsto> v)) x"
    if "d \<notin> clsDate ` set out" for x
    using that by (induction out) (auto simp: close_pair_def)
  have same: "map_of (map close_pair (map (\<lambda>c. if clsDate c = d then \<lparr>clsDate = d, clsClose = v\<rparr> else c) out)) x =
      (if x = d \<and> d \<in> clsDate ` set out then Some v else map_of (map close_pair out) x)" for x
    by (induction out) (auto simp: map_of_cons_close simp del: map_of.simps(2) map_map)
  show ?thesis
  proof
    fix x show "map_of (map close_pair (put_close d v out)) x = ((map_of (map close_pair out))(d \<mapsto> v)) x"
      using absent [of x] same [of x] by (cases "d \<in> clsDate ` set out") (simp_all add: put_close_def del: map_map)
  qed
qed

lemma fold_put_close:
  assumes "distinct (map clsDate out)"
  shows "distinct (map clsDate (fold (\<lambda>(d, v). put_close d v) rows out)) \<and>
    map_of (map close_pair (fold (\<lambda>(d, v). put_close d v) rows out)) = map_of (map close_pair out) ++ map_of (rev rows)"
  using assms
proof (induction rows arbitrary: out)
  case (Cons r rows)
  obtain d v where r: "r = (d, v)" by fastforce
  show ?case using Cons.IH [OF put_close_dates [OF Cons.prems, of d v]]
    by (auto simp: r put_close_lookup fun_eq_iff map_add_def split: option.split)
qed simp

lemma map_of_close_pair:
  "distinct (map clsDate out) \<Longrightarrow> map_of (map close_pair out) d = Some v \<longleftrightarrow> \<lparr>clsDate = d, clsClose = v\<rparr> \<in> set out"
proof -
  assume "distinct (map clsDate out)"
  then have "distinct (map fst (map close_pair out))" by (simp add: close_pair_def o_def)
  then have "map_of (map close_pair out) d = Some v \<longleftrightarrow> (d, v) \<in> set (map close_pair out)" by simp
  also have "\<dots> \<longleftrightarrow> \<lparr>clsDate = d, clsClose = v\<rparr> \<in> set out" by (simp add: close_pair_in)
  finally show ?thesis .
qed

text \<open>
  Fact. A closes file that parses is the table of its dated rows: strictly ascending
  dates, one row per date, and that row carries the last value the file gives for the date;
  every value passed the positivity test.
\<close>

theorem parsed_closes_table:
  assumes "ParseClosesCSV scan b = Inr out"
  shows "out \<noteq> [] \<and> sorted_wrt (<) (map clsDate out) \<and> (\<forall>c \<in> set out. \<not> clsClose c \<le> 0) \<and>
    (\<forall>d v. \<lparr>clsDate = d, clsClose = v\<rparr> \<in> set out \<longleftrightarrow> map_of (rev (dated_rows scan b)) d = Some v)"
proof -
  obtain raw where raw: "closes_loop scan True [] (strings_Split (CHR 0x0A) b) = Inr raw" "raw \<noteq> []" "out = sort_key clsDate raw"
    using assms by (auto simp: ParseClosesCSV_def bind_res_Inr_iff split: if_splits)
  have r: "raw = fold (\<lambda>(d, v). put_close d v) (dated_rows scan b) []"
    and pos: "\<forall>(d, v) \<in> set (dated_rows scan b). \<not> v \<le> 0"
    using closes_loop_rows [OF raw(1)] by (simp_all add: dated_rows_def)
  have d: "distinct (map clsDate raw)" and m: "map_of (map close_pair raw) = map_of (rev (dated_rows scan b))"
    using fold_put_close [of "[]" "dated_rows scan b"] by (simp_all add: r)
  have s: "sorted (map clsDate out)" "distinct (map clsDate out)"
    using d by (simp_all add: raw(3) distinct_map)
  have rows: "\<lparr>clsDate = d, clsClose = v\<rparr> \<in> set out \<longleftrightarrow> map_of (rev (dated_rows scan b)) d = Some v" for d v
    using map_of_close_pair [OF d(1)] by (simp add: raw(3) m)
  have "\<not> clsClose c \<le> 0" if "c \<in> set out" for c
  proof -
    have "map_of (rev (dated_rows scan b)) (clsDate c) = Some (clsClose c)"
      using rows [of "clsDate c" "clsClose c"] that unfolding close_eta by blast
    then have "(clsDate c, clsClose c) \<in> set (dated_rows scan b)" by (auto dest: map_of_SomeD)
    with pos show ?thesis by blast
  qed
  moreover have "out \<noteq> []" using raw(2,3) by (metis length_0_conv length_sort)
  ultimately show ?thesis using s rows by (simp add: strict_sorted_iff)
qed

definition scan_digits :: "string \<Rightarrow> f64 option" where
  "scan_digits s = (if s \<noteq> [] \<and> list_all is_digit s then Some (f64_of_int (atoi s)) else None)"

definition demo_csv :: string where
  "demo_csv = ''Date,Close'' @ [CHR 0x0A] @ ''2026-09-11,12'' @ [CHR 0x0A] @ ''20260910,10'' @ [CHR 0x0A] @ ''2026/09/11,13'' @ [CHR 0x0A]"

lemma demo_csv_parses:
  "ParseClosesCSV scan_digits demo_csv =
     Inr [\<lparr>clsDate = ''20260910'', clsClose = f64_of_int 10\<rparr>, \<lparr>clsDate = ''20260911'', clsClose = f64_of_int 13\<rparr>]"
proof -
  have sp: "strings_Split (CHR 0x0A) demo_csv = [''Date,Close'', ''2026-09-11,12'', ''20260910,10'', ''2026/09/11,13'', []]"
    by code_simp
  have tr: "TrimSpace ''Date,Close'' = ''Date,Close''" "TrimSpace ''2026-09-11,12'' = ''2026-09-11,12''"
    "TrimSpace ''20260910,10'' = ''20260910,10''" "TrimSpace ''2026/09/11,13'' = ''2026/09/11,13''" "TrimSpace [] = []"
    "TrimSpace ''Date'' = ''Date''" "TrimSpace ''2026-09-11'' = ''2026-09-11''" "TrimSpace ''20260910'' = ''20260910''"
    "TrimSpace ''2026/09/11'' = ''2026/09/11''" "TrimSpace ''10'' = ''10''" "TrimSpace ''12'' = ''12''" "TrimSpace ''13'' = ''13''"
    by code_simp+
  have pd: "parseDate ''Date'' = None" "parseDate ''2026-09-11'' = Some ''20260911''"
    "parseDate ''20260910'' = Some ''20260910''" "parseDate ''2026/09/11'' = Some ''20260911''"
    by code_simp+
  have "list_all is_digit ''10''" "list_all is_digit ''12''" "list_all is_digit ''13''"
    "atoi ''10'' = 10" "atoi ''12'' = 12" "atoi ''13'' = 13"
    by code_simp+
  then have dg: "scan_digits ''10'' = Some (f64_of_int 10)" "scan_digits ''12'' = Some (f64_of_int 12)"
    "scan_digits ''13'' = Some (f64_of_int 13)"
    unfolding scan_digits_def by simp_all
  have f: "\<not> f64_of_int 10 \<le> 0" "\<not> f64_of_int 12 \<le> 0" "\<not> f64_of_int 13 \<le> 0"
    by (simp_all add: f64_of_int_def zero_f64_def f64_simps)
  have le: "''20260910'' < ''20260911''" by code_simp
  show ?thesis
    by (simp add: ParseClosesCSV_def sp tr pd parseClose_def dg f put_close_def less_imp_le [OF le])
qed

theorem parsed_closes_table_witness:
  "map_of (rev (dated_rows scan_digits demo_csv)) ''20260911'' = Some (f64_of_int 13)"
  using parsed_closes_table [OF demo_csv_parses] by (auto dest: spec [of _ "''20260911''"])

section \<open>Returns\<close>

definition plausible :: "close \<Rightarrow> close \<Rightarrow> bool" where
  "plausible prev c \<longleftrightarrow> \<not> clsClose prev \<le> 0 \<and>
     \<not> (clsClose c - clsClose prev) / clsClose prev > MaxPlausibleReturn \<and>
     \<not> (clsClose c - clsClose prev) / clsClose prev < - MaxPlausibleReturn"

lemma check_returns_iff:
  "check_returns prev cs = Inr () \<longleftrightarrow> (\<forall>i < length cs. plausible ((prev # cs) ! i) (cs ! i))"
proof (induction cs arbitrary: prev)
  case (Cons c cs)
  have "check_returns prev (c # cs) = Inr () \<longleftrightarrow> plausible prev c \<and> check_returns c cs = Inr ()"
    by (auto simp: DailyReturn_def plausible_def)
  then show ?case by (simp add: Cons.IH All_less_Suc2)
qed simp

lemma returns_loop_ok:
  "\<forall>i < length cs. \<not> clsClose ((prev # cs) ! i) \<le> 0 \<Longrightarrow>
   returns_loop prev cs = Inr (map (\<lambda>(p, c). (clsClose c - clsClose p) / clsClose p) (zip (prev # cs) cs))"
proof (induction cs arbitrary: prev)
  case (Cons c cs)
  from Cons.prems have "\<not> clsClose prev \<le> 0" "\<forall>i < length cs. \<not> clsClose ((c # cs) ! i) \<le> 0"
    by (simp_all add: All_less_Suc2)
  then show ?case by (simp add: DailyReturn_def Cons.IH)
qed simp

text \<open>
  Fact. The tripwire accepts exactly the series of at least two closes in which every
  consecutive return is inside plus or minus 35 percent, and an accepted series always has
  returns, one per consecutive pair.
\<close>

theorem tripwire_exact:
  "(ValidateCloses cs = Inr ()) = (length cs \<ge> 2 \<and> list_all2 plausible (butlast cs) (tl cs)) \<and>
   (ValidateCloses cs = Inr () \<longrightarrow>
      Returns cs = Inr (map (\<lambda>(p, c). (clsClose c - clsClose p) / clsClose p) (zip cs (tl cs))))"
proof (cases "length cs \<ge> 2")
  case False
  then show ?thesis by (auto simp: ValidateCloses_def split: list.split)
next
  case True
  then obtain c d ds where cs: "cs = c # d # ds" by (metis Suc_le_length_iff numeral_2_eq_2)
  have v: "ValidateCloses cs = Inr () \<longleftrightarrow> (\<forall>i < length (d # ds). plausible (cs ! i) ((d # ds) ! i))"
    by (simp only: cs ValidateCloses_def list.case check_returns_iff)
  have "list_all2 plausible (butlast cs) (tl cs) \<longleftrightarrow> (\<forall>i < length (d # ds). plausible (cs ! i) ((d # ds) ! i))"
    unfolding list_all2_conv_all_nth by (simp add: cs nth_butlast del: butlast.simps)
  moreover have "Returns cs = Inr (map (\<lambda>(p, c). (clsClose c - clsClose p) / clsClose p) (zip cs (tl cs)))"
    if "\<forall>i < length (d # ds). plausible (cs ! i) ((d # ds) ! i)"
    using that returns_loop_ok [of "d # ds" c] by (simp add: cs Returns_def plausible_def del: returns_loop.simps)
  ultimately show ?thesis using True v by blast
qed

definition demo_closes :: "close list" where
  "demo_closes = [\<lparr>clsDate = ''20260910'', clsClose = Fin 4\<rparr>, \<lparr>clsDate = ''20260911'', clsClose = Fin 5\<rparr>]"

theorem tripwire_exact_witness: "ValidateCloses demo_closes = Inr () \<and> Returns demo_closes = Inr [Fin (1 / 4)]"
proof -
  have q: "(Fin 5 - Fin 4) / Fin 4 = Fin (1 / 4)"
    by (simp add: minus_f64_def f64_simps)
  have m: "rnd (1 / 4) \<le> rnd (35 / 100)" "rnd (- (35 / 100)) \<le> rnd (1 / 4)" by (rule rnd_mono, simp)+
  have "plausible \<lparr>clsDate = ''20260910'', clsClose = Fin 4\<rparr> \<lparr>clsDate = ''20260911'', clsClose = Fin 5\<rparr>"
    using m by (auto simp: plausible_def q zero_f64_def MaxPlausibleReturn_def f64_simps rnd_minus less_f64_def)
  then have "length demo_closes \<ge> 2 \<and> list_all2 plausible (butlast demo_closes) (tl demo_closes)"
    by (simp add: demo_closes_def)
  then show ?thesis using tripwire_exact [of demo_closes] by (simp add: demo_closes_def q)
qed

section \<open>The join\<close>

lemma look_of_distinct: "distinct (map fst (look_of cs))"
proof -
  have "distinct (map fst (fold (\<lambda>c. AList.update (clsDate c) (clsClose c)) cs al))" if "distinct (map fst al)" for al
    using that by (induction cs arbitrary: al) (simp_all add: distinct_update)
  then show ?thesis by (simp add: look_of_def)
qed

lemma map_of_look: "map_of (look_of cs) = map_of (rev (map close_pair cs))"
proof -
  have "map_of (fold (\<lambda>c. AList.update (clsDate c) (clsClose c)) cs al) = map_of al ++ map_of (rev (map close_pair cs))" for al
    by (induction cs arbitrary: al) (auto simp: update_conv' close_pair_def fun_eq_iff map_add_def split: option.split)
  then show ?thesis by (simp add: look_of_def)
qed

lemma length_delete:
  "distinct (map fst al) \<Longrightarrow> map_of al k = Some v \<Longrightarrow> Suc (length (AList.delete k al)) = length al"
proof (induction al)
  case (Cons p al)
  show ?case
  proof (cases "fst p = k")
    case True
    then have "k \<notin> fst ` set al" using Cons.prems(1) by auto
    then have "AList.delete k al = al" by (simp add: delete_idem)
    then show ?thesis using True by (cases p) simp
  next
    case False
    with Cons show ?thesis by (cases p) simp
  qed
qed simp

lemma align_loop_spec:
  assumes "distinct (map clsDate cs)" "distinct (map fst look)" "align_loop look cs = (a, b, dropped)"
  shows "a = filter (\<lambda>c. clsDate c \<in> fst ` set look) cs \<and>
    b = map (\<lambda>c. \<lparr>clsDate = clsDate c, clsClose = the (map_of look (clsDate c))\<rparr>) a \<and>
    dropped + 2 * length a = length cs + length look"
  using assms
proof (induction cs arbitrary: look a b dropped)
  case (Cons c cs)
  show ?case
  proof (cases "map_of look (clsDate c)")
    case None
    then obtain n where "align_loop look cs = (a, b, n)" "dropped = Suc n"
      using Cons.prems(3) by (auto split: prod.splits)
    with Cons None show ?thesis by (auto simp: map_of_eq_None_iff)
  next
    case (Some v)
    let ?l = "AList.delete (clsDate c) look"
    obtain a' b' where r: "align_loop ?l cs = (a', b', dropped)" "a = c # a'" "b = \<lparr>clsDate = clsDate c, clsClose = v\<rparr> # b'"
      using Cons.prems(3) Some by (auto split: prod.splits)
    have c: "clsDate x \<noteq> clsDate c" if "x \<in> set cs" for x
      using Cons.prems(1) imageI [OF that, of clsDate] by auto
    have "a' = filter (\<lambda>x. clsDate x \<in> fst ` set ?l) cs"
      and b: "b' = map (\<lambda>x. \<lparr>clsDate = clsDate x, clsClose = the (map_of ?l (clsDate x))\<rparr>) a'"
      and n: "dropped + 2 * length a' = length cs + length ?l"
      using Cons.IH [OF _ distinct_delete [OF Cons.prems(2)] r(1)] Cons.prems(1) by simp_all blast+
    moreover have "fst ` set ?l = fst ` set look - {clsDate c}"
      using dom_map_of_conv_image_fst [of ?l] dom_map_of_conv_image_fst [of look] by (simp add: delete_conv')
    ultimately have a: "a' = filter (\<lambda>x. clsDate x \<in> fst ` set look) cs"
      using c by (simp cong: filter_cong)
    have "b' = map (\<lambda>x. \<lparr>clsDate = clsDate x, clsClose = the (map_of look (clsDate x))\<rparr>) a'"
      using b c a by (simp add: delete_conv')
    moreover have "clsDate c \<in> fst ` set look" using Some by (metis domI dom_map_of_conv_image_fst)
    moreover have "Suc (length ?l) = length look" using length_delete [OF Cons.prems(2) Some] .
    ultimately show ?thesis using r a n Some by simp
  qed
qed auto

text \<open>
  Fact. Two series with one close per date are joined on exactly the dates they share,
  in the order of the asset, each side keeping its own close, and the dropped count is the
  number of rows of either series that have no partner.
\<close>

theorem align_exact:
  assumes "distinct (map clsDate asset)" "distinct (map clsDate bench)" "AlignByDate asset bench = (a, b, dropped)"
  shows "a = filter (\<lambda>c. clsDate c \<in> clsDate ` set bench) asset \<and> map clsDate b = map clsDate a \<and>
    set b = {c \<in> set bench. clsDate c \<in> clsDate ` set asset} \<and>
    dropped + 2 * length a = length asset + length bench"
proof -
  have db: "distinct (map fst (map close_pair bench))" using assms(2) by (simp add: close_pair_def o_def)
  have m: "map_of (look_of bench) = map_of (map close_pair bench)"
    unfolding map_of_look using db by (intro iffD2 [OF map_of_inject_set]) (simp_all add: rev_map [symmetric])
  have keys: "fst ` set (look_of bench) = clsDate ` set bench"
    using dom_map_of_conv_image_fst [of "look_of bench"] dom_map_of_conv_image_fst [of "map close_pair bench"]
    by (simp add: m image_image close_pair_def)
  then have len: "length (look_of bench) = length bench"
    using look_of_distinct [of bench] assms(2) by (metis distinct_card length_map set_map)
  note sp = align_loop_spec [OF assms(1) look_of_distinct assms(3) [unfolded AlignByDate_def], unfolded keys len]
  have look: "\<lparr>clsDate = clsDate c, clsClose = the (map_of (look_of bench) (clsDate c))\<rparr> = c" if "c \<in> set bench" for c
    using map_of_close_pair [OF assms(2), of "clsDate c" "clsClose c"] that unfolding close_eta m by simp
  define g where "g = (\<lambda>d. \<lparr>clsDate = d, clsClose = the (map_of (look_of bench) d)\<rparr>)"
  have "set b = g ` clsDate ` {c \<in> set asset. clsDate c \<in> clsDate ` set bench}"
    using sp by (simp add: g_def image_image)
  also have "clsDate ` {c \<in> set asset. clsDate c \<in> clsDate ` set bench} =
      clsDate ` {c \<in> set bench. clsDate c \<in> clsDate ` set asset}"
  proof -
    have "clsDate ` {c \<in> A. clsDate c \<in> clsDate ` B} = clsDate ` A \<inter> clsDate ` B" for A B :: "close set" by blast
    then show ?thesis by (simp only: Int_commute)
  qed
  also have "g ` \<dots> = {c \<in> set bench. clsDate c \<in> clsDate ` set asset}"
    using look by (force simp: g_def image_image)
  finally have "set b = {c \<in> set bench. clsDate c \<in> clsDate ` set asset}" .
  then show ?thesis using sp by (auto simp: o_def)
qed

theorem align_exact_witness:
  "AlignByDate demo_closes (rev demo_closes) = (demo_closes, demo_closes, 0)"
proof -
  obtain a b n where r: "AlignByDate demo_closes (rev demo_closes) = (a, b, n)" by (metis prod_cases3)
  have d: "distinct (map clsDate demo_closes)" "distinct (map clsDate (rev demo_closes))"
    by (simp_all add: demo_closes_def)
  note sp = align_exact [OF d r]
  have a: "a = demo_closes" using sp by (simp add: demo_closes_def)
  then have "n = 0" "map clsDate b = map clsDate demo_closes" "set b \<subseteq> set demo_closes" using sp by auto
  then have "b = demo_closes" by (auto simp: demo_closes_def)
  with r a \<open>n = 0\<close> show ?thesis by simp
qed

section \<open>Beta and the hedge\<close>

lemma fold_zip_self: "fold (\<lambda>(a, b) t. f a b t) (zip xs xs) s = fold (\<lambda>a t. f a a t) xs s"
  by (induction xs arbitrary: s) simp_all

text \<open>
  Fact. In rounded arithmetic a series has beta exactly one on itself, whenever its
  variance is a finite non-zero number.
\<close>

theorem self_beta_one:
  assumes "SampleVariance rs = Inr (Fin v)" "v \<noteq> 0"
  shows "Beta rs rs = Inr 1"
proof -
  have "\<not> length rs < 2" using assms(1) by (auto simp: SampleVariance_def)
  then have "SampleCovariance rs rs = SampleVariance rs"
    using fold_zip_self [of "\<lambda>a b t. t + (a - Mean rs) * (b - Mean rs)" rs 0]
    by (simp add: SampleCovariance_def SampleVariance_def Let_def)
  with assms show ?thesis by (simp add: Beta_def zero_f64_def one_f64_def)
qed

theorem self_beta_one_witness: "Beta [Fin 1, Fin 3] [Fin 1, Fin 3] = Inr 1"
proof -
  have "SampleVariance [Fin 1, Fin 3] = Inr (Fin 2)"
    by (simp add: SampleVariance_def Mean_def Let_def f64_of_int_def minus_f64_def zero_f64_def f64_simps)
  then show ?thesis by (rule self_beta_one) simp
qed

lemma round_away_half: "\<bar>of_int (round_away x) - x\<bar> \<le> 1 / 2"
proof (cases "0 \<le> x")
  case True
  then show ?thesis using floor_correct [of "x + 1 / 2"] by (simp only: round_away_def if_True abs_le_iff) linarith
next
  case False
  then show ?thesis using floor_correct [of "- x + 1 / 2"]
    by (simp only: round_away_def if_False abs_le_iff of_int_minus) linarith
qed

lemma round_away_sign: "0 \<le> x \<Longrightarrow> 0 \<le> round_away x" "x \<le> 0 \<Longrightarrow> round_away x \<le> 0"
  by (auto simp: round_away_def)

text \<open>
  Property C34. The hedge is whole benchmark shares, within half a share of the exact opposite of
  the hedge value over the benchmark price, and never on the same side; the only error is a
  benchmark price that is not positive.
\<close>

theorem hedge_opposite_nearest:
  assumes "0 < s" "rnd (h / s) = Fin x" "\<bar>x\<bar> \<le> 2 ^ 62"
  shows "\<exists>q. TargetHedgeShares (Fin h) (Fin s) = Inr q \<and> \<bar>of_int q + x\<bar> \<le> 1 / 2 \<and>
    (0 \<le> h \<longrightarrow> q \<le> 0) \<and> (h \<le> 0 \<longrightarrow> 0 \<le> q)"
proof -
  let ?q = "round_away (- x)"
  have b: "\<bar>of_int ?q + x\<bar> \<le> 1 / 2" using round_away_half [of "- x"] by simp
  then have "\<bar>of_int ?q :: real\<bar> \<le> 2 ^ 62 + 1 / 2" using assms(3) by linarith
  then have "\<bar>of_int ?q :: real\<bar> < of_int (2 ^ 63)" by simp
  then have "- (2 ^ 63) \<le> ?q" "?q < 2 ^ 63" by (simp_all only: abs_less_iff of_int_less_iff of_int_minus [symmetric]) linarith+
  then have g: "go_int (math_Round (Fin (- x))) = ?q" by (simp add: go_int_def Let_def)
  have t: "TargetHedgeShares (Fin h) (Fin s) = Inr ?q"
    using assms(1,2) g by (simp add: TargetHedgeShares_def zero_f64_def)
  have "Fin 0 \<le> rnd (h / s)" if "0 \<le> h" using that assms(1) by (intro rnd_nonneg) simp
  moreover have "rnd (h / s) \<le> rnd 0" if "h \<le> 0"
    using that assms(1) by (intro rnd_mono) (simp add: divide_nonpos_pos)
  ultimately show ?thesis using t b assms(2) round_away_sign [of "- x"] by auto
qed

theorem hedge_opposite_nearest_witness:
  "\<exists>q. TargetHedgeShares (Fin 5) (Fin 2) = Inr q \<and> \<bar>of_int q + 5 / 2 :: real\<bar> \<le> 1 / 2 \<and> q \<le> 0"
proof -
  have "rnd (5 / 2) = Fin (5 / 2)" using rnd_dyadic [of 5 1] by simp
  then show ?thesis using hedge_opposite_nearest [of 2 5 "5 / 2"] by simp
qed

end
