(* ===== verification/Hub.thy ===== *)
theory Hub
  imports Prelude Systems "HOL-Library.Sublist" "HOL-Library.Word"
begin

text \<open>
  Package \<^verbatim>\<open>app\<close>, the broadcaster (\<^verbatim>\<open>hub.go\<close>): every subscriber has a channel of sixteen events; a
  full channel loses the event rather than blocking the publisher. The payload of an event is
  the marshalled data, \<^term>\<open>None\<close> where marshalling fails. A closed channel that is closed again
  panics in Go; the map entry is removed before the close, under the same lock.
\<close>

record hub_event =
  evName :: string
  evData :: string

record hub =
  hbNextID :: "64 word"
  hbSubs :: "64 word \<rightharpoonup> hub_event list"

definition buffer_size :: nat where "buffer_size = 16"

definition NewHub :: hub where
  "NewHub = \<lparr>hbNextID = 0, hbSubs = Map.empty\<rparr>"

definition Subscribe :: "hub \<Rightarrow> 64 word \<times> hub" where
  "Subscribe h = (let i = hbNextID h + 1 in (i, h\<lparr>hbNextID := i, hbSubs := (hbSubs h)(i \<mapsto> [])\<rparr>))"

definition Unsubscribe :: "64 word \<Rightarrow> hub \<Rightarrow> hub" where
  "Unsubscribe i h = (if hbSubs h i \<noteq> None then h\<lparr>hbSubs := (hbSubs h)(i := None)\<rparr> else h)"

definition offer :: "hub_event \<Rightarrow> hub_event list \<Rightarrow> hub_event list" where
  "offer e q = (if length q < buffer_size then q @ [e] else q)"

definition Broadcast :: "string \<Rightarrow> string option \<Rightarrow> hub \<Rightarrow> hub" where
  "Broadcast name payload h =
     (case payload of
        None \<Rightarrow> h
      | Some d \<Rightarrow> h\<lparr>hbSubs := (\<lambda>i. map_option (offer \<lparr>evName = name, evData = d\<rparr>) (hbSubs h i))\<rparr>)"

text \<open>The subscriber's side: taking the oldest event of its channel.\<close>

definition receive :: "64 word \<Rightarrow> hub \<Rightarrow> (hub_event \<times> hub) option" where
  "receive i h =
     (case hbSubs h i of
        Some (e # q) \<Rightarrow> Some (e, h\<lparr>hbSubs := (hbSubs h)(i \<mapsto> q)\<rparr>)
      | _ \<Rightarrow> None)"

section \<open>Runs\<close>

text \<open>
  A run with its history: what was broadcast while each subscriber was there, and what it has
  received.
\<close>

record hub_run =
  hrHub :: hub
  hrSent :: "64 word \<Rightarrow> hub_event list"
  hrGot :: "64 word \<Rightarrow> hub_event list"

definition note_sent :: "hub \<Rightarrow> hub_event \<Rightarrow> (64 word \<Rightarrow> hub_event list) \<Rightarrow> 64 word \<Rightarrow> hub_event list" where
  "note_sent h e sent i = (if hbSubs h i \<noteq> None then sent i @ [e] else sent i)"

inductive hub_step :: "hub_run \<Rightarrow> hub_run \<Rightarrow> bool" where
  join: "Subscribe (hrHub r) = (i, h) \<Longrightarrow>
    hub_step r \<lparr>hrHub = h, hrSent = (hrSent r)(i := []), hrGot = (hrGot r)(i := [])\<rparr>"
| leave: "hub_step r (r\<lparr>hrHub := Unsubscribe i (hrHub r)\<rparr>)"
| cast: "hub_step r \<lparr>hrHub = Broadcast name (Some d) (hrHub r),
    hrSent = note_sent (hrHub r) \<lparr>evName = name, evData = d\<rparr> (hrSent r), hrGot = hrGot r\<rparr>"
| unmarshalable: "hub_step r (r\<lparr>hrHub := Broadcast name None (hrHub r)\<rparr>)"
| take: "receive i (hrHub r) = Some (e, h) \<Longrightarrow>
    hub_step r (r\<lparr>hrHub := h, hrGot := (hrGot r)(i := hrGot r i @ [e])\<rparr>)"

definition hub_start :: "hub_run \<Rightarrow> bool" where
  "hub_start r \<longleftrightarrow> hrHub r = NewHub"

interpretation hubs: transition_system hub_start hub_step .

definition delivered_ok :: "hub_run \<Rightarrow> bool" where
  "delivered_ok r \<longleftrightarrow> (\<forall>i q. hbSubs (hrHub r) i = Some q \<longrightarrow>
     length q \<le> buffer_size \<and> subseq (hrGot r i @ q) (hrSent r i) \<and>
     (length (hrSent r i) \<le> buffer_size \<longrightarrow> hrSent r i = hrGot r i @ q))"

lemma offer_ok:
  assumes "length q \<le> buffer_size" "subseq (g @ q) s" "length s \<le> buffer_size \<longrightarrow> s = g @ q"
  shows "length (offer e q) \<le> buffer_size \<and> subseq (g @ offer e q) (s @ [e]) \<and>
    (length (s @ [e]) \<le> buffer_size \<longrightarrow> s @ [e] = g @ offer e q)"
proof (cases "length q < buffer_size")
  case True
  have "subseq ((g @ q) @ [e]) (s @ [e])" using assms(2) by (rule list_emb_append_mono) simp
  with True assms(3) show ?thesis by (simp add: offer_def)
next
  case False
  have "length (g @ q) \<le> length s" using assms(2) by (rule list_emb_length)
  with False assms show ?thesis by (auto simp: offer_def intro: list_emb_append2)
qed

lemma hub_step_ok:
  assumes "hub_step r r'" "delivered_ok r" shows "delivered_ok r'"
  using assms
proof (cases rule: hub_step.cases)
  case (cast name d)
  let ?e = "\<lparr>evName = name, evData = d\<rparr>"
  have "length (offer ?e q) \<le> buffer_size \<and> subseq (hrGot r i @ offer ?e q) (hrSent r i @ [?e]) \<and>
      (length (hrSent r i @ [?e]) \<le> buffer_size \<longrightarrow> hrSent r i @ [?e] = hrGot r i @ offer ?e q)"
    if "hbSubs (hrHub r) i = Some q" for i q
    using assms(2) that by (intro offer_ok) (simp_all add: delivered_ok_def)
  then show ?thesis by (auto simp: delivered_ok_def cast Broadcast_def note_sent_def)
next
  case (take i e h)
  then obtain q where q: "hbSubs (hrHub r) i = Some (e # q)" "h = (hrHub r)\<lparr>hbSubs := (hbSubs (hrHub r))(i \<mapsto> q)\<rparr>"
    by (auto simp: receive_def split: option.splits list.splits)
  have "length (e # q) \<le> buffer_size \<and> subseq (hrGot r i @ e # q) (hrSent r i) \<and>
      (length (hrSent r i) \<le> buffer_size \<longrightarrow> hrSent r i = hrGot r i @ e # q)"
    using assms(2) q(1) unfolding delivered_ok_def by blast
  with assms(2) show ?thesis by (auto simp: delivered_ok_def take q(2))
qed (auto simp: delivered_ok_def Subscribe_def Let_def Unsubscribe_def Broadcast_def)

lemma hub_delivered: "hubs.reachable r \<Longrightarrow> delivered_ok r"
proof (erule hubs.invariant)
  show "delivered_ok s" if "hub_start s" for s using that by (simp add: hub_start_def NewHub_def delivered_ok_def)
qed (rule hub_step_ok)

text \<open>
  Fact. In any run of the broadcaster, a subscriber's channel never holds more than
  sixteen events; what it has received and still holds is, in order and without repetition,
  a part of what was broadcast since it subscribed, and it is all of it as long as no more than
  sixteen events were broadcast to it.
\<close>
theorem hub_delivery:
  assumes "hubs.reachable r" "hbSubs (hrHub r) i = Some q"
  shows "length q \<le> 16 \<and> subseq (hrGot r i @ q) (hrSent r i) \<and>
    (length (hrSent r i) \<le> 16 \<longrightarrow> hrSent r i = hrGot r i @ q)"
  using hub_delivered [OF assms(1)] assms(2) by (simp add: delivered_ok_def buffer_size_def)

definition hub_demo :: hub_run where
  "hub_demo = \<lparr>hrHub = Broadcast ''state'' (Some ''x'') (snd (Subscribe NewHub)),
     hrSent = (\<lambda>_. [])(1 := [\<lparr>evName = ''state'', evData = ''x''\<rparr>]), hrGot = (\<lambda>_. [])\<rparr>"

lemma hub_demo_reachable: "hubs.reachable hub_demo"
proof -
  let ?r = "\<lparr>hrHub = NewHub, hrSent = (\<lambda>_. []), hrGot = (\<lambda>_. [])\<rparr>"
  let ?j = "\<lparr>hrHub = snd (Subscribe NewHub), hrSent = (\<lambda>_. []), hrGot = (\<lambda>_. [])\<rparr>"
  have "hubs.reachable ?r" by (rule hubs.reachable.start) (simp add: hub_start_def)
  moreover have "hub_step ?r ?j"
    using hub_step.join [of ?r 1 "snd (Subscribe NewHub)"] by (simp add: Subscribe_def NewHub_def fun_upd_idem)
  moreover have "hub_step ?j hub_demo"
  proof -
    have "note_sent (hrHub ?j) e (\<lambda>_. []) = (\<lambda>_. [])(1 := [e])" for e
      by (simp add: note_sent_def Subscribe_def NewHub_def fun_eq_iff)
    then show ?thesis using hub_step.cast [of ?j "''state''" "''x''"] by (simp add: hub_demo_def)
  qed
  ultimately show ?thesis by (blast intro: hubs.reachable.move)
qed

lemma hub_demo_sub: "hbSubs (hrHub hub_demo) 1 = Some [\<lparr>evName = ''state'', evData = ''x''\<rparr>]"
  by (simp add: hub_demo_def Broadcast_def Subscribe_def NewHub_def offer_def buffer_size_def)

theorem hub_delivery_witness:
  "hrSent hub_demo 1 = hrGot hub_demo 1 @ [\<lparr>evName = ''state'', evData = ''x''\<rparr>] \<and> length (hrSent hub_demo 1) = 1"
proof -
  have "length (hrSent hub_demo 1) = 1" by (simp add: hub_demo_def)
  then show ?thesis using hub_delivery [OF hub_demo_reachable hub_demo_sub] by simp
qed

end
