(* ===== verification/Wire.thy ===== *)
theory Wire
  imports Sweep_Policy
begin

text \<open>
  Package \<^verbatim>\<open>edge\<close>, the wire protocol (\<^verbatim>\<open>proto.go\<close> and the encoder of \<^verbatim>\<open>server.go\<close>): the
  envelope, the typed payloads and their decoding. A line is the JSON value it parses to,
  or nothing when it does not parse; \<^verbatim>\<open>json.Unmarshal\<close> is modelled on JSON values: keys
  match without regard to ASCII case, unknown keys are ignored, \<^verbatim>\<open>null\<close> leaves a field as
  it is, a repeated key decodes again over the first, and a value of the wrong kind or out
  of range is an error. \<^verbatim>\<open>json.Marshal\<close> writes a whole float as an integer literal and
  refuses NaN and infinities.
\<close>

section \<open>JSON values\<close>

datatype json =
    JNull
  | JBool bool
  | JInt int
  | JNum real
  | JStr string
  | JArr "json list"
  | JObj "(string \<times> json) list"

definition field_vals :: "string \<Rightarrow> (string \<times> json) list \<Rightarrow> json list" where
  "field_vals name fs = map snd (filter (\<lambda>(k, v). ToUpper k = ToUpper name) fs)"

fun dec_all :: "(json \<Rightarrow> 'a \<Rightarrow> 'a option) \<Rightarrow> json list \<Rightarrow> 'a \<Rightarrow> 'a option" where
  "dec_all d [] a = Some a"
| "dec_all d (v # vs) a = Option.bind (d v a) (dec_all d vs)"

definition dec_field :: "(json \<Rightarrow> 'a \<Rightarrow> 'a option) \<Rightarrow> string \<Rightarrow> (string \<times> json) list \<Rightarrow> 'a \<Rightarrow> 'a option" where
  "dec_field d name fs a = dec_all d (field_vals name fs) a"

fun dec_str :: "json \<Rightarrow> string \<Rightarrow> string option" where
  "dec_str JNull a = Some a"
| "dec_str (JStr s) a = Some s"
| "dec_str _ a = None"

fun dec_bool :: "json \<Rightarrow> bool \<Rightarrow> bool option" where
  "dec_bool JNull a = Some a"
| "dec_bool (JBool b) a = Some b"
| "dec_bool _ a = None"

fun dec_int :: "json \<Rightarrow> int \<Rightarrow> int option" where
  "dec_int JNull a = Some a"
| "dec_int (JInt n) a = (if - (2 ^ 63) \<le> n \<and> n < 2 ^ 63 then Some n else None)"
| "dec_int _ a = None"

fun dec_f64 :: "json \<Rightarrow> f64 \<Rightarrow> f64 option" where
  "dec_f64 JNull a = Some a"
| "dec_f64 (JInt n) a = (if finite64 (rnd (of_int n)) then Some (rnd (of_int n)) else None)"
| "dec_f64 (JNum x) a = (if finite64 (rnd x) then Some (rnd x) else None)"
| "dec_f64 _ a = None"

fun dec_list :: "(json \<Rightarrow> 'a option) \<Rightarrow> json \<Rightarrow> 'a list \<Rightarrow> 'a list option" where
  "dec_list d JNull a = Some []"
| "dec_list d (JArr vs) a = those (map d vs)"
| "dec_list d _ a = None"

fun dec_raw :: "json \<Rightarrow> json option \<Rightarrow> json option option" where
  "dec_raw v a = Some (Some v)"

text \<open>A struct: an object, or \<^verbatim>\<open>null\<close>, which leaves every field at its zero value.\<close>

fun struct :: "((string \<times> json) list \<Rightarrow> 'a option) \<Rightarrow> json \<Rightarrow> 'a option" where
  "struct f JNull = f []"
| "struct f (JObj fs) = f fs"
| "struct f _ = None"

definition f_str :: "string \<Rightarrow> (string \<times> json) list \<Rightarrow> string option" where
  "f_str name fs = dec_field dec_str name fs []"

definition f_int :: "string \<Rightarrow> (string \<times> json) list \<Rightarrow> int option" where
  "f_int name fs = dec_field dec_int name fs 0"

definition f_f64 :: "string \<Rightarrow> (string \<times> json) list \<Rightarrow> f64 option" where
  "f_f64 name fs = dec_field dec_f64 name fs 0"

definition f_bool :: "string \<Rightarrow> (string \<times> json) list \<Rightarrow> bool option" where
  "f_bool name fs = dec_field dec_bool name fs False"

definition f_list :: "(json \<Rightarrow> 'a option) \<Rightarrow> string \<Rightarrow> (string \<times> json) list \<Rightarrow> 'a list option" where
  "f_list d name fs = dec_field (dec_list d) name fs []"

section \<open>Envelopes\<close>

definition ProtoVersion :: int where "ProtoVersion = 2"

record envelope =
  eV :: int
  eSeq :: int
  eType :: string
  eTS :: int
  eID :: int
  eData :: "json option"

datatype wire_error = BadJson | BadVersion int | NoType | BadSeq int

definition unmarshal_envelope :: "json \<Rightarrow> envelope option" where
  "unmarshal_envelope = struct (\<lambda>fs.
     Option.bind (f_int ''v'' fs) (\<lambda>v.
     Option.bind (f_int ''seq'' fs) (\<lambda>sq.
     Option.bind (f_str ''type'' fs) (\<lambda>ty.
     Option.bind (f_int ''ts'' fs) (\<lambda>ts.
     Option.bind (f_int ''id'' fs) (\<lambda>i.
     Option.bind (dec_field dec_raw ''data'' fs None) (\<lambda>dt.
     Some \<lparr>eV = v, eSeq = sq, eType = ty, eTS = ts, eID = i, eData = dt\<rparr>)))))))"

definition decodeEnvelope :: "json option \<Rightarrow> wire_error + envelope" where
  "decodeEnvelope line =
     (case Option.bind line unmarshal_envelope of
        None \<Rightarrow> Inl BadJson
      | Some env \<Rightarrow>
          if eV env \<noteq> ProtoVersion then Inl (BadVersion (eV env))
          else if eType env = [] then Inl NoType
          else if eSeq env < 1 then Inl (BadSeq (eSeq env))
          else Inr env)"

section \<open>Payloads the edge sends\<close>

definition TypeHello :: string where "TypeHello = ''hello''"
definition TypeChain :: string where "TypeChain = ''chain''"
definition TypeOptComp :: string where "TypeOptComp = ''optcomp''"
definition TypeSpot :: string where "TypeSpot = ''spot''"
definition TypeTrade :: string where "TypeTrade = ''trade''"
definition TypeDepth :: string where "TypeDepth = ''depth''"
definition TypeStatus :: string where "TypeStatus = ''status''"
definition TypePing :: string where "TypePing = ''ping''"
definition TypePong :: string where "TypePong = ''pong''"
definition TypeBye :: string where "TypeBye = ''bye''"
definition TypeSpotSub :: string where "TypeSpotSub = ''spot_sub''"
definition TypeSweepDone :: string where "TypeSweepDone = ''sweep_done''"

lemmas type_names = TypeHello_def TypeChain_def TypeOptComp_def TypeSpot_def TypeTrade_def
  TypeDepth_def TypeStatus_def TypePing_def TypePong_def TypeBye_def TypeSpotSub_def TypeSweepDone_def

record hello =
  hInstance :: string
  hCaps :: "string list"
  hEdgeVer :: string

definition dec_string :: "json \<Rightarrow> string option" where
  "dec_string v = dec_str v []"

definition unmarshal_hello :: "json \<Rightarrow> hello option" where
  "unmarshal_hello = struct (\<lambda>fs.
     Option.bind (f_str ''instance'' fs) (\<lambda>i.
     Option.bind (f_list dec_string ''caps'' fs) (\<lambda>cs.
     Option.bind (f_str ''edgeVer'' fs) (\<lambda>v.
     Some \<lparr>hInstance = i, hCaps = cs, hEdgeVer = v\<rparr>))))"

record chain_listing =
  clDate :: string
  clTradingClass :: string
  clSettlement :: string

definition unmarshal_listing :: "json \<Rightarrow> chain_listing option" where
  "unmarshal_listing = struct (\<lambda>fs.
     Option.bind (f_str ''date'' fs) (\<lambda>d.
     Option.bind (f_str ''tradingClass'' fs) (\<lambda>c.
     Option.bind (f_str ''settlement'' fs) (\<lambda>s.
     Some \<lparr>clDate = d, clTradingClass = c, clSettlement = s\<rparr>))))"

record chain_ev =
  ceTicker :: string
  ceUnderlyingType :: string
  ceExchange :: string
  ceSpot :: f64
  ceBaselineIV :: f64
  ceAsOfMs :: int
  ceStrikes :: "f64 list"
  ceListings :: "chain_listing list"

definition unmarshal_chain :: "json \<Rightarrow> chain_ev option" where
  "unmarshal_chain = struct (\<lambda>fs.
     Option.bind (f_str ''ticker'' fs) (\<lambda>t.
     Option.bind (f_str ''underlyingType'' fs) (\<lambda>u.
     Option.bind (f_str ''exchange'' fs) (\<lambda>x.
     Option.bind (f_f64 ''spot'' fs) (\<lambda>sp.
     Option.bind (f_f64 ''baselineIv'' fs) (\<lambda>iv.
     Option.bind (f_int ''asOfMs'' fs) (\<lambda>ms.
     Option.bind (f_list (\<lambda>v. dec_f64 v 0) ''strikes'' fs) (\<lambda>ks.
     Option.bind (f_list unmarshal_listing ''listings'' fs) (\<lambda>ls.
     Some \<lparr>ceTicker = t, ceUnderlyingType = u, ceExchange = x, ceSpot = sp, ceBaselineIV = iv,
           ceAsOfMs = ms, ceStrikes = ks, ceListings = ls\<rparr>)))))))))"

record opt_comp =
  ocTicker :: string
  ocConId :: int
  ocStrike :: f64
  ocRight :: string
  ocExpiry :: string
  ocTradingClass :: string
  ocSettlement :: string
  ocExchange :: string
  ocMultiplier :: f64
  ocIV :: f64
  ocBid :: f64
  ocAsk :: f64
  ocOpenInterest :: f64
  ocUndPrice :: f64
  ocDelta :: f64
  ocGamma :: f64
  ocVega :: f64
  ocTheta :: f64
  ocSrc :: string

definition unmarshal_optcomp :: "json \<Rightarrow> opt_comp option" where
  "unmarshal_optcomp = struct (\<lambda>fs.
     Option.bind (f_str ''ticker'' fs) (\<lambda>t.
     Option.bind (f_int ''conId'' fs) (\<lambda>con.
     Option.bind (f_f64 ''strike'' fs) (\<lambda>k.
     Option.bind (f_str ''right'' fs) (\<lambda>r.
     Option.bind (f_str ''expiry'' fs) (\<lambda>ex.
     Option.bind (f_str ''tradingClass'' fs) (\<lambda>cls.
     Option.bind (f_str ''settlement'' fs) (\<lambda>st.
     Option.bind (f_str ''exchange'' fs) (\<lambda>xc.
     Option.bind (f_f64 ''multiplier'' fs) (\<lambda>m.
     Option.bind (f_f64 ''iv'' fs) (\<lambda>iv.
     Option.bind (f_f64 ''bid'' fs) (\<lambda>b.
     Option.bind (f_f64 ''ask'' fs) (\<lambda>a.
     Option.bind (f_f64 ''openInterest'' fs) (\<lambda>oi.
     Option.bind (f_f64 ''undPrice'' fs) (\<lambda>up.
     Option.bind (f_f64 ''delta'' fs) (\<lambda>dl.
     Option.bind (f_f64 ''gamma'' fs) (\<lambda>gm.
     Option.bind (f_f64 ''vega'' fs) (\<lambda>vg.
     Option.bind (f_f64 ''theta'' fs) (\<lambda>th.
     Option.bind (f_str ''src'' fs) (\<lambda>src.
     Some \<lparr>ocTicker = t, ocConId = con, ocStrike = k, ocRight = r, ocExpiry = ex, ocTradingClass = cls,
           ocSettlement = st, ocExchange = xc, ocMultiplier = m, ocIV = iv, ocBid = b, ocAsk = a,
           ocOpenInterest = oi, ocUndPrice = up, ocDelta = dl, ocGamma = gm, ocVega = vg,
           ocTheta = th, ocSrc = src\<rparr>))))))))))))))))))))"

record spot_ev =
  spTicker :: string
  spPrice :: f64

definition unmarshal_spot :: "json \<Rightarrow> spot_ev option" where
  "unmarshal_spot = struct (\<lambda>fs.
     Option.bind (f_str ''ticker'' fs) (\<lambda>t.
     Option.bind (f_f64 ''price'' fs) (\<lambda>p. Some \<lparr>spTicker = t, spPrice = p\<rparr>)))"

record spot_sub = ssTicker :: string

definition unmarshal_spot_sub :: "json \<Rightarrow> spot_sub option" where
  "unmarshal_spot_sub = struct (\<lambda>fs. map_option (\<lambda>t. \<lparr>ssTicker = t\<rparr>) (f_str ''ticker'' fs))"

record status_ev =
  stLinesUsed :: int
  stMsgRate :: f64
  stSnapshotSpend :: f64
  stConnected :: bool
  stSweepActive :: "string list"

definition unmarshal_status :: "json \<Rightarrow> status_ev option" where
  "unmarshal_status = struct (\<lambda>fs.
     Option.bind (f_int ''linesUsed'' fs) (\<lambda>l.
     Option.bind (f_f64 ''msgRate'' fs) (\<lambda>m.
     Option.bind (f_f64 ''snapshotSpend'' fs) (\<lambda>s.
     Option.bind (f_bool ''connected'' fs) (\<lambda>c.
     Option.bind (f_list dec_string ''sweepActive'' fs) (\<lambda>a.
     Some \<lparr>stLinesUsed = l, stMsgRate = m, stSnapshotSpend = s, stConnected = c, stSweepActive = a\<rparr>))))))"

record sweep_done =
  sdTicker :: string
  sdOk :: bool
  sdReason :: string
  sdRequested :: int

definition unmarshal_sweep_done :: "json \<Rightarrow> sweep_done option" where
  "unmarshal_sweep_done = struct (\<lambda>fs.
     Option.bind (f_str ''ticker'' fs) (\<lambda>t.
     Option.bind (f_bool ''ok'' fs) (\<lambda>ok.
     Option.bind (f_str ''reason'' fs) (\<lambda>r.
     Option.bind (f_int ''requested'' fs) (\<lambda>n.
     Some \<lparr>sdTicker = t, sdOk = ok, sdReason = r, sdRequested = n\<rparr>)))))"

section \<open>Messages the core sends\<close>

definition TypeWelcome :: string where "TypeWelcome = ''welcome''"
definition TypeSubSet :: string where "TypeSubSet = ''sub_set''"
definition TypeError :: string where "TypeError = ''error''"
definition TypeSweepSet :: string where "TypeSweepSet = ''sweep_set''"
definition TypeSpotAck :: string where "TypeSpotAck = ''spot_ack''"

record welcome_msg =
  weSession :: string
  weServerMs :: int
  weProto :: int

record strike_window =
  swTradingClass :: string
  swDate :: string
  swStrikeLo :: f64
  swStrikeHi :: f64

record sub_set =
  suTicker :: string
  suKeep :: "chain_listing list"
  suStrikeLo :: f64
  suStrikeHi :: f64
  suWindows :: "strike_window list"

record error_msg =
  emCode :: string
  emMessage :: string

datatype out_data =
    NoData
  | WelcomeData welcome_msg
  | SubSetData sub_set
  | ErrorData error_msg
  | SpotAckData string
  | SweepSetData "sweep_entry list"

record outbound =
  oSeq :: int
  oType :: string
  oTS :: int
  oID :: int
  oData :: out_data

section \<open>Encoding\<close>

fun enc_f64 :: "f64 \<Rightarrow> json option" where
  "enc_f64 (Fin x) = Some (if x = of_int \<lfloor>x\<rfloor> \<and> \<bar>x\<bar> < 10 ^ 21 then JInt \<lfloor>x\<rfloor> else JNum x)"
| "enc_f64 _ = None"

definition omit_empty :: "string \<Rightarrow> string \<Rightarrow> (string \<times> json) list" where
  "omit_empty name s = (if s = [] then [] else [(name, JStr s)])"

definition marshal_listing :: "chain_listing \<Rightarrow> json" where
  "marshal_listing l = JObj ([(''date'', JStr (clDate l)), (''tradingClass'', JStr (clTradingClass l))]
     @ omit_empty ''settlement'' (clSettlement l))"

definition marshal_window :: "strike_window \<Rightarrow> json option" where
  "marshal_window w =
     Option.bind (enc_f64 (swStrikeLo w)) (\<lambda>lo.
     Option.bind (enc_f64 (swStrikeHi w)) (\<lambda>hi.
     Some (JObj [(''tradingClass'', JStr (swTradingClass w)), (''date'', JStr (swDate w)),
                 (''strikeLo'', lo), (''strikeHi'', hi)])))"

definition marshal_sub_set :: "sub_set \<Rightarrow> json option" where
  "marshal_sub_set s =
     Option.bind (enc_f64 (suStrikeLo s)) (\<lambda>lo.
     Option.bind (enc_f64 (suStrikeHi s)) (\<lambda>hi.
     Option.bind (those (map marshal_window (suWindows s))) (\<lambda>ws.
     Some (JObj ([(''ticker'', JStr (suTicker s)), (''keep'', JArr (map marshal_listing (suKeep s))),
                  (''strikeLo'', lo), (''strikeHi'', hi)]
                 @ (if ws = [] then [] else [(''windows'', JArr ws)]))))))"

fun marshal_data :: "out_data \<Rightarrow> json option" where
  "marshal_data NoData = None"
| "marshal_data (WelcomeData w) = Some (JObj [(''session'', JStr (weSession w)),
     (''serverMs'', JInt (weServerMs w)), (''proto'', JInt (weProto w))])"
| "marshal_data (SubSetData s) = marshal_sub_set s"
| "marshal_data (ErrorData e) = Some (JObj [(''code'', JStr (emCode e)), (''message'', JStr (emMessage e))])"
| "marshal_data (SpotAckData t) = Some (JObj [(''ticker'', JStr t)])"
| "marshal_data (SweepSetData r) =
     Some (JObj [(''tickers'', JArr (map (\<lambda>e. JObj [(''ticker'', JStr (seTicker e))]) r))])"

text \<open>
  \<^verbatim>\<open>encodeOutbound\<close>: no data at all for a nil payload, an error when the payload holds a
  float JSON cannot write; \<^verbatim>\<open>id\<close> and \<^verbatim>\<open>data\<close> are left out when empty.
\<close>

definition wire_line :: "outbound \<Rightarrow> json option \<Rightarrow> json" where
  "wire_line out raw = JObj
     ([(''v'', JInt ProtoVersion), (''seq'', JInt (oSeq out)), (''type'', JStr (oType out)),
       (''ts'', JInt (oTS out))]
      @ (if oID out = 0 then [] else [(''id'', JInt (oID out))])
      @ (case raw of None \<Rightarrow> [] | Some v \<Rightarrow> [(''data'', v)]))"

definition encodeOutbound :: "outbound \<Rightarrow> json option" where
  "encodeOutbound out =
     (if oData out = NoData then Some (wire_line out None)
      else map_option (\<lambda>v. wire_line out (Some v)) (marshal_data (oData out)))"

section \<open>The receiving end\<close>

text \<open>Decoding of the replies, as the simulated edge does it.\<close>

definition unmarshal_window :: "json \<Rightarrow> strike_window option" where
  "unmarshal_window = struct (\<lambda>fs.
     Option.bind (f_str ''tradingClass'' fs) (\<lambda>c.
     Option.bind (f_str ''date'' fs) (\<lambda>d.
     Option.bind (f_f64 ''strikeLo'' fs) (\<lambda>lo.
     Option.bind (f_f64 ''strikeHi'' fs) (\<lambda>hi.
     Some \<lparr>swTradingClass = c, swDate = d, swStrikeLo = lo, swStrikeHi = hi\<rparr>)))))"

definition unmarshal_sub_set :: "json \<Rightarrow> sub_set option" where
  "unmarshal_sub_set = struct (\<lambda>fs.
     Option.bind (f_str ''ticker'' fs) (\<lambda>t.
     Option.bind (f_list unmarshal_listing ''keep'' fs) (\<lambda>ks.
     Option.bind (f_f64 ''strikeLo'' fs) (\<lambda>lo.
     Option.bind (f_f64 ''strikeHi'' fs) (\<lambda>hi.
     Option.bind (f_list unmarshal_window ''windows'' fs) (\<lambda>ws.
     Some \<lparr>suTicker = t, suKeep = ks, suStrikeLo = lo, suStrikeHi = hi, suWindows = ws\<rparr>))))))"

section \<open>Round trips\<close>

lemmas wire_simps = dec_field_def field_vals_def f_str_def f_int_def f_f64_def f_bool_def f_list_def
  ToUpper_def upper_char_def omit_empty_def

lemma field_vals_Nil [simp]: "field_vals n [] = []"
  by (simp add: field_vals_def)

lemma field_vals_Cons [simp]:
  "field_vals n ((k, v) # fs) = (if ToUpper k = ToUpper n then v # field_vals n fs else field_vals n fs)"
  by (simp add: field_vals_def)

lemma enc_f64_dec:
  assumes "enc_f64 a = Some v" "is_f64 a" shows "dec_f64 v b = Some a"
proof (cases a)
  case (Fin x)
  have r: "rnd x = Fin x" using assms(2) Fin by (simp add: is_f64_Fin_rnd)
  then have "x = of_int \<lfloor>x\<rfloor> \<Longrightarrow> rnd (of_int \<lfloor>x\<rfloor>) = Fin x" by simp
  with r show ?thesis using assms(1) Fin by (auto split: if_splits)
qed (use assms in auto)

lemma those_map_Some: "(\<And>x. x \<in> set xs \<Longrightarrow> f (g x) = Some x) \<Longrightarrow> those (map f (map g xs)) = Some xs"
  by (induction xs) simp_all

lemma listing_roundtrip: "unmarshal_listing (marshal_listing l) = Some l"
proof -
  have k: "ToUpper ''date'' = ''DATE''" "ToUpper ''tradingClass'' = ''TRADINGCLASS''"
    "ToUpper ''settlement'' = ''SETTLEMENT''" by code_simp+
  show ?thesis
    by (cases l) (simp add: unmarshal_listing_def marshal_listing_def f_str_def dec_field_def omit_empty_def k)
qed

lemma window_roundtrip:
  assumes "marshal_window w = Some v" "is_f64 (swStrikeLo w)" "is_f64 (swStrikeHi w)"
  shows "unmarshal_window v = Some w"
proof -
  have k: "ToUpper ''date'' = ''DATE''" "ToUpper ''tradingClass'' = ''TRADINGCLASS''"
    "ToUpper ''strikeLo'' = ''STRIKELO''" "ToUpper ''strikeHi'' = ''STRIKEHI''" by code_simp+
  obtain lo hi where e: "enc_f64 (swStrikeLo w) = Some lo" "enc_f64 (swStrikeHi w) = Some hi"
    and v: "v = JObj [(''tradingClass'', JStr (swTradingClass w)), (''date'', JStr (swDate w)),
                 (''strikeLo'', lo), (''strikeHi'', hi)]"
    using assms(1) by (auto simp: marshal_window_def bind_eq_Some_conv)
  from enc_f64_dec [OF e(1) assms(2)] enc_f64_dec [OF e(2) assms(3)] show ?thesis
    unfolding v by (cases w) (simp add: unmarshal_window_def f_str_def f_f64_def dec_field_def k)
qed

lemma windows_roundtrip:
  "those (map marshal_window ws) = Some vs \<Longrightarrow>
   \<forall>w \<in> set ws. is_f64 (swStrikeLo w) \<and> is_f64 (swStrikeHi w) \<Longrightarrow>
   those (map unmarshal_window vs) = Some ws"
proof (induction ws arbitrary: vs)
  case (Cons w ws)
  then obtain v vs' where "marshal_window w = Some v" "those (map marshal_window ws) = Some vs'" "vs = v # vs'"
    by (auto split: option.splits)
  with Cons window_roundtrip [of w v] show ?case by auto
qed simp

text \<open>The floats of a reply are floating-point numbers.\<close>

definition sub_set_f64 :: "sub_set \<Rightarrow> bool" where
  "sub_set_f64 s \<longleftrightarrow> is_f64 (suStrikeLo s) \<and> is_f64 (suStrikeHi s) \<and>
     (\<forall>w \<in> set (suWindows s). is_f64 (swStrikeLo w) \<and> is_f64 (swStrikeHi w))"

lemma sub_set_roundtrip:
  assumes "marshal_sub_set s = Some v" "sub_set_f64 s"
  shows "unmarshal_sub_set v = Some s"
proof -
  have k: "ToUpper ''ticker'' = ''TICKER''" "ToUpper ''keep'' = ''KEEP''" "ToUpper ''windows'' = ''WINDOWS''"
    "ToUpper ''strikeLo'' = ''STRIKELO''" "ToUpper ''strikeHi'' = ''STRIKEHI''" by code_simp+
  obtain lo hi ws where e: "enc_f64 (suStrikeLo s) = Some lo" "enc_f64 (suStrikeHi s) = Some hi"
    and w: "those (map marshal_window (suWindows s)) = Some ws"
    and v: "v = JObj ([(''ticker'', JStr (suTicker s)), (''keep'', JArr (map marshal_listing (suKeep s))),
                  (''strikeLo'', lo), (''strikeHi'', hi)]
                 @ (if ws = [] then [] else [(''windows'', JArr ws)]))"
    using assms(1) by (auto simp: marshal_sub_set_def bind_eq_Some_conv)
  have f: "dec_f64 lo 0 = Some (suStrikeLo s)" "dec_f64 hi 0 = Some (suStrikeHi s)"
    using enc_f64_dec e assms(2) by (auto simp: sub_set_f64_def)
  have ks: "those (map unmarshal_listing (map marshal_listing (suKeep s))) = Some (suKeep s)"
    by (rule those_map_Some) (simp add: listing_roundtrip)
  have "those (map unmarshal_window ws) = Some (suWindows s)"
    using windows_roundtrip [OF w] assms(2) by (simp add: sub_set_f64_def)
  with f ks show ?thesis
    unfolding v by (cases s) (auto simp: unmarshal_sub_set_def f_str_def f_f64_def f_list_def dec_field_def k)
qed

lemma envelope_roundtrip:
  assumes "encodeOutbound out = Some line" "oSeq out \<ge> 1" "oType out \<noteq> []"
    "\<forall>n \<in> {oSeq out, oTS out, oID out}. - (2 ^ 63) \<le> n \<and> n < 2 ^ 63"
  shows "decodeEnvelope (Some line) =
    Inr \<lparr>eV = ProtoVersion, eSeq = oSeq out, eType = oType out, eTS = oTS out, eID = oID out,
         eData = marshal_data (oData out)\<rparr>"
proof -
  have k: "ToUpper ''v'' = ''V''" "ToUpper ''seq'' = ''SEQ''" "ToUpper ''type'' = ''TYPE''" "ToUpper ''ts'' = ''TS''"
    "ToUpper ''id'' = ''ID''" "ToUpper ''data'' = ''DATA''" by code_simp+
  have line: "line = wire_line out (marshal_data (oData out))"
    using assms(1) by (auto simp: encodeOutbound_def split: if_splits)
  show ?thesis
    using assms(2-4) unfolding line
    by (cases "marshal_data (oData out)")
      (simp_all add: decodeEnvelope_def unmarshal_envelope_def wire_line_def f_int_def f_str_def dec_field_def
        ProtoVersion_def k)
qed

text \<open>
  Property C33. What the core writes, a peer of the same protocol reads back: an encoded
  line decodes to an envelope with the same sequence number, type, time stamp, id and
  payload, and the payload of a selection reply decodes to that reply, kept listings,
  strike envelope and per-pair windows included. The hypotheses are the 64-bit ranges, a
  numbered and typed message, and that its strikes are floats.
\<close>

theorem wire_roundtrip:
  assumes "encodeOutbound out = Some line" "oSeq out \<ge> 1" "oType out \<noteq> []"
    and "\<forall>n \<in> {oSeq out, oTS out, oID out}. - (2 ^ 63) \<le> n \<and> n < 2 ^ 63"
    and "oData out = SubSetData s" "sub_set_f64 s"
  shows "\<exists>env v. decodeEnvelope (Some line) = Inr env \<and> eSeq env = oSeq out \<and> eType env = oType out \<and>
    eTS env = oTS out \<and> eID env = oID out \<and> eData env = Some v \<and> unmarshal_sub_set v = Some s"
proof -
  obtain v where v: "marshal_sub_set s = Some v"
    using assms(1,5) by (auto simp: encodeOutbound_def)
  then show ?thesis
    using envelope_roundtrip [OF assms(1-4)] sub_set_roundtrip [OF v assms(6)] assms(5) by simp
qed

definition wire_demo :: outbound where
  "wire_demo = \<lparr>oSeq = 7, oType = ''sub_set'', oTS = 1000, oID = 3, oData = SubSetData
     \<lparr>suTicker = ''SPX'', suKeep = [\<lparr>clDate = ''20261016'', clTradingClass = ''SPXW'', clSettlement = ''PM''\<rparr>],
      suStrikeLo = Fin 5000, suStrikeHi = Fin (11 / 2), suWindows =
        [\<lparr>swTradingClass = ''SPXW'', swDate = ''20261016'', swStrikeLo = Fin 5000, swStrikeHi = Fin (11 / 2)\<rparr>]\<rparr>\<rparr>"

theorem wire_roundtrip_witness:
  "\<exists>line env v. encodeOutbound wire_demo = Some line \<and> decodeEnvelope (Some line) = Inr env \<and> eSeq env = 7 \<and>
     eData env = Some v \<and> map_option suTicker (unmarshal_sub_set v) = Some ''SPX''"
proof -
  have f: "is_f64 (Fin 5000)" "is_f64 (Fin (11 / 2))"
    using is_f64_rnd [of 5000] is_f64_rnd [of "11 / 2"] by (simp_all add: f64_simps)
  obtain s where s: "oData wire_demo = SubSetData s" "sub_set_f64 s" "suTicker s = ''SPX''"
    using f by (auto simp: wire_demo_def sub_set_f64_def)
  obtain line where l: "encodeOutbound wire_demo = Some line"
    by (simp add: encodeOutbound_def wire_demo_def marshal_sub_set_def marshal_window_def)
  have r: "\<forall>n \<in> {oSeq wire_demo, oTS wire_demo, oID wire_demo}. - (2 ^ 63) \<le> n \<and> n < 2 ^ 63"
    "oSeq wire_demo \<ge> 1" "oType wire_demo \<noteq> []" "oSeq wire_demo = 7"
    by (simp_all add: wire_demo_def)
  from wire_roundtrip [OF l r(2,3,1) s(1,2)] obtain env v where
    "decodeEnvelope (Some line) = Inr env" "eSeq env = oSeq wire_demo" "eData env = Some v"
    "unmarshal_sub_set v = Some s" by blast
  with l s(3) r(4) show ?thesis by auto
qed

end
