(* ===== verification/Diag.thy ===== *)
theory Diag
  imports GoTime
begin

text \<open>
  Package \<^verbatim>\<open>edge\<close>, the diagnostics collector (\<^verbatim>\<open>diag.go\<close>): counters, the bounded anomaly
  ring, the latency summary, the sequence watch and the vendor open-interest accounting.
  The injectable clock \<^verbatim>\<open>d.now()\<close> is an argument of the operations that read it. An
  anomaly's formatted text is kept as its kind of message with its arguments.
\<close>

section \<open>State\<close>

record vendor_stat =
  vsRefreshes :: int
  vsMatched :: int
  vsContracts :: int
  vsLastMs :: int

datatype detail =
    WireLineUndecodable
  | BookApplyError
  | WriteError
  | SeqHole int int
  | BeforeHello string string
  | BadSweepDone string
  | SpotBeforeChain
  | OptCompBeforeChain
  | NotSelected f64 string string string
  | ConIdReused f64 string string string f64 string string string
  | MultiplierMove f64 f64
  | SettlementMove string string
  | ExchangeMove string string
  | IVMove f64 f64 f64
  | ChainRediscovered nat nat nat
  | SlotExhausted int
  | VendorMatchedNone int

record anomaly_rec =
  anAtMs :: int
  anKind :: string
  anTicker :: string
  anConId :: int
  anDetail :: detail

definition AnomalySeqGap :: string where "AnomalySeqGap = ''seq_gap''"
definition AnomalyMalformed :: string where "AnomalyMalformed = ''malformed''"
definition AnomalyParamChange :: string where "AnomalyParamChange = ''param_change''"
definition AnomalyIdentityReject :: string where "AnomalyIdentityReject = ''identity_reject''"
definition AnomalyIVJump :: string where "AnomalyIVJump = ''iv_jump''"
definition AnomalyUnknownCon :: string where "AnomalyUnknownCon = ''unknown_contract''"
definition AnomalyUnknownTicker :: string where "AnomalyUnknownTicker = ''unknown_ticker''"
definition AnomalyChainReplace :: string where "AnomalyChainReplace = ''chain_replace''"
definition AnomalyApplyFailed :: string where "AnomalyApplyFailed = ''apply_failed''"
definition AnomalyWriteFailed :: string where "AnomalyWriteFailed = ''write_failed''"
definition AnomalyNamespace :: string where "AnomalyNamespace = ''namespace_overflow''"
definition AnomalyVendorOIEmpty :: string where "AnomalyVendorOIEmpty = ''vendor_oi_empty''"

definition maxAnomalies :: nat where "maxAnomalies = 256"

record diagnostics =
  dStartedAt :: instant
  dCounters :: "string \<rightharpoonup> int"
  dAnomalies :: "anomaly_rec list"
  dLastSeq :: int
  dLastEventAt :: "instant option"
  dSessions :: int
  dEvents :: int
  dMalformed :: int
  dGaps :: int
  dApplied :: int
  dRejected :: int
  dApplyErrs :: int
  dWriteErrs :: int
  dLatSum :: f64
  dLatN :: f64
  dLatMin :: f64
  dLatMax :: f64
  dVendor :: "string \<rightharpoonup> vendor_stat"

definition newDiagnostics :: "instant \<Rightarrow> diagnostics" where
  "newDiagnostics now =
     \<lparr>dStartedAt = now, dCounters = Map.empty, dAnomalies = [], dLastSeq = 0, dLastEventAt = None,
      dSessions = 0, dEvents = 0, dMalformed = 0, dGaps = 0, dApplied = 0, dRejected = 0,
      dApplyErrs = 0, dWriteErrs = 0, dLatSum = 0, dLatN = 0, dLatMin = lit (- 1), dLatMax = 0,
      dVendor = Map.empty\<rparr>"

section \<open>Operations\<close>

definition anomaly :: "instant \<Rightarrow> string \<Rightarrow> string \<Rightarrow> int \<Rightarrow> detail \<Rightarrow> diagnostics \<Rightarrow> diagnostics" where
  "anomaly now kind ticker conId det d =
     (let as = dAnomalies d @ [\<lparr>anAtMs = UnixMilli now, anKind = kind, anTicker = ticker,
                                anConId = conId, anDetail = det\<rparr>]
      in d\<lparr>dAnomalies := if length as > maxAnomalies then drop (length as - maxAnomalies) as else as\<rparr>)"

definition countEvent :: "string \<Rightarrow> diagnostics \<Rightarrow> diagnostics" where
  "countEvent typ d = d\<lparr>dCounters := (dCounters d)(typ \<mapsto>
     (case dCounters d typ of None \<Rightarrow> 0 | Some n \<Rightarrow> n) + 1)\<rparr>"

definition diag_event :: "instant \<Rightarrow> string \<Rightarrow> diagnostics \<Rightarrow> diagnostics" where
  "diag_event now typ d = (countEvent typ (d\<lparr>dEvents := dEvents d + 1\<rparr>))\<lparr>dLastEventAt := Some now\<rparr>"

definition bumpMalformed :: "instant \<Rightarrow> diagnostics \<Rightarrow> diagnostics" where
  "bumpMalformed now d =
     anomaly now AnomalyMalformed [] 0 WireLineUndecodable (d\<lparr>dMalformed := dMalformed d + 1\<rparr>)"

definition appliedOne :: "diagnostics \<Rightarrow> diagnostics" where
  "appliedOne d = d\<lparr>dApplied := dApplied d + 1\<rparr>"

definition bumpApplyFailed :: "instant \<Rightarrow> diagnostics \<Rightarrow> diagnostics" where
  "bumpApplyFailed now d =
     anomaly now AnomalyApplyFailed [] 0 BookApplyError (d\<lparr>dApplyErrs := dApplyErrs d + 1\<rparr>)"

definition rejectedOne :: "diagnostics \<Rightarrow> diagnostics" where
  "rejectedOne d = d\<lparr>dRejected := dRejected d + 1\<rparr>"

definition bumpWriteFailed :: "instant \<Rightarrow> diagnostics \<Rightarrow> diagnostics" where
  "bumpWriteFailed now d =
     anomaly now AnomalyWriteFailed [] 0 WriteError (d\<lparr>dWriteErrs := dWriteErrs d + 1\<rparr>)"

definition seqGap :: "instant \<Rightarrow> int \<Rightarrow> int \<Rightarrow> diagnostics \<Rightarrow> diagnostics" where
  "seqGap now from_seq to_seq d =
     anomaly now AnomalySeqGap [] 0 (SeqHole from_seq to_seq) (d\<lparr>dGaps := dGaps d + 1\<rparr>)"

definition latency :: "f64 \<Rightarrow> diagnostics \<Rightarrow> diagnostics" where
  "latency ms d =
     d\<lparr>dLatSum := dLatSum d + ms, dLatN := dLatN d + 1,
       dLatMin := if dLatMin d < 0 \<or> ms < dLatMin d then ms else dLatMin d,
       dLatMax := if ms > dLatMax d then ms else dLatMax d\<rparr>"

definition diag_session :: "diagnostics \<Rightarrow> diagnostics" where
  "diag_session d = d\<lparr>dSessions := dSessions d + 1\<rparr>"

definition zero_vendor :: vendor_stat where
  "zero_vendor = \<lparr>vsRefreshes = 0, vsMatched = 0, vsContracts = 0, vsLastMs = 0\<rparr>"

definition vendorOI :: "instant \<Rightarrow> string \<Rightarrow> int \<Rightarrow> int \<Rightarrow> bool \<Rightarrow> diagnostics \<Rightarrow> diagnostics" where
  "vendorOI now ticker matched contracts hadEntries d =
     (let st = (case dVendor d ticker of None \<Rightarrow> zero_vendor | Some st \<Rightarrow> st);
          st' = \<lparr>vsRefreshes = vsRefreshes st + 1, vsMatched = vsMatched st + matched,
                 vsContracts = contracts, vsLastMs = UnixMilli now\<rparr>;
          d' = d\<lparr>dVendor := (dVendor d)(ticker \<mapsto> st')\<rparr>
      in if hadEntries \<and> matched = 0
         then anomaly now AnomalyVendorOIEmpty ticker 0 (VendorMatchedNone contracts) d'
         else d')"

definition observeSeq :: "instant \<Rightarrow> int \<Rightarrow> diagnostics \<Rightarrow> diagnostics \<times> bool" where
  "observeSeq now sq d =
     (let last = dLastSeq d;
          d' = (if sq > last then d\<lparr>dLastSeq := sq\<rparr> else d)
      in if last = 0 \<or> sq = last + 1 \<or> sq \<le> last then (d', True)
         else (seqGap now (last + 1) sq d', False))"

section \<open>The read model\<close>

record latency_summary =
  lsEWMAms :: f64
  lsMinMs :: f64
  lsMaxMs :: f64
  lsN :: f64

record diag_snapshot =
  dsStartedAtMs :: int
  dsUptimeMs :: int
  dsSessions :: int
  dsEvents :: int
  dsByType :: "string \<rightharpoonup> int"
  dsMalformed :: int
  dsSeqGaps :: int
  dsApplied :: int
  dsRejected :: int
  dsApplyErrors :: int
  dsWriteErrors :: int
  dsLastEventMs :: int
  dsLastSeq :: int
  dsLatency :: latency_summary
  dsAnomalies :: "anomaly_rec list"
  dsVendorOI :: "string \<rightharpoonup> vendor_stat"

definition read_latency :: "diagnostics \<Rightarrow> latency_summary" where
  "read_latency d =
     (if dLatN d > 0
      then \<lparr>lsEWMAms = dLatSum d / dLatN d, lsMinMs = dLatMin d, lsMaxMs = dLatMax d, lsN = dLatN d\<rparr>
      else \<lparr>lsEWMAms = 0, lsMinMs = lit (- 1), lsMaxMs = 0, lsN = 0\<rparr>)"

definition ReadLast :: "instant \<Rightarrow> int \<Rightarrow> diagnostics \<Rightarrow> diag_snapshot" where
  "ReadLast now n d =
     (let len = int (length (dAnomalies d));
          n' = (if n \<le> 0 \<or> n > len then len else n)
      in \<lparr>dsStartedAtMs = UnixMilli (dStartedAt d),
          dsUptimeMs = go_div (time_Sub now (dStartedAt d)) (10 ^ 6),
          dsSessions = dSessions d, dsEvents = dEvents d, dsByType = dCounters d,
          dsMalformed = dMalformed d, dsSeqGaps = dGaps d, dsApplied = dApplied d,
          dsRejected = dRejected d, dsApplyErrors = dApplyErrs d, dsWriteErrors = dWriteErrs d,
          dsLastEventMs = (case dLastEventAt d of None \<Rightarrow> 0 | Some t \<Rightarrow> UnixMilli t),
          dsLastSeq = dLastSeq d, dsLatency = read_latency d,
          dsAnomalies = drop (nat (len - n')) (dAnomalies d), dsVendorOI = dVendor d\<rparr>)"

definition diag_Read :: "instant \<Rightarrow> diagnostics \<Rightarrow> diag_snapshot" where
  "diag_Read now d = ReadLast now 0 d"

lemmas diag_ops = anomaly_def countEvent_def diag_event_def bumpMalformed_def appliedOne_def
  bumpApplyFailed_def rejectedOne_def bumpWriteFailed_def seqGap_def latency_def diag_session_def
  vendorOI_def

section \<open>The anomaly ring\<close>

text \<open>One recorded anomaly: when, kind, ticker, contract and text.\<close>

type_synonym noted = "instant \<times> string \<times> string \<times> int \<times> detail"

fun note_rec :: "noted \<Rightarrow> anomaly_rec" where
  "note_rec (now, kind, ticker, conId, det) =
     \<lparr>anAtMs = UnixMilli now, anKind = kind, anTicker = ticker, anConId = conId, anDetail = det\<rparr>"

fun record_note :: "noted \<Rightarrow> diagnostics \<Rightarrow> diagnostics" where
  "record_note (now, kind, ticker, conId, det) d = anomaly now kind ticker conId det d"

lemma record_note_ring:
  "dAnomalies (record_note a d) =
     drop (Suc (length (dAnomalies d)) - maxAnomalies) (dAnomalies d @ [note_rec a])"
  by (cases a) (simp add: anomaly_def Let_def)

lemma ring_run:
  "dAnomalies (fold record_note recs (d\<lparr>dAnomalies := drop (length hist - maxAnomalies) hist\<rparr>)) =
     drop (length hist + length recs - maxAnomalies) (hist @ map note_rec recs)"
proof (induction recs arbitrary: d hist)
  case Nil
  show ?case by simp
next
  case (Cons a recs)
  let ?d = "d\<lparr>dAnomalies := drop (length hist - maxAnomalies) hist\<rparr>"
  have "dAnomalies (record_note a ?d) = drop (length (hist @ [note_rec a]) - maxAnomalies) (hist @ [note_rec a])"
  proof (cases "length hist \<le> maxAnomalies")
    case False
    then have "Suc (length hist - maxAnomalies) = Suc (length hist) - maxAnomalies"
      by (simp add: maxAnomalies_def)
    then show ?thesis using False unfolding record_note_ring by (simp add: maxAnomalies_def)
  qed (simp add: record_note_ring maxAnomalies_def)
  then have "record_note a ?d =
      (record_note a ?d)\<lparr>dAnomalies := drop (length (hist @ [note_rec a]) - maxAnomalies) (hist @ [note_rec a])\<rparr>"
    by (metis diagnostics.surjective diagnostics.update_convs(3))
  then show ?case
    using Cons.IH [of "hist @ [note_rec a]" "record_note a ?d"] by simp
qed

text \<open>
  Fact. The ring is exactly the newest 256 of everything ever recorded, in order:
  nothing else is evicted and nothing older survives; the last \<open>n\<close> of a read are the
  newest \<open>n\<close> of the ring.
\<close>

theorem anomaly_ring_newest:
  "dAnomalies (fold record_note recs (newDiagnostics t0)) =
     drop (length recs - maxAnomalies) (map note_rec recs) \<and>
   dsAnomalies (ReadLast now (int n) d) =
     (if n = 0 then dAnomalies d else drop (length (dAnomalies d) - n) (dAnomalies d))"
proof
  have "newDiagnostics t0 = (newDiagnostics t0)\<lparr>dAnomalies := drop (length [] - maxAnomalies) []\<rparr>"
    by (simp add: newDiagnostics_def)
  then show "dAnomalies (fold record_note recs (newDiagnostics t0)) =
     drop (length recs - maxAnomalies) (map note_rec recs)"
    using ring_run [of recs "[]" "newDiagnostics t0"] by simp
  show "dsAnomalies (ReadLast now (int n) d) =
     (if n = 0 then dAnomalies d else drop (length (dAnomalies d) - n) (dAnomalies d))"
    by (auto simp: ReadLast_def Let_def nat_diff_distrib)
qed

lemma anomaly_last:
  "dAnomalies (anomaly now kind t con det d) \<noteq> []"
  "last (dAnomalies (anomaly now kind t con det d)) =
     \<lparr>anAtMs = UnixMilli now, anKind = kind, anTicker = t, anConId = con, anDetail = det\<rparr>"
  by (simp_all add: anomaly_def Let_def maxAnomalies_def last_drop)

lemma anomaly_counters [simp]:
  "dRejected (anomaly now kind t con det d) = dRejected d" "dApplied (anomaly now kind t con det d) = dApplied d"
  "dEvents (anomaly now kind t con det d) = dEvents d"
  by (simp_all add: anomaly_def Let_def)

section \<open>The sequence watch\<close>

lemma observeSeq_gap:
  "dGaps (fst (observeSeq now s d)) = dGaps d + (if dLastSeq d \<noteq> 0 \<and> s > dLastSeq d + 1 then 1 else 0)"
  "dLastSeq (fst (observeSeq now s d)) = max (dLastSeq d) s"
  "snd (observeSeq now s d) \<longleftrightarrow> \<not> (dLastSeq d \<noteq> 0 \<and> s > dLastSeq d + 1)"
  by (auto simp: observeSeq_def seqGap_def anomaly_def Let_def)

definition watch :: "instant \<Rightarrow> int list \<Rightarrow> diagnostics \<Rightarrow> diagnostics" where
  "watch now seqs d = fold (\<lambda>s d. fst (observeSeq now s d)) seqs d"

text \<open>Holes of a stream: steps of more than one above everything seen before.\<close>

fun holes :: "int \<Rightarrow> int list \<Rightarrow> int" where
  "holes high [] = 0"
| "holes high (s # ss) = (if s > high + 1 then 1 else 0) + holes (max high s) ss"

lemma watch_holes:
  "dLastSeq d > 0 \<Longrightarrow> dGaps (watch now seqs d) = dGaps d + holes (dLastSeq d) seqs"
  "dLastSeq (watch now seqs d) = fold max seqs (dLastSeq d)"
  unfolding watch_def
  by (induction seqs arbitrary: d) (simp_all add: observeSeq_gap max.commute)

lemma holes_below: "(\<And>s. s \<in> set ss \<Longrightarrow> s \<le> high) \<Longrightarrow> holes high ss = 0"
proof (induction ss)
  case (Cons s ss)
  then have "s \<le> high" "holes high ss = 0" by auto
  then show ?case by (simp add: max_absorb1)
qed simp

text \<open>
  Fact. The sequence watch counts the holes of the stream: after the first event,
  exactly the steps that jump past the highest number seen. The highest number is never
  lowered, so a connection that starts again from one is blind to holes until it passes
  the old mark.
\<close>

theorem seq_watch_counts_holes:
  assumes "0 < s0"
  shows "dGaps (watch now (s0 # seqs) (newDiagnostics t0)) = holes s0 seqs \<and>
    (\<forall>again. (\<forall>s \<in> set again. s \<le> fold max seqs s0) \<longrightarrow>
       dGaps (watch now (s0 # seqs @ again) (newDiagnostics t0)) = holes s0 seqs)"
proof -
  define d where "d = fst (observeSeq now s0 (newDiagnostics t0))"
  have d: "dLastSeq d = s0" "dGaps d = 0"
    unfolding d_def observeSeq_gap using assms by (simp_all add: newDiagnostics_def)
  have w: "watch now (s0 # xs) (newDiagnostics t0) = watch now xs d" for xs
    by (simp add: watch_def d_def)
  have h: "dGaps (watch now seqs d) = holes s0 seqs" "dLastSeq (watch now seqs d) = fold max seqs s0"
    using watch_holes(1) [of d now seqs] watch_holes(2) [of now seqs d] d assms by simp_all
  have pos: "0 < fold max seqs s0" using assms by (induction seqs arbitrary: s0) (simp_all add: less_max_iff_disj)
  have "dGaps (watch now (seqs @ again) d) = holes s0 seqs"
    if "\<forall>s \<in> set again. s \<le> fold max seqs s0" for again
  proof -
    have "watch now (seqs @ again) d = watch now again (watch now seqs d)" by (simp add: watch_def)
    moreover have "holes (fold max seqs s0) again = 0" using that by (intro holes_below) simp
    ultimately show ?thesis using watch_holes(1) [of "watch now seqs d" now again] h pos by simp
  qed
  then show ?thesis using h by (simp add: w)
qed

theorem seq_watch_counts_holes_witness:
  "dGaps (watch 0 [1, 2, 5, 6, 9] (newDiagnostics 0)) = 2 \<and>
   dGaps (watch 0 [1, 2, 5, 6, 9, 1, 4, 8] (newDiagnostics 0)) = 2"
  using seq_watch_counts_holes [of 1 0 "[2, 5, 6, 9]" 0] by simp

section \<open>Latency\<close>

lemma latency_extremes:
  assumes "\<forall>m \<in> set ms. 0 \<le> m" "0 \<le> dLatMin d" "0 \<le> dLatMax d"
  shows "dLatMin (fold latency ms d) \<in> insert (dLatMin d) (set ms) \<and>
    dLatMax (fold latency ms d) \<in> insert (dLatMax d) (set ms) \<and>
    (\<forall>m \<in> insert (dLatMin d) (set ms). dLatMin (fold latency ms d) \<le> m) \<and>
    (\<forall>m \<in> insert (dLatMax d) (set ms). m \<le> dLatMax (fold latency ms d))"
  using assms
proof (induction ms arbitrary: d)
  case Nil
  then show ?case using le_f64_not_NaN by auto
next
  case (Cons m ms)
  let ?d = "latency m d"
  have m: "0 \<le> m" "m \<noteq> NaN" "dLatMin d \<noteq> NaN" "dLatMax d \<noteq> NaN" "\<not> dLatMin d < 0"
    using Cons.prems(1) le_f64_not_NaN [of 0 m] le_f64_not_NaN [OF Cons.prems(2)]
      le_f64_not_NaN [OF Cons.prems(3)] le_f64_less_trans [OF Cons.prems(2), of 0]
    by auto
  have mn: "dLatMin ?d = (if m < dLatMin d then m else dLatMin d)" and
    mx: "dLatMax ?d = (if dLatMax d < m then m else dLatMax d)"
    using m(5) by (simp_all add: latency_def)
  have d: "0 \<le> dLatMin ?d" "0 \<le> dLatMax ?d"
    using m(1) Cons.prems by (auto simp: mn mx)
  have b: "dLatMin ?d \<le> m" "dLatMin ?d \<le> dLatMin d" "m \<le> dLatMax ?d" "dLatMax d \<le> dLatMax ?d"
    using m less_f64_iff less_f64_imp_le by (auto simp: mn mx)
  have i: "dLatMin ?d \<in> {m, dLatMin d}" "dLatMax ?d \<in> {m, dLatMax d}" by (auto simp: mn mx)
  have IH: "dLatMin (fold latency ms ?d) \<in> insert (dLatMin ?d) (set ms) \<and>
    dLatMax (fold latency ms ?d) \<in> insert (dLatMax ?d) (set ms) \<and>
    (\<forall>m \<in> insert (dLatMin ?d) (set ms). dLatMin (fold latency ms ?d) \<le> m) \<and>
    (\<forall>m \<in> insert (dLatMax ?d) (set ms). m \<le> dLatMax (fold latency ms ?d))"
    using Cons.IH [OF _ d] Cons.prems(1) by simp
  then have "dLatMin (fold latency ms ?d) \<le> dLatMin ?d" "dLatMax ?d \<le> dLatMax (fold latency ms ?d)"
    by auto
  then have "dLatMin (fold latency ms ?d) \<le> m" "dLatMin (fold latency ms ?d) \<le> dLatMin d"
    "m \<le> dLatMax (fold latency ms ?d)" "dLatMax d \<le> dLatMax (fold latency ms ?d)"
    using b le_f64_trans by blast+
  then show ?case using IH i by auto
qed

text \<open>
  Fact. As long as no sample is negative, the latency extremes are the least and
  the greatest sample; a negative sample followed by a larger one is forgotten by the
  minimum, whose unset marker is any negative number.
\<close>

theorem latency_extremes_exact:
  assumes "\<forall>m \<in> set (m0 # ms). 0 \<le> m"
  shows "let d = fold latency (m0 # ms) (newDiagnostics t0) in
    dLatMin d \<in> set (m0 # ms) \<and> (\<forall>m \<in> set (m0 # ms). dLatMin d \<le> m) \<and>
    dLatMax d \<in> insert 0 (set (m0 # ms)) \<and> (\<forall>m \<in> set (m0 # ms). m \<le> dLatMax d)"
proof -
  let ?d = "latency m0 (newDiagnostics t0)"
  have m0: "0 \<le> m0" "m0 \<noteq> NaN" using assms le_f64_not_NaN by auto
  have "lit (- 1) < 0" by (simp add: zero_f64_def f64_simps)
  then have mn: "dLatMin ?d = m0" and mx: "dLatMax ?d = (if 0 < m0 then m0 else 0)"
    by (simp_all add: latency_def newDiagnostics_def)
  have ge: "m0 \<le> dLatMax ?d" "0 \<le> dLatMax ?d" "dLatMax ?d \<in> {0, m0}"
    using m0 less_f64_iff [of 0 m0] by (auto simp: mx zero_f64_def)
  have "\<forall>m \<in> set ms. 0 \<le> m" using assms by simp
  note ext = latency_extremes [OF this, of ?d, unfolded mn, OF m0(1) ge(2)]
  have "m0 \<le> dLatMax (fold latency ms ?d)" using ext ge(1) le_f64_trans by blast
  with ext ge(3) show ?thesis unfolding Let_def fold_simps list.set by auto
qed

theorem latency_extremes_exact_witness:
  "let d = fold latency [Fin 3, Fin 1] (newDiagnostics 0) in dLatMin d \<le> Fin 1 \<and> Fin 3 \<le> dLatMax d"
  using latency_extremes_exact [of "Fin 3" "[Fin 1]" 0] by (simp add: zero_f64_def Let_def)

end
