(* ===== verification/Conid.thy ===== *)
theory Conid
  imports GoTime "HOL-Library.Word"
begin

text \<open>
  Package \<^verbatim>\<open>market\<close>, the namespace of placeholder contract ids (end of \<^verbatim>\<open>synthetic.go\<close>):
  every ticker hashes to one of a million slots of 200,000 negative ids. The generators,
  the CSV loader and the edge ingest allocate downward from the slot's base; the boot
  restore drops ids that fall outside the ticker's slot.
\<close>

definition hash_step :: "char \<Rightarrow> 64 word \<Rightarrow> 64 word" where
  "hash_step c h = xor h (of_char c) * 1099511628211"

definition HashSeed :: "string \<Rightarrow> 64 word" where
  "HashSeed s = fold hash_step s 14695981039346656037"

definition ConIdSlotWidth :: int where "ConIdSlotWidth = 200000"
definition syntheticNamespace :: "64 word" where "syntheticNamespace = 1000000"

definition SyntheticConIDBase :: "string \<Rightarrow> int" where
  "SyntheticConIDBase ticker = - uint (HashSeed ticker mod syntheticNamespace) * ConIdSlotWidth"

definition ConIdMatchesTicker :: "int \<Rightarrow> string \<Rightarrow> bool" where
  "ConIdMatchesTicker conId ticker =
     (if conId \<ge> 0 then True
      else (word_of_int (go_div (- conId - 1) ConIdSlotWidth) :: 64 word)
             = HashSeed ticker mod syntheticNamespace)"

definition slot :: "string \<Rightarrow> int" where
  "slot ticker = uint (HashSeed ticker mod syntheticNamespace)"

lemma slot_range: "0 \<le> slot t" "slot t < 1000000"
proof -
  show "0 \<le> slot t" by (simp add: slot_def)
  have "HashSeed t mod syntheticNamespace < 1000000"
    by (simp add: syntheticNamespace_def word_mod_less_divisor)
  then show "slot t < 1000000" by (simp add: slot_def word_less_def)
qed

lemma base_slot: "SyntheticConIDBase t = - (slot t * ConIdSlotWidth)"
  by (simp add: SyntheticConIDBase_def slot_def)

lemma base_le_0: "SyntheticConIDBase t \<le> 0"
  using slot_range [of t] by (simp add: base_slot ConIdSlotWidth_def)

lemma ConIdMatches_slot:
  assumes "0 < k" "k \<le> 2 ^ 60"
  shows "ConIdMatchesTicker (SyntheticConIDBase t - k) u \<longleftrightarrow>
    (slot t * ConIdSlotWidth + k - 1) div ConIdSlotWidth = slot u"
proof -
  define n where "n = slot t * ConIdSlotWidth + k - 1"
  have n: "0 \<le> n" "n < 2 ^ 62"
    using assms slot_range [of t] by (auto simp: n_def ConIdSlotWidth_def)
  have q: "0 \<le> n div ConIdSlotWidth" "n div ConIdSlotWidth < 2 ^ 62"
    using n by (simp_all add: ConIdSlotWidth_def)
  have "- (SyntheticConIDBase t - k) - 1 = n" by (simp add: n_def base_slot)
  moreover have "\<not> SyntheticConIDBase t - k \<ge> 0" using base_le_0 [of t] assms by simp
  moreover have "go_div n ConIdSlotWidth = n div ConIdSlotWidth"
    using n by (cases "n = 0") (simp_all add: go_div_def ConIdSlotWidth_def)
  ultimately have "ConIdMatchesTicker (SyntheticConIDBase t - k) u \<longleftrightarrow>
      (word_of_int (n div ConIdSlotWidth) :: 64 word) = word_of_int (slot u)"
    by (simp add: ConIdMatchesTicker_def slot_def)
  also have "\<dots> \<longleftrightarrow> n div ConIdSlotWidth = slot u"
    using q slot_range [of u] by (simp add: word_of_int_eq_iff take_bit_int_eq_self_iff)
      (simp add: take_bit_int_eq_self)
  finally show ?thesis by (simp add: n_def)
qed

text \<open>
  Fact. An id allocated downward from a ticker's base belongs to that ticker as
  long as the slot holds it, spills out of the ticker's namespace right after, and never
  belongs to a ticker of another slot before that; ids stay above the least 64-bit
  integer by a wide margin. The hypothesis bounds the allocation counter by 2 to the 60.
\<close>

theorem placeholder_slots:
  assumes "0 < k" "k \<le> 2 ^ 60"
  shows "(ConIdMatchesTicker (SyntheticConIDBase t - k) t \<longleftrightarrow> k \<le> ConIdSlotWidth) \<and>
    (k \<le> ConIdSlotWidth \<and> ConIdMatchesTicker (SyntheticConIDBase t - k) u \<longrightarrow>
       SyntheticConIDBase u = SyntheticConIDBase t) \<and>
    - (2 ^ 63) < SyntheticConIDBase t - k \<and> SyntheticConIDBase t - k < 0"
proof -
  have d: "(slot t * ConIdSlotWidth + k - 1) div ConIdSlotWidth = slot t + (k - 1) div ConIdSlotWidth"
    using div_mult_self3 [of ConIdSlotWidth "slot t" "k - 1"] by (simp add: ConIdSlotWidth_def)
  have z: "(k - 1) div ConIdSlotWidth = 0 \<longleftrightarrow> k \<le> ConIdSlotWidth"
    using assms by (auto simp: ConIdSlotWidth_def div_eq_0_iff zdiv_eq_0_iff)
  have m: "ConIdMatchesTicker (SyntheticConIDBase t - k) u \<longleftrightarrow> slot t + (k - 1) div ConIdSlotWidth = slot u"
    for u using ConIdMatches_slot [OF assms, of t u] by (simp add: d)
  have "- (2 ^ 63) < SyntheticConIDBase t - k"
    using assms slot_range [of t] by (simp add: base_slot ConIdSlotWidth_def)
  then show ?thesis using m z base_le_0 [of t] assms by (auto simp: base_slot)
qed

theorem placeholder_slots_witness:
  "ConIdMatchesTicker (SyntheticConIDBase ''SPX'' - 200000) ''SPX'' \<and>
   \<not> ConIdMatchesTicker (SyntheticConIDBase ''SPX'' - 200001) ''SPX''"
proof -
  have w: "(200000 :: int) \<le> ConIdSlotWidth" "\<not> (200001 :: int) \<le> ConIdSlotWidth"
    by (simp_all add: ConIdSlotWidth_def)
  show ?thesis
    using placeholder_slots [of 200000 "''SPX''" "''SPX''"] placeholder_slots [of 200001 "''SPX''" "''SPX''"] w
    by auto
qed

end
