(* ===== verification/Ingest.thy ===== *)
theory Ingest
  imports Wire Diag Conid Market_Select Collect
begin

text \<open>
  Package \<^verbatim>\<open>edge\<close>, the ingest core (\<^verbatim>\<open>ingest.go\<close>): decoded envelopes become updates of the
  working chain of a ticker, which is published to the host's book whole and by copy. The
  host application and the persistence sinks are code behind interfaces: their operations
  are the fields of \<open>host_ops\<close>, over a host state of any type. Nil sinks are \<open>None\<close>. The
  mutex \<^verbatim>\<open>c.mu\<close> makes the handlers atomic; the clock is read once per event. Write results
  arrive on channels, numbered, that \<open>hoPoll\<close> reads without blocking.
\<close>

section \<open>Configuration and state\<close>

record config =
  cfFlushEvery :: duration
  cfFlushPatches :: int
  cfIVJumpRel :: f64

definition withDefaults :: "config \<Rightarrow> config" where
  "withDefaults c =
     \<lparr>cfFlushEvery = if cfFlushEvery c \<le> 0 then 100 * 10 ^ 6 else cfFlushEvery c,
      cfFlushPatches = if cfFlushPatches c \<le> 0 then 512 else cfFlushPatches c,
      cfIVJumpRel = if cfIVJumpRel c \<le> 0 then lit (1 / 2) else cfIVJumpRel c\<rparr>"

record session =
  snID :: string
  snInstance :: string
  snRemote :: string
  snHelloed :: bool

record computation_log =
  lgConId :: int
  lgTimestampMs :: int
  lgTickType :: int
  lgImpliedVol :: f64
  lgDelta :: f64
  lgGamma :: f64
  lgVanna :: f64
  lgCharm :: f64
  lgVega :: f64
  lgTheta :: f64
  lgUndPrice :: f64

record data_point =
  dpTsMs :: int
  dpSession :: string
  dpTicker :: string
  dpKind :: string
  dpConId :: int
  dpStrike :: f64
  dpRight :: string
  dpExpiry :: string
  dpTradingClass :: string
  dpIV :: f64
  dpDelta :: f64
  dpGamma :: f64
  dpVega :: f64
  dpTheta :: f64
  dpOI :: f64
  dpUndPrice :: f64
  dpSpot :: f64
  dpSource :: string
  dpLinesUsed :: int
  dpMsgRate :: f64
  dpSnapshotSpend :: f64

definition zero_point :: data_point where
  "zero_point = \<lparr>dpTsMs = 0, dpSession = [], dpTicker = [], dpKind = [], dpConId = 0, dpStrike = 0,
     dpRight = [], dpExpiry = [], dpTradingClass = [], dpIV = 0, dpDelta = 0, dpGamma = 0, dpVega = 0,
     dpTheta = 0, dpOI = 0, dpUndPrice = 0, dpSpot = 0, dpSource = [], dpLinesUsed = 0, dpMsgRate = 0,
     dpSnapshotSpend = 0\<rparr>"

text \<open>
  The host: an apply returns the new host state and whether it succeeded; a submit returns
  an error or, possibly, a result channel.
\<close>

type_synonym chan = nat

record 'h host_ops =
  hoApplyChain :: "'h \<Rightarrow> chain_snapshot \<Rightarrow> 'h \<times> bool"
  hoApplySpot :: "'h \<Rightarrow> string \<Rightarrow> f64 \<Rightarrow> int \<Rightarrow> 'h \<times> bool"
  hoBaselineIV :: "'h \<Rightarrow> string \<Rightarrow> f64 option"
  hoLogs :: "('h \<Rightarrow> computation_log list \<Rightarrow> 'h \<times> (unit + chan option)) option"
  hoCons :: "('h \<Rightarrow> contract list \<Rightarrow> 'h \<times> bool) option"
  hoPoints :: "('h \<Rightarrow> data_point list \<Rightarrow> 'h \<times> (unit + chan option)) option"
  hoPoll :: "'h \<Rightarrow> chan \<Rightarrow> bool option"
  hoSweepDone :: "('h \<Rightarrow> sweep_done \<Rightarrow> 'h) option"

record ticker_ingest =
  tiChain :: chain_snapshot
  tiByCon :: "int \<rightharpoonup> nat"
  tiLastIV :: "int \<rightharpoonup> f64"
  tiPatchCount :: int
  tiPending :: bool
  tiPersisted :: "int set"
  tiNextSyn :: int

record 'h core =
  coHost :: 'h
  coDiag :: diagnostics
  coTickers :: "string \<rightharpoonup> ticker_ingest"
  coSpotOnly :: "string set"
  coPendLogs :: "computation_log list"
  coPendPoints :: "data_point list"
  coLogErrs :: "chan list"
  coPointErrs :: "chan list"
  coLastStatus :: "status_ev option"

definition NewCore :: "'h \<Rightarrow> diagnostics \<Rightarrow> 'h core" where
  "NewCore h d = \<lparr>coHost = h, coDiag = d, coTickers = Map.empty, coSpotOnly = {}, coPendLogs = [],
     coPendPoints = [], coLogErrs = [], coPointErrs = [], coLastStatus = None\<rparr>"

definition on_diag :: "(diagnostics \<Rightarrow> diagnostics) \<Rightarrow> 'h core \<Rightarrow> 'h core" where
  "on_diag f co = co\<lparr>coDiag := f (coDiag co)\<rparr>"

definition rejected :: "'h core \<Rightarrow> 'h core" where
  "rejected = on_diag rejectedOne"

definition noted :: "instant \<Rightarrow> string \<Rightarrow> string \<Rightarrow> int \<Rightarrow> detail \<Rightarrow> 'h core \<Rightarrow> 'h core" where
  "noted now kind ticker con det = on_diag (anomaly now kind ticker con det)"

section \<open>Publishing\<close>

definition publishLocked :: "'h host_ops \<Rightarrow> chain_snapshot \<Rightarrow> 'h core \<Rightarrow> 'h core \<times> bool" where
  "publishLocked ops snap co =
     (case hoApplyChain ops (coHost co) snap of (h, ok) \<Rightarrow> (co\<lparr>coHost := h\<rparr>, ok))"

definition flushTickerLocked :: "'h host_ops \<Rightarrow> instant \<Rightarrow> string \<Rightarrow> 'h core \<Rightarrow> 'h core" where
  "flushTickerLocked ops now ticker co =
     (case coTickers co ticker of
        None \<Rightarrow> co
      | Some ti \<Rightarrow>
          if \<not> tiPending ti then co
          else
            let co1 = co\<lparr>coTickers := (coTickers co)(ticker \<mapsto> ti\<lparr>tiPending := False, tiPatchCount := 0\<rparr>)\<rparr>
            in case publishLocked ops ((tiChain ti)\<lparr>chAsOfMs := UnixMilli now\<rparr>) co1 of
                 (co2, False) \<Rightarrow> on_diag (bumpApplyFailed now) co2
               | (co2, True) \<Rightarrow> on_diag appliedOne co2)"

text \<open>
  \<^verbatim>\<open>FlushAll\<close>. Go ranges over the tickers in an unspecified order, the argument \<open>order\<close>. A
  failed submission of the logs returns before the points are submitted.
\<close>

definition submit_points :: "'h host_ops \<Rightarrow> instant \<Rightarrow> data_point list \<Rightarrow> 'h core \<Rightarrow> 'h core" where
  "submit_points ops now pts co =
     (case hoPoints ops of
        None \<Rightarrow> co
      | Some submit \<Rightarrow>
          if pts = [] then co
          else case submit (coHost co) pts of
                 (h, Inl _) \<Rightarrow> on_diag (bumpWriteFailed now) (co\<lparr>coHost := h\<rparr>)
               | (h, Inr None) \<Rightarrow> co\<lparr>coHost := h\<rparr>
               | (h, Inr (Some ch)) \<Rightarrow> co\<lparr>coHost := h, coPointErrs := coPointErrs co @ [ch]\<rparr>)"

definition submit_all :: "'h host_ops \<Rightarrow> instant \<Rightarrow> computation_log list \<Rightarrow> data_point list \<Rightarrow> 'h core \<Rightarrow> 'h core" where
  "submit_all ops now logs pts co =
     (case hoLogs ops of
        None \<Rightarrow> submit_points ops now pts co
      | Some submit \<Rightarrow>
          if logs = [] then submit_points ops now pts co
          else case submit (coHost co) logs of
                 (h, Inl _) \<Rightarrow> on_diag (bumpWriteFailed now) (co\<lparr>coHost := h\<rparr>)
               | (h, Inr None) \<Rightarrow> submit_points ops now pts (co\<lparr>coHost := h\<rparr>)
               | (h, Inr (Some ch)) \<Rightarrow>
                   submit_points ops now pts (co\<lparr>coHost := h, coLogErrs := coLogErrs co @ [ch]\<rparr>))"

definition pending_tickers :: "string list \<Rightarrow> 'h core \<Rightarrow> string list" where
  "pending_tickers order co =
     filter (\<lambda>t. case coTickers co t of None \<Rightarrow> False | Some ti \<Rightarrow> tiPending ti) order"

definition FlushAll :: "'h host_ops \<Rightarrow> instant \<Rightarrow> string list \<Rightarrow> 'h core \<Rightarrow> 'h core" where
  "FlushAll ops now order co =
     (let co1 = fold (flushTickerLocked ops now) (pending_tickers order co) co
      in submit_all ops now (coPendLogs co1) (coPendPoints co1) (co1\<lparr>coPendLogs := [], coPendPoints := []\<rparr>))"

fun drain :: "('h \<Rightarrow> chan \<Rightarrow> bool option) \<Rightarrow> 'h \<Rightarrow> instant \<Rightarrow> chan list \<Rightarrow> diagnostics \<Rightarrow> chan list \<times> diagnostics" where
  "drain poll h now [] d = ([], d)"
| "drain poll h now (ch # chs) d =
     (case poll h ch of
        None \<Rightarrow> (case drain poll h now chs d of (left, d') \<Rightarrow> (ch # left, d'))
      | Some failed \<Rightarrow> drain poll h now chs (if failed then bumpWriteFailed now d else d))"

definition drainLogErrors :: "'h host_ops \<Rightarrow> instant \<Rightarrow> 'h core \<Rightarrow> 'h core" where
  "drainLogErrors ops now co =
     (case drain (hoPoll ops) (coHost co) now (coLogErrs co) (coDiag co) of
        (left, d) \<Rightarrow> co\<lparr>coLogErrs := left, coDiag := d\<rparr>)"

definition drainPointErrors :: "'h host_ops \<Rightarrow> instant \<Rightarrow> 'h core \<Rightarrow> 'h core" where
  "drainPointErrors ops now co =
     (case drain (hoPoll ops) (coHost co) now (coPointErrs co) (coDiag co) of
        (left, d) \<Rightarrow> co\<lparr>coPointErrs := left, coDiag := d\<rparr>)"

text \<open>One tick of the loop of \<^verbatim>\<open>Run\<close>; when the context ends, only \<^verbatim>\<open>FlushAll\<close> runs.\<close>

definition Run_tick :: "'h host_ops \<Rightarrow> instant \<Rightarrow> string list \<Rightarrow> 'h core \<Rightarrow> 'h core" where
  "Run_tick ops now order co =
     drainPointErrors ops now (drainLogErrors ops now (FlushAll ops now order co))"

section \<open>Replies\<close>

definition mk_out :: "instant \<Rightarrow> string \<Rightarrow> int \<Rightarrow> out_data \<Rightarrow> outbound" where
  "mk_out now typ i dat = \<lparr>oSeq = 0, oType = typ, oTS = UnixMilli now, oID = i, oData = dat\<rparr>"

definition errorReply :: "instant \<Rightarrow> envelope \<Rightarrow> string \<Rightarrow> string \<Rightarrow> outbound" where
  "errorReply now env code msg = mk_out now TypeError (eID env) (ErrorData \<lparr>emCode = code, emMessage = msg\<rparr>)"

definition requireHello :: "instant \<Rightarrow> session \<Rightarrow> envelope \<Rightarrow> 'h core \<Rightarrow> 'h core \<times> bool" where
  "requireHello now sess env co =
     (if snHelloed sess then (co, True)
      else (noted now AnomalyMalformed [] 0 (BeforeHello (eType env) (snRemote sess)) (rejected co), False))"

definition onHello :: "instant \<Rightarrow> session \<Rightarrow> envelope \<Rightarrow> 'h core \<Rightarrow> session \<times> 'h core \<times> outbound list" where
  "onHello now sess env co =
     (let decoded = (case eData env of
                       None \<Rightarrow> Some \<lparr>hInstance = [], hCaps = [], hEdgeVer = []\<rparr>
                     | Some v \<Rightarrow> unmarshal_hello v)
      in case decoded of
           None \<Rightarrow> (sess, rejected co, [errorReply now env ''bad_hello'' ''hello payload''])
         | Some h \<Rightarrow>
             (sess\<lparr>snHelloed := True, snInstance := hInstance h\<rparr>, co,
              [mk_out now TypeWelcome 0 (WelcomeData
                 \<lparr>weSession = snID sess, weServerMs = UnixMilli now, weProto = ProtoVersion\<rparr>)]))"

section \<open>Chain discovery\<close>

text \<open>
  Rows are matched by class, expiry, right and strike, with the equality of floats. The
  skeleton has one row per listing, strike and right, without ids.
\<close>

definition same_row :: "contract \<Rightarrow> contract \<Rightarrow> bool" where
  "same_row a b \<longleftrightarrow> cTradingClass a = cTradingClass b \<and> cExpiryDate a = cExpiryDate b \<and>
     cRight a = cRight b \<and> feq (cStrike a) (cStrike b)"

definition skeleton_row :: "chain_ev \<Rightarrow> chain_listing \<Rightarrow> f64 \<Rightarrow> string \<Rightarrow> contract" where
  "skeleton_row ev l k right =
     \<lparr>cConId = 0, cTicker = ceTicker ev, cStrike = k, cRight = right, cExpiryDate = clDate l,
      cTradingClass = clTradingClass l, cMultiplier = DefaultMultiplier, cOpenInterest = 0,
      cExchange = ceExchange ev, cSettlement = clSettlement l, cSDTier = NaN, cIV = 0, cBid = 0, cAsk = 0\<rparr>"

definition skeleton_rows :: "chain_ev \<Rightarrow> contract list" where
  "skeleton_rows ev = concat (map (\<lambda>l. concat (map (\<lambda>k.
     map (skeleton_row ev l k) [RightCall, RightPut]) (ceStrikes ev))) (ceListings ev))"

definition add_row :: "contract \<Rightarrow> contract list \<Rightarrow> contract list" where
  "add_row c out = (if \<exists>d \<in> set out. same_row d c then out else out @ [c])"

definition buildSkeleton :: "instant \<Rightarrow> chain_ev \<Rightarrow> chain_snapshot" where
  "buildSkeleton now ev =
     \<lparr>chTicker = ceTicker ev, chSpot = ceSpot ev, chAsOfMs = max (ceAsOfMs ev) (UnixMilli now),
      chContracts = fold add_row (skeleton_rows ev) [],
      chUnderlyingType = ceUnderlyingType ev, chExchange = ceExchange ev\<rparr>"

text \<open>
  \<^verbatim>\<open>adoptChainLocked\<close>: carry the id, open interest, vol and quote of rows seen before, stamp
  placeholder ids on bare rows, re-persist a re-discovered chain, index the rows.
\<close>

definition carried_from :: "contract list \<Rightarrow> contract \<Rightarrow> contract option" where
  "carried_from old fc = find (\<lambda>oc. same_row oc fc) (rev old)"

definition carry_row :: "contract list \<Rightarrow> contract \<Rightarrow> contract" where
  "carry_row old fc =
     (case carried_from old fc of
        None \<Rightarrow> fc
      | Some oc \<Rightarrow> fc\<lparr>cConId := cConId oc, cOpenInterest := cOpenInterest oc, cIV := cIV oc,
                      cBid := cBid oc, cAsk := cAsk oc\<rparr>)"

fun stamp_rows :: "instant \<Rightarrow> string \<Rightarrow> int \<Rightarrow> diagnostics \<Rightarrow> contract list \<Rightarrow> contract list \<times> int \<times> diagnostics" where
  "stamp_rows now ticker syn d [] = ([], syn, d)"
| "stamp_rows now ticker syn d (c # cs) =
     (if cConId c \<noteq> 0
      then case stamp_rows now ticker syn d cs of (cs', r) \<Rightarrow> (c # cs', r)
      else
        let syn' = syn + 1;
            d' = (if syn' = ConIdSlotWidth + 1
                  then anomaly now AnomalyNamespace ticker 0 (SlotExhausted ConIdSlotWidth) d else d)
        in case stamp_rows now ticker syn' d' cs of
             (cs', r) \<Rightarrow> (c\<lparr>cConId := SyntheticConIDBase ticker - syn'\<rparr> # cs', r))"

definition zero_chain :: chain_snapshot where
  "zero_chain = \<lparr>chTicker = [], chSpot = 0, chAsOfMs = 0, chContracts = [], chUnderlyingType = [], chExchange = []\<rparr>"

definition new_ingest :: ticker_ingest where
  "new_ingest = \<lparr>tiChain = zero_chain, tiByCon = Map.empty, tiLastIV = Map.empty, tiPatchCount = 0,
     tiPending = False, tiPersisted = {}, tiNextSyn = 0\<rparr>"

fun index_rows :: "nat \<Rightarrow> contract list \<Rightarrow> (int \<rightharpoonup> nat) \<Rightarrow> (int \<rightharpoonup> nat)" where
  "index_rows i [] m = m"
| "index_rows i (c # cs) m = index_rows (Suc i) cs (m(cConId c \<mapsto> i))"

definition index_ivs :: "contract list \<Rightarrow> (int \<rightharpoonup> f64)" where
  "index_ivs cs = fold (\<lambda>c m. if cIV c > 0 then m(cConId c \<mapsto> cIV c) else m) cs Map.empty"

definition reupsert :: "'h host_ops \<Rightarrow> instant \<Rightarrow> contract list \<Rightarrow> 'h core \<Rightarrow> 'h core" where
  "reupsert ops now cs co =
     (case hoCons ops of
        None \<Rightarrow> co
      | Some up \<Rightarrow>
          if cs = [] then co
          else case up (coHost co) cs of
                 (h, True) \<Rightarrow> co\<lparr>coHost := h\<rparr>
               | (h, False) \<Rightarrow> on_diag (bumpWriteFailed now) (co\<lparr>coHost := h\<rparr>))"

definition adoptChainLocked ::
  "'h host_ops \<Rightarrow> instant \<Rightarrow> string \<Rightarrow> chain_snapshot \<Rightarrow> 'h core \<Rightarrow> 'h core \<times> chain_snapshot" where
  "adoptChainLocked ops now ticker filtered co =
     (let reseen = \<not> Option.is_none (coTickers co ticker);
          ti = (case coTickers co ticker of None \<Rightarrow> new_ingest | Some ti \<Rightarrow> ti);
          old = chContracts (tiChain ti);
          carried = map (carry_row old) (chContracts filtered);
          n = length (filter (\<lambda>c. \<not> Option.is_none (carried_from old c)) (chContracts filtered));
          co1 = (if reseen
                 then noted now AnomalyChainReplace ticker 0
                        (ChainRediscovered (length old) (length carried) n) co
                 else co)
      in case stamp_rows now ticker (tiNextSyn ti) (coDiag co1) carried of
           (cs, syn, d) \<Rightarrow>
             let co2 = co1\<lparr>coDiag := d\<rparr>;
                 co3 = (if reseen then reupsert ops now cs co2 else co2);
                 chain = filtered\<lparr>chContracts := cs\<rparr>;
                 ti' = \<lparr>tiChain = chain, tiByCon = index_rows 0 cs Map.empty, tiLastIV = index_ivs cs,
                        tiPatchCount = 0, tiPending = False, tiPersisted = {}, tiNextSyn = syn\<rparr>
             in (co3\<lparr>coTickers := (coTickers co3)(ticker \<mapsto> ti')\<rparr>, chain))"

text \<open>The reply: kept listings, the strike envelope, and one window per class and expiry.\<close>

definition row_pair :: "contract \<Rightarrow> string \<times> string" where
  "row_pair c = (cTradingClass c, cExpiryDate c)"

fun keptListings_loop :: "(string \<times> string) list \<Rightarrow> contract list \<Rightarrow> chain_listing list" where
  "keptListings_loop seen [] = []"
| "keptListings_loop seen (c # cs) =
     (if row_pair c \<in> set seen then keptListings_loop seen cs
      else \<lparr>clDate = cExpiryDate c, clTradingClass = cTradingClass c, clSettlement = cSettlement c\<rparr>
             # keptListings_loop (row_pair c # seen) cs)"

definition keptListings :: "chain_snapshot \<Rightarrow> chain_listing list" where
  "keptListings chain = keptListings_loop [] (chContracts chain)"

definition strikeLo :: "chain_snapshot \<Rightarrow> f64" where
  "strikeLo chain =
     (case chContracts chain of
        [] \<Rightarrow> 0
      | c # cs \<Rightarrow> fold (\<lambda>c lo. if cStrike c < lo then cStrike c else lo) (c # cs) (cStrike c))"

definition strikeHi :: "chain_snapshot \<Rightarrow> f64" where
  "strikeHi chain =
     (case chContracts chain of
        [] \<Rightarrow> 0
      | c # cs \<Rightarrow> fold (\<lambda>c hi. if cStrike c > hi then cStrike c else hi) (c # cs) (cStrike c))"

text \<open>
  The windows: a pair met for the first time opens at its strike, which widening by the
  same strike leaves alone; later rows widen it.
\<close>

definition window_key :: "strike_window \<Rightarrow> string \<times> string" where
  "window_key w = (swTradingClass w, swDate w)"

definition new_window :: "contract \<Rightarrow> strike_window" where
  "new_window c = \<lparr>swTradingClass = cTradingClass c, swDate = cExpiryDate c,
                   swStrikeLo = cStrike c, swStrikeHi = cStrike c\<rparr>"

definition widen :: "contract \<Rightarrow> strike_window \<Rightarrow> strike_window" where
  "widen c w = w\<lparr>swStrikeLo := if cStrike c < swStrikeLo w then cStrike c else swStrikeLo w,
                 swStrikeHi := if cStrike c > swStrikeHi w then cStrike c else swStrikeHi w\<rparr>"

definition window_step :: "contract \<Rightarrow> strike_window list \<Rightarrow> strike_window list" where
  "window_step c = upsert (\<lambda>w. window_key w = row_pair c) (widen c) (new_window c)"

definition strikeWindows :: "chain_snapshot \<Rightarrow> strike_window list" where
  "strikeWindows chain = fold window_step (chContracts chain) []"

definition sub_set_of :: "string \<Rightarrow> chain_snapshot \<Rightarrow> sub_set" where
  "sub_set_of ticker chain =
     \<lparr>suTicker = ticker, suKeep = keptListings chain, suStrikeLo = strikeLo chain,
      suStrikeHi = strikeHi chain, suWindows = strikeWindows chain\<rparr>"

definition baseline_for :: "'h host_ops \<Rightarrow> 'h core \<Rightarrow> chain_ev \<Rightarrow> f64 option" where
  "baseline_for ops co ev =
     (if ceBaselineIV ev > 0 then Some (ceBaselineIV ev)
      else case hoBaselineIV ops (coHost co) (ceTicker ev) of
             Some iv \<Rightarrow> if iv > 0 then Some iv else None
           | None \<Rightarrow> None)"

definition onChain :: "'h host_ops \<Rightarrow> instant \<Rightarrow> envelope \<Rightarrow> 'h core \<Rightarrow> 'h core \<times> outbound list" where
  "onChain ops now env co =
     (case Option.bind (eData env) unmarshal_chain of
        None \<Rightarrow> (rejected co, [errorReply now env ''bad_chain'' ''chain payload''])
      | Some ev \<Rightarrow>
          if ceTicker ev = [] \<or> ceStrikes ev = [] \<or> ceListings ev = []
          then (rejected co, [errorReply now env ''bad_chain'' ''ticker, strikes and listings are required''])
          else case baseline_for ops co ev of
            None \<Rightarrow> (rejected co, [errorReply now env ''bad_chain''
                ''no baseline IV (chain event carried none and the host has none)''])
          | Some baseline \<Rightarrow>
              case SelectedExpiriesByClass (buildSkeleton now ev) now of
                Inl _ \<Rightarrow> (rejected co, [errorReply now env ''selection_failed'' ''selection''])
              | Inr (selected, _) \<Rightarrow>
                  case FilterChain selected baseline now of
                    Inl _ \<Rightarrow> (rejected co, [errorReply now env ''filter_failed'' ''filter''])
                  | Inr filtered \<Rightarrow>
                      case adoptChainLocked ops now (ceTicker ev) filtered co of
                        (co1, chain) \<Rightarrow>
                          case publishLocked ops chain co1 of
                            (co2, False) \<Rightarrow> (on_diag (bumpApplyFailed now) co2,
                                [errorReply now env ''apply_failed'' ''apply''])
                          | (co2, True) \<Rightarrow> (on_diag appliedOne co2,
                                [mk_out now TypeSubSet (eID env) (SubSetData (sub_set_of (ceTicker ev) chain))]))"

section \<open>Heartbeats, spot-only tickers and pass outcomes\<close>

definition onStatus :: "'h host_ops \<Rightarrow> session \<Rightarrow> envelope \<Rightarrow> 'h core \<Rightarrow> 'h core" where
  "onStatus ops sess env co =
     (case Option.bind (eData env) unmarshal_status of
        None \<Rightarrow> rejected co
      | Some ev \<Rightarrow>
          let co1 = co\<lparr>coLastStatus := Some ev\<rparr>
          in if Option.is_none (hoPoints ops) then co1
             else co1\<lparr>coPendPoints := coPendPoints co1 @
               [zero_point\<lparr>dpTsMs := eTS env, dpSession := snID sess, dpKind := ''status'', dpSource := ''status'',
                 dpLinesUsed := stLinesUsed ev, dpMsgRate := stMsgRate ev, dpSnapshotSpend := stSnapshotSpend ev\<rparr>]\<rparr>)"

definition LastStatus :: "'h core \<Rightarrow> status_ev option" where
  "LastStatus co = coLastStatus co"

definition ticker_char :: "char \<Rightarrow> bool" where
  "ticker_char r \<longleftrightarrow> CHR ''A'' \<le> r \<and> r \<le> CHR ''Z'' \<or> CHR ''a'' \<le> r \<and> r \<le> CHR ''z'' \<or>
     CHR ''0'' \<le> r \<and> r \<le> CHR ''9'' \<or> r = CHR ''.'' \<or> r = CHR ''-''"

definition validSpotTicker :: "string \<Rightarrow> bool" where
  "validSpotTicker t \<longleftrightarrow> t \<noteq> [] \<and> length t \<le> 10 \<and> list_all ticker_char t"

definition edge_onSweepDone :: "'h host_ops \<Rightarrow> instant \<Rightarrow> session \<Rightarrow> envelope \<Rightarrow> 'h core \<Rightarrow> 'h core" where
  "edge_onSweepDone ops now sess env co =
     (let bad = noted now AnomalyMalformed [] 0 (BadSweepDone (snRemote sess)) (rejected co)
      in case Option.bind (eData env) unmarshal_sweep_done of
           None \<Rightarrow> bad
         | Some ev \<Rightarrow>
             if \<not> validSpotTicker (sdTicker ev) then bad
             else case hoSweepDone ops of
                    None \<Rightarrow> co
                  | Some hook \<Rightarrow> co\<lparr>coHost := hook (coHost co) (ev\<lparr>sdTicker := ToUpper (sdTicker ev)\<rparr>)\<rparr>)"

definition onSpotSub :: "instant \<Rightarrow> envelope \<Rightarrow> 'h core \<Rightarrow> 'h core \<times> outbound list" where
  "onSpotSub now env co =
     (let bad = (rejected co, [errorReply now env ''bad_ticker'' ''spot_sub ticker''])
      in case Option.bind (eData env) unmarshal_spot_sub of
           None \<Rightarrow> bad
         | Some sub \<Rightarrow>
             if \<not> validSpotTicker (ssTicker sub) then bad
             else let t = ToUpper (ssTicker sub)
                  in (co\<lparr>coSpotOnly := insert t (coSpotOnly co)\<rparr>,
                      [mk_out now TypeSpotAck (eID env) (SpotAckData t)]))"

definition saneSpotPrice :: "f64 \<Rightarrow> bool" where
  "saneSpotPrice v \<longleftrightarrow> finite64 v \<and> v > 0 \<and> v < lit 1000000000"

definition spot_point :: "session \<Rightarrow> envelope \<Rightarrow> spot_ev \<Rightarrow> data_point" where
  "spot_point sess env ev = zero_point\<lparr>dpTsMs := eTS env, dpSession := snID sess, dpTicker := spTicker ev,
     dpKind := ''spot'', dpSource := ''l1'', dpSpot := spPrice ev\<rparr>"

definition onSpot :: "'h host_ops \<Rightarrow> instant \<Rightarrow> session \<Rightarrow> envelope \<Rightarrow> 'h core \<Rightarrow> 'h core" where
  "onSpot ops now sess env co =
     (case Option.bind (eData env) unmarshal_spot of
        None \<Rightarrow> rejected co
      | Some ev \<Rightarrow>
          let known = coTickers co (spTicker ev);
              co1 = (case known of
                       Some ti \<Rightarrow>
                         if saneSpotPrice (spPrice ev)
                         then co\<lparr>coTickers := (coTickers co)(spTicker ev \<mapsto>
                                ti\<lparr>tiChain := (tiChain ti)\<lparr>chSpot := spPrice ev,
                                   chAsOfMs := max (chAsOfMs (tiChain ti)) (eTS env)\<rparr>\<rparr>)\<rparr>
                         else co
                     | None \<Rightarrow> co)
          in if Option.is_none known \<and> spTicker ev \<notin> coSpotOnly co
             then noted now AnomalyUnknownTicker (spTicker ev) 0 SpotBeforeChain (rejected co1)
             else if \<not> saneSpotPrice (spPrice ev) then rejected co1
             else case hoApplySpot ops (coHost co1) (spTicker ev) (spPrice ev) (eTS env) of
                    (h, False) \<Rightarrow> on_diag (bumpApplyFailed now) (co1\<lparr>coHost := h\<rparr>)
                  | (h, True) \<Rightarrow>
                      let co2 = on_diag appliedOne (co1\<lparr>coHost := h\<rparr>)
                      in if Option.is_none (hoPoints ops) then co2
                         else co2\<lparr>coPendPoints := coPendPoints co2 @ [spot_point sess env ev]\<rparr>)"

section \<open>Option computations\<close>

definition matches_row :: "contract \<Rightarrow> opt_comp \<Rightarrow> bool" where
  "matches_row c o' \<longleftrightarrow> feq (cStrike c) (ocStrike o') \<and> cRight c = ocRight o' \<and>
     cExpiryDate c = ocExpiry o' \<and> cTradingClass c = ocTradingClass o'"

definition findSkeletonRow :: "chain_snapshot \<Rightarrow> opt_comp \<Rightarrow> nat option" where
  "findSkeletonRow chain o' =
     find (\<lambda>i. matches_row (chContracts chain ! i) o') [0 ..< length (chContracts chain)]"

definition upd_row :: "nat \<Rightarrow> (contract \<Rightarrow> contract) \<Rightarrow> ticker_ingest \<Rightarrow> ticker_ingest" where
  "upd_row idx f ti =
     (let cs = chContracts (tiChain ti)
      in ti\<lparr>tiChain := (tiChain ti)\<lparr>chContracts := cs[idx := f (cs ! idx)]\<rparr>\<rparr>)"

text \<open>First sighting: the placeholder id goes out, the durable id comes in.\<close>

definition resolve_row :: "nat \<Rightarrow> opt_comp \<Rightarrow> ticker_ingest \<Rightarrow> ticker_ingest" where
  "resolve_row idx o' ti =
     (upd_row idx (\<lambda>c. c\<lparr>cConId := ocConId o'\<rparr>) ti)
       \<lparr>tiByCon := (tiByCon ti)(cConId (chContracts (tiChain ti) ! idx) := None, ocConId o' \<mapsto> idx)\<rparr>"

text \<open>Later sightings: parameter amendments, each recorded, each forgetting the persisted mark.\<close>

definition amends_multiplier :: "contract \<Rightarrow> opt_comp \<Rightarrow> bool" where
  "amends_multiplier e o' \<longleftrightarrow> ocMultiplier o' > 0 \<and> cMultiplier e > 0 \<and> \<not> feq (ocMultiplier o') (cMultiplier e)"

definition amends_settlement :: "contract \<Rightarrow> opt_comp \<Rightarrow> bool" where
  "amends_settlement e o' \<longleftrightarrow> ocSettlement o' \<noteq> [] \<and> ocSettlement o' \<noteq> cSettlement e"

definition amends_exchange :: "contract \<Rightarrow> opt_comp \<Rightarrow> bool" where
  "amends_exchange e o' \<longleftrightarrow> ocExchange o' \<noteq> [] \<and> ocExchange o' \<noteq> cExchange e"

definition amend_row :: "opt_comp \<Rightarrow> contract \<Rightarrow> contract" where
  "amend_row o' e =
     e\<lparr>cMultiplier := if amends_multiplier e o' then ocMultiplier o' else cMultiplier e,
       cSettlement := if amends_settlement e o' then ocSettlement o' else cSettlement e,
       cExchange := if amends_exchange e o' then ocExchange o' else cExchange e\<rparr>"

definition amend_notes :: "instant \<Rightarrow> opt_comp \<Rightarrow> contract \<Rightarrow> 'h core \<Rightarrow> 'h core" where
  "amend_notes now o' e co =
     (let param = noted now AnomalyParamChange (ocTicker o') (ocConId o');
          co1 = (if amends_multiplier e o' then param (MultiplierMove (cMultiplier e) (ocMultiplier o')) co else co);
          co2 = (if amends_settlement e o' then param (SettlementMove (cSettlement e) (ocSettlement o')) co1 else co1)
      in if amends_exchange e o' then param (ExchangeMove (cExchange e) (ocExchange o')) co2 else co2)"

definition amend_ingest :: "nat \<Rightarrow> opt_comp \<Rightarrow> ticker_ingest \<Rightarrow> ticker_ingest" where
  "amend_ingest idx o' ti =
     (let e = chContracts (tiChain ti) ! idx
      in (upd_row idx (amend_row o') ti)
           \<lparr>tiPersisted := if amends_multiplier e o' \<or> amends_settlement e o' \<or> amends_exchange e o'
                          then tiPersisted ti - {ocConId o'} else tiPersisted ti\<rparr>)"

text \<open>The quote patch, with the jump audit of the implied vol.\<close>

definition iv_jump :: "config \<Rightarrow> ticker_ingest \<Rightarrow> opt_comp \<Rightarrow> (f64 \<times> f64) option" where
  "iv_jump cfg ti o' =
     (if ocIV o' > 0
      then case tiLastIV ti (ocConId o') of
             Some prev \<Rightarrow>
               if prev > 0
               then let jump = \<bar>ocIV o' - prev\<bar> / prev
                    in if jump > cfIVJumpRel cfg then Some (prev, jump) else None
               else None
           | None \<Rightarrow> None
      else None)"

definition jump_note :: "instant \<Rightarrow> config \<Rightarrow> ticker_ingest \<Rightarrow> opt_comp \<Rightarrow> 'h core \<Rightarrow> 'h core" where
  "jump_note now cfg ti o' co =
     (case iv_jump cfg ti o' of
        None \<Rightarrow> co
      | Some (prev, jump) \<Rightarrow>
          noted now AnomalyIVJump (ocTicker o') (ocConId o') (IVMove prev (ocIV o') (lit 100 * jump)) co)"

definition patch_row :: "opt_comp \<Rightarrow> contract \<Rightarrow> contract" where
  "patch_row o' e =
     e\<lparr>cIV := if ocIV o' > 0 then ocIV o' else cIV e,
       cBid := if ocBid o' > 0 \<or> ocAsk o' > 0 then ocBid o' else cBid e,
       cAsk := if ocBid o' > 0 \<or> ocAsk o' > 0 then ocAsk o' else cAsk e,
       cOpenInterest := if ocOpenInterest o' > 0 then ocOpenInterest o' else cOpenInterest e\<rparr>"

definition patch_ingest :: "nat \<Rightarrow> opt_comp \<Rightarrow> ticker_ingest \<Rightarrow> ticker_ingest" where
  "patch_ingest idx o' ti =
     (let ti1 = upd_row idx (patch_row o') ti;
          spot = chSpot (tiChain ti1);
          spot' = (if ocUndPrice o' > 0 \<and> ocUndPrice o' < lit 1000000000 \<and> \<not> feq (ocUndPrice o') spot
                   then ocUndPrice o' else spot)
      in ti1\<lparr>tiChain := (tiChain ti1)\<lparr>chSpot := spot'\<rparr>,
             tiLastIV := if ocIV o' > 0 then (tiLastIV ti)(ocConId o' \<mapsto> ocIV o') else tiLastIV ti,
             tiPending := True, tiPatchCount := tiPatchCount ti + 1\<rparr>)"

definition persist_once :: "'h host_ops \<Rightarrow> instant \<Rightarrow> opt_comp \<Rightarrow> contract \<Rightarrow> ticker_ingest \<Rightarrow> 'h core \<Rightarrow> ticker_ingest \<times> 'h core" where
  "persist_once ops now o' e ti co =
     (case hoCons ops of
        None \<Rightarrow> (ti, co)
      | Some up \<Rightarrow>
          if ocConId o' \<in> tiPersisted ti then (ti, co)
          else case up (coHost co) [e] of
                 (h, True) \<Rightarrow> (ti\<lparr>tiPersisted := insert (ocConId o') (tiPersisted ti)\<rparr>, co\<lparr>coHost := h\<rparr>)
               | (h, False) \<Rightarrow> (ti, on_diag (bumpWriteFailed now) (co\<lparr>coHost := h\<rparr>)))"

definition comp_log :: "envelope \<Rightarrow> opt_comp \<Rightarrow> computation_log" where
  "comp_log env o' = \<lparr>lgConId = ocConId o', lgTimestampMs = eTS env, lgTickType = 13, lgImpliedVol = ocIV o',
     lgDelta = ocDelta o', lgGamma = ocGamma o', lgVanna = 0, lgCharm = 0, lgVega = ocVega o',
     lgTheta = ocTheta o', lgUndPrice = ocUndPrice o'\<rparr>"

definition comp_point :: "session \<Rightarrow> envelope \<Rightarrow> opt_comp \<Rightarrow> data_point" where
  "comp_point sess env o' = zero_point\<lparr>dpTsMs := eTS env, dpSession := snID sess, dpTicker := ocTicker o',
     dpKind := ''optcomp'', dpConId := ocConId o', dpStrike := ocStrike o', dpRight := ocRight o',
     dpExpiry := ocExpiry o', dpTradingClass := ocTradingClass o', dpIV := ocIV o', dpDelta := ocDelta o',
     dpGamma := ocGamma o', dpVega := ocVega o', dpTheta := ocTheta o', dpOI := ocOpenInterest o',
     dpUndPrice := ocUndPrice o',
     dpSource := if ocSrc o' = ''snap'' then ''snapshot'' else ''stream''\<rparr>"

text \<open>What is done for an accepted row \<open>idx\<close>: patch, persist, queue, and flush when due.\<close>

definition accept_comp ::
  "'h host_ops \<Rightarrow> config \<Rightarrow> instant \<Rightarrow> session \<Rightarrow> envelope \<Rightarrow> opt_comp \<Rightarrow> nat \<Rightarrow> ticker_ingest \<Rightarrow> 'h core \<Rightarrow> 'h core" where
  "accept_comp ops cfg now sess env o' idx ti co =
     (let co1 = jump_note now cfg ti o' co;
          ti1 = patch_ingest idx o' ti
      in case persist_once ops now o' (chContracts (tiChain ti1) ! idx) ti1 co1 of
           (ti2, co2) \<Rightarrow>
             let co3 = co2\<lparr>coTickers := (coTickers co2)(ocTicker o' \<mapsto> ti2)\<rparr>;
                 co4 = (if Option.is_none (hoLogs ops) then co3
                        else co3\<lparr>coPendLogs := coPendLogs co3 @ [comp_log env o']\<rparr>);
                 co5 = (if Option.is_none (hoPoints ops) then co4
                        else co4\<lparr>coPendPoints := coPendPoints co4 @ [comp_point sess env o']\<rparr>)
             in if tiPatchCount ti2 \<ge> cfFlushPatches cfg then flushTickerLocked ops now (ocTicker o') co5
                else co5)"

definition onOptComp ::
  "'h host_ops \<Rightarrow> config \<Rightarrow> instant \<Rightarrow> session \<Rightarrow> envelope \<Rightarrow> 'h core \<Rightarrow> 'h core" where
  "onOptComp ops cfg now sess env co =
     (case Option.bind (eData env) unmarshal_optcomp of
        None \<Rightarrow> rejected co
      | Some o' \<Rightarrow>
          if ocConId o' = 0 \<or> ocTicker o' = [] then rejected co
          else case coTickers co (ocTicker o') of
            None \<Rightarrow> noted now AnomalyUnknownTicker (ocTicker o') (ocConId o') OptCompBeforeChain (rejected co)
          | Some ti \<Rightarrow>
              case tiByCon ti (ocConId o') of
                None \<Rightarrow>
                  (case findSkeletonRow (tiChain ti) o' of
                     None \<Rightarrow> noted now AnomalyUnknownCon (ocTicker o') (ocConId o')
                        (NotSelected (ocStrike o') (ocRight o') (ocExpiry o') (ocTradingClass o')) (rejected co)
                   | Some idx \<Rightarrow> accept_comp ops cfg now sess env o' idx (resolve_row idx o' ti) co)
              | Some idx \<Rightarrow>
                  let e = chContracts (tiChain ti) ! idx
                  in if \<not> matches_row e o'
                     then noted now AnomalyIdentityReject (ocTicker o') (ocConId o')
                       (ConIdReused (cStrike e) (cRight e) (cExpiryDate e) (cTradingClass e)
                          (ocStrike o') (ocRight o') (ocExpiry o') (ocTradingClass o')) (rejected co)
                     else accept_comp ops cfg now sess env o' idx (amend_ingest idx o' ti)
                            (amend_notes now o' e co))"

section \<open>Dispatch\<close>

definition gated ::
  "instant \<Rightarrow> session \<Rightarrow> envelope \<Rightarrow> ('h core \<Rightarrow> 'h core \<times> outbound list) \<Rightarrow> 'h core \<Rightarrow> session \<times> 'h core \<times> outbound list" where
  "gated now sess env handler co =
     (case requireHello now sess env co of
        (co', False) \<Rightarrow> (sess, co', [])
      | (co', True) \<Rightarrow> (sess, handler co'))"

definition Dispatch ::
  "'h host_ops \<Rightarrow> config \<Rightarrow> instant \<Rightarrow> session \<Rightarrow> envelope \<Rightarrow> 'h core \<Rightarrow> session \<times> 'h core \<times> outbound list" where
  "Dispatch ops cfg now sess env co0 =
     (let co = on_diag (latency (f64_of_int (wrap64 (UnixMilli now - eTS env))) \<circ> diag_event now (eType env)) co0;
          typ = eType env
      in if typ = TypeHello then onHello now sess env co
         else if typ = TypeChain then gated now sess env (onChain ops now env) co
         else if typ = TypeOptComp then gated now sess env (\<lambda>c. (onOptComp ops cfg now sess env c, [])) co
         else if typ = TypeSpot then gated now sess env (\<lambda>c. (onSpot ops now sess env c, [])) co
         else if typ = TypeSpotSub then gated now sess env (onSpotSub now env) co
         else if typ = TypeSweepDone then gated now sess env (\<lambda>c. (edge_onSweepDone ops now sess env c, [])) co
         else if typ = TypeTrade \<or> typ = TypeDepth then gated now sess env (\<lambda>c. (c, [])) co
         else if typ = TypeStatus then gated now sess env (\<lambda>c. (onStatus ops sess env c, [])) co
         else if typ = TypePing then (sess, co, [mk_out now TypePong 0 NoData])
         else if typ = TypeBye then (sess, co, [])
         else (sess, rejected co, [errorReply now env ''unknown_type'' ''type'']))"

definition DispatchLine ::
  "'h host_ops \<Rightarrow> config \<Rightarrow> instant \<Rightarrow> session \<Rightarrow> json option \<Rightarrow> 'h core \<Rightarrow> session \<times> 'h core \<times> wire_error option" where
  "DispatchLine ops cfg now sess line co =
     (case decodeEnvelope line of
        Inl e \<Rightarrow> (sess, on_diag (bumpMalformed now) co, Some e)
      | Inr env \<Rightarrow> (case Dispatch ops cfg now sess env co of (sess', co', _) \<Rightarrow> (sess', co', None)))"

end
