(* ===== verification/Oiquote.thy ===== *)
theory Oiquote
  imports Wire
begin

text \<open>
  Package \<^verbatim>\<open>oiquote\<close> (\<^verbatim>\<open>oiquote.go\<close>): OCC option symbols, the reduction of a delayed-quotes
  document to open-interest entries, and the one-day shift of a date. The HTTP request is
  not modelled: the document is the JSON value it returned.
\<close>

section \<open>Symbols\<close>

record oi_entry =
  oeClass :: string
  oeExpiry :: string
  oeRight :: string
  oeStrike :: f64
  oeOI :: f64

record oi_quote =
  oqAsOfMs :: int
  oqSpot :: f64
  oqEntries :: "oi_entry list"
  oqSkipped :: int

definition root_char :: "char \<Rightarrow> bool" where
  "root_char c \<longleftrightarrow> CHR ''A'' \<le> c \<and> c \<le> CHR ''Z'' \<or> is_digit c"

text \<open>
  The pattern \<^verbatim>\<open>^([A-Z0-9]{1,6})?(\d{6})([CP])(\d{8})$\<close>: its last fifteen characters have
  fixed places, so the match is unique. The groups are root, date, right, strike.
\<close>

definition occSymbol :: "string \<Rightarrow> (string \<times> string \<times> string \<times> string) option" where
  "occSymbol code_str =
     (let n = length code_str - 15; root' = take n code_str; date = take 6 (drop n code_str);
          right = take 1 (drop (n + 6) code_str); code = drop (n + 7) code_str
      in if 15 \<le> length code_str \<and> n \<le> 6 \<and> list_all root_char root' \<and> list_all is_digit date \<and>
            (right = ''C'' \<or> right = ''P'') \<and> list_all is_digit code
         then Some (root', date, right, code) else None)"

definition ParseOptionSymbol :: "string \<Rightarrow> oi_entry option" where
  "ParseOptionSymbol code_str =
     (case occSymbol code_str of
        None \<Rightarrow> None
      | Some (root', date, right, code) \<Rightarrow>
          let yy = atoi (take 2 date); mo = atoi (take 2 (drop 2 date)); day = atoi (drop 4 date)
          in if mo < 1 \<or> mo > 12 then None
             else if day < 1 \<or> day > 31 then None
             else Some \<lparr>oeClass = root',
                    oeExpiry = ''20'' @ pad0 2 (dec_nat (nat yy)) @ pad0 2 (dec_nat (nat mo)) @ pad0 2 (dec_nat (nat day)),
                    oeRight = right, oeStrike = f64_of_int (atoi code) / lit 1000, oeOI = 0\<rparr>)"

definition SymbolFor :: "string \<Rightarrow> string" where
  "SymbolFor ticker = (if ticker \<in> {''SPX'', ''NDX'', ''VIX'', ''RUT''} then ''_'' @ ticker else ticker)"

definition ShiftYMD :: "string \<Rightarrow> int \<Rightarrow> string option" where
  "ShiftYMD date days = map_option (\<lambda>n. format_ymd (n + days)) (parse_ymd date)"

section \<open>Documents\<close>

definition ParseInt :: "string \<Rightarrow> int option" where
  "ParseInt s =
     (let (sg, ds) = (case s of
            [] \<Rightarrow> (1, [])
          | c # cs \<Rightarrow> if c = CHR ''-'' then (- 1, cs) else if c = CHR ''+'' then (1, cs) else (1, s));
          n = sg * atoi ds
      in if ds \<noteq> [] \<and> list_all is_digit ds \<and> - (2 ^ 63) \<le> n \<and> n < 2 ^ 63 then Some n else None)"

definition parseLenientInt64 :: "json option \<Rightarrow> int" where
  "parseLenientInt64 raw =
     (case raw of
        Some (JInt n) \<Rightarrow> if - (2 ^ 63) \<le> n \<and> n < 2 ^ 63 then n else 0
      | Some (JStr s) \<Rightarrow> (case ParseInt s of Some n \<Rightarrow> n | None \<Rightarrow> 0)
      | _ \<Rightarrow> 0)"

record oi_doc =
  odTimestamp :: "json option"
  odCurrentPrice :: f64
  odOptions :: "(string \<times> f64) list"

definition unmarshal_option :: "json \<Rightarrow> (string \<times> f64) option" where
  "unmarshal_option = struct (\<lambda>fs.
     Option.bind (f_str ''option'' fs) (\<lambda>s.
     Option.bind (f_f64 ''open_interest'' fs) (\<lambda>oi. Some (s, oi))))"

definition unmarshal_doc_data :: "json \<Rightarrow> (f64 \<times> (string \<times> f64) list) option" where
  "unmarshal_doc_data = struct (\<lambda>fs.
     Option.bind (f_f64 ''current_price'' fs) (\<lambda>p.
     Option.bind (f_list unmarshal_option ''options'' fs) (\<lambda>os. Some (p, os))))"

definition unmarshal_doc :: "json \<Rightarrow> oi_doc option" where
  "unmarshal_doc = struct (\<lambda>fs.
     Option.bind (dec_field dec_raw ''timestamp'' fs None) (\<lambda>ts.
     Option.bind (dec_field (\<lambda>v _. unmarshal_doc_data v) ''data'' fs (0, [])) (\<lambda>(p, os).
     Some \<lparr>odTimestamp = ts, odCurrentPrice = p, odOptions = os\<rparr>)))"

definition normalize_ms :: "int \<Rightarrow> int" where
  "normalize_ms n = (if n > 0 \<and> n < 10 ^ 12 then n * 1000 else n)"

definition add_option :: "string \<times> f64 \<Rightarrow> oi_quote \<Rightarrow> oi_quote" where
  "add_option r q =
     (case ParseOptionSymbol (fst r) of
        None \<Rightarrow> q\<lparr>oqSkipped := oqSkipped q + 1\<rparr>
      | Some e \<Rightarrow> if snd r \<le> 0 then q else q\<lparr>oqEntries := oqEntries q @ [e\<lparr>oeOI := snd r\<rparr>]\<rparr>)"

definition Fetch_reduce :: "json option \<Rightarrow> oi_quote option" where
  "Fetch_reduce body =
     map_option (\<lambda>doc. fold add_option (odOptions doc)
         \<lparr>oqAsOfMs = normalize_ms (parseLenientInt64 (odTimestamp doc)), oqSpot = odCurrentPrice doc,
          oqEntries = [], oqSkipped = 0\<rparr>)
       (Option.bind body unmarshal_doc)"

section \<open>Decimal digits\<close>

lemma atoi_snoc: "atoi (xs @ [c]) = 10 * atoi xs + digit_val c"
  by (simp add: atoi_def)

lemma atoi_dec_nat: "atoi (dec_nat n) = int n"
proof (induction n rule: dec_nat.induct)
  case (1 n)
  show ?case
  proof (cases "n < 10")
    case True
    then show ?thesis by (simp add: dec_nat.simps [of n] atoi_def digit_val_dig)
  next
    case False
    then have "dec_nat n = dec_nat (n div 10) @ [dig (n mod 10)]" by (subst dec_nat.simps) simp
    then show ?thesis using 1 False by (simp add: atoi_snoc digit_val_dig int_div_mod_10)
  qed
qed

lemma atoi_zeros: "atoi (replicate k CHR ''0'' @ xs) = atoi xs"
proof (induction k)
  case (Suc k)
  have z: "digit_val CHR ''0'' = 0" using digit_val_dig [of 0] by (simp add: dig_0)
  have "atoi (CHR ''0'' # ys) = atoi ys" for ys by (simp add: atoi_def z)
  with Suc show ?case by simp
qed simp

lemma atoi_pad0: "atoi (pad0 w (dec_nat n)) = int n"
  by (simp add: pad0_def atoi_zeros atoi_dec_nat)

lemma digits_dec_nat: "list_all is_digit (dec_nat n)"
proof (induction n rule: dec_nat.induct)
  case (1 n)
  then show ?case by (cases "n < 10") (simp_all add: dec_nat.simps [of n] is_digit_dig)
qed

lemma length_dec_nat: "n < 10 ^ w \<Longrightarrow> 0 < w \<Longrightarrow> length (dec_nat n) \<le> w"
proof (induction n arbitrary: w rule: dec_nat.induct)
  case (1 n)
  show ?case
  proof (cases "n < 10")
    case True
    then show ?thesis using 1 by (simp add: dec_nat.simps [of n])
  next
    case False
    obtain v where "w = Suc v" using 1(3) by (cases w) auto
    moreover from this have "0 < v" using 1(2) False by (cases v) auto
    ultimately have v: "w = Suc v" "0 < v" by simp_all
    have "n div 10 < 10 ^ v" using 1(2) v by (simp add: less_mult_imp_div_less)
    from 1(1) [OF False this v(2)] have "length (dec_nat (n div 10)) \<le> v" .
    moreover have "dec_nat n = dec_nat (n div 10) @ [dig (n mod 10)]" using False by (subst dec_nat.simps) simp
    ultimately show ?thesis using v by simp
  qed
qed

lemma pad0_props:
  assumes "n < 10 ^ w" "0 < w"
  shows "length (pad0 w (dec_nat n)) = w" "list_all is_digit (pad0 w (dec_nat n))"
  using length_dec_nat [OF assms] digits_dec_nat [of n] is_digit_dig [of 0]
  by (auto simp: pad0_def dig_0 list_all_iff)

section \<open>Round trips\<close>

lemma occ_date:
  assumes "2000 \<le> year_of_day n" "year_of_day n \<le> 2099" "civil_of_day n = (y, m, d)"
  shows "format_ymd n = ''20'' @ pad0 2 (dec_nat (nat (y - 2000))) @ pad0 2 (dec_nat (nat m)) @ pad0 2 (dec_nat (nat d))"
    and "1 \<le> m" "m \<le> 12" "1 \<le> d" "d \<le> 31" "0 \<le> y - 2000" "y - 2000 < 100"
proof -
  have y: "y = year_of_day n" using assms(3) by (auto simp: civil_of_day_def Let_def split: prod.splits)
  then show b: "0 \<le> y - 2000" "y - 2000 < 100" using assms by simp_all
  show "1 \<le> m" "m \<le> 12" "1 \<le> d" "d \<le> 31"
    using civil_of_day_spec [OF assms(3)] by (auto simp: days_in_def split: if_splits)
  obtain k where k: "y = 2000 + int k" "k < 100" using b by (metis add.commute diff_add_cancel int_ops(3) nonneg_int_cases of_nat_less_iff of_nat_numeral)
  have n: "nat y = 2000 + k" using k by simp
  have "pad0 4 (dec_nat (2000 + k)) = ''20'' @ pad0 2 (dec_nat k)"
  proof -
    have s: "2000 + k = k + 200 * 10" by simp
    have d: "(2000 + k) div 10 = 200 + k div 10" by simp
    have d': "(2000 + k) mod 10 = k mod 10" unfolding s by (rule mod_mult_self1)
    define q where "q = k div 10"
    have q: "q < 10" using k(2) by (simp add: q_def)
    have s': "200 + q = q + 20 * 10" by simp
    have "(200 + q) mod 10 = q" unfolding s' mod_mult_self1 using q by simp
    moreover have "(200 + q) div 10 = 20" using q by simp
    ultimately have e: "(200 + k div 10) div 10 = 20" "(200 + k div 10) mod 10 = k div 10"
      by (simp_all add: q_def)
    have "pad0 4 (dec_nat (2000 + k)) = [dig 2, dig 0, dig (k div 10), dig (k mod 10)]"
      using k(2) by (subst dec_pad4) (simp_all only: d d' e, simp_all)
    moreover have "dig 2 = CHR ''2''" "dig 0 = CHR ''0''" by (simp_all add: dig_def char_of_eq_iff)
    ultimately show ?thesis using k(2) by (simp add: dec_pad2)
  qed
  then show "format_ymd n = ''20'' @ pad0 2 (dec_nat (nat (y - 2000))) @ pad0 2 (dec_nat (nat m)) @ pad0 2 (dec_nat (nat d))"
    using b k(1) n by (simp add: format_ymd_def assms(3))
qed

definition occ_code :: "string \<Rightarrow> int \<Rightarrow> string \<Rightarrow> nat \<Rightarrow> string" where
  "occ_code root' n right millis = root' @ drop 2 (format_ymd n) @ right @ pad0 8 (dec_nat millis)"

text \<open>
  Fact. Every OCC code parses back to what it encodes: a root of at most six
  capitals or digits, an expiry of this century, a right and a strike in thousandths give
  an entry with that class, that date as the chains write it, that right and that strike.
\<close>

theorem occ_roundtrip:
  assumes "length root' \<le> 6" "list_all root_char root'" "2000 \<le> year_of_day n" "year_of_day n \<le> 2099"
    and "right = ''C'' \<or> right = ''P''" "millis < 10 ^ 8"
  shows "ParseOptionSymbol (occ_code root' n right millis) =
    Some \<lparr>oeClass = root', oeExpiry = format_ymd n, oeRight = right,
          oeStrike = f64_of_int (int millis) / lit 1000, oeOI = 0\<rparr>"
proof -
  obtain y m d where c: "civil_of_day n = (y, m, d)" by (cases "civil_of_day n") auto
  note o = occ_date [OF assms(3,4) c]
  define yy where "yy = pad0 2 (dec_nat (nat (y - 2000)))"
  define mm where "mm = pad0 2 (dec_nat (nat m))"
  define dd where "dd = pad0 2 (dec_nat (nat d))"
  have f: "format_ymd n = ''20'' @ yy @ mm @ dd" using o(1) by (simp add: yy_def mm_def dd_def)
  have l: "length yy = 2" "length mm = 2" "length dd = 2"
    "list_all is_digit yy" "list_all is_digit mm" "list_all is_digit dd"
    using o(2-7) unfolding yy_def mm_def dd_def by (intro pad0_props; simp)+
  have v: "atoi yy = y - 2000" "atoi mm = m" "atoi dd = d"
    using o(2-7) by (simp_all add: yy_def mm_def dd_def atoi_pad0)
  define code where "code = pad0 8 (dec_nat millis)"
  have cd: "length code = 8" "list_all is_digit code" "atoi code = int millis"
    using pad0_props [of millis 8] assms(6) by (simp_all add: code_def atoi_pad0)
  have r: "length right = 1" using assms(5) by auto
  have code_str: "occ_code root' n right millis = root' @ (yy @ mm @ dd) @ right @ code"
    by (simp add: occ_code_def f code_def)
  have "occSymbol (occ_code root' n right millis) = Some (root', yy @ mm @ dd, right, code)"
    unfolding code_str occSymbol_def Let_def using assms(1,2,5) l cd r by simp
  then show ?thesis
    using v o(2-7) l cd(3) by (simp add: ParseOptionSymbol_def Let_def f) (simp add: yy_def mm_def dd_def)
qed

theorem occ_roundtrip_witness:
  "ParseOptionSymbol (occ_code ''SPXW'' (day_of_civil 2026 10 16) ''P'' 5812500) =
     Some \<lparr>oeClass = ''SPXW'', oeExpiry = ''20261016'', oeRight = ''P'',
           oeStrike = f64_of_int 5812500 / lit 1000, oeOI = 0\<rparr>"
proof -
  have y: "year_of_day (day_of_civil 2026 10 16) = 2026" by (rule year_of_civil) code_simp
  have "format_ymd (day_of_civil 2026 10 16) = ''20261016''" by code_simp
  moreover have "list_all root_char ''SPXW''" by code_simp
  ultimately show ?thesis
    using occ_roundtrip [of "''SPXW''" "day_of_civil 2026 10 16" "''P''" 5812500] by (simp add: y)
qed

lemma ShiftYMD_back:
  assumes "ShiftYMD date k = Some date'" "parse_ymd date = Some n" "0 \<le> year_of_day (n + k)" "year_of_day (n + k) \<le> 9999"
  shows "ShiftYMD date' (- k) = Some date"
  using assms parse_format_ymd [of "n + k"] format_parse_ymd by (auto simp: ShiftYMD_def)

end
