(* ===== verification/Vendor_OI.thy ===== *)
theory Vendor_OI
  imports Ingest Oiquote
begin

text \<open>
  Package \<^verbatim>\<open>edge\<close>, vendor open interest (\<^verbatim>\<open>vendoroi.go\<close>): matching vendor entries to the
  rows of a working chain by class, right, scaled strike and an expiry at most one day
  off, patching and publishing them; the list of active tickers and the schedule of the
  refresh loop.
\<close>

type_synonym oi_key = "string \<times> string \<times> int"

definition strike10k :: "f64 \<Rightarrow> int" where
  "strike10k k = go_int (math_Round (k * lit 10000))"

definition entry_key :: "oi_entry \<Rightarrow> oi_key" where
  "entry_key e = (oeClass e, oeRight e, strike10k (oeStrike e))"

definition row_key :: "contract \<Rightarrow> oi_key" where
  "row_key c = (cTradingClass c, cRight c, strike10k (cStrike c))"

text \<open>The bucket of a key: the last entry per expiry wins; no bucket when nothing has the key.\<close>

definition bucket :: "oi_entry list \<Rightarrow> oi_key \<Rightarrow> (string \<rightharpoonup> f64) option" where
  "bucket entries k =
     (let es = filter (\<lambda>e. entry_key e = k) entries
      in if es = [] then None else Some (map_of (rev (map (\<lambda>e. (oeExpiry e, oeOI e)) es))))"

definition try_shift :: "(string \<rightharpoonup> f64) \<Rightarrow> string \<Rightarrow> int \<Rightarrow> f64 option" where
  "try_shift byExpiry expiry d =
     (case ShiftYMD expiry d of
        None \<Rightarrow> None
      | Some alt \<Rightarrow>
          (case byExpiry alt of Some oi \<Rightarrow> if oi > 0 then Some oi else None | None \<Rightarrow> None))"

definition pickVendorOI :: "(string \<rightharpoonup> f64) \<Rightarrow> string \<Rightarrow> f64 option" where
  "pickVendorOI byExpiry expiry =
     (case byExpiry expiry of
        Some oi \<Rightarrow> if oi \<le> 0 then None else Some oi
      | None \<Rightarrow>
          (case try_shift byExpiry expiry (- 1) of
             Some oi \<Rightarrow> Some oi
           | None \<Rightarrow> try_shift byExpiry expiry 1))"

definition vendor_row :: "oi_entry list \<Rightarrow> contract \<Rightarrow> f64 option" where
  "vendor_row entries c =
     (case bucket entries (row_key c) of
        None \<Rightarrow> None
      | Some m \<Rightarrow>
          (case pickVendorOI m (cExpiryDate c) of
             Some oi \<Rightarrow> if oi \<le> 0 then None else Some oi
           | None \<Rightarrow> None))"

definition patch_oi :: "oi_entry list \<Rightarrow> contract \<Rightarrow> contract" where
  "patch_oi entries c = (case vendor_row entries c of None \<Rightarrow> c | Some oi \<Rightarrow> c\<lparr>cOpenInterest := oi\<rparr>)"

definition ApplyVendorOI ::
  "'h host_ops \<Rightarrow> instant \<Rightarrow> string \<Rightarrow> oi_entry list \<Rightarrow> 'h core \<Rightarrow> 'h core \<times> int \<times> int" where
  "ApplyVendorOI ops now ticker0 entries co =
     (let ticker = ToUpper ticker0
      in case coTickers co ticker of
           None \<Rightarrow> (co, 0, 0)
         | Some ti \<Rightarrow>
             let cs = chContracts (tiChain ti);
                 matched = int (length (filter (\<lambda>c. \<not> Option.is_none (vendor_row entries c)) cs));
                 ti1 = ti\<lparr>tiChain := (tiChain ti)\<lparr>chContracts := map (patch_oi entries) cs\<rparr>\<rparr>;
                 co1 = (if matched > 0
                        then flushTickerLocked ops now ticker
                               (co\<lparr>coTickers := (coTickers co)(ticker \<mapsto> ti1\<lparr>tiPending := True\<rparr>)\<rparr>)
                        else co\<lparr>coTickers := (coTickers co)(ticker \<mapsto> ti1)\<rparr>)
             in if cs = [] then (co, 0, 0)
                else (on_diag (vendorOI now ticker matched (int (length cs)) (entries \<noteq> [])) co1,
                      matched, int (length cs)))"

text \<open>\<^verbatim>\<open>ActiveTickers\<close> sorts the keys; \<open>order\<close> is the order Go ranges over them.\<close>

definition ActiveTickers :: "string list \<Rightarrow> 'h core \<Rightarrow> string list" where
  "ActiveTickers order co = sort (filter (\<lambda>t. \<not> Option.is_none (coTickers co t)) order)"

section \<open>The refresh schedule\<close>

record vendor_config =
  vcEvery :: duration

definition vendor_every :: "vendor_config \<Rightarrow> duration" where
  "vendor_every cfg = (if vcEvery cfg \<le> 0 then 15 * 60 * second_ns else vcEvery cfg)"

definition pollEvery :: duration where "pollEvery = 20 * second_ns"
definition errBackoff :: duration where "errBackoff = 60 * second_ns"

text \<open>
  One ticker's turn of the loop of \<^verbatim>\<open>RunVendorOI\<close> at \<open>now\<close>: skipped while fresh, otherwise
  fetched (\<open>None\<close> when the fetch failed) and stamped with the time of its last refresh or, after
  a failure, with a time that makes it due again one backoff later.
\<close>

definition vendor_due :: "duration \<Rightarrow> instant \<Rightarrow> instant option \<Rightarrow> bool" where
  "vendor_due every now prev = (case prev of None \<Rightarrow> True | Some p \<Rightarrow> \<not> time_Sub now p < every)"

definition vendor_turn ::
  "'h host_ops \<Rightarrow> vendor_config \<Rightarrow> instant \<Rightarrow> oi_quote option \<Rightarrow> string \<Rightarrow>
     (string \<rightharpoonup> instant) \<times> 'h core \<Rightarrow> (string \<rightharpoonup> instant) \<times> 'h core" where
  "vendor_turn ops cfg now fetched t st =
     (case st of (last_at, co) \<Rightarrow>
        if \<not> vendor_due (vendor_every cfg) now (last_at t) then (last_at, co)
        else case fetched of
               None \<Rightarrow> (last_at(t \<mapsto> now + (min (vendor_every cfg) errBackoff - vendor_every cfg)), co)
             | Some q \<Rightarrow> (last_at(t \<mapsto> now), fst (ApplyVendorOI ops now t (oqEntries q) co)))"

section \<open>Lemmas\<close>

lemma map_of_rev_in:
  "map_of (rev (map (\<lambda>e. (f e, g e)) es)) k = Some v \<Longrightarrow> \<exists>e \<in> set es. f e = k \<and> g e = v"
  by (auto dest!: map_of_SomeD)

text \<open>The entries that may answer for a row: same key, expiry the row's or one day off.\<close>

definition answers :: "oi_entry \<Rightarrow> contract \<Rightarrow> bool" where
  "answers e c \<longleftrightarrow> entry_key e = row_key c \<and> oeOI e > 0 \<and>
     (oeExpiry e = cExpiryDate c \<or> ShiftYMD (cExpiryDate c) (- 1) = Some (oeExpiry e) \<or>
      ShiftYMD (cExpiryDate c) 1 = Some (oeExpiry e))"

lemma not_le_0_pos: "\<not> oi \<le> 0 \<Longrightarrow> oi \<noteq> NaN \<Longrightarrow> (0 :: f64) < oi"
  using less_f64_iff [of 0 oi] by (simp add: zero_f64_def)

lemma bucket_in:
  assumes "bucket entries k = Some m" "m x = Some v"
  shows "\<exists>e \<in> set entries. entry_key e = k \<and> oeExpiry e = x \<and> oeOI e = v"
  using assms map_of_rev_in by (fastforce simp: bucket_def Let_def split: if_splits)

lemma try_shift_in:
  "try_shift m x d = Some v \<Longrightarrow> v > 0 \<and> (\<exists>alt. ShiftYMD x d = Some alt \<and> m alt = Some v)"
  by (auto simp: try_shift_def split: option.splits if_splits)

lemma vendor_row_Some:
  assumes "vendor_row entries c = Some oi" "\<forall>e \<in> set entries. oeOI e \<noteq> NaN"
  shows "\<exists>e \<in> set entries. answers e c \<and> oeOI e = oi"
proof -
  obtain m where m: "bucket entries (row_key c) = Some m" "pickVendorOI m (cExpiryDate c) = Some oi"
    using assms(1) by (auto simp: vendor_row_def split: option.splits if_splits)
  from m(2) consider "m (cExpiryDate c) = Some oi" "\<not> oi \<le> 0" |
    d where "d = - 1 \<or> d = 1" "try_shift m (cExpiryDate c) d = Some oi"
    by (auto simp: pickVendorOI_def split: option.splits if_splits)
  then show ?thesis
  proof cases
    case 1
    then show ?thesis
      using bucket_in [OF m(1) 1(1)] assms(2) not_le_0_pos by (auto simp: answers_def)
  next
    case 2
    then obtain alt where "ShiftYMD (cExpiryDate c) d = Some alt" "m alt = Some oi" "oi > 0"
      using try_shift_in by blast
    with 2 bucket_in [OF m(1)] show ?thesis by (fastforce simp: answers_def)
  qed
qed

lemma patch_oi_id [simp]: "cConId (patch_oi entries c) = cConId c"
  by (simp add: patch_oi_def split: option.split)

lemma flush_rows:
  "map_option (chContracts \<circ> tiChain) (coTickers (flushTickerLocked ops now t co) u) =
     map_option (chContracts \<circ> tiChain) (coTickers co u)"
  by (simp add: flushTickerLocked_def publishLocked_def on_diag_def Let_def split: option.split prod.split bool.split)

lemma ApplyVendorOI_rows:
  assumes "coTickers co (ToUpper t) = Some ti"
  shows "map_option (chContracts \<circ> tiChain) (coTickers (fst (ApplyVendorOI ops now t entries co)) (ToUpper t)) =
    Some (map (patch_oi entries) (chContracts (tiChain ti)))"
  using assms by (cases "chContracts (tiChain ti) = []")
    (simp_all add: ApplyVendorOI_def on_diag_def Let_def flush_rows del: map_option_eq_Some)

text \<open>
  After a failed fetch a ticker is due again exactly one backoff later, and never later
  than its regular period.
\<close>

lemma vendor_retry:
  assumes "min_duration \<le> u - p" "u - p \<le> max_duration"
    and "p = now + (min (vendor_every cfg) errBackoff - vendor_every cfg)"
  shows "vendor_due (vendor_every cfg) u (Some p) \<longleftrightarrow> u \<ge> now + min (vendor_every cfg) errBackoff"
  using assms by (auto simp: vendor_due_def time_Sub_def)

end
