(* ===== verification/Host.thy ===== *)
theory Host
  imports Vendor_OI
begin

text \<open>
  The contract between the ingest core and its host (\<^verbatim>\<open>BookSink\<close>, \<^verbatim>\<open>LogSink\<close> and the hooks of
  \<^verbatim>\<open>ingest.go\<close>): the core touches the host only through the operations it was given, so a
  reflexive and transitive relation every operation respects relates the host before and
  after anything the core does. An invariant of the host is the relation ``holds before
  implies holds after''.
\<close>

lemmas host_frame = on_diag_def rejected_def noted_def

locale host_relation =
  fixes ops :: "'h host_ops" and R :: "'h \<Rightarrow> 'h \<Rightarrow> bool"
  assumes R_refl: "R h h"
    and R_trans: "R h h1 \<Longrightarrow> R h1 h2 \<Longrightarrow> R h h2"
    and R_chain: "R h (fst (hoApplyChain ops h s))"
    and R_spot: "R h (fst (hoApplySpot ops h t p ms))"
    and R_logs: "hoLogs ops = Some f \<Longrightarrow> R h (fst (f h ls))"
    and R_cons: "hoCons ops = Some g \<Longrightarrow> R h (fst (g h cs))"
    and R_points: "hoPoints ops = Some k \<Longrightarrow> R h (fst (k h ps))"
    and R_done: "hoSweepDone ops = Some hook \<Longrightarrow> R h (hook h ev)"
begin

abbreviation hrel :: "'h core \<Rightarrow> 'h core \<Rightarrow> bool" where
  "hrel co co' \<equiv> R (coHost co) (coHost co')"

lemma hrel_publish: "hrel co (fst (publishLocked ops s co))"
  using R_chain [of "coHost co" s] by (auto simp: publishLocked_def split: prod.split)

lemma hrel_flush: "hrel co (flushTickerLocked ops now t co)"
proof (cases "coTickers co t")
  case None
  then show ?thesis by (simp add: flushTickerLocked_def R_refl)
next
  case (Some ti)
  then show ?thesis
    using hrel_publish [of "co\<lparr>coTickers := (coTickers co)(t \<mapsto> ti\<lparr>tiPending := False, tiPatchCount := 0\<rparr>)\<rparr>"
        "(tiChain ti)\<lparr>chAsOfMs := UnixMilli now\<rparr>"]
    by (auto simp: flushTickerLocked_def R_refl Let_def host_frame split: prod.split bool.split)
qed

lemma hrel_fold_flush: "hrel co (fold (flushTickerLocked ops now) ts co)"
proof (induction ts arbitrary: co)
  case Nil
  show ?case by (simp add: R_refl)
next
  case (Cons t ts)
  show ?case using R_trans [OF hrel_flush Cons.IH] by simp
qed

lemma hrel_submit_points: "hrel co (submit_points ops now ps co)"
proof (cases "hoPoints ops")
  case (Some k)
  show ?thesis using R_points [OF Some, of "coHost co" ps]
    by (auto simp: submit_points_def Some R_refl host_frame split: prod.split sum.split option.split)
qed (simp add: submit_points_def R_refl)

lemma hrel_submit: "hrel co (submit_all ops now ls ps co)"
proof (cases "hoLogs ops")
  case None
  then show ?thesis by (simp add: submit_all_def hrel_submit_points)
next
  case (Some f)
  note h = R_logs [OF Some, of "coHost co" ls]
  have "R (coHost co) (coHost (submit_points ops now ps co'))" if "R (coHost co) (coHost co')" for co'
    using R_trans [OF that hrel_submit_points] .
  then show ?thesis using h hrel_submit_points [of co now ps]
    by (auto simp: submit_all_def Some host_frame split: prod.split sum.split option.split)
qed

lemma hrel_FlushAll: "hrel co (FlushAll ops now order co)"
proof -
  let ?co = "fold (flushTickerLocked ops now) (pending_tickers order co) co"
  have "hrel ?co (submit_all ops now ls ps (?co\<lparr>coPendLogs := [], coPendPoints := []\<rparr>))" for ls ps
    using hrel_submit [of "?co\<lparr>coPendLogs := [], coPendPoints := []\<rparr>"] by simp
  from R_trans [OF hrel_fold_flush this] show ?thesis by (simp add: FlushAll_def Let_def)
qed

lemma hrel_tick: "hrel co (Run_tick ops now order co)"
  using hrel_FlushAll [of co now order]
  by (simp add: Run_tick_def drainLogErrors_def drainPointErrors_def split: prod.split)

lemma hrel_reupsert: "hrel co (reupsert ops now cs co)"
proof (cases "hoCons ops")
  case (Some g)
  show ?thesis using R_cons [OF Some, of "coHost co" cs]
    by (auto simp: reupsert_def Some R_refl host_frame split: prod.split bool.split)
qed (simp add: reupsert_def R_refl)

lemma hrel_adopt: "hrel co (fst (adoptChainLocked ops now t filtered co))"
proof -
  have "hrel co (reupsert ops now cs (co1\<lparr>coDiag := d\<rparr>))" if "coHost co1 = coHost co" for cs co1 d
    using hrel_reupsert [of "co1\<lparr>coDiag := d\<rparr>" now cs] that by simp
  then show ?thesis
    by (simp add: adoptChainLocked_def Let_def R_refl noted_def on_diag_def split: prod.split)
qed

lemma hrel_onChain: "hrel co (fst (onChain ops now env co))"
proof -
  have "hrel co (fst (publishLocked ops chain co1))"
    if "adoptChainLocked ops now t filtered co = (co1, chain)" for t filtered co1 chain
    using R_trans [OF _ hrel_publish] hrel_adopt [of co now t filtered] that by simp
  then have *: "R (coHost co) (coHost co2)"
    if "adoptChainLocked ops now t filtered co = (co1, chain)" "publishLocked ops chain co1 = (co2, b)"
    for t filtered co1 chain co2 b
    using that by (metis fst_conv)
  show ?thesis
    by (auto simp: onChain_def R_refl host_frame dest: * split: option.split sum.split prod.split bool.split)
qed

lemma hrel_onSpot: "hrel co (onSpot ops now sess env co)"
  using R_spot [of "coHost co"]
  by (auto simp: onSpot_def Let_def R_refl host_frame split: option.split prod.split bool.split)
    (metis fst_conv)+

lemma hrel_onSweepDone: "hrel co (edge_onSweepDone ops now sess env co)"
  using R_done [of _ "coHost co"]
  by (auto simp: edge_onSweepDone_def Let_def R_refl host_frame split: option.split)

lemma hrel_persist: "hrel co (snd (persist_once ops now o' e ti co))"
proof (cases "hoCons ops")
  case (Some g)
  show ?thesis using R_cons [OF Some, of "coHost co" "[e]"]
    by (auto simp: persist_once_def Some R_refl host_frame split: prod.split bool.split)
qed (simp add: persist_once_def R_refl)

lemma coHost_jump: "coHost (jump_note now cfg ti o' co) = coHost co"
  by (simp add: jump_note_def host_frame split: option.split)

lemma coHost_amend: "coHost (amend_notes now o' e co) = coHost co"
  by (simp add: amend_notes_def host_frame Let_def)

lemma hrel_accept: "hrel co (accept_comp ops cfg now sess env o' idx ti co)"
proof -
  obtain ti2 co2 where p: "persist_once ops now o' (chContracts (tiChain (patch_ingest idx o' ti)) ! idx)
      (patch_ingest idx o' ti) (jump_note now cfg ti o' co) = (ti2, co2)" by fastforce
  have h: "hrel co co2"
    using hrel_persist [of "jump_note now cfg ti o' co" now o'] p by (metis snd_conv coHost_jump)
  have f: "hrel co (flushTickerLocked ops now t co')" if "coHost co' = coHost co2" for t co'
    using R_trans [OF h] hrel_flush [of co' now t] that by simp
  show ?thesis by (simp add: accept_comp_def p Let_def h f)
qed

lemma hrel_onOptComp: "hrel co (onOptComp ops cfg now sess env co)"
proof -
  have "hrel co (accept_comp ops cfg now sess env o' idx ti (amend_notes now o' e co))" for o' idx ti e
    using hrel_accept [of "amend_notes now o' e co"] by (simp add: coHost_amend)
  then show ?thesis
    by (auto simp: onOptComp_def Let_def R_refl host_frame hrel_accept split: option.split)
qed

lemma hrel_vendor: "hrel co (fst (ApplyVendorOI ops now t es co))"
proof -
  have "hrel co (flushTickerLocked ops now t' (co\<lparr>coTickers := ts\<rparr>))" for t' ts
    using hrel_flush [of "co\<lparr>coTickers := ts\<rparr>"] by simp
  then show ?thesis by (simp add: ApplyVendorOI_def Let_def R_refl on_diag_def split: option.split)
qed

lemma hrel_Dispatch: "hrel co (fst (snd (Dispatch ops cfg now sess env co)))"
proof -
  define c1 where "c1 = on_diag (latency (f64_of_int (wrap64 (UnixMilli now - eTS env))) \<circ> diag_event now (eType env)) co"
  define Q where "Q = (\<lambda>x :: session \<times> 'h core \<times> outbound list. R (coHost c1) (coHost (fst (snd x))))"
  have g: "Q (gated now sess env k c1)" if "\<And>c. coHost c = coHost c1 \<Longrightarrow> R (coHost c1) (coHost (fst (k c)))" for k
    using that by (simp add: Q_def gated_def requireHello_def host_frame R_refl)
  have sub: "coHost (fst (onSpotSub now env c)) = coHost c" "coHost (onStatus ops sess env c) = coHost c" for c
    by (simp_all add: onSpotSub_def onStatus_def Let_def host_frame split: option.split)
  have on: "Q (gated now sess env (onChain ops now env) c1)"
    "Q (gated now sess env (\<lambda>c. (onOptComp ops cfg now sess env c, [])) c1)"
    "Q (gated now sess env (\<lambda>c. (onSpot ops now sess env c, [])) c1)"
    "Q (gated now sess env (onSpotSub now env) c1)"
    "Q (gated now sess env (\<lambda>c. (edge_onSweepDone ops now sess env c, [])) c1)"
    "Q (gated now sess env (\<lambda>c. (c, [])) c1)"
    "Q (gated now sess env (\<lambda>c. (onStatus ops sess env c, [])) c1)"
    using hrel_onChain [of _ now env] hrel_onOptComp [of _ cfg now sess env] hrel_onSpot [of _ now sess env]
      hrel_onSweepDone [of _ now sess env]
    by (auto intro!: g simp: sub R_refl) metis+
  have r: "Q (onHello now sess env c1)" "Q (sess, c1, out)" "Q (sess, rejected c1, out)" for out
    by (simp_all add: Q_def onHello_def Let_def R_refl host_frame split: option.split)
  have "Q (Dispatch ops cfg now sess env co)"
    unfolding Dispatch_def Let_def c1_def [symmetric]
    by (simp only: if_split [where P = Q] on r simp_thms)
  then show ?thesis by (simp add: Q_def c1_def on_diag_def)
qed

lemma hrel_DispatchLine: "hrel co (fst (snd (DispatchLine ops cfg now sess line co)))"
  using hrel_Dispatch [of co cfg now sess]
  by (auto simp: DispatchLine_def R_refl on_diag_def split: sum.split prod.split) (metis fst_conv snd_conv)

end

end
