(* ===== verification/Sweep_Server.thy ===== *)
theory Sweep_Server
  imports Sweep_Policy Host Systems
begin

text \<open>
  Package \<^verbatim>\<open>edge\<close>, the ingest server (\<^verbatim>\<open>server.go\<close>), the journal (\<^verbatim>\<open>journal.go\<close>) and the replay
  loop of \<^verbatim>\<open>gexctl replay\<close>: one writer per connection with its own outbound sequence, the sweep
  roster and everything that changes it, the read model of the sweeper panel, and the
  per-connection read loop around the dispatcher of the core. The server is the host of the
  core: its roster hook is the \<^verbatim>\<open>sweepDoneHook\<close> the core calls. A connection is a number, its
  socket is the flag \<open>cwBroken\<close> (writes fail from then on) and the messages it has carried;
  Go's ranges over the connection map take an explicit order.
\<close>

section \<open>Journal\<close>

record journal_entry =
  jeDir :: string
  jeRecvMs :: int
  jeLine :: json

record journal =
  jnUp :: bool
  jnRecs :: "journal_entry list"

definition journal_Record :: "string \<Rightarrow> json \<Rightarrow> instant \<Rightarrow> journal option \<Rightarrow> journal option" where
  "journal_Record dir line now j =
     map_option (\<lambda>jn. if jnUp jn
       then jn\<lparr>jnRecs := jnRecs jn @ [\<lparr>jeDir = dir, jeRecvMs = UnixMilli now, jeLine = line\<rparr>]\<rparr> else jn) j"

section \<open>Connection writers\<close>

record conn_writer =
  cwSession :: string
  cwSeq :: int
  cwDead :: bool
  cwBroken :: bool
  cwOut :: "outbound list"

definition conn_send ::
  "instant \<Rightarrow> outbound \<Rightarrow> conn_writer \<Rightarrow> journal option \<Rightarrow> conn_writer \<times> journal option \<times> bool" where
  "conn_send now out cw j =
     (if cwDead cw then (cw, j, False)
      else
        let cw1 = cw\<lparr>cwSeq := cwSeq cw + 1\<rparr>;
            out1 = out\<lparr>oSeq := cwSeq cw1\<rparr>
        in case encodeOutbound out1 of
             None \<Rightarrow> (cw1, j, False)
           | Some b \<Rightarrow>
               if cwBroken cw1 then (cw1, j, False)
               else (cw1\<lparr>cwOut := cwOut cw1 @ [out1]\<rparr>, journal_Record ''out'' b now j, True))"

section \<open>The server\<close>

record 'h server =
  svHost :: 'h
  svRoster :: "sweep_entry list"
  svLastPass :: "string \<rightharpoonup> int"
  svConns :: "nat \<rightharpoonup> conn_writer"
  svJournal :: "journal option"
  svSessSeq :: nat

definition Listen :: "'h \<Rightarrow> journal option \<Rightarrow> 'h server" where
  "Listen h j = \<lparr>svHost = h, svRoster = [], svLastPass = Map.empty, svConns = Map.empty,
     svJournal = j, svSessSeq = 0\<rparr>"

definition send_to :: "instant \<Rightarrow> nat \<Rightarrow> outbound \<Rightarrow> 'h server \<Rightarrow> 'h server \<times> bool" where
  "send_to now cid out sv =
     (case svConns sv cid of
        None \<Rightarrow> (sv, False)
      | Some cw \<Rightarrow>
          (case conn_send now out cw (svJournal sv) of
             (cw', j, ok) \<Rightarrow> (sv\<lparr>svConns := (svConns sv)(cid \<mapsto> cw'), svJournal := j\<rparr>, ok)))"

definition SweepRoster :: "'h server \<Rightarrow> sweep_entry list" where
  "SweepRoster sv = svRoster sv"

definition sweep_set_msg :: "instant \<Rightarrow> sweep_entry list \<Rightarrow> outbound" where
  "sweep_set_msg now r = mk_out now TypeSweepSet 0 (SweepSetData r)"

definition pushSweepsTo :: "instant \<Rightarrow> nat \<Rightarrow> 'h server \<Rightarrow> 'h server \<times> bool" where
  "pushSweepsTo now cid sv = send_to now cid (sweep_set_msg now (SweepRoster sv)) sv"

definition pushSweeps :: "instant \<Rightarrow> nat list \<Rightarrow> 'h server \<Rightarrow> 'h server" where
  "pushSweeps now order sv =
     fold (\<lambda>cid s. fst (pushSweepsTo now cid s)) (filter (\<lambda>cid. \<not> Option.is_none (svConns sv cid)) order) sv"

definition SetSweeps ::
  "instant \<Rightarrow> nat list \<Rightarrow> string list \<Rightarrow> 'h server \<Rightarrow> sweep_error option \<times> 'h server" where
  "SetSweeps now order tickers sv =
     (case ValidateRoster (map (\<lambda>t. \<lparr>seTicker = t\<rparr>) tickers) of
        Inl e \<Rightarrow> (Some e, sv)
      | Inr roster \<Rightarrow>
          (case find (\<lambda>e. \<not> TickerAllowed (seTicker e) now) roster of
             Some e \<Rightarrow> (Some \<lparr>serTicker = seTicker e, serReason = Reason (seTicker e) now\<rparr>, sv)
           | None \<Rightarrow> (None, pushSweeps now order (sv\<lparr>svRoster := roster\<rparr>))))"

definition ClearSweeps :: "instant \<Rightarrow> nat list \<Rightarrow> 'h server \<Rightarrow> 'h server" where
  "ClearSweeps now order sv = snd (SetSweeps now order [] sv)"

definition onSweepDone :: "instant \<Rightarrow> nat list \<Rightarrow> sweep_done \<Rightarrow> 'h server \<Rightarrow> 'h server" where
  "onSweepDone now order ev sv =
     (let kept = filter (\<lambda>e. seTicker e \<noteq> sdTicker ev) (svRoster sv);
          dropped = (\<exists>e \<in> set (svRoster sv). seTicker e = sdTicker ev);
          sv1 = (if dropped then sv\<lparr>svRoster := kept\<rparr> else sv);
          sv2 = (if sdOk ev then sv1\<lparr>svLastPass := (svLastPass sv1)(sdTicker ev \<mapsto> UnixMilli now)\<rparr> else sv1)
      in if dropped then pushSweeps now order sv2 else sv2)"

definition EnforceSweepWindows :: "instant \<Rightarrow> nat list \<Rightarrow> 'h server \<Rightarrow> string list \<times> 'h server" where
  "EnforceSweepWindows now order sv =
     (let kept = filter (\<lambda>e. TickerAllowed (seTicker e) now) (svRoster sv);
          cleared = map seTicker (filter (\<lambda>e. \<not> TickerAllowed (seTicker e) now) (svRoster sv))
      in if cleared = [] then (cleared, sv)
         else (cleared, pushSweeps now order (sv\<lparr>svRoster := kept\<rparr>)))"

text \<open>The words the log uses.\<close>

definition doneWord :: "sweep_done \<Rightarrow> string" where
  "doneWord ev = (if sdOk ev then ''ok'' else ''stopped'')"

definition orUnknown :: "string \<Rightarrow> string" where
  "orUnknown reason = (if reason = [] then ''no reason given'' else reason)"

fun strings_Join :: "string \<Rightarrow> string list \<Rightarrow> string" where
  "strings_Join sep [] = []"
| "strings_Join sep [x] = x"
| "strings_Join sep (x # y # ys) = x @ sep @ strings_Join sep (y # ys)"

definition rosterString :: "sweep_entry list \<Rightarrow> string" where
  "rosterString r = strings_Join '', '' (map seTicker r)"

section \<open>The read model of the sweeper panel\<close>

record sweep_row =
  rwTicker :: string
  rwPending :: bool
  rwSweeping :: bool
  rwEstimate :: f64
  rwEstSeconds :: int
  rwAllowed :: bool
  rwReason :: string
  rwOpensAtMs :: int
  rwLastPassMs :: int

record sweep_edge_status =
  esConnected :: bool
  esSweepActive :: "string list"
  esLinesUsed :: int
  esMsgRate :: f64
  esSnapshotSpend :: f64

record master_log_info =
  mlEnabled :: bool
  mlPath :: string
  mlNextFlushMs :: int
  mlLastFlushMs :: int
  mlPendingRows :: int

record sweeps_view =
  vwEnabled :: bool
  vwMax :: nat
  vwRows :: "sweep_row list"
  vwEdge :: "sweep_edge_status option"
  vwMasterLog :: master_log_info

definition sweep_edge :: "status_ev \<Rightarrow> sweep_edge_status" where
  "sweep_edge st = \<lparr>esConnected = stConnected st, esSweepActive = stSweepActive st,
     esLinesUsed = stLinesUsed st, esMsgRate = stMsgRate st, esSnapshotSpend = stSnapshotSpend st\<rparr>"

definition sweep_row_for ::
  "sweep_entry list \<Rightarrow> (string \<rightharpoonup> int) \<Rightarrow> sweep_edge_status option \<Rightarrow> instant \<Rightarrow> string \<Rightarrow> sweep_row" where
  "sweep_row_for roster lastPass edge now t =
     (let allowed = TickerAllowed t now;
          pending = (t \<in> seTicker ` set roster)
      in \<lparr>rwTicker = t,
          rwPending = pending,
          rwSweeping = (pending \<and> (case edge of None \<Rightarrow> False | Some st \<Rightarrow> t \<in> set (esSweepActive st))),
          rwEstimate = (case SweepEstimate t of None \<Rightarrow> 0 | Some est \<Rightarrow> est),
          rwEstSeconds = (case SweepEstimate t of None \<Rightarrow> 0 | Some _ \<Rightarrow> SweepEstSeconds t),
          rwAllowed = allowed,
          rwReason = (if allowed then [] else Reason t now),
          rwOpensAtMs = (if allowed then 0 else UnixMilli (NextOpen t now)),
          rwLastPassMs = (case lastPass t of None \<Rightarrow> 0 | Some ms \<Rightarrow> ms)\<rparr>)"

definition SweepsView ::
  "string list \<Rightarrow> master_log_info \<Rightarrow> instant \<Rightarrow> 'h server core \<Rightarrow> sweeps_view" where
  "SweepsView tickers master now co =
     (let sv = coHost co; edge = map_option sweep_edge (LastStatus co)
      in \<lparr>vwEnabled = True, vwMax = SweepMaxTickers,
          vwRows = map (sweep_row_for (SweepRoster sv) (svLastPass sv) edge now) tickers,
          vwEdge = edge, vwMasterLog = master\<rparr>)"

section \<open>Connections\<close>

text \<open>The host operations of the core once the server has hooked itself in.\<close>

definition on_host :: "('h \<Rightarrow> 'h \<times> 'r) \<Rightarrow> 'h server \<Rightarrow> 'h server \<times> 'r" where
  "on_host f sv = (case f (svHost sv) of (h, r) \<Rightarrow> (sv\<lparr>svHost := h\<rparr>, r))"

definition server_ops :: "'h host_ops \<Rightarrow> instant \<Rightarrow> nat list \<Rightarrow> 'h server host_ops" where
  "server_ops ops now order =
     \<lparr>hoApplyChain = (\<lambda>sv s. on_host (\<lambda>h. hoApplyChain ops h s) sv),
      hoApplySpot = (\<lambda>sv t p ms. on_host (\<lambda>h. hoApplySpot ops h t p ms) sv),
      hoBaselineIV = (\<lambda>sv. hoBaselineIV ops (svHost sv)),
      hoLogs = map_option (\<lambda>f sv ls. on_host (\<lambda>h. f h ls) sv) (hoLogs ops),
      hoCons = map_option (\<lambda>f sv cs. on_host (\<lambda>h. f h cs) sv) (hoCons ops),
      hoPoints = map_option (\<lambda>f sv ps. on_host (\<lambda>h. f h ps) sv) (hoPoints ops),
      hoPoll = (\<lambda>sv. hoPoll ops (svHost sv)),
      hoSweepDone = Some (\<lambda>sv ev. onSweepDone now order ev sv)\<rparr>"

record 'h edge_sys =
  syCore :: "'h server core"
  sySess :: "nat \<rightharpoonup> session"

definition on_server :: "('h server \<Rightarrow> 'h server) \<Rightarrow> 'h server core \<Rightarrow> 'h server core" where
  "on_server f co = co\<lparr>coHost := f (coHost co)\<rparr>"

definition accept_conn :: "nat \<Rightarrow> string \<Rightarrow> 'h edge_sys \<Rightarrow> 'h edge_sys" where
  "accept_conn cid remote s =
     (let sv = coHost (syCore s);
          n = Suc (svSessSeq sv);
          sess = \<lparr>snID = CHR ''s'' # dec_nat n, snInstance = [], snRemote = remote, snHelloed = False\<rparr>;
          cw = \<lparr>cwSession = snID sess, cwSeq = 0, cwDead = False, cwBroken = False, cwOut = []\<rparr>
      in s\<lparr>syCore := on_diag diag_session (on_server (\<lambda>v. v\<lparr>svSessSeq := n, svConns := (svConns v)(cid \<mapsto> cw)\<rparr>) (syCore s)),
           sySess := (sySess s)(cid \<mapsto> sess)\<rparr>)"

definition close_conn :: "nat \<Rightarrow> 'h edge_sys \<Rightarrow> 'h edge_sys" where
  "close_conn cid s =
     s\<lparr>syCore := on_server (\<lambda>sv. sv\<lparr>svConns := (svConns sv)(cid := None)\<rparr>) (syCore s),
       sySess := (sySess s)(cid := None)\<rparr>"

fun send_all :: "instant \<Rightarrow> nat \<Rightarrow> outbound list \<Rightarrow> 'h server \<Rightarrow> 'h server \<times> bool" where
  "send_all now cid [] sv = (sv, True)"
| "send_all now cid (out # outs) sv =
     (case send_to now cid out sv of
        (sv', False) \<Rightarrow> (sv', False)
      | (sv', True) \<Rightarrow> send_all now cid outs sv')"

text \<open>The text of a decode error; the decoder's own words after a syntax error are left out.\<close>

definition dec_num :: "int \<Rightarrow> string" where
  "dec_num i = (if i < 0 then CHR ''-'' # dec_nat (nat (- i)) else dec_nat (nat i))"

fun wire_error_text :: "wire_error \<Rightarrow> string" where
  "wire_error_text BadJson = ''edge: bad envelope json''"
| "wire_error_text (BadVersion v) = ''edge: protocol version '' @ dec_num v @ '' (want '' @ dec_num ProtoVersion @ '')''"
| "wire_error_text NoType = ''edge: envelope without type''"
| "wire_error_text (BadSeq q) = ''edge: envelope seq '' @ dec_num q @ '' < 1''"

text \<open>
  One turn of the read loop of \<^verbatim>\<open>handleConn\<close>; the flag says whether the loop goes on. A line that
  is not JSON is \<^term>\<open>None\<close>.
\<close>

definition handle_line ::
  "'h host_ops \<Rightarrow> config \<Rightarrow> instant \<Rightarrow> nat list \<Rightarrow> nat \<Rightarrow> json option \<Rightarrow> session \<Rightarrow> 'h server core
   \<Rightarrow> session \<times> 'h server core \<times> bool" where
  "handle_line ops cfg now order cid line sess co =
     (case decodeEnvelope line of
        Inl e \<Rightarrow>
          (sess, on_server (\<lambda>sv. fst (send_to now cid (mk_out now TypeError 0
             (ErrorData \<lparr>emCode = ''bad_envelope'', emMessage = wire_error_text e\<rparr>)) sv))
             (on_diag (bumpMalformed now) co), True)
      | Inr env \<Rightarrow>
          let co1 = on_server (\<lambda>sv. sv\<lparr>svJournal := journal_Record ''in'' (the line) now (svJournal sv)\<rparr>) co;
              co2 = on_diag (\<lambda>d. fst (observeSeq now (eSeq env) d)) co1
          in case Dispatch (server_ops ops now order) cfg now sess env co2 of
               (sess', co3, outs) \<Rightarrow>
                 case send_all now cid outs (coHost co3) of
                   (sv, False) \<Rightarrow> (sess', co3\<lparr>coHost := sv\<rparr>, False)
                 | (sv, True) \<Rightarrow>
                     if eType env = TypeHello
                     then case pushSweepsTo now cid sv of (sv', ok) \<Rightarrow> (sess', co3\<lparr>coHost := sv'\<rparr>, ok)
                     else (sess', co3\<lparr>coHost := sv\<rparr>, True))"

definition recv_line ::
  "'h host_ops \<Rightarrow> config \<Rightarrow> instant \<Rightarrow> nat list \<Rightarrow> nat \<Rightarrow> json option \<Rightarrow> 'h edge_sys \<Rightarrow> 'h edge_sys" where
  "recv_line ops cfg now order cid line s =
     (case sySess s cid of
        None \<Rightarrow> s
      | Some sess \<Rightarrow>
          (case handle_line ops cfg now order cid line sess (syCore s) of
             (sess', co, goes_on) \<Rightarrow>
               let s' = s\<lparr>syCore := co, sySess := (sySess s)(cid \<mapsto> sess')\<rparr>
               in if goes_on then s' else close_conn cid s'))"

section \<open>Replay\<close>

text \<open>
  The loop of \<^verbatim>\<open>cmdReplay\<close> over the inbound records: each line is dispatched, then the clock is
  moved to the receive time of that record. A line that does not decode ends the replay.
\<close>

definition from_milli :: "int \<Rightarrow> instant" where
  "from_milli ms = ms * 10 ^ 6"

fun replay_loop ::
  "'h host_ops \<Rightarrow> config \<Rightarrow> instant \<Rightarrow> session \<Rightarrow> 'h core \<Rightarrow> journal_entry list \<Rightarrow> wire_error + session \<times> 'h core" where
  "replay_loop ops cfg clock sess co [] = Inr (sess, co)"
| "replay_loop ops cfg clock sess co (e # es) =
     (if jeDir e \<noteq> ''in'' then replay_loop ops cfg clock sess co es
      else case DispatchLine ops cfg clock sess (Some (jeLine e)) co of
             (sess', co', Some err) \<Rightarrow> Inl err
           | (sess', co', None) \<Rightarrow> replay_loop ops cfg (from_milli (jeRecvMs e)) sess' co' es)"

definition replay_session :: session where
  "replay_session = \<lparr>snID = ''replay'', snInstance = [], snRemote = [], snHelloed = False\<rparr>"

end
