(* ===== verification/Sweep_Server_Props.thy ===== *)
theory Sweep_Server_Props
  imports Sweep_Server
begin

text \<open>
  What the sweep control guarantees: the roster is capped and in normal form whatever
  happens, only an operator request inside the window can arm a pass, every connection is
  told the roster after a change and after a hello, and each connection carries one
  sequence of messages numbered without a gap.
\<close>

section \<open>Writers\<close>

definition healthy :: "conn_writer \<Rightarrow> bool" where
  "healthy cw \<longleftrightarrow> \<not> cwDead cw \<and> \<not> cwBroken cw"

definition seq_ok :: "conn_writer \<Rightarrow> bool" where
  "seq_ok cw \<longleftrightarrow> map oSeq (cwOut cw) = map int [1..<Suc (length (cwOut cw))] \<and>
     (healthy cw \<longrightarrow> cwSeq cw = int (length (cwOut cw)))"

definition capped :: "outbound \<Rightarrow> bool" where
  "capped out \<longleftrightarrow> (case oData out of SweepSetData r \<Rightarrow> wf_roster r | _ \<Rightarrow> True)"

definition wf_writer :: "conn_writer \<Rightarrow> bool" where
  "wf_writer cw \<longleftrightarrow> seq_ok cw \<and> (\<forall>out \<in> set (cwOut cw). capped out)"

lemma capped_seq [simp]: "capped (out\<lparr>oSeq := n\<rparr>) = capped out"
  by (simp add: capped_def)

lemma conn_send_healthy: "healthy (fst (conn_send now out cw j)) = healthy cw"
  by (simp add: conn_send_def healthy_def Let_def split: option.split)

text \<open>A message that is always encoded; a message that is not uses up a number and ends the connection.\<close>

definition encodes :: "outbound \<Rightarrow> bool" where
  "encodes out \<longleftrightarrow> (\<forall>n. encodeOutbound (out\<lparr>oSeq := n\<rparr>) \<noteq> None)"

lemma wf_writer_send:
  assumes "wf_writer cw" "capped out" "encodes out \<or> snd (snd (conn_send now out cw j))"
  shows "wf_writer (fst (conn_send now out cw j))"
proof (cases "healthy cw")
  case True
  have s: "map oSeq (cwOut cw) = map int [1..<Suc (length (cwOut cw))]" "cwSeq cw = int (length (cwOut cw))"
    using assms(1) True by (simp_all add: wf_writer_def seq_ok_def)
  have b: "encodeOutbound (out\<lparr>oSeq := cwSeq cw + 1\<rparr>) \<noteq> None"
  proof (cases "encodes out")
    case False
    then show ?thesis using assms(3) True by (auto simp: conn_send_def healthy_def Let_def split: option.splits)
  next
    case True
    then show ?thesis unfolding encodes_def by (rule spec)
  qed
  have "fst (conn_send now out cw j) = cw\<lparr>cwSeq := cwSeq cw + 1, cwOut := cwOut cw @ [out\<lparr>oSeq := cwSeq cw + 1\<rparr>]\<rparr>"
    using b True by (auto simp: conn_send_def healthy_def Let_def)
  then show ?thesis using assms(1,2) s by (auto simp: wf_writer_def seq_ok_def)
next
  case False
  then have "cwOut (fst (conn_send now out cw j)) = cwOut cw"
    by (auto simp: conn_send_def healthy_def Let_def split: option.split)
  then show ?thesis using assms(1) False conn_send_healthy [of now out cw j] by (simp add: wf_writer_def seq_ok_def)
qed

lemma sweep_set_encodes: "\<exists>b. encodeOutbound ((sweep_set_msg now r)\<lparr>oSeq := n\<rparr>) = Some b"
  by (simp add: encodeOutbound_def sweep_set_msg_def mk_out_def)

lemma sweep_set_encoded: "encodes (sweep_set_msg now r)"
  using sweep_set_encodes [where now = now and r = r] unfolding encodes_def by (metis option.discI)

lemma conn_send_sweep_set:
  assumes "healthy cw"
  shows "\<exists>cw' j'. conn_send now (sweep_set_msg now r) cw j = (cw', j', True) \<and> healthy cw' \<and>
    cwOut cw' = cwOut cw @ [(sweep_set_msg now r)\<lparr>oSeq := cwSeq cw + 1\<rparr>]"
  using assms sweep_set_encodes [where now = now and r = r and n = "cwSeq cw + 1"]
  by (auto simp: conn_send_def healthy_def Let_def)

section \<open>Servers\<close>

definition server_wf :: "'h server \<Rightarrow> bool" where
  "server_wf sv \<longleftrightarrow> wf_roster (svRoster sv) \<and> (\<forall>cid cw. svConns sv cid = Some cw \<longrightarrow> wf_writer cw)"

lemma send_to_frame:
  "svRoster (fst (send_to now cid out sv)) = svRoster sv" "svHost (fst (send_to now cid out sv)) = svHost sv"
  "svLastPass (fst (send_to now cid out sv)) = svLastPass sv"
  "dom (svConns (fst (send_to now cid out sv))) = dom (svConns sv)"
  by (auto simp: send_to_def split: option.split prod.split)

lemma send_to_other: "c \<noteq> cid \<Longrightarrow> svConns (fst (send_to now cid out sv)) c = svConns sv c"
  by (auto simp: send_to_def split: option.split prod.split)

lemma send_to_wf:
  assumes "server_wf sv" "capped out" "encodes out \<or> snd (send_to now cid out sv)"
  shows "server_wf (fst (send_to now cid out sv))"
proof (cases "svConns sv cid")
  case None
  with assms(1) show ?thesis by (simp add: send_to_def)
next
  case (Some cw)
  with assms(1) have w: "wf_writer cw" by (simp add: server_wf_def)
  have "encodes out \<or> snd (snd (conn_send now out cw (svJournal sv)))"
    using assms(3) by (simp add: send_to_def Some split: prod.splits)
  from wf_writer_send [OF w assms(2) this] show ?thesis
    using assms(1) Some by (auto simp: send_to_def server_wf_def split: prod.split)
qed

text \<open>A connection whose message failed is closed.\<close>

definition cut :: "nat \<Rightarrow> bool \<Rightarrow> 'h server \<Rightarrow> 'h server" where
  "cut cid ok sv = (if ok then sv else sv\<lparr>svConns := (svConns sv)(cid := None)\<rparr>)"

lemma cut_wf: "server_wf sv \<Longrightarrow> server_wf (cut cid ok sv)"
  by (simp add: cut_def server_wf_def)

lemma send_to_cut_wf:
  assumes "server_wf sv" "capped out"
  shows "server_wf (cut cid (snd (send_to now cid out sv)) (fst (send_to now cid out sv)))"
proof (cases "snd (send_to now cid out sv)")
  case True
  then show ?thesis using send_to_wf [OF assms] by (simp add: cut_def)
next
  case False
  have "wf_writer cw" if "svConns (fst (send_to now cid out sv)) c = Some cw" "c \<noteq> cid" for c cw
    using that assms(1) by (simp add: send_to_other server_wf_def)
  then show ?thesis using False assms(1) by (auto simp: cut_def server_wf_def send_to_frame split: if_splits)
qed

lemma capped_push: "wf_roster r \<Longrightarrow> capped (sweep_set_msg now r)"
  by (simp add: capped_def sweep_set_msg_def mk_out_def)

lemma pushSweepsTo_wf: "server_wf sv \<Longrightarrow> server_wf (fst (pushSweepsTo now cid sv))"
  unfolding pushSweepsTo_def by (rule send_to_wf) (simp_all add: SweepRoster_def capped_push server_wf_def sweep_set_encoded)

text \<open>What a sequence of pushes does, connection by connection.\<close>

definition told :: "sweep_entry list \<Rightarrow> conn_writer \<Rightarrow> bool" where
  "told r cw \<longleftrightarrow> cwOut cw \<noteq> [] \<and> oType (last (cwOut cw)) = TypeSweepSet \<and> oData (last (cwOut cw)) = SweepSetData r"

definition all_told :: "'h server \<Rightarrow> bool" where
  "all_told sv \<longleftrightarrow> (\<forall>cid cw. svConns sv cid = Some cw \<and> healthy cw \<longrightarrow> told (svRoster sv) cw)"

lemma pushSweepsTo_told:
  assumes "svConns sv cid = Some cw" "healthy cw"
  shows "\<exists>cw'. svConns (fst (pushSweepsTo now cid sv)) cid = Some cw' \<and> told (svRoster sv) cw' \<and> snd (pushSweepsTo now cid sv)"
proof -
  obtain cw' j' where "conn_send now (sweep_set_msg now (svRoster sv)) cw (svJournal sv) = (cw', j', True)"
    "cwOut cw' = cwOut cw @ [(sweep_set_msg now (svRoster sv))\<lparr>oSeq := cwSeq cw + 1\<rparr>]"
    using conn_send_sweep_set [OF assms(2)] by blast
  then show ?thesis
    by (simp add: pushSweepsTo_def send_to_def assms(1) SweepRoster_def told_def sweep_set_msg_def mk_out_def)
qed

definition push_fold :: "instant \<Rightarrow> nat list \<Rightarrow> 'h server \<Rightarrow> 'h server" where
  "push_fold now cids sv = fold (\<lambda>cid s. fst (pushSweepsTo now cid s)) cids sv"

lemma push_fold_Cons: "push_fold now (c # cs) sv = push_fold now cs (fst (pushSweepsTo now c sv))"
  by (simp add: push_fold_def)

lemma push_fold_frame:
  "svRoster (push_fold now cids sv) = svRoster sv" "svHost (push_fold now cids sv) = svHost sv"
  "svLastPass (push_fold now cids sv) = svLastPass sv" "dom (svConns (push_fold now cids sv)) = dom (svConns sv)"
  by (induction cids arbitrary: sv) (simp_all add: push_fold_def pushSweepsTo_def send_to_frame)

lemma push_fold_other: "c \<notin> set cids \<Longrightarrow> svConns (push_fold now cids sv) c = svConns sv c"
  by (induction cids arbitrary: sv) (simp_all add: push_fold_def pushSweepsTo_def send_to_other)

lemma push_fold_wf: "server_wf sv \<Longrightarrow> server_wf (push_fold now cids sv)"
  by (induction cids arbitrary: sv) (simp_all add: push_fold_def pushSweepsTo_wf)

lemma healthy_pushed:
  assumes "svConns (fst (pushSweepsTo now c sv)) c = Some cw'" "healthy cw'"
  shows "\<exists>cw. svConns sv c = Some cw \<and> healthy cw"
proof (cases "svConns sv c")
  case None
  with assms(1) show ?thesis by (simp add: pushSweepsTo_def send_to_def)
next
  case (Some cw)
  obtain w j ok where c: "conn_send now (sweep_set_msg now (SweepRoster sv)) cw (svJournal sv) = (w, j, ok)"
    by (metis prod_cases3)
  with assms(1) Some have "w = cw'" by (simp add: pushSweepsTo_def send_to_def)
  with conn_send_healthy [of now "sweep_set_msg now (SweepRoster sv)" cw "svJournal sv"] assms(2)
  show ?thesis by (simp add: Some c)
qed

lemma push_fold_told:
  assumes "distinct cids" "c \<in> set cids" "svConns (push_fold now cids sv) c = Some cw" "healthy cw"
  shows "told (svRoster sv) cw"
  using assms
proof (induction cids arbitrary: sv)
  case (Cons a cids)
  show ?case
  proof (cases "a = c")
    case True
    then have s: "svConns (fst (pushSweepsTo now c sv)) c = Some cw"
      using Cons.prems by (simp add: push_fold_Cons push_fold_other)
    obtain cw0 where "svConns sv c = Some cw0" "healthy cw0" using healthy_pushed [OF s Cons.prems(4)] by blast
    from pushSweepsTo_told [OF this, of now] s show ?thesis by simp
  next
    case False
    with Cons.prems have "told (svRoster (fst (pushSweepsTo now a sv))) cw"
      by (intro Cons.IH) (simp_all add: push_fold_Cons)
    then show ?thesis by (simp add: pushSweepsTo_def send_to_frame)
  qed
qed simp

lemma pushSweeps_fold:
  "pushSweeps now order sv = push_fold now (filter (\<lambda>c. \<not> Option.is_none (svConns sv c)) order) sv"
  by (simp add: pushSweeps_def push_fold_def)

lemmas pushSweeps_frame [simp] = push_fold_frame [of now "filter (\<lambda>c. \<not> Option.is_none (svConns sv c)) order" sv for now order sv,
  folded pushSweeps_fold]

lemma pushSweeps_wf: "server_wf sv \<Longrightarrow> server_wf (pushSweeps now order sv)"
  by (simp add: pushSweeps_fold push_fold_wf)

lemma pushSweeps_told:
  assumes "distinct order" "dom (svConns sv) \<subseteq> set order"
  shows "all_told (pushSweeps now order sv)"
proof -
  let ?cids = "filter (\<lambda>c. \<not> Option.is_none (svConns sv c)) order"
  have "told (svRoster sv) cw" if "svConns (push_fold now ?cids sv) c = Some cw" "healthy cw" for c cw
  proof (rule push_fold_told [OF _ _ that])
    show "distinct ?cids" using assms(1) by simp
    have "c \<in> dom (svConns (push_fold now ?cids sv))" using that(1) by blast
    then have "c \<in> dom (svConns sv)" by (simp only: push_fold_frame)
    then show "c \<in> set ?cids" using assms(2) by (auto simp: Option.is_none_def)
  qed
  then show ?thesis by (auto simp: all_told_def pushSweeps_fold push_fold_frame)
qed

section \<open>Operations on the roster\<close>

lemma ValidateRoster_wf: "ValidateRoster es = Inr r \<Longrightarrow> wf_roster r"
  using wf_roster_Normalize [of es] by (auto simp: ValidateRoster_def Let_def split: if_splits)

lemma server_wf_roster: "server_wf sv \<Longrightarrow> wf_roster r \<Longrightarrow> server_wf (sv\<lparr>svRoster := r\<rparr>)"
  by (simp add: server_wf_def)

lemma SetSweeps_wf: "server_wf sv \<Longrightarrow> server_wf (snd (SetSweeps now order ts sv))"
  by (auto simp: SetSweeps_def intro!: pushSweeps_wf server_wf_roster dest: ValidateRoster_wf
      split: sum.split option.split)

lemma Enforce_wf:
  assumes "server_wf sv" shows "server_wf (snd (EnforceSweepWindows now order sv))"
proof -
  have "wf_roster (filter P (svRoster sv))" for P
    using assms by (simp add: server_wf_def wf_roster_filter)
  with assms show ?thesis
    by (simp add: EnforceSweepWindows_def Let_def pushSweeps_wf server_wf_roster)
qed

lemma onSweepDone_roster:
  "svRoster (onSweepDone now order ev sv) = filter (\<lambda>e. seTicker e \<noteq> sdTicker ev) (svRoster sv)"
proof -
  have "filter (\<lambda>e. seTicker e \<noteq> sdTicker ev) (svRoster sv) = svRoster sv"
    if "\<forall>e \<in> set (svRoster sv). seTicker e \<noteq> sdTicker ev"
    using that by (simp add: filter_id_conv)
  then show ?thesis by (auto simp: onSweepDone_def Let_def)
qed

lemma onSweepDone_wf: "server_wf sv \<Longrightarrow> server_wf (onSweepDone now order ev sv)"
proof -
  assume w: "server_wf sv"
  have "server_wf (sv\<lparr>svRoster := filter P (svRoster sv), svLastPass := lp\<rparr>)" "server_wf (sv\<lparr>svLastPass := lp\<rparr>)"
    "server_wf (sv\<lparr>svRoster := filter P (svRoster sv)\<rparr>)" for P lp
    using w wf_roster_filter by (auto simp: server_wf_def)
  with w show ?thesis by (simp add: onSweepDone_def Let_def pushSweeps_wf)
qed

section \<open>The server as host of the core\<close>

text \<open>Whatever the core does to its host keeps the server well formed and can only shrink the roster.\<close>

definition sweep_shrinks :: "'h server \<Rightarrow> 'h server \<Rightarrow> bool" where
  "sweep_shrinks sv sv' \<longleftrightarrow> (server_wf sv \<longrightarrow> server_wf sv') \<and> (\<exists>P. svRoster sv' = filter P (svRoster sv))"

lemma sweep_shrinks_refl: "sweep_shrinks sv sv"
  by (auto simp: sweep_shrinks_def intro: exI [of _ "\<lambda>_. True"])

lemma sweep_shrinks_trans: "sweep_shrinks a b \<Longrightarrow> sweep_shrinks b c \<Longrightarrow> sweep_shrinks a c"
  unfolding sweep_shrinks_def by (metis filter_filter)

lemma sweep_shrinks_same:
  "svRoster sv' = svRoster sv \<Longrightarrow> (server_wf sv \<Longrightarrow> server_wf sv') \<Longrightarrow> sweep_shrinks sv sv'"
  by (auto simp: sweep_shrinks_def intro: exI [of _ "\<lambda>_. True"])

lemma on_host_shrinks: "sweep_shrinks sv (fst (on_host f sv))"
  by (rule sweep_shrinks_same) (auto simp: on_host_def server_wf_def split: prod.split)

lemma onSweepDone_shrinks: "sweep_shrinks sv (onSweepDone now order ev sv)"
  unfolding sweep_shrinks_def using onSweepDone_wf onSweepDone_roster by blast

interpretation srv: host_relation "server_ops ops now order" sweep_shrinks for ops now order
  by unfold_locales
    (auto simp: server_ops_def sweep_shrinks_refl on_host_shrinks onSweepDone_shrinks intro: sweep_shrinks_trans)

section \<open>A turn of the read loop\<close>

definition plain :: "outbound \<Rightarrow> bool" where
  "plain out \<longleftrightarrow> (\<nexists>r. oData out = SweepSetData r)"

lemma plain_capped: "plain out \<Longrightarrow> capped out"
  by (auto simp: plain_def capped_def split: out_data.split)

lemma Dispatch_plain: "\<forall>out \<in> set (snd (snd (Dispatch ops cfg now sess env co))). plain out"
proof -
  define Q where "Q = (\<lambda>x :: session \<times> 'a core \<times> outbound list. \<forall>out \<in> set (snd (snd x)). plain out)"
  define c1 where "c1 = on_diag (latency (f64_of_int (wrap64 (UnixMilli now - eTS env))) \<circ> diag_event now (eType env)) co"
  have e: "plain (errorReply now env a b)" "plain (mk_out now TypePong 0 NoData)" for a b
    by (simp_all add: errorReply_def mk_out_def plain_def)
  have g: "Q (gated now sess env k c1)" if "\<And>c. \<forall>out \<in> set (snd (k c)). plain out" for k
    using that by (auto simp: Q_def gated_def split: prod.split bool.split)
  have on: "\<forall>out \<in> set (snd (onChain ops now env c)). plain out" "\<forall>out \<in> set (snd (onSpotSub now env c)). plain out" for c
    by (auto simp: onChain_def onSpotSub_def Let_def e plain_def mk_out_def errorReply_def
        split: option.split sum.split prod.split bool.split)
  have gs: "Q (gated now sess env (onChain ops now env) c1)" "Q (gated now sess env (onSpotSub now env) c1)"
    "Q (gated now sess env (\<lambda>c. (f c, [])) c1)" for f
    by (rule g, use on in simp)+
  have r: "Q (onHello now sess env c1)" "Q (sess, c1, [mk_out now TypePong 0 NoData])" "Q (sess, c1, [])"
    "Q (sess, rejected c1, [errorReply now env a b])" for a b
    by (auto simp: Q_def onHello_def Let_def e plain_def mk_out_def errorReply_def split: option.split)
  have "Q (Dispatch ops cfg now sess env co)"
    unfolding Dispatch_def Let_def c1_def [symmetric]
    by (simp only: if_split [where P = Q] gs r simp_thms)
  then show ?thesis by (simp only: Q_def)
qed

lemma send_to_shrinks: "capped out \<Longrightarrow> encodes out \<Longrightarrow> sweep_shrinks sv (fst (send_to now cid out sv))"
  by (rule sweep_shrinks_same) (simp_all add: send_to_frame send_to_wf)

lemma cut_shrinks: "sweep_shrinks sv (cut cid ok sv)"
  by (rule sweep_shrinks_same) (simp_all add: cut_wf, simp add: cut_def)

lemma send_all_shrinks:
  "\<forall>out \<in> set outs. capped out \<Longrightarrow> sweep_shrinks sv (cut cid (snd (send_all now cid outs sv)) (fst (send_all now cid outs sv)))"
proof (induction outs arbitrary: sv)
  case (Cons out outs)
  then have c: "capped out" by simp
  let ?r = "send_to now cid out sv"
  have "sweep_shrinks sv (cut cid (snd ?r) (fst ?r))"
    by (rule sweep_shrinks_same) (simp_all add: send_to_cut_wf c, simp add: cut_def send_to_frame)
  moreover have "sweep_shrinks (fst ?r) (cut cid (snd (send_all now cid outs (fst ?r))) (fst (send_all now cid outs (fst ?r))))"
    using Cons by simp
  ultimately show ?case
    by (cases ?r; cases "snd ?r") (auto simp: cut_def [of _ True] cut_def [of _ False] intro: sweep_shrinks_trans)
qed (simp add: sweep_shrinks_refl cut_def)

lemma pushSweepsTo_shrinks: "sweep_shrinks sv (fst (pushSweepsTo now cid sv))"
proof (rule sweep_shrinks_same)
  show "svRoster (fst (pushSweepsTo now cid sv)) = svRoster sv" by (simp add: pushSweepsTo_def send_to_frame)
qed (rule pushSweepsTo_wf)

lemma error_encodes: "encodes (mk_out now typ i (ErrorData e))"
  by (simp add: encodes_def encodeOutbound_def mk_out_def)

lemma handle_line_shrinks:
  assumes "handle_line ops cfg now order cid line sess co = (sess', co', ok)"
  shows "sweep_shrinks (coHost co) (cut cid ok (coHost co'))"
proof (cases "decodeEnvelope line")
  case (Inl e)
  then show ?thesis using assms
    by (auto simp: handle_line_def on_server_def on_diag_def cut_def capped_def mk_out_def
        intro!: send_to_shrinks error_encodes [unfolded mk_out_def])
next
  case (Inr env)
  define co2 where "co2 = on_diag (\<lambda>d. fst (observeSeq now (eSeq env) d))
    (on_server (\<lambda>sv. sv\<lparr>svJournal := journal_Record ''in'' (the line) now (svJournal sv)\<rparr>) co)"
  obtain sess3 co3 outs where d: "Dispatch (server_ops ops now order) cfg now sess env co2 = (sess3, co3, outs)"
    by (metis prod_cases3)
  obtain sv sent where a: "send_all now cid outs (coHost co3) = (sv, sent)" by fastforce
  have "sweep_shrinks (coHost co) (coHost co2)"
    by (rule sweep_shrinks_same) (simp_all add: co2_def on_server_def on_diag_def server_wf_def)
  moreover have "sweep_shrinks (coHost co2) (coHost co3)"
    using srv.hrel_Dispatch [of co2 ops now order cfg now sess env] d by simp
  moreover have "sweep_shrinks (coHost co3) (cut cid sent sv)"
    using send_all_shrinks [of outs "coHost co3" cid now] a d plain_capped
      Dispatch_plain [of "server_ops ops now order" cfg now sess env co2] by fastforce
  ultimately have s: "sweep_shrinks (coHost co) (cut cid sent sv)" by (blast intro: sweep_shrinks_trans)
  have p: "sweep_shrinks sv (cut cid b (fst (pushSweepsTo now cid sv)))" for b
    by (rule sweep_shrinks_trans [OF pushSweepsTo_shrinks cut_shrinks])
  show ?thesis
  proof (cases sent)
    case True
    then have "sweep_shrinks (coHost co) sv" using s by (simp add: cut_def)
    then have "sweep_shrinks (coHost co) sv" "sweep_shrinks (coHost co) (cut cid b (fst (pushSweepsTo now cid sv)))" for b
      using p by (blast intro: sweep_shrinks_trans)+
    then have "sweep_shrinks (coHost co) sv" "sweep_shrinks (coHost co) (cut cid (snd (pushSweepsTo now cid sv)) (fst (pushSweepsTo now cid sv)))"
      by blast+
    moreover have "handle_line ops cfg now order cid line sess co = (if eType env = TypeHello
        then (sess3, co3\<lparr>coHost := fst (pushSweepsTo now cid sv)\<rparr>, snd (pushSweepsTo now cid sv))
        else (sess3, co3\<lparr>coHost := sv\<rparr>, True))"
      using Inr d a True by (simp add: handle_line_def Let_def co2_def [symmetric] split: prod.split)
    ultimately show ?thesis using assms by (auto simp: cut_def [of _ True] split: if_splits)
  next
    case False
    then show ?thesis using s assms Inr d a
      by (auto simp: handle_line_def Let_def co2_def [symmetric] cut_def)
  qed
qed

section \<open>The edge system\<close>

text \<open>
  Connections come, send lines, break and go; the operator sets the roster, the monitor
  enforces the windows, the core flushes and the vendor refreshes, in any order.
\<close>

inductive edge_step :: "'h host_ops \<Rightarrow> config \<Rightarrow> 'h edge_sys \<Rightarrow> 'h edge_sys \<Rightarrow> bool" for ops cfg where
  accept: "edge_step ops cfg s (accept_conn cid remote s)"
| recv: "edge_step ops cfg s (recv_line ops cfg now order cid line s)"
| hangup: "edge_step ops cfg s (close_conn cid s)"
| broken: "svConns (coHost (syCore s)) cid = Some cw \<Longrightarrow> edge_step ops cfg s
    (s\<lparr>syCore := on_server (\<lambda>sv. sv\<lparr>svConns := (svConns sv)(cid \<mapsto> cw\<lparr>cwBroken := True\<rparr>)\<rparr>) (syCore s)\<rparr>)"
| operator: "edge_step ops cfg s (s\<lparr>syCore := on_server (\<lambda>sv. snd (SetSweeps now order ts sv)) (syCore s)\<rparr>)"
| monitor: "edge_step ops cfg s (s\<lparr>syCore := on_server (\<lambda>sv. snd (EnforceSweepWindows now order sv)) (syCore s)\<rparr>)"
| tick: "edge_step ops cfg s (s\<lparr>syCore := Run_tick (server_ops ops now cids) now order (syCore s)\<rparr>)"
| vendor: "edge_step ops cfg s (s\<lparr>syCore := fst (ApplyVendorOI (server_ops ops now cids) now t es (syCore s))\<rparr>)"

inductive_cases edge_stepE: "edge_step ops cfg s t"

definition edge_start :: "'h edge_sys \<Rightarrow> bool" where
  "edge_start s \<longleftrightarrow> (\<exists>h j d. s = \<lparr>syCore = NewCore (Listen h j) d, sySess = Map.empty\<rparr>)"

interpretation edg: transition_system edge_start "edge_step ops cfg" for ops cfg .

abbreviation server_of :: "'h edge_sys \<Rightarrow> 'h server" where
  "server_of s \<equiv> coHost (syCore s)"

lemma close_shrinks: "sweep_shrinks (server_of s) (server_of (close_conn cid s))"
  by (rule sweep_shrinks_same) (auto simp: close_conn_def on_server_def server_wf_def split: if_splits)

lemma recv_shrinks: "sweep_shrinks (server_of s) (server_of (recv_line ops cfg now order cid line s))"
proof (cases "sySess s cid")
  case None
  then show ?thesis by (simp add: recv_line_def sweep_shrinks_refl)
next
  case (Some sess)
  obtain sess' co ok where h: "handle_line ops cfg now order cid line sess (syCore s) = (sess', co, ok)"
    by (metis prod_cases3)
  let ?s = "s\<lparr>syCore := co, sySess := (sySess s)(cid \<mapsto> sess')\<rparr>"
  have "sweep_shrinks (server_of s) (cut cid ok (coHost co))" using handle_line_shrinks [OF h] by simp
  moreover have "cut cid False (coHost co) = server_of (close_conn cid ?s)" by (simp add: cut_def close_conn_def on_server_def)
  ultimately show ?thesis by (cases ok) (simp_all add: recv_line_def Some h Let_def cut_def)
qed

lemma accept_shrinks: "sweep_shrinks (server_of s) (server_of (accept_conn cid remote s))"
  by (rule sweep_shrinks_same)
    (auto simp: accept_conn_def Let_def on_server_def on_diag_def server_wf_def wf_writer_def seq_ok_def split: if_splits)

lemma Enforce_roster:
  "svRoster (snd (EnforceSweepWindows now order sv)) = filter (\<lambda>e. TickerAllowed (seTicker e) now) (svRoster sv)"
proof -
  have "filter (\<lambda>e. TickerAllowed (seTicker e) now) (svRoster sv) = svRoster sv"
    if "filter (\<lambda>e. \<not> TickerAllowed (seTicker e) now) (svRoster sv) = []"
    using that by (simp add: filter_empty_conv filter_id_conv)
  then show ?thesis by (simp add: EnforceSweepWindows_def Let_def)
qed

lemma edge_step_roster:
  assumes "edge_step ops cfg s t"
  shows "sweep_shrinks (server_of s) (server_of t) \<or>
    (\<exists>now order ts. server_of t = snd (SetSweeps now order ts (server_of s)))"
  using assms
proof (cases rule: edge_step.cases)
  case (monitor now order)
  then have "sweep_shrinks (server_of s) (server_of t)"
    using Enforce_wf [of "server_of s" now order] Enforce_roster [of now order "server_of s"]
    by (auto simp: sweep_shrinks_def on_server_def)
  then show ?thesis ..
next
  case (broken cid cw)
  then have "sweep_shrinks (server_of s) (server_of t)"
    by (intro sweep_shrinks_same) (auto simp: on_server_def server_wf_def wf_writer_def seq_ok_def healthy_def split: if_splits)
  then show ?thesis ..
qed (auto simp: on_server_def accept_shrinks recv_shrinks close_shrinks srv.hrel_tick srv.hrel_vendor)

lemma edge_wf: assumes "edg.reachable ops cfg s" shows "server_wf (server_of s)"
proof (rule edg.invariant [OF assms])
  fix s :: "'a edge_sys" assume "edge_start s"
  then show "server_wf (server_of s)" by (auto simp: edge_start_def NewCore_def Listen_def server_wf_def)
next
  fix s t assume w: "server_wf (server_of s)" and "edge_step ops cfg s t"
  from edge_step_roster [OF this(2)] show "server_wf (server_of t)"
    using w SetSweeps_wf by (auto simp: sweep_shrinks_def)
qed

section \<open>Properties\<close>

text \<open>A demonstration: one connection has been accepted, nothing has been asked for yet.\<close>

definition unit_ops :: "unit host_ops" where
  "unit_ops = \<lparr>hoApplyChain = (\<lambda>h s. (h, True)), hoApplySpot = (\<lambda>h t p ms. (h, True)),
     hoBaselineIV = (\<lambda>h t. None), hoLogs = None, hoCons = None, hoPoints = None,
     hoPoll = (\<lambda>h ch. None), hoSweepDone = None\<rparr>"

definition unit_cfg :: config where
  "unit_cfg = withDefaults \<lparr>cfFlushEvery = 0, cfFlushPatches = 0, cfIVJumpRel = 0\<rparr>"

definition boot_sys :: "unit edge_sys" where
  "boot_sys = \<lparr>syCore = NewCore (Listen () None) (newDiagnostics 0), sySess = Map.empty\<rparr>"

definition one_conn :: "unit edge_sys" where
  "one_conn = accept_conn 7 ''local'' boot_sys"

definition demo_writer :: conn_writer where
  "demo_writer = \<lparr>cwSession = ''s1'', cwSeq = 0, cwDead = False, cwBroken = False, cwOut = []\<rparr>"

definition friday_noon :: instant where
  "friday_noon = day_of_civil 2026 10 30 * day_ns + 16 * hour_ns"

lemma one_conn_server:
  "server_of one_conn = (Listen () None)\<lparr>svSessSeq := 1, svConns := [7 \<mapsto> demo_writer]\<rparr>"
proof -
  have "dec_nat 1 = ''1''" by code_simp
  then show ?thesis
    by (simp add: one_conn_def boot_sys_def accept_conn_def Let_def on_server_def on_diag_def NewCore_def
        Listen_def demo_writer_def)
qed

lemma demo_healthy: "healthy demo_writer"
  by (simp add: healthy_def demo_writer_def)

lemma one_conn_reachable: "edg.reachable unit_ops unit_cfg one_conn"
  unfolding one_conn_def
  by (rule edg.reachable.move [OF edg.reachable.start edge_step.accept]) (auto simp: edge_start_def boot_sys_def)

lemma friday_noon_open: "TickerAllowed ''TSLA'' friday_noon" "TickerAllowed ''SPX'' friday_noon"
  by code_simp+

definition armed_sys :: "unit edge_sys" where
  "armed_sys = one_conn\<lparr>syCore := on_server (\<lambda>sv. snd (SetSweeps friday_noon [7] [''tsla''] sv)) (syCore one_conn)\<rparr>"

lemma armed_reachable: "edg.reachable unit_ops unit_cfg armed_sys"
  unfolding armed_sys_def by (rule edg.reachable.move [OF one_conn_reachable edge_step.operator])

lemma armed_roster: "svRoster (server_of armed_sys) = [\<lparr>seTicker = ''TSLA''\<rparr>]"
proof -
  have "ValidateRoster [\<lparr>seTicker = ''tsla''\<rparr>] = Inr [\<lparr>seTicker = ''TSLA''\<rparr>]" by code_simp
  then show ?thesis
    by (simp add: armed_sys_def on_server_def SetSweeps_def friday_noon_open)
qed

text \<open>
  Property C4. At every moment of a run -- connections, lines, breaks, operator requests,
  window checks, flushes and vendor refreshes in any order -- the roster holds at most two
  distinct tickers in normal form, every roster ever written to a connection did too, and
  the messages written to a connection carry the numbers one, two, three and so on without
  a gap: a message that cannot be encoded uses up a number, but the connection ends with it.
\<close>

theorem sweep_roster_safe:
  assumes "edg.reachable ops cfg s"
  shows "wf_roster (svRoster (coHost (syCore s))) \<and>
    (\<forall>cid cw. svConns (coHost (syCore s)) cid = Some cw \<longrightarrow>
       map oSeq (cwOut cw) = map int [1..<Suc (length (cwOut cw))] \<and>
       (\<forall>out \<in> set (cwOut cw). \<forall>r. oData out = SweepSetData r \<longrightarrow> wf_roster r))"
proof -
  have "server_wf (server_of s)" using assms by (rule edge_wf)
  then show ?thesis by (fastforce simp: server_wf_def wf_writer_def seq_ok_def capped_def)
qed

theorem sweep_roster_safe_witness:
  "wf_roster (svRoster (coHost (syCore armed_sys))) \<and> svRoster (coHost (syCore armed_sys)) \<noteq> [] \<and>
    (\<exists>cw. svConns (coHost (syCore armed_sys)) 7 = Some cw \<and> map oSeq (cwOut cw) = [1])"
proof -
  have v: "ValidateRoster [\<lparr>seTicker = ''tsla''\<rparr>] = Inr [\<lparr>seTicker = ''TSLA''\<rparr>]" by code_simp
  obtain cw j where c: "conn_send friday_noon (sweep_set_msg friday_noon [\<lparr>seTicker = ''TSLA''\<rparr>]) demo_writer None = (cw, j, True)"
    "cwOut cw = [(sweep_set_msg friday_noon [\<lparr>seTicker = ''TSLA''\<rparr>])\<lparr>oSeq := 1\<rparr>]"
    using conn_send_sweep_set [of demo_writer friday_noon "[\<lparr>seTicker = ''TSLA''\<rparr>]" None] by (auto simp: healthy_def demo_writer_def)
  then have "svConns (coHost (syCore armed_sys)) 7 = Some cw"
    by (simp add: armed_sys_def on_server_def SetSweeps_def friday_noon_open v one_conn_server Listen_def pushSweeps_def
        pushSweepsTo_def send_to_def SweepRoster_def Option.is_none_def)
  moreover have "length (cwOut cw) = 1" by (simp add: c)
  ultimately show ?thesis using sweep_roster_safe [OF armed_reachable] by (simp add: armed_roster)
qed

text \<open>
  Property C6. Nothing but an operator request arms a pass: a ticker that appears in the
  roster in one step was asked for in a request that was accepted, at an instant at which
  its window was open. No line an edge sends, no reconnect, flush or window check can do it.
\<close>

theorem only_operator_arms:
  assumes "edge_step ops cfg s t" "e \<in> set (svRoster (coHost (syCore t)))" "e \<notin> set (svRoster (coHost (syCore s)))"
  shows "\<exists>now order ts. SetSweeps now order ts (coHost (syCore s)) = (None, coHost (syCore t)) \<and>
    seTicker e \<in> (\<lambda>t. ToUpper (TrimSpace t)) ` set ts \<and> TickerAllowed (seTicker e) now"
proof -
  have "\<not> sweep_shrinks (server_of s) (server_of t)" using assms(2,3) by (auto simp: sweep_shrinks_def)
  then obtain now order ts where t: "server_of t = snd (SetSweeps now order ts (server_of s))"
    using edge_step_roster [OF assms(1)] by blast
  obtain r where v: "ValidateRoster (map (\<lambda>t. \<lparr>seTicker = t\<rparr>) ts) = Inr r"
    and f: "find (\<lambda>e. \<not> TickerAllowed (seTicker e) now) r = None"
    and p: "server_of t = pushSweeps now order ((server_of s)\<lparr>svRoster := r\<rparr>)"
    using t assms(2,3) by (auto simp: SetSweeps_def split: sum.splits option.splits)
  have e: "e \<in> set r" using assms(2) by (simp add: p)
  then have "TickerAllowed (seTicker e) now" using f by (auto simp: find_None_iff)
  moreover have "seTicker e \<in> set (asked (map (\<lambda>t. \<lparr>seTicker = t\<rparr>) ts))"
    using v e by (auto simp: ValidateRoster_asked sweep_entry.defs)
  then have "seTicker e \<in> (\<lambda>t. ToUpper (TrimSpace t)) ` set ts"
    by (auto simp: asked_def set_firsts roster_key_def)
  moreover have "SetSweeps now order ts (server_of s) = (None, server_of t)"
    using v f p by (simp add: SetSweeps_def)
  ultimately show ?thesis by blast
qed

theorem only_operator_arms_witness:
  "\<exists>now order ts. SetSweeps now order ts (coHost (syCore one_conn)) = (None, coHost (syCore armed_sys)) \<and>
    ''TSLA'' \<in> (\<lambda>t. ToUpper (TrimSpace t)) ` set ts \<and> TickerAllowed ''TSLA'' now"
proof -
  have "edge_step unit_ops unit_cfg one_conn armed_sys" unfolding armed_sys_def by (rule edge_step.operator)
  moreover have "\<lparr>seTicker = ''TSLA''\<rparr> \<in> set (svRoster (coHost (syCore armed_sys)))" by (simp add: armed_roster)
  moreover have "\<lparr>seTicker = ''TSLA''\<rparr> \<notin> set (svRoster (coHost (syCore one_conn)))"
    by (simp add: one_conn_server Listen_def)
  ultimately show ?thesis using only_operator_arms by fastforce
qed

text \<open>
  Property C18. A roster request is refused with a reason and changes nothing, or it installs
  exactly what was asked for, every ticker inside its window, and every connection that can
  be written to is told that roster; the kill request always empties the roster.
\<close>

theorem set_sweeps_outcome:
  assumes "distinct order" "set order = dom (svConns sv)"
  shows "(case SetSweeps now order ts sv of
      (Some e, sv') \<Rightarrow> sv' = sv \<and> serReason e \<noteq> []
    | (None, sv') \<Rightarrow>
        map seTicker (svRoster sv') = asked (map (\<lambda>t. \<lparr>seTicker = t\<rparr>) ts) \<and>
        (\<forall>e \<in> set (svRoster sv'). TickerAllowed (seTicker e) now) \<and> all_told sv' \<and>
        svHost sv' = svHost sv \<and> svLastPass sv' = svLastPass sv) \<and>
    svRoster (ClearSweeps now order sv) = [] \<and> all_told (ClearSweeps now order sv)"
proof -
  have told: "all_told (pushSweeps now order (sv\<lparr>svRoster := r\<rparr>))" for r
    using assms by (intro pushSweeps_told) simp_all
  have "ValidateRoster [] = Inr []" by code_simp
  then have clear: "ClearSweeps now order sv = pushSweeps now order (sv\<lparr>svRoster := []\<rparr>)"
    by (simp add: ClearSweeps_def SetSweeps_def)
  have why: "Reason t now \<noteq> []" if "\<not> TickerAllowed t now" for t
    using that by (auto simp: TickerAllowed_def Reason_def Let_def not_le not_less split: if_splits)
  show ?thesis
  proof (cases "ValidateRoster (map (\<lambda>t. \<lparr>seTicker = t\<rparr>) ts)")
    case (Inl e)
    then have "serReason e \<noteq> []" by (auto simp: ValidateRoster_def Let_def split: if_splits)
    with Inl show ?thesis by (simp add: SetSweeps_def clear told)
  next
    case (Inr r)
    then have r: "map seTicker r = asked (map (\<lambda>t. \<lparr>seTicker = t\<rparr>) ts)"
      by (simp only: ValidateRoster_asked map_make)
    show ?thesis
    proof (cases "find (\<lambda>e. \<not> TickerAllowed (seTicker e) now) r")
      case None
      then have "\<forall>e \<in> set r. TickerAllowed (seTicker e) now" by (auto simp: find_None_iff)
      with None Inr r show ?thesis by (simp add: SetSweeps_def clear told)
    next
      case (Some e)
      then have "\<not> TickerAllowed (seTicker e) now" by (auto simp: find_Some_iff)
      with Some Inr show ?thesis by (simp add: SetSweeps_def clear told why)
    qed
  qed
qed

theorem set_sweeps_outcome_witness:
  "svRoster (ClearSweeps friday_noon [7] (coHost (syCore armed_sys))) = [] \<and>
   all_told (ClearSweeps friday_noon [7] (coHost (syCore armed_sys)))"
proof -
  have "dom (svConns (server_of armed_sys)) = {7}"
    by (simp add: armed_sys_def on_server_def SetSweeps_def one_conn_server Listen_def split: sum.split option.split)
  then show ?thesis using set_sweeps_outcome [of "[7]" "server_of armed_sys" _ friday_noon] by simp
qed

text \<open>
  Fact. The window check is a sticky shutoff: it keeps exactly the entries whose window
  is open, reports the others, tells every connection when it dropped any and does nothing
  otherwise; what it dropped comes back only by a later accepted request.
\<close>

theorem shutoff_sticky:
  assumes "distinct order" "set order = dom (svConns sv)"
  shows "case EnforceSweepWindows now order sv of (cleared, sv') \<Rightarrow>
      svRoster sv' = filter (\<lambda>e. TickerAllowed (seTicker e) now) (svRoster sv) \<and>
      set cleared = {t \<in> seTicker ` set (svRoster sv). \<not> TickerAllowed t now} \<and>
      (if cleared = [] then sv' = sv else all_told sv')"
proof -
  let ?kept = "filter (\<lambda>e. TickerAllowed (seTicker e) now) (svRoster sv)"
  have "all_told (pushSweeps now order (sv\<lparr>svRoster := ?kept\<rparr>))"
    using assms by (intro pushSweeps_told) simp_all
  moreover have "?kept = svRoster sv" if "filter (\<lambda>e. \<not> TickerAllowed (seTicker e) now) (svRoster sv) = []"
    using that by (simp add: filter_empty_conv filter_id_conv)
  ultimately show ?thesis by (auto simp: EnforceSweepWindows_def Let_def filter_empty_conv)
qed

theorem shutoff_sticky_witness:
  "svRoster (snd (EnforceSweepWindows friday_close [7] (coHost (syCore armed_sys)))) = []"
proof -
  have "dom (svConns (server_of armed_sys)) = {7}"
    by (simp add: armed_sys_def on_server_def SetSweeps_def one_conn_server Listen_def split: sum.split option.split)
  then show ?thesis
    using shutoff_sticky [of "[7]" "server_of armed_sys" friday_close]
    by (simp add: armed_roster friday_close_blocked split: prod.splits)
qed

lemma send_healthy:
  assumes "svConns sv cid = Some cw" "healthy cw" "\<And>n. \<exists>b. encodeOutbound (out\<lparr>oSeq := n\<rparr>) = Some b"
  shows "\<exists>sv' cw'. send_to now cid out sv = (sv', True) \<and> svConns sv' cid = Some cw' \<and> healthy cw' \<and> svRoster sv' = svRoster sv"
  using assms(1,2) assms(3) [of "cwSeq cw + 1"]
  by (auto simp: send_to_def conn_send_def healthy_def Let_def)

lemma onHello_reply:
  "\<exists>sess' co' out. onHello now sess env co = (sess', co', [out]) \<and> coHost co' = coHost co \<and>
     (\<forall>n. \<exists>b. encodeOutbound (out\<lparr>oSeq := n\<rparr>) = Some b)"
  by (auto simp: onHello_def Let_def rejected_def on_diag_def encodeOutbound_def mk_out_def errorReply_def split: option.split)

lemma Dispatch_hello:
  assumes "eType env = TypeHello"
  shows "\<exists>sess' co' out. Dispatch ops cfg now sess env co = (sess', co', [out]) \<and> coHost co' = coHost co \<and>
     (\<forall>n. \<exists>b. encodeOutbound (out\<lparr>oSeq := n\<rparr>) = Some b)"
  using onHello_reply [of now sess env
      "on_diag (latency (f64_of_int (wrap64 (UnixMilli now - eTS env))) \<circ> diag_event now (eType env)) co"]
  by (simp add: Dispatch_def Let_def assms on_diag_def)

text \<open>
  Property C19. Every hello, valid or not, is answered with the current roster as the last
  message on that connection, the empty roster included, and does not change the roster: a
  restarted core, whose roster is empty, tells a reconnecting edge to stop.
\<close>

theorem hello_converges:
  assumes "decodeEnvelope line = Inr env" "eType env = TypeHello"
    and "svConns (coHost co) cid = Some cw" "healthy cw"
  shows "\<exists>sess' co' cw'. handle_line ops cfg now order cid line sess co = (sess', co', True) \<and>
    svRoster (coHost co') = svRoster (coHost co) \<and>
    svConns (coHost co') cid = Some cw' \<and> oType (last (cwOut cw')) = TypeSweepSet \<and>
    oData (last (cwOut cw')) = SweepSetData (svRoster (coHost co))"
proof -
  let ?sv = "(coHost co)\<lparr>svJournal := journal_Record ''in'' (the line) now (svJournal (coHost co))\<rparr>"
  define co1 where "co1 = on_diag (\<lambda>d. fst (observeSeq now (eSeq env) d))
    (on_server (\<lambda>sv. sv\<lparr>svJournal := journal_Record ''in'' (the line) now (svJournal sv)\<rparr>) co)"
  obtain sess' co' out where d: "Dispatch (server_ops ops now order) cfg now sess env co1 = (sess', co', [out])"
    and h: "coHost co' = ?sv" and e: "\<And>n. \<exists>b. encodeOutbound (out\<lparr>oSeq := n\<rparr>) = Some b"
    using Dispatch_hello [OF assms(2), of "server_ops ops now order" cfg now sess co1]
    by (auto simp: co1_def on_diag_def on_server_def)
  obtain sv1 cw1 where s1: "send_to now cid out ?sv = (sv1, True)" "svConns sv1 cid = Some cw1" "healthy cw1"
    "svRoster sv1 = svRoster (coHost co)"
    using send_healthy [of ?sv cid cw out now] assms(3,4) e by auto
  obtain sv2 cw2 where s2: "pushSweepsTo now cid sv1 = (sv2, True)" "svConns sv2 cid = Some cw2" "told (svRoster sv1) cw2"
    "svRoster sv2 = svRoster sv1"
    using pushSweepsTo_told [OF s1(2,3), of now] send_to_frame(1) [of now cid "sweep_set_msg now (svRoster sv1)" sv1]
    by (cases "pushSweepsTo now cid sv1") (auto simp: pushSweepsTo_def SweepRoster_def)
  show ?thesis
    using assms(1,2) d s1 s2 by (simp add: handle_line_def Let_def co1_def [symmetric] h told_def)
qed

definition demo_hello :: json where
  "demo_hello = JObj [(''v'', JInt 2), (''seq'', JInt 1), (''type'', JStr ''hello''), (''ts'', JInt 0)]"

lemma demo_hello_decodes:
  "decodeEnvelope (Some demo_hello) = Inr \<lparr>eV = 2, eSeq = 1, eType = TypeHello, eTS = 0, eID = 0, eData = None\<rparr>"
proof -
  have k: "ToUpper ''v'' = ''V''" "ToUpper ''seq'' = ''SEQ''" "ToUpper ''type'' = ''TYPE''" "ToUpper ''ts'' = ''TS''"
    "ToUpper ''id'' = ''ID''" "ToUpper ''data'' = ''DATA''" by code_simp+
  show ?thesis
    by (simp add: demo_hello_def decodeEnvelope_def unmarshal_envelope_def f_int_def f_str_def dec_field_def
        ProtoVersion_def k TypeHello_def)
qed

theorem hello_converges_witness:
  "\<exists>sess' co' cw'. handle_line unit_ops unit_cfg 0 [7] 7 (Some demo_hello) replay_session (syCore one_conn) = (sess', co', True) \<and>
    svConns (coHost co') 7 = Some cw' \<and> oData (last (cwOut cw')) = SweepSetData []"
  using hello_converges [OF demo_hello_decodes, of "syCore one_conn" 7 demo_writer unit_ops unit_cfg 0 "[7]" replay_session]
  by (simp add: one_conn_server demo_healthy Listen_def) blast

end
