(* ===== verification/Sweep_Push.thy ===== *)
theory Sweep_Push
  imports Sweep_Server_Props
begin

text \<open>
  The pushes of the roster at the grain of the locks of \<^verbatim>\<open>server.go\<close>, and the replay of a journal.
  A roster change holds \<^verbatim>\<open>sweepsMu\<close> and is one step; \<^verbatim>\<open>pushSweeps\<close> then visits the connections
  one by one, and \<^verbatim>\<open>pushSweepsTo\<close> reads the roster under \<^verbatim>\<open>sweepsMu\<close> and writes it under the lock of
  the writer, in two steps between which other goroutines run.
\<close>

section \<open>Pushes between the locks\<close>

record push_thread =
  ptTodo :: "nat list"
  ptRead :: "sweep_entry list option"

record push_sys =
  psRoster :: "sweep_entry list"
  psThreads :: "push_thread list"
  psSeen :: "nat \<Rightarrow> sweep_entry list list"

definition push_install :: "sweep_entry list \<Rightarrow> nat list \<Rightarrow> push_sys \<Rightarrow> push_sys" where
  "push_install r cids s =
     s\<lparr>psRoster := r, psThreads := psThreads s @ [\<lparr>ptTodo = cids, ptRead = None\<rparr>]\<rparr>"

definition push_turn :: "nat \<Rightarrow> push_sys \<Rightarrow> push_sys" where
  "push_turn i s =
     (let t = psThreads s ! i
      in case ptTodo t of
           [] \<Rightarrow> s
         | c # cs \<Rightarrow>
             (case ptRead t of
                None \<Rightarrow> s\<lparr>psThreads := (psThreads s)[i := t\<lparr>ptRead := Some (psRoster s)\<rparr>]\<rparr>
              | Some r \<Rightarrow> s\<lparr>psThreads := (psThreads s)[i := \<lparr>ptTodo = cs, ptRead = None\<rparr>],
                            psSeen := (psSeen s)(c := psSeen s c @ [r])\<rparr>))"

inductive push_step :: "push_sys \<Rightarrow> push_sys \<Rightarrow> bool" where
  change: "wf_roster r \<Longrightarrow> push_step s (push_install r cids s)"
| turn: "i < length (psThreads s) \<Longrightarrow> push_step s (push_turn i s)"

definition push_start :: "push_sys \<Rightarrow> bool" where
  "push_start s \<longleftrightarrow> s = \<lparr>psRoster = [], psThreads = [], psSeen = \<lambda>_. []\<rparr>"

definition quiescent :: "push_sys \<Rightarrow> bool" where
  "quiescent s \<longleftrightarrow> (\<forall>t \<in> set (psThreads s). ptTodo t = [])"

interpretation psh: transition_system push_start push_step .

text \<open>
  The schedule: a pass is requested and its push reads the roster; the operator kills it and
  that push runs to its end; then the first push writes what it had read.
\<close>

definition race :: push_sys where
  "race =
     (let s0 = \<lparr>psRoster = [], psThreads = [], psSeen = \<lambda>_. []\<rparr>;
          armed = push_turn 0 (push_install [\<lparr>seTicker = ''TSLA''\<rparr>] [7] s0);
          killed = push_turn 1 (push_turn 1 (push_install [] [7] armed))
      in push_turn 0 killed)"

lemma race_state:
  "psRoster race = []" "psSeen race 7 = [[], [\<lparr>seTicker = ''TSLA''\<rparr>]]" "quiescent race"
  by (simp_all add: race_def push_turn_def push_install_def quiescent_def Let_def)

lemma race_reachable: "psh.reachable race"
proof -
  have w: "wf_roster [\<lparr>seTicker = ''TSLA''\<rparr>]" by code_simp
  show ?thesis
    unfolding race_def Let_def
    by (intro psh.reachable.move [OF _ push_step.turn] psh.reachable.move [OF _ push_step.change [OF w]]
        psh.reachable.move [OF _ push_step.change [OF wf_roster_empty]] psh.reachable.start)
      (simp_all add: push_start_def push_turn_def push_install_def Let_def)
qed

lemma push_delivers_wf:
  assumes "psh.reachable s"
  shows "wf_roster (psRoster s) \<and> (\<forall>t \<in> set (psThreads s). \<forall>r. ptRead t = Some r \<longrightarrow> wf_roster r) \<and>
    (\<forall>c. \<forall>r \<in> set (psSeen s c). wf_roster r)" (is "?P s")
proof (rule psh.invariant [OF assms, where P = ?P])
  fix s assume "push_start s"
  then show "?P s" by (simp add: push_start_def)
next
  fix s t assume s: "?P s" and "push_step s t"
  from this(2) show "?P t"
  proof cases
    case (change r cids)
    with s show ?thesis by (auto simp: push_install_def)
  next
    case (turn i)
    then have "psThreads s ! i \<in> set (psThreads s)" by simp
    with s turn show ?thesis
      by (auto simp: push_turn_def Let_def split: list.split option.split dest!: subsetD [OF set_update_subset_insert])
  qed
qed

text \<open>
  Property C20. Two pushes can overtake each other: there is a schedule after which no push is
  outstanding and the roster is empty, while the last roster the connection was told still
  names a ticker, so a killed pass stays armed at the edge until the next change.
\<close>

theorem stale_push:
  "\<exists>s. psh.reachable s \<and> quiescent s \<and> psRoster s = [] \<and>
     (\<exists>rs. psSeen s 7 = rs @ [[\<lparr>seTicker = ''TSLA''\<rparr>]])"
  using race_reachable race_state by (intro exI [of _ race]) simp

section \<open>Replay\<close>

text \<open>The inbound records, and a reference run that dispatches each line at a given instant.\<close>

definition inbound :: "journal_entry list \<Rightarrow> journal_entry list" where
  "inbound es = filter (\<lambda>e. jeDir e = ''in'') es"

fun dispatch_run ::
  "'h host_ops \<Rightarrow> config \<Rightarrow> session \<Rightarrow> 'h core \<Rightarrow> (instant \<times> json) list \<Rightarrow> session \<times> 'h core" where
  "dispatch_run ops cfg sess co [] = (sess, co)"
| "dispatch_run ops cfg sess co ((now, line) # rest) =
     (case DispatchLine ops cfg now sess (Some line) co of
        (sess', co', _) \<Rightarrow> dispatch_run ops cfg sess' co' rest)"

definition recv_time :: "journal_entry \<Rightarrow> instant" where
  "recv_time e = from_milli (jeRecvMs e)"

lemma DispatchLine_decoded:
  assumes "decodeEnvelope (Some line) = Inr env"
  shows "\<exists>sess' co'. DispatchLine ops cfg now sess (Some line) co = (sess', co', None)"
  by (simp add: DispatchLine_def assms split: prod.split)

lemma replay_run:
  assumes "\<forall>e \<in> set (inbound es). \<exists>env. decodeEnvelope (Some (jeLine e)) = Inr env"
  shows "replay_loop ops cfg clock sess co es =
    Inr (dispatch_run ops cfg sess co (zip (clock # map recv_time (inbound es)) (map jeLine (inbound es))))"
  using assms
proof (induction es arbitrary: clock sess co)
  case (Cons e es)
  show ?case
  proof (cases "jeDir e = ''in''")
    case True
    then obtain env where "decodeEnvelope (Some (jeLine e)) = Inr env" using Cons.prems by (auto simp: inbound_def)
    then obtain sess' co' where "DispatchLine ops cfg clock sess (Some (jeLine e)) co = (sess', co', None)"
      using DispatchLine_decoded by blast
    with Cons True show ?thesis by (simp add: inbound_def recv_time_def)
  next
    case False
    with Cons show ?thesis by (simp add: inbound_def)
  qed
qed (simp add: inbound_def)

text \<open>
  Fact. The replay loop dispatches every inbound line of a journal, in order, through
  the live dispatcher, but one record late: each line runs at the receive time of the record
  before it, and the first at the clock the replay was started with.
\<close>

theorem replay_clock_lag:
  assumes "\<forall>e \<in> set (inbound es). \<exists>env. decodeEnvelope (Some (jeLine e)) = Inr env"
  shows "replay_loop ops cfg clock sess co es =
    Inr (dispatch_run ops cfg sess co (zip (clock # map recv_time (inbound es)) (map jeLine (inbound es))))"
  using assms by (rule replay_run)

definition demo_journal :: "journal_entry list" where
  "demo_journal = [\<lparr>jeDir = ''in'', jeRecvMs = 5000, jeLine = demo_hello\<rparr>, \<lparr>jeDir = ''out'', jeRecvMs = 6000, jeLine = demo_hello\<rparr>,
     \<lparr>jeDir = ''in'', jeRecvMs = 9000, jeLine = demo_hello\<rparr>]"

theorem replay_clock_lag_witness:
  "replay_loop unit_ops unit_cfg 1 replay_session (NewCore () (newDiagnostics 0)) demo_journal =
   Inr (dispatch_run unit_ops unit_cfg replay_session (NewCore () (newDiagnostics 0))
     [(1, demo_hello), (5000 * 10 ^ 6, demo_hello)])"
  using replay_clock_lag [of demo_journal unit_ops unit_cfg 1]
  by (simp add: demo_journal_def inbound_def demo_hello_decodes recv_time_def from_milli_def)

end
