(* ===== verification/Numbered_Rows.thy ===== *)
theory Numbered_Rows
  imports Conid Market_Types
begin

text \<open>
  Rows numbered downwards from the base of their ticker, as the chain generators and the file
  loader allocate them: the ids are distinct, negative, and in the slot of the ticker as long as
  there are no more rows than the slot is wide.
\<close>

definition numbered :: "string \<Rightarrow> contract list \<Rightarrow> bool" where
  "numbered t cs \<longleftrightarrow> map cConId cs = map (\<lambda>i. SyntheticConIDBase t - 1 - int i) [0..<length cs]"

lemma numbered_distinct: "numbered t cs \<Longrightarrow> distinct (map cConId cs)"
  unfolding numbered_def by (simp add: distinct_map inj_on_def)

lemma numbered_id:
  assumes "numbered t cs" "c \<in> set cs"
  obtains i where "i < length cs" "cConId c = SyntheticConIDBase t - (int i + 1)"
proof -
  have "cConId c \<in> set (map (\<lambda>i. SyntheticConIDBase t - 1 - int i) [0..<length cs])"
    using assms(2) unfolding assms(1) [unfolded numbered_def, symmetric] by simp
  then show ?thesis using that by auto
qed

lemma numbered_negative: assumes "numbered t cs" "c \<in> set cs" shows "cConId c < 0"
proof -
  obtain i where "cConId c = SyntheticConIDBase t - (int i + 1)" using numbered_id [OF assms] .
  then show ?thesis using base_le_0 [of t] by linarith
qed

lemma numbered_in_slot:
  assumes "numbered t cs" "int (length cs) \<le> ConIdSlotWidth" "c \<in> set cs"
  shows "ConIdMatchesTicker (cConId c) t"
proof -
  obtain i where i: "i < length cs" "cConId c = SyntheticConIDBase t - (int i + 1)" using numbered_id [OF assms(1,3)] .
  have k: "0 < int i + 1" "int i + 1 \<le> ConIdSlotWidth" using i(1) assms(2) by simp_all
  then have "int i + 1 \<le> 2 ^ 60" by (simp add: ConIdSlotWidth_def)
  moreover have "(slot t * ConIdSlotWidth + (int i + 1) - 1) div ConIdSlotWidth = slot t"
    using k by (intro int_div_pos_eq [of _ _ _ "int i"]) (simp_all add: ConIdSlotWidth_def)
  ultimately show ?thesis unfolding i(2) using ConIdMatches_slot [of "int i + 1" t t] k by simp
qed

end
