(* ===== verification/Csv.thy ===== *)
theory Csv
  imports Numbered_Rows Book
begin

text \<open>
  Package \<^verbatim>\<open>market\<close>, the chain file loader (\<^verbatim>\<open>csv.go\<close>). The CSV reader of the standard library
  is a list of what its successive calls return: the fields of a record, or \<^term>\<open>None\<close> for a
  syntax error; after the last one comes the end of the file. \<^verbatim>\<open>strconv.ParseFloat\<close> is an argument:
  what is shown holds whatever it accepts.
\<close>

section \<open>The loader\<close>

datatype csv_error =
    CsvHeader | CsvColumn string | CsvRecord nat | CsvMissing nat string | CsvStrike nat | CsvRight nat
  | CsvExpiry nat | CsvOpenInterest nat | CsvIV nat | CsvSettlement nat | CsvEmpty

type_synonym number_parser = "string \<Rightarrow> f64 option"
type_synonym columns = "string \<rightharpoonup> nat"

definition lower_char :: "char \<Rightarrow> char" where
  "lower_char c = (if CHR ''A'' \<le> c \<and> c \<le> CHR ''Z'' then char_of (of_char c + 32 :: nat) else c)"

definition ToLower :: "string \<Rightarrow> string" where
  "ToLower s = map lower_char s"

fun header_columns :: "nat \<Rightarrow> string list \<Rightarrow> columns \<Rightarrow> columns" where
  "header_columns i [] col = col"
| "header_columns i (name # names) col = header_columns (Suc i) names (col(ToLower (TrimSpace name) \<mapsto> i))"

definition required_columns :: "string list" where
  "required_columns = [''strike'', ''right'', ''expiry'', ''open_interest'']"

definition csv_at :: "columns \<Rightarrow> nat \<Rightarrow> string list \<Rightarrow> string \<Rightarrow> csv_error + string" where
  "csv_at col row rec name =
     (case col name of
        None \<Rightarrow> Inl (CsvMissing row name)
      | Some i \<Rightarrow> if i \<ge> length rec then Inl (CsvMissing row name) else Inr (TrimSpace (rec ! i)))"

definition cellAt :: "string list \<Rightarrow> columns \<Rightarrow> string \<Rightarrow> nat \<Rightarrow> csv_error + string" where
  "cellAt rec col name row =
     (case col name of
        None \<Rightarrow> Inr []
      | Some i \<Rightarrow> if i \<ge> length rec then Inl (CsvMissing row name) else Inr (rec ! i))"

definition csv_strike :: "number_parser \<Rightarrow> nat \<Rightarrow> string \<Rightarrow> csv_error + f64" where
  "csv_strike num row s =
     (case num s of
        None \<Rightarrow> Inl (CsvStrike row)
      | Some k \<Rightarrow> if \<not> finite64 k \<or> k \<le> 0 then Inl (CsvStrike row) else Inr k)"

definition csv_open_interest :: "number_parser \<Rightarrow> nat \<Rightarrow> string \<Rightarrow> csv_error + f64" where
  "csv_open_interest num row s =
     (case num s of
        None \<Rightarrow> Inl (CsvOpenInterest row)
      | Some n \<Rightarrow> if n = NaN \<or> n = PInf \<or> n = NInf \<or> n < 0 then Inl (CsvOpenInterest row) else Inr n)"

text \<open>The column of the implied volatility, when the header has one.\<close>

definition csv_iv :: "number_parser \<Rightarrow> columns \<Rightarrow> nat \<Rightarrow> string list \<Rightarrow> csv_error + f64" where
  "csv_iv num col row rec =
     (case col ''iv'' of
        None \<Rightarrow> Inr 0
      | Some i \<Rightarrow>
          if i < length rec \<and> TrimSpace (rec ! i) \<noteq> []
          then case num (TrimSpace (rec ! i)) of
                 None \<Rightarrow> Inl (CsvIV row)
               | Some v \<Rightarrow> if v < 0 \<or> v = NaN \<or> v = PInf \<or> v = NInf then Inl (CsvIV row) else Inr v
          else Inr 0)"

definition parseContractRow :: "number_parser \<Rightarrow> columns \<Rightarrow> nat \<Rightarrow> string list \<Rightarrow> csv_error + contract" where
  "parseContractRow num col row rec =
     bind_res (csv_at col row rec ''strike'') (\<lambda>strikeS.
     bind_res (csv_strike num row strikeS) (\<lambda>strike.
     bind_res (csv_at col row rec ''right'') (\<lambda>rightS.
     let right = ToUpper rightS in
     if right \<noteq> RightCall \<and> right \<noteq> RightPut then Inl (CsvRight row)
     else
       bind_res (csv_at col row rec ''expiry'') (\<lambda>expiryS.
       let expiry = filter (\<lambda>c. c \<noteq> CHR ''-'') expiryS in
       if length expiry \<noteq> 8 then Inl (CsvExpiry row)
       else
         bind_res (csv_at col row rec ''open_interest'') (\<lambda>oiS.
         bind_res (csv_open_interest num row oiS) (\<lambda>oi.
         bind_res (csv_iv num col row rec) (\<lambda>iv.
           Inr \<lparr>cConId = 0, cTicker = [], cStrike = strike, cRight = right, cExpiryDate = expiry, cTradingClass = [],
                cMultiplier = DefaultMultiplier, cOpenInterest = oi, cExchange = [], cSettlement = [], cSDTier = 0,
                cIV = iv, cBid = 0, cAsk = 0\<rparr>)))))))"

definition csv_class :: "columns \<Rightarrow> nat \<Rightarrow> string list \<Rightarrow> contract \<Rightarrow> csv_error + contract" where
  "csv_class col row rec c =
     (if col ''trading_class'' = None then Inr c
      else bind_res (cellAt rec col ''trading_class'' row) (\<lambda>v. Inr (c\<lparr>cTradingClass := ToUpper (TrimSpace v)\<rparr>)))"

definition csv_settlement :: "columns \<Rightarrow> nat \<Rightarrow> string list \<Rightarrow> contract \<Rightarrow> csv_error + contract" where
  "csv_settlement col row rec c =
     (if col ''settlement'' = None then Inr c
      else bind_res (cellAt rec col ''settlement'' row) (\<lambda>v.
        let s = ToUpper (TrimSpace v) in
        if s \<noteq> [] \<and> s \<noteq> SettlementAM \<and> s \<noteq> SettlementPM then Inl (CsvSettlement row)
        else Inr (c\<lparr>cSettlement := s\<rparr>)))"

definition csv_exchange :: "columns \<Rightarrow> nat \<Rightarrow> string list \<Rightarrow> contract \<Rightarrow> csv_error + contract" where
  "csv_exchange col row rec c =
     (if col ''exchange'' = None then Inr c
      else bind_res (cellAt rec col ''exchange'' row) (\<lambda>v. Inr (c\<lparr>cExchange := ToUpper (TrimSpace v)\<rparr>)))"

definition csv_contract :: "number_parser \<Rightarrow> columns \<Rightarrow> nat \<Rightarrow> string list \<Rightarrow> csv_error + contract" where
  "csv_contract num col row rec =
     bind_res (parseContractRow num col row rec) (\<lambda>c.
     bind_res (csv_class col row rec c) (\<lambda>c.
     bind_res (csv_settlement col row rec c) (csv_exchange col row rec)))"

fun csv_loop :: "number_parser \<Rightarrow> columns \<Rightarrow> string \<Rightarrow> nat \<Rightarrow> string list option list \<Rightarrow> contract list
    \<Rightarrow> csv_error + contract list" where
  "csv_loop num col ticker row [] out = Inr out"
| "csv_loop num col ticker row (None # reads) out = Inl (CsvRecord row)"
| "csv_loop num col ticker row (Some rec # reads) out =
     bind_res (csv_contract num col row rec) (\<lambda>c.
       csv_loop num col ticker (Suc row) reads
         (out @ [c\<lparr>cTicker := ticker, cConId := SyntheticConIDBase ticker - int (length out + 1)\<rparr>]))"

definition readChainCSV :: "number_parser \<Rightarrow> string list option list \<Rightarrow> string \<Rightarrow> f64 \<Rightarrow> int \<Rightarrow> csv_error + chain_snapshot" where
  "readChainCSV num reads ticker spot asOfMs =
     (case reads of
        Some header # records \<Rightarrow>
          let col = header_columns 0 header Map.empty
          in (case find (\<lambda>name. col name = None) required_columns of
                Some name \<Rightarrow> Inl (CsvColumn name)
              | None \<Rightarrow>
                  bind_res (csv_loop num col ticker 1 records []) (\<lambda>cs.
                    if cs = [] then Inl CsvEmpty
                    else Inr \<lparr>chTicker = ticker, chSpot = spot, chAsOfMs = asOfMs, chContracts = cs,
                              chUnderlyingType = (if IsIndexUnderlying ticker [] then SecTypeIND else []),
                              chExchange = []\<rparr>))
      | _ \<Rightarrow> Inl CsvHeader)"

section \<open>What a loaded row satisfies\<close>

lemma csv_strike_Inr: "csv_strike num row s = Inr k \<Longrightarrow> finite64 k \<and> 0 < k"
  by (auto simp: csv_strike_def less_f64_def finite64_iff zero_f64_def split: option.splits if_splits)

lemma csv_open_interest_Inr: "csv_open_interest num row s = Inr n \<Longrightarrow> finite64 n \<and> 0 \<le> n"
  by (cases n) (auto simp: csv_open_interest_def less_f64_def zero_f64_def split: option.splits if_splits)

lemma parsed_row:
  assumes "parseContractRow num col row rec = Inr c"
  shows "finite64 (cStrike c) \<and> 0 < cStrike c" "cRight c = RightCall \<or> cRight c = RightPut" "finite64 (cOpenInterest c) \<and> 0 \<le> cOpenInterest c"
    "length (cExpiryDate c) = 8" "cSettlement c = []" "cBid c = 0" "cAsk c = 0" "cMultiplier c = DefaultMultiplier"
proof -
  obtain k right expiry n iv where k: "finite64 k \<and> 0 < k" and r: "right = RightCall \<or> right = RightPut" and n: "finite64 n \<and> 0 \<le> n"
    and e: "length expiry = 8" and c: "c = \<lparr>cConId = 0, cTicker = [], cStrike = k, cRight = right, cExpiryDate = expiry,
      cTradingClass = [], cMultiplier = DefaultMultiplier, cOpenInterest = n, cExchange = [], cSettlement = [], cSDTier = 0,
      cIV = iv, cBid = 0, cAsk = 0\<rparr>"
    using assms unfolding parseContractRow_def Let_def bind_res_Inr_iff
    by (auto simp: bind_res_Inr_iff dest!: csv_strike_Inr csv_open_interest_Inr split: if_splits)
  show "finite64 (cStrike c) \<and> 0 < cStrike c" "cRight c = RightCall \<or> cRight c = RightPut" "finite64 (cOpenInterest c) \<and> 0 \<le> cOpenInterest c"
    "length (cExpiryDate c) = 8" "cSettlement c = []" "cBid c = 0" "cAsk c = 0" "cMultiplier c = DefaultMultiplier"
    using k r n e by (simp_all add: c)
qed

definition same_prices :: "contract \<Rightarrow> contract \<Rightarrow> bool" where
  "same_prices c c' \<longleftrightarrow> cStrike c' = cStrike c \<and> cRight c' = cRight c \<and> cOpenInterest c' = cOpenInterest c \<and>
     cExpiryDate c' = cExpiryDate c \<and> cIV c' = cIV c \<and> cBid c' = cBid c \<and> cAsk c' = cAsk c \<and> cMultiplier c' = cMultiplier c"

lemma labelled_row:
  assumes "csv_contract num col row rec = Inr c"
  obtains c0 where "parseContractRow num col row rec = Inr c0" "same_prices c0 c"
    "cSettlement c \<in> {[], SettlementAM, SettlementPM}"
proof -
  obtain c0 c1 c2 where c: "parseContractRow num col row rec = Inr c0" "csv_class col row rec c0 = Inr c1"
    "csv_settlement col row rec c1 = Inr c2" "csv_exchange col row rec c2 = Inr c"
    using assms by (auto simp: csv_contract_def bind_res_Inr_iff)
  have "same_prices c0 c1" "cSettlement c1 = []"
    using c(2) parsed_row(5) [OF c(1)] by (auto simp: csv_class_def same_prices_def bind_res_Inr_iff split: if_splits)
  moreover from this have "same_prices c0 c2" "cSettlement c2 \<in> {[], SettlementAM, SettlementPM}"
    using c(3) by (auto simp: csv_settlement_def same_prices_def bind_res_Inr_iff Let_def split: if_splits)
  ultimately show ?thesis
    using that [OF c(1)] c(4) by (auto simp: csv_exchange_def same_prices_def bind_res_Inr_iff split: if_splits)
qed

lemma labelled_row_ok:
  assumes "csv_contract num col row rec = Inr c" "0 < k"
  shows "contract_ok (c\<lparr>cTicker := t, cConId := SyntheticConIDBase t - k\<rparr>)"
proof -
  obtain c0 where c: "parseContractRow num col row rec = Inr c0" "same_prices c0 c" "cSettlement c \<in> {[], SettlementAM, SettlementPM}"
    using labelled_row [OF assms(1)] .
  have "SyntheticConIDBase t - k \<noteq> 0" using base_le_0 [of t] assms(2) by simp
  then show ?thesis
    using parsed_row [OF c(1)] c(2,3)
    by (auto simp: contract_ok_def validateContract_def same_prices_def less_f64_def zero_f64_def)
qed

text \<open>The loop keeps the records in order and numbers them from the base of the ticker downwards.\<close>

definition loaded_row :: "number_parser \<Rightarrow> columns \<Rightarrow> string \<Rightarrow> nat \<Rightarrow> string list option \<Rightarrow> contract \<Rightarrow> bool" where
  "loaded_row num col ticker n r c \<longleftrightarrow> (\<exists>rec c0. r = Some rec \<and> csv_contract num col n rec = Inr c0 \<and>
     c = c0\<lparr>cTicker := ticker, cConId := SyntheticConIDBase ticker - int n\<rparr>)"

lemma csv_loop_rows:
  assumes "csv_loop num col ticker row reads out = Inr cs" "row = length out + 1"
  shows "\<exists>new. cs = out @ new \<and> length new = length reads \<and>
    (\<forall>i < length reads. loaded_row num col ticker (row + i) (reads ! i) (new ! i))"
  using assms
proof (induction reads arbitrary: row out)
  case (Cons r reads)
  obtain rec c where r: "r = Some rec" and c: "csv_contract num col row rec = Inr c"
    and l: "csv_loop num col ticker (Suc row) reads
      (out @ [c\<lparr>cTicker := ticker, cConId := SyntheticConIDBase ticker - int (length out + 1)\<rparr>]) = Inr cs"
    using Cons.prems(1) by (cases r) (auto simp: bind_res_Inr_iff)
  let ?c = "c\<lparr>cTicker := ticker, cConId := SyntheticConIDBase ticker - int (length out + 1)\<rparr>"
  obtain new where new: "cs = (out @ [?c]) @ new" "length new = length reads"
    "\<forall>i < length reads. loaded_row num col ticker (Suc row + i) (reads ! i) (new ! i)"
    using Cons.IH [OF l] Cons.prems(2) by auto
  have "loaded_row num col ticker row r ?c" using r c Cons.prems(2) by (auto simp: loaded_row_def)
  then have "\<forall>i < length (r # reads). loaded_row num col ticker (row + i) ((r # reads) ! i) ((?c # new) ! i)"
    using new(3) by (auto simp: less_Suc_eq_0_disj)
  then show ?case using new(1,2) by (intro exI [of _ "?c # new"]) simp
qed simp

lemma loaded_chain:
  assumes "readChainCSV num reads ticker spot asOfMs = Inr snap"
  obtains header records col where "reads = Some header # records" "col = header_columns 0 header Map.empty"
    "length (chContracts snap) = length records" "chContracts snap \<noteq> []" "chTicker snap = ticker" "chSpot snap = spot"
    "\<And>i. i < length records \<Longrightarrow> loaded_row num col ticker (i + 1) (records ! i) (chContracts snap ! i)"
proof -
  obtain header records where r: "reads = Some header # records"
    using assms by (cases reads) (auto simp: readChainCSV_def split: option.splits)
  define col where "col = header_columns 0 header Map.empty"
  obtain cs where cs: "csv_loop num col ticker 1 records [] = Inr cs" "cs \<noteq> []" "chContracts snap = cs" "chTicker snap = ticker"
    "chSpot snap = spot"
    using assms by (auto simp: readChainCSV_def r col_def [symmetric] Let_def bind_res_Inr_iff split: option.splits if_splits)
  show ?thesis using that [OF r col_def] csv_loop_rows [OF cs(1)] cs by auto
qed

section \<open>Properties\<close>

text \<open>
  Property C30. A loaded file is one contract per record, in order: the row it describes, under the
  ticker asked for and the next id of the ticker's slot. The ids are distinct, and belong to the
  ticker as long as the records fit into its slot; and at a sane spot the book accepts the chain.
\<close>

theorem csv_chain_accepted:
  assumes "readChainCSV num reads ticker spot asOfMs = Inr snap"
  shows "length (chContracts snap) = length (tl reads) \<and>
    (\<forall>i < length (chContracts snap). \<exists>header rec c. hd reads = Some header \<and> tl reads ! i = Some rec \<and>
      csv_contract num (header_columns 0 header Map.empty) (i + 1) rec = Inr c \<and>
      chContracts snap ! i = c\<lparr>cTicker := ticker, cConId := SyntheticConIDBase ticker - int (i + 1)\<rparr>) \<and>
    distinct (map cConId (chContracts snap)) \<and>
    (int (length (chContracts snap)) \<le> ConIdSlotWidth \<longrightarrow> (\<forall>c \<in> set (chContracts snap). ConIdMatchesTicker (cConId c) ticker)) \<and>
    (ticker \<noteq> [] \<and> saneSpot spot \<longrightarrow> (\<exists>b'. snd (ApplyChainSnapshot b snap) = Inr b'))"
proof -
  obtain header records col where l: "reads = Some header # records" "col = header_columns 0 header Map.empty"
    "length (chContracts snap) = length records" "chTicker snap = ticker" "chSpot snap = spot"
    "\<And>i. i < length records \<Longrightarrow> loaded_row num col ticker (i + 1) (records ! i) (chContracts snap ! i)"
    using loaded_chain [OF assms] by metis
  have id: "cConId (chContracts snap ! i) = SyntheticConIDBase ticker - 1 - int i" if "i < length records" for i
    using l(6) [OF that] by (auto simp: loaded_row_def)
  have ids: "numbered ticker (chContracts snap)"
    unfolding numbered_def by (rule nth_equalityI) (simp_all add: l(3) id)
  have "contract_ok c" if "c \<in> set (chContracts snap)" for c
  proof -
    obtain i where i: "i < length records" "c = chContracts snap ! i" using \<open>c \<in> _\<close> l(3) by (auto simp: in_set_conv_nth)
    obtain rec c0 where "csv_contract num col (i + 1) rec = Inr c0" "c = c0\<lparr>cTicker := ticker, cConId := SyntheticConIDBase ticker - int (i + 1)\<rparr>"
      using l(6) [OF i(1)] i(2) by (auto simp: loaded_row_def)
    then show ?thesis using labelled_row_ok [of num col "i + 1" rec c0 "int (i + 1)" ticker] by simp
  qed
  then have book: "ticker \<noteq> [] \<and> saneSpot spot \<longrightarrow> (\<exists>b'. snd (ApplyChainSnapshot b snap) = Inr b')"
    using ApplyChainSnapshot_Inr by (auto simp: chain_ok_def list_all_iff l(4,5))
  have rows: "\<exists>header rec c. hd reads = Some header \<and> tl reads ! i = Some rec \<and>
      csv_contract num (header_columns 0 header Map.empty) (i + 1) rec = Inr c \<and>
      chContracts snap ! i = c\<lparr>cTicker := ticker, cConId := SyntheticConIDBase ticker - int (i + 1)\<rparr>"
    if "i < length (chContracts snap)" for i
    using l(6) [of i] that l(1-3) by (auto simp: loaded_row_def)
  show ?thesis
    using l(1,3) rows numbered_distinct [OF ids] numbered_in_slot [OF ids] book by simp
qed

text \<open>A file with a header of five columns and one record; the parser knows three numbers.\<close>

definition demo_numbers :: number_parser where
  "demo_numbers = map_of [(''125'', Fin 125), (''40'', Fin 40)]"

definition demo_file :: "string list option list" where
  "demo_file = [Some [''Strike'', '' right'', ''expiry'', ''open_interest'', ''settlement''],
     Some [''125'', ''c'', ''2026-10-16'', '' 40'', ''pm'']]"

lemma demo_file_loaded: "\<exists>snap. readChainCSV demo_numbers demo_file ''SPX'' (Fin 100) 0 = Inr snap"
proof -
  have k: "ToLower (TrimSpace ''Strike'') = ''strike''" "ToLower (TrimSpace '' right'') = ''right''"
    "ToLower (TrimSpace ''expiry'') = ''expiry''" "ToLower (TrimSpace ''open_interest'') = ''open_interest''"
    "ToLower (TrimSpace ''settlement'') = ''settlement''" "ToUpper ''c'' = ''C''" "ToUpper ''pm'' = ''PM''"
    "TrimSpace ''125'' = ''125''" "TrimSpace ''c'' = ''c''" "TrimSpace ''2026-10-16'' = ''2026-10-16''" "TrimSpace '' 40'' = ''40''"
    "TrimSpace ''pm'' = ''pm''"
    by code_simp+
  show ?thesis
    by (simp add: readChainCSV_def demo_file_def Let_def required_columns_def k csv_contract_def parseContractRow_def csv_at_def
        csv_strike_def csv_open_interest_def csv_iv_def demo_numbers_def csv_class_def csv_settlement_def csv_exchange_def
        cellAt_def RightCall_def SettlementPM_def zero_f64_def less_f64_def)
qed

theorem csv_chain_accepted_witness:
  "\<exists>snap b'. readChainCSV demo_numbers demo_file ''SPX'' (Fin 100) 0 = Inr snap \<and>
     snd (ApplyChainSnapshot NewInMemoryBook snap) = Inr b'"
proof -
  obtain snap where s: "readChainCSV demo_numbers demo_file ''SPX'' (Fin 100) 0 = Inr snap" using demo_file_loaded by blast
  show ?thesis using csv_chain_accepted [OF s, of NewInMemoryBook] book_demo_sane(1) s by auto
qed

end
