(* ===== verification/Synthetic.thy ===== *)
theory Synthetic
  imports Conid Market_Types
begin

text \<open>
  Package \<^verbatim>\<open>market\<close>, the chain generators (\<^verbatim>\<open>synthetic.go\<close>): the listing calendar, the strike
  ladder, the smile, the open-interest shape and its pseudo-random noise, and the two chains
  the demo, the seeds of the watchlist and the free slot start from. The strike loop runs in
  rounded arithmetic and need not end, so a generator returns an option: \<^term>\<open>None\<close> is a call that
  never returns.
\<close>

section \<open>Package math/rand/v2: the PCG generator\<close>

text \<open>The state is one 128-bit number; an output is the double xorshift multiply of the next.\<close>

type_synonym pcg = "128 word"

definition NewPCG :: "64 word \<Rightarrow> 64 word \<Rightarrow> pcg" where
  "NewPCG hi lo = push_bit 64 (ucast hi) + ucast lo"

definition pcg_step :: "pcg \<Rightarrow> pcg" where
  "pcg_step s = s * (2549297995355413924 * 2 ^ 64 + 4865540595714422341)
     + (6364136223846793005 * 2 ^ 64 + 1442695040888963407)"

definition pcg_mix :: "64 word \<Rightarrow> 64 word \<Rightarrow> 64 word" where
  "pcg_mix hi lo =
     (let a = xor hi (drop_bit 32 hi) * 0xda942042e4dd58b5
      in xor a (drop_bit 48 a) * (or lo 1))"

definition rng_Float64 :: "pcg \<Rightarrow> f64 \<times> pcg" where
  "rng_Float64 s =
     (let s' = pcg_step s; x = pcg_mix (ucast (drop_bit 64 s')) (ucast s')
      in (f64_of_int (uint x mod 2 ^ 53) / lit (2 ^ 53), s'))"

section \<open>Package math\<close>

fun math_Ceil :: "f64 \<Rightarrow> f64" where
  "math_Ceil (Fin x) = Fin (of_int \<lceil>x\<rceil>)"
| "math_Ceil a = a"

fun math_Sin :: "f64 \<Rightarrow> f64" where
  "math_Sin (Fin x) = rnd (sin x)"
| "math_Sin _ = NaN"

section \<open>The listing calendar\<close>

text \<open>\<^verbatim>\<open>time.Date\<close> carries a month past December into the next year.\<close>

definition thirdFridayOf :: "int \<Rightarrow> int \<Rightarrow> int" where
  "thirdFridayOf y m =
     (let first = day_of_civil (y + (m - 1) div 12) ((m - 1) mod 12 + 1) 1
      in first + (5 - weekday first + 7) mod 7 + 14)"

definition isThirdFriday :: "int \<Rightarrow> bool" where
  "isThirdFriday t = (case civil_of_day t of (y, m, _) \<Rightarrow> thirdFridayOf y m = t)"

definition is_weekend :: "int \<Rightarrow> bool" where
  "is_weekend t \<longleftrightarrow> weekday t = 6 \<or> weekday t = 0"

definition add_listing :: "int \<Rightarrow> int \<Rightarrow> int list \<Rightarrow> int list" where
  "add_listing base t dates = (if t < base \<or> is_weekend t \<or> t \<in> set dates then dates else dates @ [t])"

definition listing_candidates :: "int \<Rightarrow> int list" where
  "listing_candidates base =
     (case civil_of_day base of (y0, m0, _) \<Rightarrow>
        let m1 = thirdFridayOf y0 m0
        in case civil_of_day m1 of (y, m, _) \<Rightarrow>
          filter (\<lambda>d. \<not> is_weekend d) [base + 1 .. base + 34]
          @ [m1 + 7, thirdFridayOf y (m + 1), thirdFridayOf y (m + 2), thirdFridayOf y (m + 3)])"

text \<open>The insertion sort at the end of the source sorts distinct dates.\<close>

definition listingDates :: "int \<Rightarrow> int list" where
  "listingDates base = sort (fold (add_listing base) (listing_candidates base) [])"

section \<open>Strikes, volatility and open interest\<close>

definition ladder :: "f64 list" where
  "ladder = map lit [1 / 2, 1, 2, 5 / 2, 5, 10, 20, 25, 50, 100, 200, 250, 500]"

definition strike_target :: "f64 \<Rightarrow> f64 \<Rightarrow> f64" where
  "strike_target spot dte =
     (if dte \<le> lit 9 then spot * lit (8 / 1000)
      else if dte \<le> lit 21 then spot * lit (10 / 1000)
      else if dte \<le> lit 45 then spot * lit (20 / 1000)
      else spot * lit (25 / 1000))"

definition nearer_rung :: "f64 \<Rightarrow> f64 \<Rightarrow> f64 \<times> f64 \<Rightarrow> f64 \<times> f64" where
  "nearer_rung target l bd =
     (let d = \<bar>math_Log (target / l)\<bar> in if d < snd bd then (l, d) else bd)"

definition strikeIncrement :: "f64 \<Rightarrow> f64 \<Rightarrow> f64" where
  "strikeIncrement spot dte =
     fst (fold (nearer_rung (strike_target spot dte)) ladder (last ladder, Fin max_finite))"

definition impliedVol :: "f64 \<Rightarrow> f64 \<Rightarrow> f64 \<Rightarrow> f64 \<Rightarrow> f64" where
  "impliedVol spot strike atmvolf dte =
     (let z = math_Log (strike / spot) / (atmvolf * math_Sqrt (dte / lit 365));
          iv = atmvolf * (1 - lit (10 / 100) * z + lit (5 / 100) * z * z);
          j = 1 + lit (4 / 1000) * math_Sin (strike * lit (731 / 100) + dte * lit (137 / 10));
          lo = atmvolf * lit (6 / 10); hi = atmvolf * lit (22 / 10)
      in math_Min hi (math_Max lo (iv * j)))"

definition oi_bump :: "f64 \<Rightarrow> f64 \<Rightarrow> f64 \<Rightarrow> f64 \<Rightarrow> pcg \<Rightarrow> f64 \<times> pcg" where
  "oi_bump strike center width b rng =
     (let z = (strike - center) / width;
          v = b * math_Exp (lit (- 1 / 2) * z * z)
      in case rng_Float64 rng of (u, rng') \<Rightarrow>
           (math_Max (lit 50) (math_Round (v * (lit (75 / 100) + lit (1 / 2) * u))), rng'))"

definition openInterest :: "pcg \<Rightarrow> f64 \<Rightarrow> f64 \<Rightarrow> f64 \<Rightarrow> (f64 \<times> f64) \<times> pcg" where
  "openInterest rng spot strike sd =
     (case oi_bump strike (spot + lit (9 / 10) * sd) (lit (12 / 10) * sd) (lit 9000) rng of (call, rng1) \<Rightarrow>
      case oi_bump strike (spot - lit (75 / 100) * sd) (lit (11 / 10) * sd) (lit 12000) rng1 of (put, rng2) \<Rightarrow>
      case oi_bump strike (spot - lit (25 / 100) * sd) (lit (35 / 100) * sd) (lit 8000) rng2 of (skew, rng3) \<Rightarrow>
        ((call, math_Round (put + lit (35 / 100) * skew)), rng3))"

section \<open>The strike loop\<close>

text \<open>\<^verbatim>\<open>for k := first; k <= hi; k += inc\<close>, with the loop body an argument.\<close>

partial_function (option) strike_loop :: "f64 \<Rightarrow> f64 \<Rightarrow> (f64 \<Rightarrow> 's \<Rightarrow> 's) \<Rightarrow> f64 \<Rightarrow> 's \<Rightarrow> 's option" where
  "strike_loop hi inc body k st =
     (if k \<le> hi then strike_loop hi inc body (k + inc) (body k st) else Some st)"

record gen_state =
  gsRng :: pcg
  gsConID :: int
  gsOut :: "contract list"

record gen_class =
  gcTicker :: string
  gcClass :: string
  gcSettlement :: string
  gcExchange :: string

definition generated :: "gen_class \<Rightarrow> string \<Rightarrow> int \<Rightarrow> f64 \<Rightarrow> string \<Rightarrow> f64 \<Rightarrow> f64 \<Rightarrow> contract" where
  "generated g expiry conId strike right oi iv =
     \<lparr>cConId = conId, cTicker = gcTicker g, cStrike = strike, cRight = right, cExpiryDate = expiry,
      cTradingClass = gcClass g, cMultiplier = DefaultMultiplier, cOpenInterest = oi,
      cExchange = gcExchange g, cSettlement = gcSettlement g, cSDTier = 0, cIV = iv, cBid = 0, cAsk = 0\<rparr>"

definition emit_strike :: "gen_class \<Rightarrow> f64 \<Rightarrow> f64 \<Rightarrow> string \<Rightarrow> f64 \<Rightarrow> f64 \<Rightarrow> f64 \<Rightarrow> gen_state \<Rightarrow> gen_state" where
  "emit_strike g spot vol expiry dte sd k st =
     (let strike = math_Round (k * lit 100) / lit 100
      in case openInterest (gsRng st) spot strike sd of ((callOI, putOI), rng) \<Rightarrow>
        let iv = impliedVol spot strike vol dte; n = gsConID st
        in \<lparr>gsRng = rng, gsConID = n - 2,
            gsOut = gsOut st @ [generated g expiry (n - 1) strike RightCall callOI iv,
                                generated g expiry (n - 2) strike RightPut putOI iv]\<rparr>)"

definition listing_dte :: "int \<Rightarrow> int \<Rightarrow> f64" where
  "listing_dte base e = Hours (time_Sub (e * day_ns) (base * day_ns)) / lit 24"

definition listing_sd :: "f64 \<Rightarrow> f64 \<Rightarrow> f64 \<Rightarrow> f64" where
  "listing_sd spot vol dte = spot * vol * math_Sqrt (dte / lit 365)"

definition emit_listing :: "f64 \<Rightarrow> f64 \<Rightarrow> int \<Rightarrow> gen_class \<Rightarrow> int \<Rightarrow> gen_state \<Rightarrow> gen_state option" where
  "emit_listing spot vol base g e st =
     (let dte = listing_dte base e; sd = listing_sd spot vol dte; inc = strikeIncrement spot dte;
          first = math_Ceil ((spot - lit 2 * sd) / inc) * inc
      in strike_loop (spot + lit 2 * sd) inc (emit_strike g spot vol (format_ymd e) dte sd) first st)"

fun emit_all :: "f64 \<Rightarrow> f64 \<Rightarrow> int \<Rightarrow> (gen_class \<times> int) list \<Rightarrow> gen_state \<Rightarrow> gen_state option" where
  "emit_all spot vol base [] st = Some st"
| "emit_all spot vol base ((g, e) # ls) st =
     Option.bind (emit_listing spot vol base g e st) (emit_all spot vol base ls)"

section \<open>The generators\<close>

definition gen_start :: "string \<Rightarrow> int \<Rightarrow> gen_state" where
  "gen_start ticker base =
     \<lparr>gsRng = NewPCG (HashSeed ticker) (word_of_int (base * 86400) div 86400),
      gsConID = SyntheticConIDBase ticker, gsOut = []\<rparr>"

definition gen_finish :: "string \<Rightarrow> f64 \<Rightarrow> instant \<Rightarrow> string \<Rightarrow> string \<Rightarrow> gen_state \<Rightarrow> market_error + chain_snapshot" where
  "gen_finish ticker spot asOf utype exch st =
     (if gsOut st = [] then Inl NoContracts
      else Inr \<lparr>chTicker = ticker, chSpot = spot, chAsOfMs = UnixMilli asOf, chContracts = gsOut st,
                chUnderlyingType = utype, chExchange = exch\<rparr>)"

definition bad_anchor :: "f64 \<Rightarrow> f64 \<Rightarrow> bool" where
  "bad_anchor spot vol \<longleftrightarrow> \<not> finite64 spot \<or> spot \<le> 0 \<or> \<not> finite64 vol \<or> vol \<le> 0"

definition GenerateChain :: "string \<Rightarrow> f64 \<Rightarrow> f64 \<Rightarrow> instant \<Rightarrow> (market_error + chain_snapshot) option" where
  "GenerateChain ticker spot vol asOf =
     (if ticker = [] \<or> bad_anchor spot vol then Some (Inl InvalidSnapshot)
      else
        let base = day_of asOf;
            g = \<lparr>gcTicker = ticker, gcClass = ticker, gcSettlement = SettlementPM, gcExchange = []\<rparr>
        in map_option (gen_finish ticker spot asOf SecTypeSTK [])
             (emit_all spot vol base (map (Pair g) (listingDates base)) (gen_start ticker base)))"

definition index_listings :: "index_chain_spec \<Rightarrow> int \<Rightarrow> (gen_class \<times> int) list" where
  "index_listings spec base =
     (let monthly = \<lparr>gcTicker = icTicker spec, gcClass = icMonthlyClass spec, gcSettlement = SettlementAM,
                     gcExchange = icExchange spec\<rparr>;
          weekly = monthly\<lparr>gcClass := icWeeklyClass spec, gcSettlement := SettlementPM\<rparr>
      in concat (map (\<lambda>e. (if isThirdFriday e then [(monthly, e)] else []) @ [(weekly, e)]) (listingDates base)))"

definition GenerateIndexChain ::
  "index_chain_spec \<Rightarrow> f64 \<Rightarrow> f64 \<Rightarrow> instant \<Rightarrow> (market_error + chain_snapshot) option" where
  "GenerateIndexChain spec spot vol asOf =
     (if icTicker spec = [] \<or> icMonthlyClass spec = [] \<or> icWeeklyClass spec = [] \<or> bad_anchor spot vol
      then Some (Inl InvalidSnapshot)
      else
        let base = day_of asOf
        in map_option (gen_finish (icTicker spec) spot asOf SecTypeIND (icExchange spec))
             (emit_all spot vol base (index_listings spec base) (gen_start (icTicker spec) base)))"

section \<open>The strike loop in rounded arithmetic\<close>

lemma strike_loop_inv:
  assumes "strike_loop hi inc body k st = Some st'" "\<And>k st. P st \<Longrightarrow> P (body k st)" "P st"
  shows "P st'"
proof -
  let ?Q = "\<lambda>hi inc body k st st'. (\<forall>k st. P st \<longrightarrow> P (body k st)) \<longrightarrow> P st \<longrightarrow> P st'"
  have "?Q hi inc body k st st'"
  proof (rule strike_loop.raw_induct [where P = ?Q, OF _ assms(1)])
    fix loop hi inc body k st st'
    assume IH: "\<And>hi inc body k st st'. loop hi inc body k st = Some st' \<Longrightarrow> ?Q hi inc body k st st'"
      and r: "(if k \<le> hi then loop hi inc body (k + inc) (body k st) else Some st) = Some st'"
    show "?Q hi inc body k st st'" using r IH [of hi inc body "k + inc" "body k st" st'] by (auto split: if_splits)
  qed
  then show ?thesis using assms(2,3) by blast
qed

text \<open>Where the step is lost in rounding the loop never ends.\<close>

lemma strike_loop_stuck:
  assumes "I k" "\<And>k. I k \<Longrightarrow> k \<le> hi \<and> I (k + inc)"
  shows "strike_loop hi inc body k st = None"
proof (rule ccontr)
  let ?Q = "\<lambda>hi inc body k st st'. I k \<longrightarrow> (\<forall>k. I k \<longrightarrow> k \<le> hi \<and> I (k + inc)) \<longrightarrow> False"
  assume "strike_loop hi inc body k st \<noteq> None"
  then obtain st' where a: "strike_loop hi inc body k st = Some st'" by blast
  have "?Q hi inc body k st st'"
  proof (rule strike_loop.raw_induct [where P = ?Q, OF _ a])
    fix loop hi inc body k st st'
    assume IH: "\<And>hi inc body k st st'. loop hi inc body k st = Some st' \<Longrightarrow> ?Q hi inc body k st st'"
      and r: "(if k \<le> hi then loop hi inc body (k + inc) (body k st) else Some st) = Some st'"
    show "?Q hi inc body k st st'" using r IH [of hi inc body "k + inc" "body k st" st'] by (auto split: if_splits)
  qed
  then show False using assms by blast
qed

definition grid :: "int \<Rightarrow> int \<Rightarrow> nat \<Rightarrow> f64" where
  "grid j i m = Fin (of_int (j + int m * i) / 2)"

lemma grid_add: "\<bar>j + int m * i + i\<bar> \<le> 2 ^ 53 \<Longrightarrow> grid j i m + Fin (of_int i / 2) = grid j i (Suc m)"
  using rnd_dyadic [of "j + int m * i + i" 1] by (simp add: grid_def field_simps)

lemma grid_Suc: "grid j i (Suc m) = grid (j + i) i m"
  by (simp add: grid_def algebra_simps)

text \<open>
  On a grid of halves the sums are exact: the loop visits exactly the points of the grid up to
  the bound, and ends.
\<close>

lemma strike_loop_grid:
  assumes "1 \<le> i" "i \<le> 1000" "- (2 ^ 53) \<le> j" "h \<le> 2 ^ 50"
  shows "\<exists>n. strike_loop (Fin h) (Fin (of_int i / 2)) body (Fin (of_int j / 2)) st
      = Some (fold body (map (grid j i) [0..<n]) st) \<and>
    (\<forall>m < n. grid j i m \<le> Fin h) \<and> \<not> grid j i n \<le> Fin h"
  using assms(3)
proof (induction "nat (2 ^ 51 + 1 - j)" arbitrary: j st rule: less_induct)
  case less
  have g0: "Fin (of_int j / 2) = grid j i 0" by (simp add: grid_def)
  show ?case
  proof (cases "of_int j / 2 \<le> h")
    case False
    then have "strike_loop (Fin h) (Fin (of_int i / 2)) body (Fin (of_int j / 2)) st = Some st"
      by (subst strike_loop.simps) simp
    with False show ?thesis by (intro exI [of _ 0]) (simp add: grid_def)
  next
    case True
    then have "(of_int j :: real) \<le> of_int (2 ^ 51)" using assms(4) by simp
    then have j: "j \<le> 2 ^ 51" by (simp only: of_int_le_iff)
    have step: "Fin (of_int j / 2) + Fin (of_int i / 2) = Fin (of_int (j + i) / 2)"
      using grid_add [of j 0 i] j assms(1,2) less.prems by (simp add: grid_def)
    have lt: "nat (2 ^ 51 + 1 - (j + i)) < nat (2 ^ 51 + 1 - j)" and ge: "- (2 ^ 53) \<le> j + i"
      using j assms(1) less.prems by simp_all
    obtain n where n: "strike_loop (Fin h) (Fin (of_int i / 2)) body (Fin (of_int (j + i) / 2)) (body (Fin (of_int j / 2)) st)
        = Some (fold body (map (grid (j + i) i) [0..<n]) (body (Fin (of_int j / 2)) st))"
      "\<forall>m < n. grid (j + i) i m \<le> Fin h" "\<not> grid (j + i) i n \<le> Fin h"
      using less.hyps [OF lt ge, of "body (Fin (of_int j / 2)) st"] by blast
    have "map (grid j i) [0..<Suc n] = grid j i 0 # map (grid (j + i) i) [0..<n]"
      by (simp add: map_upt_Suc grid_Suc del: upt_Suc)
    moreover have "strike_loop (Fin h) (Fin (of_int i / 2)) body (Fin (of_int j / 2)) st =
        strike_loop (Fin h) (Fin (of_int i / 2)) body (Fin (of_int (j + i) / 2)) (body (Fin (of_int j / 2)) st)"
      using True step by (subst strike_loop.simps) (simp only: less_eq_f64.simps if_True)
    moreover have "\<forall>m < Suc n. grid j i m \<le> Fin h"
    proof (intro allI impI)
      fix m assume "m < Suc n"
      then show "grid j i m \<le> Fin h"
        using n(2) True g0 [symmetric] by (cases m) (simp_all only: grid_Suc Suc_less_eq less_eq_f64.simps)
    qed
    ultimately show ?thesis using n(1,3) g0 by (intro exI [of _ "Suc n"]) (simp add: grid_Suc del: upt_Suc)
  qed
qed

section \<open>The increments\<close>

lemma nearer_rung_in: "fst bd \<in> A \<Longrightarrow> set ls \<subseteq> A \<Longrightarrow> fst (fold (nearer_rung t) ls bd) \<in> A"
proof (induction ls arbitrary: bd)
  case (Cons l ls)
  then show ?case by (simp add: nearer_rung_def Let_def)
qed simp

lemma ladder_Fin: "ladder = map (\<lambda>i. Fin (of_int i / 2)) [1, 2, 4, 5, 10, 20, 40, 50, 100, 200, 400, 500, 1000]"
  using rnd_dyadic [of 5 1] by (simp add: ladder_def f64_simps)

lemma strikeIncrement_rung: "\<exists>i. strikeIncrement spot dte = Fin (of_int i / 2) \<and> 1 \<le> i \<and> i \<le> 1000"
proof -
  have "strikeIncrement spot dte \<in> set ladder"
    unfolding strikeIncrement_def by (rule nearer_rung_in) (simp_all add: ladder_Fin)
  then obtain i where "strikeIncrement spot dte = Fin (of_int i / 2)"
      "i \<in> set [1, 2, 4, 5, 10, 20, 40, 50, 100, 200, 400, 500, 1000]"
    unfolding ladder_Fin set_map by blast
  then show ?thesis by (intro exI [of _ i]) auto
qed

section \<open>The calendar stays within five months\<close>

definition month_start :: "int \<Rightarrow> int \<Rightarrow> int" where
  "month_start y m = day_of_civil (y + (m - 1) div 12) ((m - 1) mod 12 + 1) 1"

lemma month_start_Suc: "month_start y (m + 1) \<le> month_start y m + 31"
proof -
  define q r where "q = (m - 1) div 12" and "r = (m - 1) mod 12"
  have m: "m = 12 * q + r + 1" "0 \<le> r" "r < 12" by (simp_all add: q_def r_def)
  show ?thesis
  proof (cases "r = 11")
    case True
    then have "m div 12 = q + 1" "m mod 12 = 0" using m by auto
    moreover have "nat 11 = 11" by simp
    moreover have "days_before_month (y + q) 12 \<le> days_before_month (y + q) 11 + 31"
      using days_before_month.simps(2) [of "y + q" 11] by (simp add: days_in_def eval_nat_numeral)
    ultimately show ?thesis
      using days_before_year_Suc [of "y + q"] True
      by (simp add: month_start_def day_of_civil_def q_def [symmetric] r_def [symmetric] days_before_month_12 add.assoc)
  next
    case False
    then have "m div 12 = q" "m mod 12 = r + 1"
      using m int_div_pos_eq [of m 12 q "r + 1"] int_mod_pos_eq [of m 12 q "r + 1"] by simp_all
    moreover have "nat (1 + r) = Suc (nat r)" using m by simp
    ultimately show ?thesis
      by (simp add: month_start_def day_of_civil_def q_def [symmetric] r_def [symmetric] days_in_def)
  qed
qed

lemma third_friday_range: "month_start y m + 14 \<le> thirdFridayOf y m" "thirdFridayOf y m \<le> month_start y m + 20"
  by (simp_all add: thirdFridayOf_def month_start_def Let_def)

lemma month_start_of_day: "civil_of_day n = (y, m, d) \<Longrightarrow> month_start y m = n - (d - 1) \<and> 1 \<le> d \<and> d \<le> 31 \<and> 1 \<le> m \<and> m \<le> 12"
  using civil_of_day_spec [of n y m d]
  by (auto simp: month_start_def day_of_civil_def div_pos_pos_trivial mod_pos_pos_trivial days_in_def split: if_splits)

lemma same_month:
  assumes "civil_of_day n = (y, m, d)" "month_start y m + 14 \<le> t" "t \<le> month_start y m + 20"
  obtains d' where "civil_of_day t = (y, m, d')"
proof -
  have s: "month_start y m = day_of_civil y m 1" "1 \<le> m" "m \<le> 12"
    using month_start_of_day [OF assms(1)] civil_of_day_spec [OF assms(1)] by (auto simp: day_of_civil_def)
  let ?d = "t - month_start y m + 1"
  have "valid_civil y m ?d" using s assms(2,3) days_in_pos [of y m] by (simp add: valid_civil_def)
  moreover have "day_of_civil y m ?d = t" by (simp add: s(1) day_of_civil_def)
  ultimately show ?thesis using civil_of_day_of_civil [of y m ?d] that by simp
qed

lemma set_add_listing: "set (fold (add_listing base) ts dates) = set dates \<union> {t \<in> set ts. base \<le> t \<and> \<not> is_weekend t}"
  by (induction ts arbitrary: dates) (auto simp: add_listing_def)

lemma listing_range:
  assumes "e \<in> set (listingDates base)" shows "base \<le> e" "e \<le> base + 120" "\<not> is_weekend e"
proof -
  obtain y0 m0 d0 where c0: "civil_of_day base = (y0, m0, d0)" by (metis prod_cases3)
  define m1 where "m1 = thirdFridayOf y0 m0"
  have r: "month_start y0 m0 + 14 \<le> m1" "m1 \<le> month_start y0 m0 + 20"
    unfolding m1_def by (rule third_friday_range)+
  obtain d1 where c1: "civil_of_day m1 = (y0, m0, d1)" using same_month [OF c0 r] .
  have s: "month_start y0 m0 \<le> base" using month_start_of_day [OF c0] by simp
  have "month_start y0 (m0 + 1) \<le> base + 31" "month_start y0 (m0 + 2) \<le> base + 62" "month_start y0 (m0 + 3) \<le> base + 93"
    using s month_start_Suc [of y0 m0] month_start_Suc [of y0 "m0 + 1"] month_start_Suc [of y0 "m0 + 2"]
    by (simp_all add: add.assoc)
  then have "thirdFridayOf y0 (m0 + 1) \<le> base + 120" "thirdFridayOf y0 (m0 + 2) \<le> base + 120"
    "thirdFridayOf y0 (m0 + 3) \<le> base + 120" "m1 + 7 \<le> base + 120"
    using third_friday_range(2) [of y0 "m0 + 1"] third_friday_range(2) [of y0 "m0 + 2"]
      third_friday_range(2) [of y0 "m0 + 3"] r s by linarith+
  moreover have e: "e \<in> set (listing_candidates base)" "base \<le> e" "\<not> is_weekend e"
    using assms by (simp_all add: listingDates_def set_add_listing)
  moreover have "listing_candidates base = filter (\<lambda>d. \<not> is_weekend d) [base + 1 .. base + 34]
      @ [m1 + 7, thirdFridayOf y0 (m0 + 1), thirdFridayOf y0 (m0 + 2), thirdFridayOf y0 (m0 + 3)]"
    by (simp add: listing_candidates_def c0 c1 Let_def m1_def [symmetric])
  ultimately show "base \<le> e" "e \<le> base + 120" "\<not> is_weekend e" by auto
qed

lemma listing_dte_eq: "\<bar>e - base\<bar> \<le> 106751 \<Longrightarrow> listing_dte base e = Fin (of_int (e - base))"
proof -
  let ?k = "e - base"
  assume a: "\<bar>?k\<bar> \<le> 106751"
  have "(of_int (24 * ?k) :: real) / 24 = of_int ?k" by simp
  then have "Fin (of_int (24 * ?k)) / lit 24 = Fin (of_int ?k)"
    using a rnd_of_int [of ?k] by (simp add: f64_simps del: of_int_mult of_int_diff)
  then show ?thesis using a by (simp add: listing_dte_def time_Sub_days Hours_days)
qed

section \<open>The generators return\<close>

definition modest :: "f64 \<Rightarrow> f64 \<Rightarrow> bool" where
  "modest spot vol \<longleftrightarrow> bounded_by (2 ^ 30) spot \<and> bounded_by (2 ^ 10) vol"

lemma listing_sd_bounded:
  assumes "modest spot vol" "0 \<le> d" "d \<le> 365" shows "bounded_by (2 ^ 40) (listing_sd spot vol (Fin (of_int d)))"
proof -
  have q: "0 \<le> (of_int d :: real) / 365" "(of_int d :: real) / 365 \<le> 1" using assms(2,3) by simp_all
  obtain x where x: "Fin (of_int d) / lit 365 = Fin x" "0 \<le> x" "x \<le> 1"
    using rnd_unit [OF q] by (auto simp: f64_simps)
  have "bounded_by 1 (math_Sqrt (Fin (of_int d) / lit 365))"
    using bounded_by_rnd [of "sqrt x" 1] x by simp
  then show ?thesis
    using assms(1) bounded_by_times [of "2 ^ 40" "spot * vol" 1] bounded_by_times [of "2 ^ 30" spot "2 ^ 10" vol]
    by (simp add: listing_sd_def modest_def)
qed

text \<open>The numbers of one listing: a bound, an increment on the ladder and a first strike on its grid.\<close>

lemma listing_numbers:
  assumes "modest spot vol" "base \<le> e" "e \<le> base + 120"
  defines "sd \<equiv> listing_sd spot vol (listing_dte base e)" and "inc \<equiv> strikeIncrement spot (listing_dte base e)"
  obtains h i j where "spot + lit 2 * sd = Fin h" "h \<le> 2 ^ 50" "inc = Fin (of_int i / 2)" "1 \<le> i" "i \<le> 1000"
    "math_Ceil ((spot - lit 2 * sd) / inc) * inc = Fin (of_int j / 2)" "- (2 ^ 53) \<le> j"
proof -
  have dte: "listing_dte base e = Fin (of_int (e - base))" using assms(2,3) by (intro listing_dte_eq) simp
  have "bounded_by (2 ^ 40) sd" unfolding sd_def dte using assms(1-3) by (intro listing_sd_bounded) simp_all
  moreover have "bounded_by 2 (lit 2)" by (simp add: bounded_by_def f64_simps)
  ultimately have t: "bounded_by (2 ^ 41) (lit 2 * sd)"
    using bounded_by_times [of 2 "lit 2" "2 ^ 40" sd] by simp
  then obtain y where y: "lit 2 * sd = Fin y" "0 \<le> y" "y \<le> 2 ^ 41" by (auto simp: bounded_by_def)
  obtain x where x: "spot = Fin x" "0 \<le> x" "x \<le> 2 ^ 30" using assms(1) by (auto simp: modest_def bounded_by_def)
  obtain h where h: "spot + lit 2 * sd = Fin h" "h \<le> 2 ^ 50"
    using bounded_by_plus [of "2 ^ 30" spot "2 ^ 41" "lit 2 * sd"] assms(1) t by (auto simp: modest_def bounded_by_def)
  have b: "rnd (- (2 ^ 41)) = Fin (- (2 ^ 41))" "rnd (2 ^ 41) = Fin (2 ^ 41)" "rnd (- (2 ^ 42)) = Fin (- (2 ^ 42))"
      "rnd (2 ^ 42) = Fin (2 ^ 42)"
    using rnd_of_int [of "- (2 ^ 41)"] rnd_of_int [of "2 ^ 41"] rnd_of_int [of "- (2 ^ 42)"] rnd_of_int [of "2 ^ 42"] by simp_all
  obtain z where z: "spot - lit 2 * sd = Fin z" "- (2 ^ 41) \<le> z" "z \<le> 2 ^ 41"
    using rnd_between [OF b(1,2), of "x - y"] x y by (auto simp: minus_f64_def)
  obtain i where i: "inc = Fin (of_int i / 2)" "1 \<le> i" "i \<le> 1000" unfolding inc_def using strikeIncrement_rung by blast
  have "1 / 2 \<le> (of_int i :: real) / 2" using i(2) by simp
  then have "\<bar>z\<bar> / (of_int i / 2) \<le> \<bar>z\<bar> / (1 / 2)" using i(2) by (intro divide_left_mono) simp_all
  moreover have "\<bar>z / (of_int i / 2)\<bar> = \<bar>z\<bar> / (of_int i / 2)" using i(2) by (simp add: abs_mult)
  moreover have "\<bar>z\<bar> / (1 / 2) \<le> 2 ^ 42" using z(2,3) by (simp add: abs_le_iff)
  ultimately have "\<bar>z / (of_int i / 2)\<bar> \<le> 2 ^ 42" by linarith
  then have "- (2 ^ 42) \<le> z / (of_int i / 2)" "z / (of_int i / 2) \<le> 2 ^ 42" by linarith+
  from rnd_between [OF b(3,4) this]
  obtain w where w: "Fin z / Fin (of_int i / 2) = Fin w" "- (2 ^ 42) \<le> w" "w \<le> 2 ^ 42" using i(2) by auto
  have c: "- (2 ^ 42) \<le> \<lceil>w\<rceil>" "\<lceil>w\<rceil> \<le> 2 ^ 42"
    using w(2,3) by (simp_all add: le_ceiling_iff ceiling_le_iff)
  have "\<bar>\<lceil>w\<rceil>\<bar> \<le> 2 ^ 42" using c by linarith
  then have "\<bar>\<lceil>w\<rceil> * i\<bar> \<le> 2 ^ 42 * 1000" unfolding abs_mult using i by (intro mult_mono) simp_all
  then have ci: "\<bar>\<lceil>w\<rceil> * i\<bar> \<le> 2 ^ 53" by simp
  then have "- (2 ^ 53) \<le> \<lceil>w\<rceil> * i" by simp
  moreover have "math_Ceil ((spot - lit 2 * sd) / inc) * inc = Fin (of_int (\<lceil>w\<rceil> * i) / 2)"
    unfolding z(1) i(1) w(1) using rnd_dyadic [OF ci, of 1] by simp
  ultimately show ?thesis using that [of h i "\<lceil>w\<rceil> * i"] h i by blast
qed

lemma emit_listing_eq:
  assumes "modest spot vol" "base \<le> e" "e \<le> base + 120"
  defines "dte \<equiv> listing_dte base e" and "sd \<equiv> listing_sd spot vol (listing_dte base e)"
  obtains ks where "\<And>g st. emit_listing spot vol base g e st = Some (fold (emit_strike g spot vol (format_ymd e) dte sd) ks st)"
    "\<And>k. k = math_Ceil ((spot - lit 2 * sd) / strikeIncrement spot dte) * strikeIncrement spot dte \<Longrightarrow>
      k \<le> spot + lit 2 * sd \<Longrightarrow> k \<in> set ks"
proof -
  obtain h i j where n: "spot + lit 2 * sd = Fin h" "h \<le> 2 ^ 50" "strikeIncrement spot dte = Fin (of_int i / 2)" "1 \<le> i" "i \<le> 1000"
    "math_Ceil ((spot - lit 2 * sd) / strikeIncrement spot dte) * strikeIncrement spot dte = Fin (of_int j / 2)" "- (2 ^ 53) \<le> j"
    unfolding dte_def sd_def using listing_numbers [OF assms(1-3)] .
  have ex: "\<exists>n. strike_loop (Fin h) (Fin (of_int i / 2)) body (Fin (of_int j / 2)) st
      = Some (fold body (map (grid j i) [0..<n]) st) \<and> (\<forall>m < n. grid j i m \<le> Fin h) \<and> \<not> grid j i n \<le> Fin h"
    for body :: "f64 \<Rightarrow> gen_state \<Rightarrow> gen_state" and st
    by (rule strike_loop_grid [OF n(4,5,7,2)])
  obtain N where N: "(\<forall>m < N. grid j i m \<le> Fin h) \<and> \<not> grid j i N \<le> Fin h" using ex by blast
  have "m = N" if "(\<forall>l < m. grid j i l \<le> Fin h) \<and> \<not> grid j i m \<le> Fin h" for m
    using that N by (metis linorder_neqE_nat)
  then have eq: "strike_loop (Fin h) (Fin (of_int i / 2)) body (Fin (of_int j / 2)) st = Some (fold body (map (grid j i) [0..<N]) st)"
    for body :: "f64 \<Rightarrow> gen_state \<Rightarrow> gen_state" and st using ex [of body st] by blast
  have sd': "listing_sd spot vol dte = sd" by (simp add: sd_def dte_def)
  show ?thesis
  proof (rule that [of "map (grid j i) [0..<N]"])
    show "emit_listing spot vol base g e st = Some (fold (emit_strike g spot vol (format_ymd e) dte sd) (map (grid j i) [0..<N]) st)"
      for g st by (simp only: emit_listing_def Let_def dte_def [symmetric] sd' n(1,3) n(6) [unfolded n(3)] eq)
    fix k assume k: "k = math_Ceil ((spot - lit 2 * sd) / strikeIncrement spot dte) * strikeIncrement spot dte"
      "k \<le> spot + lit 2 * sd"
    then have "k = grid j i 0" "grid j i 0 \<le> Fin h" by (simp_all only: n(1,6)) (simp_all add: grid_def)
    then show "k \<in> set (map (grid j i) [0..<N])" using N by (cases "N = 0") auto
  qed
qed

lemma emit_all_total:
  assumes "modest spot vol" "\<And>g e. (g, e) \<in> set ls \<Longrightarrow> base \<le> e \<and> e \<le> base + 120"
  shows "\<exists>st'. emit_all spot vol base ls st = Some st'"
  using assms(2)
proof (induction ls arbitrary: st)
  case (Cons l ls)
  obtain g e where l: "l = (g, e)" by fastforce
  obtain ks where "\<And>st. emit_listing spot vol base g e st = Some (fold (emit_strike g spot vol (format_ymd e)
      (listing_dte base e) (listing_sd spot vol (listing_dte base e))) ks st)"
    using emit_listing_eq [OF assms(1), of base e] Cons.prems [of g e] l by (metis list.set_intros(1))
  moreover have "\<exists>st'. emit_all spot vol base ls st1 = Some st'" for st1 using Cons by (metis list.set_intros(2))
  ultimately show ?case by (simp add: l)
qed simp

end
