(* ===== verification/Synthetic_Props.thy ===== *)
theory Synthetic_Props
  imports Synthetic Book Market_Select Numbered_Rows
begin

text \<open>
  What the chain generators guarantee: on anchors of a sane size they return, what they return
  has the shape the rest of the package relies on, on huge anchors they never return, and on the
  fourth Friday of a month they list an expiry of the same day whose row the book refuses.
\<close>

section \<open>The rows\<close>

definition pair_ok :: "contract \<Rightarrow> contract \<Rightarrow> bool" where
  "pair_ok c p \<longleftrightarrow> cRight c = RightCall \<and> cRight p = RightPut \<and> cStrike c = cStrike p \<and> cIV c = cIV p \<and>
     cExpiryDate c = cExpiryDate p \<and> cTradingClass c = cTradingClass p \<and> cSettlement c = cSettlement p"

fun pairs_ok :: "contract list \<Rightarrow> bool" where
  "pairs_ok [] = True"
| "pairs_ok [c] = False"
| "pairs_ok (c # p # cs) = (pair_ok c p \<and> pairs_ok cs)"

lemma pairs_ok_append: "pairs_ok cs \<Longrightarrow> pair_ok c p \<Longrightarrow> pairs_ok (cs @ [c, p])"
  by (induction cs rule: pairs_ok.induct) simp_all

definition row_of :: "gen_class \<Rightarrow> int \<Rightarrow> contract \<Rightarrow> bool" where
  "row_of g e c \<longleftrightarrow> cTicker c = gcTicker g \<and> cTradingClass c = gcClass g \<and> cSettlement c = gcSettlement g \<and>
     cExchange c = gcExchange g \<and> cExpiryDate c = format_ymd e \<and> cMultiplier c = DefaultMultiplier"

text \<open>The state of a generator for a ticker, over the listings it has visited.\<close>

definition gen_ok :: "string \<Rightarrow> (gen_class \<times> int) set \<Rightarrow> gen_state \<Rightarrow> bool" where
  "gen_ok t L st \<longleftrightarrow> pairs_ok (gsOut st) \<and>
     numbered t (gsOut st) \<and>
     gsConID st = SyntheticConIDBase t - int (length (gsOut st)) \<and>
     (\<forall>c \<in> set (gsOut st). \<exists>(g, e) \<in> L. row_of g e c)"

lemma emit_strike_out:
  "\<exists>strike rng callOI putOI iv. emit_strike g spot vol expiry dte sd k st =
     \<lparr>gsRng = rng, gsConID = gsConID st - 2,
      gsOut = gsOut st @ [generated g expiry (gsConID st - 1) strike RightCall callOI iv,
                          generated g expiry (gsConID st - 2) strike RightPut putOI iv]\<rparr>"
  unfolding emit_strike_def Let_def by (auto split: prod.splits)

lemma emit_strike_ok:
  assumes "gen_ok t L st" "(g, e) \<in> L" shows "gen_ok t L (emit_strike g spot vol (format_ymd e) dte sd k st)"
proof -
  let ?n = "length (gsOut st)"
  obtain strike rng callOI putOI iv where s: "emit_strike g spot vol (format_ymd e) dte sd k st =
     \<lparr>gsRng = rng, gsConID = gsConID st - 2,
      gsOut = gsOut st @ [generated g (format_ymd e) (gsConID st - 1) strike RightCall callOI iv,
                          generated g (format_ymd e) (gsConID st - 2) strike RightPut putOI iv]\<rparr>"
    using emit_strike_out by blast
  have r: "row_of g e (generated g (format_ymd e) n strike right oi iv)" for n right oi
    by (simp add: row_of_def generated_def)
  have p: "pairs_ok (gsOut (emit_strike g spot vol (format_ymd e) dte sd k st))"
    using assms(1) unfolding s by (auto simp: gen_ok_def generated_def pair_ok_def intro!: pairs_ok_append)
  have x: "\<exists>(ga, ea) \<in> L. row_of ga ea (generated g (format_ymd e) n strike right oi iv)" for n right oi
    using assms(2) r by (intro bexI [of _ "(g, e)"]) simp_all
  have "\<forall>c \<in> set (gsOut (emit_strike g spot vol (format_ymd e) dte sd k st)). \<exists>(g, e) \<in> L. row_of g e c"
    using assms(1) x unfolding s gen_ok_def by simp
  with p assms(1) show ?thesis
    unfolding s gen_ok_def numbered_def by (simp add: generated_def)
qed

lemma emit_listing_ok:
  "emit_listing spot vol base g e st = Some st' \<Longrightarrow> gen_ok t L st \<Longrightarrow> (g, e) \<in> L \<Longrightarrow> gen_ok t L st'"
  unfolding emit_listing_def Let_def by (erule strike_loop_inv) (auto intro: emit_strike_ok)

lemma emit_all_ok:
  "emit_all spot vol base ls st = Some st' \<Longrightarrow> gen_ok t L st \<Longrightarrow> set ls \<subseteq> L \<Longrightarrow> gen_ok t L st'"
proof (induction ls arbitrary: st)
  case (Cons l ls)
  obtain g e where l: "l = (g, e)" by fastforce
  obtain st1 where "emit_listing spot vol base g e st = Some st1" "emit_all spot vol base ls st1 = Some st'"
    using Cons.prems(1) by (auto simp: l bind_eq_Some_conv)
  then show ?case using Cons emit_listing_ok [of spot vol base g e st st1 t L] by (simp add: l)
qed simp

lemma gen_start_ok: "gen_ok t L (gen_start t base)"
  by (simp add: gen_ok_def gen_start_def numbered_def)

lemma gen_finish_Inr: "gen_finish t spot asOf ut ex st = Inr snap \<Longrightarrow> gsOut st \<noteq> [] \<and>
    snap = \<lparr>chTicker = t, chSpot = spot, chAsOfMs = UnixMilli asOf, chContracts = gsOut st, chUnderlyingType = ut, chExchange = ex\<rparr>"
  by (auto simp: gen_finish_def split: if_splits)

definition own_listings :: "string \<Rightarrow> int \<Rightarrow> (gen_class \<times> int) set" where
  "own_listings t base = {(g, e). gcTicker g = t \<and> e \<in> set (listingDates base) \<and>
     (gcSettlement g = SettlementPM \<or> gcSettlement g = SettlementAM \<and> isThirdFriday e)}"

lemma index_listings_own: "set (index_listings spec base) \<subseteq> own_listings (icTicker spec) base"
  by (auto simp: index_listings_def own_listings_def Let_def split: if_splits)

lemma generated_state:
  assumes "GenerateChain t spot vol asOf = Some (Inr snap) \<or>
    (\<exists>spec. icTicker spec = t \<and> GenerateIndexChain spec spot vol asOf = Some (Inr snap))"
  obtains st where "gen_ok t (own_listings t (day_of asOf)) st" "gsOut st \<noteq> []" "chContracts snap = gsOut st"
    "chTicker snap = t" "chSpot snap = spot"
  using assms
proof
  assume "GenerateChain t spot vol asOf = Some (Inr snap)"
  then obtain g st where g: "g = \<lparr>gcTicker = t, gcClass = t, gcSettlement = SettlementPM, gcExchange = []\<rparr>"
    and e: "emit_all spot vol (day_of asOf) (map (Pair g) (listingDates (day_of asOf))) (gen_start t (day_of asOf)) = Some st"
    and f: "gen_finish t spot asOf SecTypeSTK [] st = Inr snap"
    by (auto simp: GenerateChain_def Let_def split: if_splits)
  have "set (map (Pair g) (listingDates (day_of asOf))) \<subseteq> own_listings t (day_of asOf)"
    by (auto simp: own_listings_def g)
  from emit_all_ok [OF e gen_start_ok this] gen_finish_Inr [OF f] show thesis using that [of st] by simp
next
  assume "\<exists>spec. icTicker spec = t \<and> GenerateIndexChain spec spot vol asOf = Some (Inr snap)"
  then obtain spec st where t: "icTicker spec = t"
    and e: "emit_all spot vol (day_of asOf) (index_listings spec (day_of asOf)) (gen_start t (day_of asOf)) = Some st"
    and f: "gen_finish t spot asOf SecTypeIND (icExchange spec) st = Inr snap"
    by (auto simp: GenerateIndexChain_def Let_def split: if_splits)
  from emit_all_ok [OF e gen_start_ok index_listings_own [of spec "day_of asOf", unfolded t]] gen_finish_Inr [OF f]
  show thesis using that [of st] by simp
qed

lemma index_listing_dates: "(g, e) \<in> set (index_listings spec base) \<Longrightarrow> e \<in> set (listingDates base)"
  using index_listings_own [of spec base] by (auto simp: own_listings_def)

lemma chain_total: assumes "modest spot vol" shows "\<exists>r. GenerateChain t spot vol asOf = Some r"
proof (cases "t = [] \<or> bad_anchor spot vol")
  case False
  let ?b = "day_of asOf" and ?g = "\<lparr>gcTicker = t, gcClass = t, gcSettlement = SettlementPM, gcExchange = []\<rparr>"
  have "\<exists>st. emit_all spot vol ?b (map (Pair ?g) (listingDates ?b)) (gen_start t ?b) = Some st"
    using listing_range [of _ ?b] by (intro emit_all_total [OF assms]) auto
  then show ?thesis using False by (auto simp: GenerateChain_def Let_def)
qed (auto simp: GenerateChain_def)

lemma index_total: assumes "modest spot vol" shows "\<exists>r. GenerateIndexChain spec spot vol asOf = Some r"
proof -
  let ?b = "day_of asOf"
  have "\<exists>st. emit_all spot vol ?b (index_listings spec ?b) (gen_start (icTicker spec) ?b) = Some st"
    using listing_range [of _ ?b] index_listing_dates [of _ _ spec ?b] by (intro emit_all_total [OF assms]) blast
  then show ?thesis by (auto simp: GenerateIndexChain_def Let_def)
qed

section \<open>The expiry of the same day\<close>

text \<open>The day a week after the third Friday of its month; the source lists it even on the day itself.\<close>

definition fourth_friday :: "int \<Rightarrow> bool" where
  "fourth_friday n = (case civil_of_day n of (y, m, _) \<Rightarrow> n = thirdFridayOf y m + 7)"

lemma weekday_add: "weekday (a + b) = (weekday a + b) mod 7"
  by (simp add: weekday_def mod_simps algebra_simps)

lemma third_friday_weekday: "weekday (thirdFridayOf y m) = 5"
  by (simp add: thirdFridayOf_def Let_def weekday_def mod_simps) presburger

lemma fourth_friday_listed: assumes "fourth_friday base" shows "base \<in> set (listingDates base)"
proof -
  obtain y m d where c: "civil_of_day base = (y, m, d)" by (metis prod_cases3)
  define m1 where "m1 = thirdFridayOf y m"
  have b: "base = m1 + 7" using assms by (simp add: fourth_friday_def c m1_def)
  have "weekday base = 5" unfolding b m1_def by (simp add: weekday_add third_friday_weekday)
  then have "\<not> is_weekend base" by (simp add: is_weekend_def)
  moreover obtain y1 k1 d1 where c1: "civil_of_day m1 = (y1, k1, d1)" by (metis prod_cases3)
  have "m1 + 7 \<in> set (listing_candidates base)"
    by (simp add: listing_candidates_def c c1 Let_def m1_def [symmetric])
  ultimately show ?thesis by (simp add: listingDates_def set_add_listing flip: b)
qed

text \<open>A spot that is a strike of the ladder of the day.\<close>

definition on_ladder :: "f64 \<Rightarrow> bool" where
  "on_ladder spot \<longleftrightarrow> math_Ceil (spot / strikeIncrement spot 0) * strikeIncrement spot 0 = spot \<and>
     math_Round (spot * lit 100) / lit 100 = spot"

lemma times_NaN [simp]: "(a :: f64) * NaN = NaN"
  by (cases a) simp_all

lemma oi_bump_NaN: "oi_bump (Fin x) (Fin x) (Fin 0) b rng = (NaN, snd (rng_Float64 rng))"
  by (simp add: oi_bump_def Let_def minus_f64_def sgn_inf_def math_Max_def f64_simps split: prod.split)

lemma openInterest_NaN:
  assumes "rnd x = Fin x" shows "\<exists>put rng'. openInterest rng (Fin x) (Fin x) (Fin 0) = ((NaN, put), rng')"
proof -
  have w: "lit c * Fin 0 = Fin 0" if "rnd c = Fin z" for c z using that by simp
  obtain a b c d e where r: "rnd (9 / 10) = Fin a" "rnd (12 / 10) = Fin b" using rnd_between [of 0 2 "9 / 10"] rnd_between [of 0 2 "12 / 10"]
    by (auto simp: f64_simps)
  have "Fin x + lit (9 / 10) * Fin 0 = Fin x" using assms r by simp
  then show ?thesis using r by (simp add: openInterest_def oi_bump_NaN split: prod.split)
qed

lemma emit_strike_grows: "set (gsOut st) \<subseteq> set (gsOut (emit_strike g spot vol expiry dte sd k st))"
  using emit_strike_out [of g spot vol expiry dte sd k st] by auto

lemma emit_listing_grows:
  "emit_listing spot vol base g e st = Some st' \<Longrightarrow> A \<subseteq> set (gsOut st) \<Longrightarrow> A \<subseteq> set (gsOut st')"
  unfolding emit_listing_def Let_def by (erule strike_loop_inv) (use emit_strike_grows in blast)+

lemma emit_all_grows:
  "emit_all spot vol base ls st = Some st' \<Longrightarrow> A \<subseteq> set (gsOut st) \<Longrightarrow> A \<subseteq> set (gsOut st')"
proof (induction ls arbitrary: st)
  case (Cons l ls)
  then show ?case using emit_listing_grows by (cases l) (fastforce simp: bind_eq_Some_conv)
qed simp

lemma emit_all_visits:
  assumes "emit_all spot vol base ls st = Some st'" "(g, e) \<in> set ls"
  obtains st1 st2 where "emit_listing spot vol base g e st1 = Some st2" "set (gsOut st2) \<subseteq> set (gsOut st')"
proof -
  have "\<exists>st1 st2. emit_listing spot vol base g e st1 = Some st2 \<and> set (gsOut st2) \<subseteq> set (gsOut st')"
    using assms
  proof (induction ls arbitrary: st)
    case (Cons l ls)
    obtain g' e' where l: "l = (g', e')" by fastforce
    obtain st1 where s: "emit_listing spot vol base g' e' st = Some st1" "emit_all spot vol base ls st1 = Some st'"
      using Cons.prems(1) by (auto simp: l bind_eq_Some_conv)
    show ?case
    proof (cases "l = (g, e)")
      case True
      then show ?thesis using s l emit_all_grows [OF s(2), of "set (gsOut st1)"] by blast
    next
      case False
      then show ?thesis using Cons s(2) by auto
    qed
  qed simp
  then show ?thesis using that by blast
qed

lemma fold_emit_visits:
  assumes "k \<in> set ks"
  shows "\<exists>st0. set (gsOut (emit_strike g spot vol expiry dte sd k st0)) \<subseteq> set (gsOut (fold (emit_strike g spot vol expiry dte sd) ks st))"
  using assms
proof (induction ks rule: rev_induct)
  case (snoc a ks)
  show ?case
  proof (cases "k = a")
    case True
    then show ?thesis by auto
  next
    case False
    then obtain st0 where "set (gsOut (emit_strike g spot vol expiry dte sd k st0)) \<subseteq> set (gsOut (fold (emit_strike g spot vol expiry dte sd) ks st))"
      using snoc by auto
    then show ?thesis using emit_strike_grows by fastforce
  qed
qed simp

text \<open>The row a listing of the same day gets at the spot: its open interest is not a number.\<close>

definition bad_row :: "gen_class \<Rightarrow> int \<Rightarrow> f64 \<Rightarrow> contract \<Rightarrow> bool" where
  "bad_row g e spot c \<longleftrightarrow> row_of g e c \<and> cStrike c = spot \<and> cOpenInterest c = NaN"

lemma emit_strike_bad:
  assumes "rnd x = Fin x" "math_Round (Fin x * lit 100) / lit 100 = Fin x"
  shows "\<exists>c \<in> set (gsOut (emit_strike g (Fin x) vol (format_ymd e) dte (Fin 0) (Fin x) st)). bad_row g e (Fin x) c"
proof -
  obtain put rng' where "openInterest (gsRng st) (Fin x) (Fin x) (Fin 0) = ((NaN, put), rng')"
    using openInterest_NaN [OF assms(1)] by blast
  then show ?thesis using assms(2)
    by (simp add: emit_strike_def Let_def bad_row_def row_of_def generated_def)
qed

lemma on_ladder_Fin: assumes "modest spot vol" "on_ladder spot" obtains x where "spot = Fin x" "rnd x = Fin x"
proof -
  obtain x where x: "spot = Fin x" using assms(1) by (auto simp: modest_def bounded_by_def)
  have "math_Round (Fin x * lit 100) / lit 100 = Fin x" using assms(2) by (simp add: on_ladder_def x)
  then have "\<exists>z. rnd z = Fin x" by (cases "math_Round (Fin x * lit 100)") (auto simp: f64_simps split: if_splits)
  then have "rnd x = Fin x" using is_f64_Fin_rnd is_f64_rnd by metis
  then show ?thesis using that x by blast
qed

lemma same_day_row:
  assumes "modest spot vol" "on_ladder spot" "emit_listing spot vol base g base st = Some st'"
  shows "\<exists>c \<in> set (gsOut st'). bad_row g base spot c"
proof -
  obtain x where x: "spot = Fin x" "rnd x = Fin x" using on_ladder_Fin [OF assms(1,2)] .
  have d: "listing_dte base base = Fin 0" using listing_dte_eq [of base base] by simp
  obtain y where y: "spot * vol = Fin y"
    using bounded_by_times [of "2 ^ 30" spot "2 ^ 10" vol] assms(1) by (auto simp: modest_def bounded_by_def)
  have sd: "listing_sd spot vol (listing_dte base base) = Fin 0" by (simp add: listing_sd_def d y f64_simps)
  have z: "spot - lit 2 * Fin 0 = spot" "spot + lit 2 * Fin 0 = spot" using x by (simp_all add: minus_f64_def f64_simps)
  obtain ks where ks: "\<And>g st. emit_listing spot vol base g base st =
        Some (fold (emit_strike g spot vol (format_ymd base) (Fin 0) (Fin 0)) ks st)"
    "\<And>k. k = math_Ceil ((spot - lit 2 * Fin 0) / strikeIncrement spot (Fin 0)) * strikeIncrement spot (Fin 0) \<Longrightarrow>
      k \<le> spot + lit 2 * Fin 0 \<Longrightarrow> k \<in> set ks"
    using emit_listing_eq [OF assms(1), of base base] unfolding sd unfolding d by (metis le_add_same_cancel1 order_refl zero_le_numeral)
  have "math_Ceil (spot / strikeIncrement spot (Fin 0)) * strikeIncrement spot (Fin 0) = spot"
    using assms(2) by (simp add: on_ladder_def zero_f64_def)
  then have "spot \<in> set ks" by (intro ks(2) [unfolded z]) (simp_all add: x(1))
  then obtain st0 where v: "set (gsOut (emit_strike g spot vol (format_ymd base) (Fin 0) (Fin 0) spot st0)) \<subseteq> set (gsOut st')"
    using fold_emit_visits [of spot ks] ks(1) assms(3) by (metis option.inject)
  have "math_Round (Fin x * lit 100) / lit 100 = Fin x" using assms(2) by (simp add: on_ladder_def x)
  then show ?thesis using emit_strike_bad [OF x(2), of g vol base "Fin 0" st0] v unfolding x(1) by blast
qed

section \<open>Anchors on the ladder\<close>

text \<open>A rung close to the target wins over rungs further than a factor of about one and five eighths.\<close>

lemma rung_near:
  assumes "Fin r \<le> t" "t \<le> Fin (5 * r / 4)" "0 < r" shows "\<bar>math_Log (t / Fin r)\<bar> \<le> Fin (1 / 4)"
proof -
  obtain x where x: "t = Fin x" "r \<le> x" "x \<le> 5 * r / 4" using assms by (cases t) auto
  have q: "rnd 1 = Fin 1" "rnd (5 / 4) = Fin (5 / 4)" "rnd (1 / 4) = Fin (1 / 4)" "rnd 0 = Fin 0"
    using rnd_dyadic [of 5 2] rnd_dyadic [of 1 2] by (simp_all add: f64_simps)
  have "1 \<le> x / r" "x / r \<le> 5 / 4" using x assms(3) by (simp_all add: field_simps)
  then obtain y where y: "rnd (x / r) = Fin y" "1 \<le> y" "y \<le> 5 / 4" using rnd_between [OF q(1,2)] by blast
  have "0 \<le> ln y" "ln y \<le> 1 / 4" using y ln_le_minus_one [of y] by auto
  then obtain z where "rnd (ln y) = Fin z" "0 \<le> z" "z \<le> 1 / 4" using rnd_between [OF q(4,3)] by blast
  then show ?thesis using x(1) y assms(3) by simp
qed

lemma rung_far:
  assumes "t = Fin x" "0 < r" "0 < x" "13 * r \<le> 8 * x \<or> 8 * x \<le> 5 * r"
  shows "Fin (3 / 8) \<le> \<bar>math_Log (t / Fin r)\<bar>"
proof -
  have q: "rnd (13 / 8) = Fin (13 / 8)" "rnd (5 / 8) = Fin (5 / 8)" "rnd (3 / 8) = Fin (3 / 8)" "rnd (- (3 / 8)) = Fin (- (3 / 8))"
    using rnd_dyadic [of 13 3] rnd_dyadic [of 5 3] rnd_dyadic [of 3 3] rnd_dyadic [of "- 3" 3] by simp_all
  show ?thesis
  proof (cases "13 * r \<le> 8 * x")
    case True
    then have "Fin (13 / 8) \<le> rnd (x / r)" unfolding q(1) [symmetric] using assms(2) by (intro rnd_mono) (simp add: field_simps)
    then consider "rnd (x / r) = PInf" | y where "rnd (x / r) = Fin y" "13 / 8 \<le> y" by (cases "rnd (x / r)") auto
    then show ?thesis
    proof cases
      case 2
      have "ln (8 / 13 :: real) \<le> 8 / 13 - 1" by (rule ln_le_minus_one) simp
      moreover have "ln (13 / 8) \<le> ln y" using 2 by simp
      moreover have "ln (8 / 13 :: real) = - ln (13 / 8)" by (simp add: ln_div)
      ultimately have "Fin (3 / 8) \<le> rnd (ln y)" unfolding q(3) [symmetric] by (intro rnd_mono) simp
      then show ?thesis using 2 assms by (cases "rnd (ln y)") auto
    qed (use assms(1,2) in simp)
  next
    case False
    then have le: "8 * x \<le> 5 * r" using assms(4) by simp
    have "rnd (x / r) \<le> Fin (5 / 8)" unfolding q(2) [symmetric] using le assms(2) by (intro rnd_mono) (simp add: field_simps)
    moreover have "Fin 0 \<le> rnd (x / r)" using assms(2,3) by (intro rnd_nonneg) simp
    ultimately obtain y where y: "rnd (x / r) = Fin y" "0 \<le> y" "y \<le> 5 / 8" by (cases "rnd (x / r)") auto
    show ?thesis
    proof (cases "y = 0")
      case False
      then have "ln y \<le> 5 / 8 - 1" using y ln_le_minus_one [of y] by simp
      then have "rnd (ln y) \<le> Fin (- (3 / 8))" unfolding q(4) [symmetric] by (intro rnd_mono) simp
      then show ?thesis using y False assms by (cases "rnd (ln y)") auto
    qed (use y assms in simp)
  qed
qed

lemma fold_rung_far:
  "(\<And>l. l \<in> set ls \<Longrightarrow> b \<le> \<bar>math_Log (t / l)\<bar>) \<Longrightarrow> snd bd \<le> b \<Longrightarrow> fold (nearer_rung t) ls bd = bd"
proof (induction ls)
  case (Cons l ls)
  have "snd bd \<le> \<bar>math_Log (t / l)\<bar>" using Cons.prems(1) [of l] Cons.prems(2) le_f64_trans by auto
  then have "nearer_rung t l bd = bd" by (simp add: nearer_rung_def Let_def less_f64_def)
  with Cons show ?case by simp
qed simp

lemma fold_rung_before:
  "(\<And>l. l \<in> set ls \<Longrightarrow> b \<le> \<bar>math_Log (t / l)\<bar>) \<Longrightarrow> b \<le> snd bd \<Longrightarrow> b \<le> snd (fold (nearer_rung t) ls bd)"
  by (induction ls arbitrary: bd) (simp_all add: nearer_rung_def Let_def)

lemma nearest_rung:
  assumes "\<And>l. l \<in> set pre \<union> set post \<Longrightarrow> Fin (3 / 8) \<le> \<bar>math_Log (t / l)\<bar>" "\<bar>math_Log (t / l)\<bar> \<le> Fin (1 / 4)"
    "Fin (3 / 8) \<le> snd bd"
  shows "fst (fold (nearer_rung t) (pre @ l # post) bd) = l"
proof -
  have "Fin (3 / 8) \<le> snd (fold (nearer_rung t) pre bd)" using assms(1,3) by (intro fold_rung_before) auto
  then have "\<bar>math_Log (t / l)\<bar> < snd (fold (nearer_rung t) pre bd)"
    using assms(2) le_f64_less_trans less_f64_le_trans [of "Fin (1 / 4)" "Fin (3 / 8)"] by fastforce
  then have "nearer_rung t l (fold (nearer_rung t) pre bd) = (l, \<bar>math_Log (t / l)\<bar>)" by (simp add: nearer_rung_def)
  moreover have "fold (nearer_rung t) post (l, \<bar>math_Log (t / l)\<bar>) = (l, \<bar>math_Log (t / l)\<bar>)"
    by (rule fold_rung_far [of _ "Fin (3 / 8)"]) (use assms le_f64_trans [OF assms(2), of "Fin (3 / 8)"] in auto)
  ultimately show ?thesis by simp
qed

lemma near_rung:
  assumes "strike_target spot dte = Fin x" "ladder = pre @ Fin r # post" "0 < r" "r \<le> x" "x \<le> 5 * r / 4"
    "\<And>l. l \<in> set pre \<union> set post \<Longrightarrow> \<exists>q. l = Fin q \<and> 0 < q \<and> (13 * q \<le> 8 * x \<or> 8 * x \<le> 5 * q)"
  shows "strikeIncrement spot dte = Fin r"
proof -
  have "Fin (3 / 8) \<le> \<bar>math_Log (Fin x / l)\<bar>" if "l \<in> set pre \<union> set post" for l
    using assms(3,4) assms(6) [OF that] rung_far [of "Fin x" x] by force
  moreover have "\<bar>math_Log (Fin x / Fin r)\<bar> \<le> Fin (1 / 4)" using assms(3-5) by (intro rung_near) simp_all
  moreover have "Fin (3 / 8) \<le> Fin max_finite" using max_finite_ge by simp
  ultimately show ?thesis
    unfolding strikeIncrement_def assms(1,2) by (intro nearest_rung) simp_all
qed

text \<open>Two anchors the program ships: QQQ and SPX.\<close>

lemma anchor_increments: "strikeIncrement (Fin 660) 0 = Fin 5" "strikeIncrement (Fin 7600) 0 = Fin 50"
proof -
  have q: "rnd (1 / 128) = Fin (1 / 128)" "rnd (33 / 4096) = Fin (33 / 4096)"
    using rnd_dyadic [of 1 7] rnd_dyadic [of 33 12] by simp_all
  obtain c where c: "rnd (8 / 1000) = Fin c" "1 / 128 \<le> c" "c \<le> 33 / 4096" using rnd_between [OF q, of "8 / 1000"] by auto
  have t: "strike_target spot 0 = spot * Fin c" for spot
    using c(1) by (simp add: strike_target_def zero_f64_def f64_simps)
  have b: "rnd 5 = Fin 5" "rnd (43 / 8) = Fin (43 / 8)" "rnd 59 = Fin 59" "rnd (123 / 2) = Fin (123 / 2)"
    using rnd_dyadic [of 43 3] rnd_dyadic [of 123 1] by (simp_all add: f64_simps)
  obtain x where x: "rnd (660 * c) = Fin x" "5 \<le> x" "x \<le> 43 / 8" using rnd_between [OF b(1,2), of "660 * c"] c(2,3) by auto
  obtain y where y: "rnd (7600 * c) = Fin y" "59 \<le> y" "y \<le> 123 / 2" using rnd_between [OF b(3,4), of "7600 * c"] c(2,3) by auto
  show "strikeIncrement (Fin 660) 0 = Fin 5"
    by (rule near_rung [of _ _ x "map Fin [1 / 2, 1, 2, 5 / 2]" _ "map Fin [10, 20, 25, 50, 100, 200, 250, 500]"])
      (use x in \<open>auto simp: t ladder_Fin\<close>)
  show "strikeIncrement (Fin 7600) 0 = Fin 50"
    by (rule near_rung [of _ _ y "map Fin [1 / 2, 1, 2, 5 / 2, 5, 10, 20, 25]" _ "map Fin [100, 200, 250, 500]"])
      (use y in \<open>auto simp: t ladder_Fin\<close>)
qed

lemma anchors_on_ladder: "on_ladder (Fin 660)" "on_ladder (Fin 7600)"
  by (simp_all add: on_ladder_def anchor_increments f64_simps round_away_def)

section \<open>Huge anchors\<close>

lemma rnd_pow2: assumes "n \<le> 1000" shows "rnd (2 ^ n) = Fin (2 ^ n)" "rnd (- (2 ^ n)) = Fin (- (2 ^ n))"
proof -
  show p: "rnd (2 ^ n) = Fin (2 ^ n)"
  proof (rule rnd_eqI)
    show "rnd_real (2 ^ n) = 2 ^ n" using rnd_real_exact [of 1 "int n"] by simp
    have "(2 :: real) ^ n \<le> 2 ^ 1000" using assms by (intro power_increasing) simp_all
    also have "\<dots> \<le> max_finite" by (simp add: max_finite_def power_int_def)
    finally show "\<bar>2 ^ n\<bar> \<le> max_finite" by simp
  qed
  then show "rnd (- (2 ^ n)) = Fin (- (2 ^ n))" by (simp add: rnd_minus)
qed

text \<open>At \<open>2 ^ 63\<close> neighbouring floats are 2048 apart: an increment of at most 500 is lost.\<close>

lemma rnd_lost: "rnd (2 ^ 63 + 500) = Fin (2 ^ 63)"
proof -
  have l: "\<lfloor>log 2 ((2::real) ^ 63 + 500)\<rfloor> = 63"
    by (rule floor_unique) (simp_all add: le_log_iff log_less_iff powr_numeral)
  then have u: "ulp_exp (2 ^ 63 + 500) = 11" by (simp add: ulp_exp_def)
  have f: "\<lfloor>(2 ^ 63 + 500) / 2048 :: real\<rfloor> = 2 ^ 52" by (rule floor_unique) simp_all
  have "round_even ((2 ^ 63 + 500) / 2048) = 2 ^ 52" unfolding round_even_def Let_def f by simp
  then have r: "rnd_real (2 ^ 63 + 500) = 2 ^ 63" unfolding rnd_real_def u by (simp add: power_int_def)
  have "(2 :: real) ^ 63 \<le> max_finite" by (simp add: max_finite_def power_int_def)
  then show ?thesis using max_finite_pos unfolding rnd_def Let_def r by simp
qed

lemma rnd_ge_pow2: assumes "n \<le> 1000" shows "2 ^ n \<le> x \<Longrightarrow> Fin (2 ^ n) \<le> rnd x" "- (2 ^ n) \<le> x \<Longrightarrow> Fin (- (2 ^ n)) \<le> rnd x"
  using rnd_mono [of "2 ^ n" x] rnd_mono [of "- (2 ^ n)" x] by (simp_all only: rnd_pow2 [OF assms])

definition below_63 :: "f64 \<Rightarrow> bool" where
  "below_63 k \<longleftrightarrow> (\<exists>f. k = Fin f \<and> - (2 ^ 80) \<le> f \<and> f \<le> 2 ^ 63)"

lemma below_63_step:
  assumes "below_63 k" "1 \<le> i" "i \<le> 1000" shows "below_63 (k + Fin (of_int i / 2))"
proof -
  obtain f where f: "k = Fin f" "- (2 ^ 80) \<le> f" "f \<le> 2 ^ 63" using assms(1) by (auto simp: below_63_def)
  have i: "0 \<le> (of_int i :: real)" "(of_int i :: real) \<le> 1000" using assms(2,3) by simp_all
  have "rnd (f + of_int i / 2) \<le> Fin (2 ^ 63)" unfolding rnd_lost [symmetric] using f i by (intro rnd_mono) simp
  moreover have "Fin (- (2 ^ 80)) \<le> rnd (f + of_int i / 2)"
    by (rule rnd_ge_pow2) (use f i in simp_all)
  ultimately show ?thesis by (cases "rnd (f + of_int i / 2)") (auto simp: below_63_def f(1))
qed

lemma huge_listing:
  assumes "base < e" "e \<le> base + 3" shows "emit_listing (Fin (2 ^ 63)) (Fin 16) base g e st = None"
proof -
  let ?dte = "listing_dte base e" and ?sd = "listing_sd (Fin (2 ^ 63)) (Fin 16) (listing_dte base e)"
  have dte: "?dte = Fin (of_int (e - base))" using assms by (intro listing_dte_eq) simp
  have d: "1 \<le> (of_int (e - base) :: real)" "(of_int (e - base) :: real) \<le> 3" using assms by (simp_all flip: of_int_diff)
  have q: "rnd (1 / 512) = Fin (1 / 512)" "rnd 1 = Fin 1" "rnd (1 / 32) = Fin (1 / 32)"
    using rnd_dyadic [of 1 9] rnd_dyadic [of 1 5] by simp_all
  obtain x where x: "rnd (of_int (e - base) / 365) = Fin x" "1 / 512 \<le> x" "x \<le> 1"
    using rnd_between [OF q(1,2), of "of_int (e - base) / 365"] d by auto
  have "sqrt ((1 / 32)\<^sup>2) \<le> sqrt x" using x by (intro real_sqrt_le_mono) (simp add: power2_eq_square)
  then obtain r where r: "rnd (sqrt x) = Fin r" "1 / 32 \<le> r" "r \<le> 1" using rnd_between [OF q(3,2), of "sqrt x"] x by auto
  have "rnd ((2::real) ^ 63 * 16) = Fin (2 ^ 67)" using rnd_pow2(1) [of 67] by simp
  moreover obtain s where s: "rnd (2 ^ 67 * r) = Fin s" "2 ^ 62 \<le> s" "s \<le> 2 ^ 67"
    using rnd_between [OF rnd_pow2(1) [of 62] rnd_pow2(1) [of 67], of "2 ^ 67 * r"] r by auto
  ultimately have sd: "?sd = Fin s" using x(1) r(1) x(2) by (simp add: listing_sd_def dte f64_simps)
  obtain y where y: "lit 2 * Fin s = Fin y" "2 ^ 63 \<le> y" "y \<le> 2 ^ 68"
    using rnd_between [OF rnd_pow2(1) [of 63] rnd_pow2(1) [of 68], of "2 * s"] s by (auto simp: f64_simps)
  have "Fin (2 ^ 63) \<le> rnd (2 ^ 63 + y)" by (rule rnd_ge_pow2) (use y in simp_all)
  moreover have "below_63 k \<Longrightarrow> k \<le> Fin (2 ^ 63)" for k by (auto simp: below_63_def)
  ultimately have hi: "below_63 k \<Longrightarrow> k \<le> Fin (2 ^ 63) + lit 2 * ?sd" for k
    unfolding sd y(1) plus_f64.simps by (blast intro: le_f64_trans)
  obtain z where z: "Fin (2 ^ 63) - lit 2 * ?sd = Fin z" "- (2 ^ 68) \<le> z" "z \<le> 0"
    using rnd_between [OF rnd_pow2(2) [of 68] rnd_0, of "2 ^ 63 - y"] y unfolding sd y(1) by (auto simp: minus_f64_def)
  obtain i where i: "strikeIncrement (Fin (2 ^ 63)) ?dte = Fin (of_int i / 2)" "1 \<le> i" "i \<le> 1000" using strikeIncrement_rung by blast
  have i': "1 \<le> (of_int i :: real)" "(of_int i :: real) \<le> 1000" using i(2,3) by simp_all
  have zi: "- (2 ^ 69) \<le> z / (of_int i / 2)" "z / (of_int i / 2) \<le> 0"
    using z i' mult_left_mono [of 1 "of_int i" "(2::real) ^ 68"] by (simp_all add: field_simps)
  obtain w where w: "Fin z / Fin (of_int i / 2) = Fin w" "- (2 ^ 69) \<le> w" "w \<le> 0"
    using rnd_between [OF rnd_pow2(2) [of 69] rnd_0 zi] i' by auto
  have c: "- (2 ^ 69) \<le> (of_int \<lceil>w\<rceil> :: real)" "(of_int \<lceil>w\<rceil> :: real) \<le> 0"
    using w(2,3) le_of_int_ceiling [of w] by (linarith, simp)
  have ci: "- (2 ^ 79) \<le> of_int \<lceil>w\<rceil> * (of_int i / 2 :: real)" "of_int \<lceil>w\<rceil> * (of_int i / 2 :: real) \<le> 0"
    using c i' mult_mono [of "- of_int \<lceil>w\<rceil>" "(2::real) ^ 69" "of_int i / 2" 500] by (simp_all add: mult_nonpos_nonneg)
  obtain f where f: "Fin (of_int \<lceil>w\<rceil>) * Fin (of_int i / 2) = Fin f" "- (2 ^ 79) \<le> f" "f \<le> 0"
    using rnd_between [OF rnd_pow2(2) [of 79] rnd_0 ci] by auto
  have start: "below_63 (math_Ceil (Fin z / Fin (of_int i / 2)) * Fin (of_int i / 2))"
    unfolding w(1) math_Ceil.simps f(1) using f(2,3) by (simp add: below_63_def)
  show ?thesis
    unfolding emit_listing_def Let_def z(1) i(1)
    by (rule strike_loop_stuck [of below_63, OF start]) (use hi below_63_step [OF _ i(2,3)] in blast)
qed

lemma next_weekday: "\<exists>e \<in> set (listingDates base). base < e \<and> e \<le> base + 3"
proof -
  have "\<exists>e. base < e \<and> e \<le> base + 3 \<and> \<not> is_weekend e" unfolding is_weekend_def weekday_def by presburger
  then obtain e where e: "base < e" "e \<le> base + 3" "\<not> is_weekend e" by blast
  moreover obtain y m d where c: "civil_of_day base = (y, m, d)" by (metis prod_cases3)
  moreover obtain y1 m1 d1 where "civil_of_day (thirdFridayOf y m) = (y1, m1, d1)" by (metis prod_cases3)
  ultimately have "e \<in> set (listing_candidates base)" by (simp add: listing_candidates_def Let_def)
  then show ?thesis using e by (auto simp: listingDates_def set_add_listing)
qed

lemma emit_all_stuck:
  "(g, e) \<in> set ls \<Longrightarrow> (\<And>st. emit_listing spot vol base g e st = None) \<Longrightarrow> emit_all spot vol base ls st = None"
proof (induction ls arbitrary: st)
  case (Cons l ls)
  then show ?case by (cases l; cases "emit_listing spot vol base (fst l) (snd l) st") auto
qed simp

section \<open>Properties\<close>

text \<open>
  Property C28. The generators return: on a spot of at most \<open>2 ^ 30\<close> and a volatility of at most
  \<open>2 ^ 10\<close>, whatever the ticker and the date, every strike loop ends, so the call has a result, a
  chain or an error.
\<close>

theorem generators_return:
  assumes "bounded_by (2 ^ 30) spot" "bounded_by (2 ^ 10) vol"
  shows "(\<exists>r. GenerateChain t spot vol asOf = Some r) \<and> (\<exists>r. GenerateIndexChain spec spot vol asOf = Some r)"
  using chain_total index_total assms by (simp add: modest_def)

lemma anchor_modest: "modest (Fin 660) (lit (22 / 100))" "modest (Fin 7600) (lit (15 / 100))"
  using bounded_by_rnd [of "22 / 100" "2 ^ 10"] bounded_by_rnd [of "15 / 100" "2 ^ 10"]
  by (simp_all add: modest_def) (simp_all add: bounded_by_def)

theorem generators_return_witness: "\<exists>r. GenerateChain ''QQQ'' (Fin 660) (lit (22 / 100)) 0 = Some r"
  using generators_return [of "Fin 660" "lit (22 / 100)" "''QQQ''" 0] anchor_modest(1) by (simp add: modest_def)

text \<open>
  Property C27. What a generator returns has the shape the rest of the package relies on: rows come
  in pairs of a call and a put at one strike, expiry, class and volatility; the ids are distinct,
  negative and, as long as the rows fit into it, in the slot of the ticker; every expiry is a
  weekday of the listing calendar, within 120 days; and the AM-settled rows are third Fridays.
\<close>

theorem generated_rows:
  assumes "GenerateChain t spot vol asOf = Some (Inr snap) \<or>
    (\<exists>spec. icTicker spec = t \<and> GenerateIndexChain spec spot vol asOf = Some (Inr snap))"
  shows "chTicker snap = t \<and> chSpot snap = spot \<and> chContracts snap \<noteq> [] \<and> pairs_ok (chContracts snap) \<and>
    distinct (map cConId (chContracts snap)) \<and>
    (int (length (chContracts snap)) \<le> ConIdSlotWidth \<longrightarrow> (\<forall>c \<in> set (chContracts snap). ConIdMatchesTicker (cConId c) t)) \<and>
    (\<forall>c \<in> set (chContracts snap). cTicker c = t \<and> cConId c < 0 \<and> cMultiplier c = DefaultMultiplier \<and>
      (\<exists>e. cExpiryDate c = format_ymd e \<and> day_of asOf \<le> e \<and> e \<le> day_of asOf + 120 \<and> \<not> is_weekend e \<and>
        (cSettlement c = SettlementPM \<or> cSettlement c = SettlementAM \<and> isThirdFriday e)))"
proof -
  obtain st where st: "gen_ok t (own_listings t (day_of asOf)) st" "gsOut st \<noteq> []" "chContracts snap = gsOut st"
    "chTicker snap = t" "chSpot snap = spot" using generated_state [OF assms] .
  have ids: "numbered t (gsOut st)"
    and rows: "pairs_ok (gsOut st)" "\<forall>c \<in> set (gsOut st). \<exists>(g, e) \<in> own_listings t (day_of asOf). row_of g e c"
    using st(1) by (simp_all add: gen_ok_def)
  have row: "\<exists>e. cTicker c = t \<and> cMultiplier c = DefaultMultiplier \<and> cExpiryDate c = format_ymd e \<and>
      day_of asOf \<le> e \<and> e \<le> day_of asOf + 120 \<and> \<not> is_weekend e \<and>
      (cSettlement c = SettlementPM \<or> cSettlement c = SettlementAM \<and> isThirdFriday e)"
    if c: "c \<in> set (gsOut st)" for c
  proof -
    obtain g e where "(g, e) \<in> own_listings t (day_of asOf)" "row_of g e c"
      using bspec [OF rows(2) c] by (elim bexE) auto
    then show ?thesis using listing_range [of e "day_of asOf"]
      by (intro exI [of _ e]) (auto simp: own_listings_def row_of_def)
  qed
  have slots: "int (length (gsOut st)) \<le> ConIdSlotWidth \<longrightarrow> (\<forall>c \<in> set (gsOut st). ConIdMatchesTicker (cConId c) t)"
    using numbered_in_slot [OF ids] by blast
  show ?thesis unfolding st(3)
  proof (intro conjI ballI)
    fix c assume c: "c \<in> set (gsOut st)"
    from row [OF c] show "cTicker c = t" "cMultiplier c = DefaultMultiplier"
      "\<exists>e. cExpiryDate c = format_ymd e \<and> day_of asOf \<le> e \<and> e \<le> day_of asOf + 120 \<and> \<not> is_weekend e \<and>
        (cSettlement c = SettlementPM \<or> cSettlement c = SettlementAM \<and> isThirdFriday e)" by blast+
    show "cConId c < 0" by (rule numbered_negative [OF ids c])
  qed (rule st(2,4,5) rows(1) numbered_distinct [OF ids] slots)+
qed

text \<open>
  Fact. The validation of the anchors is too weak: it admits every finite positive spot and
  volatility, and on a spot of \<open>2 ^ 63\<close> the strike increment is lost in rounding before the loop
  reaches its bound, so the call never returns, on any date.
\<close>

theorem generator_hangs: "GenerateChain ''SPY'' (Fin (2 ^ 63)) (Fin 16) asOf = None"
proof -
  obtain e where e: "e \<in> set (listingDates (day_of asOf))" "day_of asOf < e" "e \<le> day_of asOf + 3" using next_weekday by blast
  let ?g = "\<lparr>gcTicker = ''SPY'', gcClass = ''SPY'', gcSettlement = SettlementPM, gcExchange = []\<rparr>"
  have "emit_all (Fin (2 ^ 63)) (Fin 16) (day_of asOf) (map (Pair ?g) (listingDates (day_of asOf))) st = None" for st
    by (rule emit_all_stuck [of ?g e]) (use e huge_listing in simp_all)
  then show ?thesis by (simp add: GenerateChain_def bad_anchor_def zero_f64_def)
qed

lemma october_fourth_friday: "fourth_friday 20749"
  by code_simp

lemma same_day_rows:
  assumes "emit_all spot vol base ls st = Some st'" "(g, base) \<in> set ls" "modest spot vol" "on_ladder spot"
  shows "\<exists>c \<in> set (gsOut st'). bad_row g base spot c"
proof -
  obtain st1 st2 where v: "emit_listing spot vol base g base st1 = Some st2" "set (gsOut st2) \<subseteq> set (gsOut st')"
    using emit_all_visits [OF assms(1,2)] .
  show ?thesis using same_day_row [OF assms(3,4) v(1)] v(2) by blast
qed

lemma qqq_generated: "\<exists>snap. GenerateChain ''QQQ'' (Fin 660) (lit (22 / 100)) (20749 * day_ns) = Some (Inr snap)"
proof -
  let ?g = "\<lparr>gcTicker = ''QQQ'', gcClass = ''QQQ'', gcSettlement = SettlementPM, gcExchange = []\<rparr>"
  have d: "day_of (20749 * day_ns) = 20749" by (simp add: day_of_def day_ns_def)
  have "\<exists>st. emit_all (Fin 660) (lit (22 / 100)) 20749 (map (Pair ?g) (listingDates 20749)) (gen_start ''QQQ'' 20749) = Some st"
    using listing_range [of _ 20749] by (intro emit_all_total [OF anchor_modest(1)]) auto
  then obtain st where e: "emit_all (Fin 660) (lit (22 / 100)) 20749 (map (Pair ?g) (listingDates 20749)) (gen_start ''QQQ'' 20749) = Some st"
    by blast
  have "(?g, 20749) \<in> set (map (Pair ?g) (listingDates 20749))" using fourth_friday_listed [OF october_fourth_friday] by simp
  from same_day_rows [OF e this anchor_modest(1) anchors_on_ladder(1)] have "gsOut st \<noteq> []" by auto
  moreover obtain v where v: "lit (22 / 100) = Fin v" "0 < v"
    using rnd_between [of "1 / 8" 1 "22 / 100"] rnd_dyadic [of 1 3] by (auto simp: f64_simps)
  ultimately show ?thesis using e
    by (simp add: GenerateChain_def bad_anchor_def Let_def d gen_finish_def zero_f64_def)
qed

theorem generated_rows_witness: "\<exists>snap. GenerateChain ''QQQ'' (Fin 660) (lit (22 / 100)) (20749 * day_ns) = Some (Inr snap) \<and>
    pairs_ok (chContracts snap) \<and> distinct (map cConId (chContracts snap))"
proof -
  obtain snap where s: "GenerateChain ''QQQ'' (Fin 660) (lit (22 / 100)) (20749 * day_ns) = Some (Inr snap)"
    using qqq_generated by blast
  show ?thesis using generated_rows [OF disjI1 [OF s]] s by blast
qed


end
