(* ===== verification/Service.thy ===== *)
theory Service
  imports Engine Garch Market_Select Conid Hedge Host
begin

text \<open>
  Package \<^verbatim>\<open>app\<close>: the watchlist (\<^verbatim>\<open>watchlist.go\<close>), the service that owns one book and one engine
  per ticker and its stream control (\<^verbatim>\<open>app.go\<close>), the read models (\<^verbatim>\<open>readmodel.go\<close>), and the service
  as the host of the edge ingest (\<^verbatim>\<open>edge.go\<close>). Two parts outside are arguments: the stored
  GARCH fit of a ticker, \<open>fit\<close>, and the seed chain of a watchlist entry, \<open>gen\<close>. What the service
  writes to its store and broadcasts to its subscribers is kept in order in two logs; a failed
  store write is only logged by the code and changes nothing else. The engine goroutines
  are two lists of tickers: those whose cancel function a handle holds (\<open>apLoops\<close>), and those
  whose handle was overwritten while they ran (\<open>apOrphans\<close>), which keep an engine of their own
  that nothing reads any more and stop only with the context of \<^verbatim>\<open>Run\<close>.
\<close>

section \<open>Watchlist\<close>

record ticker_config =
  tcTicker :: string
  tcClass :: string
  tcSpot :: f64
  tcVol :: f64
  tcCustom :: bool

definition seed_entry :: "string \<Rightarrow> string \<Rightarrow> real \<Rightarrow> real \<Rightarrow> string \<times> ticker_config" where
  "seed_entry t c s v = (t, \<lparr>tcTicker = t, tcClass = c, tcSpot = lit s, tcVol = lit v, tcCustom = False\<rparr>)"

definition seedTickers :: "string \<rightharpoonup> ticker_config" where
  "seedTickers = map_of
     [seed_entry ''SPX'' ''SPXW'' 7600 (15 / 100), seed_entry ''NDX'' ''NDXP'' 30500 (18 / 100),
      seed_entry ''VIX'' ''VIXW'' (165 / 10) (90 / 100), seed_entry ''RUT'' ''RUTW'' 2300 (20 / 100),
      seed_entry ''QQQ'' ''QQQ'' 660 (22 / 100), seed_entry ''TSLA'' ''TSLA'' 355 (45 / 100),
      seed_entry ''NVDA'' ''NVDA'' 231 (40 / 100), seed_entry ''SOXX'' ''SOXX'' 576 (26 / 100),
      seed_entry ''GOOG'' ''GOOG'' 335 (28 / 100), seed_entry ''JPM'' ''JPM'' 333 (22 / 100)]"

definition guessTicker :: "string \<Rightarrow> ticker_config" where
  "guessTicker ticker0 =
     (let ticker = ToUpper ticker0; h = HashSeed ticker
      in \<lparr>tcTicker = ticker, tcClass = ticker,
          tcSpot = lit 20 + f64_of_int (uint (h mod 4800)) / lit 10,
          tcVol = lit (20 / 100) + f64_of_int (uint (drop_bit 9 h mod 3000)) / lit 10000,
          tcCustom = True\<rparr>)"

definition seedFor :: "string \<Rightarrow> ticker_config" where
  "seedFor ticker =
     (let t = ToUpper (TrimSpace ticker)
      in case seedTickers t of Some seed \<Rightarrow> seed | None \<Rightarrow> guessTicker t)"

definition DefaultWatchlist :: "ticker_config list" where
  "DefaultWatchlist = List.map_filter seedTickers
     [''SPX'', ''QQQ'', ''VIX'', ''TSLA'', ''NVDA'', ''SOXX'', ''GOOG'', ''JPM'']"

definition symbol_char :: "char \<Rightarrow> bool" where
  "symbol_char r \<longleftrightarrow> CHR ''A'' \<le> r \<and> r \<le> CHR ''Z'' \<or> CHR ''0'' \<le> r \<and> r \<le> CHR ''9'' \<or> r = CHR ''.'' \<or> r = CHR ''-''"

definition ValidTicker :: "string \<Rightarrow> bool" where
  "ValidTicker s \<longleftrightarrow> (let t = ToUpper s in t \<noteq> [] \<and> length t \<le> 10 \<and> list_all symbol_char t)"

text \<open>An element of the watchlist file: a bare name, or a name with overrides.\<close>

datatype watch_item = Bare string | Entry string string f64 f64

definition item_config :: "watch_item \<Rightarrow> ticker_config option" where
  "item_config it =
     map_option (\<lambda>c. c\<lparr>tcTicker := ToUpper (TrimSpace (tcTicker c)), tcClass := ToUpper (TrimSpace (tcClass c))\<rparr>)
       (case it of
          Bare name \<Rightarrow> Some (seedFor name)
        | Entry t cls spot vol \<Rightarrow>
            if TrimSpace t = [] then None
            else
              let c = seedFor t;
                  c1 = (if cls \<noteq> [] then c\<lparr>tcClass := cls\<rparr> else c);
                  c2 = (if spot > 0 then c1\<lparr>tcSpot := spot\<rparr> else c1)
              in Some (if vol > 0 then c2\<lparr>tcVol := vol\<rparr> else c2))"

fun watchlist_loop :: "string list \<Rightarrow> watch_item list \<Rightarrow> ticker_config list option" where
  "watchlist_loop seen [] = Some []"
| "watchlist_loop seen (it # its) =
     (case item_config it of
        None \<Rightarrow> None
      | Some c \<Rightarrow>
          if \<not> ValidTicker (tcTicker c) then None
          else if tcTicker c \<in> set seen then watchlist_loop seen its
          else map_option ((#) (c\<lparr>tcCustom := False\<rparr>)) (watchlist_loop (tcTicker c # seen) its))"

definition WatchlistFromFile :: "watch_item list \<Rightarrow> ticker_config list option" where
  "WatchlistFromFile items = (if items = [] then None else watchlist_loop [] items)"

section \<open>State\<close>

record app_config =
  acLevelsEvery :: duration
  acFlipEvery :: duration
  acTickEvery :: duration
  acHistCap :: int
  acLiveBlend :: bool

definition app_withDefaults :: "app_config \<Rightarrow> app_config" where
  "app_withDefaults c =
     (let c1 = (if acLevelsEvery c \<le> 0 then c\<lparr>acLevelsEvery := second_ns\<rparr> else c);
          c2 = (if acFlipEvery c1 \<le> 0 then c1\<lparr>acFlipEvery := 5 * second_ns\<rparr> else c1);
          c3 = (if acTickEvery c2 \<le> 0 then c2\<lparr>acTickEvery := second_ns\<rparr> else c2)
      in if acHistCap c3 \<le> 0 then c3\<lparr>acHistCap := 3600\<rparr> else c3)"

definition PersistEvery :: duration where "PersistEvery = 5 * 60 * second_ns"

record hist_point =
  hpT :: int
  hpSpot :: f64
  hpGEX :: f64

record handle =
  hdCfg :: ticker_config
  hdVol :: f64
  hdBook :: book
  hdEng :: engine
  hdCancel :: bool
  hdHist :: "hist_point list"
  hdSaved :: int

datatype store_write = WUnderlying string f64 f64 | WContracts "contract list" | WSnapshot snapshot

record service =
  apCfg :: app_config
  apStore :: bool
  apHandles :: "string \<rightharpoonup> handle"
  apOrder :: "string list"
  apActive :: string
  apUnderlying :: bool
  apOptions :: bool
  apConnectedAt :: "instant option"
  apUpdates :: int
  apLastUpdate :: "instant option"
  apLastPersist :: instant
  apSim :: bool
  apRoot :: bool
  apRunning :: bool
  apClosed :: bool
  apExternal :: bool
  apHedgeAsset :: string
  apHedgeBench :: string
  apHedgeLegs :: "leg list"
  apHedgeNextID :: int
  apHedgeStats :: "hedge_stats option"
  apHedgeN :: nat
  apHedgeSession :: string
  apBenchSpot :: f64
  apBenchSpotMs :: int
  apBenchSeed :: f64
  apIbkrDeltas :: "int \<rightharpoonup> f64"
  apIbkrAt :: instant
  apLoops :: "string list"
  apOrphans :: "string list"
  apWrites :: "store_write list"
  apEvents :: "string list"

datatype app_error = ErrClosed | EUnknownTicker string | EBadTicker string | ENoSlot string | ESeed string market_error
  | EMarket market_error | EUnknownStream string

type_synonym fits = "string \<Rightarrow> (garch_params \<times> garch_state) option"
type_synonym seeds = "ticker_config \<Rightarrow> instant \<Rightarrow> market_error + chain_snapshot"

definition broadcast :: "string \<Rightarrow> service \<Rightarrow> service" where
  "broadcast name s = s\<lparr>apEvents := apEvents s @ [name]\<rparr>"

section \<open>Engines\<close>

definition engineFor :: "fits \<Rightarrow> service \<Rightarrow> ticker_config \<Rightarrow> f64 \<Rightarrow> engine" where
  "engineFor fit s cfg vol =
     (let flat = FlatVol_SigmaBar vol;
          sigma = (if \<not> apStore s then flat
                   else case fit (tcTicker cfg) of
                          None \<Rightarrow> flat
                        | Some (p, st) \<Rightarrow> (case NewModel p st of Inl _ \<Rightarrow> flat | Inr m \<Rightarrow> Model_SigmaBar m))
      in NewEngine sigma
           \<lparr>ecTicker = tcTicker cfg, ecR = lit (43 / 1000), ecQ = lit (15 / 1000),
            ecLevelsEvery = acLevelsEvery (apCfg s), ecFlipEvery = acFlipEvery (apCfg s),
            ecBlendIVs = acLiveBlend (apCfg s)\<rparr>)"

definition startEngineLocked :: "string \<Rightarrow> service \<Rightarrow> service" where
  "startEngineLocked ticker s =
     (case apHandles s ticker of
        None \<Rightarrow> s
      | Some h \<Rightarrow>
          if hdCancel h \<or> \<not> apRoot s then s
          else s\<lparr>apHandles := (apHandles s)(ticker \<mapsto> h\<lparr>hdCancel := True\<rparr>), apLoops := ticker # apLoops s\<rparr>)"

text \<open>
  A handle that is overwritten takes the cancel function of its engine goroutine with it.
\<close>

definition disown :: "string \<Rightarrow> service \<Rightarrow> service" where
  "disown ticker s =
     (case apHandles s ticker of
        None \<Rightarrow> s
      | Some h \<Rightarrow>
          if hdCancel h
          then s\<lparr>apLoops := remove1 ticker (apLoops s), apOrphans := ticker # apOrphans s\<rparr>
          else s)"

definition addHandle :: "fits \<Rightarrow> seeds \<Rightarrow> instant \<Rightarrow> ticker_config \<Rightarrow> service \<Rightarrow> market_error + service" where
  "addHandle fit gen now e s =
     bind_res (gen e now) (\<lambda>raw.
     bind_res (SelectedExpiriesByClass raw now) (\<lambda>(selected, _).
     bind_res (FilterChain selected (tcVol e) now) (\<lambda>filtered.
     bind_res (snd (ApplyChainSnapshot NewInMemoryBook filtered)) (\<lambda>b.
       Inr ((disown (tcTicker e) s)\<lparr>apHandles := (apHandles s)(tcTicker e \<mapsto>
         \<lparr>hdCfg = e, hdVol = tcVol e, hdBook = b, hdEng = engineFor fit s e (tcVol e),
          hdCancel = False, hdHist = [], hdSaved = 0\<rparr>)\<rparr>)))))"

section \<open>Switching tickers\<close>

definition SetActiveTicker :: "string \<Rightarrow> service \<Rightarrow> app_error + service" where
  "SetActiveTicker ticker0 s =
     (let ticker = ToUpper ticker0
      in if apClosed s then Inl ErrClosed
         else case apHandles s ticker of
                None \<Rightarrow> Inl (EUnknownTicker ticker)
              | Some _ \<Rightarrow>
                  Inr (if apActive s \<noteq> ticker
                       then broadcast ''watchlist'' (broadcast ''state'' (s\<lparr>apActive := ticker\<rparr>)) else s))"

definition is_custom :: "service \<Rightarrow> string \<Rightarrow> bool" where
  "is_custom s t \<longleftrightarrow> (case apHandles s t of None \<Rightarrow> False | Some h \<Rightarrow> tcCustom (hdCfg h))"

text \<open>
  \<^verbatim>\<open>SetCustomTicker\<close>: the old custom entry goes, then the new one is seeded; when seeding fails the
  error is returned with the removal already done.
\<close>

definition drop_custom :: "string \<Rightarrow> service \<Rightarrow> service" where
  "drop_custom old s =
     (case apHandles s old of
        None \<Rightarrow> s
      | Some h \<Rightarrow>
          s\<lparr>apHandles := (apHandles s)(old := None),
            apLoops := (if hdCancel h then remove1 old (apLoops s) else apLoops s)\<rparr>)"

definition SetCustomTicker ::
  "fits \<Rightarrow> seeds \<Rightarrow> instant \<Rightarrow> string \<Rightarrow> service \<Rightarrow> app_error option \<times> service" where
  "SetCustomTicker fit gen now ticker0 s =
     (let ticker = ToUpper ticker0
      in if \<not> ValidTicker ticker then (Some (EBadTicker ticker), s)
         else if apClosed s then (Some ErrClosed, s)
         else
           let customs = filter (is_custom s) (apOrder s);
               s1 = s\<lparr>apOrder := filter (\<lambda>t. \<not> is_custom s t) (apOrder s)\<rparr>;
               s2 = (if customs \<noteq> [] \<and> last customs \<noteq> [] \<and> last customs \<noteq> ticker
                     then drop_custom (last customs) s1 else s1)
           in case addHandle fit gen now (guessTicker ticker) s2 of
                Inl e \<Rightarrow> (Some (ESeed ticker e), s2)
              | Inr s3 \<Rightarrow>
                  let s4 = s3\<lparr>apOrder := apOrder s3 @ [ticker]\<rparr>;
                      s5 = (if apRunning s4 then startEngineLocked ticker s4 else s4)
                  in (None, broadcast ''watchlist'' (broadcast ''state'' (s5\<lparr>apActive := ticker\<rparr>))))"

section \<open>Host of the edge ingest\<close>

definition touch :: "instant \<Rightarrow> service \<Rightarrow> service" where
  "touch now s = s\<lparr>apUpdates := apUpdates s + 1, apLastUpdate := Some now\<rparr>"

definition promote :: "fits \<Rightarrow> string \<Rightarrow> service \<Rightarrow> service" where
  "promote fit ticker s =
     (let entry = guessTicker ticker;
          vol = go_max (lit (5 / 100)) (tcVol entry);
          h = \<lparr>hdCfg = entry, hdVol = vol, hdBook = NewInMemoryBook, hdEng = engineFor fit s entry vol,
               hdCancel = False, hdHist = [], hdSaved = 0\<rparr>;
          s1 = s\<lparr>apHandles := (apHandles s)(ticker \<mapsto> h), apOrder := apOrder s @ [ticker]\<rparr>;
          s2 = (if apRunning s1 then startEngineLocked ticker s1 else s1)
      in broadcast ''watchlist'' s2)"

definition put_book :: "string \<Rightarrow> book \<Rightarrow> service \<Rightarrow> service" where
  "put_book ticker b s =
     (case apHandles s ticker of
        None \<Rightarrow> s
      | Some h \<Rightarrow> s\<lparr>apHandles := (apHandles s)(ticker \<mapsto> h\<lparr>hdBook := b\<rparr>)\<rparr>)"

definition book_of :: "service \<Rightarrow> string \<Rightarrow> book" where
  "book_of s ticker = (case apHandles s ticker of None \<Rightarrow> NewInMemoryBook | Some h \<Rightarrow> hdBook h)"

definition ApplyChain :: "fits \<Rightarrow> instant \<Rightarrow> service \<Rightarrow> chain_snapshot \<Rightarrow> service \<times> app_error option" where
  "ApplyChain fit now s snap =
     (let ticker = ToUpper (chTicker snap)
      in if apClosed s then (s, Some ErrClosed)
         else if Option.is_none (apHandles s ticker) \<and> (\<exists>o' \<in> set (apOrder s). is_custom s o')
         then (s, Some (ENoSlot ticker))
         else
           let s1 = (if Option.is_none (apHandles s ticker) then promote fit ticker s else s)
           in case snd (ApplyChainSnapshot (book_of s1 ticker) snap) of
                Inl e \<Rightarrow> (s1, Some (EMarket e))
              | Inr b \<Rightarrow> (touch now (put_book ticker b s1), None))"

definition Service_ApplySpot :: "instant \<Rightarrow> service \<Rightarrow> string \<Rightarrow> f64 \<Rightarrow> int \<Rightarrow> service \<times> app_error option" where
  "Service_ApplySpot now s ticker0 spot asOfMs =
     (let ticker = ToUpper ticker0
      in if apClosed s then (s, Some ErrClosed)
         else case apHandles s ticker of
                None \<Rightarrow>
                  if ticker = apHedgeBench s \<and> spot > 0
                  then (touch now (s\<lparr>apBenchSpot := spot, apBenchSpotMs := asOfMs\<rparr>), None)
                  else (s, Some (EUnknownTicker ticker))
              | Some h \<Rightarrow>
                  (case ApplySpot (hdBook h) ticker spot asOfMs of
                     Inl e \<Rightarrow> (s, Some (EMarket e))
                   | Inr b \<Rightarrow> (touch now (put_book ticker b s), None)))"

definition BaselineIV :: "service \<Rightarrow> string \<Rightarrow> f64 option" where
  "BaselineIV s ticker = map_option hdVol (apHandles s (ToUpper ticker))"

definition UseExternalFeed :: "service \<Rightarrow> service" where
  "UseExternalFeed s = s\<lparr>apExternal := True\<rparr>"

section \<open>Saving, publishing and stream control\<close>

text \<open>
  Go dereferences the handle of every ticker in the order; a ticker without one is skipped
  here, and the invariant of the service shows there is none.
\<close>

definition save_one :: "string \<Rightarrow> service \<Rightarrow> service" where
  "save_one name s =
     (case apHandles s name of
        None \<Rightarrow> s
      | Some h \<Rightarrow>
          (case (Engine_Snapshot (hdEng h), Latest (hdBook h) name) of
             (Some sn, Some bs) \<Rightarrow>
               s\<lparr>apWrites := apWrites s @ [WUnderlying name (snSpot sn) (hdVol h), WContracts (chContracts (bsChain bs)), WSnapshot sn],
                 apHandles := (apHandles s)(name \<mapsto> h\<lparr>hdSaved := snAsOfMs sn\<rparr>)\<rparr>
           | _ \<Rightarrow> s))"

definition saveStateLocked :: "instant \<Rightarrow> service \<Rightarrow> service" where
  "saveStateLocked now s =
     (if \<not> apStore s then s else (fold save_one (apOrder s) s)\<lparr>apLastPersist := now\<rparr>)"

definition connectedLocked :: "service \<Rightarrow> bool" where
  "connectedLocked s \<longleftrightarrow> apUnderlying s \<or> apOptions s"

definition add_hist :: "int \<Rightarrow> snapshot \<Rightarrow> hist_point list \<Rightarrow> hist_point list" where
  "add_hist cap sn hist =
     (if hist = [] \<or> hpT (last hist) \<noteq> snAsOfMs sn
      then let hist' = hist @ [\<lparr>hpT = snAsOfMs sn, hpSpot = snSpot sn, hpGEX = tGEX (snTotals sn)\<rparr>]
           in if int (length hist') > cap then drop (length hist' - nat cap) hist' else hist'
      else hist)"

definition publish_one :: "string \<Rightarrow> service \<Rightarrow> service" where
  "publish_one t s =
     (case apHandles s t of
        None \<Rightarrow> s
      | Some h \<Rightarrow>
          (case Engine_Snapshot (hdEng h) of
             None \<Rightarrow> s
           | Some sn \<Rightarrow> s\<lparr>apHandles := (apHandles s)(t \<mapsto> h\<lparr>hdHist := add_hist (acHistCap (apCfg s)) sn (hdHist h)\<rparr>)\<rparr>))"

definition active_changed :: "service \<Rightarrow> bool" where
  "active_changed s \<longleftrightarrow>
     (case apHandles s (apActive s) of
        None \<Rightarrow> False
      | Some h \<Rightarrow>
          (case Engine_Snapshot (hdEng h) of
             None \<Rightarrow> False
           | Some sn \<Rightarrow> hdHist h \<noteq> [] \<and> hpT (last (hdHist h)) = snAsOfMs sn))"

text \<open>The hedge recomputation between the two halves of \<^verbatim>\<open>publish\<close> is the argument \<open>rehedge\<close>.\<close>

definition publish :: "(service \<Rightarrow> service) \<Rightarrow> instant \<Rightarrow> service \<Rightarrow> service" where
  "publish rehedge now s =
     (let s1 = fold publish_one (apOrder s) s;
          changed = active_changed s1;
          s2 = (if connectedLocked s1 \<and> time_Sub now (apLastPersist s1) > PersistEvery then saveStateLocked now s1 else s1);
          s3 = (if apHedgeAsset s2 \<noteq> [] then rehedge s2 else s2)
      in if changed then broadcast ''state'' s3 else s3)"

definition StreamUnderlying :: string where "StreamUnderlying = ''underlying''"
definition StreamOptions :: string where "StreamOptions = ''options''"
definition StreamAll :: string where "StreamAll = ''all''"

definition ValidStream :: "string \<Rightarrow> bool" where
  "ValidStream i \<longleftrightarrow> i \<in> {StreamUnderlying, StreamOptions, StreamAll}"

definition on_engine :: "(book \<Rightarrow> engine \<Rightarrow> engine) \<Rightarrow> string \<Rightarrow> service \<Rightarrow> service" where
  "on_engine f t s =
     (case apHandles s t of
        None \<Rightarrow> s
      | Some h \<Rightarrow> s\<lparr>apHandles := (apHandles s)(t \<mapsto> h\<lparr>hdEng := f (hdBook h) (hdEng h)\<rparr>)\<rparr>)"

definition startSimLocked :: "service \<Rightarrow> service" where
  "startSimLocked s = (if apSim s \<or> apExternal s then s else s\<lparr>apSim := True\<rparr>)"

definition stopSimLocked :: "service \<Rightarrow> service" where
  "stopSimLocked s = s\<lparr>apSim := False\<rparr>"

definition SetStream :: "instant \<Rightarrow> string \<Rightarrow> bool \<Rightarrow> service \<Rightarrow> app_error + service" where
  "SetStream now i on s =
     (if apClosed s then Inl ErrClosed
      else if \<not> ValidStream i then Inl (EUnknownStream i)
      else
        let s1 = s\<lparr>apUnderlying := (if i = StreamUnderlying \<or> i = StreamAll then on else apUnderlying s),
                   apOptions := (if i = StreamOptions \<or> i = StreamAll then on else apOptions s)\<rparr>;
            s2 = (if connectedLocked s1
                  then startSimLocked (if Option.is_none (apConnectedAt s1) then s1\<lparr>apConnectedAt := Some now\<rparr> else s1)
                  else (saveStateLocked now
                         (fold (on_engine (\<lambda>b e. RecomputeLevels b now e)) (apOrder s1) (stopSimLocked s1)))
                         \<lparr>apConnectedAt := None\<rparr>)
        in Inr (broadcast ''status'' s2))"

definition RecomputeAll :: "instant \<Rightarrow> service \<Rightarrow> service" where
  "RecomputeAll now s = fold (on_engine (\<lambda>b e. RecomputeFlip b now e)) (apOrder s) s"

definition close_one :: "instant \<Rightarrow> string \<Rightarrow> service \<Rightarrow> service" where
  "close_one now t s =
     (case apHandles s t of
        None \<Rightarrow> s
      | Some h \<Rightarrow>
          on_engine (\<lambda>b e. RecomputeLevels b now e) t
            (if hdCancel h then s\<lparr>apLoops := remove1 t (apLoops s)\<rparr> else s))"

definition Service_Close :: "instant \<Rightarrow> service \<Rightarrow> service" where
  "Service_Close now s =
     (if apClosed s then s
      else (saveStateLocked now (fold (close_one now) (apOrder s) (stopSimLocked (s\<lparr>apClosed := True\<rparr>))))
             \<lparr>apStore := False\<rparr>)"

definition Run_start :: "service \<Rightarrow> service" where
  "Run_start s = fold startEngineLocked (apOrder s) (s\<lparr>apRoot := True, apRunning := True\<rparr>)"

section \<open>Read models\<close>

record watch_entry =
  weTicker :: string
  weClass :: string
  weSpot :: f64
  weVol :: f64
  weCustom :: bool
  weReady :: bool
  weActive :: bool
  weSavedAsOfMs :: int

definition watch_row :: "service \<Rightarrow> string \<Rightarrow> handle \<Rightarrow> watch_entry" where
  "watch_row s t h =
     \<lparr>weTicker = t, weClass = tcClass (hdCfg h),
      weSpot = (case Latest (hdBook h) t of None \<Rightarrow> 0 | Some bs \<Rightarrow> bsSpot bs), weVol = hdVol h,
      weCustom = tcCustom (hdCfg h), weReady = (\<not> Option.is_none (Engine_Snapshot (hdEng h))),
      weActive = (t = apActive s), weSavedAsOfMs = hdSaved h\<rparr>"

definition watchlistLocked :: "service \<Rightarrow> watch_entry list" where
  "watchlistLocked s = List.map_filter (\<lambda>t. map_option (watch_row s t) (apHandles s t)) (apOrder s)"

record app_status =
  asConnected :: bool
  asMode :: string
  asStreams :: "(string \<times> bool) list"
  asConnectedAtMs :: int
  asUpdates :: int
  asLastUpdateMs :: int
  asSavedAsOfMs :: int

definition msTime :: "instant option \<Rightarrow> int" where
  "msTime t = (case t of None \<Rightarrow> 0 | Some u \<Rightarrow> UnixMilli u)"

definition statusLocked :: "service \<Rightarrow> string \<Rightarrow> app_status" where
  "statusLocked s ticker =
     \<lparr>asConnected = connectedLocked s, asMode = (if apExternal s then ''edge'' else ''synthetic''),
      asStreams = [(StreamUnderlying, apUnderlying s), (StreamOptions, apOptions s)],
      asConnectedAtMs = msTime (apConnectedAt s), asUpdates = apUpdates s,
      asLastUpdateMs = msTime (apLastUpdate s),
      asSavedAsOfMs = (case apHandles s ticker of None \<Rightarrow> 0 | Some h \<Rightarrow> hdSaved h)\<rparr>"

record oi_point =
  oiStrike :: f64
  oiCallOI :: f64
  oiPutOI :: f64

definition new_oi :: "contract \<Rightarrow> oi_point" where
  "new_oi c = \<lparr>oiStrike = cStrike c, oiCallOI = 0, oiPutOI = 0\<rparr>"

definition add_oi :: "contract \<Rightarrow> oi_point \<Rightarrow> oi_point" where
  "add_oi c p =
     (if cRight c = RightCall then p\<lparr>oiCallOI := oiCallOI p + cOpenInterest c\<rparr>
      else p\<lparr>oiPutOI := oiPutOI p + cOpenInterest c\<rparr>)"

definition oiByStrike :: "chain_snapshot \<Rightarrow> oi_point list" where
  "oiByStrike chain =
     sort_key (fkey \<circ> oiStrike)
       (fold (\<lambda>c. upsert (\<lambda>p. feq (oiStrike p) (cStrike c)) (add_oi c) (new_oi c)) (chContracts chain) [])"

record app_state =
  astTicker :: string
  astTradingClass :: string
  astReady :: bool
  astSnapshot :: "snapshot option"
  astPerStrikeOI :: "oi_point list"
  astHistory :: "hist_point list"
  astStatus :: "app_status option"
  astWatchlist :: "watch_entry list"
  astContracts :: nat
  astBaselineIV :: f64

definition StateLocked :: "service \<Rightarrow> string \<Rightarrow> app_state" where
  "StateLocked s ticker =
     (case apHandles s ticker of
        None \<Rightarrow>
          \<lparr>astTicker = ticker, astTradingClass = [], astReady = False, astSnapshot = None, astPerStrikeOI = [],
           astHistory = [], astStatus = None, astWatchlist = [], astContracts = 0, astBaselineIV = 0\<rparr>
      | Some h \<Rightarrow>
          let sn = Engine_Snapshot (hdEng h); bs = Latest (hdBook h) ticker
          in \<lparr>astTicker = ticker, astTradingClass = tcClass (hdCfg h), astReady = (\<not> Option.is_none sn), astSnapshot = sn,
              astPerStrikeOI = (case bs of None \<Rightarrow> [] | Some b \<Rightarrow> oiByStrike (bsChain b)),
              astHistory = hdHist h, astStatus = Some (statusLocked s ticker), astWatchlist = watchlistLocked s,
              astContracts = (case bs of None \<Rightarrow> 0 | Some b \<Rightarrow> length (chContracts (bsChain b))),
              astBaselineIV = hdVol h\<rparr>)"

definition State :: "service \<Rightarrow> string \<Rightarrow> app_state" where
  "State s ticker0 =
     (let ticker = ToUpper ticker0
      in StateLocked s (if Option.is_none (apHandles s ticker) then apActive s else ticker))"

end
