(* ===== verification/Service_Hedge.thy ===== *)
theory Service_Hedge
  imports Service
begin

text \<open>
  Package \<^verbatim>\<open>app\<close>, the hedge sub-service (\<^verbatim>\<open>app/hedge.go\<close>): the pair and the legs the user enters, the
  statistics reloaded once per New York session, and the state machine that turns them into a
  hedge. The store is a record of operations; \<^term>\<open>None\<close> as a result of the recomputation is the
  index panic of the leg loop.
\<close>

section \<open>The store behind it\<close>

record hedge_store =
  hoSaveHedgePair :: "string \<Rightarrow> string \<Rightarrow> bool"
  hoAddPosition :: "leg \<Rightarrow> leg option"
  hoDeletePosition :: "int \<Rightarrow> bool"
  hoDailyCloses :: "string \<Rightarrow> close list option option"
  hoLatestIBKRDeltas :: "int list \<Rightarrow> (int \<rightharpoonup> f64)"

definition HedgeOK :: string where "HedgeOK = ''ok''"
definition HedgeNoPair :: string where "HedgeNoPair = ''no_pair''"
definition HedgeNoPositions :: string where "HedgeNoPositions = ''no_positions''"
definition HedgeInsufficientHistory :: string where "HedgeInsufficientHistory = ''insufficient_history''"
definition HedgeNoBeta :: string where "HedgeNoBeta = ''no_beta''"
definition HedgeNoAssetFeed :: string where "HedgeNoAssetFeed = ''no_asset_feed''"
definition HedgeNoBenchFeed :: string where "HedgeNoBenchFeed = ''no_bench_feed''"
definition HedgeStaleFeed :: string where "HedgeStaleFeed = ''stale_feed''"
definition hedgeStaleAfter :: duration where "hedgeStaleAfter = 60 * second_ns"
definition hedgeIBKRRefresh :: duration where "hedgeIBKRRefresh = 2 * second_ns"

lemmas hedge_states = HedgeOK_def HedgeNoPair_def HedgeNoPositions_def HedgeInsufficientHistory_def
  HedgeNoBeta_def HedgeNoAssetFeed_def HedgeNoBenchFeed_def HedgeStaleFeed_def

record leg_view =
  lvLeg :: leg
  lvDelta :: f64
  lvMultiplier :: f64
  lvIBKRDelta :: f64
  lvShareEquiv :: f64
  lvResolved :: bool

record hedge_view =
  hvAsset :: string
  hvBenchmark :: string
  hvState :: string
  hvReason :: string
  hvN :: nat
  hvBeta :: f64
  hvRho :: f64
  hvVolA :: f64
  hvVolB :: f64
  hvAssetSpot :: f64
  hvBenchSpot :: f64
  hvAssetSpotMs :: int
  hvBenchSpotMs :: int
  hvNetDelta :: f64
  hvDollarDelta :: f64
  hvHedgeValue :: f64
  hvTargetShares :: int
  hvLegs :: "leg_view list"
  hvUpdatedAtMs :: int

section \<open>The pair and the legs\<close>

datatype pair_error = PClosed | PMissing | PSame | PBadTicker | PNotWatched | PSave

definition setHedgePairLocked :: "hedge_store \<Rightarrow> string \<Rightarrow> string \<Rightarrow> service \<Rightarrow> pair_error + service" where
  "setHedgePairLocked st asset0 bench0 s =
     (let asset = ToUpper (TrimSpace asset0); bench = ToUpper (TrimSpace bench0)
      in if asset = [] \<or> bench = [] then Inl PMissing
         else if asset = bench then Inl PSame
         else if \<not> ValidTicker asset \<or> \<not> ValidTicker bench then Inl PBadTicker
         else if Option.is_none (apHandles s asset) then Inl PNotWatched
         else if apStore s \<and> \<not> hoSaveHedgePair st asset bench then Inl PSave
         else Inr (s\<lparr>apHedgeAsset := asset, apHedgeBench := bench, apHedgeSession := []\<rparr>))"

datatype position_error = QClosed | QNoPair | QInvalid leg_error | QStore | QUnknown int

definition default_class :: "service \<Rightarrow> leg \<Rightarrow> leg" where
  "default_class s l =
     (if lgKind l = LegOption \<and> TrimSpace (lgTradingClass l) = [] then l\<lparr>lgTradingClass := apHedgeAsset s\<rparr> else l)"

definition add_leg :: "hedge_store \<Rightarrow> instant \<Rightarrow> leg \<Rightarrow> service \<Rightarrow> position_error + service" where
  "add_leg st now l0 s =
     (if apClosed s then Inl QClosed
      else if apHedgeAsset s = [] then Inl QNoPair
      else
        let l = default_class s l0
        in case leg_Validate l of
             Some e \<Rightarrow> Inl (QInvalid e)
           | None \<Rightarrow>
               if apStore s
               then (case hoAddPosition st l of
                       None \<Rightarrow> Inl QStore
                     | Some stored \<Rightarrow> Inr (s\<lparr>apHedgeLegs := apHedgeLegs s @ [stored]\<rparr>))
               else let n = apHedgeNextID s + 1
                    in Inr (s\<lparr>apHedgeNextID := n,
                       apHedgeLegs := apHedgeLegs s @ [l\<lparr>lgId := n, lgUpdatedAtMs := msTime (Some now)\<rparr>]\<rparr>))"

fun delete_leg :: "int \<Rightarrow> leg list \<Rightarrow> leg list option" where
  "delete_leg i [] = None"
| "delete_leg i (l # ls) = (if lgId l = i then Some ls else map_option ((#) l) (delete_leg i ls))"

definition remove_leg :: "hedge_store \<Rightarrow> int \<Rightarrow> service \<Rightarrow> position_error + service" where
  "remove_leg st i s =
     (if apClosed s then Inl QClosed
      else case delete_leg i (apHedgeLegs s) of
             None \<Rightarrow> Inl (QUnknown i)
           | Some ls \<Rightarrow>
               if apStore s \<and> \<not> hoDeletePosition st i then Inl QStore
               else Inr (s\<lparr>apHedgeLegs := ls\<rparr>))"

section \<open>Statistics\<close>

definition loadHedgeStatsLocked :: "hedge_store \<Rightarrow> service \<Rightarrow> service" where
  "loadHedgeStatsLocked st s =
     (let s0 = s\<lparr>apHedgeStats := None, apHedgeN := 0\<rparr>
      in if apHedgeAsset s = [] \<or> apHedgeBench s = [] \<or> \<not> apStore s then s0
         else case (hoDailyCloses st (apHedgeAsset s), hoDailyCloses st (apHedgeBench s)) of
                (Some (Some a), Some (Some b)) \<Rightarrow>
                  s0\<lparr>apHedgeN := length (fst (AlignByDate a b)),
                     apHedgeStats := (case ComputeStats a b of Inr x \<Rightarrow> Some x | Inl _ \<Rightarrow> None)\<rparr>
              | _ \<Rightarrow> s0)"

definition refresh_session :: "hedge_store \<Rightarrow> instant \<Rightarrow> service \<Rightarrow> service" where
  "refresh_session st now s =
     (let key = fst (USSession now)
      in if key \<noteq> apHedgeSession s then loadHedgeStatsLocked st (s\<lparr>apHedgeSession := key\<rparr>) else s)"

section \<open>Pricing the legs\<close>

definition leg_ref_of :: "leg \<Rightarrow> leg_ref" where
  "leg_ref_of l = \<lparr>lrConId = lgLegConId l, lrTradingClass = lgTradingClass l, lrExpiry = lgExpiry l,
     lrRight = lgRight l, lrStrike = lgStrike l\<rparr>"

definition option_refs :: "leg list \<Rightarrow> leg_ref list" where
  "option_refs ls = map leg_ref_of (filter (\<lambda>l. lgKind l = LegOption) ls)"

definition zero_view :: "leg \<Rightarrow> leg_view" where
  "zero_view l = \<lparr>lvLeg = l, lvDelta = 0, lvMultiplier = 0, lvIBKRDelta = 0, lvShareEquiv = 0, lvResolved = False\<rparr>"

definition option_view :: "(int \<rightharpoonup> f64) \<Rightarrow> leg \<Rightarrow> leg_price \<Rightarrow> leg_view" where
  "option_view deltas l p =
     (zero_view l)\<lparr>lvDelta := lpDelta p, lvMultiplier := lpMultiplier p, lvResolved := lpOk p,
       lvShareEquiv := (if lpOk p then OptionLegDelta (lpDelta p) (lpMultiplier p) (go_int (lgContracts l)) else 0),
       lvIBKRDelta := (case deltas (lgLegConId l) of Some d \<Rightarrow> d | None \<Rightarrow> 0)\<rparr>"

text \<open>One price is consumed per option leg; running out of prices is the index panic.\<close>

fun leg_views :: "(int \<rightharpoonup> f64) \<Rightarrow> leg_price list \<Rightarrow> leg list \<Rightarrow> leg_view list option" where
  "leg_views deltas ps [] = Some []"
| "leg_views deltas ps (l # ls) =
     (if lgKind l = LegShare
      then map_option ((#) ((zero_view l)\<lparr>lvShareEquiv := lgShares l, lvResolved := True\<rparr>)) (leg_views deltas ps ls)
      else if lgKind l = LegOption
      then (case ps of [] \<Rightarrow> None
            | p # ps' \<Rightarrow> map_option ((#) (option_view deltas l p)) (leg_views deltas ps' ls))
      else map_option ((#) (zero_view l)) (leg_views deltas ps ls))"

definition refresh_deltas :: "hedge_store \<Rightarrow> instant \<Rightarrow> service \<Rightarrow> service" where
  "refresh_deltas st now s =
     (if apStore s \<and> time_Sub now (apIbkrAt s) > hedgeIBKRRefresh
      then s\<lparr>apIbkrDeltas := hoLatestIBKRDeltas st
               (filter (\<lambda>i. i > 0) (map lrConId (option_refs (apHedgeLegs s)))), apIbkrAt := now\<rparr>
      else s)"

definition finishHedgeLegsLocked ::
  "hedge_store \<Rightarrow> instant \<Rightarrow> book_inputs \<Rightarrow> service \<Rightarrow> (service \<times> leg_view list) option" where
  "finishHedgeLegsLocked st now inp s =
     (let refs = option_refs (apHedgeLegs s);
          prices = (if refs \<noteq> [] \<and> biSpot inp > 0 then ContractDeltas inp refs else []);
          s1 = refresh_deltas st now s
      in map_option (Pair s1) (leg_views (apIbkrDeltas s1) prices (apHedgeLegs s1)))"

section \<open>The state machine\<close>

definition fmtTime :: "int \<Rightarrow> string" where
  "fmtTime ms =
     (if ms \<le> 0 then ''?''
      else let s = ms div 1000 mod 86400
           in pad0 2 (dec_nat (nat (s div 3600))) @ '':'' @ pad0 2 (dec_nat (nat (s mod 3600 div 60))) @ '':'' @
              pad0 2 (dec_nat (nat (s mod 60))) @ ''Z'')"

definition em_dash :: string where
  "em_dash = [CHR 0xE2, CHR 0x80, CHR 0x94]"

definition older :: "instant \<Rightarrow> int \<Rightarrow> bool" where
  "older now ms \<longleftrightarrow> ms > 0 \<and> UnixMilli now - ms > hedgeStaleAfter div 10 ^ 6"

definition oldest_stale :: "instant \<Rightarrow> int \<Rightarrow> int \<Rightarrow> int option" where
  "oldest_stale now a b =
     (if older now b then Some (if older now a \<and> \<not> b < a then a else b)
      else if older now a then Some a else None)"

definition empty_view :: "instant \<Rightarrow> service \<Rightarrow> hedge_view" where
  "empty_view now s =
     \<lparr>hvAsset = apHedgeAsset s, hvBenchmark = apHedgeBench s, hvState = [], hvReason = [], hvN = 0, hvBeta = 0,
      hvRho = 0, hvVolA = 0, hvVolB = 0, hvAssetSpot = 0, hvBenchSpot = 0, hvAssetSpotMs = 0, hvBenchSpotMs = 0,
      hvNetDelta = 0, hvDollarDelta = 0, hvHedgeValue = 0, hvTargetShares = 0, hvLegs = [],
      hvUpdatedAtMs = msTime (Some now)\<rparr>"

definition with_stats :: "service \<Rightarrow> hedge_view \<Rightarrow> hedge_view" where
  "with_stats s v =
     (case apHedgeStats s of
        None \<Rightarrow> v
      | Some x \<Rightarrow> v\<lparr>hvBeta := hsBeta x, hvRho := hsRho x, hvVolA := hsVolA x, hvVolB := hsVolB x\<rparr>)\<lparr>hvN := apHedgeN s\<rparr>"

definition bench_feed :: "service \<Rightarrow> f64 \<times> int" where
  "bench_feed s =
     (case apHandles s (apHedgeBench s) of
        None \<Rightarrow> (apBenchSpot s, apBenchSpotMs s)
      | Some bh \<Rightarrow>
          (case Latest (hdBook bh) (apHedgeBench s) of
             None \<Rightarrow> (apBenchSpot s, apBenchSpotMs s)
           | Some bs \<Rightarrow> (bsSpot bs, chAsOfMs (bsChain bs))))"

definition no_history :: "service \<Rightarrow> bool" where
  "no_history s \<longleftrightarrow> Option.is_none (apHedgeStats s) \<or> apHedgeN s < MinSessions"

text \<open>The tail of the machine, once the legs are priced and the benchmark has a price.\<close>

definition size_hedge :: "instant \<Rightarrow> f64 \<Rightarrow> hedge_view \<Rightarrow> hedge_view" where
  "size_hedge now spot v0 =
     (let net = fold (\<lambda>lv t. t + lvShareEquiv lv) (hvLegs v0) 0;
          dollar = DollarDelta net spot;
          value = HedgeDollarValue (hvBeta v0) dollar;
          v = v0\<lparr>hvNetDelta := net, hvDollarDelta := dollar, hvHedgeValue := value\<rparr>
      in case TargetHedgeShares value (hvBenchSpot v0) of
           Inl _ \<Rightarrow> v\<lparr>hvState := HedgeNoBeta, hvReason := ''benchmark spot price must be greater than zero''\<rparr>
         | Inr qty \<Rightarrow>
             let w = v\<lparr>hvTargetShares := qty\<rparr>;
                 stale = (if snd (USSession now) then oldest_stale now (hvAssetSpotMs w) (hvBenchSpotMs w) else None)
             in case stale of
                  None \<Rightarrow> w\<lparr>hvState := HedgeOK\<rparr>
                | Some ms \<Rightarrow> w\<lparr>hvState := HedgeStaleFeed,
                    hvReason := ''spot older than 1m0s during regular hours (last valid '' @ fmtTime ms @ '')''\<rparr>)"

definition recomputeHedgeLocked :: "hedge_store \<Rightarrow> instant \<Rightarrow> service \<Rightarrow> (service \<times> hedge_view) option" where
  "recomputeHedgeLocked st now s0 =
     (let s = refresh_session st now s0;
          v0 = empty_view now s;
          v1 = with_stats s v0
      in if apHedgeAsset s = [] \<or> apHedgeBench s = []
         then Some (s, v0\<lparr>hvState := HedgeNoPair, hvReason := ''set the hedge pair (asset + benchmark)''\<rparr>)
         else if apHedgeLegs s = []
         then Some (s, v1\<lparr>hvState := HedgeNoPositions, hvReason := ''no positions entered''\<rparr>)
         else case apHandles s (apHedgeAsset s) of
                None \<Rightarrow> Some (s, v1\<lparr>hvState := HedgeNoAssetFeed,
                  hvReason := ''asset is not on the watchlist (swap the free slot onto it)''\<rparr>)
              | Some h \<Rightarrow>
                  (case PricingInputs (hdBook h) now (hdEng h) of
                     None \<Rightarrow> Some (s, v1\<lparr>hvState := HedgeNoAssetFeed,
                       hvReason := ''asset book is empty '' @ em_dash @ '' awaiting a chain''\<rparr>)
                   | Some inp \<Rightarrow>
                       let (bspot, bms) = bench_feed s;
                           v2 = v1\<lparr>hvAssetSpot := biSpot inp, hvAssetSpotMs := chAsOfMs (biChain inp),
                                   hvBenchSpot := bspot, hvBenchSpotMs := bms\<rparr>
                       in map_option (\<lambda>(s', lvs).
                            let v3 = v2\<lparr>hvLegs := lvs\<rparr>
                            in (s',
                                if no_history s
                                then v3\<lparr>hvState := HedgeInsufficientHistory,
                                  hvReason := dec_nat (apHedgeN s) @ '' overlapping sessions (need '' @ dec_nat MinSessions @
                                    '') '' @ em_dash @ '' load adjusted closes for both legs''\<rparr>
                                else if bspot \<le> 0
                                then v3\<lparr>hvState := HedgeNoBenchFeed,
                                  hvReason := ''no benchmark spot yet '' @ em_dash @ '' connect the feed''\<rparr>
                                else size_hedge now (biSpot inp) v3))
                            (finishHedgeLegsLocked st now inp s)))"

text \<open>The entry points; the cached view of a closed service is the argument \<open>cache\<close>.\<close>

definition Service_Hedge :: "hedge_store \<Rightarrow> instant \<Rightarrow> hedge_view \<Rightarrow> service \<Rightarrow> (service \<times> hedge_view) option" where
  "Service_Hedge st now cache s = (if apClosed s then Some (s, cache) else recomputeHedgeLocked st now s)"

definition then_publish :: "hedge_store \<Rightarrow> instant \<Rightarrow> service \<Rightarrow> (service \<times> hedge_view) option" where
  "then_publish st now s = map_option (\<lambda>(s', v). (broadcast ''hedge'' s', v)) (recomputeHedgeLocked st now s)"

definition SetHedgePair ::
  "hedge_store \<Rightarrow> instant \<Rightarrow> string \<Rightarrow> string \<Rightarrow> service \<Rightarrow> pair_error + (service \<times> hedge_view) option" where
  "SetHedgePair st now asset bench s =
     (if apClosed s then Inl PClosed
      else bind_res (setHedgePairLocked st asset bench s) (\<lambda>s'. Inr (then_publish st now s')))"

definition AddPosition ::
  "hedge_store \<Rightarrow> instant \<Rightarrow> leg \<Rightarrow> service \<Rightarrow> position_error + (service \<times> hedge_view) option" where
  "AddPosition st now l s = bind_res (add_leg st now l s) (\<lambda>s'. Inr (then_publish st now s'))"

definition DeletePosition ::
  "hedge_store \<Rightarrow> instant \<Rightarrow> int \<Rightarrow> service \<Rightarrow> position_error + (service \<times> hedge_view) option" where
  "DeletePosition st now i s = bind_res (remove_leg st i s) (\<lambda>s'. Inr (then_publish st now s'))"

end
