(* ===== verification/Service_Boot.thy ===== *)
theory Service_Boot
  imports Service_Hedge
begin

text \<open>
  Package \<^verbatim>\<open>app\<close>, construction: \<^verbatim>\<open>New\<close> folds the saved database state into the watchlist entries
  (\<^verbatim>\<open>restoreBootState\<close> over \<^verbatim>\<open>store.BootState.ChainSnapshots\<close>), seeds the entries with nothing to
  restore and loads the hedge pair and legs. What the database holds is an argument: the rows
  of the boot state, the stored pair and the stored legs, \<^term>\<open>None\<close> where reading fails. The order
  in which Go ranges over the tickers of the boot state is an argument too.
\<close>

section \<open>The boot state of the store\<close>

record underlying_state =
  usSpot :: f64
  usBaselineIV :: f64
  usUpdatedMs :: int

record boot_state =
  btUnderlyings :: "string \<rightharpoonup> underlying_state"
  btContracts :: "contract list"
  btLastSnapshots :: "string \<rightharpoonup> snapshot"

definition chain_row :: "boot_state \<Rightarrow> string \<Rightarrow> string + chain_snapshot" where
  "chain_row b ticker =
     (case btUnderlyings b ticker of
        None \<Rightarrow> Inl ticker
      | Some u \<Rightarrow>
          Inr \<lparr>chTicker = ticker, chSpot = usSpot u, chAsOfMs = usUpdatedMs u,
               chContracts = filter (\<lambda>c. cTicker c = ticker) (btContracts b),
               chUnderlyingType = [], chExchange = []\<rparr>)"

definition ChainSnapshots :: "boot_state \<Rightarrow> string list \<Rightarrow> string + chain_snapshot list" where
  "ChainSnapshots b order = map_res (chain_row b) order"

definition boot_order :: "boot_state \<Rightarrow> string list \<Rightarrow> bool" where
  "boot_order b order \<longleftrightarrow> distinct order \<and> set order = cTicker ` set (btContracts b)"

section \<open>Restoring\<close>

datatype boot_error = BBootState | BNoUnderlying string | BChain string market_error | BWatchlist
  | BBadCustom string | BSeed string market_error | BEmpty | BHedgePair | BPositions

definition entryForTicker :: "ticker_config list \<Rightarrow> string \<Rightarrow> ticker_config option" where
  "entryForTicker entries ticker = find (\<lambda>e. tcTicker e = ticker) entries"

definition restoreTicker ::
  "fits \<Rightarrow> service \<Rightarrow> chain_snapshot \<Rightarrow> ticker_config \<Rightarrow> f64 \<Rightarrow> int \<Rightarrow> bool \<Rightarrow> boot_error + handle" where
  "restoreTicker fit s chain entry baselineIV savedAsOf tradable =
     (let vol = go_max (lit (5 / 100)) baselineIV;
          h = \<lparr>hdCfg = entry, hdVol = vol, hdBook = NewInMemoryBook, hdEng = engineFor fit s entry vol,
               hdCancel = False, hdHist = [], hdSaved = savedAsOf\<rparr>
      in if \<not> tradable then Inr h
         else case snd (ApplyChainSnapshot NewInMemoryBook chain) of
                Inl e \<Rightarrow> Inl (BChain (chTicker chain) e)
              | Inr b \<Rightarrow> Inr (h\<lparr>hdBook := b\<rparr>))"

definition live_row :: "instant \<Rightarrow> string \<Rightarrow> contract \<Rightarrow> bool" where
  "live_row now ticker c \<longleftrightarrow>
     ConIdMatchesTicker (cConId c) ticker \<and> (case DTE c now of Inl _ \<Rightarrow> False | Inr d \<Rightarrow> \<not> d < 0)"

definition beyond_today :: "instant \<Rightarrow> contract \<Rightarrow> bool" where
  "beyond_today now c \<longleftrightarrow> (case DTE c now of Inl _ \<Rightarrow> False | Inr d \<Rightarrow> d \<ge> 1)"

record boot_walk =
  bwService :: service
  bwEntries :: "ticker_config list"
  bwCustomSet :: bool

definition free_slot_entry :: "string \<Rightarrow> underlying_state \<Rightarrow> ticker_config" where
  "free_slot_entry t u = \<lparr>tcTicker = t, tcClass = t, tcSpot = usSpot u, tcVol = go_max (lit (5 / 100)) (usBaselineIV u), tcCustom = True\<rparr>"

definition install :: "string \<Rightarrow> handle \<Rightarrow> service \<Rightarrow> service" where
  "install t h s = s\<lparr>apHandles := (apHandles s)(t \<mapsto> h)\<rparr>"

text \<open>One turn of the loop; a missing price row reads as Go's zero value.\<close>

definition restore_one ::
  "fits \<Rightarrow> instant \<Rightarrow> boot_state \<Rightarrow> chain_snapshot \<Rightarrow> boot_walk \<Rightarrow> boot_error + boot_walk" where
  "restore_one fit now bs chain0 w =
     (let t = chTicker chain0;
          u = (case btUnderlyings bs t of Some u \<Rightarrow> u | None \<Rightarrow> \<lparr>usSpot = 0, usBaselineIV = 0, usUpdatedMs = 0\<rparr>);
          chain = chain0\<lparr>chContracts := filter (live_row now t) (chContracts chain0)\<rparr>;
          saved = (case btLastSnapshots bs t of Some sn \<Rightarrow> snAsOfMs sn | None \<Rightarrow> 0);
          tradable = list_ex (beyond_today now) (chContracts chain)
      in if chContracts chain = [] then Inr w
         else case entryForTicker (bwEntries w) t of
                Some e0 \<Rightarrow>
                  (let e = (if usBaselineIV u > 0 then e0\<lparr>tcVol := usBaselineIV u\<rparr> else e0)
                   in bind_res (restoreTicker fit (bwService w) chain e (usBaselineIV u) saved tradable) (\<lambda>h.
                      Inr (w\<lparr>bwService := install t h (bwService w)\<rparr>)))
              | None \<Rightarrow>
                  if bwCustomSet w then Inr w
                  else
                    let e = free_slot_entry t u
                    in bind_res (restoreTicker fit (bwService w) chain e (tcVol e) saved tradable) (\<lambda>h.
                       Inr (w\<lparr>bwService := install t h (bwService w), bwEntries := bwEntries w @ [e], bwCustomSet := True\<rparr>)))"

definition restoreBootState ::
  "fits \<Rightarrow> instant \<Rightarrow> boot_state option \<Rightarrow> string list \<Rightarrow> boot_walk \<Rightarrow> boot_error + boot_walk" where
  "restoreBootState fit now boot order w =
     (case boot of
        None \<Rightarrow> Inl BBootState
      | Some bs \<Rightarrow>
          (case ChainSnapshots bs order of
             Inl t \<Rightarrow> Inl (BNoUnderlying t)
           | Inr cs \<Rightarrow> fold_res (restore_one fit now bs) cs w))"

section \<open>New\<close>

record new_config =
  ncApp :: app_config
  ncDB :: bool
  ncWatchlist :: "watch_item list option"
  ncCustom :: string
  ncHedgeAsset :: string
  ncHedgeBench :: string

record disk =
  dkBoot :: "boot_state option"
  dkOrder :: "string list"
  dkPair :: "(string \<times> string) option option"
  dkLegs :: "leg list option"

definition fresh_service :: "app_config \<Rightarrow> bool \<Rightarrow> service" where
  "fresh_service c db =
     \<lparr>apCfg = c, apStore = db, apHandles = Map.empty, apOrder = [], apActive = [], apUnderlying = False,
      apOptions = False, apConnectedAt = None, apUpdates = 0, apLastUpdate = None, apLastPersist = zero_time,
      apSim = False, apRoot = False, apRunning = False, apClosed = False, apExternal = False,
      apHedgeAsset = [], apHedgeBench = [], apHedgeLegs = [], apHedgeNextID = 0, apHedgeStats = None, apHedgeN = 0,
      apHedgeSession = [], apBenchSpot = 0, apBenchSpotMs = 0, apBenchSeed = 0, apIbkrDeltas = Map.empty, apIbkrAt = zero_time,
      apLoops = [], apOrphans = [], apWrites = [], apEvents = []\<rparr>"

definition boot_entries :: "new_config \<Rightarrow> boot_error + ticker_config list \<times> bool" where
  "boot_entries c =
     bind_res (case ncWatchlist c of
                 None \<Rightarrow> Inr DefaultWatchlist
               | Some items \<Rightarrow> (case WatchlistFromFile items of None \<Rightarrow> Inl BWatchlist | Some es \<Rightarrow> Inr es)) (\<lambda>es.
     if ncCustom c = [] then Inr (es, False)
     else if \<not> ValidTicker (ncCustom c) then Inl (BBadCustom (ncCustom c))
     else Inr (es @ [guessTicker (ncCustom c)], True))"

definition seed_one :: "fits \<Rightarrow> seeds \<Rightarrow> instant \<Rightarrow> ticker_config \<Rightarrow> service \<Rightarrow> boot_error + service" where
  "seed_one fit gen now e s =
     bind_res (if apHandles s (tcTicker e) \<noteq> None then Inr s
               else case addHandle fit gen now e s of Inl x \<Rightarrow> Inl (BSeed (tcTicker e) x) | Inr s' \<Rightarrow> Inr s') (\<lambda>s1.
     Inr (s1\<lparr>apOrder := apOrder s1 @ [tcTicker e]\<rparr>))"

definition boot_hedge :: "disk \<Rightarrow> service \<Rightarrow> boot_error + service" where
  "boot_hedge d s =
     (if \<not> apStore s then Inr s
      else case dkPair d of
             None \<Rightarrow> Inl BHedgePair
           | Some pair \<Rightarrow>
               (let s1 = (case pair of None \<Rightarrow> s | Some (a, b) \<Rightarrow> s\<lparr>apHedgeAsset := a, apHedgeBench := b\<rparr>)
                in case dkLegs d of None \<Rightarrow> Inl BPositions | Some legs \<Rightarrow> Inr (s1\<lparr>apHedgeLegs := legs\<rparr>)))"

definition seed_pair :: "hedge_store \<Rightarrow> new_config \<Rightarrow> service \<Rightarrow> service" where
  "seed_pair st c s =
     (if apHedgeAsset s = [] \<and> ncHedgeAsset c \<noteq> []
      then case setHedgePairLocked st (ncHedgeAsset c) (ncHedgeBench c) s of Inl _ \<Rightarrow> s | Inr s' \<Rightarrow> s'
      else s)"

definition New :: "fits \<Rightarrow> seeds \<Rightarrow> hedge_store \<Rightarrow> instant \<Rightarrow> disk \<Rightarrow> new_config \<Rightarrow> boot_error + service" where
  "New fit gen st now d c =
     bind_res (boot_entries c) (\<lambda>(es, custom).
     let w = \<lparr>bwService = fresh_service (app_withDefaults (ncApp c)) (ncDB c), bwEntries = es, bwCustomSet = custom\<rparr>
     in bind_res (if ncDB c then restoreBootState fit now (dkBoot d) (dkOrder d) w else Inr w) (\<lambda>w1.
     bind_res (fold_res (seed_one fit gen now) (bwEntries w1) (bwService w1)) (\<lambda>s1.
     if apOrder s1 = [] then Inl BEmpty
     else bind_res (boot_hedge d (s1\<lparr>apActive := hd (apOrder s1)\<rparr>)) (\<lambda>s2.
       Inr (seed_pair st c s2)))))"

end
