(* ===== verification/Service_Sim.thy ===== *)
theory Service_Sim
  imports Service
begin

text \<open>
  Package \<^verbatim>\<open>app\<close>, the live simulator (\<^verbatim>\<open>sim.go\<close>): while a stream is connected every tick walks
  the spots and drifts the open interest of every watched book. The draws of the random
  generator are arguments. The loop releases the lock between tickers, so a tick is a
  sequence of turns, one per ticker, and a last one for the benchmark; \<open>simulate_tick\<close> runs them in a
  row.
\<close>

text \<open>A normal draw for the step and the uniform draws that the two reflections use.\<close>

record walk_draw =
  wdNorm :: f64
  wdLow :: f64
  wdHigh :: f64

definition walkSpot :: "walk_draw \<Rightarrow> f64 \<Rightarrow> f64 \<Rightarrow> f64" where
  "walkSpot d spot seed =
     (let step = wdNorm d * lit (25 / 100000);
          next0 = spot * (1 + step);
          lo = seed * lit (9 / 10); hi = seed * lit (11 / 10);
          next1 = (if next0 < lo then lo * (1 + lit (2 / 10) * wdLow d) else next0);
          next2 = (if next1 > hi then hi * (1 - lit (2 / 10) * wdHigh d) else next1)
      in math_Round (next2 * lit 100) / lit 100)"

definition drift_one :: "f64 \<Rightarrow> contract \<Rightarrow> contract" where
  "drift_one z c = c\<lparr>cOpenInterest := math_Max 0 (math_Round (cOpenInterest c * (1 + lit (15 / 1000) * z)))\<rparr>"

definition driftOI :: "(nat \<Rightarrow> f64) \<Rightarrow> chain_snapshot \<Rightarrow> chain_snapshot" where
  "driftOI zs chain =
     chain\<lparr>chContracts := map (\<lambda>(i, c). drift_one (zs i) c) (List.enumerate 0 (chContracts chain))\<rparr>"

record sim_draws =
  sdWalk :: walk_draw
  sdOI :: "nat \<Rightarrow> f64"

text \<open>What the top of a tick reads under the lock, the ticks counted from one.\<close>

record sim_view =
  smUnderlying :: bool
  smOptions :: bool
  smTickers :: "string list"

definition sim_begin :: "service \<Rightarrow> sim_view option" where
  "sim_begin s =
     (if apClosed s \<or> \<not> connectedLocked s then None
      else Some \<lparr>smUnderlying = apUnderlying s, smOptions = apOptions s, smTickers = apOrder s\<rparr>)"

definition sim_chain :: "instant \<Rightarrow> nat \<Rightarrow> sim_view \<Rightarrow> sim_draws \<Rightarrow> ticker_config \<Rightarrow> book_state \<Rightarrow> chain_snapshot" where
  "sim_chain now tick v d cfg bs =
     (let spot = (if smUnderlying v then walkSpot (sdWalk d) (bsSpot bs) (tcSpot cfg) else bsSpot bs);
          chain = (if smOptions v \<and> tick mod 10 = 1 then driftOI (sdOI d) (bsChain bs) else bsChain bs)
      in chain\<lparr>chSpot := spot, chAsOfMs := UnixMilli now\<rparr>)"

definition sim_ticker :: "instant \<Rightarrow> nat \<Rightarrow> sim_view \<Rightarrow> sim_draws \<Rightarrow> string \<Rightarrow> service \<Rightarrow> service" where
  "sim_ticker now tick v d name s =
     (case apHandles s name of
        None \<Rightarrow> s
      | Some h \<Rightarrow>
          (case Latest (hdBook h) name of
             None \<Rightarrow> s
           | Some bs \<Rightarrow>
               (case snd (ApplyChainSnapshot (hdBook h) (sim_chain now tick v d (hdCfg h) bs)) of
                  Inl _ \<Rightarrow> s
                | Inr b \<Rightarrow> put_book name b s)))"

definition sim_bench :: "instant \<Rightarrow> sim_view \<Rightarrow> walk_draw \<Rightarrow> service \<Rightarrow> service" where
  "sim_bench now v d s0 =
     (let s = s0\<lparr>apUpdates := apUpdates s0 + 1, apLastUpdate := Some now\<rparr>
      in if smUnderlying v \<and> apHedgeBench s \<noteq> [] \<and> Option.is_none (apHandles s (apHedgeBench s))
         then
           let seed = (if feq (apBenchSeed s) 0 then tcSpot (guessTicker (apHedgeBench s)) else apBenchSeed s);
               prev = (if feq (apBenchSpot s) 0 then seed else apBenchSpot s)
           in s\<lparr>apBenchSeed := seed, apBenchSpot := walkSpot d prev seed, apBenchSpotMs := UnixMilli now\<rparr>
         else s)"

definition simulate_tick ::
  "instant \<Rightarrow> nat \<Rightarrow> (string \<Rightarrow> sim_draws) \<Rightarrow> walk_draw \<Rightarrow> service \<Rightarrow> service option" where
  "simulate_tick now tick ds d s =
     map_option (\<lambda>v. sim_bench now v d (fold (\<lambda>t. sim_ticker now tick v (ds t) t) (smTickers v) s)) (sim_begin s)"

end
