(* ===== verification/Service_Props.thy ===== *)
theory Service_Props
  imports Service_Boot Service_Sim Systems
begin

text \<open>
  The service keeps its books and engines sound, a handle for every ticker of the watchlist, at
  most one free slot on it, and one engine goroutine per started handle; and the watchlist
  a set without leftovers as long as the free slot is pointed at a ticker that is not on
  the list (the runs called \<open>tidy\<close>); the host contract of the ingest core is interpreted on the
  service; and the hedge state machine never panics and publishes a hedge only on sufficient
  and fresh data.
\<close>

section \<open>Handles\<close>

definition book_wf :: "book \<Rightarrow> bool" where
  "book_wf b \<longleftrightarrow> (\<forall>t bs. Latest b t = Some bs \<longrightarrow> wf_state t bs)"

lemma book_wf_empty: "book_wf NewInMemoryBook"
  by (simp add: book_wf_def)

lemma book_wf_chain: "book_wf b \<Longrightarrow> snd (ApplyChainSnapshot b snap) = Inr b' \<Longrightarrow> book_wf b'"
  unfolding book_wf_def
  using bk.chain_reads [of b snap b'] view_step_wf [where e = "ChainEvent snap"]
  by (metis event_ticker.simps(1))

lemma book_wf_spot: "book_wf b \<Longrightarrow> ApplySpot b t p ms = Inr b' \<Longrightarrow> book_wf b'"
  unfolding book_wf_def
  using bk.spot_reads [of b t p ms b'] view_step_wf [where e = "SpotEvent t p ms"]
  by (metis event_ticker.simps(2))

definition handle_wf :: "string \<Rightarrow> handle \<Rightarrow> bool" where
  "handle_wf t h \<longleftrightarrow> book_wf (hdBook h) \<and> ecTicker (enCfg (hdEng h)) = t \<and>
     (\<forall>sn. enSnap (hdEng h) = Some sn \<longrightarrow> published_ok t sn)"

definition handles_wf :: "service \<Rightarrow> bool" where
  "handles_wf s \<longleftrightarrow> (\<forall>t h. apHandles s t = Some h \<longrightarrow> handle_wf t h)"

lemma handles_wf_cong: "apHandles s' = apHandles s \<Longrightarrow> handles_wf s' = handles_wf s"
  by (simp add: handles_wf_def)

lemma handles_wf_put:
  "handles_wf s \<Longrightarrow> handle_wf t h \<Longrightarrow> apHandles s' = (apHandles s)(t \<mapsto> h) \<Longrightarrow> handles_wf s'"
  by (simp add: handles_wf_def)

lemma handle_wf_fields:
  "handle_wf t h \<Longrightarrow> handle_wf t (h\<lparr>hdCancel := c\<rparr>)" "handle_wf t h \<Longrightarrow> handle_wf t (h\<lparr>hdHist := hist\<rparr>)"
  "handle_wf t h \<Longrightarrow> handle_wf t (h\<lparr>hdSaved := ms\<rparr>)"
  "handle_wf t h \<Longrightarrow> book_wf b \<Longrightarrow> handle_wf t (h\<lparr>hdBook := b\<rparr>)"
  by (simp_all add: handle_wf_def)

lemma engineFor_fresh: "ecTicker (enCfg (engineFor fit s cfg vol)) = tcTicker cfg" "enSnap (engineFor fit s cfg vol) = None"
  by (simp_all add: engineFor_def Let_def NewEngine_def Engine.withDefaults_def)

lemma handle_wf_fresh:
  "book_wf b \<Longrightarrow> tcTicker cfg = t \<Longrightarrow>
   handle_wf t \<lparr>hdCfg = cfg', hdVol = v, hdBook = b, hdEng = engineFor fit s cfg vol, hdCancel = c, hdHist = hs, hdSaved = ms\<rparr>"
  by (simp add: handle_wf_def engineFor_fresh)

lemma handle_wf_levels: "handle_wf t h \<Longrightarrow> handle_wf t (h\<lparr>hdEng := RecomputeLevels (hdBook h) now (hdEng h)\<rparr>)"
  using RecomputeLevels_inv [of "hdBook h" "hdEng h" now] by (simp add: handle_wf_def book_wf_def)

lemma handle_wf_flip: "handle_wf t h \<Longrightarrow> handle_wf t (h\<lparr>hdEng := RecomputeFlip (hdBook h) now (hdEng h)\<rparr>)"
  using RecomputeFlip_inv [of "hdBook h" "hdEng h" now] by (simp add: handle_wf_def book_wf_def)

section \<open>The shape of the watchlist\<close>

text \<open>
  Operations that replace handles by handles with the same configuration and the same
  running flag keep the shape.
\<close>

definition custom_slots :: "service \<Rightarrow> string set" where
  "custom_slots s = {t. is_custom s t}"

definition running_loops :: "service \<Rightarrow> string set" where
  "running_loops s = {t. \<exists>h. apHandles s t = Some h \<and> hdCancel h}"

definition watch_ok :: "bool \<Rightarrow> service \<Rightarrow> bool" where
  "watch_ok tidy s \<longleftrightarrow> set (apOrder s) \<subseteq> dom (apHandles s) \<and>
     (\<forall>t \<in> set (apOrder s). \<forall>u \<in> set (apOrder s). is_custom s t \<longrightarrow> is_custom s u \<longrightarrow> t = u) \<and>
     (\<not> apClosed s \<longrightarrow> distinct (apLoops s) \<and> set (apLoops s) = running_loops s) \<and>
     (tidy \<longrightarrow> distinct (apOrder s) \<and> dom (apHandles s) \<subseteq> set (apOrder s) \<and> apOrphans s = [])"

definition same_shape :: "service \<Rightarrow> service \<Rightarrow> bool" where
  "same_shape s s' \<longleftrightarrow> apOrder s' = apOrder s \<and> apLoops s' = apLoops s \<and> apOrphans s' = apOrphans s \<and> apClosed s' = apClosed s \<and>
     (\<forall>t. map_option (\<lambda>h. (hdCfg h, hdCancel h)) (apHandles s' t) = map_option (\<lambda>h. (hdCfg h, hdCancel h)) (apHandles s t))"

lemma same_shape_refl: "same_shape s s" and same_shape_trans: "same_shape s s' \<Longrightarrow> same_shape s' s'' \<Longrightarrow> same_shape s s''"
  by (simp_all add: same_shape_def)

lemma same_shape_custom: "same_shape s s' \<Longrightarrow> is_custom s' t = is_custom s t"
proof -
  assume "same_shape s s'"
  then have "map_option (\<lambda>h. (hdCfg h, hdCancel h)) (apHandles s' t) = map_option (\<lambda>h. (hdCfg h, hdCancel h)) (apHandles s t)"
    by (simp add: same_shape_def)
  then show ?thesis by (cases "apHandles s' t"; cases "apHandles s t") (simp_all add: is_custom_def)
qed

lemma same_shape_running: "same_shape s s' \<Longrightarrow> running_loops s' = running_loops s"
proof -
  assume "same_shape s s'"
  then have m: "map_option (\<lambda>h. (hdCfg h, hdCancel h)) (apHandles s' t) = map_option (\<lambda>h. (hdCfg h, hdCancel h)) (apHandles s t)" for t
    by (simp add: same_shape_def)
  have "(\<exists>h. apHandles s' t = Some h \<and> hdCancel h) = (\<exists>h. apHandles s t = Some h \<and> hdCancel h)" for t
    using m [of t] by (cases "apHandles s' t"; cases "apHandles s t") simp_all
  then show ?thesis by (simp add: running_loops_def)
qed

lemma same_shape_dom: "same_shape s s' \<Longrightarrow> dom (apHandles s') = dom (apHandles s)"
  unfolding same_shape_def dom_def by (metis (mono_tags, lifting) option.map_disc_iff)

lemma watch_ok_shape: "watch_ok tidy s \<Longrightarrow> same_shape s s' \<Longrightarrow> watch_ok tidy s'"
  unfolding watch_ok_def
  by (simp add: same_shape_custom same_shape_running same_shape_dom) (simp add: same_shape_def)

lemma same_shape_put:
  assumes "apHandles s t = Some h" "hdCfg h' = hdCfg h" "hdCancel h' = hdCancel h"
    and "apHandles s' = (apHandles s)(t \<mapsto> h')" "apOrder s' = apOrder s" "apLoops s' = apLoops s" "apOrphans s' = apOrphans s"
    and "apClosed s' = apClosed s"
  shows "same_shape s s'"
  using assms by (simp add: same_shape_def)

lemma same_shape_frame:
  "apHandles s' = apHandles s \<Longrightarrow> apOrder s' = apOrder s \<Longrightarrow> apLoops s' = apLoops s \<Longrightarrow> apOrphans s' = apOrphans s \<Longrightarrow>
   apClosed s' = apClosed s \<Longrightarrow> same_shape s s'"
  by (simp add: same_shape_def)

section \<open>The invariant of the service\<close>

definition service_inv :: "bool \<Rightarrow> service \<Rightarrow> bool" where
  "service_inv tidy s \<longleftrightarrow> handles_wf s \<and> watch_ok tidy s"

text \<open>What leaves the shape alone and the handles sound.\<close>

definition harmless :: "service \<Rightarrow> service \<Rightarrow> bool" where
  "harmless s s' \<longleftrightarrow> same_shape s s' \<and> (handles_wf s \<longrightarrow> handles_wf s')"

lemma harmless_inv: "harmless s s' \<Longrightarrow> service_inv tidy s \<Longrightarrow> service_inv tidy s'"
  by (auto simp: harmless_def service_inv_def intro: watch_ok_shape)

lemma harmless_refl: "harmless s s"
  by (simp add: harmless_def same_shape_refl)

lemma harmless_trans: "harmless a b \<Longrightarrow> harmless b c \<Longrightarrow> harmless a c"
  unfolding harmless_def by (metis same_shape_trans)

lemma harmless_frame:
  "apHandles s' = apHandles s \<Longrightarrow> apOrder s' = apOrder s \<Longrightarrow> apLoops s' = apLoops s \<Longrightarrow> apOrphans s' = apOrphans s \<Longrightarrow>
   apClosed s' = apClosed s \<Longrightarrow> harmless s s'"
  using same_shape_frame [of s' s] handles_wf_cong [of s' s] by (simp add: harmless_def)

lemma harmless_put:
  assumes "apHandles s t = Some h" "hdCfg h' = hdCfg h" "hdCancel h' = hdCancel h" "handle_wf t h \<Longrightarrow> handle_wf t h'"
    and "apHandles s' = (apHandles s)(t \<mapsto> h')" "apOrder s' = apOrder s" "apLoops s' = apLoops s" "apOrphans s' = apOrphans s"
    and "apClosed s' = apClosed s"
  shows "harmless s s'"
proof -
  have "handles_wf s'" if "handles_wf s"
    using that assms(1,4,5) handles_wf_put [of s t h' s'] by (simp add: handles_wf_def)
  then show ?thesis using assms by (simp add: harmless_def same_shape_put)
qed

lemma harmless_fold: "(\<And>t s. harmless s (f t s)) \<Longrightarrow> harmless s (fold f ts s)"
proof (induction ts arbitrary: s)
  case (Cons t ts)
  show ?case using harmless_trans [OF Cons.prems Cons.IH [OF Cons.prems]] by simp
qed (simp add: harmless_refl)

lemma harmless_save_one: "harmless s (save_one t s)"
proof (cases "apHandles s t")
  case (Some h)
  have "harmless s (s\<lparr>apWrites := ws, apHandles := (apHandles s)(t \<mapsto> h\<lparr>hdSaved := ms\<rparr>)\<rparr>)" for ws ms
    by (rule harmless_put [OF Some, where h' = "h\<lparr>hdSaved := ms\<rparr>"]) (simp_all add: handle_wf_fields)
  then show ?thesis by (simp add: save_one_def Some harmless_refl split: option.split)
qed (simp add: save_one_def harmless_refl)

lemma harmless_save: "harmless s (saveStateLocked now s)"
proof -
  have "harmless s (fold save_one (apOrder s) s)" by (rule harmless_fold) (rule harmless_save_one)
  then have "harmless s ((fold save_one (apOrder s) s)\<lparr>apLastPersist := now\<rparr>)"
    by (rule harmless_trans) (simp add: harmless_frame)
  then show ?thesis by (simp add: saveStateLocked_def harmless_refl)
qed

lemma harmless_publish_one: "harmless s (publish_one t s)"
proof (cases "apHandles s t")
  case (Some h)
  have "harmless s (s\<lparr>apHandles := (apHandles s)(t \<mapsto> h\<lparr>hdHist := hs\<rparr>)\<rparr>)" for hs
    by (rule harmless_put [OF Some, where h' = "h\<lparr>hdHist := hs\<rparr>"]) (simp_all add: handle_wf_fields)
  then show ?thesis by (simp add: publish_one_def Some harmless_refl split: option.split)
qed (simp add: publish_one_def harmless_refl)

lemma harmless_engine:
  assumes "\<And>t h. handle_wf t h \<Longrightarrow> handle_wf t (h\<lparr>hdEng := f (hdBook h) (hdEng h)\<rparr>)"
  shows "harmless s (on_engine f t s)"
proof (cases "apHandles s t")
  case (Some h)
  show ?thesis unfolding on_engine_def Some option.case
    by (rule harmless_put [OF Some, where h' = "h\<lparr>hdEng := f (hdBook h) (hdEng h)\<rparr>"]) (simp_all add: assms)
qed (simp add: on_engine_def harmless_refl)

lemma harmless_broadcast: "harmless s (broadcast name s)"
  by (simp add: broadcast_def harmless_frame)

lemma harmless_publish:
  assumes "\<And>s. harmless s (rehedge s)" shows "harmless s (publish rehedge now s)"
proof -
  define s1 where "s1 = fold publish_one (apOrder s) s"
  define s2 where "s2 = (if connectedLocked s1 \<and> time_Sub now (apLastPersist s1) > PersistEvery then saveStateLocked now s1 else s1)"
  define s3 where "s3 = (if apHedgeAsset s2 \<noteq> [] then rehedge s2 else s2)"
  have "harmless s s1" unfolding s1_def by (rule harmless_fold) (rule harmless_publish_one)
  moreover have "harmless s1 s2" by (simp add: s2_def harmless_save harmless_refl)
  moreover have "harmless s2 s3" by (simp add: s3_def assms harmless_refl)
  ultimately have "harmless s s3" by (blast intro: harmless_trans)
  then have "harmless s s3" "harmless s (broadcast ''state'' s3)"
    using harmless_broadcast harmless_trans by blast+
  moreover have "publish rehedge now s = (if active_changed s1 then broadcast ''state'' s3 else s3)"
    by (simp only: publish_def Let_def s1_def s2_def s3_def)
  ultimately show ?thesis by simp
qed

lemma harmless_SetActive: "SetActiveTicker t s = Inr s' \<Longrightarrow> harmless s s'"
  by (auto simp: SetActiveTicker_def Let_def broadcast_def harmless_frame harmless_refl split: if_splits option.splits)

lemma harmless_SetStream: assumes "SetStream now i on s = Inr s'" shows "harmless s s'"
proof -
  define s1 where "s1 = s\<lparr>apUnderlying := (if i = StreamUnderlying \<or> i = StreamAll then on else apUnderlying s),
    apOptions := (if i = StreamOptions \<or> i = StreamAll then on else apOptions s)\<rparr>"
  define off where "off = saveStateLocked now (fold (on_engine (\<lambda>b e. RecomputeLevels b now e)) (apOrder s1) (stopSimLocked s1))"
  have s1: "harmless s s1" by (simp add: s1_def harmless_frame)
  have "harmless s1 (startSimLocked (if Option.is_none (apConnectedAt s1) then s1\<lparr>apConnectedAt := Some now\<rparr> else s1))"
    by (simp add: harmless_frame startSimLocked_def)
  moreover have "harmless (stopSimLocked s1) off"
    unfolding off_def by (rule harmless_trans [OF harmless_fold harmless_save]) (rule harmless_engine, rule handle_wf_levels)
  then have "harmless s1 off"
    by (rule harmless_trans [rotated]) (simp add: harmless_frame stopSimLocked_def)
  then have "harmless s1 (off\<lparr>apConnectedAt := None\<rparr>)"
    by (rule harmless_trans) (simp add: harmless_frame)
  ultimately have "harmless s1 (if connectedLocked s1
      then startSimLocked (if Option.is_none (apConnectedAt s1) then s1\<lparr>apConnectedAt := Some now\<rparr> else s1)
      else off\<lparr>apConnectedAt := None\<rparr>)" by simp
  note all = harmless_trans [OF harmless_trans [OF s1 this] harmless_broadcast]
  have "s' = broadcast ''status'' (if connectedLocked s1
      then startSimLocked (if Option.is_none (apConnectedAt s1) then s1\<lparr>apConnectedAt := Some now\<rparr> else s1)
      else off\<lparr>apConnectedAt := None\<rparr>)"
    using assms unfolding SetStream_def Let_def s1_def [symmetric] off_def [symmetric] by (simp split: if_splits)
  with all show ?thesis by simp
qed

text \<open>Books.\<close>

lemma harmless_put_book: "book_wf (book_of s t) \<longrightarrow> book_wf b \<Longrightarrow> harmless s (put_book t b s)"
proof (cases "apHandles s t")
  case (Some h)
  assume "book_wf (book_of s t) \<longrightarrow> book_wf b"
  then have "handle_wf t h \<Longrightarrow> handle_wf t (h\<lparr>hdBook := b\<rparr>)" by (simp add: handle_wf_def book_of_def Some)
  then show ?thesis unfolding put_book_def Some option.case
    by (intro harmless_put [OF Some, where h' = "h\<lparr>hdBook := b\<rparr>"]) simp_all
qed (simp add: put_book_def harmless_refl)

lemma harmless_touch: "harmless s (touch now s)"
  by (simp add: touch_def harmless_frame)

lemma harmless_ApplySpot: "harmless s (fst (Service_ApplySpot now s t p ms))"
proof (cases "apHandles s (ToUpper t)")
  case None
  then show ?thesis by (simp add: Service_ApplySpot_def Let_def harmless_refl harmless_frame touch_def)
next
  case (Some h)
  have "harmless s (touch now (put_book (ToUpper t) b s))" if "ApplySpot (hdBook h) (ToUpper t) p ms = Inr b" for b
    using that book_wf_spot by (intro harmless_trans [OF harmless_put_book harmless_touch]) (auto simp: book_of_def Some)
  with Some show ?thesis by (auto simp: Service_ApplySpot_def Let_def harmless_refl split: sum.split)
qed

text \<open>Starting engines.\<close>

lemma start_inv: assumes "service_inv tidy s" shows "service_inv tidy (startEngineLocked t s)"
proof (cases "apHandles s t")
  case None
  with assms show ?thesis by (simp add: startEngineLocked_def)
next
  case (Some h)
  show ?thesis
  proof (cases "hdCancel h \<or> \<not> apRoot s")
    case True
    with assms Some show ?thesis by (simp add: startEngineLocked_def)
  next
    case False
    let ?s = "s\<lparr>apHandles := (apHandles s)(t \<mapsto> h\<lparr>hdCancel := True\<rparr>), apLoops := t # apLoops s\<rparr>"
    have w: "watch_ok tidy s" "handles_wf s" using assms by (simp_all add: service_inv_def)
    have "handle_wf t (h\<lparr>hdCancel := True\<rparr>)" using w(2) Some by (simp add: handles_wf_def handle_wf_fields)
    then have hw: "handles_wf ?s" using handles_wf_put [OF w(2)] by simp
    have c: "is_custom ?s u = is_custom s u" for u by (simp add: is_custom_def Some)
    have r: "running_loops ?s = insert t (running_loops s)" by (auto simp: running_loops_def Some)
    have "t \<notin> running_loops s" using False Some by (simp add: running_loops_def)
    then have "watch_ok tidy ?s" using w(1) Some by (auto simp: watch_ok_def c r)
    with hw False Some show ?thesis by (simp add: startEngineLocked_def service_inv_def)
  qed
qed

lemma start_frame [simp]:
  "apClosed (startEngineLocked t s) = apClosed s" "apOrder (startEngineLocked t s) = apOrder s"
  "dom (apHandles (startEngineLocked t s)) = dom (apHandles s)" "apActive (startEngineLocked t s) = apActive s"
  by (auto simp: startEngineLocked_def split: option.split)

lemma fold_start_inv: "service_inv tidy s \<Longrightarrow> service_inv tidy (fold startEngineLocked ts s)"
  by (induction ts arbitrary: s) (simp_all add: start_inv)

lemma Run_start_inv: assumes "service_inv tidy s" shows "service_inv tidy (Run_start s)"
proof -
  have "service_inv tidy (s\<lparr>apRoot := True, apRunning := True\<rparr>)"
    using harmless_inv [OF harmless_frame assms(1)] by simp
  then show ?thesis unfolding Run_start_def by (rule fold_start_inv)
qed

text \<open>A ticker at the end of the list, with a new handle.\<close>

definition append_handle :: "string \<Rightarrow> handle \<Rightarrow> service \<Rightarrow> service" where
  "append_handle t h s = (disown t s)\<lparr>apHandles := (apHandles s)(t \<mapsto> h), apOrder := apOrder s @ [t]\<rparr>"

lemma disown_fields [simp]:
  "apOrder (disown t s) = apOrder s" "apHandles (disown t s) = apHandles s" "apClosed (disown t s) = apClosed s"
  "apRunning (disown t s) = apRunning s" "apRoot (disown t s) = apRoot s"
  by (simp_all add: disown_def split: option.split)

lemma disown_loops:
  "apLoops (disown t s) = (if t \<in> running_loops s then remove1 t (apLoops s) else apLoops s)"
  "apOrphans (disown t s) = (if t \<in> running_loops s then t # apOrphans s else apOrphans s)"
  by (auto simp: disown_def running_loops_def split: option.split)

lemma disown_new: "apHandles s t = None \<Longrightarrow> disown t s = s"
  by (simp add: disown_def)

lemma append_handle_fields:
  "apOrder (append_handle t h s) = apOrder s @ [t]" "apHandles (append_handle t h s) = (apHandles s)(t \<mapsto> h)"
  "apLoops (append_handle t h s) = apLoops (disown t s)" "apOrphans (append_handle t h s) = apOrphans (disown t s)"
  "apClosed (append_handle t h s) = apClosed s"
  "apRunning (append_handle t h s) = apRunning s" "apRoot (append_handle t h s) = apRoot s"
  by (simp_all add: append_handle_def)

lemma watch_okI:
  assumes "set (apOrder s) \<subseteq> dom (apHandles s)"
    and "\<And>t u. t \<in> set (apOrder s) \<Longrightarrow> u \<in> set (apOrder s) \<Longrightarrow> is_custom s t \<Longrightarrow> is_custom s u \<Longrightarrow> t = u"
    and "\<not> apClosed s \<Longrightarrow> distinct (apLoops s)" "\<not> apClosed s \<Longrightarrow> set (apLoops s) = running_loops s"
    and "tidy \<Longrightarrow> distinct (apOrder s)" "tidy \<Longrightarrow> dom (apHandles s) \<subseteq> set (apOrder s)" "tidy \<Longrightarrow> apOrphans s = []"
  shows "watch_ok tidy s"
  unfolding watch_ok_def using assms by blast

lemma watch_okD:
  assumes "watch_ok tidy s"
  shows "set (apOrder s) \<subseteq> dom (apHandles s)"
    and "t \<in> set (apOrder s) \<Longrightarrow> u \<in> set (apOrder s) \<Longrightarrow> is_custom s t \<Longrightarrow> is_custom s u \<Longrightarrow> t = u"
    and "\<not> apClosed s \<Longrightarrow> distinct (apLoops s)" "\<not> apClosed s \<Longrightarrow> set (apLoops s) = running_loops s"
    and "tidy \<Longrightarrow> distinct (apOrder s)" "tidy \<Longrightarrow> dom (apHandles s) \<subseteq> set (apOrder s)" "tidy \<Longrightarrow> apOrphans s = []"
  using assms unfolding watch_ok_def by blast+

lemma append_handle_inv:
  assumes "service_inv tidy s" "handle_wf t h" "\<not> hdCancel h" "tidy \<longrightarrow> apHandles s t = None"
    and "\<forall>u \<in> set (apOrder s). \<not> is_custom s u"
  shows "service_inv tidy (append_handle t h s)"
proof -
  let ?s = "append_handle t h s"
  have w: "watch_ok tidy s" "handles_wf s" using assms(1) by (simp_all add: service_inv_def)
  note wd = watch_okD [OF w(1)]
  have "handles_wf ?s" using handles_wf_put [OF w(2) assms(2)] by (simp add: append_handle_def)
  moreover have "watch_ok tidy ?s"
  proof (rule watch_okI)
    show "set (apOrder ?s) \<subseteq> dom (apHandles ?s)" using wd(1) by (auto simp: append_handle_fields)
    have c: "is_custom ?s u = (if u = t then tcCustom (hdCfg h) else is_custom s u)" for u
      by (simp add: is_custom_def append_handle_def)
    have "u = t" if "u \<in> set (apOrder ?s)" "is_custom ?s u" for u
      using that assms(5) by (auto simp: c append_handle_fields split: if_splits)
    then show "u = v" if "u \<in> set (apOrder ?s)" "v \<in> set (apOrder ?s)" "is_custom ?s u" "is_custom ?s v" for u v
      using that by blast
    have r: "running_loops ?s = running_loops s - {t}"
      using assms(3) by (auto simp: running_loops_def append_handle_fields split: if_splits)
    show "distinct (apLoops ?s)" if "\<not> apClosed ?s"
      using wd(3) that by (simp add: append_handle_fields disown_loops)
    show "set (apLoops ?s) = running_loops ?s" if "\<not> apClosed ?s"
      using wd(3,4) that by (auto simp: append_handle_fields disown_loops r)
    show "distinct (apOrder ?s)" "dom (apHandles ?s) \<subseteq> set (apOrder ?s)" "apOrphans ?s = []" if tidy
      using that assms(4) wd(1) wd(5-7) [OF that] by (auto simp: append_handle_fields disown_new)
  qed
  ultimately show ?thesis by (simp add: service_inv_def)
qed

lemma guess_ticker: "tcTicker (guessTicker t) = ToUpper t" "tcCustom (guessTicker t)"
  by (simp_all add: guessTicker_def Let_def)

lemma promote_inv:
  assumes "service_inv tidy s" "apHandles s t = None" "ToUpper t = t" "\<forall>u \<in> set (apOrder s). \<not> is_custom s u"
  shows "service_inv tidy (promote fit t s)"
proof -
  define h where "h = \<lparr>hdCfg = guessTicker t, hdVol = go_max (lit (5 / 100)) (tcVol (guessTicker t)), hdBook = NewInMemoryBook,
    hdEng = engineFor fit s (guessTicker t) (go_max (lit (5 / 100)) (tcVol (guessTicker t))), hdCancel = False, hdHist = [], hdSaved = 0\<rparr>"
  have hw: "handle_wf t h" unfolding h_def by (rule handle_wf_fresh) (simp_all add: book_wf_empty guess_ticker assms(3))
  have "\<not> hdCancel h" by (simp add: h_def)
  then have "service_inv tidy (append_handle t h s)" using append_handle_inv [OF assms(1) hw] assms(2,4) by blast
  then have "service_inv tidy (broadcast ''watchlist'' (if apRunning (append_handle t h s) then startEngineLocked t (append_handle t h s)
      else append_handle t h s))" using harmless_inv [OF harmless_broadcast] start_inv by simp
  moreover have "promote fit t s = broadcast ''watchlist'' (if apRunning (append_handle t h s)
      then startEngineLocked t (append_handle t h s) else append_handle t h s)"
    by (simp add: promote_def Let_def append_handle_def disown_new [OF assms(2)] h_def)
  ultimately show ?thesis by simp
qed

lemma ApplyChain_inv: assumes "service_inv tidy s" shows "service_inv tidy (fst (ApplyChain fit now s snap))"
proof -
  let ?t = "ToUpper (chTicker snap)"
  have put: "service_inv tidy (touch now (put_book ?t b s1))"
    if "service_inv tidy s1" "snd (ApplyChainSnapshot (book_of s1 ?t) snap) = Inr b" for s1 b
  proof -
    have "harmless s1 (touch now (put_book ?t b s1))"
      using book_wf_chain that(2) by (intro harmless_trans [OF harmless_put_book harmless_touch]) blast
    then show ?thesis using harmless_inv that(1) by blast
  qed
  have "service_inv tidy (promote fit ?t s)"
    if "apHandles s ?t = None" "\<not> (\<exists>u \<in> set (apOrder s). is_custom s u)"
    using that assms by (intro promote_inv) (auto simp: ToUpper_idem)
  then show ?thesis
    using assms put by (auto simp: ApplyChain_def Let_def Option.is_none_def split: sum.split)
qed

text \<open>The free slot.\<close>

lemma addHandle_ok:
  assumes "addHandle fit gen now e s = Inr s'"
  obtains h where "s' = (disown (tcTicker e) s)\<lparr>apHandles := (apHandles s)(tcTicker e \<mapsto> h)\<rparr>" "handle_wf (tcTicker e) h"
    "\<not> hdCancel h" "hdCfg h = e"
proof -
  obtain c b where b: "snd (ApplyChainSnapshot NewInMemoryBook c) = Inr b"
    and s': "s' = (disown (tcTicker e) s)\<lparr>apHandles := (apHandles s)(tcTicker e \<mapsto>
       \<lparr>hdCfg = e, hdVol = tcVol e, hdBook = b, hdEng = engineFor fit s e (tcVol e), hdCancel = False, hdHist = [], hdSaved = 0\<rparr>)\<rparr>"
    using assms by (auto simp: addHandle_def bind_res_Inr_iff)
  then show ?thesis using that handle_wf_fresh [OF book_wf_chain [OF book_wf_empty b]] by simp
qed

lemma drop_custom_fields:
  assumes "apHandles s c = Some h"
  shows "apHandles (drop_custom c s) = (apHandles s)(c := None)"
    "apLoops (drop_custom c s) = (if hdCancel h then remove1 c (apLoops s) else apLoops s)"
    "apOrphans (drop_custom c s) = apOrphans s"
    "apOrder (drop_custom c s) = apOrder s" "apClosed (drop_custom c s) = apClosed s" "apRunning (drop_custom c s) = apRunning s"
    "apRoot (drop_custom c s) = apRoot s"
  using assms by (simp_all add: drop_custom_def)

lemma drop_custom_inv:
  assumes "service_inv tidy s" "apHandles s c = Some h"
  shows "service_inv tidy (drop_custom c (s\<lparr>apOrder := filter (\<lambda>t. t \<noteq> c) (apOrder s)\<rparr>))"
proof -
  let ?base = "s\<lparr>apOrder := filter (\<lambda>t. t \<noteq> c) (apOrder s)\<rparr>"
  let ?s = "drop_custom c ?base"
  have w: "watch_ok tidy s" "handles_wf s" using assms(1) by (simp_all add: service_inv_def)
  note wd = watch_okD [OF w(1)]
  have "apHandles ?base c = Some h" using assms(2) by simp
  note f = drop_custom_fields [OF this]
  have "handles_wf ?s" using w(2) by (simp add: handles_wf_def f(1))
  moreover have "watch_ok tidy ?s"
  proof (rule watch_okI)
    show "set (apOrder ?s) \<subseteq> dom (apHandles ?s)" using wd(1) by (auto simp: f)
    have "is_custom s u" if "is_custom ?s u" for u using that by (simp add: is_custom_def f split: if_splits)
    then show "u = v" if "u \<in> set (apOrder ?s)" "v \<in> set (apOrder ?s)" "is_custom ?s u" "is_custom ?s v" for u v
      using that wd(2) [of u v] by (simp add: f)
    have r: "running_loops ?s = running_loops s - {c}" by (auto simp: running_loops_def f)
    show "distinct (apLoops ?s)" if "\<not> apClosed ?s" using wd(3) that by (simp add: f)
    show "set (apLoops ?s) = running_loops ?s" if "\<not> apClosed ?s"
    proof -
      have l: "distinct (apLoops s)" "set (apLoops s) = running_loops s" using wd(3,4) that by (simp_all add: f)
      have "c \<in> running_loops s \<longleftrightarrow> hdCancel h" using assms(2) by (simp add: running_loops_def)
      then show ?thesis using l by (auto simp: f r set_remove1_eq)
    qed
    show "distinct (apOrder ?s)" "dom (apHandles ?s) \<subseteq> set (apOrder ?s)" "apOrphans ?s = []" if tidy
      using wd(5-7) [OF that] by (auto simp: f)
  qed
  ultimately show ?thesis by (simp add: service_inv_def)
qed

text \<open>The first half of \<^verbatim>\<open>SetCustomTicker\<close>: the old free slot is gone.\<close>

definition free_slot :: "string \<Rightarrow> service \<Rightarrow> service" where
  "free_slot ticker s =
     (let customs = filter (is_custom s) (apOrder s);
          s1 = s\<lparr>apOrder := filter (\<lambda>t. \<not> is_custom s t) (apOrder s)\<rparr>
      in if customs \<noteq> [] \<and> last customs \<noteq> [] \<and> last customs \<noteq> ticker then drop_custom (last customs) s1 else s1)"

text \<open>Either no entry of the list is the free slot, or all that are have the same name.\<close>

lemma free_slot_cases:
  assumes "watch_ok tidy s"
  obtains (none) "\<forall>u \<in> set (apOrder s). \<not> is_custom s u" "free_slot t s = s"
    | (kept) c where "c \<in> set (apOrder s)" "c = [] \<or> c = t" "free_slot t s = s\<lparr>apOrder := filter (\<lambda>u. u \<noteq> c) (apOrder s)\<rparr>"
        "\<forall>u \<in> set (apOrder s). is_custom s u = (u = c)"
    | (dropped) c h where "apHandles s c = Some h" "c \<noteq> []" "c \<noteq> t" "free_slot t s = drop_custom c (s\<lparr>apOrder := filter (\<lambda>u. u \<noteq> c) (apOrder s)\<rparr>)"
        "\<forall>u \<in> set (apOrder s). is_custom s u = (u = c)"
proof (cases "filter (is_custom s) (apOrder s)" rule: rev_cases)
  case Nil
  then have n: "\<forall>u \<in> set (apOrder s). \<not> is_custom s u" by (simp add: filter_empty_conv)
  then show ?thesis by (intro none) (simp_all add: free_slot_def)
next
  case (snoc us c)
  then have "c \<in> set (filter (is_custom s) (apOrder s))" by simp
  then have c: "c \<in> set (apOrder s)" "is_custom s c" by simp_all
  then have o': "\<forall>u \<in> set (apOrder s). is_custom s u = (u = c)" using watch_okD(2) [OF assms] by blast
  then have f: "filter (\<lambda>u. \<not> is_custom s u) (apOrder s) = filter (\<lambda>u. u \<noteq> c) (apOrder s)" by (auto intro: filter_cong)
  obtain h where h: "apHandles s c = Some h" using c(2) by (auto simp: is_custom_def split: option.splits)
  have e: "free_slot t s = (if c \<noteq> [] \<and> c \<noteq> t then drop_custom c (s\<lparr>apOrder := filter (\<lambda>u. u \<noteq> c) (apOrder s)\<rparr>)
      else s\<lparr>apOrder := filter (\<lambda>u. u \<noteq> c) (apOrder s)\<rparr>)"
    unfolding free_slot_def Let_def f by (simp add: snoc)
  show ?thesis
  proof (cases "c \<noteq> [] \<and> c \<noteq> t")
    case True
    with dropped [OF h _ _ _ o'] e show ?thesis by simp
  next
    case False
    with kept [OF c(1) _ _ o'] e show ?thesis by auto
  qed
qed

lemma free_slot_inv:
  assumes "service_inv tidy s" "tidy \<longrightarrow> apHandles s t = None \<and> apHandles s [] = None"
  shows "service_inv tidy (free_slot t s) \<and> (\<forall>u \<in> set (apOrder (free_slot t s)). \<not> is_custom (free_slot t s) u) \<and>
    (apHandles s t = None \<longrightarrow> apHandles (free_slot t s) t = None)"
proof -
  have w: "watch_ok tidy s" "handles_wf s" using assms(1) by (simp_all add: service_inv_def)
  note wd = watch_okD [OF w(1)]
  show ?thesis
  proof (cases rule: free_slot_cases [OF w(1), where t = t, case_names none kept dropped])
    case none
    then show ?thesis using assms(1) by simp
  next
    case (kept c)
    let ?s = "s\<lparr>apOrder := filter (\<lambda>u. u \<noteq> c) (apOrder s)\<rparr>"
    have c: "is_custom ?s = is_custom s" by (simp add: is_custom_def fun_eq_iff)
    have "running_loops ?s = running_loops s" by (simp add: running_loops_def)
    moreover have "\<not> tidy" using kept(1,2) wd(1) assms(2) by auto
    ultimately have "watch_ok tidy ?s" using wd(1-4) by (intro watch_okI) (auto simp: c)
    then show ?thesis using kept w(2) by (auto simp: service_inv_def handles_wf_def c)
  next
    case (dropped c h)
    have "apHandles (s\<lparr>apOrder := filter (\<lambda>u. u \<noteq> c) (apOrder s)\<rparr>) c = Some h" using dropped(1) by simp
    note f = drop_custom_fields [OF this]
    show ?thesis using drop_custom_inv [OF assms(1) dropped(1)] dropped(5)
      by (auto simp: dropped(4) f is_custom_def)
  qed
qed

lemma free_slot_frame:
  "apClosed (free_slot t s) = apClosed s" "apRunning (free_slot t s) = apRunning s" "apRoot (free_slot t s) = apRoot s"
  by (auto simp: free_slot_def Let_def drop_custom_def split: option.split)

lemma SetCustomTicker_steps:
  "ValidTicker (ToUpper t) \<Longrightarrow> \<not> apClosed s \<Longrightarrow> SetCustomTicker fit gen now t s =
     (case addHandle fit gen now (guessTicker t) (free_slot (ToUpper t) s) of
        Inl e \<Rightarrow> (Some (ESeed (ToUpper t) e), free_slot (ToUpper t) s)
      | Inr s3 \<Rightarrow>
          let s4 = s3\<lparr>apOrder := apOrder s3 @ [ToUpper t]\<rparr>;
              s5 = (if apRunning s4 then startEngineLocked (ToUpper t) s4 else s4)
          in (None, broadcast ''watchlist'' (broadcast ''state'' (s5\<lparr>apActive := ToUpper t\<rparr>))))"
  by (simp only: SetCustomTicker_def free_slot_def Let_def guessTicker_def ToUpper_idem simp_thms if_True if_False)

lemma SetCustomTicker_inv:
  assumes "service_inv tidy s" "tidy \<longrightarrow> apHandles s (ToUpper t) = None \<and> apHandles s [] = None"
  shows "service_inv tidy (snd (SetCustomTicker fit gen now t s))"
proof (cases "ValidTicker (ToUpper t) \<and> \<not> apClosed s")
  case False
  with assms(1) show ?thesis by (auto simp: SetCustomTicker_def Let_def)
next
  case True
  let ?t = "ToUpper t" and ?freed = "free_slot (ToUpper t) s"
  note fs = free_slot_inv [OF assms]
  show ?thesis
  proof (cases "addHandle fit gen now (guessTicker t) ?freed")
    case (Inl e)
    then show ?thesis using True fs by (simp add: SetCustomTicker_steps)
  next
    case (Inr s3)
    from addHandle_ok [OF this] obtain h where h: "s3 = (disown ?t ?freed)\<lparr>apHandles := (apHandles ?freed)(?t \<mapsto> h)\<rparr>"
      "handle_wf ?t h" "\<not> hdCancel h" by (auto simp: guess_ticker)
    let ?a = "append_handle ?t h ?freed"
    have a: "service_inv tidy ?a" using append_handle_inv [of tidy ?freed ?t h] h(2,3) fs assms(2) by simp
    define s5 where "s5 = (if apRunning ?a then startEngineLocked ?t ?a else ?a)"
    have "service_inv tidy s5" using a by (simp add: s5_def start_inv)
    then have "service_inv tidy (s5\<lparr>apActive := ?t\<rparr>)" using harmless_inv [OF harmless_frame] by simp
    then have "service_inv tidy (broadcast ''watchlist'' (broadcast ''state'' (s5\<lparr>apActive := ?t\<rparr>)))"
      using harmless_inv [OF harmless_broadcast] by blast
    moreover have "s3\<lparr>apOrder := apOrder s3 @ [?t]\<rparr> = ?a" by (simp add: h(1) append_handle_def)
    ultimately show ?thesis using True by (simp add: SetCustomTicker_steps Inr Let_def s5_def)
  qed
qed

text \<open>Shutting down.\<close>

lemma closed_inv:
  assumes "service_inv tidy s" "apClosed s'" "apHandles s' = apHandles s" "apOrder s' = apOrder s"
    "apOrphans s' = apOrphans s"
  shows "service_inv tidy s'"
proof -
  have "is_custom s' = is_custom s" using assms(3) by (simp add: is_custom_def fun_eq_iff)
  with assms show ?thesis by (simp add: service_inv_def watch_ok_def handles_wf_def)
qed

lemma close_one_inv:
  assumes "service_inv tidy s" "apClosed s"
  shows "service_inv tidy (close_one now t s) \<and> apClosed (close_one now t s)"
proof (cases "apHandles s t")
  case (Some h)
  define s1 where "s1 = (if hdCancel h then s\<lparr>apLoops := remove1 t (apLoops s)\<rparr> else s)"
  have "service_inv tidy s1" "apClosed s1" using assms closed_inv [OF assms(1)] by (simp_all add: s1_def)
  moreover have "harmless s1 (on_engine (\<lambda>b e. RecomputeLevels b now e) t s1)"
    by (rule harmless_engine) (rule handle_wf_levels)
  ultimately show ?thesis
    using harmless_inv by (simp add: close_one_def Some s1_def [symmetric]) (simp add: harmless_def same_shape_def)
qed (simp add: close_one_def assms)

lemma fold_close_inv:
  "service_inv tidy s \<Longrightarrow> apClosed s \<Longrightarrow> service_inv tidy (fold (close_one now) ts s) \<and> apClosed (fold (close_one now) ts s)"
  by (induction ts arbitrary: s) (simp_all add: close_one_inv)

lemma Service_Close_inv: assumes "service_inv tidy s" shows "service_inv tidy (Service_Close now s)"
proof -
  let ?base = "stopSimLocked (s\<lparr>apClosed := True\<rparr>)"
  have "service_inv tidy ?base" "apClosed ?base" using closed_inv [OF assms] by (simp_all add: stopSimLocked_def)
  then have "service_inv tidy (saveStateLocked now (fold (close_one now) (apOrder s) ?base))"
    using fold_close_inv harmless_inv [OF harmless_save] by blast
  then have "service_inv tidy ((saveStateLocked now (fold (close_one now) (apOrder s) ?base))\<lparr>apStore := False\<rparr>)"
    using harmless_inv [OF harmless_frame] by simp
  with assms show ?thesis by (simp add: Service_Close_def)
qed

section \<open>Construction\<close>

text \<open>What the restore loop keeps between the entries and the handles it has installed.\<close>

definition boot_ok :: "bool \<Rightarrow> ticker_config list \<Rightarrow> service \<Rightarrow> bool" where
  "boot_ok tidy es s \<longleftrightarrow> handles_wf s \<and> (tidy \<longrightarrow> distinct (map tcTicker es)) \<and>
     (\<forall>t h. apHandles s t = Some h \<longrightarrow> \<not> hdCancel h \<and> (\<exists>e \<in> set es. tcTicker e = t \<and> tcCustom e = tcCustom (hdCfg h))) \<and>
     (\<forall>e \<in> set es. \<forall>f \<in> set es. tcCustom e \<longrightarrow> tcCustom f \<longrightarrow> e = f)"

definition idle :: "service \<Rightarrow> bool" where
  "idle s \<longleftrightarrow> apOrder s = [] \<and> apLoops s = [] \<and> apOrphans s = [] \<and> \<not> apClosed s"

lemma boot_ok_install:
  assumes "boot_ok tidy es s" "handle_wf t h" "\<not> hdCancel h" "e \<in> set es" "tcTicker e = t" "tcCustom e = tcCustom (hdCfg h)"
  shows "boot_ok tidy es (install t h s)"
proof -
  have "handles_wf (install t h s)"
    using assms(1,2) handles_wf_put [of s t h] by (simp add: boot_ok_def install_def)
  with assms show ?thesis by (auto simp: boot_ok_def install_def)
qed

lemma restoreTicker_ok:
  assumes "restoreTicker fit s chain e iv sv tr = Inr h"
  shows "handle_wf (tcTicker e) h \<and> \<not> hdCancel h \<and> hdCfg h = e"
proof -
  have "handle_wf (tcTicker e) \<lparr>hdCfg = e, hdVol = v, hdBook = b, hdEng = engineFor fit s e v, hdCancel = False, hdHist = [], hdSaved = sv\<rparr>"
    if "book_wf b" for b v using handle_wf_fresh [OF that] by simp
  then show ?thesis using assms book_wf_chain [OF book_wf_empty] book_wf_empty
    by (auto simp: restoreTicker_def Let_def split: if_splits sum.splits)
qed

lemma boot_ok_grow:
  assumes "boot_ok tidy es s" "entryForTicker es (tcTicker e) = None" "\<forall>f \<in> set es. \<not> tcCustom f"
  shows "boot_ok tidy (es @ [e]) s"
proof -
  have "tcTicker e \<notin> tcTicker ` set es"
    using assms(2) by (auto simp: entryForTicker_def find_None_iff)
  with assms show ?thesis by (auto simp: boot_ok_def)
qed

definition walk_ok :: "bool \<Rightarrow> boot_walk \<Rightarrow> bool" where
  "walk_ok tidy w \<longleftrightarrow> boot_ok tidy (bwEntries w) (bwService w) \<and> idle (bwService w) \<and>
     (\<not> bwCustomSet w \<longrightarrow> (\<forall>e \<in> set (bwEntries w). \<not> tcCustom e))"

lemma idle_install: "idle (install t h s) = idle s"
  by (simp add: idle_def install_def)

lemma restore_one_ok:
  assumes "restore_one fit now bs chain w = Inr w'" "walk_ok tidy w" shows "walk_ok tidy w'"
proof -
  let ?t = "chTicker chain" and ?s = "bwService w" and ?es = "bwEntries w"
  have w: "boot_ok tidy ?es ?s" "idle ?s" using assms(2) by (simp_all add: walk_ok_def)
  have known: "walk_ok tidy (w\<lparr>bwService := install ?t h ?s\<rparr>)"
    if "entryForTicker ?es ?t = Some e0" "restoreTicker fit ?s ch e iv sv tr = Inr h" "e = (if b then e0\<lparr>tcVol := v\<rparr> else e0)"
    for e0 e ch iv sv tr h v b
  proof -
    have e0: "e0 \<in> set ?es" "tcTicker e0 = ?t" using that(1) by (auto simp: entryForTicker_def find_Some_iff)
    have "tcTicker e = ?t" "tcCustom e = tcCustom e0" using that(3) e0 by simp_all
    with restoreTicker_ok [OF that(2)] have "boot_ok tidy ?es (install ?t h ?s)"
      using boot_ok_install [OF w(1), of ?t h e0] e0 by auto
    then show ?thesis using assms(2) by (simp add: walk_ok_def idle_install)
  qed
  have free: "walk_ok tidy (w\<lparr>bwService := install ?t h ?s, bwEntries := ?es @ [e], bwCustomSet := True\<rparr>)"
    if "entryForTicker ?es ?t = None" "\<not> bwCustomSet w" "restoreTicker fit ?s ch e iv sv tr = Inr h" "tcTicker e = ?t"
    for e ch iv sv tr h
  proof -
    have "boot_ok tidy (?es @ [e]) ?s"
      using boot_ok_grow [OF w(1)] that assms(2) by (simp add: walk_ok_def)
    then have "boot_ok tidy (?es @ [e]) (install ?t h ?s)"
      using restoreTicker_ok [OF that(3)] that(4) boot_ok_install [of tidy "?es @ [e]" ?s ?t h e] by simp
    then show ?thesis using w(2) by (simp add: walk_ok_def idle_install)
  qed
  show ?thesis
  proof (cases "filter (live_row now ?t) (chContracts chain) = []")
    case True
    then show ?thesis using assms by (simp add: restore_one_def Let_def)
  next
    case live: False
    show ?thesis
    proof (cases "entryForTicker ?es ?t")
      case None
      then show ?thesis using assms live free [OF None]
        by (auto simp: restore_one_def Let_def bind_res_Inr_iff free_slot_entry_def split: if_splits)
    next
      case (Some e0)
      then obtain ch b v iv sv tr h where "restoreTicker fit ?s ch (if b then e0\<lparr>tcVol := v\<rparr> else e0) iv sv tr = Inr h"
        "w' = w\<lparr>bwService := install ?t h ?s\<rparr>"
        using assms(1) live by (simp add: restore_one_def Let_def bind_res_Inr_iff) blast
      then show ?thesis using known [OF Some _ refl] by simp
    qed
  qed
qed

lemma fold_res_inv:
  assumes "fold_res f xs s = Inr s'" "P s" "\<And>x s s'. f x s = Inr s' \<Longrightarrow> P s \<Longrightarrow> P s'"
  shows "P s'"
  using assms(1,2) by (induction xs arbitrary: s) (auto simp: bind_res_Inr_iff intro: assms(3))

lemma restore_ok: "restoreBootState fit now boot order w = Inr w' \<Longrightarrow> walk_ok tidy w \<Longrightarrow> walk_ok tidy w'"
  by (auto simp: restoreBootState_def split: option.splits sum.splits elim: fold_res_inv intro: restore_one_ok)

text \<open>Seeding walks down the entries; each one is on the order exactly once.\<close>

definition seeded :: "bool \<Rightarrow> ticker_config list \<Rightarrow> ticker_config list \<Rightarrow> service \<Rightarrow> bool" where
  "seeded tidy es prior s \<longleftrightarrow> boot_ok tidy es s \<and> apOrder s = map tcTicker prior \<and> tcTicker ` set prior \<subseteq> dom (apHandles s) \<and>
     apLoops s = [] \<and> apOrphans s = [] \<and> \<not> apClosed s"

lemma seed_one_ok:
  assumes "seed_one fit gen now e s = Inr s'" "seeded tidy es prior s" "e \<in> set es"
  shows "seeded tidy es (prior @ [e]) s'"
proof -
  obtain s1 where s1: "s' = s1\<lparr>apOrder := apOrder s1 @ [tcTicker e]\<rparr>"
    "(if apHandles s (tcTicker e) \<noteq> None then Inr s
      else case addHandle fit gen now e s of Inl x \<Rightarrow> Inl (BSeed (tcTicker e) x) | Inr r \<Rightarrow> Inr r) = Inr s1"
    using assms(1) by (auto simp: seed_one_def bind_res_Inr_iff)
  have "boot_ok tidy es s1 \<and> apOrder s1 = apOrder s \<and> dom (apHandles s1) = insert (tcTicker e) (dom (apHandles s)) \<and>
      apLoops s1 = apLoops s \<and> apOrphans s1 = apOrphans s \<and> apClosed s1 = apClosed s"
  proof (cases "apHandles s (tcTicker e)")
    case (Some h)
    then show ?thesis using s1(2) assms(2) by (auto simp: seeded_def)
  next
    case None
    then have "addHandle fit gen now e s = Inr s1" using s1(2) by (auto split: sum.splits)
    from addHandle_ok [OF this] obtain h where h: "s1 = install (tcTicker e) h s" "handle_wf (tcTicker e) h"
      "\<not> hdCancel h" "hdCfg h = e" by (auto simp: install_def disown_new None)
    have "boot_ok tidy es s" using assms(2) by (simp add: seeded_def)
    then have "boot_ok tidy es s1" unfolding h(1) using h(2-4) assms(3) by (intro boot_ok_install [where e = e]) simp_all
    then show ?thesis by (simp add: h(1) install_def)
  qed
  then show ?thesis using assms(2) by (auto simp: s1(1) seeded_def boot_ok_def handles_wf_def)
qed

lemma seed_all_ok:
  "fold_res (seed_one fit gen now) rest s = Inr s' \<Longrightarrow> seeded tidy es prior s \<Longrightarrow> set rest \<subseteq> set es \<Longrightarrow> seeded tidy es (prior @ rest) s'"
proof (induction rest arbitrary: prior s)
  case (Cons e rest)
  then obtain s1 where "seed_one fit gen now e s = Inr s1" "fold_res (seed_one fit gen now) rest s1 = Inr s'"
    by (auto simp: bind_res_Inr_iff)
  then show ?case using Cons.IH [of s1 "prior @ [e]"] seed_one_ok Cons.prems by auto
qed simp

lemma seeded_inv: assumes "seeded tidy es es s" shows "service_inv tidy s"
proof -
  have b: "boot_ok tidy es s" using assms by (simp add: seeded_def)
  have "watch_ok tidy s"
  proof (rule watch_okI)
    have "t \<in> tcTicker ` set es" if "apHandles s t = Some h" for t h using b that by (auto simp: boot_ok_def)
    then show "set (apOrder s) \<subseteq> dom (apHandles s)" "dom (apHandles s) \<subseteq> set (apOrder s)"
      using assms by (auto simp: seeded_def)
    show "t = u" if tu: "is_custom s t" "is_custom s u" for t u
    proof -
      have "\<exists>e \<in> set es. tcTicker e = x \<and> tcCustom e" if "is_custom s x" for x
        using that b by (auto simp: is_custom_def boot_ok_def split: option.splits)
      then obtain e f where "e \<in> set es" "tcTicker e = t" "tcCustom e" "f \<in> set es" "tcTicker f = u" "tcCustom f"
        using tu by meson
      then show ?thesis using b unfolding boot_ok_def by blast
    qed
    have "running_loops s = {}" using b by (auto simp: running_loops_def boot_ok_def)
    then show "distinct (apLoops s)" "set (apLoops s) = running_loops s" "apOrphans s = []" using assms by (simp_all add: seeded_def)
    show "distinct (apOrder s)" if tidy using assms b that by (simp add: seeded_def boot_ok_def)
  qed
  with b show ?thesis by (simp add: service_inv_def boot_ok_def)
qed

lemma harmless_boot_hedge: "boot_hedge d s = Inr s' \<Longrightarrow> harmless s s'"
  by (auto simp: boot_hedge_def Let_def harmless_frame harmless_refl split: if_splits option.splits)

lemma harmless_pair: "setHedgePairLocked st a b s = Inr s' \<Longrightarrow> harmless s s'"
  by (auto simp: setHedgePairLocked_def Let_def harmless_frame split: if_splits)

lemma harmless_seed_pair: "harmless s (seed_pair st c s)"
  by (auto simp: seed_pair_def harmless_refl harmless_pair split: sum.split)

lemma fresh_walk:
  assumes "tidy \<longrightarrow> distinct (map tcTicker es)" "\<forall>e \<in> set es. \<forall>f \<in> set es. tcCustom e \<longrightarrow> tcCustom f \<longrightarrow> e = f"
    "\<not> cs \<longrightarrow> (\<forall>e \<in> set es. \<not> tcCustom e)"
  shows "walk_ok tidy \<lparr>bwService = fresh_service c db, bwEntries = es, bwCustomSet = cs\<rparr>"
  using assms by (simp add: walk_ok_def boot_ok_def handles_wf_def idle_def fresh_service_def)

text \<open>The watchlist a configuration asks for, before the free slot.\<close>

definition base_list :: "new_config \<Rightarrow> ticker_config list" where
  "base_list c = (case ncWatchlist c of None \<Rightarrow> DefaultWatchlist
     | Some items \<Rightarrow> (case WatchlistFromFile items of None \<Rightarrow> [] | Some es \<Rightarrow> es))"

lemma watchlist_loop_ok:
  "watchlist_loop seen its = Some es \<Longrightarrow> distinct (map tcTicker es) \<and> (\<forall>e \<in> set es. \<not> tcCustom e \<and> tcTicker e \<notin> set seen)"
proof (induction seen its arbitrary: es rule: watchlist_loop.induct)
  case (2 seen it its)
  obtain c where c: "item_config it = Some c" "ValidTicker (tcTicker c)"
    using 2(3) by (auto split: option.splits if_splits)
  show ?case
  proof (cases "tcTicker c \<in> set seen")
    case True
    then show ?thesis using 2(3) 2(1) [OF c(1)] c by simp
  next
    case False
    then obtain rest where "watchlist_loop (tcTicker c # seen) its = Some rest" "es = c\<lparr>tcCustom := False\<rparr> # rest"
      using 2(3) c by auto
    moreover from this(1) have "distinct (map tcTicker rest) \<and> (\<forall>e \<in> set rest. \<not> tcCustom e \<and> tcTicker e \<notin> set (tcTicker c # seen))"
      using 2(2) [OF c(1) _ False] c(2) by simp
    ultimately show ?thesis using False by auto
  qed
qed simp

lemma default_list_ok: "distinct (map tcTicker DefaultWatchlist)" "\<forall>e \<in> set DefaultWatchlist. \<not> tcCustom e"
  by (simp_all add: DefaultWatchlist_def List.map_filter_simps seedTickers_def seed_entry_def)

lemma base_list_ok: "distinct (map tcTicker (base_list c)) \<and> (\<forall>e \<in> set (base_list c). \<not> tcCustom e)"
  using default_list_ok watchlist_loop_ok [of "[]"]
  by (auto simp: base_list_def WatchlistFromFile_def split: option.split)

lemma guard_Inr: "(if b then Inl e else r) = Inr y \<longleftrightarrow> \<not> b \<and> r = Inr y"
  by simp

lemma New_inv:
  assumes "New fit gen st now d c = Inr s" "tidy \<longrightarrow> ToUpper (ncCustom c) \<notin> tcTicker ` set (base_list c)"
  shows "service_inv tidy s"
proof -
  obtain es cs w1 s1 s2 where es: "boot_entries c = Inr (es, cs)"
    and w1: "(if ncDB c then restoreBootState fit now (dkBoot d) (dkOrder d)
          \<lparr>bwService = fresh_service (app_withDefaults (ncApp c)) (ncDB c), bwEntries = es, bwCustomSet = cs\<rparr>
        else Inr \<lparr>bwService = fresh_service (app_withDefaults (ncApp c)) (ncDB c), bwEntries = es, bwCustomSet = cs\<rparr>) = Inr w1"
    and s1: "fold_res (seed_one fit gen now) (bwEntries w1) (bwService w1) = Inr s1"
    and s2: "boot_hedge d (s1\<lparr>apActive := hd (apOrder s1)\<rparr>) = Inr s2" "s = seed_pair st c s2"
    using assms(1) by (auto simp: New_def bind_res_Inr_iff Let_def guard_Inr)
  have "es = base_list c \<and> \<not> cs \<or> es = base_list c @ [guessTicker (ncCustom c)] \<and> cs"
    using es by (auto simp: boot_entries_def base_list_def bind_res_Inr_iff split: option.splits if_splits)
  then have "walk_ok tidy \<lparr>bwService = fresh_service (app_withDefaults (ncApp c)) (ncDB c), bwEntries = es, bwCustomSet = cs\<rparr>"
    using base_list_ok [of c] assms(2) by (intro fresh_walk) (auto simp: guess_ticker)
  then have "walk_ok tidy w1" using w1 restore_ok by (auto split: if_splits)
  then have "seeded tidy (bwEntries w1) [] (bwService w1)" by (simp add: walk_ok_def seeded_def idle_def)
  from seed_all_ok [OF s1 this] have "service_inv tidy s1" using seeded_inv by simp
  moreover have "harmless s1 (s1\<lparr>apActive := hd (apOrder s1)\<rparr>)" by (simp add: harmless_frame)
  then have "harmless s1 s"
    unfolding s2(2) using harmless_boot_hedge [OF s2(1)] harmless_seed_pair by (blast intro: harmless_trans)
  ultimately show ?thesis using harmless_inv by blast
qed

end
