(* ===== verification/Service_Run.thy ===== *)
theory Service_Run
  imports Service_Props
begin

text \<open>
  The service as a state machine: construction, the engine goroutines, the publisher, the
  operator's requests, the edge ingest, the simulator and shutdown interleave at the grain of
  the service lock. The properties of the application layer.
\<close>

section \<open>The remaining operations keep the invariant\<close>

lemma harmless_refresh: "harmless s (refresh_session st now s)"
  by (simp add: refresh_session_def loadHedgeStatsLocked_def Let_def harmless_frame harmless_refl split: option.split)

lemma harmless_deltas: "harmless s (refresh_deltas st now s)"
  by (simp add: refresh_deltas_def harmless_frame harmless_refl)

lemma finish_service: "finishHedgeLegsLocked st now inp s = Some (s', lvs) \<Longrightarrow> s' = refresh_deltas st now s"
  by (auto simp: finishHedgeLegsLocked_def Let_def)

lemma recompute_service:
  assumes "recomputeHedgeLocked st now s = Some (s', v)"
  shows "s' = refresh_session st now s \<or> s' = refresh_deltas st now (refresh_session st now s)"
  using assms finish_service unfolding recomputeHedgeLocked_def Let_def
  by (auto split: if_splits option.splits prod.splits)

lemma harmless_recompute: "recomputeHedgeLocked st now s = Some (s', v) \<Longrightarrow> harmless s s'"
  using recompute_service [of st now s s' v] harmless_refresh [of s st now]
    harmless_trans [OF harmless_refresh harmless_deltas, of s st now st now] by auto

lemma harmless_sim_bench: "harmless s (sim_bench now v d s)"
  by (simp add: sim_bench_def Let_def harmless_frame)

lemma harmless_sim_ticker: "harmless s (sim_ticker now tick v d t s)"
proof (cases "apHandles s t")
  case (Some h)
  have "harmless s (put_book t b s)" if "snd (ApplyChainSnapshot (hdBook h) c) = Inr b" for b c
    using that book_wf_chain by (intro harmless_put_book) (auto simp: book_of_def Some)
  then show ?thesis by (auto simp: sim_ticker_def Some harmless_refl split: option.split sum.split)
qed (simp add: sim_ticker_def harmless_refl)

lemma harmless_add: "add_leg st now l s = Inr s' \<Longrightarrow> harmless s s'"
  by (auto simp: add_leg_def Let_def harmless_frame split: if_splits option.splits)

lemma harmless_remove: "remove_leg st i s = Inr s' \<Longrightarrow> harmless s s'"
  by (auto simp: remove_leg_def harmless_frame split: if_splits option.splits)

lemma harmless_then_publish: "then_publish st now s = Some (s', v) \<Longrightarrow> harmless s s'"
  using harmless_trans [OF harmless_recompute harmless_broadcast] by (auto simp: then_publish_def)

definition rehedge :: "hedge_store \<Rightarrow> instant \<Rightarrow> service \<Rightarrow> service" where
  "rehedge st now s = (case recomputeHedgeLocked st now s of None \<Rightarrow> s | Some (s', _) \<Rightarrow> s')"

lemma harmless_rehedge: "harmless s (rehedge st now s)"
  by (auto simp: rehedge_def harmless_refl intro: harmless_recompute split: option.split)

section \<open>The state machine\<close>

text \<open>
  The moves are those of the code, at the grain of its lock. The flag \<open>tidy\<close> restricts nothing
  when it is false, which is the code. When it is true, it keeps the runs in which the free slot
  is never pointed at a ticker that has a handle already, and in which the configured custom
  ticker is not on the list; the code looks at neither, and \<open>custom_clash\<close> shows what it does.
  \<^verbatim>\<open>Run\<close> sets its two fields in one critical section and starts each engine in another.
\<close>

inductive service_step :: "fits \<Rightarrow> seeds \<Rightarrow> hedge_store \<Rightarrow> bool \<Rightarrow> service \<Rightarrow> service \<Rightarrow> bool" for fit gen st tidy where
  run: "service_step fit gen st tidy s (s\<lparr>apRoot := True, apRunning := True\<rparr>)"
| start: "service_step fit gen st tidy s (startEngineLocked t s)"
| levels: "t \<in> set (apLoops s) \<Longrightarrow> service_step fit gen st tidy s (on_engine (\<lambda>b e. RecomputeLevels b now e) t s)"
| flip: "t \<in> set (apLoops s) \<Longrightarrow> service_step fit gen st tidy s (on_engine (\<lambda>b e. RecomputeFlip b now e) t s)"
| recompute_all: "service_step fit gen st tidy s (RecomputeAll now s)"
| publish: "service_step fit gen st tidy s (publish (rehedge st now) now s)"
| active: "SetActiveTicker t s = Inr s' \<Longrightarrow> service_step fit gen st tidy s s'"
| custom: "tidy \<longrightarrow> apHandles s (ToUpper t) = None \<and> apHandles s [] = None \<Longrightarrow>
    service_step fit gen st tidy s (snd (SetCustomTicker fit gen now t s))"
| stream: "SetStream now i on s = Inr s' \<Longrightarrow> service_step fit gen st tidy s s'"
| external: "service_step fit gen st tidy s (UseExternalFeed s)"
| chain: "service_step fit gen st tidy s (fst (ApplyChain fit now s snap))"
| spot: "service_step fit gen st tidy s (fst (Service_ApplySpot now s t p ms))"
| sim_turn: "service_step fit gen st tidy s (sim_ticker now tick v d t s)"
| sim_end: "service_step fit gen st tidy s (sim_bench now v wd s)"
| hedge: "Service_Hedge st now cache s = Some (s', v') \<Longrightarrow> service_step fit gen st tidy s s'"
| pair: "SetHedgePair st now a b s = Inr (Some (s', v')) \<Longrightarrow> service_step fit gen st tidy s s'"
| add: "AddPosition st now l s = Inr (Some (s', v')) \<Longrightarrow> service_step fit gen st tidy s s'"
| delete: "DeletePosition st now j s = Inr (Some (s', v')) \<Longrightarrow> service_step fit gen st tidy s s'"
| close: "service_step fit gen st tidy s (Service_Close now s)"

inductive_cases service_stepE: "service_step fit gen st tidy s s'"

definition service_start :: "fits \<Rightarrow> seeds \<Rightarrow> hedge_store \<Rightarrow> bool \<Rightarrow> service \<Rightarrow> bool" where
  "service_start fit gen st tidy s \<longleftrightarrow> (\<exists>now d c. New fit gen st now d c = Inr s \<and>
     (tidy \<longrightarrow> ToUpper (ncCustom c) \<notin> tcTicker ` set (base_list c)))"

interpretation svc: transition_system "service_start fit gen st tidy" "service_step fit gen st tidy" for fit gen st tidy .

text \<open>All engines of \<^verbatim>\<open>Run\<close> started at once is a run of the system.\<close>

lemma reachable_start_all: "svc.reachable fit gen st tidy s \<Longrightarrow> svc.reachable fit gen st tidy (fold startEngineLocked ts s)"
  by (induction ts arbitrary: s) (auto intro: svc.reachable.move [OF _ service_step.start])

lemma reachable_Run: "svc.reachable fit gen st tidy s \<Longrightarrow> svc.reachable fit gen st tidy (Run_start s)"
  unfolding Run_start_def by (intro reachable_start_all svc.reachable.move [OF _ service_step.run])

lemma service_step_inv:
  assumes "service_step fit gen st tidy s s'" "service_inv tidy s" shows "service_inv tidy s'"
  using assms
proof (cases rule: service_step.cases)
  case (levels t now)
  have "harmless s s'" unfolding levels by (rule harmless_engine) (rule handle_wf_levels)
  then show ?thesis using assms(2) by (rule harmless_inv)
next
  case (flip t now)
  have "harmless s s'" unfolding flip by (rule harmless_engine) (rule handle_wf_flip)
  then show ?thesis using assms(2) by (rule harmless_inv)
next
  case (recompute_all now)
  have "harmless s s'" unfolding recompute_all RecomputeAll_def
    by (rule harmless_fold) (rule harmless_engine, rule handle_wf_flip)
  then show ?thesis using assms(2) by (rule harmless_inv)
next
  case (publish now)
  have "harmless s s'" unfolding publish by (rule harmless_publish) (rule harmless_rehedge)
  then show ?thesis using assms(2) by (rule harmless_inv)
next
  case (hedge now cache v')
  then have "harmless s s'" by (auto simp: Service_Hedge_def harmless_refl harmless_recompute split: if_splits)
  then show ?thesis using assms(2) by (rule harmless_inv)
next
  case (pair now a b v')
  then have "harmless s s'"
    by (auto simp: SetHedgePair_def bind_res_Inr_iff split: if_splits intro: harmless_trans [OF harmless_pair harmless_then_publish])
  then show ?thesis using assms(2) by (rule harmless_inv)
next
  case (add now l v')
  then have "harmless s s'"
    by (auto simp: AddPosition_def bind_res_Inr_iff intro: harmless_trans [OF harmless_add harmless_then_publish])
  then show ?thesis using assms(2) by (rule harmless_inv)
next
  case (delete now j v')
  then have "harmless s s'"
    by (auto simp: DeletePosition_def bind_res_Inr_iff intro: harmless_trans [OF harmless_remove harmless_then_publish])
  then show ?thesis using assms(2) by (rule harmless_inv)
next
  case run
  have "harmless s s'" unfolding run by (simp add: harmless_frame)
  then show ?thesis using assms(2) by (rule harmless_inv)
next
  case external
  have "harmless s s'" unfolding external by (simp add: UseExternalFeed_def harmless_frame)
  then show ?thesis using assms(2) by (rule harmless_inv)
qed (auto intro: start_inv SetCustomTicker_inv ApplyChain_inv Service_Close_inv
    harmless_inv [OF harmless_SetActive] harmless_inv [OF harmless_SetStream] harmless_inv [OF harmless_ApplySpot]
    harmless_inv [OF harmless_sim_ticker] harmless_inv [OF harmless_sim_bench])

lemma service_reachable_inv: "svc.reachable fit gen st tidy s \<Longrightarrow> service_inv tidy s"
proof (erule svc.invariant)
  show "service_inv tidy s" if "service_start fit gen st tidy s" for s using that New_inv by (auto simp: service_start_def)
qed (rule service_step_inv)

section \<open>A demonstration\<close>

text \<open>
  One watched ticker, restored from a database whose only contract expires today (so with an
  empty book), a stored hedge pair and one share leg; then a chain arrives and the loops start.
\<close>

definition no_fit :: fits where "no_fit = (\<lambda>_. None)"

definition seed_demo_contract :: contract where
  "seed_demo_contract = book_demo_contract\<lparr>cExpiryDate := ''19710101'', cMultiplier := Fin 100\<rparr>"

definition seed_demo_chain :: chain_snapshot where
  "seed_demo_chain = book_demo_chain\<lparr>chContracts := [seed_demo_contract]\<rparr>"

definition seed_demo :: seeds where "seed_demo = (\<lambda>_ _. Inr seed_demo_chain)"

definition store_demo :: hedge_store where
  "store_demo = \<lparr>hoSaveHedgePair = (\<lambda>_ _. True), hoAddPosition = Some, hoDeletePosition = (\<lambda>_. True),
     hoDailyCloses = (\<lambda>_. Some None), hoLatestIBKRDeltas = (\<lambda>_. Map.empty)\<rparr>"

definition share_leg :: leg where
  "share_leg = \<lparr>lgId = 1, lgKind = LegShare, lgShares = Fin 100, lgLegConId = 0, lgTradingClass = [], lgExpiry = [],
     lgRight = [], lgStrike = Fin 0, lgContracts = Fin 0, lgNote = [], lgUpdatedAtMs = 0\<rparr>"

definition boot_demo :: boot_state where
  "boot_demo = \<lparr>btUnderlyings = [''SPY'' \<mapsto> \<lparr>usSpot = Fin 100, usBaselineIV = Fin (1 / 4), usUpdatedMs = 5\<rparr>],
     btContracts = [book_demo_contract\<lparr>cExpiryDate := ''19700101''\<rparr>], btLastSnapshots = Map.empty\<rparr>"

definition disk_demo :: disk where
  "disk_demo = \<lparr>dkBoot = Some boot_demo, dkOrder = [''SPY''], dkPair = Some (Some (''SPY'', ''QQQ'')), dkLegs = Some [share_leg]\<rparr>"

definition app_demo :: app_config where
  "app_demo = \<lparr>acLevelsEvery = 1, acFlipEvery = 1, acTickEvery = 1, acHistCap = 10, acLiveBlend = False\<rparr>"

definition config_demo :: new_config where
  "config_demo = \<lparr>ncApp = app_demo, ncDB = True, ncWatchlist = Some [Bare ''spy''], ncCustom = [], ncHedgeAsset = [], ncHedgeBench = []\<rparr>"

definition spy_entry :: ticker_config where
  "spy_entry = (guessTicker ''SPY'')\<lparr>tcCustom := False\<rparr>"

definition spy_handle :: handle where
  "spy_handle =
      \<lparr>hdCfg = spy_entry\<lparr>tcVol := Fin (1 / 4)\<rparr>, hdVol = Fin (1 / 4), hdBook = NewInMemoryBook,
       hdEng = engineFor no_fit (fresh_service app_demo True) (spy_entry\<lparr>tcVol := Fin (1 / 4)\<rparr>) (Fin (1 / 4)),
       hdCancel = False, hdHist = [], hdSaved = 0\<rparr>"

definition booted :: service where
  "booted = (install ''SPY'' spy_handle (fresh_service app_demo True))
     \<lparr>apOrder := [''SPY''], apActive := ''SPY'', apHedgeAsset := ''SPY'', apHedgeBench := ''QQQ'', apHedgeLegs := [share_leg]\<rparr>"

lemma spy_config: "item_config (Bare ''spy'') = Some (guessTicker ''SPY'')" "ValidTicker ''SPY''"
proof -
  have t: "ToUpper (TrimSpace ''spy'') = ''SPY''" "ToUpper (TrimSpace ''SPY'') = ''SPY''" "ToUpper ''SPY'' = ''SPY''" by code_simp+
  have "seedTickers ''SPY'' = None" by (simp add: seedTickers_def seed_entry_def)
  then show "item_config (Bare ''spy'') = Some (guessTicker ''SPY'')"
    by (simp add: item_config_def seedFor_def t guessTicker_def Let_def)
  show "ValidTicker ''SPY''" by code_simp
qed

lemma demo_watchlist: "WatchlistFromFile [Bare ''spy''] = Some [spy_entry]"
proof -
  have "tcTicker (guessTicker ''SPY'') = ''SPY''" by (simp add: guess_ticker) code_simp
  then show ?thesis by (simp add: WatchlistFromFile_def spy_config spy_entry_def)
qed

lemma spy_entry_ticker: "tcTicker spy_entry = ''SPY''"
  by (simp add: spy_entry_def guess_ticker) code_simp

lemma demo_restore:
  "restoreBootState no_fit 0 (Some boot_demo) [''SPY'']
      \<lparr>bwService = fresh_service app_demo True, bwEntries = [spy_entry], bwCustomSet = False\<rparr> =
   Inr \<lparr>bwService = install ''SPY'' spy_handle (fresh_service app_demo True), bwEntries = [spy_entry], bwCustomSet = False\<rparr>"
proof -
  let ?c = "book_demo_contract\<lparr>cExpiryDate := ''19700101''\<rparr>"
  have "parse_ymd ''19700101'' = Some 0" "day_of 0 = 0" by code_simp+
  then have d: "DTE ?c 0 = Inr (Fin 0)" using DTE_days [of ?c 0 0] by simp
  have l: "live_row 0 ''SPY'' ?c" "\<not> beyond_today 0 ?c"
    unfolding live_row_def beyond_today_def d
    by (simp_all add: ConIdMatchesTicker_def book_demo_contract_def zero_f64_def one_f64_def)
  have r: "chain_row boot_demo ''SPY'' = Inr \<lparr>chTicker = ''SPY'', chSpot = Fin 100, chAsOfMs = 5, chContracts = [?c],
      chUnderlyingType = [], chExchange = []\<rparr>"
    by (simp add: chain_row_def boot_demo_def book_demo_contract_def)
  have m: "go_max (lit (5 / 100)) (Fin (1 / 4)) = Fin (1 / 4)"
  proof -
    obtain x where "lit (5 / 100) = Fin x" "x \<le> 1 / 4"
      using rnd_between [of 0 "1 / 4" "5 / 100"] rnd_quarter(2) by auto
    then show ?thesis by (auto simp: go_max_def)
  qed
  show ?thesis
    unfolding restoreBootState_def ChainSnapshots_def option.case
    by (simp add: r restore_one_def Let_def l entryForTicker_def spy_entry_ticker restoreTicker_def m)
      (simp add: boot_demo_def zero_f64_def m [simplified] spy_handle_def)
qed

lemma New_demo: "New no_fit seed_demo store_demo 0 disk_demo config_demo = Inr booted"
proof -
  have e: "boot_entries config_demo = Inr ([spy_entry], False)"
    by (simp add: boot_entries_def config_demo_def demo_watchlist)
  have c: "app_withDefaults (ncApp config_demo) = app_demo" "ncDB config_demo = True" "ncHedgeAsset config_demo = []"
    by (simp_all add: app_withDefaults_def config_demo_def app_demo_def)
  have d: "dkBoot disk_demo = Some boot_demo" "dkOrder disk_demo = [''SPY'']" by (simp_all add: disk_demo_def)
  show ?thesis
    unfolding New_def e bind_res.simps prod.case Let_def c if_True d demo_restore boot_walk.simps
    by (simp add: seed_one_def spy_entry_ticker install_def boot_hedge_def fresh_service_def disk_demo_def
        seed_pair_def c booted_def)
qed

lemma booted_reachable: "svc.reachable no_fit seed_demo store_demo tidy booted"
proof (rule svc.reachable.start, unfold service_start_def, intro exI conjI)
  show "New no_fit seed_demo store_demo 0 disk_demo config_demo = Inr booted" by (rule New_demo)
  show "tidy \<longrightarrow> ToUpper (ncCustom config_demo) \<notin> tcTicker ` set (base_list config_demo)"
    by (simp add: config_demo_def base_list_def demo_watchlist spy_entry_ticker ToUpper_def)
qed

definition demo_service :: service where
  "demo_service = Run_start (fst (ApplyChain no_fit 0 booted book_demo_chain))"

lemma spy_upper: "ToUpper (chTicker book_demo_chain) = ''SPY''" "chTicker book_demo_chain = ''SPY''"
  by (simp_all add: book_demo_chain_def) code_simp

definition spy_state :: book_state where
  "spy_state = \<lparr>bsChain = book_demo_chain\<lparr>chContracts := map (accepted_contract ''SMART'') (chContracts book_demo_chain)\<rparr>,
     bsSpot = Fin 100, bsSpotAsOfMs = 5\<rparr>"

definition spy_book :: book where
  "spy_book = Mapping.update ''SPY'' spy_state NewInMemoryBook"

lemma spy_book_latest: "Latest spy_book ''SPY'' = Some spy_state"
  by (simp add: spy_book_def Latest_def Mapping.lookup_update)

lemma spy_chain: "snd (ApplyChainSnapshot NewInMemoryBook book_demo_chain) = Inr spy_book"
proof -
  have "chExchange book_demo_chain = ''SMART''" "chSpot book_demo_chain = Fin 100" "chAsOfMs book_demo_chain = 5"
    by (simp_all add: book_demo_chain_def)
  then show ?thesis
    unfolding ApplyChainSnapshot_Inr by (simp add: book_demo_ok spy_book_def spy_state_def spy_upper)
qed

definition live_handle :: handle where
  "live_handle = spy_handle\<lparr>hdBook := spy_book, hdCancel := True\<rparr>"

lemma booted_fields:
  "apClosed booted = False" "apOrder booted = [''SPY'']" "apLoops booted = []" "apRoot booted = False"
  "apHandles booted = [''SPY'' \<mapsto> spy_handle]"
  by (simp_all add: booted_def install_def fresh_service_def)

lemma spy_handle_fields: "hdBook spy_handle = NewInMemoryBook" "hdCancel spy_handle = False" "tcCustom (hdCfg spy_handle) = False"
  "ecTicker (enCfg (hdEng spy_handle)) = ''SPY''" "enSnap (hdEng spy_handle) = None"
  by (simp_all add: spy_handle_def spy_entry_def engineFor_fresh guess_ticker) code_simp

lemma demo_applied:
  "ApplyChain no_fit 0 booted book_demo_chain = (touch 0 (booted\<lparr>apHandles := [''SPY'' \<mapsto> spy_handle\<lparr>hdBook := spy_book\<rparr>]\<rparr>), None)"
proof -
  have "book_of booted ''SPY'' = NewInMemoryBook" by (simp add: book_of_def booted_fields spy_handle_fields)
  then show ?thesis
    by (simp add: ApplyChain_def Let_def spy_upper(1) booted_fields Option.is_none_def put_book_def spy_chain)
qed

lemma demo_service_eq:
  "demo_service = (touch 0 (booted\<lparr>apHandles := [''SPY'' \<mapsto> live_handle]\<rparr>))\<lparr>apRoot := True, apRunning := True, apLoops := [''SPY'']\<rparr>"
  by (simp add: demo_service_def demo_applied Run_start_def startEngineLocked_def touch_def booted_fields spy_handle_fields
      live_handle_def)

lemma demo_fields:
  "apClosed demo_service = False" "apOrder demo_service = [''SPY'']" "apLoops demo_service = [''SPY'']" "apRoot demo_service"
  "apRunning demo_service" "apHandles demo_service = [''SPY'' \<mapsto> live_handle]" "apStore demo_service"
  by (simp_all add: demo_service_eq touch_def booted_fields) (simp_all add: booted_def install_def fresh_service_def)

lemma live_handle_fields: "hdBook live_handle = spy_book" "hdCancel live_handle" "tcCustom (hdCfg live_handle) = False"
  "ecTicker (enCfg (hdEng live_handle)) = ''SPY''" "enSnap (hdEng live_handle) = None"
  by (simp_all add: live_handle_def spy_handle_fields)

lemma demo_service_reachable: "svc.reachable no_fit seed_demo store_demo tidy demo_service"
  unfolding demo_service_def
  by (intro reachable_Run svc.reachable.move [OF booted_reachable service_step.chain])

section \<open>Properties\<close>

text \<open>
  Property C3. In every state the application can reach -- restored or freshly seeded, with
  engine loops, publisher, operator, ingest and simulator interleaved -- every ticker on the
  watchlist has a book and an engine, at most one name on it is the free slot, there is exactly
  one engine goroutine for each handle with a started engine, every book is well formed
  and serves its own ticker's engine, and every published snapshot is a sound one of that
  ticker. In the runs in which the free slot is never pointed at a ticker with a handle
  (and the configured one is not on the list) the watchlist has moreover no repetition, it
  is exactly the set of tickers with a handle, and no goroutine is left behind.
\<close>

theorem service_invariant:
  assumes "svc.reachable fit gen st tidy s"
  shows "set (apOrder s) \<subseteq> dom (apHandles s) \<and>
    (\<forall>t \<in> set (apOrder s). \<forall>u \<in> set (apOrder s). is_custom s t \<and> is_custom s u \<longrightarrow> t = u) \<and>
    (\<not> apClosed s \<longrightarrow> distinct (apLoops s) \<and> set (apLoops s) = {t. \<exists>h. apHandles s t = Some h \<and> hdCancel h}) \<and>
    (\<forall>t h. apHandles s t = Some h \<longrightarrow> ecTicker (enCfg (hdEng h)) = t \<and>
       (\<forall>u bs. Latest (hdBook h) u = Some bs \<longrightarrow> wf_state u bs) \<and>
       (\<forall>sn. Engine_Snapshot (hdEng h) = Some sn \<longrightarrow> published_ok t sn)) \<and>
    (tidy \<longrightarrow> distinct (apOrder s) \<and> set (apOrder s) = dom (apHandles s) \<and> apOrphans s = [])"
proof -
  have w: "watch_ok tidy s" "handles_wf s" using service_reachable_inv [OF assms] by (simp_all add: service_inv_def)
  note wd = watch_okD [OF w(1)]
  have "\<forall>t h. apHandles s t = Some h \<longrightarrow> ecTicker (enCfg (hdEng h)) = t \<and>
       (\<forall>u bs. Latest (hdBook h) u = Some bs \<longrightarrow> wf_state u bs) \<and>
       (\<forall>sn. Engine_Snapshot (hdEng h) = Some sn \<longrightarrow> published_ok t sn)"
    using w(2) by (simp add: handles_wf_def handle_wf_def book_wf_def Engine_Snapshot_def)
  moreover have "\<forall>t \<in> set (apOrder s). \<forall>u \<in> set (apOrder s). is_custom s t \<and> is_custom s u \<longrightarrow> t = u" using wd(2) by blast
  moreover have "set (apOrder s) = dom (apHandles s)" if tidy using wd(1) wd(6) [OF that] by blast
  ultimately show ?thesis using wd(1,3,4,5,7) by (simp add: running_loops_def)
qed

theorem service_invariant_witness:
  "distinct (apOrder demo_service) \<and> set (apLoops demo_service) = {''SPY''} \<and> wf_state ''SPY'' spy_state"
proof -
  note inv = service_invariant [OF demo_service_reachable [of True]]
  have h: "apHandles demo_service ''SPY'' = Some live_handle" by (simp add: demo_fields)
  have "wf_state ''SPY'' spy_state"
    using inv [THEN conjunct2, THEN conjunct2, THEN conjunct2, THEN conjunct1, rule_format, OF h] spy_book_latest
    by (simp add: live_handle_fields)
  with inv show ?thesis by (simp add: demo_fields)
qed

text \<open>Shutting down.\<close>

lemma close_one_fields:
  "apOrder (close_one now t s) = apOrder s" "running_loops (close_one now t s) = running_loops s"
  "apSim (close_one now t s) = apSim s" "apClosed (close_one now t s) = apClosed s" "apStore (close_one now t s) = apStore s"
  "apLoops (close_one now t s) = (if t \<in> running_loops s then remove1 t (apLoops s) else apLoops s)"
  "apOrphans (close_one now t s) = apOrphans s"
proof -
  show "running_loops (close_one now t s) = running_loops s"
    by (auto simp: close_one_def on_engine_def running_loops_def split: option.split)
qed (auto simp: close_one_def on_engine_def running_loops_def split: option.split)

lemma fold_close_loops:
  "distinct (apLoops s) \<Longrightarrow> set (apLoops s) \<subseteq> running_loops s \<Longrightarrow>
   apLoops (fold (close_one now) ts s) = filter (\<lambda>t. t \<notin> set ts) (apLoops s)"
proof (induction ts arbitrary: s)
  case (Cons t ts)
  have l: "apLoops (close_one now t s) = filter (\<lambda>u. u \<noteq> t) (apLoops s)"
    using Cons.prems by (auto simp: close_one_fields distinct_remove1_removeAll removeAll_filter_not_eq intro: filter_cong filter_True [symmetric])
  then have "apLoops (fold (close_one now) ts (close_one now t s)) = filter (\<lambda>u. u \<notin> set ts) (filter (\<lambda>u. u \<noteq> t) (apLoops s))"
    using Cons.IH [of "close_one now t s"] Cons.prems by (auto simp: close_one_fields)
  then show ?case by (auto intro: filter_cong)
qed simp

lemma fold_close_fields:
  "apOrder (fold (close_one now) ts s) = apOrder s" "apSim (fold (close_one now) ts s) = apSim s"
  "apClosed (fold (close_one now) ts s) = apClosed s" "apStore (fold (close_one now) ts s) = apStore s"
  "apOrphans (fold (close_one now) ts s) = apOrphans s"
  by (induction ts arbitrary: s) (simp_all add: close_one_fields)

lemma save_one_frame:
  "apLoops (save_one t s) = apLoops s" "apOrphans (save_one t s) = apOrphans s" "apSim (save_one t s) = apSim s" "apClosed (save_one t s) = apClosed s"
  "set (apWrites s) \<subseteq> set (apWrites (save_one t s))"
  "map_option (\<lambda>h. (hdEng h, hdBook h)) (apHandles (save_one t s) u) = map_option (\<lambda>h. (hdEng h, hdBook h)) (apHandles s u)"
  by (auto simp: save_one_def split: option.split prod.split)

lemma fold_save_frame:
  "apLoops (fold save_one ts s) = apLoops s" "apOrphans (fold save_one ts s) = apOrphans s" "apSim (fold save_one ts s) = apSim s" "apClosed (fold save_one ts s) = apClosed s"
  "set (apWrites s) \<subseteq> set (apWrites (fold save_one ts s))"
proof -
  show "set (apWrites s) \<subseteq> set (apWrites (fold save_one ts s))"
    by (induction ts arbitrary: s) (auto dest: subsetD [OF save_one_frame(5)] subsetD)
  show "apOrphans (fold save_one ts s) = apOrphans s" by (induction ts arbitrary: s) (simp_all add: save_one_frame)
  show "apLoops (fold save_one ts s) = apLoops s" by (induction ts arbitrary: s) (simp_all add: save_one_frame)
  show "apSim (fold save_one ts s) = apSim s" by (induction ts arbitrary: s) (simp_all add: save_one_frame)
  show "apClosed (fold save_one ts s) = apClosed s" by (induction ts arbitrary: s) (simp_all add: save_one_frame)
qed

lemma save_one_writes:
  "apHandles s t = Some h \<Longrightarrow> Engine_Snapshot (hdEng h) = Some sn \<Longrightarrow> Latest (hdBook h) t = Some bs \<Longrightarrow>
   WSnapshot sn \<in> set (apWrites (save_one t s)) \<and> WContracts (chContracts (bsChain bs)) \<in> set (apWrites (save_one t s))"
  by (simp add: save_one_def)

lemma fold_save_writes:
  assumes "t \<in> set ts" "apHandles s t = Some h" "Engine_Snapshot (hdEng h) = Some sn" "Latest (hdBook h) t = Some bs"
  shows "WSnapshot sn \<in> set (apWrites (fold save_one ts s)) \<and> WContracts (chContracts (bsChain bs)) \<in> set (apWrites (fold save_one ts s))"
  using assms
proof (induction ts arbitrary: s h)
  case (Cons u ts)
  show ?case
  proof (cases "t = u")
    case True
    then show ?thesis using save_one_writes [OF Cons.prems(2-4)] fold_save_frame(5) [of "save_one u s" ts] by auto
  next
    case False
    obtain h' where h': "apHandles (save_one u s) t = Some h'" "hdEng h' = hdEng h" "hdBook h' = hdBook h"
      using save_one_frame(6) [of u s t] Cons.prems(2) by auto
    then show ?thesis using Cons.IH [OF _ h'(1)] Cons.prems False by simp
  qed
qed simp

lemma save_final:
  assumes "t \<in> set (apOrder s)" "apHandles (saveStateLocked now s) t = Some h" "apStore s"
    "Engine_Snapshot (hdEng h) = Some sn" "Latest (hdBook h) t = Some bs"
  shows "WSnapshot sn \<in> set (apWrites (saveStateLocked now s)) \<and>
    WContracts (chContracts (bsChain bs)) \<in> set (apWrites (saveStateLocked now s))"
proof -
  have m: "map_option (\<lambda>h. (hdEng h, hdBook h)) (apHandles (fold save_one ts s) t) = map_option (\<lambda>h. (hdEng h, hdBook h)) (apHandles s t)" for ts
    by (induction ts arbitrary: s) (simp_all add: save_one_frame)
  obtain h' where "apHandles s t = Some h'" "hdEng h' = hdEng h" "hdBook h' = hdBook h"
    using assms(2,3) m [of "apOrder s"] by (cases "apHandles s t") (auto simp: saveStateLocked_def)
  then show ?thesis using fold_save_writes [OF assms(1)] assms(3-5) by (simp add: saveStateLocked_def)
qed

lemma Close_parts:
  fixes now :: instant and s :: service
  assumes "\<not> apClosed s"
  defines "mid \<equiv> fold (close_one now) (apOrder s) (stopSimLocked (s\<lparr>apClosed := True\<rparr>))"
  shows "Service_Close now s = (saveStateLocked now mid)\<lparr>apStore := False\<rparr>" "apOrder mid = apOrder s" "apStore mid = apStore s"
    "apSim mid = False" "apClosed mid" "apOrphans mid = apOrphans s"
  using assms(1) unfolding mid_def by (simp_all add: Service_Close_def fold_close_fields stopSimLocked_def)

lemma closed_refusals:
  assumes "apClosed c"
  shows "SetActiveTicker u c = Inl ErrClosed" "SetStream now' i on c = Inl ErrClosed"
    "SetCustomTicker fit gen now' u c = (Some (if ValidTicker (ToUpper u) then ErrClosed else EBadTicker (ToUpper u)), c)"
    "ApplyChain fit now' c snap = (c, Some ErrClosed)" "Service_ApplySpot now' c u p ms = (c, Some ErrClosed)"
    "SetHedgePair st now' a b c = Inl PClosed" "AddPosition st now' leg c = Inl QClosed" "DeletePosition st now' j c = Inl QClosed"
    "Service_Hedge st now' cache c = Some (c, cache)" "Service_Close now' c = c"
  using assms
  by (simp_all add: SetActiveTicker_def SetStream_def SetCustomTicker_def ApplyChain_def Service_ApplySpot_def Let_def SetHedgePair_def
      AddPosition_def add_leg_def DeletePosition_def remove_leg_def Service_Hedge_def Service_Close_def)

text \<open>
  Property C24. Closing the application: the engine goroutine of every ticker on the watchlist is
  stopped and the simulator is off; what can remain are goroutines the watchlist no longer
  names, and none when the free slot was never pointed at a ticker with a handle. The
  final snapshot and chain of every ticker on the list that has them are among the rows
  written to the store. Afterwards every request is refused and changes nothing: switching
  tickers, the free slot, the streams, chains and spots, the hedge pair, adding and deleting
  positions; the hedge view is the last one, and a second close does nothing.
\<close>

theorem close_stops_and_saves:
  assumes "svc.reachable fit gen st tidy s" "\<not> apClosed s"
  shows "apLoops (Service_Close now s) = filter (\<lambda>t. t \<notin> set (apOrder s)) (apLoops s) \<and>
    (tidy \<longrightarrow> apLoops (Service_Close now s) = [] \<and> apOrphans (Service_Close now s) = []) \<and>
    \<not> apSim (Service_Close now s) \<and>
    (\<forall>t h sn bs. apStore s \<and> t \<in> set (apOrder s) \<and> apHandles (Service_Close now s) t = Some h \<and>
       Engine_Snapshot (hdEng h) = Some sn \<and> Latest (hdBook h) t = Some bs \<longrightarrow>
       WSnapshot sn \<in> set (apWrites (Service_Close now s)) \<and> WContracts (chContracts (bsChain bs)) \<in> set (apWrites (Service_Close now s))) \<and>
    SetActiveTicker u (Service_Close now s) = Inl ErrClosed \<and>
    SetCustomTicker fit gen now' u (Service_Close now s) =
      (Some (if ValidTicker (ToUpper u) then ErrClosed else EBadTicker (ToUpper u)), Service_Close now s) \<and>
    SetStream now' i on (Service_Close now s) = Inl ErrClosed \<and>
    ApplyChain fit now' (Service_Close now s) snap = (Service_Close now s, Some ErrClosed) \<and>
    Service_ApplySpot now' (Service_Close now s) u p ms = (Service_Close now s, Some ErrClosed) \<and>
    SetHedgePair st now' a b (Service_Close now s) = Inl PClosed \<and>
    AddPosition st now' leg (Service_Close now s) = Inl QClosed \<and>
    DeletePosition st now' j (Service_Close now s) = Inl QClosed \<and>
    Service_Hedge st now' cache (Service_Close now s) = Some (Service_Close now s, cache) \<and>
    Service_Close now' (Service_Close now s) = Service_Close now s"
proof -
  define base where "base = stopSimLocked (s\<lparr>apClosed := True\<rparr>)"
  define mid where "mid = fold (close_one now) (apOrder s) base"
  note parts = Close_parts [OF assms(2), of now, folded base_def, folded mid_def]
  have w: "watch_ok tidy s" using service_reachable_inv [OF assms(1)] by (simp add: service_inv_def)
  note wd = watch_okD [OF w]
  have r: "running_loops base = running_loops s" "apLoops base = apLoops s" by (simp_all add: base_def running_loops_def stopSimLocked_def)
  have m: "apLoops mid = filter (\<lambda>t. t \<notin> set (apOrder s)) (apLoops s)"
    unfolding mid_def using fold_close_loops [of base now "apOrder s"] wd(3,4) assms(2) r by simp
  then have l: "apLoops (Service_Close now s) = filter (\<lambda>t. t \<notin> set (apOrder s)) (apLoops s)"
    "apOrphans (Service_Close now s) = apOrphans s" "\<not> apSim (Service_Close now s)" "apClosed (Service_Close now s)"
    using parts(4-6) unfolding parts(1) by (simp_all add: saveStateLocked_def fold_save_frame)
  have tidied: "apLoops (Service_Close now s) = [] \<and> apOrphans (Service_Close now s) = []" if tidy
  proof -
    have "set (apLoops s) \<subseteq> set (apOrder s)" using wd(4) wd(6) [OF that] assms(2) by (auto simp: running_loops_def)
    then show ?thesis using wd(7) [OF that] by (auto simp: l filter_empty_conv)
  qed
  have "WSnapshot sn \<in> set (apWrites (Service_Close now s)) \<and> WContracts (chContracts (bsChain bs)) \<in> set (apWrites (Service_Close now s))"
    if "apStore s" "t \<in> set (apOrder s)" "apHandles (Service_Close now s) t = Some h" "Engine_Snapshot (hdEng h) = Some sn"
      "Latest (hdBook h) t = Some bs" for t h sn bs
    using save_final [of t mid now h sn bs] that parts(2,3) unfolding parts(1) by simp
  then have "\<forall>t h sn bs. apStore s \<and> t \<in> set (apOrder s) \<and> apHandles (Service_Close now s) t = Some h \<and>
       Engine_Snapshot (hdEng h) = Some sn \<and> Latest (hdBook h) t = Some bs \<longrightarrow>
       WSnapshot sn \<in> set (apWrites (Service_Close now s)) \<and> WContracts (chContracts (bsChain bs)) \<in> set (apWrites (Service_Close now s))"
    by blast
  with l(1,3) tidied show ?thesis
    by (simp add: closed_refusals [OF l(4)])
qed

lemma live_recomputed: "\<exists>sn. enSnap (RecomputeLevels spy_book 0 (hdEng live_handle)) = Some sn"
proof -
  let ?e = "hdEng live_handle" and ?inp = "engine_inputs (hdEng live_handle) spy_state 0 True"
  have e: "enSigma ?e = (\<lambda>_. Fin (1 / 4))" "ecBlendIVs (enCfg ?e) = False"
    by (simp_all add: live_handle_def spy_handle_def engineFor_def Let_def NewEngine_def Engine.withDefaults_def no_fit_def
        FlatVol_SigmaBar_def fun_eq_iff fresh_service_def app_demo_def)
  have c: "chContracts (bsChain spy_state) = [book_demo_contract\<lparr>cMultiplier := Fin 100, cExchange := ''SMART''\<rparr>]"
    by (simp add: spy_state_def accepted_contract_def book_demo_valid fill_exchange_def book_demo_chain_def) (simp add: book_demo_contract_def)
  have d: "DTE (book_demo_contract\<lparr>cMultiplier := Fin 100, cExchange := ''SMART''\<rparr>) 0 = Inr (Fin 20742)"
  proof -
    have "parse_ymd ''20261016'' = Some 20742" "day_of 0 = 0" by code_simp+
    then show ?thesis using DTE_days [of "book_demo_contract\<lparr>cMultiplier := Fin 100, cExchange := ''SMART''\<rparr>" 20742 0]
      by (simp add: book_demo_contract_def)
  qed
  have "\<exists>sn. ComputeSnapshot ?inp = Inr sn"
  proof (rule snapshot_succeeds)
    show "sane_inputs ?inp" by (simp add: sane_inputs_def engine_inputs_def e spy_state_def)
    show "usable_anchor (biSigma ?inp)" using small_HVolStep by (simp add: usable_anchor_def engine_inputs_def e)
    show "\<forall>c \<in> set (chContracts (biChain ?inp)). sane_contract (biAsOf ?inp) c"
      by (simp add: engine_inputs_def c sane_contract_def d) (simp add: book_demo_contract_def RightCall_def zero_f64_def)
    show "\<exists>c \<in> set (chContracts (biChain ?inp)). is_live (biAsOf ?inp) c"
      by (simp add: engine_inputs_def c is_live_def d one_f64_def)
  qed
  then show ?thesis by (auto simp: RecomputeLevels_def live_handle_fields spy_book_latest)
qed

theorem close_stops_and_saves_witness:
  "apLoops demo_service = [''SPY''] \<and> apLoops (Service_Close 0 demo_service) = [] \<and>
   (\<exists>sn. WSnapshot sn \<in> set (apWrites (Service_Close 0 demo_service))) \<and>
   AddPosition store_demo 0 share_leg (Service_Close 0 demo_service) = Inl QClosed"
proof -
  obtain sn where sn: "enSnap (RecomputeLevels spy_book 0 (hdEng live_handle)) = Some sn" using live_recomputed by blast
  have "\<exists>h. apHandles (Service_Close 0 demo_service) ''SPY'' = Some h \<and> Engine_Snapshot (hdEng h) = Some sn \<and>
      Latest (hdBook h) ''SPY'' = Some spy_state"
    by (simp add: Service_Close_def demo_fields stopSimLocked_def close_one_def on_engine_def live_handle_fields saveStateLocked_def
        save_one_def Engine_Snapshot_def sn spy_book_latest)
  moreover note all = close_stops_and_saves [OF demo_service_reachable [of True], of 0]
  moreover have "apStore demo_service" "''SPY'' \<in> set (apOrder demo_service)" by (simp_all add: demo_fields)
  ultimately have "WSnapshot sn \<in> set (apWrites (Service_Close 0 demo_service))" by (simp add: demo_fields) blast
  with all show ?thesis by (auto simp: demo_fields)
qed

text \<open>
  Property C25. A chain whose ticker is not upper case is acknowledged as applied but goes into
  the book under the name as received, while the engine reads the upper-case one: what the
  engine sees is unchanged.
\<close>

theorem mixed_case_chain_unseen:
  assumes "apHandles s (ToUpper (chTicker snap)) = Some h" "chTicker snap \<noteq> ToUpper (chTicker snap)"
    "ApplyChain fit now s snap = (s', None)"
  shows "\<exists>h'. apHandles s' (ToUpper (chTicker snap)) = Some h' \<and>
    Latest (hdBook h') (ToUpper (chTicker snap)) = Latest (hdBook h) (ToUpper (chTicker snap)) \<and>
    Latest (hdBook h') (chTicker snap) \<noteq> None \<and> apUpdates s' = apUpdates s + 1"
proof -
  obtain b where b: "snd (ApplyChainSnapshot (hdBook h) snap) = Inr b" "s' = touch now (put_book (ToUpper (chTicker snap)) b s)"
    using assms(1,3) by (auto simp: ApplyChain_def Let_def book_of_def split: if_splits sum.splits)
  from b(1) obtain bs where "b = Mapping.update (chTicker snap) bs (hdBook h)" unfolding ApplyChainSnapshot_Inr by blast
  then show ?thesis
    using assms(1,2) by (auto simp: b(2) touch_def put_book_def Latest_def Mapping.lookup_update Mapping.lookup_update_neq)
qed

definition spy_lower :: chain_snapshot where
  "spy_lower = book_demo_chain\<lparr>chTicker := ''spy'', chSpot := Fin 101\<rparr>"

lemma spy_lower_upper: "ToUpper (chTicker spy_lower) = ''SPY''" "chTicker spy_lower = ''spy''" "ToUpper ''spy'' = ''SPY''"
proof -
  show t: "chTicker spy_lower = ''spy''" by (simp add: spy_lower_def)
  show "ToUpper (chTicker spy_lower) = ''SPY''" unfolding t by code_simp
  show "ToUpper ''spy'' = ''SPY''" by code_simp
qed

lemma spy_lower_applies: "\<exists>b. snd (ApplyChainSnapshot spy_book spy_lower) = Inr b"
  unfolding ApplyChainSnapshot_Inr
  by (simp add: chain_ok_def contract_ok_def book_demo_sane book_demo_valid spy_lower_def book_demo_chain_def)

theorem mixed_case_chain_unseen_witness:
  "\<exists>s' h'. ApplyChain no_fit 0 demo_service spy_lower = (s', None) \<and> apHandles s' ''SPY'' = Some h' \<and>
     Latest (hdBook h') ''SPY'' = Some spy_state"
proof -
  have h: "apHandles demo_service (ToUpper (chTicker spy_lower)) = Some live_handle" by (simp add: demo_fields spy_lower_upper)
  obtain b where "snd (ApplyChainSnapshot spy_book spy_lower) = Inr b" using spy_lower_applies by blast
  then obtain s' where s': "ApplyChain no_fit 0 demo_service spy_lower = (s', None)"
    by (simp add: ApplyChain_def Let_def spy_lower_upper demo_fields Option.is_none_def book_of_def live_handle_fields)
  have "chTicker spy_lower \<noteq> ToUpper (chTicker spy_lower)" by (simp add: spy_lower_upper)
  from mixed_case_chain_unseen [OF h this s'] show ?thesis
    using s' by (auto simp: spy_lower_upper live_handle_fields spy_book_latest)
qed

text \<open>
  The free slot pointed at a ticker that is watched already.
\<close>

lemma guess_vol: "\<exists>v. tcVol (guessTicker t) = Fin v \<and> 1 / 8 \<le> v \<and> v \<le> 1"
proof -
  define k where "k = uint (drop_bit 9 (HashSeed (ToUpper t)) mod 3000)"
  have k: "0 \<le> k" "k < 3000"
    using word_mod_less_divisor [of 3000 "drop_bit 9 (HashSeed (ToUpper t))"]
    by (simp_all add: k_def word_less_def)
  have eighth: "rnd (1 / 8) = Fin (1 / 8)" using rnd_dyadic [of 1 3] by simp
  obtain a where a: "lit (20 / 100) = Fin a" "1 / 8 \<le> a" "a \<le> 1 / 4"
    using rnd_between [OF eighth rnd_quarter(2), of "20 / 100"] by auto
  have "rnd (of_int k) = Fin (of_int k)" "rnd 10000 = Fin 10000" using k rnd_of_int [of k] rnd_of_int [of 10000] by simp_all
  moreover have "0 \<le> of_int k / (10000 :: real)" "of_int k / (10000 :: real) \<le> 1 / 2" using k by simp_all
  then obtain b where b: "rnd (of_int k / 10000) = Fin b" "0 \<le> b" "b \<le> 1 / 2"
    using rnd_between [of 0 "1 / 2" "of_int k / 10000"] rnd_half(2) by auto
  moreover have "tcVol (guessTicker t) = lit (20 / 100) + f64_of_int k / lit 10000"
    unfolding guessTicker_def Let_def k_def by (simp only: ticker_config.simps)
  ultimately have "tcVol (guessTicker t) = rnd (a + b)" using a(1) by (simp add: f64_of_int_def)
  then show ?thesis using rnd_between [OF eighth rnd_1, of "a + b"] a b by auto
qed

lemma distinct_count_list: "distinct xs \<Longrightarrow> count_list xs x = (if x \<in> set xs then 1 else 0)"
  by (induction xs) auto

lemma seed_demo_DTE: "DTE seed_demo_contract 0 = Inr (Fin 365)"
  using DTE_days [of seed_demo_contract 365 0] demo_DTE by (simp add: seed_demo_contract_def)

lemma seed_demo_fields:
  "chContracts seed_demo_chain = [seed_demo_contract]" "chSpot seed_demo_chain = Fin 100" "chTicker seed_demo_chain = ''SPY''"
  "cStrike seed_demo_contract = Fin 100" "cExpiryDate seed_demo_contract = ''19710101''"
  by (simp_all add: seed_demo_chain_def seed_demo_contract_def book_demo_chain_def book_demo_contract_def)

lemma seed_demo_selected: "SelectedExpiriesByClass seed_demo_chain 0 = Inr (seed_demo_chain, [''19710101''])"
proof -
  have "SelectExpiries [''19710101''] 0 = Inr [''19710101'']" by code_simp
  then show ?thesis
    by (simp add: SelectedExpiriesByClass_def SelectedExpiries_def Let_def seed_demo_fields)
qed

lemma seed_demo_filtered:
  assumes "1 / 8 \<le> v" "v \<le> 1"
  shows "\<exists>T. FilterChain seed_demo_chain (Fin v) 0 = Inr (seed_demo_chain\<lparr>chContracts := [seed_demo_contract\<lparr>cSDTier := T\<rparr>]\<rparr>)"
proof -
  obtain a where a: "rnd (100 * v) = Fin a" "0 \<le> a" "a \<le> 100"
    using rnd_between [of 0 100 "100 * v"] assms rnd_of_int [of 100] by auto
  then obtain b where b: "rnd a = Fin b" "0 \<le> b" "b \<le> 100"
    using rnd_between [of 0 100 a] rnd_of_int [of 100] by auto
  have sd: "filter_sd (Fin 100) (Fin v) (Fin 365) = Fin b"
    using a b by (simp add: filter_sd_def math_Max_def one_f64_def f64_simps)
  obtain d where d: "rnd (2 * b) = Fin d" "0 \<le> d" using rnd_between [of 0 200 "2 * b"] b rnd_of_int [of 200] by auto
  have "\<not> \<bar>Fin 100 - Fin 100\<bar> > lit 2 * Fin b" using d by (simp add: minus_f64_def f64_simps)
  then show ?thesis using assms
    by (simp add: FilterChain_def seed_demo_fields seed_demo_DTE sd Let_def zero_f64_def) (auto simp: seed_demo_chain_def)
qed

lemma seed_demo_handle: "\<exists>s'. addHandle no_fit seed_demo 0 (guessTicker t) s = Inr s'"
proof -
  obtain v where v: "tcVol (guessTicker t) = Fin v" "1 / 8 \<le> v" "v \<le> 1" using guess_vol by blast
  obtain T where f: "FilterChain seed_demo_chain (Fin v) 0 = Inr (seed_demo_chain\<lparr>chContracts := [seed_demo_contract\<lparr>cSDTier := T\<rparr>]\<rparr>)"
    using seed_demo_filtered [OF v(2,3)] by blast
  have "validateContract (seed_demo_contract\<lparr>cSDTier := T\<rparr>) = Inr (seed_demo_contract\<lparr>cSDTier := T\<rparr>)"
    by (simp add: validateContract_def seed_demo_contract_def book_demo_contract_def RightCall_def zero_f64_def f64_simps)
  then have "chain_ok (seed_demo_chain\<lparr>chContracts := [seed_demo_contract\<lparr>cSDTier := T\<rparr>]\<rparr>)"
    by (simp add: chain_ok_def contract_ok_def seed_demo_fields book_demo_sane)
  then obtain b where "snd (ApplyChainSnapshot NewInMemoryBook (seed_demo_chain\<lparr>chContracts := [seed_demo_contract\<lparr>cSDTier := T\<rparr>]\<rparr>)) = Inr b"
    using ApplyChainSnapshot_Inr by blast
  then show ?thesis by (simp add: addHandle_def seed_demo_def seed_demo_selected v(1) f)
qed

text \<open>
  Fact. Pointing the free slot at a ticker that is watched already: when the request
  succeeds on a running service, the ticker is on the watchlist twice and two engine goroutines
  run for it, one of them out of reach of the service, so that it outlives even its shutdown.
\<close>

theorem custom_clash:
  assumes "svc.reachable fit gen st True s" "apRunning s" "apRoot s" "apHandles s (ToUpper t) = Some h" "hdCancel h"
    "\<not> is_custom s (ToUpper t)" "SetCustomTicker fit gen now t s = (None, s')"
  shows "count_list (apOrder s') (ToUpper t) = 2 \<and> ToUpper t \<in> set (apLoops s') \<and> ToUpper t \<in> set (apOrphans s') \<and>
    ToUpper t \<in> set (apOrphans (Service_Close now' s'))"
proof -
  let ?t = "ToUpper t" and ?freed = "free_slot (ToUpper t) s"
  have ok: "ValidTicker ?t" "\<not> apClosed s" using assms(7) by (auto simp: SetCustomTicker_def Let_def split: if_splits)
  have w: "watch_ok True s" using service_reachable_inv [OF assms(1)] by (simp add: service_inv_def)
  note wd = watch_okD [OF w]
  obtain s3 where s3: "addHandle fit gen now (guessTicker t) ?freed = Inr s3"
    and s': "s' = broadcast ''watchlist'' (broadcast ''state''
      ((if apRunning s3 then startEngineLocked ?t (s3\<lparr>apOrder := apOrder s3 @ [?t]\<rparr>) else s3\<lparr>apOrder := apOrder s3 @ [?t]\<rparr>)\<lparr>apActive := ?t\<rparr>))"
    using assms(7) ok by (auto simp: SetCustomTicker_steps Let_def split: sum.splits)
  obtain k where k: "s3 = (disown ?t ?freed)\<lparr>apHandles := (apHandles ?freed)(?t \<mapsto> k)\<rparr>" "\<not> hdCancel k"
    using addHandle_ok [OF s3] by (auto simp: guess_ticker)
  have o': "apOrder ?freed = filter (\<lambda>u. \<not> is_custom s u) (apOrder s)" and h': "apHandles ?freed ?t = Some h"
    using assms(4,6) by (auto simp: free_slot_def Let_def drop_custom_def is_custom_def split: option.splits)
  have "apOrphans (disown ?t ?freed) = ?t # apOrphans ?freed" using h' assms(5) by (simp add: disown_def)
  then have s: "apLoops s' = ?t # apLoops (disown ?t ?freed)" "apOrder s' = apOrder ?freed @ [?t]" "apOrphans s' = ?t # apOrphans ?freed"
    "apClosed s' = apClosed s"
    using assms(2,3) k by (simp_all add: s' broadcast_def startEngineLocked_def free_slot_frame)
  have "count_list (apOrder ?freed) ?t = 1"
    using wd(5,6) assms(4,6) unfolding o' by (auto simp: distinct_count_list)
  moreover have "apOrphans (Service_Close now' s') = apOrphans s'"
    using Close_parts [of s' now'] ok(2) s(4) by (simp add: saveStateLocked_def fold_save_frame)
  ultimately show ?thesis by (simp add: s)
qed

theorem custom_clash_witness:
  "\<exists>s'. SetCustomTicker no_fit seed_demo 0 ''spy'' demo_service = (None, s') \<and> count_list (apOrder s') ''SPY'' = 2"
proof -
  obtain s3 where "addHandle no_fit seed_demo 0 (guessTicker ''spy'') (free_slot ''SPY'' demo_service) = Inr s3"
    using seed_demo_handle by blast
  then obtain s' where s': "SetCustomTicker no_fit seed_demo 0 ''spy'' demo_service = (None, s')"
    by (simp add: SetCustomTicker_steps spy_lower_upper spy_config demo_fields Let_def)
  have h: "apHandles demo_service (ToUpper ''spy'') = Some live_handle" "\<not> is_custom demo_service (ToUpper ''spy'')"
    by (simp_all add: spy_lower_upper demo_fields is_custom_def live_handle_fields)
  have "count_list (apOrder s') (ToUpper ''spy'') = 2"
    using custom_clash [OF demo_service_reachable demo_fields(5,4) h(1) live_handle_fields(2) h(2) s'] by simp
  with s' show ?thesis by (simp add: spy_lower_upper)
qed

end
