(* ===== verification/Service_Seed.thy ===== *)
theory Service_Seed
  imports Synthetic_Props Service_Run
begin

text \<open>
  The chain generators behind the service: a watchlist entry with nothing to restore is seeded
  with a generated chain, which goes through the selection, the filter and the book. On the
  fourth Friday of a month that pipeline refuses every anchor that is a strike of its ladder,
  so a fresh start of the program fails on that day.
\<close>

section \<open>The seed of an entry\<close>

definition generate :: "ticker_config \<Rightarrow> instant \<Rightarrow> (market_error + chain_snapshot) option" where
  "generate e now =
     (case LookupIndex (tcTicker e) of
        Some spec \<Rightarrow> GenerateIndexChain spec (tcSpot e) (tcVol e) now
      | None \<Rightarrow> GenerateChain (tcTicker e) (tcSpot e) (tcVol e) now)"

text \<open>The seeds argument of the service stands for this function wherever it returns.\<close>

definition generates :: "seeds \<Rightarrow> bool" where
  "generates gen \<longleftrightarrow> (\<forall>e now r. generate e now = Some r \<longrightarrow> gen e now = r)"

section \<open>An expiry of today goes through the selection and the filter\<close>

lemma SelectExpiries_today:
  assumes "\<forall>d \<in> set dates. parse_ymd d \<noteq> None" "d0 \<in> set dates" "parse_ymd d0 = Some (day_of now)"
  shows "\<exists>pick. SelectExpiries dates now = Inr pick \<and> d0 \<in> set pick"
proof -
  define V where "V = future_days dates (day_of now)"
  have fin: "finite V" by (rule finite_future_days [OF V_def])
  have t: "day_of now \<in> V" "\<And>t. t \<in> V \<Longrightarrow> day_of now \<le> t" using assms(2,3) by (auto simp: V_def future_days_def)
  then have m: "Min V = day_of now" using fin by (intro Min_eqI) auto
  have "finite (expiry_picks V)" using expiry_picks_subset [OF fin] t(1) fin finite_subset by blast
  moreover have "day_of now \<in> expiry_picks V" by (simp add: expiry_picks_def m)
  ultimately have "format_ymd (day_of now) \<in> set (map format_ymd (sorted_list_of_set (expiry_picks V)))" by simp
  then show ?thesis
    using t(1) by (auto simp: SelectExpiries_eq [OF assms(1)] V_def [symmetric] Let_def format_parse_ymd [OF assms(3)])
qed

lemma select_keeps_today:
  assumes "SelectedExpiriesByClass chain now = Inr (out, ds)" "c \<in> set (chContracts chain)"
    and "parse_ymd (cExpiryDate c) = Some (day_of now)" "\<forall>c' \<in> set (chContracts chain). parse_ymd (cExpiryDate c') \<noteq> None"
  shows "c \<in> set (chContracts out)"
proof (cases "length (firsts [] (map cTradingClass (chContracts chain))) \<le> 1")
  case True
  obtain pick where "SelectExpiries (firsts [] (map cExpiryDate (chContracts chain))) now = Inr pick" "cExpiryDate c \<in> set pick"
    using SelectExpiries_today [of "firsts [] (map cExpiryDate (chContracts chain))" "cExpiryDate c" now] assms(2-4)
    by (auto simp: set_firsts)
  then show ?thesis
    using assms(1,2) True by (auto simp: SelectedExpiriesByClass_def SelectedExpiries_def Let_def split: if_splits)
next
  case False
  let ?dates = "firsts [] (map cExpiryDate (filter (\<lambda>c'. cTradingClass c' = cTradingClass c) (chContracts chain)))"
  obtain pick where "SelectExpiries ?dates now = Inr pick" "cExpiryDate c \<in> set pick"
    using SelectExpiries_today [of ?dates "cExpiryDate c" now] assms(2-4) by (auto simp: set_firsts)
  then have "cExpiryDate c \<in> set (class_picks chain now (cTradingClass c))" by (simp add: class_picks_def)
  then have "\<exists>cls \<in> set (firsts [] (map cTradingClass (chContracts chain))).
      class_key (cTradingClass c) (cExpiryDate c) \<in> set (map (class_key cls) (class_picks chain now cls))"
    using assms(2) by (intro bexI [of _ "cTradingClass c"]) (simp_all add: set_firsts)
  then have k: "class_key (cTradingClass c) (cExpiryDate c) \<in> set (concat (map (\<lambda>(cls, ds). map (class_key cls) ds)
      (map (\<lambda>cls. (cls, class_picks chain now cls)) (firsts [] (map cTradingClass (chContracts chain))))))"
    by auto
  have "chContracts out = filter (\<lambda>c. class_key (cTradingClass c) (cExpiryDate c) \<in> set (concat (map (\<lambda>(cls, ds). map (class_key cls) ds)
      (map (\<lambda>cls. (cls, class_picks chain now cls)) (firsts [] (map cTradingClass (chContracts chain))))))) (chContracts chain)"
    using assms(1) False unfolding SelectedExpiriesByClass_def Let_def by (auto simp del: set_concat split: if_splits)
  then show ?thesis using k assms(2) by simp
qed

lemma DTE_today: "parse_ymd (cExpiryDate c) = Some (day_of now) \<Longrightarrow> DTE c now = Inr (Fin 0)"
  using DTE_days [of c "day_of now" now] by simp

lemma nonneg_times: "(0 :: f64) \<le> a \<or> a = NaN \<Longrightarrow> 0 \<le> b \<or> b = NaN \<Longrightarrow> 0 \<le> a * b \<or> a * b = NaN"
  using times_nonneg [of a b] by auto

lemma at_spot_in_window:
  assumes "DTE c now = Inr dte" "\<not> dte < 0" "cStrike c = Fin x" "0 \<le> x" "\<not> iv \<le> 0" "finite64 iv"
  shows "in_window (Fin x) iv now c"
proof -
  have s: "0 \<le> math_Sqrt a \<or> math_Sqrt a = NaN" for a by (cases a) (simp_all add: zero_f64_def rnd_nonneg)
  have "0 \<le> Fin x * iv \<or> Fin x * iv = NaN"
    using assms(4-6) by (intro nonneg_times) (auto simp: finite64_iff zero_f64_def)
  then have "0 \<le> filter_sd (Fin x) iv dte \<or> filter_sd (Fin x) iv dte = NaN" unfolding filter_sd_def by (rule nonneg_times [OF _ s])
  then have "0 \<le> lit 2 * filter_sd (Fin x) iv dte \<or> lit 2 * filter_sd (Fin x) iv dte = NaN"
    by (intro nonneg_times) (simp_all add: zero_f64_def f64_simps)
  then have "\<not> lit 2 * filter_sd (Fin x) iv dte < Fin 0"
    by (auto simp: zero_f64_def less_f64_def)
  moreover have "\<bar>Fin x - Fin x\<bar> = Fin 0" by (simp add: minus_f64_def)
  ultimately show ?thesis using assms(1-3) by (simp add: in_window_def)
qed

text \<open>A row of today at the spot whose open interest is not a number spoils the chain.\<close>

lemma seed_chain_refused:
  assumes "c \<in> set (chContracts raw)" "parse_ymd (cExpiryDate c) = Some (day_of now)" "cStrike c = chSpot raw"
    "chSpot raw = Fin x" "0 \<le> x" "cOpenInterest c = NaN" "\<forall>c' \<in> set (chContracts raw). parse_ymd (cExpiryDate c') \<noteq> None"
    and "SelectedExpiriesByClass raw now = Inr (sel, ds)" "FilterChain sel iv now = Inr out"
  shows "\<not> chain_ok out"
proof -
  have spot: "chSpot sel = Fin x"
    using assms(4,8) by (auto simp: SelectedExpiriesByClass_def SelectedExpiries_def bind_res_Inr_iff Let_def split: if_splits)
  have "c \<in> set (chContracts sel)" by (rule select_keeps_today [OF assms(8,1,2,7)])
  moreover have "in_window (chSpot sel) iv now c"
    unfolding spot using assms(3-5) FilterChain_Inr(3,4) [OF assms(9)]
    by (intro at_spot_in_window [OF DTE_today [OF assms(2)]]) (simp_all add: zero_f64_def)
  ultimately have "stamp_tier (chSpot sel) iv now c \<in> set (chContracts out)"
    using FilterChain_Inr(1) [OF assms(9)] by auto
  moreover have "\<not> contract_ok (stamp_tier (chSpot sel) iv now c)"
    using assms(6) by (auto simp: stamp_tier_def contract_ok_def validateContract_def DTE_today [OF assms(2)])
  ultimately show ?thesis by (auto simp: chain_ok_def list_all_iff)
qed

section \<open>A fresh start on the fourth Friday\<close>

lemma year_range: assumes "0 \<le> n" "n \<le> 2900120" shows "0 \<le> year_of_day n" "year_of_day n \<le> 9999"
proof -
  have "\<not> year_of_day n + 1 \<le> 0"
    using year_of_day_spec(2) [of n] days_before_year_mono [of "year_of_day n + 1" 0] assms(1) by (auto simp: days_before_year_def)
  then show "0 \<le> year_of_day n" by simp
  have "\<not> 10000 \<le> year_of_day n"
    using year_of_day_spec(1) [of n] days_before_year_mono [of 10000 "year_of_day n"] assms(2) by (auto simp: days_before_year_def)
  then show "year_of_day n \<le> 9999" by simp
qed

lemma generated_today:
  assumes "generate e now = Some (Inr raw)" "fourth_friday (day_of now)" "modest (tcSpot e) (tcVol e)" "on_ladder (tcSpot e)"
  shows "chSpot raw = tcSpot e" "\<exists>c \<in> set (chContracts raw). cExpiryDate c = format_ymd (day_of now) \<and>
    cStrike c = tcSpot e \<and> cOpenInterest c = NaN"
    and "\<forall>c \<in> set (chContracts raw). \<exists>e. cExpiryDate c = format_ymd e \<and> day_of now \<le> e \<and> e \<le> day_of now + 120"
proof -
  let ?b = "day_of now"
  note listed = fourth_friday_listed [OF assms(2)]
  obtain t ls st where t: "emit_all (tcSpot e) (tcVol e) ?b ls (gen_start t ?b) = Some st" "\<exists>g. (g, ?b) \<in> set ls"
    "set ls \<subseteq> own_listings t ?b" "chContracts raw = gsOut st" "chSpot raw = tcSpot e"
  proof (cases "LookupIndex (tcTicker e)")
    case None
    let ?g = "\<lparr>gcTicker = tcTicker e, gcClass = tcTicker e, gcSettlement = SettlementPM, gcExchange = []\<rparr>"
    obtain st where "emit_all (tcSpot e) (tcVol e) ?b (map (Pair ?g) (listingDates ?b)) (gen_start (tcTicker e) ?b) = Some st"
      "gen_finish (tcTicker e) (tcSpot e) now SecTypeSTK [] st = Inr raw"
      using assms(1) None by (auto simp: generate_def GenerateChain_def Let_def split: if_splits)
    then show ?thesis using that [of "map (Pair ?g) (listingDates ?b)" "tcTicker e" st] gen_finish_Inr listed
      by (fastforce simp: own_listings_def)
  next
    case (Some spec)
    obtain st where "emit_all (tcSpot e) (tcVol e) ?b (index_listings spec ?b) (gen_start (icTicker spec) ?b) = Some st"
      "gen_finish (icTicker spec) (tcSpot e) now SecTypeIND (icExchange spec) st = Inr raw"
      using assms(1) Some by (auto simp: generate_def GenerateIndexChain_def Let_def split: if_splits)
    moreover have "\<exists>g. (g, ?b) \<in> set (index_listings spec ?b)" using listed by (auto simp: index_listings_def Let_def)
    ultimately show ?thesis using that [of "index_listings spec ?b" "icTicker spec" st] gen_finish_Inr index_listings_own
      by fastforce
  qed
  show "chSpot raw = tcSpot e" by (rule t(5))
  obtain g where "(g, ?b) \<in> set ls" using t(2) by blast
  from same_day_rows [OF t(1) this assms(3,4)] show "\<exists>c \<in> set (chContracts raw). cExpiryDate c = format_ymd (day_of now) \<and>
    cStrike c = tcSpot e \<and> cOpenInterest c = NaN"
    unfolding t(4) by (auto simp: bad_row_def row_of_def)
  have "gen_ok t (own_listings t ?b) st" by (rule emit_all_ok [OF t(1) gen_start_ok t(3)])
  then have rows: "\<forall>c \<in> set (gsOut st). \<exists>(g, e) \<in> own_listings t ?b. row_of g e c" by (simp add: gen_ok_def)
  show "\<forall>c \<in> set (chContracts raw). \<exists>e. cExpiryDate c = format_ymd e \<and> day_of now \<le> e \<and> e \<le> day_of now + 120"
  proof
    fix c assume c: "c \<in> set (chContracts raw)"
    obtain g e where "(g, e) \<in> own_listings t ?b" "row_of g e c"
      using bspec [OF rows c [unfolded t(4)]] by (elim bexE) auto
    then show "\<exists>e. cExpiryDate c = format_ymd e \<and> ?b \<le> e \<and> e \<le> ?b + 120"
      using listing_range [of e ?b] by (intro exI [of _ e]) (simp add: own_listings_def row_of_def)
  qed
qed

lemma seed_refused:
  assumes "generates gen" "fourth_friday (day_of now)" "0 \<le> day_of now" "day_of now \<le> 2900000"
    "modest (tcSpot e) (tcVol e)" "on_ladder (tcSpot e)"
  shows "\<exists>err. addHandle fit gen now e s = Inl err"
proof (cases "\<exists>raw. gen e now = Inr raw")
  case False
  then obtain err where "gen e now = Inl err" by (cases "gen e now") auto
  then show ?thesis by (simp add: addHandle_def)
next
  case True
  then obtain raw where raw: "gen e now = Inr raw" by blast
  have "\<exists>r. generate e now = Some r"
    by (cases "LookupIndex (tcTicker e)") (simp_all add: generate_def chain_total [OF assms(5)] index_total [OF assms(5)])
  then have gen: "generate e now = Some (Inr raw)" using assms(1) raw by (auto simp: generates_def)
  note g = generated_today [OF gen assms(2,5,6)]
  have dates: "parse_ymd (format_ymd n) = Some n" if "day_of now \<le> n" "n \<le> day_of now + 120" for n
    using that assms(3,4) year_range [of n] by (intro parse_format_ymd) simp_all
  obtain c where c: "c \<in> set (chContracts raw)" "cExpiryDate c = format_ymd (day_of now)" "cStrike c = tcSpot e" "cOpenInterest c = NaN"
    using g(2) by blast
  have today: "parse_ymd (cExpiryDate c) = Some (day_of now)" using dates [of "day_of now"] c(2) by simp
  have all: "\<forall>c' \<in> set (chContracts raw). parse_ymd (cExpiryDate c') \<noteq> None" using g(3) dates by fastforce
  obtain x where x: "chSpot raw = Fin x" "0 \<le> x" using assms(5) g(1) by (auto simp: modest_def bounded_by_def)
  have bad: "\<not> chain_ok out" if "SelectedExpiriesByClass raw now = Inr (sel, ds)" "FilterChain sel (tcVol e) now = Inr out" for sel ds out
    by (rule seed_chain_refused [OF c(1) today _ x c(4) all that]) (simp add: c(3) g(1))
  show ?thesis
  proof (cases "SelectedExpiriesByClass raw now")
    case (Inl err)
    then show ?thesis by (simp add: addHandle_def raw)
  next
    case (Inr r)
    obtain sel ds where sel: "SelectedExpiriesByClass raw now = Inr (sel, ds)" using Inr by (cases r) simp
    show ?thesis
    proof (cases "FilterChain sel (tcVol e) now")
      case (Inl err)
      then show ?thesis by (simp add: addHandle_def raw sel)
    next
      case (Inr out)
      obtain err where "snd (ApplyChainSnapshot NewInMemoryBook out) = Inl err"
        using bad [OF sel Inr] ApplyChainSnapshot_Inr by (cases "snd (ApplyChainSnapshot NewInMemoryBook out)") blast+
      then show ?thesis by (simp add: addHandle_def raw sel Inr)
    qed
  qed
qed

text \<open>
  Property C29. Without a database the shipped watchlist does not start on the fourth Friday of a
  month: the generator lists an expiry of the day itself, one week after the third Friday, whose
  standard deviation is zero; the open interest of its row at the spot is not a number, and the
  book refuses the chain of the first entry.
\<close>

theorem fourth_friday_unbootable:
  assumes "generates gen" "fourth_friday (day_of now)" "0 \<le> day_of now" "day_of now \<le> 2900000"
    "\<not> ncDB c" "ncWatchlist c = None" "ncCustom c = []"
  shows "\<exists>err. New fit gen st now d c = Inl (BSeed ''SPX'' err)"
proof -
  obtain e es where es: "DefaultWatchlist = e # es" "tcTicker e = ''SPX''" "tcSpot e = lit 7600" "tcVol e = lit (15 / 100)"
    by (simp add: DefaultWatchlist_def seedTickers_def seed_entry_def List.map_filter_def)
  have spot: "tcSpot e = Fin 7600" by (simp add: es(3) f64_simps)
  have "\<exists>err. addHandle fit gen now e s = Inl err" for s
    by (rule seed_refused [OF assms(1-4)]) (simp_all only: spot es(4) anchor_modest(2) anchors_on_ladder(2))
  then obtain err where "addHandle fit gen now e (fresh_service (app_withDefaults (ncApp c)) (ncDB c)) = Inl err" by blast
  then show ?thesis
    using assms(5-7) by (auto simp: New_def boot_entries_def es(1,2) Let_def seed_one_def fresh_service_def)
qed

definition real_seeds :: seeds where
  "real_seeds e now = (case generate e now of Some r \<Rightarrow> r | None \<Rightarrow> Inl InvalidSnapshot)"

theorem fourth_friday_unbootable_witness:
  "\<exists>err. New no_fit real_seeds store_demo (20749 * day_ns) disk_demo
     (config_demo\<lparr>ncDB := False, ncWatchlist := None, ncCustom := []\<rparr>) = Inl (BSeed ''SPX'' err)"
proof (rule fourth_friday_unbootable)
  have d: "day_of (20749 * day_ns) = 20749" by (simp add: day_of_def day_ns_def)
  show "generates real_seeds" by (simp add: generates_def real_seeds_def)
  show "fourth_friday (day_of (20749 * day_ns))" by (simp add: d october_fourth_friday)
  show "0 \<le> day_of (20749 * day_ns)" "day_of (20749 * day_ns) \<le> 2900000" by (simp_all add: d)
qed simp_all

end
