(* ===== verification/Store_Queue.thy ===== *)
theory Store_Queue
  imports Prelude Systems
begin

text \<open>
  Package \<^verbatim>\<open>store\<close>, the single-writer queue (\<^verbatim>\<open>store.go\<close>): transactions wait in a bounded channel,
  the writer takes what is queued into one database transaction, and every task with a completion
  channel is told the outcome. What a transaction does to the database is an argument of the
  task, and so is whether the database begins and commits; the state of the database has any type.
  Checking \<^verbatim>\<open>closed\<close> and sending into the channel are two steps, as they are under no common lock, and
  so are taking a batch and finishing it. Log lines are not modelled.
\<close>

section \<open>Tasks and the store\<close>

definition defaultBatchRows :: nat where "defaultBatchRows = 10000"
definition queueDepth :: nat where "queueDepth = 4096"

text \<open>The index in an aborted batch is \<open>- 1\<close> when the failure is not one task's.\<close>

datatype write_error = WClosed | WFull | WTask string | WAborted int string | WDrained string

record 'db task =
  tkId :: nat
  tkFn :: "'db \<Rightarrow> string + 'db"
  tkDone :: bool

text \<open>The writer runs, drains the queue one last time after \<^verbatim>\<open>Close\<close>, or is gone.\<close>

datatype writer_state = Running | Draining | Exited

text \<open>
  \<open>stReplies\<close> holds what is in the completion channels, \<open>stReturned\<close> what \<^verbatim>\<open>enqueue\<close> returned;
  \<open>stPending\<close> are the calls between the check and the send, \<open>stFlight\<close> the batch being written.
  \<open>stCommitted\<close> records the committed tasks in order, for the specification.
\<close>

record 'db store =
  stDb :: 'db
  stClosed :: bool
  stOpen :: bool
  stWriter :: writer_state
  stTasks :: "'db task list"
  stPending :: "'db task list"
  stFlight :: "'db task list option"
  stReplies :: "nat \<rightharpoonup> write_error option"
  stReturned :: "nat \<rightharpoonup> write_error option"
  stFailed :: int
  stNext :: nat
  stCommitted :: "'db task list"

definition Store_Open :: "'db \<Rightarrow> 'db store" where
  "Store_Open db = \<lparr>stDb = db, stClosed = False, stOpen = True, stWriter = Running, stTasks = [], stPending = [], stFlight = None,
     stReplies = Map.empty, stReturned = Map.empty, stFailed = 0, stNext = 0, stCommitted = []\<rparr>"

section \<open>Completion\<close>

definition notify :: "'db task \<Rightarrow> write_error option \<Rightarrow> 'db store \<Rightarrow> 'db store" where
  "notify t e s = (if tkDone t \<and> stReplies s (tkId t) = None then s\<lparr>stReplies := (stReplies s)(tkId t \<mapsto> e)\<rparr> else s)"

fun notify_batch :: "int \<Rightarrow> int \<Rightarrow> string \<Rightarrow> 'db task list \<Rightarrow> 'db store \<Rightarrow> 'db store" where
  "notify_batch i failed err [] s = s"
| "notify_batch i failed err (t # ts) s =
     notify_batch (i + 1) failed err ts
       (notify t (Some (if i = failed then WTask err else WAborted failed err)) s)"

text \<open>
  A failed batch answers its tasks and then drains the queue in one step. A send that falls into the drain
  is, while the queue has room, as if it came just before it, when the drain receives it, or just after it, when not;
  that a send finds room in a full queue because the drain has begun is not modelled.
\<close>

definition completeBatch :: "'db task list \<Rightarrow> int \<Rightarrow> string option \<Rightarrow> 'db store \<Rightarrow> 'db store" where
  "completeBatch batch failed err s =
     (case err of
        None \<Rightarrow> fold (\<lambda>t. notify t None) batch s
      | Some e \<Rightarrow>
          let s1 = notify_batch 0 failed e batch (s\<lparr>stFailed := stFailed s + 1\<rparr>)
          in fold (\<lambda>t. notify t (Some (WDrained e))) (stTasks s1) (s1\<lparr>stTasks := []\<rparr>))"

section \<open>The writer\<close>

fun run_batch :: "nat \<Rightarrow> 'db task list \<Rightarrow> 'db \<Rightarrow> nat \<times> string + 'db" where
  "run_batch i [] db = Inr db"
| "run_batch i (t # ts) db = (case tkFn t db of Inl e \<Rightarrow> Inl (i, e) | Inr db' \<Rightarrow> run_batch (Suc i) ts db')"

datatype tx_fault = TxOK | TxBegin string | TxCommit string

definition take_batch :: "'db store \<Rightarrow> 'db store" where
  "take_batch s =
     (if stTasks s = [] then s
      else let n = min (length (stTasks s)) defaultBatchRows
           in s\<lparr>stFlight := Some (take n (stTasks s)), stTasks := drop n (stTasks s)\<rparr>)"

definition finish_batch :: "tx_fault \<Rightarrow> 'db store \<Rightarrow> 'db store" where
  "finish_batch fault s =
     (case stFlight s of
        None \<Rightarrow> s
      | Some batch \<Rightarrow>
          let s1 = s\<lparr>stFlight := None, stWriter := (if stWriter s = Draining then Exited else stWriter s)\<rparr>
          in (case fault of
                TxBegin e \<Rightarrow> completeBatch batch (- 1) (Some e) s1
              | _ \<Rightarrow> (case run_batch 0 batch (stDb s) of
                    Inl (i, e) \<Rightarrow> completeBatch batch (int i) (Some e) s1
                  | Inr db \<Rightarrow> (case fault of
                        TxCommit e \<Rightarrow> completeBatch batch (int (length batch) - 1) (Some e) s1
                      | _ \<Rightarrow> completeBatch batch (- 1) None
                               (s1\<lparr>stDb := db, stCommitted := stCommitted s @ batch\<rparr>)))))"

definition flush :: "tx_fault \<Rightarrow> 'db store \<Rightarrow> 'db store" where
  "flush fault s = finish_batch fault (take_batch s)"

section \<open>Callers\<close>

definition enqueue_check :: "('db \<Rightarrow> string + 'db) \<Rightarrow> bool \<Rightarrow> 'db store \<Rightarrow> 'db store" where
  "enqueue_check fn d s =
     (let t = \<lparr>tkId = stNext s, tkFn = fn, tkDone = d\<rparr>; s1 = s\<lparr>stNext := Suc (stNext s)\<rparr>
      in if stClosed s then s1\<lparr>stReturned := (stReturned s)(tkId t \<mapsto> Some WClosed)\<rparr>
         else s1\<lparr>stPending := stPending s @ [t]\<rparr>)"

definition enqueue_send :: "'db task \<Rightarrow> 'db store \<Rightarrow> 'db store" where
  "enqueue_send t s =
     (let s1 = s\<lparr>stPending := filter (\<lambda>u. tkId u \<noteq> tkId t) (stPending s)\<rparr>
      in if length (stTasks s) < queueDepth
         then s1\<lparr>stTasks := stTasks s @ [t], stReturned := (stReturned s)(tkId t \<mapsto> None)\<rparr>
         else s1\<lparr>stReturned := (stReturned s)(tkId t \<mapsto> Some WFull)\<rparr>)"

text \<open>
  One step of some goroutine. After \<^verbatim>\<open>Close\<close> the writer runs a last flush and exits, then the
  database handle is closed; on a closed handle no transaction succeeds. \<open>forced\<close> is the flush of a
  \<^verbatim>\<open>FlushAndWait\<close>, which any caller may run at any time; \<^verbatim>\<open>flushMu\<close> lets one batch at a time be in
  flight.
\<close>

inductive store_step :: "'db store \<Rightarrow> 'db store \<Rightarrow> bool" where
  check: "store_step s (enqueue_check fn d s)"
| send: "t \<in> set (stPending s) \<Longrightarrow> store_step s (enqueue_send t s)"
| tick: "stWriter s = Running \<Longrightarrow> stFlight s = None \<Longrightarrow> store_step s (take_batch s)"
| finish: "stOpen s \<or> fault \<noteq> TxOK \<Longrightarrow> store_step s (finish_batch fault s)"
| close: "store_step s (s\<lparr>stClosed := True\<rparr>)"
| stop: "stClosed s \<Longrightarrow> stWriter s = Running \<Longrightarrow> stFlight s = None \<Longrightarrow>
    store_step s ((take_batch s)\<lparr>stWriter := (if stTasks s = [] then Exited else Draining)\<rparr>)"
| shut: "stClosed s \<Longrightarrow> stWriter s = Exited \<Longrightarrow> store_step s (s\<lparr>stOpen := False\<rparr>)"

definition forced :: "'db store \<Rightarrow> 'db store \<Rightarrow> bool" where
  "forced s s' \<longleftrightarrow> stFlight s = None \<and> s' = take_batch s"

definition any_step :: "'db store \<Rightarrow> 'db store \<Rightarrow> bool" where
  "any_step s s' \<longleftrightarrow> store_step s s' \<or> forced s s'"

definition store_start :: "'db \<Rightarrow> 'db store \<Rightarrow> bool" where
  "store_start db s \<longleftrightarrow> s = Store_Open db"

interpretation sto: transition_system "store_start db" any_step for db .

section \<open>The accounts\<close>

text \<open>The tasks of a store that are not answered yet, and what every reachable store satisfies.\<close>

definition in_flight :: "'db store \<Rightarrow> 'db task list" where
  "in_flight s = (case stFlight s of None \<Rightarrow> [] | Some b \<Rightarrow> b)"

definition open_tasks :: "'db store \<Rightarrow> 'db task list" where
  "open_tasks s = stPending s @ in_flight s @ stTasks s"

definition committed_ids :: "'db store \<Rightarrow> nat set" where
  "committed_ids s = tkId ` set (stCommitted s)"

definition accounts :: "'db \<Rightarrow> 'db store \<Rightarrow> bool" where
  "accounts db0 s \<longleftrightarrow> distinct (map tkId (stCommitted s @ open_tasks s)) \<and>
     (\<forall>t \<in> set (stCommitted s @ open_tasks s). tkId t < stNext s) \<and>
     (\<forall>t \<in> set (open_tasks s). stReplies s (tkId t) = None) \<and>
     (\<forall>t \<in> set (stCommitted s). tkDone t \<longrightarrow> stReplies s (tkId t) = Some None) \<and>
     (\<forall>i e. stReplies s i = Some e \<longrightarrow> i < stNext s \<and> (e = None \<longleftrightarrow> i \<in> committed_ids s)) \<and>
     run_batch 0 (stCommitted s) db0 = Inr (stDb s) \<and> length (stTasks s) \<le> queueDepth"

lemma accountsD:
  assumes "accounts db0 s"
  shows "distinct (map tkId (stCommitted s @ open_tasks s))" "\<And>t. t \<in> set (stCommitted s) \<union> set (open_tasks s) \<Longrightarrow> tkId t < stNext s"
    "\<And>t. t \<in> set (open_tasks s) \<Longrightarrow> stReplies s (tkId t) = None"
    "\<And>t. t \<in> set (stCommitted s) \<Longrightarrow> tkDone t \<Longrightarrow> stReplies s (tkId t) = Some None"
    "\<And>i e. stReplies s i = Some e \<Longrightarrow> i < stNext s \<and> (e = None \<longleftrightarrow> i \<in> committed_ids s)"
    "run_batch 0 (stCommitted s) db0 = Inr (stDb s)" "length (stTasks s) \<le> queueDepth"
  using assms unfolding accounts_def by auto

text \<open>A step that only moves or drops open tasks keeps the accounts.\<close>

lemma accounts_moved:
  assumes "accounts db0 s" "stCommitted s' = stCommitted s" "stReplies s' = stReplies s" "stDb s' = stDb s" "stNext s' = stNext s"
    "set (open_tasks s') \<subseteq> set (open_tasks s)" "distinct (map tkId (open_tasks s'))" "length (stTasks s') \<le> queueDepth"
  shows "accounts db0 s'"
proof -
  note d = accountsD [OF assms(1)]
  have i: "tkId ` set (open_tasks s') \<subseteq> tkId ` set (open_tasks s)" using assms(6) by (rule image_mono)
  have "distinct (map tkId (stCommitted s' @ open_tasks s'))"
    using d(1) assms(2,7) i by auto
  then show ?thesis
    unfolding accounts_def using d(2-6) assms(2-6,8) by (auto simp: committed_ids_def)
qed

subsection \<open>Completion answers exactly the tasks it is given\<close>

definition reply_all :: "(nat \<Rightarrow> write_error option) \<Rightarrow> 'db task list \<Rightarrow> (nat \<rightharpoonup> write_error option) \<Rightarrow> nat \<rightharpoonup> write_error option" where
  "reply_all e ts m i = (if m i = None \<and> (\<exists>t \<in> set ts. tkDone t \<and> tkId t = i) then Some (e i) else m i)"

lemma fold_notify: "fold (\<lambda>t. notify t e) ts s = s\<lparr>stReplies := reply_all (\<lambda>_. e) ts (stReplies s)\<rparr>"
proof (induction ts arbitrary: s)
  case (Cons t ts)
  have "reply_all (\<lambda>_. e) ts (stReplies (notify t e s)) = reply_all (\<lambda>_. e) (t # ts) (stReplies s)"
    by (auto simp: fun_eq_iff reply_all_def notify_def)
  moreover have "(notify t e s)\<lparr>stReplies := m\<rparr> = s\<lparr>stReplies := m\<rparr>" for m by (simp add: notify_def)
  ultimately show ?case using Cons by simp
qed (simp add: reply_all_def [abs_def])

lemma notify_batch_replies:
  "\<exists>e. (\<forall>i. e i \<noteq> None) \<and> notify_batch k failed err ts s = s\<lparr>stReplies := reply_all e ts (stReplies s)\<rparr>"
proof (induction ts arbitrary: k s)
  case Nil
  show ?case by (intro exI [of _ "\<lambda>_. Some WFull"]) (simp add: reply_all_def [abs_def])
next
  case (Cons t ts)
  let ?r = "Some (if k = failed then WTask err else WAborted failed err)"
  obtain e where e: "\<forall>i. e i \<noteq> None" "notify_batch (k + 1) failed err ts (notify t ?r s) =
      (notify t ?r s)\<lparr>stReplies := reply_all e ts (stReplies (notify t ?r s))\<rparr>" using Cons by blast
  define e' where "e' i = (if i = tkId t \<and> tkDone t then ?r else e i)" for i
  have "reply_all e ts (stReplies (notify t ?r s)) = reply_all e' (t # ts) (stReplies s)"
    by (auto simp: fun_eq_iff reply_all_def notify_def e'_def)
  moreover have "(notify t ?r s)\<lparr>stReplies := m\<rparr> = s\<lparr>stReplies := m\<rparr>" for m by (simp add: notify_def)
  moreover have "\<forall>i. e' i \<noteq> None" using e(1) by (simp add: e'_def)
  ultimately show ?case using e(2) by (intro exI [of _ e']) (simp only: notify_batch.simps simp_thms not_False_eq_True)
qed

lemma completeBatch_ok: "completeBatch batch i None s = s\<lparr>stReplies := reply_all (\<lambda>_. None) batch (stReplies s)\<rparr>"
  by (simp add: completeBatch_def fold_notify)

lemma completeBatch_failed:
  "\<exists>e. (\<forall>i. e i \<noteq> None) \<and> completeBatch batch k (Some err) s =
     s\<lparr>stFailed := stFailed s + 1, stTasks := [], stReplies := reply_all e (batch @ stTasks s) (stReplies s)\<rparr>"
proof -
  obtain e where e: "\<forall>i. e i \<noteq> None" "notify_batch 0 k err batch (s\<lparr>stFailed := stFailed s + 1\<rparr>) =
      s\<lparr>stFailed := stFailed s + 1, stReplies := reply_all e batch (stReplies s)\<rparr>"
    using notify_batch_replies [of 0 k err batch "s\<lparr>stFailed := stFailed s + 1\<rparr>"] by auto
  define e' where "e' i = (if \<exists>t \<in> set batch. tkDone t \<and> tkId t = i then e i else Some (WDrained err))" for i
  have "reply_all (\<lambda>_. Some (WDrained err)) (stTasks s) (reply_all e batch (stReplies s)) = reply_all e' (batch @ stTasks s) (stReplies s)"
  proof (rule ext)
    fix i
    show "reply_all (\<lambda>_. Some (WDrained err)) (stTasks s) (reply_all e batch (stReplies s)) i = reply_all e' (batch @ stTasks s) (stReplies s) i"
      by (cases "\<exists>t \<in> set batch. tkDone t \<and> tkId t = i"; cases "stReplies s i"; cases "\<exists>t \<in> set (stTasks s). tkDone t \<and> tkId t = i")
        (simp_all only: reply_all_def e'_def set_append bex_Un simp_thms if_True if_False option.distinct)
  qed
  moreover have "\<forall>i. e' i \<noteq> None" using e(1) by (simp add: e'_def)
  ultimately show ?thesis using e(2)
    by (intro exI [of _ e']) (simp add: completeBatch_def Let_def fold_notify)
qed

text \<open>A finished batch is committed whole, or everything taken and queued fails.\<close>

lemma finish_cases:
  assumes "stFlight s = Some batch"
  defines "w \<equiv> (if stWriter s = Draining then Exited else stWriter s)"
  obtains (ok) db where "fault = TxOK" "run_batch 0 batch (stDb s) = Inr db"
      "finish_batch fault s = s\<lparr>stFlight := None, stWriter := w, stDb := db, stCommitted := stCommitted s @ batch,
         stReplies := reply_all (\<lambda>_. None) batch (stReplies s)\<rparr>"
    | (failed) e where "\<forall>i. e i \<noteq> None" "finish_batch fault s = s\<lparr>stFlight := None, stWriter := w, stFailed := stFailed s + 1, stTasks := [],
         stReplies := reply_all e (batch @ stTasks s) (stReplies s)\<rparr>"
proof -
  let ?s1 = "s\<lparr>stFlight := None, stWriter := w\<rparr>"
  have f: thesis if "finish_batch fault s = completeBatch batch k (Some err) ?s1" for k err
    using completeBatch_failed [of batch k err ?s1] that failed by auto
  show thesis
  proof (cases fault)
    case TxOK
    show thesis
    proof (cases "run_batch 0 batch (stDb s)")
      case (Inl x)
      obtain i err where "x = (i, err)" by fastforce
      then show thesis using f [of "int i" err] Inl TxOK by (simp add: finish_batch_def assms(1) w_def)
    next
      case (Inr db)
      then show thesis using ok [OF TxOK Inr] TxOK by (simp add: finish_batch_def assms(1) w_def completeBatch_ok)
    qed
  next
    case (TxBegin err)
    then show thesis using f [of "- 1" err] by (simp add: finish_batch_def assms(1) w_def)
  next
    case (TxCommit err)
    show thesis
    proof (cases "run_batch 0 batch (stDb s)")
      case (Inl x)
      obtain i e where "x = (i, e)" by fastforce
      then show thesis using f [of "int i" e] Inl TxCommit by (simp add: finish_batch_def assms(1) w_def)
    next
      case (Inr db)
      then show thesis using f [of "int (length batch) - 1" err] TxCommit by (simp add: finish_batch_def assms(1) w_def)
    qed
  qed
qed

subsection \<open>Every step keeps the accounts\<close>

lemma accounts_take:
  assumes "accounts db0 s" "stFlight s = None" shows "accounts db0 (take_batch s)"
proof (cases "stTasks s = []")
  case False
  let ?n = "min (length (stTasks s)) defaultBatchRows"
  have o: "open_tasks (take_batch s) = open_tasks s" using assms(2) False by (simp add: take_batch_def Let_def open_tasks_def in_flight_def)
  show ?thesis
    by (rule accounts_moved [OF assms(1)])
      (use accountsD(1,7) [OF assms(1)] False in \<open>simp_all add: o\<close>, simp_all add: take_batch_def Let_def)
qed (use assms in \<open>simp add: take_batch_def\<close>)

lemma accounts_check:
  assumes "accounts db0 s" shows "accounts db0 (enqueue_check fn d s)"
proof (cases "stClosed s")
  case True
  note a = accountsD [OF assms]
  have "open_tasks (enqueue_check fn d s) = open_tasks s" using True by (simp add: enqueue_check_def Let_def open_tasks_def in_flight_def)
  then show ?thesis
    using a True unfolding accounts_def
    by (fastforce simp: enqueue_check_def Let_def committed_ids_def)
next
  case False
  note a = accountsD [OF assms]
  let ?t = "\<lparr>tkId = stNext s, tkFn = fn, tkDone = d\<rparr>" and ?s = "enqueue_check fn d s"
  have o: "set (open_tasks ?s) = insert ?t (set (open_tasks s))" "stReplies ?s = stReplies s" "stCommitted ?s = stCommitted s"
    "stNext ?s = Suc (stNext s)" "stDb ?s = stDb s" "stTasks ?s = stTasks s"
    using False by (auto simp: enqueue_check_def Let_def open_tasks_def in_flight_def)
  have p: "open_tasks ?s = stPending s @ ?t # in_flight s @ stTasks s"
    using False by (simp add: enqueue_check_def Let_def open_tasks_def in_flight_def)
  have "stNext s \<notin> tkId ` (set (stCommitted s) \<union> set (open_tasks s))" using a(2) by (metis imageE less_irrefl)
  then have "distinct (map tkId (stCommitted s @ open_tasks ?s))"
    using a(1) unfolding p by (simp add: open_tasks_def image_Un)
  moreover have "stReplies s (stNext s) = None" using a(5) [of "stNext s"] by (cases "stReplies s (stNext s)") auto
  ultimately show ?thesis
    using a(2-7) unfolding accounts_def by (simp add: o committed_ids_def) (auto intro: less_SucI)
qed

lemma accounts_send:
  assumes "accounts db0 s" "t \<in> set (stPending s)" shows "accounts db0 (enqueue_send t s)"
proof (rule accounts_moved [OF assms(1)])
  have d: "distinct (map tkId (open_tasks s))" using accountsD(1) [OF assms(1)] by simp
  show "set (open_tasks (enqueue_send t s)) \<subseteq> set (open_tasks s)"
    using assms(2) by (auto simp: enqueue_send_def Let_def open_tasks_def in_flight_def)
  have f: "in_flight (enqueue_send t s) = in_flight s" by (simp add: enqueue_send_def Let_def in_flight_def)
  have q: "distinct (map tkId (filter (\<lambda>u. tkId u \<noteq> tkId t) (stPending s)))" using d by (simp add: open_tasks_def distinct_map_filter)
  have m: "tkId t \<in> tkId ` set (stPending s)" using assms(2) by simp
  have r: "tkId ` set (filter (\<lambda>u. tkId u \<noteq> tkId t) (stPending s)) = tkId ` set (stPending s) - {tkId t}" by auto
  have "stTasks (enqueue_send t s) = stTasks s @ [t] \<or> stTasks (enqueue_send t s) = stTasks s"
    "stPending (enqueue_send t s) = filter (\<lambda>u. tkId u \<noteq> tkId t) (stPending s)"
    by (simp_all add: enqueue_send_def Let_def)
  then show "distinct (map tkId (open_tasks (enqueue_send t s)))"
    using d q m r unfolding open_tasks_def f by (elim disjE) (simp_all add: image_Un del: set_filter, blast+)
qed (use accountsD(7) [OF assms(1)] in \<open>simp_all add: enqueue_send_def Let_def\<close>)

lemma run_batch_append: "run_batch i ts db = Inr db' \<Longrightarrow> run_batch j (ts @ us) db = run_batch (j + length ts) us db'"
  by (induction ts arbitrary: i j db) (auto split: sum.splits)

lemma run_batch_index: "run_batch i ts db = Inr db' \<Longrightarrow> run_batch j ts db = Inr db'"
  by (induction ts arbitrary: i j db) (auto split: sum.splits)

lemma run_batch_then: "run_batch 0 cs db0 = Inr db \<Longrightarrow> run_batch 0 ts db = Inr db' \<Longrightarrow> run_batch 0 (cs @ ts) db0 = Inr db'"
  using run_batch_append [of 0 cs db0 db 0 ts] run_batch_index by simp

lemma accounts_commit:
  assumes "accounts db0 s" "stFlight s = Some batch" "run_batch 0 batch (stDb s) = Inr db"
  shows "accounts db0 (s\<lparr>stFlight := None, stWriter := w, stDb := db, stCommitted := stCommitted s @ batch,
    stReplies := reply_all (\<lambda>_. None) batch (stReplies s)\<rparr>)" (is "accounts db0 ?s")
proof -
  note a = accountsD [OF assms(1)]
  have o: "open_tasks s = stPending s @ batch @ stTasks s" by (simp add: open_tasks_def in_flight_def assms(2))
  have lt: "tkId t < stNext s" if "t \<in> set batch \<union> set (stTasks s) \<union> set (stPending s)" for t using a(2) that by (auto simp: o)
  let ?r = "reply_all (\<lambda>_. None) batch (stReplies s)"
  have f: "stCommitted ?s = stCommitted s @ batch" "open_tasks ?s = stPending s @ stTasks s" "stReplies ?s = ?r"
    "stDb ?s = db" "stNext ?s = stNext s" "stTasks ?s = stTasks s"
    by (simp_all add: open_tasks_def in_flight_def)
  have d: "distinct (map tkId (stCommitted s @ batch @ stPending s @ stTasks s))" using a(1) unfolding o by auto
  have new: "?r (tkId t) = Some None" if "t \<in> set batch" "tkDone t" for t
    using a(3) [of t] that by (auto simp: o reply_all_def)
  have old: "?r (tkId t) = stReplies s (tkId t)" if "t \<in> set (stCommitted s @ stPending s @ stTasks s)" for t
    using d that by (force simp: reply_all_def)
  have acc: "i < stNext s \<and> (e = None \<longleftrightarrow> i \<in> tkId ` set (stCommitted s @ batch))" if "?r i = Some e" for i e
  proof (cases "stReplies s i")
    case None
    then show ?thesis using that lt by (auto simp: reply_all_def split: if_splits)
  next
    case (Some e')
    then have "e' = e" using that by (simp add: reply_all_def)
    moreover have "i \<notin> tkId ` set batch" using a(3) Some by (force simp: o)
    ultimately show ?thesis using a(5) [OF Some] by (auto simp: committed_ids_def)
  qed
  show ?thesis
    unfolding accounts_def f committed_ids_def
  proof (intro conjI ballI allI impI)
    show "distinct (map tkId ((stCommitted s @ batch) @ stPending s @ stTasks s))" using d by simp
    show "run_batch 0 (stCommitted s @ batch) db0 = Inr db" by (rule run_batch_then [OF a(6) assms(3)])
    show "length (stTasks s) \<le> queueDepth" by (rule a(7))
  next
    fix t assume "t \<in> set ((stCommitted s @ batch) @ stPending s @ stTasks s)"
    then show "tkId t < stNext s" using a(2) by (auto simp: o)
  next
    fix t assume "t \<in> set (stPending s @ stTasks s)"
    then show "?r (tkId t) = None" using a(3) [of t] old [of t] by (auto simp: o)
  next
    fix t assume "t \<in> set (stCommitted s @ batch)" "tkDone t"
    then show "?r (tkId t) = Some None" using new a(4) [of t] old [of t] by auto
  next
    fix i e assume "?r i = Some e"
    from acc [OF this] show "i < stNext s" "e = None \<longleftrightarrow> i \<in> tkId ` set (stCommitted s @ batch)" by blast+
  qed
qed

lemma accounts_abort:
  assumes "accounts db0 s" "stFlight s = Some batch" "\<forall>i. e i \<noteq> None"
  shows "accounts db0 (s\<lparr>stFlight := None, stWriter := w, stFailed := n, stTasks := [],
    stReplies := reply_all e (batch @ stTasks s) (stReplies s)\<rparr>)" (is "accounts db0 ?s")
proof -
  note a = accountsD [OF assms(1)]
  have o: "open_tasks s = stPending s @ batch @ stTasks s" by (simp add: open_tasks_def in_flight_def assms(2))
  have lt: "tkId t < stNext s" if "t \<in> set batch \<union> set (stTasks s) \<union> set (stPending s)" for t using a(2) that by (auto simp: o)
  let ?r = "reply_all e (batch @ stTasks s) (stReplies s)"
  have f: "stCommitted ?s = stCommitted s" "open_tasks ?s = stPending s" "stReplies ?s = ?r"
    "stDb ?s = stDb s" "stNext ?s = stNext s" "stTasks ?s = []"
    by (simp_all add: open_tasks_def in_flight_def)
  have d: "distinct (map tkId (stCommitted s @ batch @ stPending s @ stTasks s))" using a(1) unfolding o by auto
  have old: "?r (tkId t) = stReplies s (tkId t)" if "t \<in> set (stCommitted s @ stPending s)" for t
    using d that by (force simp: reply_all_def)
  have acc: "i < stNext s \<and> (x = None \<longleftrightarrow> i \<in> tkId ` set (stCommitted s))" if "?r i = Some x" for i x
  proof (cases "stReplies s i")
    case None
    then obtain t where t: "t \<in> set (batch @ stTasks s)" "tkId t = i" "x = e i"
      using \<open>?r i = Some x\<close> by (auto simp: reply_all_def split: if_splits)
    moreover have "i \<notin> tkId ` set (stCommitted s)" using d t(1,2) by force
    ultimately show ?thesis using assms(3) lt [of t] by auto
  next
    case (Some e')
    then show ?thesis using that a(5) [OF Some] by (auto simp: reply_all_def committed_ids_def)
  qed
  show ?thesis
    unfolding accounts_def f committed_ids_def
  proof (intro conjI ballI allI impI)
    show "distinct (map tkId (stCommitted s @ stPending s))" using d by auto
    show "run_batch 0 (stCommitted s) db0 = Inr (stDb s)" by (rule a(6))
    show "length [] \<le> queueDepth" by simp
  next
    fix t assume "t \<in> set (stCommitted s @ stPending s)"
    then show "tkId t < stNext s" using a(2) by (auto simp: o)
  next
    fix t assume "t \<in> set (stPending s)"
    then show "?r (tkId t) = None" using a(3) [of t] old [of t] by (auto simp: o)
  next
    fix t assume "t \<in> set (stCommitted s)" "tkDone t"
    then show "?r (tkId t) = Some None" using a(4) [of t] old [of t] by auto
  next
    fix i x assume "?r i = Some x"
    from acc [OF this] show "i < stNext s" "x = None \<longleftrightarrow> i \<in> tkId ` set (stCommitted s)" by blast+
  qed
qed

lemma accounts_finish:
  assumes "accounts db0 s" shows "accounts db0 (finish_batch fault s)"
proof (cases "stFlight s")
  case None
  then show ?thesis using assms by (simp add: finish_batch_def)
next
  case (Some batch)
  show ?thesis
    by (rule finish_cases [OF Some, of fault])
      (auto simp only: intro!: accounts_commit [OF assms Some] accounts_abort [OF assms Some])
qed

lemma accounts_flag:
  "accounts db0 s \<Longrightarrow> accounts db0 (s\<lparr>stClosed := b\<rparr>)" "accounts db0 s \<Longrightarrow> accounts db0 (s\<lparr>stOpen := b\<rparr>)"
  "accounts db0 s \<Longrightarrow> accounts db0 (s\<lparr>stWriter := w\<rparr>)"
  by (simp_all add: accounts_def open_tasks_def in_flight_def committed_ids_def)

lemma accounts_step: "any_step s s' \<Longrightarrow> accounts db0 s \<Longrightarrow> accounts db0 s'"
  unfolding any_step_def forced_def
proof (elim disjE conjE)
  assume "store_step s s'" "accounts db0 s"
  then show ?thesis
    by (cases rule: store_step.cases)
      (simp_all add: accounts_take accounts_check accounts_send accounts_finish accounts_flag)
qed (simp add: accounts_take)

lemma store_reachable_accounts: "sto.reachable db0 s \<Longrightarrow> accounts db0 s"
proof (erule sto.invariant)
  show "accounts db0 s" if "store_start db0 s" for s :: "'a store"
    using that by (simp add: store_start_def Store_Open_def accounts_def open_tasks_def in_flight_def committed_ids_def)
qed (rule accounts_step)

section \<open>A flush answers what was queued\<close>

lemma take_all:
  assumes "length (stTasks s) \<le> queueDepth" "stTasks s \<noteq> []"
  shows "take_batch s = s\<lparr>stFlight := Some (stTasks s), stTasks := []\<rparr>"
  using assms by (simp add: take_batch_def Let_def defaultBatchRows_def queueDepth_def)

lemma flush_spec:
  assumes "accounts db0 s" "stFlight s = None" "stTasks s \<noteq> []"
  shows "stTasks (flush fault s) = []"
    and "\<And>t. t \<in> set (stTasks s) \<Longrightarrow> tkDone t \<Longrightarrow> \<exists>r. stReplies (flush fault s) (tkId t) = Some r \<and>
      (r = None \<longleftrightarrow> fault = TxOK \<and> (\<exists>db. run_batch 0 (stTasks s) (stDb s) = Inr db))"
    and "stDb (flush fault s) = (if fault = TxOK then case run_batch 0 (stTasks s) (stDb s) of Inr db \<Rightarrow> db | Inl _ \<Rightarrow> stDb s else stDb s)"
proof -
  note a = accountsD [OF assms(1)]
  let ?s = "s\<lparr>stFlight := Some (stTasks s), stTasks := []\<rparr>"
  have f: "flush fault s = finish_batch fault ?s" "stFlight ?s = Some (stTasks s)"
    using take_all [OF a(7) assms(3)] by (simp_all add: flush_def)
  have none: "stReplies s (tkId t) = None" if "t \<in> set (stTasks s)" for t using a(3) [of t] that by (simp add: open_tasks_def)
  consider (ok) db where "fault = TxOK" "run_batch 0 (stTasks s) (stDb s) = Inr db" | (bad) "\<not> (fault = TxOK \<and> (\<exists>db. run_batch 0 (stTasks s) (stDb s) = Inr db))"
    by blast
  then have "stTasks (flush fault s) = [] \<and> (\<forall>t \<in> set (stTasks s). tkDone t \<longrightarrow> (\<exists>r. stReplies (flush fault s) (tkId t) = Some r \<and>
      (r = None \<longleftrightarrow> fault = TxOK \<and> (\<exists>db. run_batch 0 (stTasks s) (stDb s) = Inr db)))) \<and>
    stDb (flush fault s) = (if fault = TxOK then case run_batch 0 (stTasks s) (stDb s) of Inr db \<Rightarrow> db | Inl _ \<Rightarrow> stDb s else stDb s)"
  proof cases
    case ok
    then have "flush fault s = ?s\<lparr>stFlight := None, stWriter := (if stWriter s = Draining then Exited else stWriter s), stDb := db,
        stCommitted := stCommitted s @ stTasks s, stReplies := reply_all (\<lambda>_. None) (stTasks s) (stReplies s)\<rparr>"
      unfolding f(1) by (simp add: finish_batch_def completeBatch_ok)
    then show ?thesis using ok none by (auto simp: reply_all_def)
  next
    case bad
    obtain e where e: "\<forall>i. e i \<noteq> None" "flush fault s = ?s\<lparr>stFlight := None,
        stWriter := (if stWriter s = Draining then Exited else stWriter s), stFailed := stFailed s + 1, stTasks := [],
        stReplies := reply_all e (stTasks s) (stReplies s)\<rparr>"
    proof (rule finish_cases [OF f(2), of fault])
      fix db assume "fault = TxOK" "run_batch 0 (stTasks s) (stDb ?s) = Inr db"
      then show thesis using bad by simp
    next
      fix e assume "\<forall>i. e i \<noteq> None" "finish_batch fault ?s = ?s\<lparr>stFlight := None,
        stWriter := (if stWriter ?s = Draining then Exited else stWriter ?s), stFailed := stFailed ?s + 1, stTasks := [],
        stReplies := reply_all e (stTasks s @ stTasks ?s) (stReplies ?s)\<rparr>"
      then show thesis using that [of e] by (simp add: f(1))
    qed
    have "(if fault = TxOK then case run_batch 0 (stTasks s) (stDb s) of Inr db \<Rightarrow> db | Inl _ \<Rightarrow> stDb s else stDb s) = stDb s"
      using bad by (auto split: sum.split)
    moreover have "reply_all e (stTasks s) (stReplies s) (tkId t) = Some (e (tkId t))" if "t \<in> set (stTasks s)" "tkDone t" for t
      using that none [OF that(1)] by (auto simp: reply_all_def)
    moreover have "(e (tkId t) = None) = (fault = TxOK \<and> (\<exists>db. run_batch 0 (stTasks s) (stDb s) = Inr db))" for t :: "'a task"
      using bad e(1) by blast
    ultimately show ?thesis by (simp add: e(2))
  qed
  then show "stTasks (flush fault s) = []" "\<And>t. t \<in> set (stTasks s) \<Longrightarrow> tkDone t \<Longrightarrow> \<exists>r. stReplies (flush fault s) (tkId t) = Some r \<and>
      (r = None \<longleftrightarrow> fault = TxOK \<and> (\<exists>db. run_batch 0 (stTasks s) (stDb s) = Inr db))"
    "stDb (flush fault s) = (if fault = TxOK then case run_batch 0 (stTasks s) (stDb s) of Inr db \<Rightarrow> db | Inl _ \<Rightarrow> stDb s else stDb s)"
    by blast+
qed

section \<open>What callers may rely on\<close>

text \<open>
  Property C7. In every reachable state of the store, whatever the order of submissions, ticks, forced
  flushes, failures and closing: the database is what the committed tasks, applied in order, make of the
  initial one; the answer in a completion channel is a success exactly for a committed task, an error
  only for one that left no trace; every committed task with a channel has its answer; no task is
  committed twice; and the queue keeps within its bound.
\<close>

theorem store_accounts:
  assumes "sto.reachable db0 s"
  shows "run_batch 0 (stCommitted s) db0 = Inr (stDb s) \<and> (\<forall>i. stReplies s i = Some None \<longrightarrow> i \<in> committed_ids s) \<and>
    (\<forall>i e. stReplies s i = Some (Some e) \<longrightarrow> i \<notin> committed_ids s) \<and>
    (\<forall>t \<in> set (stCommitted s). tkDone t \<longrightarrow> stReplies s (tkId t) = Some None) \<and>
    distinct (map tkId (stCommitted s)) \<and> length (stTasks s) \<le> queueDepth"
proof -
  note a = accountsD [OF store_reachable_accounts [OF assms]]
  have "distinct (map tkId (stCommitted s))" using a(1) by simp
  moreover have "i \<in> committed_ids s" if "stReplies s i = Some None" for i using a(5) [OF that] by simp
  moreover have "i \<notin> committed_ids s" if "stReplies s i = Some (Some e)" for i e using a(5) [OF that] by simp
  ultimately show ?thesis using a(4,6,7) by blast
qed

text \<open>One submitted task, for the witnesses.\<close>

definition good_task :: "int \<Rightarrow> string + int" where "good_task n = Inr (n + 1)"
definition demo_task :: "int task" where "demo_task = \<lparr>tkId = 0, tkFn = good_task, tkDone = True\<rparr>"
definition demo_queue :: "int store" where
  "demo_queue = enqueue_send demo_task (enqueue_check good_task True (Store_Open 5))"

lemma demo_queue_eq: "demo_queue = (Store_Open 5)\<lparr>stNext := 1, stTasks := [demo_task], stReturned := [0 \<mapsto> None]\<rparr>"
  by (simp add: demo_queue_def demo_task_def enqueue_check_def enqueue_send_def Store_Open_def Let_def queueDepth_def)

lemma demo_queue_reachable: "sto.reachable 5 demo_queue"
proof -
  let ?s = "enqueue_check good_task True (Store_Open 5)"
  have "sto.reachable 5 (Store_Open (5 :: int))" by (rule sto.reachable.start) (simp add: store_start_def)
  then have "sto.reachable 5 ?s" by (rule sto.reachable.move) (simp add: any_step_def store_step.check)
  moreover have "demo_task \<in> set (stPending ?s)" by (simp add: enqueue_check_def Let_def Store_Open_def demo_task_def)
  ultimately show ?thesis unfolding demo_queue_def by (meson any_step_def store_step.send sto.reachable.move)
qed

lemma reachable_flush:
  assumes "sto.reachable db0 s" "stFlight s = None" "stOpen s"
  shows "sto.reachable db0 (flush TxOK s)"
proof -
  have "sto.reachable db0 (take_batch s)"
    using assms(1,2) by (auto intro: sto.reachable.move simp: any_step_def forced_def)
  moreover have "stOpen (take_batch s)" using assms(3) by (simp add: take_batch_def Let_def)
  ultimately show ?thesis unfolding flush_def by (meson any_step_def store_step.finish sto.reachable.move)
qed

theorem store_accounts_witness:
  "let s = flush TxOK demo_queue in stDb s = 6 \<and> stReplies s 0 = Some None \<and> committed_ids s = {0} \<and>
     run_batch 0 (stCommitted s) 5 = Inr (stDb s)"
proof -
  have r: "sto.reachable 5 (flush TxOK demo_queue)"
    by (rule reachable_flush [OF demo_queue_reachable]) (simp_all add: demo_queue_eq Store_Open_def)
  have "take_batch demo_queue = (Store_Open 5)\<lparr>stNext := 1, stReturned := [0 \<mapsto> None], stFlight := Some [demo_task]\<rparr>"
    by (simp add: demo_queue_eq take_batch_def defaultBatchRows_def Store_Open_def)
  moreover have "run_batch 0 [demo_task] 5 = Inr 6" by (simp add: demo_task_def good_task_def)
  ultimately have s: "stDb (flush TxOK demo_queue) = 6" "stCommitted (flush TxOK demo_queue) = [demo_task]"
    by (simp_all add: flush_def finish_batch_def Let_def completeBatch_ok Store_Open_def)
  have d: "tkDone demo_task" "tkId demo_task = 0" by (simp_all add: demo_task_def)
  show ?thesis unfolding Let_def using store_accounts [OF r] s d by (simp add: committed_ids_def del: run_batch.simps)
qed

subsection \<open>A submission that loses its race with Close\<close>

text \<open>No step of the writer or of a caller of the queue other than a forced flush.\<close>

definition never_answered :: "nat \<Rightarrow> 'db store \<Rightarrow> bool" where
  "never_answered i s \<longleftrightarrow> (\<forall>s'. store_step\<^sup>*\<^sup>* s s' \<longrightarrow> stReplies s' i = None)"

lemma writer_gone:
  assumes "store_step\<^sup>*\<^sup>* s s'" "stWriter s = Exited" "stFlight s = None"
  shows "stWriter s' = Exited \<and> stFlight s' = None \<and> stReplies s' = stReplies s"
  using assms
proof (induction rule: rtranclp_induct)
  case (step y z)
  from step.hyps(2) step.IH step.prems show ?case
    by (cases rule: store_step.cases) (auto simp: enqueue_check_def enqueue_send_def finish_batch_def Let_def)
qed simp

text \<open>
  Property C36. The closed flag is read under the lock and the channel is sent to after it is released, so
  a \<^verbatim>\<open>Close\<close> may run in between. Then \<^verbatim>\<open>Submit\<close> reports that the task is queued although the writer has
  made its last flush, and the caller that waits on the task's channel, as \<^verbatim>\<open>query\<close> does, waits for ever.
\<close>

theorem late_submit_lost:
  "\<exists>s. sto.reachable db s \<and> stClosed s \<and> stReturned s 0 = Some None \<and> tkId ` set (stTasks s) = {0} \<and> never_answered 0 s"
proof -
  fix fn :: "'a \<Rightarrow> string + 'a"
  let ?t = "\<lparr>tkId = 0, tkFn = fn, tkDone = True\<rparr>"
  let ?s1 = "(Store_Open db)\<lparr>stNext := 1, stPending := [?t]\<rparr>"
  let ?s3 = "?s1\<lparr>stClosed := True, stWriter := Exited\<rparr>"
  let ?s4 = "?s3\<lparr>stPending := [], stTasks := [?t], stReturned := [0 \<mapsto> None]\<rparr>"
  have "sto.reachable db (Store_Open db)" by (rule sto.reachable.start) (simp add: store_start_def)
  moreover have "store_step (Store_Open db) ?s1"
    using store_step.check [of "Store_Open db" fn True] by (simp add: enqueue_check_def Store_Open_def Let_def)
  moreover have "store_step ?s1 (?s1\<lparr>stClosed := True\<rparr>)" by (rule store_step.close)
  moreover have "store_step (?s1\<lparr>stClosed := True\<rparr>) ?s3"
    using store_step.stop [of "?s1\<lparr>stClosed := True\<rparr>"] by (simp add: take_batch_def Store_Open_def)
  moreover have "store_step ?s3 ?s4"
    using store_step.send [of ?t ?s3] by (simp add: enqueue_send_def Let_def Store_Open_def queueDepth_def)
  ultimately have "sto.reachable db ?s4" by (meson sto.reachable.move any_step_def)
  moreover have "never_answered 0 ?s4"
    unfolding never_answered_def using writer_gone [of ?s4] by (simp add: Store_Open_def)
  ultimately show ?thesis by (intro exI [of _ ?s4]) (simp add: Store_Open_def)
qed

text \<open>
  Property C35. A flush of a reachable store with no batch in flight empties the queue and answers every
  waiting task: with success if the transaction began, every queued task's statements succeeded and the
  commit did, and then the database has all of them; otherwise with an error, and the database is unchanged.
\<close>

theorem flush_answers:
  assumes "sto.reachable db0 s" "stFlight s = None" "stTasks s \<noteq> []"
  shows "stTasks (flush fault s) = [] \<and>
    (\<forall>t \<in> set (stTasks s). tkDone t \<longrightarrow> (\<exists>r. stReplies (flush fault s) (tkId t) = Some r \<and>
       (r = None \<longleftrightarrow> fault = TxOK \<and> (\<exists>db. run_batch 0 (stTasks s) (stDb s) = Inr db)))) \<and>
    stDb (flush fault s) = (if fault = TxOK then case run_batch 0 (stTasks s) (stDb s) of Inr db \<Rightarrow> db | Inl _ \<Rightarrow> stDb s else stDb s)"
  using flush_spec [OF store_reachable_accounts [OF assms(1)] assms(2,3)] by blast

theorem flush_answers_witness:
  "let s = flush (TxCommit ''disk I/O'') demo_queue
   in stTasks demo_queue = [demo_task] \<and> stTasks s = [] \<and> stDb s = 5 \<and> (\<exists>e. stReplies s 0 = Some (Some e))"
proof -
  have s: "stFlight demo_queue = None" "stTasks demo_queue = [demo_task]" "stDb demo_queue = 5" "tkDone demo_task" "tkId demo_task = 0"
    by (simp_all add: demo_queue_eq Store_Open_def demo_task_def)
  have "stTasks (flush (TxCommit ''disk I/O'') demo_queue) = []" "stDb (flush (TxCommit ''disk I/O'') demo_queue) = 5"
    "\<exists>r. stReplies (flush (TxCommit ''disk I/O'') demo_queue) 0 = Some r \<and> r \<noteq> None"
    using flush_answers [OF demo_queue_reachable s(1), of "TxCommit ''disk I/O''"] s by simp_all
  then show ?thesis using s(2) unfolding Let_def by auto
qed

end
