(* ===== verification/Store_Rows.thy ===== *)
theory Store_Rows
  imports Main
begin

text \<open>
  Tables of the store with a primary key: rows in insertion order, the insert that overwrites the row of
  its key (\<^verbatim>\<open>INSERT ... ON CONFLICT DO UPDATE\<close>), and the row of a key.
\<close>

definition put_by :: "('a \<Rightarrow> 'k) \<Rightarrow> 'a \<Rightarrow> 'a list \<Rightarrow> 'a list" where
  "put_by k x rows = (if k x \<in> k ` set rows then map (\<lambda>r. if k r = k x then x else r) rows else rows @ [x])"

definition row_at :: "('a \<Rightarrow> 'k) \<Rightarrow> 'a list \<Rightarrow> 'k \<Rightarrow> 'a option" where
  "row_at k rows i = map_of (map (\<lambda>r. (k r, r)) rows) i"

lemma row_at_simps [simp]:
  "row_at k [] i = None" "row_at k (r # rows) i = (if i = k r then Some r else row_at k rows i)"
  by (simp_all add: row_at_def)

lemma row_at_put: "row_at k (put_by k x rows) i = (if i = k x then Some x else row_at k rows i)"
proof -
  have "row_at k (map (\<lambda>r. if k r = k x then x else r) rows) i =
      (if i = k x \<and> k x \<in> k ` set rows then Some x else row_at k rows i)" by (induction rows) auto
  moreover have "k x \<notin> k ` set rows \<Longrightarrow> row_at k (rows @ [x]) i = (if i = k x then Some x else row_at k rows i)"
    by (induction rows) auto
  ultimately show ?thesis by (cases "k x \<in> k ` set rows") (simp_all add: put_by_def)
qed

lemma row_at_filter: "row_at k (filter (\<lambda>r. P (k r)) rows) i = (if P i then row_at k rows i else None)"
  by (induction rows) auto

lemma row_at_None: "row_at k rows i = None \<longleftrightarrow> i \<notin> k ` set rows"
  by (induction rows) auto

lemma row_at_iff: "distinct (map k rows) \<Longrightarrow> row_at k rows i = Some r \<longleftrightarrow> r \<in> set rows \<and> k r = i"
  by (induction rows) (auto simp: image_iff)

lemma row_at_same_rows:
  assumes "distinct (map k xs)" "distinct (map k ys)" "set xs = set ys" shows "row_at k xs i = row_at k ys i"
proof (cases "row_at k ys i")
  case None
  then have "row_at k xs i = None" unfolding row_at_None assms(3) .
  with None show ?thesis by simp
next
  case (Some r)
  then have "row_at k xs i = Some r" unfolding row_at_iff [OF assms(1)] row_at_iff [OF assms(2)] assms(3) .
  with Some show ?thesis by simp
qed

lemma keys_put: "k ` set (put_by k x rows) = insert (k x) (k ` set rows)"
proof -
  have "k ` set (map (\<lambda>r. if k r = k x then x else r) rows) = k ` set rows" by (induction rows) auto
  then show ?thesis by (auto simp: put_by_def)
qed

lemma distinct_put: "distinct (map k rows) \<Longrightarrow> distinct (map k (put_by k x rows))"
proof -
  have "map k (map (\<lambda>r. if k r = k x then x else r) rows) = map k rows" by (induction rows) auto
  then show "distinct (map k rows) \<Longrightarrow> distinct (map k (put_by k x rows))"
    unfolding put_by_def by (simp del: map_map)
qed

lemma row_at_fold:
  assumes "distinct (map (\<lambda>x. k (f x)) xs)"
  shows "row_at k (fold (\<lambda>x. put_by k (f x)) xs rows) i =
    (case row_at (\<lambda>x. k (f x)) xs i of Some x \<Rightarrow> Some (f x) | None \<Rightarrow> row_at k rows i)"
  using assms
proof (induction xs arbitrary: rows)
  case (Cons x xs)
  then have "row_at (\<lambda>x. k (f x)) xs (k (f x)) = None" by (auto simp: row_at_None)
  with Cons show ?case by (auto simp: row_at_put split: option.split)
qed simp

end
