(* ===== verification/Store_Tables.thy ===== *)
theory Store_Tables
  imports Store_Queue Store_Rows Service_Boot Hedge_Props
begin

text \<open>
  Package \<^verbatim>\<open>store\<close>, the tables of the hedge module: daily closes (\<^verbatim>\<open>closes.go\<close>), the positions and the
  pair (\<^verbatim>\<open>hedge.go\<close>), and command \<^verbatim>\<open>gexctl load-closes\<close>, which runs a closes file through the parser
  and the checks of package \<^verbatim>\<open>hedge\<close> into the queue of the store. A statement changes the rows its SQL
  names; which statements the database refuses is an argument, and so is whether a transaction begins and
  commits (the fault of a flush).
\<close>

section \<open>Tables\<close>

text \<open>Rows are kept in insertion order; \<open>taPosSeq\<close> is the counter of \<^verbatim>\<open>AUTOINCREMENT\<close>.\<close>

record tables =
  taCloses :: "(string \<times> close) list"
  taPositions :: "leg list"
  taPosSeq :: int
  taPair :: "(string \<times> string \<times> int) option"

definition exec :: "string option \<Rightarrow> 'a \<Rightarrow> string + 'a" where
  "exec refused x = (case refused of Some e \<Rightarrow> Inl e | None \<Rightarrow> Inr x)"

section \<open>Daily closes\<close>

definition close_key :: "string \<times> close \<Rightarrow> string \<times> string" where
  "close_key r = (fst r, clsDate (snd r))"

definition UpsertDailyCloses :: "(close \<Rightarrow> string option) \<Rightarrow> string \<Rightarrow> close list \<Rightarrow> tables \<Rightarrow> string + tables" where
  "UpsertDailyCloses refuse t rows =
     fold_res (\<lambda>r db. exec (refuse r) (db\<lparr>taCloses := put_by close_key (t, r) (taCloses db)\<rparr>)) rows"

definition DeleteDailyCloses :: "string option \<Rightarrow> string \<Rightarrow> tables \<Rightarrow> string + tables" where
  "DeleteDailyCloses refused t db = exec refused (db\<lparr>taCloses := filter (\<lambda>r. fst r \<noteq> t) (taCloses db)\<rparr>)"

definition DailyCloses :: "tables \<Rightarrow> string \<Rightarrow> close list \<times> bool" where
  "DailyCloses db t =
     (let closes = sort_key clsDate (map snd (filter (\<lambda>r. fst r = t) (taCloses db)))
      in (closes, closes \<noteq> []))"

text \<open>What the table says of a ticker and a date.\<close>

definition close_at :: "tables \<Rightarrow> string \<Rightarrow> string \<Rightarrow> f64 option" where
  "close_at db t d = map_option (clsClose \<circ> snd) (row_at close_key (taCloses db) (t, d))"

section \<open>Positions and the pair\<close>

definition insert_position :: "string option \<Rightarrow> int \<Rightarrow> leg \<Rightarrow> tables \<Rightarrow> string + tables" where
  "insert_position refused ts l db =
     exec refused (db\<lparr>taPosSeq := taPosSeq db + 1,
                      taPositions := taPositions db @ [l\<lparr>lgId := taPosSeq db + 1, lgUpdatedAtMs := ts\<rparr>]\<rparr>)"

definition delete_position :: "string option \<Rightarrow> int \<Rightarrow> tables \<Rightarrow> string + tables" where
  "delete_position refused i db = exec refused (db\<lparr>taPositions := filter (\<lambda>l. lgId l \<noteq> i) (taPositions db)\<rparr>)"

definition save_pair :: "string option \<Rightarrow> int \<Rightarrow> string \<Rightarrow> string \<Rightarrow> tables \<Rightarrow> string + tables" where
  "save_pair refused ts asset bench db = exec refused (db\<lparr>taPair := Some (ToUpper asset, ToUpper bench, ts)\<rparr>)"

definition Positions :: "tables \<Rightarrow> leg list" where
  "Positions db = sort_key lgId (taPositions db)"

definition LoadHedgePair :: "tables \<Rightarrow> (string \<times> string) option" where
  "LoadHedgePair db = map_option (\<lambda>(a, b, _). (a, b)) (taPair db)"

section \<open>Calls that wait\<close>

text \<open>\<open>Enqueue\<close> with no other caller between its check and its send: the error it returns, and the store.\<close>

definition Enqueue :: "('db \<Rightarrow> string + 'db) \<Rightarrow> 'db store \<Rightarrow> write_error option \<times> 'db store" where
  "Enqueue fn s =
     (let s1 = enqueue_check fn False s;
          s2 = (if stClosed s then s1 else enqueue_send \<lparr>tkId = stNext s, tkFn = fn, tkDone = False\<rparr> s1)
      in (case stReturned s2 (stNext s) of Some r \<Rightarrow> r | None \<Rightarrow> None, s2))"

text \<open>
  The variables a task captures hold what its body last wrote, whether or not the transaction was
  committed: \<open>task_sees\<close> is the database as the last task of the queue finds it, if the batch gets there.
\<close>

definition task_sees :: "tx_fault \<Rightarrow> 'db store \<Rightarrow> 'db option" where
  "task_sees fault s =
     (case fault of
        TxBegin _ \<Rightarrow> None
      | _ \<Rightarrow> (case run_batch 0 (stTasks s) (stDb s) of Inr db \<Rightarrow> Some db | Inl _ \<Rightarrow> None))"

datatype add_error = AInvalid leg_error | AQueue write_error

definition Store_AddPosition ::
  "string option \<Rightarrow> int \<Rightarrow> leg \<Rightarrow> tx_fault \<Rightarrow> tables store \<Rightarrow> (add_error + leg) \<times> tables store" where
  "Store_AddPosition refused ts l fault s =
     (case leg_Validate l of
        Some e \<Rightarrow> (Inl (AInvalid e), s)
      | None \<Rightarrow>
          (case Enqueue (insert_position refused ts l) s of
             (Some e, s1) \<Rightarrow> (Inl (AQueue e), s1)
           | (None, s1) \<Rightarrow>
               let i = (case task_sees fault s of
                          Some db \<Rightarrow> if refused = None then taPosSeq db + 1 else 0
                        | None \<Rightarrow> 0)
               in (Inr (l\<lparr>lgId := i, lgUpdatedAtMs := ts\<rparr>), flush fault s1)))"

definition Store_DeletePosition ::
  "string option \<Rightarrow> int \<Rightarrow> tx_fault \<Rightarrow> tables store \<Rightarrow> (write_error + bool) \<times> tables store" where
  "Store_DeletePosition refused i fault s =
     (case Enqueue (delete_position refused i) s of
        (Some e, s1) \<Rightarrow> (Inl e, s1)
      | (None, s1) \<Rightarrow>
          (Inr (case task_sees fault s of
                  Some db \<Rightarrow> refused = None \<and> (\<exists>l \<in> set (taPositions db). lgId l = i)
                | None \<Rightarrow> False), flush fault s1))"

section \<open>Command load-closes\<close>

datatype load_error =
    LUsage
  | LOpenFile
  | LParse hedge_error
  | LReject hedge_error
  | LOpenStore string
  | LRead string
  | LQueue write_error
  | LClose string

record load_report =
  lrTicker :: string
  lrRows :: nat
  lrFirstDate :: string
  lrLastDate :: string
  lrMaxAbs :: f64
  lrMaxAbsDate :: string
  lrPersisted :: bool
  lrReplaced :: bool

fun max_move :: "close list \<Rightarrow> f64 \<times> string \<Rightarrow> f64 \<times> string" where
  "max_move (p # c # cs) acc =
     (let r = (case DailyReturn (clsClose c) (clsClose p) of Inr r \<Rightarrow> r | Inl _ \<Rightarrow> 0)
      in max_move (c # cs) (if \<bar>r\<bar> > \<bar>fst acc\<bar> then (r, clsDate c) else acc))"
| "max_move _ acc = acc"

record load_args =
  laTicker :: string
  laPath :: string
  laFile :: "string option"
  laReplace :: bool
  laScan :: "string \<Rightarrow> f64 option"

text \<open>
  What the run meets: the statements the database refuses, a flush that the ticker of the writer may
  make between the two calls of \<^verbatim>\<open>--replace\<close>, the outcome of the forced flush, and whether reading
  the stored closes and closing the file fail. \<open>laFile\<close> is what opening the file at \<open>laPath\<close> gives.
\<close>

record load_env =
  leRefuseDelete :: "string option"
  leRefuse :: "close \<Rightarrow> string option"
  leTick :: "tx_fault option"
  leFault :: tx_fault
  leRead :: "string option"
  leClose :: "string option"

definition put_closes ::
  "load_env \<Rightarrow> string \<Rightarrow> close list \<Rightarrow> tables store \<Rightarrow> (load_error + unit) \<times> tables" where
  "put_closes e t closes s =
     (case Enqueue (UpsertDailyCloses (leRefuse e) t closes) s of
        (Some err, s1) \<Rightarrow> (Inl (LQueue err), stDb (flush (leFault e) s1))
      | (None, s1) \<Rightarrow>
          ((case leClose e of Some err \<Rightarrow> Inl (LClose err) | None \<Rightarrow> Inr ()), stDb (flush (leFault e) s1)))"

definition load_store ::
  "load_env \<Rightarrow> string \<Rightarrow> bool \<Rightarrow> close list \<Rightarrow> tables \<Rightarrow> (load_error + unit) \<times> tables" where
  "load_store e t repl closes db =
     (let s = Store_Open db
      in if repl
         then (case Enqueue (DeleteDailyCloses (leRefuseDelete e) t) s of
                 (Some err, s1) \<Rightarrow> (Inl (LQueue err), stDb s1)
               | (None, s1) \<Rightarrow> put_closes e t closes (case leTick e of Some f \<Rightarrow> flush f s1 | None \<Rightarrow> s1))
         else (case leRead e of
                 Some err \<Rightarrow> (Inl (LRead err), db)
               | None \<Rightarrow>
                   (case DailyCloses db t of
                      (existing, True) \<Rightarrow>
                        (case CheckContinuity closes existing of
                           Inl err \<Rightarrow> (Inl (LReject err), db)
                         | Inr _ \<Rightarrow> put_closes e t closes s)
                    | (_, False) \<Rightarrow> put_closes e t closes s)))"

definition load_closes_report :: "load_args \<Rightarrow> close list \<Rightarrow> bool \<Rightarrow> load_report" where
  "load_closes_report a closes persisted =
     (case max_move closes (0, clsDate (hd closes)) of
        (m, d) \<Rightarrow> \<lparr>lrTicker = laTicker a, lrRows = length closes, lrFirstDate = clsDate (hd closes),
          lrLastDate = clsDate (last closes), lrMaxAbs = m, lrMaxAbsDate = d, lrPersisted = persisted,
          lrReplaced = (persisted \<and> laReplace a)\<rparr>)"

text \<open>The database is \<open>None\<close> for \<^verbatim>\<open>--db ""\<close>, and an error where opening it fails.\<close>

definition cmdLoadCloses ::
  "load_env \<Rightarrow> load_args \<Rightarrow> (string + tables) option \<Rightarrow> (load_error + load_report) \<times> tables option" where
  "cmdLoadCloses e a db =
     (let kept = (case db of Some (Inr t) \<Rightarrow> Some t | _ \<Rightarrow> None)
      in if laTicker a = [] \<or> laPath a = [] then (Inl LUsage, kept)
         else case laFile a of
           None \<Rightarrow> (Inl LOpenFile, kept)
         | Some b \<Rightarrow>
             (case ParseClosesCSV (laScan a) b of
                Inl err \<Rightarrow> (Inl (LParse err), kept)
              | Inr closes \<Rightarrow>
                  (case ValidateCloses closes of
                     Inl err \<Rightarrow> (Inl (LReject err), kept)
                   | Inr _ \<Rightarrow>
                       (case db of
                          None \<Rightarrow> (Inr (load_closes_report a closes False), None)
                        | Some (Inl err) \<Rightarrow> (Inl (LOpenStore err), None)
                        | Some (Inr t) \<Rightarrow>
                            (case load_store e (laTicker a) (laReplace a) closes t of
                               (Inl err, t') \<Rightarrow> (Inl err, Some t')
                             | (Inr _, t') \<Rightarrow> (Inr (load_closes_report a closes True), Some t'))))))"

section \<open>What a stored file leaves in the table\<close>

lemma close_at_put:
  "close_at (db\<lparr>taCloses := put_by close_key (t, c) (taCloses db)\<rparr>) u d =
     (if u = t \<and> d = clsDate c then Some (clsClose c) else close_at db u d)"
  by (auto simp: close_at_def row_at_put close_key_def)

definition put_all :: "string \<Rightarrow> close list \<Rightarrow> tables \<Rightarrow> tables" where
  "put_all t = fold (\<lambda>r db. db\<lparr>taCloses := put_by close_key (t, r) (taCloses db)\<rparr>)"

lemma upsert_accepted:
  assumes "\<forall>c \<in> set closes. refuse c = None" shows "UpsertDailyCloses refuse t closes db = Inr (put_all t closes db)"
  using assms unfolding UpsertDailyCloses_def put_all_def by (intro fold_res_total) (simp add: exec_def)

lemma close_at_put_all:
  assumes "distinct (map clsDate closes)"
  shows "close_at (put_all t closes db) u d =
    (if u = t \<and> d \<in> clsDate ` set closes then map_of (map close_pair closes) d else close_at db u d)"
  using assms
proof (induction closes arbitrary: db)
  case (Cons c closes)
  then have n: "clsDate c \<notin> clsDate ` set closes" and IH: "\<And>db. close_at (put_all t closes db) u d =
      (if u = t \<and> d \<in> clsDate ` set closes then map_of (map close_pair closes) d else close_at db u d)" by auto
  have "put_all t (c # closes) db = put_all t closes (db\<lparr>taCloses := put_by close_key (t, c) (taCloses db)\<rparr>)" by (simp add: put_all_def)
  then show ?case using n by (auto simp: IH close_at_put map_of_cons_close simp del: map_of.simps(2))
qed (simp add: put_all_def)

lemma close_at_delete:
  "close_at (db\<lparr>taCloses := filter (\<lambda>r. fst r \<noteq> t) (taCloses db)\<rparr>) u d = (if u = t then None else close_at db u d)"
proof -
  have "(\<lambda>r. fst r \<noteq> t) = (\<lambda>r. fst (close_key r) \<noteq> t)" by (simp add: close_key_def)
  then show ?thesis using row_at_filter [of close_key "\<lambda>k. fst k \<noteq> t" "taCloses db" "(u, d)"] by (simp add: close_at_def)
qed

lemma parsed_dates_distinct:
  assumes "ParseClosesCSV scan b = Inr closes" shows "distinct (map clsDate closes)"
proof -
  obtain raw where raw: "closes_loop scan True [] (strings_Split (CHR 0x0A) b) = Inr raw" "closes = sort_key clsDate raw"
    using assms by (auto simp: ParseClosesCSV_def bind_res_Inr_iff split: if_splits)
  have "distinct (map clsDate raw)"
    using closes_loop_rows [OF raw(1)] fold_put_close [of "[]" "dated_rows scan b"] by (simp add: dated_rows_def)
  then show ?thesis unfolding raw(2) by (simp add: distinct_map)
qed

subsection \<open>The queue under one caller\<close>

text \<open>A store between batches, open, with room and every queued task known.\<close>

definition quiet :: "'db store \<Rightarrow> bool" where
  "quiet s \<longleftrightarrow> \<not> stClosed s \<and> stFlight s = None \<and> length (stTasks s) < queueDepth \<and>
     (\<forall>t \<in> set (stTasks s). \<not> tkDone t)"

definition queued :: "('db \<Rightarrow> string + 'db) \<Rightarrow> 'db store \<Rightarrow> 'db task" where
  "queued fn s = \<lparr>tkId = stNext s, tkFn = fn, tkDone = False\<rparr>"

lemma Enqueue_quiet:
  assumes "quiet s"
  obtains s' where "Enqueue fn s = (None, s')" "stTasks s' = stTasks s @ [queued fn s]" "stDb s' = stDb s" "stFlight s' = None"
    "\<not> stClosed s'" "\<forall>t \<in> set (stTasks s'). \<not> tkDone t"
proof
  show "Enqueue fn s = (None, snd (Enqueue fn s))" "stTasks (snd (Enqueue fn s)) = stTasks s @ [queued fn s]"
    "stDb (snd (Enqueue fn s)) = stDb s" "stFlight (snd (Enqueue fn s)) = None" "\<not> stClosed (snd (Enqueue fn s))"
    "\<forall>t \<in> set (stTasks (snd (Enqueue fn s))). \<not> tkDone t"
    using assms by (auto simp: Enqueue_def enqueue_check_def enqueue_send_def quiet_def queued_def Let_def)
qed

lemma flush_quiet:
  assumes "stFlight s = None" "length (stTasks s) \<le> queueDepth" "stTasks s \<noteq> []"
  shows "stDb (flush fault s) = (if fault = TxOK then case run_batch 0 (stTasks s) (stDb s) of Inr db \<Rightarrow> db | Inl _ \<Rightarrow> stDb s else stDb s)"
    and "stTasks (flush fault s) = []" and "stFlight (flush fault s) = None" and "stClosed (flush fault s) = stClosed s"
proof -
  let ?s = "s\<lparr>stFlight := Some (stTasks s), stTasks := []\<rparr>"
  have f: "flush fault s = finish_batch fault ?s" "stFlight ?s = Some (stTasks s)"
    using take_all [OF assms(2,3)] by (simp_all add: flush_def)
  let ?P = "\<lambda>s'. stDb s' = (if fault = TxOK then case run_batch 0 (stTasks s) (stDb s) of Inr db \<Rightarrow> db | Inl _ \<Rightarrow> stDb s else stDb s)
     \<and> stTasks s' = [] \<and> stFlight s' = None \<and> stClosed s' = stClosed s"
  have "?P (finish_batch fault ?s)"
  proof (cases "fault = TxOK \<and> (\<exists>db. run_batch 0 (stTasks s) (stDb s) = Inr db)")
    case True
    then obtain db where "fault = TxOK" "run_batch 0 (stTasks s) (stDb s) = Inr db" by blast
    then show ?thesis by (simp add: finish_batch_def completeBatch_ok)
  next
    case False
    then have d: "(if fault = TxOK then case run_batch 0 (stTasks s) (stDb s) of Inr db \<Rightarrow> db | Inl _ \<Rightarrow> stDb s else stDb s) = stDb s"
      by (auto split: sum.split)
    have "stDb (finish_batch fault ?s) = stDb s \<and> stTasks (finish_batch fault ?s) = [] \<and> stFlight (finish_batch fault ?s) = None \<and>
        stClosed (finish_batch fault ?s) = stClosed s" (is ?Q)
    proof (rule finish_cases [OF f(2), of fault])
      fix db assume "fault = TxOK" "run_batch 0 (stTasks s) (stDb ?s) = Inr db"
      then show ?Q using False by simp
    qed simp
    then show ?thesis unfolding d .
  qed
  then show "stDb (flush fault s) = (if fault = TxOK then case run_batch 0 (stTasks s) (stDb s) of Inr db \<Rightarrow> db | Inl _ \<Rightarrow> stDb s else stDb s)"
    "stTasks (flush fault s) = []" "stFlight (flush fault s) = None" "stClosed (flush fault s) = stClosed s"
    unfolding f(1) by blast+
qed

section \<open>What load-closes stores\<close>

lemma run_queued: "run_batch i (ts @ [queued fn s]) db = (case run_batch i ts db of Inl e \<Rightarrow> Inl e
    | Inr db' \<Rightarrow> (case fn db' of Inl e \<Rightarrow> Inl (i + length ts, e) | Inr db2 \<Rightarrow> Inr db2))"
  by (induction ts arbitrary: i db) (auto simp: queued_def split: sum.split)

lemma enqueue_flush:
  assumes "quiet s"
  obtains s' where "Enqueue fn s = (None, s')" "stFlight s' = None" "stTasks s' = stTasks s @ [queued fn s]" "stDb s' = stDb s"
    "stDb (flush fault s') = (if fault = TxOK then case run_batch 0 (stTasks s @ [queued fn s]) (stDb s) of Inr db \<Rightarrow> db | Inl _ \<Rightarrow> stDb s else stDb s)"
    "length (stTasks s') + 1 < queueDepth \<Longrightarrow> quiet s'" "length (stTasks s) + 1 < queueDepth \<Longrightarrow> quiet (flush fault s')"
proof -
  obtain s' where s': "Enqueue fn s = (None, s')" "stTasks s' = stTasks s @ [queued fn s]" "stDb s' = stDb s" "stFlight s' = None"
    "\<not> stClosed s'" "\<forall>t \<in> set (stTasks s'). \<not> tkDone t" using Enqueue_quiet [OF assms] .
  have l: "length (stTasks s') \<le> queueDepth" "stTasks s' \<noteq> []" using assms s'(2) by (simp_all add: quiet_def)
  note f = flush_quiet [OF s'(4) l, of fault]
  show thesis
  proof (rule that [OF s'(1,4,2,3)])
    show "stDb (flush fault s') = (if fault = TxOK then case run_batch 0 (stTasks s @ [queued fn s]) (stDb s) of Inr db \<Rightarrow> db | Inl _ \<Rightarrow> stDb s else stDb s)"
      using f(1) by (simp only: s'(2,3))
  next
    assume "length (stTasks s') + 1 < queueDepth"
    then show "quiet s'" using s' by (simp add: quiet_def)
  next
    show "quiet (flush fault s')" using f s'(5) by (simp add: quiet_def queueDepth_def)
  qed
qed

lemma quiet_open: "quiet (Store_Open db)" by (simp add: quiet_def Store_Open_def queueDepth_def)

lemma put_closes_quiet:
  assumes "quiet s"
  shows "put_closes e t closes s =
     ((case leClose e of Some err \<Rightarrow> Inl (LClose err) | None \<Rightarrow> Inr ()),
      if leFault e = TxOK
      then case run_batch 0 (stTasks s @ [queued (UpsertDailyCloses (leRefuse e) t closes) s]) (stDb s) of Inr db \<Rightarrow> db | Inl _ \<Rightarrow> stDb s
      else stDb s)"
proof -
  obtain s' where s': "Enqueue (UpsertDailyCloses (leRefuse e) t closes) s = (None, s')"
    "stDb (flush (leFault e) s') = (if leFault e = TxOK then case run_batch 0 (stTasks s @ [queued (UpsertDailyCloses (leRefuse e) t closes) s]) (stDb s)
       of Inr db \<Rightarrow> db | Inl _ \<Rightarrow> stDb s else stDb s)"
    using enqueue_flush [OF assms, of "UpsertDailyCloses (leRefuse e) t closes" "leFault e"] by blast
  then show ?thesis by (simp add: put_closes_def split: option.split)
qed

text \<open>A committed batch of one task.\<close>

definition committed :: "tx_fault \<Rightarrow> (tables \<Rightarrow> string + tables) \<Rightarrow> tables \<Rightarrow> tables" where
  "committed fault fn db = (if fault = TxOK then case fn db of Inr db' \<Rightarrow> db' | Inl _ \<Rightarrow> db else db)"

lemma run_one: "(case run_batch 0 [queued fn s] db of Inr db \<Rightarrow> db | Inl _ \<Rightarrow> db) = (case fn db of Inr db' \<Rightarrow> db' | Inl _ \<Rightarrow> db)"
  by (simp add: queued_def split: sum.split)

lemma put_closes_empty:
  assumes "quiet s" "stTasks s = []"
  shows "put_closes e t closes s =
     ((case leClose e of Some err \<Rightarrow> Inl (LClose err) | None \<Rightarrow> Inr ()), committed (leFault e) (UpsertDailyCloses (leRefuse e) t closes) (stDb s))"
  unfolding put_closes_quiet [OF assms(1)] assms(2) append_Nil run_one committed_def ..

lemma put_closes_open:
  "put_closes e t closes (Store_Open db) =
     ((case leClose e of Some err \<Rightarrow> Inl (LClose err) | None \<Rightarrow> Inr ()), committed (leFault e) (UpsertDailyCloses (leRefuse e) t closes) db)"
proof -
  have "stTasks (Store_Open db) = []" "stDb (Store_Open db) = db" by (simp_all add: Store_Open_def)
  then show ?thesis using put_closes_empty [OF quiet_open] by simp
qed

text \<open>Without \<^verbatim>\<open>--replace\<close>.\<close>

lemma load_store_merge:
  "load_store e t False closes db =
     (case leRead e of
        Some err \<Rightarrow> (Inl (LRead err), db)
      | None \<Rightarrow> (case (if snd (DailyCloses db t) then CheckContinuity closes (fst (DailyCloses db t)) else Inr ()) of
            Inl err \<Rightarrow> (Inl (LReject err), db)
          | Inr _ \<Rightarrow> put_closes e t closes (Store_Open db)))"
  by (auto simp: load_store_def Let_def split: option.split prod.split bool.split sum.split)

text \<open>With it: the deletion in the batch of the closes, or committed alone by a tick before it.\<close>

lemma load_store_replace:
  "load_store e t True closes db =
     ((case leClose e of Some err \<Rightarrow> Inl (LClose err) | None \<Rightarrow> Inr ()),
      case leTick e of
        None \<Rightarrow> committed (leFault e) (\<lambda>db. bind_res (DeleteDailyCloses (leRefuseDelete e) t db) (UpsertDailyCloses (leRefuse e) t closes)) db
      | Some f \<Rightarrow> committed (leFault e) (UpsertDailyCloses (leRefuse e) t closes) (committed f (DeleteDailyCloses (leRefuseDelete e) t) db))"
proof -
  let ?del = "DeleteDailyCloses (leRefuseDelete e) t" and ?ins = "UpsertDailyCloses (leRefuse e) t closes"
  have o: "stTasks (Store_Open db) = []" "stDb (Store_Open db) = db" by (simp_all add: Store_Open_def)
  obtain s1 where s1: "Enqueue ?del (Store_Open db) = (None, s1)" "stFlight s1 = None" "stTasks s1 = [queued ?del (Store_Open db)]" "stDb s1 = db"
    "length (stTasks s1) + 1 < queueDepth \<Longrightarrow> quiet s1"
    using enqueue_flush [OF quiet_open, of ?del db TxOK] unfolding o append_Nil by blast
  have l: "load_store e t True closes db = put_closes e t closes (case leTick e of Some f \<Rightarrow> flush f s1 | None \<Rightarrow> s1)"
    by (simp add: load_store_def Let_def s1(1))
  show ?thesis
  proof (cases "leTick e")
    case None
    have i1: "quiet s1" using s1(3,5) by (simp add: queueDepth_def)
    have r: "(case run_batch 0 ([queued ?del (Store_Open db)] @ [queued ?ins s1]) db of Inr db \<Rightarrow> db | Inl _ \<Rightarrow> db) =
        (case bind_res (?del db) ?ins of Inr db' \<Rightarrow> db' | Inl _ \<Rightarrow> db)"
      unfolding run_queued by (cases "?del db") (simp_all add: queued_def split: sum.split)
    show ?thesis unfolding l None option.case put_closes_quiet [OF i1] s1(3,4) r committed_def ..
  next
    case (Some f)
    have "length (stTasks s1) \<le> queueDepth" "stTasks s1 \<noteq> []" by (simp_all add: s1(3) queueDepth_def)
    note fl = flush_quiet [OF s1(2) this, of f]
    have c: "stClosed s1 = False" using s1(3,5) by (simp add: quiet_def queueDepth_def)
    have "quiet (flush f s1)" using fl c by (simp add: quiet_def queueDepth_def)
    moreover have "stDb (flush f s1) = committed f ?del db"
      using fl(1) unfolding s1(3,4) run_one committed_def .
    ultimately show ?thesis unfolding l using put_closes_empty [of "flush f s1"] fl(2) by (simp add: Some)
  qed
qed

text \<open>What a run can leave: the rows of the ticker as they were or deleted, with the file over them or not.\<close>

definition gone :: "string \<Rightarrow> tables \<Rightarrow> tables" where
  "gone t db = db\<lparr>taCloses := filter (\<lambda>r. fst r \<noteq> t) (taCloses db)\<rparr>"

definition unharmed :: "load_env \<Rightarrow> close list \<Rightarrow> bool" where
  "unharmed e closes \<longleftrightarrow> leFault e = TxOK \<and> leTick e \<in> {None, Some TxOK} \<and> leRefuseDelete e = None \<and> (\<forall>c \<in> set closes. leRefuse e c = None)"

lemma upsert_cases: "UpsertDailyCloses refuse t closes db = Inr (put_all t closes db) \<or> (\<exists>err. UpsertDailyCloses refuse t closes db = Inl err)"
proof (cases "UpsertDailyCloses refuse t closes db")
  case (Inr db')
  have "fold_res (\<lambda>r db. exec (refuse r) (g r db)) cs x = Inr y \<Longrightarrow> y = fold g cs x" for g :: "close \<Rightarrow> tables \<Rightarrow> tables" and cs x y
    by (induction cs arbitrary: x) (auto simp: exec_def bind_res_Inr_iff split: option.splits sum.splits)
  from this [of "\<lambda>r db. db\<lparr>taCloses := put_by close_key (t, r) (taCloses db)\<rparr>" closes db db']
  show ?thesis using Inr by (simp add: UpsertDailyCloses_def put_all_def)
qed simp

lemma committed_cases: "committed f fn db = db \<or> f = TxOK \<and> fn db = Inr (committed f fn db)"
  by (auto simp: committed_def split: sum.split)

lemma delete_cases: "DeleteDailyCloses refused t db = Inr x \<Longrightarrow> x = gone t db"
  by (auto simp: DeleteDailyCloses_def exec_def gone_def split: option.splits)

lemma file_dates: "map_of (map close_pair cs) d = None \<longleftrightarrow> d \<notin> clsDate ` set cs"
  by (simp add: map_of_eq_None_iff image_image close_pair_def)

lemma load_store_leaves:
  assumes "load_store e t repl closes db = (r, db')"
  shows "(\<exists>err. r = Inl err \<and> db' = db \<and> (\<forall>x. err \<noteq> LClose x)) \<or>
    r = (case leClose e of Some err \<Rightarrow> Inl (LClose err) | None \<Rightarrow> Inr ()) \<and>
    (\<exists>base. (base = db \<or> repl \<and> base = gone t db) \<and> (db' = base \<or> db' = put_all t closes base)) \<and>
    (unharmed e closes \<longrightarrow> db' = put_all t closes (if repl then gone t db else db))"
proof -
  let ?ins = "UpsertDailyCloses (leRefuse e) t closes" and ?del = "DeleteDailyCloses (leRefuseDelete e) t"
  have put: "committed (leFault e) ?ins x = x \<or> committed (leFault e) ?ins x = put_all t closes x" for x
    using committed_cases [of "leFault e" ?ins x] upsert_cases [of "leRefuse e" t closes x] by auto
  have ok: "committed (leFault e) ?ins x = put_all t closes x" if "unharmed e closes" for x
    using that upsert_accepted [of closes "leRefuse e" t x] by (simp add: unharmed_def committed_def)
  have del: "?del x = Inr (gone t x)" if "unharmed e closes" for x
    using that by (simp add: unharmed_def DeleteDailyCloses_def exec_def gone_def)
  show ?thesis
  proof (cases repl)
    case False
    then have "load_store e t False closes db = (r, db')" using assms by simp
    then show ?thesis unfolding load_store_merge put_closes_open
      using False put [of db] ok [of db] by (auto split: option.splits sum.splits if_splits)
  next
    case True
    then have l: "r = (case leClose e of Some err \<Rightarrow> Inl (LClose err) | None \<Rightarrow> Inr ())" "db' = (case leTick e of
        None \<Rightarrow> committed (leFault e) (\<lambda>db. bind_res (?del db) ?ins) db | Some f \<Rightarrow> committed (leFault e) ?ins (committed f ?del db))"
      using assms load_store_replace [of e t closes db] by simp_all
    show ?thesis
    proof (cases "leTick e")
      case None
      then have d: "db' = committed (leFault e) (\<lambda>db. bind_res (?del db) ?ins) db" using l(2) by simp
      have "db' = db \<or> db' = put_all t closes (gone t db)"
        using committed_cases [of "leFault e" "\<lambda>db. bind_res (?del db) ?ins" db] upsert_cases [of "leRefuse e" t closes "gone t db"]
        by (auto simp: d [symmetric] bind_res_Inr_iff dest!: delete_cases)
      moreover have "unharmed e closes \<longrightarrow> db' = put_all t closes (gone t db)"
        using upsert_accepted [of closes "leRefuse e" t "gone t db"] del [of db] by (auto simp: d committed_def unharmed_def)
      ultimately show ?thesis using l(1) True by auto
    next
      case (Some f)
      let ?base = "committed f ?del db"
      have d: "db' = committed (leFault e) ?ins ?base" using l(2) Some by simp
      have "?base = db \<or> ?base = gone t db" using committed_cases [of f ?del db] by (auto dest: delete_cases)
      moreover have "?base = gone t db" if "unharmed e closes" using del [OF that] that Some by (simp add: unharmed_def committed_def)
      ultimately show ?thesis using l(1) True put [of ?base] ok [of ?base] d by metis
    qed
  qed
qed

subsection \<open>A file to load\<close>

definition demo_table :: tables where
  "demo_table = \<lparr>taCloses = [(''SPY'', \<lparr>clsDate = ''20260904'', clsClose = Fin 9\<rparr>)], taPositions = [], taPosSeq = 0, taPair = None\<rparr>"

definition demo_load :: load_args where
  "demo_load = \<lparr>laTicker = ''SPY'', laPath = ''spy.csv'', laFile = Some demo_csv, laReplace = True, laScan = scan_digits\<rparr>"

definition load_run :: "tx_fault option \<Rightarrow> tx_fault \<Rightarrow> load_env" where
  "load_run tick fault = \<lparr>leRefuseDelete = None, leRefuse = (\<lambda>_. None), leTick = tick, leFault = fault, leRead = None, leClose = None\<rparr>"

definition demo_rows :: "close list" where
  "demo_rows = [\<lparr>clsDate = ''20260910'', clsClose = f64_of_int 10\<rparr>, \<lparr>clsDate = ''20260911'', clsClose = f64_of_int 13\<rparr>]"

lemma demo_rows_parse: "ParseClosesCSV scan_digits demo_csv = Inr demo_rows"
  unfolding demo_rows_def by (rule demo_csv_parses)

lemma demo_rows_valid: "ValidateCloses demo_rows = Inr ()"
proof -
  have f: "f64_of_int 10 = Fin 10" "f64_of_int 13 = Fin 13" by (simp_all add: f64_of_int_def f64_simps)
  have q: "(Fin 13 - Fin 10) / Fin 10 = rnd (3 / 10)" by (simp add: minus_f64_def f64_simps)
  have m: "rnd (3 / 10) \<le> rnd (35 / 100)" "rnd (- (35 / 100)) \<le> rnd (3 / 10)" by (rule rnd_mono, simp)+
  have "plausible \<lparr>clsDate = ''20260910'', clsClose = Fin 10\<rparr> \<lparr>clsDate = ''20260911'', clsClose = Fin 13\<rparr>"
    using m by (auto simp: plausible_def q zero_f64_def MaxPlausibleReturn_def f64_simps rnd_minus less_f64_def)
  then show ?thesis by (simp add: demo_rows_def f ValidateCloses_def check_returns_iff del: check_returns.simps)
qed

lemmas demo_load_simps = demo_load_def load_run_def demo_rows_parse demo_rows_valid

text \<open>
  Property C37. What a run of \<^verbatim>\<open>load-closes\<close> leaves in the table, whatever the database and the writer's
  ticker do to it. Other tickers keep their closes. A run that rejects the file, or fails before the queue, leaves
  the database as it was. A run that reports a file as persisted has parsed and checked it, and the closes
  of its ticker are then the stored ones or, only with \<^verbatim>\<open>--replace\<close>, none, with all the dates of the file over them or no
  date of it. Where no statement is refused, the forced flush commits and a tick between the two calls of
  \<^verbatim>\<open>--replace\<close>, if any, commits too, the report is true: the file's closes on every date of the file, and elsewhere the
  stored ones, or nothing with \<^verbatim>\<open>--replace\<close>. The report alone does not say so: the fact after it is the failure.
\<close>

theorem load_closes_stored:
  assumes "cmdLoadCloses e a (Some (Inr db)) = (res, Some db')"
  shows "(\<forall>u d. u \<noteq> laTicker a \<longrightarrow> close_at db' u d = close_at db u d) \<and>
    (case res of
      Inr rep \<Rightarrow> lrPersisted rep \<and> (\<exists>b closes. laFile a = Some b \<and> ParseClosesCSV (laScan a) b = Inr closes \<and> ValidateCloses closes = Inr () \<and>
        (\<exists>base. (base = close_at db (laTicker a) \<or> laReplace a \<and> base = (\<lambda>_. None)) \<and>
           (close_at db' (laTicker a) = base \<or> close_at db' (laTicker a) = base ++ map_of (map close_pair closes))) \<and>
        (leFault e = TxOK \<and> leTick e \<in> {None, Some TxOK} \<and> leRefuseDelete e = None \<and> (\<forall>c \<in> set closes. leRefuse e c = None) \<longrightarrow>
           (\<forall>d. close_at db' (laTicker a) d = (if d \<in> clsDate ` set closes then map_of (map close_pair closes) d
              else if laReplace a then None else close_at db (laTicker a) d))))
    | Inl (LClose _) \<Rightarrow> True
    | Inl _ \<Rightarrow> db' = db)"
proof (cases "\<exists>b closes. laTicker a \<noteq> [] \<and> laPath a \<noteq> [] \<and> laFile a = Some b \<and> ParseClosesCSV (laScan a) b = Inr closes \<and> ValidateCloses closes = Inr ()")
  case False
  then obtain err where "res = Inl err" "db' = db" "\<forall>x. err \<noteq> LClose x"
    using assms by (auto simp: cmdLoadCloses_def Let_def split: if_splits option.splits sum.splits)
  then show ?thesis by (simp split: load_error.split)
next
  case True
  then obtain b closes where c: "laTicker a \<noteq> []" "laPath a \<noteq> []" "laFile a = Some b" "ParseClosesCSV (laScan a) b = Inr closes"
    "ValidateCloses closes = Inr ()" by blast
  let ?t = "laTicker a"
  obtain r where l: "load_store e ?t (laReplace a) closes db = (r, db')"
    "res = (case r of Inl err \<Rightarrow> Inl err | Inr _ \<Rightarrow> Inr (load_closes_report a closes True))"
    using assms c by (cases "load_store e ?t (laReplace a) closes db") (auto simp: cmdLoadCloses_def split: sum.splits)
  note at = close_at_put_all [OF parsed_dates_distinct [OF c(4)]]
  have over: "close_at (put_all ?t closes x) ?t = close_at x ?t ++ map_of (map close_pair closes)" for x
  proof (rule ext)
    fix d show "close_at (put_all ?t closes x) ?t d = (close_at x ?t ++ map_of (map close_pair closes)) d"
      using file_dates [of closes d] by (cases "map_of (map close_pair closes) d") (simp_all add: at map_add_def)
  qed
  have base: "close_at (gone ?t db) u d = (if u = ?t then None else close_at db u d)" for u d by (simp add: gone_def close_at_delete)
  from load_store_leaves [OF l(1)] show ?thesis
  proof
    assume "\<exists>err. r = Inl err \<and> db' = db \<and> (\<forall>x. err \<noteq> LClose x)"
    then show ?thesis by (auto simp: l(2) split: load_error.split)
  next
    assume r: "r = (case leClose e of Some err \<Rightarrow> Inl (LClose err) | None \<Rightarrow> Inr ()) \<and>
      (\<exists>base. (base = db \<or> laReplace a \<and> base = gone ?t db) \<and> (db' = base \<or> db' = put_all ?t closes base)) \<and>
      (unharmed e closes \<longrightarrow> db' = put_all ?t closes (if laReplace a then gone ?t db else db))"
    then obtain x where x: "x = db \<or> laReplace a \<and> x = gone ?t db" "db' = x \<or> db' = put_all ?t closes x" by blast
    have others: "\<forall>u d. u \<noteq> ?t \<longrightarrow> close_at db' u d = close_at db u d" using x by (auto simp: at base)
    show ?thesis
    proof (cases "leClose e")
      case None
      then have "res = Inr (load_closes_report a closes True)" using r l(2) by simp
      moreover have "lrPersisted (load_closes_report a closes True)" by (simp add: load_closes_report_def split: prod.split)
      moreover have "close_at x ?t = close_at db ?t \<or> laReplace a \<and> close_at x ?t = (\<lambda>_. None)" using x(1) by (auto simp: base)
      moreover have "close_at db' ?t = close_at x ?t \<or> close_at db' ?t = close_at x ?t ++ map_of (map close_pair closes)"
        using x(2) by (auto simp: over)
      moreover have "unharmed e closes \<longrightarrow> (\<forall>d. close_at db' ?t d = (if d \<in> clsDate ` set closes then map_of (map close_pair closes) d
              else if laReplace a then None else close_at db ?t d))"
        using r by (simp add: at base)
      ultimately show ?thesis using c(3-5) others unfolding unharmed_def by auto
    next
      case (Some err)
      then show ?thesis using r l(2) others by simp
    qed
  qed
qed

theorem load_closes_stored_witness:
  "case cmdLoadCloses (load_run (Some TxOK) TxOK) demo_load (Some (Inr demo_table)) of
     (Inr rep, Some db') \<Rightarrow> lrPersisted rep \<and> close_at db' ''SPY'' ''20260911'' = Some (f64_of_int 13) \<and> close_at db' ''SPY'' ''20260904'' = None
   | _ \<Rightarrow> False"
proof -
  let ?e = "load_run (Some TxOK) TxOK"
  have "\<exists>rep db'. cmdLoadCloses ?e demo_load (Some (Inr demo_table)) = (Inr rep, Some db')"
    using load_store_replace [of ?e "''SPY''" demo_rows demo_table] by (simp add: cmdLoadCloses_def Let_def demo_load_simps)
  then obtain rep db' where r: "cmdLoadCloses ?e demo_load (Some (Inr demo_table)) = (Inr rep, Some db')" by blast
  have "lrPersisted rep \<and> close_at db' ''SPY'' ''20260911'' = Some (f64_of_int 13) \<and> close_at db' ''SPY'' ''20260904'' = None"
    using load_closes_stored [OF r] by (auto simp: demo_load_simps demo_rows_def close_pair_def)
  then show ?thesis by (simp add: r)
qed

text \<open>
  Fact. The run does not learn whether its batch was committed. When the forced flush fails, a run
  of \<^verbatim>\<open>load-closes --replace\<close> on a good file still reports it persisted and replaced: the table then
  has the old history, or no history at all of the ticker if a tick of the writer committed the
  deletion first.
\<close>

theorem load_closes_claims:
  assumes "laTicker a \<noteq> []" "laPath a \<noteq> []" "laFile a = Some b" "ParseClosesCSV (laScan a) b = Inr closes" "ValidateCloses closes = Inr ()"
    "laReplace a" "leClose e = None" "leRefuseDelete e = None" "leFault e \<noteq> TxOK" "leTick e = None \<or> leTick e = Some TxOK"
  shows "\<exists>rep db'. cmdLoadCloses e a (Some (Inr db)) = (Inr rep, Some db') \<and> lrPersisted rep \<and> lrReplaced rep \<and>
    (\<forall>u d. close_at db' u d = (if leTick e = Some TxOK \<and> u = laTicker a then None else close_at db u d))"
proof -
  let ?gone = "gone (laTicker a) db"
  have "committed f (DeleteDailyCloses None (laTicker a)) db = ?gone" if "f = TxOK" for f
    using that by (simp add: committed_def DeleteDailyCloses_def exec_def gone_def)
  then have "load_store e (laTicker a) True closes db = (Inr (), if leTick e = Some TxOK then ?gone else db)"
    using assms(7-10) by (auto simp: load_store_replace committed_def)
  then have "cmdLoadCloses e a (Some (Inr db)) = (Inr (load_closes_report a closes True), Some (if leTick e = Some TxOK then ?gone else db))"
    using assms(1-6) by (auto simp: cmdLoadCloses_def Let_def)
  moreover have "lrPersisted (load_closes_report a closes True) \<and> lrReplaced (load_closes_report a closes True)"
    using assms(6) by (simp add: load_closes_report_def split: prod.split)
  ultimately show ?thesis by (auto simp: gone_def close_at_delete)
qed

theorem load_closes_claims_witness:
  "case cmdLoadCloses (load_run (Some TxOK) (TxCommit ''disk full'')) demo_load (Some (Inr demo_table)) of
     (Inr rep, Some db') \<Rightarrow> lrPersisted rep \<and> lrReplaced rep \<and> close_at db' ''SPY'' ''20260904'' = None \<and> close_at db' ''SPY'' ''20260911'' = None
   | _ \<Rightarrow> False"
proof -
  let ?e = "load_run (Some TxOK) (TxCommit ''disk full'')"
  obtain rep db' where r: "cmdLoadCloses ?e demo_load (Some (Inr demo_table)) = (Inr rep, Some db')" "lrPersisted rep" "lrReplaced rep"
    "\<forall>u d. close_at db' u d = (if leTick ?e = Some TxOK \<and> u = laTicker demo_load then None else close_at demo_table u d)"
    using load_closes_claims [of demo_load demo_csv demo_rows ?e demo_table] by (auto simp: demo_load_simps)
  have "close_at db' ''SPY'' d = None" for d using r(4) by (simp add: demo_load_def load_run_def)
  then show ?thesis using r(1-3) by simp
qed

section \<open>Adding a position\<close>

text \<open>
  Property C38. \<^verbatim>\<open>AddPosition\<close> on a quiet store with nothing queued always succeeds for a valid leg, whatever
  becomes of its transaction. Where the row is stored, the caller gets the row under the next id
  of the table; where the batch fails, the positions are unchanged and the caller is
  still given the leg as stored, with id 0 or with the id of the row that was rolled back.
\<close>

theorem add_position_reports:
  assumes "quiet s" "stTasks s = []" "leg_Validate l = None"
  shows "\<exists>l' s'. Store_AddPosition refused ts l fault s = (Inr l', s') \<and>
    lgId l' = (if refused = None \<and> (\<forall>e. fault \<noteq> TxBegin e) then taPosSeq (stDb s) + 1 else 0) \<and>
    taPositions (stDb s') = (if refused = None \<and> fault = TxOK then taPositions (stDb s) @ [l'] else taPositions (stDb s))"
proof -
  let ?ins = "insert_position refused ts l"
  obtain s' where s': "Enqueue ?ins s = (None, s')" "stDb (flush fault s') =
      (if fault = TxOK then case run_batch 0 ([] @ [queued ?ins s]) (stDb s) of Inr db \<Rightarrow> db | Inl _ \<Rightarrow> stDb s else stDb s)"
    using enqueue_flush [OF assms(1), of ?ins fault] unfolding assms(2) by blast
  have i: "(case task_sees fault s of Some db \<Rightarrow> if refused = None then taPosSeq db + 1 else 0 | None \<Rightarrow> 0) =
      (if refused = None \<and> (\<forall>e. fault \<noteq> TxBegin e) then taPosSeq (stDb s) + 1 else 0)"
    by (cases fault) (simp_all add: task_sees_def assms(2))
  let ?l = "l\<lparr>lgId := (if refused = None \<and> (\<forall>e. fault \<noteq> TxBegin e) then taPosSeq (stDb s) + 1 else 0), lgUpdatedAtMs := ts\<rparr>"
  have "Store_AddPosition refused ts l fault s = (Inr ?l, flush fault s')"
    unfolding Store_AddPosition_def assms(3) option.case s'(1) prod.case Let_def i ..
  moreover have "taPositions (stDb (flush fault s')) =
      (if refused = None \<and> fault = TxOK then taPositions (stDb s) @ [?l] else taPositions (stDb s))"
    unfolding s'(2) run_queued by (cases refused) (auto simp: insert_position_def exec_def)
  moreover have "lgId ?l = (if refused = None \<and> (\<forall>e. fault \<noteq> TxBegin e) then taPosSeq (stDb s) + 1 else 0)" by simp
  ultimately show ?thesis by blast
qed

definition demo_share :: leg where
  "demo_share = \<lparr>lgId = 0, lgKind = ''share'', lgShares = Fin 100, lgLegConId = 0, lgTradingClass = [], lgExpiry = [], lgRight = [],
     lgStrike = Fin 0, lgContracts = Fin 0, lgNote = [], lgUpdatedAtMs = 0\<rparr>"

theorem add_position_reports_witness:
  "case Store_AddPosition None 7 demo_share (TxCommit ''disk full'') (Store_Open demo_table) of
     (Inr l', s') \<Rightarrow> lgId l' = 1 \<and> taPositions (stDb s') = []
   | _ \<Rightarrow> False"
proof -
  have v: "leg_Validate demo_share = None"
    by (simp add: leg_Validate_def demo_share_def LegShare_def zero_f64_def Let_def)
  have o: "stTasks (Store_Open demo_table) = []" "stDb (Store_Open demo_table) = demo_table" by (simp_all add: Store_Open_def)
  obtain l' s' where r: "Store_AddPosition None 7 demo_share (TxCommit ''disk full'') (Store_Open demo_table) = (Inr l', s')"
    "lgId l' = (if None = (None :: string option) \<and> (\<forall>e. TxCommit ''disk full'' \<noteq> TxBegin e) then taPosSeq demo_table + 1 else 0)"
    "taPositions (stDb s') = (if None = (None :: string option) \<and> TxCommit ''disk full'' = TxOK then taPositions demo_table @ [l'] else taPositions demo_table)"
    using add_position_reports [OF quiet_open o(1) v, of None 7 "TxCommit ''disk full''"] unfolding o(2) by blast
  then show ?thesis by (simp add: demo_table_def)
qed

end
