(* ===== verification/Store_Log.thy ===== *)
theory Store_Log
  imports Ingest Systems
begin

text \<open>
  Package \<^verbatim>\<open>store\<close>, the master data log (\<^verbatim>\<open>masterlog.go\<close>): the table of data points, the export cursor, and
  the exporter that appends the rows past the cursor to the master CSV file and then advances the cursor in
  a transaction of its own. A stage of an export is a step, so that exports, submissions and failures
  interleave as they may. The CSV file is the list of its records, with a mark where a failing write cut one
  short; how a number is printed is an argument.
\<close>

section \<open>The log\<close>

definition MasterCSVHeader :: "string list" where
  "MasterCSVHeader = [''Id'', ''Timestamp'', ''Session'', ''Ticker'', ''Kind'', ''ConId'', ''Strike'', ''Right'',
     ''Expiry'', ''TradingClass'', ''IV'', ''Delta'', ''Gamma'', ''Vega'', ''Theta'', ''OI'',
     ''UndPrice'', ''Spot'', ''Source'', ''LinesUsed'', ''MsgRate'', ''SnapshotSpend'']"

type_synonym point_row = "int \<times> data_point"

text \<open>How \<^verbatim>\<open>strconv\<close> prints: an integer, and a float in the shortest form that reads back.\<close>

record printers =
  prInt :: "int \<Rightarrow> string"
  prFloat :: "f64 \<Rightarrow> string"

definition dataPointCSVRow :: "printers \<Rightarrow> point_row \<Rightarrow> string list" where
  "dataPointCSVRow pr r =
     (case r of (i, p) \<Rightarrow>
        [prInt pr i, prInt pr (dpTsMs p), dpSession p, dpTicker p, dpKind p, prInt pr (dpConId p),
         prFloat pr (dpStrike p), dpRight p, dpExpiry p, dpTradingClass p, prFloat pr (dpIV p), prFloat pr (dpDelta p),
         prFloat pr (dpGamma p), prFloat pr (dpVega p), prFloat pr (dpTheta p), prFloat pr (dpOI p),
         prFloat pr (dpUndPrice p), prFloat pr (dpSpot p), dpSource p, prInt pr (dpLinesUsed p),
         prFloat pr (dpMsgRate p), prFloat pr (dpSnapshotSpend p)])"

text \<open>
  An export has read the cursor, or the rows past it, or has written them; an export that found no
  row leaves a task that stamps the cursor.
\<close>

datatype export = ExRead int | ExWrite "point_row list" | ExAdvance int | ExTouch

text \<open>
  A write that fails may leave a \<open>Fragment\<close> of a record at the end of the file; the file is opened for
  appending, so the next record written becomes the rest of that line: \<open>Glued\<close>.
\<close>

datatype csv_line = Record "string list" | Fragment | Glued

fun append_records :: "csv_line list \<Rightarrow> string list list \<Rightarrow> csv_line list" where
  "append_records file [] = file"
| "append_records file (r # rs) =
     (if file \<noteq> [] \<and> last file = Fragment then butlast file @ Glued # map Record rs else file @ map Record (r # rs))"

definition cut_record :: "csv_line list \<Rightarrow> csv_line list" where
  "cut_record file = (if file \<noteq> [] \<and> last file = Fragment then file else file @ [Fragment])"

text \<open>\<open>mlSeq\<close> is the counter of \<^verbatim>\<open>AUTOINCREMENT\<close>, the cursor its last id and the time of its last update.\<close>

record master_log =
  mlPoints :: "point_row list"
  mlSeq :: int
  mlCursor :: "(int \<times> int) option"
  mlFile :: "csv_line list"
  mlExports :: "export list"

definition empty_log :: master_log where
  "empty_log = \<lparr>mlPoints = [], mlSeq = 0, mlCursor = None, mlFile = [], mlExports = []\<rparr>"

section \<open>Operations\<close>

definition last_id :: "master_log \<Rightarrow> int" where
  "last_id m = (case mlCursor m of None \<Rightarrow> 0 | Some (n, _) \<Rightarrow> n)"

definition insert_point :: "data_point \<Rightarrow> master_log \<Rightarrow> master_log" where
  "insert_point p m = m\<lparr>mlPoints := mlPoints m @ [(mlSeq m + 1, p)], mlSeq := mlSeq m + 1\<rparr>"

definition SubmitDataPoints :: "data_point list \<Rightarrow> master_log \<Rightarrow> master_log" where
  "SubmitDataPoints pts = fold insert_point pts"

definition rows_after :: "int \<Rightarrow> master_log \<Rightarrow> point_row list" where
  "rows_after n m = sort_key fst (filter (\<lambda>r. n < fst r) (mlPoints m))"

definition MasterLogStats :: "master_log \<Rightarrow> int \<times> nat" where
  "MasterLogStats m = (case mlCursor m of None \<Rightarrow> 0 | Some (_, t) \<Rightarrow> t, length (rows_after (last_id m) m))"

definition drop_export :: "export \<Rightarrow> master_log \<Rightarrow> master_log" where
  "drop_export x m = m\<lparr>mlExports := remove1 x (mlExports m)\<rparr>"

definition next_export :: "export \<Rightarrow> export \<Rightarrow> master_log \<Rightarrow> master_log" where
  "next_export x y m = m\<lparr>mlExports := y # remove1 x (mlExports m)\<rparr>"

definition read_cursor :: "master_log \<Rightarrow> master_log" where
  "read_cursor m = m\<lparr>mlExports := ExRead (last_id m) # mlExports m\<rparr>"

definition read_rows :: "int \<Rightarrow> master_log \<Rightarrow> master_log" where
  "read_rows n m =
     (let rows = rows_after n m
      in next_export (ExRead n) (if rows = [] then ExTouch else ExWrite rows) m)"

text \<open>The records of \<^verbatim>\<open>writeRows\<close>; where writing fails, \<open>k\<close> of them reach the file, and part of another one if the write cut it.\<close>

definition csv_records :: "printers \<Rightarrow> master_log \<Rightarrow> point_row list \<Rightarrow> string list list" where
  "csv_records pr m rows = (if mlFile m = [] then [MasterCSVHeader] else []) @ map (dataPointCSVRow pr) rows"

definition writeRows :: "printers \<Rightarrow> point_row list \<Rightarrow> master_log \<Rightarrow> master_log" where
  "writeRows pr rows m =
     next_export (ExWrite rows) (ExAdvance (fst (last rows))) (m\<lparr>mlFile := append_records (mlFile m) (csv_records pr m rows)\<rparr>)"

definition write_fails :: "printers \<Rightarrow> nat \<Rightarrow> bool \<Rightarrow> point_row list \<Rightarrow> master_log \<Rightarrow> master_log" where
  "write_fails pr k torn rows m =
     (let file = append_records (mlFile m) (take k (csv_records pr m rows))
      in drop_export (ExWrite rows)
           (m\<lparr>mlFile := (if torn \<and> k < length (csv_records pr m rows) then cut_record file else file)\<rparr>))"

definition advance_cursor :: "int \<Rightarrow> int \<Rightarrow> master_log \<Rightarrow> master_log" where
  "advance_cursor now n m = drop_export (ExAdvance n) (m\<lparr>mlCursor := Some (n, now)\<rparr>)"

definition touchCursor :: "int \<Rightarrow> master_log \<Rightarrow> master_log" where
  "touchCursor now m =
     drop_export ExTouch (m\<lparr>mlCursor := Some (case mlCursor m of None \<Rightarrow> (0, now) | Some (n, _) \<Rightarrow> (n, now))\<rparr>)"

text \<open>One export with nothing in between, as the exporter's loop runs it: the number of rows it reports.\<close>

definition ExportMasterCSV :: "printers \<Rightarrow> int \<Rightarrow> master_log \<Rightarrow> nat \<times> master_log" where
  "ExportMasterCSV pr now m =
     (let n = last_id m; rows = rows_after n m; m1 = read_rows n (read_cursor m)
      in if rows = [] then (0, touchCursor now m1)
         else (length rows, advance_cursor now (fst (last rows)) (writeRows pr rows m1)))"

section \<open>Runs\<close>

text \<open>
  An export may fail, or the process may stop, at any stage: \<open>lost\<close>. Whether a failing write may cut a record
  is a parameter of the runs.
\<close>

inductive log_step :: "printers \<Rightarrow> bool \<Rightarrow> master_log \<Rightarrow> master_log \<Rightarrow> bool" for pr cuts where
  submit: "log_step pr cuts m (SubmitDataPoints pts m)"
| start: "log_step pr cuts m (read_cursor m)"
| rows: "ExRead n \<in> set (mlExports m) \<Longrightarrow> log_step pr cuts m (read_rows n m)"
| written: "ExWrite rows \<in> set (mlExports m) \<Longrightarrow> log_step pr cuts m (writeRows pr rows m)"
| broken: "ExWrite rows \<in> set (mlExports m) \<Longrightarrow> (torn \<longrightarrow> cuts) \<Longrightarrow> log_step pr cuts m (write_fails pr k torn rows m)"
| advance: "ExAdvance n \<in> set (mlExports m) \<Longrightarrow> log_step pr cuts m (advance_cursor now n m)"
| touch: "ExTouch \<in> set (mlExports m) \<Longrightarrow> log_step pr cuts m (touchCursor now m)"
| lost: "log_step pr cuts m (drop_export x m)"

definition log_start :: "master_log \<Rightarrow> bool" where
  "log_start m \<longleftrightarrow> m = empty_log"

interpretation mlog: transition_system log_start "log_step pr cuts" for pr cuts .

section \<open>Nothing is skipped\<close>

text \<open>Every row up to an id is in the file, or among the given rows.\<close>

definition covered :: "printers \<Rightarrow> master_log \<Rightarrow> int \<Rightarrow> point_row list \<Rightarrow> bool" where
  "covered pr m n rows \<longleftrightarrow> n \<le> mlSeq m \<and>
     (\<forall>r \<in> set (mlPoints m). fst r \<le> n \<longrightarrow> r \<in> set rows \<or> Record (dataPointCSVRow pr r) \<in> set (mlFile m))"

definition export_ok :: "printers \<Rightarrow> master_log \<Rightarrow> export \<Rightarrow> bool" where
  "export_ok pr m x \<longleftrightarrow>
     (case x of ExRead n \<Rightarrow> covered pr m n [] | ExWrite rows \<Rightarrow> covered pr m (fst (last rows)) rows
      | ExAdvance n \<Rightarrow> covered pr m n [] | ExTouch \<Rightarrow> True)"

definition log_ok :: "printers \<Rightarrow> master_log \<Rightarrow> bool" where
  "log_ok pr m \<longleftrightarrow> map fst (mlPoints m) = map (\<lambda>i. int i + 1) [0..<length (mlPoints m)] \<and> mlSeq m = int (length (mlPoints m)) \<and>
     Fragment \<notin> set (mlFile m) \<and> covered pr m (last_id m) [] \<and> (\<forall>x \<in> set (mlExports m). export_ok pr m x)"

lemma append_whole: "Fragment \<notin> set file \<Longrightarrow> append_records file rs = file @ map Record rs"
  by (cases rs) (auto dest: last_in_set)

lemma ids_sorted: "map fst (mlPoints m) = map (\<lambda>i. int i + 1) [0..<length (mlPoints m)] \<Longrightarrow> sorted (map fst (mlPoints m))"
  by (simp add: sorted_iff_nth_mono)

text \<open>Growing the file or the table keeps what is covered.\<close>

lemma covered_mono:
  assumes "covered pr m n rows" "mlSeq m \<le> mlSeq m'" "set (mlFile m) \<subseteq> set (mlFile m')"
    "\<forall>r \<in> set (mlPoints m'). r \<in> set (mlPoints m) \<or> mlSeq m < fst r"
  shows "covered pr m' n rows"
  using assms unfolding covered_def by (metis order.trans leD subsetD order.strict_trans1)

lemma log_ok_mono:
  assumes "log_ok pr m" "mlPoints m' = mlPoints m" "mlSeq m' = mlSeq m" "set (mlFile m) \<subseteq> set (mlFile m')" "Fragment \<notin> set (mlFile m')"
    "covered pr m' (last_id m') []" "\<forall>x \<in> set (mlExports m'). x \<in> set (mlExports m) \<or> export_ok pr m' x"
  shows "log_ok pr m'"
proof -
  have c: "covered pr m' n rows" if "covered pr m n rows" for n rows
    by (rule covered_mono [OF that]) (simp_all add: assms(2-4))
  have "export_ok pr m' x" if "export_ok pr m x" for x using that c by (auto simp: export_ok_def split: export.splits)
  then show ?thesis using assms unfolding log_ok_def by metis
qed

lemma insert_point_ok: assumes "log_ok pr m" shows "log_ok pr (insert_point p m)"
proof -
  have seq: "mlSeq m = int (length (mlPoints m))" using assms by (simp add: log_ok_def)
  have c: "covered pr (insert_point p m) n rows" if "covered pr m n rows" for n rows
    by (rule covered_mono [OF that]) (auto simp: insert_point_def)
  have "export_ok pr (insert_point p m) x" if "export_ok pr m x" for x
    using that c by (auto simp: export_ok_def split: export.splits)
  moreover have "last_id (insert_point p m) = last_id m" "mlExports (insert_point p m) = mlExports m"
    by (simp_all add: last_id_def insert_point_def)
  ultimately show ?thesis using assms c seq unfolding log_ok_def by (auto simp: insert_point_def)
qed

lemma SubmitDataPoints_ok: "log_ok pr m \<Longrightarrow> log_ok pr (SubmitDataPoints pts m)"
  unfolding SubmitDataPoints_def by (induction pts arbitrary: m) (simp_all add: insert_point_ok)

lemma rows_after_eq: "log_ok pr m \<Longrightarrow> rows_after n m = filter (\<lambda>r. n < fst r) (mlPoints m)"
  unfolding rows_after_def log_ok_def by (intro sort_key_id_if_sorted sorted_filter ids_sorted) blast

lemma rows_after_last:
  assumes "log_ok pr m" "rows_after n m \<noteq> []"
  shows "fst (last (rows_after n m)) \<le> mlSeq m" "\<And>r. r \<in> set (rows_after n m) \<Longrightarrow> fst r \<le> fst (last (rows_after n m))"
proof -
  have s: "sorted (map fst (rows_after n m))" by (simp add: rows_after_def)
  have "last (rows_after n m) \<in> set (mlPoints m)" using last_in_set [OF assms(2)] by (auto simp: rows_after_def)
  then have "fst (last (rows_after n m)) \<in> set (map fst (mlPoints m))" by simp
  also have "map fst (mlPoints m) = map (\<lambda>i. int i + 1) [0..<length (mlPoints m)]" using assms(1) by (simp add: log_ok_def)
  finally have "fst (last (rows_after n m)) \<le> int (length (mlPoints m))" by auto
  then show "fst (last (rows_after n m)) \<le> mlSeq m" using assms(1) by (simp add: log_ok_def)
  fix r assume "r \<in> set (rows_after n m)"
  then obtain i where i: "i < length (rows_after n m)" "r = rows_after n m ! i" by (metis in_set_conv_nth)
  have "map fst (rows_after n m) ! i \<le> map fst (rows_after n m) ! (length (rows_after n m) - 1)"
    using i(1) by (intro sorted_nth_mono [OF s]) auto
  then show "fst r \<le> fst (last (rows_after n m))" using i by (simp add: last_conv_nth [OF assms(2)])
qed

lemma read_rows_covers:
  assumes "log_ok pr m" "covered pr m n []" "rows_after n m \<noteq> []"
  shows "covered pr m (fst (last (rows_after n m))) (rows_after n m)"
  using assms rows_after_last(1) [OF assms(1,3)] unfolding covered_def rows_after_eq [OF assms(1)] by auto

lemma log_step_ok: assumes "log_step pr False m m'" "log_ok pr m" shows "log_ok pr m'"
proof -
  have w: "append_records (mlFile m) rs = mlFile m @ map Record rs" "Fragment \<notin> set (mlFile m)" for rs
    using assms(2) append_whole by (auto simp: log_ok_def)
  have l: "covered pr m (last_id m) []" using assms(2) by (simp add: log_ok_def)
  note mono = log_ok_mono [OF assms(2)]
  from assms(1) show ?thesis
  proof cases
    case submit
    then show ?thesis using assms(2) by (simp add: SubmitDataPoints_ok)
  next
    case start
    show ?thesis unfolding start
      using l w(2) by (intro mono) (auto simp: read_cursor_def export_ok_def covered_def last_id_def)
  next
    case (rows n)
    then have c: "covered pr m n []" using assms(2) by (auto simp: log_ok_def export_ok_def)
    have same: "covered pr m' k ys = covered pr m k ys" "last_id m' = last_id m" for k ys
      by (simp_all add: rows(1) read_rows_def next_export_def covered_def last_id_def Let_def)
    show ?thesis
    proof (rule mono)
      show "\<forall>x \<in> set (mlExports m'). x \<in> set (mlExports m) \<or> export_ok pr m' x"
        using read_rows_covers [OF assms(2) c] unfolding export_ok_def same
        by (auto simp: rows(1) read_rows_def next_export_def Let_def dest: set_remove1_subset [THEN subsetD])
    qed (use l w(2) in \<open>simp_all add: same, simp_all add: rows(1) read_rows_def next_export_def Let_def\<close>)
  next
    case (written rows)
    then have c: "covered pr m (fst (last rows)) rows" using assms(2) by (auto simp: log_ok_def export_ok_def)
    then have "covered pr m' (fst (last rows)) []"
      by (auto simp: written(1) writeRows_def next_export_def csv_records_def covered_def w)
    moreover have "covered pr m' (last_id m') []"
      using l by (auto simp: written(1) writeRows_def next_export_def covered_def last_id_def w)
    ultimately show ?thesis using w(2)
      by (intro mono) (auto simp: written(1) writeRows_def next_export_def export_ok_def w dest: set_remove1_subset [THEN subsetD])
  next
    case (broken rows torn k)
    then have m': "m' = drop_export (ExWrite rows) (m\<lparr>mlFile := mlFile m @ map Record (take k (csv_records pr m rows))\<rparr>)"
      by (simp add: write_fails_def Let_def w)
    have "covered pr m' (last_id m') []"
      using l by (auto simp: m' drop_export_def covered_def last_id_def)
    then show ?thesis using w(2) by (intro mono) (auto simp: m' drop_export_def dest: set_remove1_subset [THEN subsetD])
  next
    case (advance n now)
    then have "covered pr m n []" using assms(2) by (auto simp: log_ok_def export_ok_def)
    then have "covered pr m' (last_id m') []" by (auto simp: advance(1) advance_cursor_def drop_export_def covered_def last_id_def)
    then show ?thesis using w(2)
      by (intro mono) (auto simp: advance(1) advance_cursor_def drop_export_def dest: set_remove1_subset [THEN subsetD])
  next
    case (touch now)
    have "covered pr m' (last_id m') []"
      using l by (auto simp: touch(1) touchCursor_def drop_export_def covered_def last_id_def split: option.splits)
    then show ?thesis using w(2)
      by (intro mono) (auto simp: touch(1) touchCursor_def drop_export_def dest: set_remove1_subset [THEN subsetD])
  next
    case (lost x)
    have "covered pr m' (last_id m') []" using l by (auto simp: lost drop_export_def covered_def last_id_def)
    then show ?thesis using w(2) by (intro mono) (auto simp: lost drop_export_def dest: set_remove1_subset [THEN subsetD])
  qed
qed

lemma log_reachable_ok: "mlog.reachable pr False m \<Longrightarrow> log_ok pr m"
proof (erule mlog.invariant)
  show "log_ok pr m" if "log_start m" for m
    using that by (simp add: log_start_def log_ok_def empty_log_def covered_def last_id_def)
qed (rule log_step_ok)

section \<open>The contract of the export\<close>

text \<open>
  Property C12. The contract of the exporter, "never skip": in every run in which a failing write leaves whole
  records, whatever exports overlap, fail or are cut off between the file and the cursor, each row up to
  the cursor is in the master CSV, so the next export, which starts past the cursor, misses nothing. The
  ids are the positions in the table.
\<close>

theorem master_never_skips:
  assumes "mlog.reachable pr False m"
  shows "(\<forall>r \<in> set (mlPoints m). fst r \<le> last_id m \<longrightarrow> Record (dataPointCSVRow pr r) \<in> set (mlFile m)) \<and>
    map fst (mlPoints m) = map (\<lambda>i. int i + 1) [0..<length (mlPoints m)] \<and>
    set (rows_after (last_id m) m) = {r \<in> set (mlPoints m). \<not> fst r \<le> last_id m}"
  using log_reachable_ok [OF assms] by (auto simp: log_ok_def covered_def rows_after_def)

text \<open>One point, and an export that is cut off before it advances the cursor.\<close>

definition demo_printers :: printers where "demo_printers = \<lparr>prInt = (\<lambda>_. ''1''), prFloat = (\<lambda>_. ''0'')\<rparr>"

lemma one_export_reachable:
  "mlog.reachable pr cuts (read_rows 0 (read_cursor (SubmitDataPoints [p] empty_log)))"
proof -
  have "mlog.reachable pr cuts empty_log" by (rule mlog.reachable.start) (simp add: log_start_def)
  then have "mlog.reachable pr cuts (SubmitDataPoints [p] empty_log)" by (rule mlog.reachable.move) (rule log_step.submit)
  then have "mlog.reachable pr cuts (read_cursor (SubmitDataPoints [p] empty_log))" by (rule mlog.reachable.move) (rule log_step.start)
  then show ?thesis
    by (rule mlog.reachable.move) (rule log_step.rows, simp add: read_cursor_def SubmitDataPoints_def insert_point_def last_id_def empty_log_def)
qed

lemma one_export:
  "read_rows 0 (read_cursor (SubmitDataPoints [p] empty_log)) =
     \<lparr>mlPoints = [(1, p)], mlSeq = 1, mlCursor = None, mlFile = [], mlExports = [ExWrite [(1, p)]]\<rparr>"
  by (simp add: read_rows_def read_cursor_def SubmitDataPoints_def insert_point_def last_id_def empty_log_def rows_after_def
      next_export_def Let_def)

theorem master_never_skips_witness:
  "let m = advance_cursor 9 1 (writeRows demo_printers [(1, zero_point)] (read_rows 0 (read_cursor (SubmitDataPoints [zero_point] empty_log))))
   in last_id m = 1 \<and> Record (dataPointCSVRow demo_printers (1, zero_point)) \<in> set (mlFile m) \<and> rows_after 1 m = []"
proof -
  let ?m1 = "read_rows 0 (read_cursor (SubmitDataPoints [zero_point] empty_log))"
  let ?m2 = "writeRows demo_printers [(1, zero_point)] ?m1"
  let ?m = "advance_cursor 9 1 ?m2"
  have "mlog.reachable demo_printers False ?m2"
    by (rule mlog.reachable.move [OF one_export_reachable]) (rule log_step.written, simp add: one_export)
  then have r: "mlog.reachable demo_printers False ?m"
    by (rule mlog.reachable.move) (rule log_step.advance, simp add: one_export writeRows_def next_export_def)
  have m: "last_id ?m = 1" "mlPoints ?m = [(1, zero_point)]"
    by (simp_all add: one_export writeRows_def next_export_def advance_cursor_def drop_export_def last_id_def)
  have f: "Record (dataPointCSVRow demo_printers (1, zero_point)) \<in> set (mlFile ?m)"
    "set (rows_after (last_id ?m) ?m) = {r \<in> set (mlPoints ?m). \<not> fst r \<le> last_id ?m}"
    using master_never_skips [OF r] by (simp_all add: m)
  have "set (rows_after (last_id ?m) ?m) = {}" unfolding f(2) unfolding m by auto
  then have "rows_after 1 ?m = []" by (simp add: m)
  with f(1) show ?thesis by (simp add: m Let_def)
qed

text \<open>
  Fact. A quiet export brings the file up to date: it reports the rows that were pending, afterwards
  none is, every row of the log is in the file, and the log itself is untouched.
\<close>

theorem export_completes:
  assumes "mlog.reachable pr False m" "ExportMasterCSV pr now m = (n, m')"
  shows "n = snd (MasterLogStats m) \<and> snd (MasterLogStats m') = 0 \<and> fst (MasterLogStats m') = now \<and> mlPoints m' = mlPoints m \<and>
    (\<forall>r \<in> set (mlPoints m). Record (dataPointCSVRow pr r) \<in> set (mlFile m'))"
proof -
  note ok = log_reachable_ok [OF assms(1)]
  let ?n = "last_id m" and ?rows = "rows_after (last_id m) m"
  let ?m1 = "read_rows ?n (read_cursor m)"
  have cov: "covered pr m ?n []" and frag: "Fragment \<notin> set (mlFile m)" using ok by (simp_all add: log_ok_def)
  have m1: "mlPoints ?m1 = mlPoints m" "mlFile ?m1 = mlFile m" "mlCursor ?m1 = mlCursor m"
    by (simp_all add: read_rows_def next_export_def read_cursor_def Let_def)
  show ?thesis
  proof (cases "?rows = []")
    case True
    have m': "n = 0" "m' = touchCursor now ?m1" using assms(2) True by (simp_all add: ExportMasterCSV_def Let_def)
    have i: "mlPoints m' = mlPoints m" "mlFile m' = mlFile m"
      by (simp_all add: m'(2) touchCursor_def drop_export_def m1)
    have "mlCursor m' = Some (case mlCursor m of None \<Rightarrow> (0, now) | Some (k, _) \<Rightarrow> (k, now))"
      by (simp add: m'(2) touchCursor_def drop_export_def m1)
    also have "\<dots> = Some (?n, now)" by (simp add: last_id_def split: option.split)
    finally have t: "mlCursor m' = Some (?n, now)" .
    then have l: "last_id m' = ?n" by (simp add: last_id_def [of m'])
    have "rows_after (last_id m') m' = []" using True by (simp add: rows_after_def i l)
    moreover have "fst r \<le> ?n" if "r \<in> set (mlPoints m)" for r
      using True that by (auto simp: rows_after_eq [OF ok] filter_empty_conv)
    ultimately show ?thesis using t cov True by (auto simp: MasterLogStats_def m'(1) i covered_def)
  next
    case False
    let ?k = "fst (last ?rows)"
    have m': "n = length ?rows" "m' = advance_cursor now ?k (writeRows pr ?rows ?m1)"
      using assms(2) False by (simp_all add: ExportMasterCSV_def Let_def)
    have i: "mlCursor m' = Some (?k, now)" "mlPoints m' = mlPoints m"
      "mlFile m' = mlFile m @ map Record (csv_records pr ?m1 ?rows)"
      by (simp_all add: m' advance_cursor_def writeRows_def drop_export_def next_export_def m1 append_whole [OF frag])
    have le: "fst r \<le> ?k" if "r \<in> set (mlPoints m)" for r
    proof (cases "?n < fst r")
      case True
      then show ?thesis using rows_after_last(2) [OF ok False, of r] that by (simp add: rows_after_eq [OF ok])
    next
      case below: False
      have "last ?rows \<in> set ?rows" using last_in_set [OF False] .
      then have "?n < ?k" by (simp add: rows_after_def)
      with below show ?thesis by simp
    qed
    then have "rows_after ?k m' = []" by (auto simp: rows_after_def i filter_empty_conv not_less)
    moreover have "Record (dataPointCSVRow pr r) \<in> set (mlFile m')" if "r \<in> set (mlPoints m)" for r
    proof (cases "?n < fst r")
      case True
      then have "r \<in> set ?rows" using that by (simp add: rows_after_eq [OF ok])
      then show ?thesis by (simp add: i csv_records_def)
    next
      case below: False
      then show ?thesis using cov that by (simp add: covered_def i)
    qed
    ultimately show ?thesis by (simp add: MasterLogStats_def m'(1) i last_id_def)
  qed
qed

theorem export_completes_witness:
  "case ExportMasterCSV demo_printers 9 (SubmitDataPoints [zero_point] empty_log) of
     (n, m') \<Rightarrow> n = 1 \<and> MasterLogStats m' = (9, 0) \<and> Record (dataPointCSVRow demo_printers (1, zero_point)) \<in> set (mlFile m')"
proof -
  let ?m = "SubmitDataPoints [zero_point] empty_log"
  have "mlog.reachable demo_printers False empty_log" by (rule mlog.reachable.start) (simp add: log_start_def)
  then have r: "mlog.reachable demo_printers False ?m" by (rule mlog.reachable.move) (rule log_step.submit)
  obtain n m' where e: "ExportMasterCSV demo_printers 9 ?m = (n, m')" by fastforce
  have m: "mlPoints ?m = [(1, zero_point)]" "snd (MasterLogStats ?m) = 1"
    by (simp_all add: SubmitDataPoints_def insert_point_def empty_log_def MasterLogStats_def last_id_def rows_after_def)
  from export_completes [OF r e] show ?thesis unfolding e by (auto simp: m prod_eq_iff)
qed

text \<open>
  Property C39. A failing write that cuts a record short breaks the contract: the next export appends its first
  row to the unfinished line, and the cursor passes that row although the file never holds its record.
\<close>

theorem torn_row_skipped:
  "\<exists>m. mlog.reachable pr True m \<and> (\<exists>r \<in> set (mlPoints m). fst r \<le> last_id m \<and> Record (dataPointCSVRow pr r) \<notin> set (mlFile m))"
proof -
  let ?p = "(1, zero_point)"
  let ?m1 = "read_rows 0 (read_cursor (SubmitDataPoints [zero_point] empty_log))"
  let ?m2 = "write_fails pr 1 True [?p] ?m1"
  let ?m3 = "read_rows 0 (read_cursor ?m2)"
  let ?m4 = "writeRows pr [?p] ?m3"
  let ?m5 = "advance_cursor 0 1 ?m4"
  have m2: "?m2 = \<lparr>mlPoints = [?p], mlSeq = 1, mlCursor = None, mlFile = [Record MasterCSVHeader, Fragment], mlExports = []\<rparr>"
    by (simp add: one_export write_fails_def drop_export_def csv_records_def cut_record_def Let_def)
  have m3: "?m3 = \<lparr>mlPoints = [?p], mlSeq = 1, mlCursor = None, mlFile = [Record MasterCSVHeader, Fragment], mlExports = [ExWrite [?p]]\<rparr>"
    unfolding m2 by (simp add: read_rows_def read_cursor_def last_id_def rows_after_def next_export_def Let_def)
  have m4: "?m4 = \<lparr>mlPoints = [?p], mlSeq = 1, mlCursor = None, mlFile = [Record MasterCSVHeader, Glued], mlExports = [ExAdvance 1]\<rparr>"
    unfolding m3 by (simp add: writeRows_def next_export_def csv_records_def)
  let ?final = "\<lparr>mlPoints = [?p], mlSeq = 1, mlCursor = Some (1, 0), mlFile = [Record MasterCSVHeader, Glued], mlExports = []\<rparr>"
  have m5: "?m5 = ?final"
    unfolding m4 by (simp add: advance_cursor_def drop_export_def)
  have "mlog.reachable pr True ?m2"
    by (rule mlog.reachable.move [OF one_export_reachable]) (rule log_step.broken, simp_all add: one_export)
  then have "mlog.reachable pr True (read_cursor ?m2)" by (rule mlog.reachable.move) (rule log_step.start)
  then have "mlog.reachable pr True ?m3"
    by (rule mlog.reachable.move) (rule log_step.rows, unfold m2, simp add: read_cursor_def last_id_def)
  then have "mlog.reachable pr True ?m4" by (rule mlog.reachable.move) (rule log_step.written, unfold m3, simp)
  then have "mlog.reachable pr True ?m5" by (rule mlog.reachable.move) (rule log_step.advance, unfold m4, simp)
  then have "mlog.reachable pr True ?final" unfolding m5 .
  moreover have "dataPointCSVRow pr ?p \<noteq> MasterCSVHeader"
    by (simp add: dataPointCSVRow_def MasterCSVHeader_def zero_point_def)
  ultimately show ?thesis by (intro exI [of _ ?final]) (simp add: last_id_def)
qed

end
