(* ===== verification/Store_Chain.thy ===== *)
theory Store_Chain
  imports Ingest Service_Boot Store_Rows Systems "HOL-Library.AList"
begin

text \<open>
  Package \<^verbatim>\<open>store\<close>, the tables a restart recovers from: contracts, open interest, prices, computation logs
  and the latest computation per contract (\<^verbatim>\<open>store.go\<close>, \<^verbatim>\<open>garch.go\<close>, \<^verbatim>\<open>schema.go\<close>), the read at boot
  (\<^verbatim>\<open>boot.go\<close>) and the clean-up of foreign placeholder ids (\<^verbatim>\<open>migrate.go\<close>). A statement changes the rows
  its SQL names; whether the database refuses it for a reason of its own is an argument. Foreign keys
  are enforced, as the pragma of the schema asks. The columns added by older migrations and the
  exposure snapshots are not modelled.
\<close>

section \<open>Tables\<close>

text \<open>
  A contract row has no quotes and no open interest; the latter has a table keyed by contract and date.
\<close>

record chain_tables =
  ctUnder :: "string \<rightharpoonup> underlying_state"
  ctContracts :: "contract list"
  ctOI :: "((int \<times> string) \<times> f64 \<times> string) list"
  ctLogs :: "computation_log list"
  ctState :: "(int \<times> computation_log) list"

definition empty_tables :: chain_tables where
  "empty_tables = \<lparr>ctUnder = Map.empty, ctContracts = [], ctOI = [], ctLogs = [], ctState = []\<rparr>"

definition has_contract :: "int \<Rightarrow> chain_tables \<Rightarrow> bool" where
  "has_contract i db \<longleftrightarrow> i \<in> cConId ` set (ctContracts db)"

section \<open>Writes\<close>

definition UpsertUnderlying :: "string option \<Rightarrow> int \<Rightarrow> string \<Rightarrow> f64 \<Rightarrow> f64 \<Rightarrow> chain_tables \<Rightarrow> string + chain_tables" where
  "UpsertUnderlying refused ts t spot iv db =
     (case refused of
        Some e \<Rightarrow> Inl e
      | None \<Rightarrow> Inr (db\<lparr>ctUnder := (ctUnder db)(t \<mapsto> \<lparr>usSpot = spot, usBaselineIV = iv, usUpdatedMs = ts\<rparr>)\<rparr>))"

definition contract_row :: "contract \<Rightarrow> contract" where
  "contract_row c = c\<lparr>cMultiplier := (if feq (cMultiplier c) 0 then DefaultMultiplier else cMultiplier c),
     cOpenInterest := 0, cBid := 0, cAsk := 0\<rparr>"

definition upsert_contract :: "(contract \<Rightarrow> string option) \<Rightarrow> string \<Rightarrow> string \<Rightarrow> contract \<Rightarrow> chain_tables \<Rightarrow> string + chain_tables" where
  "upsert_contract refuse date source c db =
     (if cRight c \<noteq> ''C'' \<and> cRight c \<noteq> ''P'' then Inl ''CHECK constraint failed''
      else case refuse c of
        Some e \<Rightarrow> Inl e
      | None \<Rightarrow>
          let db1 = db\<lparr>ctContracts := put_by cConId (contract_row c) (ctContracts db)\<rparr>
          in Inr (if cOpenInterest c > 0
                  then db1\<lparr>ctOI := AList.update (cConId c, date) (cOpenInterest c, source) (ctOI db1)\<rparr> else db1))"

definition UpsertContractsSource ::
  "(contract \<Rightarrow> string option) \<Rightarrow> string \<Rightarrow> contract list \<Rightarrow> string \<Rightarrow> chain_tables \<Rightarrow> string + chain_tables" where
  "UpsertContractsSource refuse date cs source = fold_res (upsert_contract refuse date source) cs"

text \<open>An insert into the logs, with the foreign key of the row and the trigger \<^verbatim>\<open>update_latest_state\<close>.\<close>

definition insert_log :: "(computation_log \<Rightarrow> string option) \<Rightarrow> computation_log \<Rightarrow> chain_tables \<Rightarrow> string + chain_tables" where
  "insert_log refuse l db =
     (if \<not> has_contract (lgConId l) db then Inl ''FOREIGN KEY constraint failed''
      else case refuse l of
        Some e \<Rightarrow> Inl e
      | None \<Rightarrow> Inr (db\<lparr>ctLogs := ctLogs db @ [l\<lparr>lgTickType := 13\<rparr>],
                      ctState := AList.update (lgConId l) (l\<lparr>lgTickType := 13\<rparr>) (ctState db)\<rparr>))"

definition SubmitComputationLogs ::
  "(computation_log \<Rightarrow> string option) \<Rightarrow> computation_log list \<Rightarrow> chain_tables \<Rightarrow> string + chain_tables" where
  "SubmitComputationLogs refuse logs = fold_res (insert_log refuse) logs"

section \<open>The clean-up of placeholder ids\<close>

definition foreign_ids :: "chain_tables \<Rightarrow> int list" where
  "foreign_ids db = map cConId (filter (\<lambda>c. cConId c < 0 \<and> \<not> ConIdMatchesTicker (cConId c) (cTicker c)) (ctContracts db))"

definition delete_id :: "int \<Rightarrow> chain_tables \<Rightarrow> chain_tables" where
  "delete_id i db =
     (let db1 = db\<lparr>ctOI := filter (\<lambda>r. fst (fst r) \<noteq> i) (ctOI db)\<rparr>;
          db2 = db1\<lparr>ctLogs := filter (\<lambda>l. lgConId l \<noteq> i) (ctLogs db1)\<rparr>;
          db3 = db2\<lparr>ctState := filter (\<lambda>r. fst r \<noteq> i) (ctState db2)\<rparr>
      in db3\<lparr>ctContracts := filter (\<lambda>c. cConId c \<noteq> i) (ctContracts db3)\<rparr>)"

text \<open>One transaction: it fails as a whole (\<open>fault\<close>) or deletes the rows of every foreign id.\<close>

definition migrate_ids :: "string option \<Rightarrow> chain_tables \<Rightarrow> string + chain_tables" where
  "migrate_ids fault db =
     (if foreign_ids db = [] then Inr db
      else case fault of Some e \<Rightarrow> Inl e | None \<Rightarrow> Inr (fold delete_id (foreign_ids db) db))"

section \<open>The read at boot\<close>

definition oi_dates :: "int \<Rightarrow> chain_tables \<Rightarrow> string list" where
  "oi_dates i db = map (snd \<circ> fst) (filter (\<lambda>r. fst (fst r) = i) (ctOI db))"

definition latest_oi :: "int \<Rightarrow> chain_tables \<Rightarrow> f64" where
  "latest_oi i db =
     (case oi_dates i db of
        [] \<Rightarrow> 0
      | d # ds \<Rightarrow> (case map_of (ctOI db) (i, fold max ds d) of Some (oi, _) \<Rightarrow> oi | None \<Rightarrow> 0))"

definition boot_row :: "chain_tables \<Rightarrow> contract \<Rightarrow> contract" where
  "boot_row db c = c\<lparr>cMultiplier := (if cMultiplier c > 0 then cMultiplier c else DefaultMultiplier),
     cOpenInterest := latest_oi (cConId c) db\<rparr>"

definition boot_key :: "contract \<Rightarrow> string \<times> (nat \<times> real) \<times> string \<times> string" where
  "boot_key c = (cTicker c, fkey (cStrike c), cRight c, cExpiryDate c)"

definition LoadBootState :: "(string \<rightharpoonup> snapshot) \<Rightarrow> chain_tables \<Rightarrow> boot_state" where
  "LoadBootState snaps db =
     \<lparr>btUnderlyings = ctUnder db, btContracts = map (boot_row db) (sort_key boot_key (ctContracts db)), btLastSnapshots = snaps\<rparr>"

definition boot_computation :: "chain_tables \<Rightarrow> int \<Rightarrow> computation_log option" where
  "boot_computation db i = map_of (ctState db) i"

lemma contract_row_id [simp]: "cConId (contract_row c) = cConId c"
  by (simp add: contract_row_def)

section \<open>Referential integrity\<close>

text \<open>
  One row per contract id; every log and every latest state belongs to a contract; the latest state of a
  contract is its last log.
\<close>

definition tables_ok :: "chain_tables \<Rightarrow> bool" where
  "tables_ok db \<longleftrightarrow> distinct (map cConId (ctContracts db)) \<and> (\<forall>l \<in> set (ctLogs db). has_contract (lgConId l) db) \<and>
     (\<forall>i. map_of (ctState db) i = map_of (rev (map (\<lambda>l. (lgConId l, l)) (ctLogs db))) i)"

lemma upsert_contract_ok:
  assumes "upsert_contract refuse date source c db = Inr db'" "tables_ok db" shows "tables_ok db'"
proof -
  have db': "ctContracts db' = put_by cConId (contract_row c) (ctContracts db)" "ctLogs db' = ctLogs db" "ctState db' = ctState db"
    using assms(1) by (auto simp: upsert_contract_def Let_def split: if_splits option.splits)
  then show ?thesis using assms(2) by (auto simp: tables_ok_def has_contract_def keys_put distinct_put)
qed

lemma insert_log_ok:
  assumes "insert_log refuse l db = Inr db'" "tables_ok db" shows "tables_ok db'"
proof -
  let ?l = "l\<lparr>lgTickType := 13\<rparr>"
  have db': "db' = db\<lparr>ctLogs := ctLogs db @ [?l], ctState := AList.update (lgConId l) ?l (ctState db)\<rparr>" "has_contract (lgConId l) db"
    using assms(1) by (auto simp: insert_log_def split: if_splits option.splits)
  then show ?thesis using assms(2) by (auto simp: tables_ok_def has_contract_def update_conv')
qed

lemma map_of_keep: "map_of (filter (\<lambda>r. fst r \<noteq> i) xs) k = (if k = i then None else map_of xs k)"
  by (induction xs) auto

lemma delete_id_ok: "tables_ok db \<Longrightarrow> tables_ok (delete_id i db)"
proof -
  assume ok: "tables_ok db"
  have "rev (map (\<lambda>l. (lgConId l, l)) (filter (\<lambda>l. lgConId l \<noteq> i) (ctLogs db))) = filter (\<lambda>r. fst r \<noteq> i) (rev (map (\<lambda>l. (lgConId l, l)) (ctLogs db)))"
    by (simp add: rev_map [symmetric] rev_filter [symmetric] filter_map o_def)
  then have l: "map_of (rev (map (\<lambda>l. (lgConId l, l)) (filter (\<lambda>l. lgConId l \<noteq> i) (ctLogs db)))) j =
      (if j = i then None else map_of (rev (map (\<lambda>l. (lgConId l, l)) (ctLogs db))) j)" for j by (simp only: map_of_keep)
  let ?db = "delete_id i db"
  have d: "ctContracts ?db = filter (\<lambda>c. cConId c \<noteq> i) (ctContracts db)" "ctLogs ?db = filter (\<lambda>l. lgConId l \<noteq> i) (ctLogs db)"
    "ctState ?db = filter (\<lambda>r. fst r \<noteq> i) (ctState db)" by (simp_all add: delete_id_def Let_def)
  show ?thesis unfolding tables_ok_def has_contract_def d
  proof (intro conjI allI)
    show "distinct (map cConId (filter (\<lambda>c. cConId c \<noteq> i) (ctContracts db)))" using ok by (simp add: tables_ok_def distinct_map_filter)
    show "\<forall>l \<in> set (filter (\<lambda>l. lgConId l \<noteq> i) (ctLogs db)). lgConId l \<in> cConId ` set (filter (\<lambda>c. cConId c \<noteq> i) (ctContracts db))"
      using ok by (auto simp: tables_ok_def has_contract_def)
    show "map_of (filter (\<lambda>r. fst r \<noteq> i) (ctState db)) j = map_of (rev (map (\<lambda>l. (lgConId l, l)) (filter (\<lambda>l. lgConId l \<noteq> i) (ctLogs db)))) j" for j
      unfolding l map_of_keep using ok by (simp add: tables_ok_def)
  qed
qed

lemma migrate_ids_ok: "migrate_ids fault db = Inr db' \<Longrightarrow> tables_ok db \<Longrightarrow> tables_ok db'"
proof -
  have "tables_ok (fold delete_id is db)" if "tables_ok db" for "is" db
    using that by (induction "is" arbitrary: db) (simp_all add: delete_id_ok)
  then show "migrate_ids fault db = Inr db' \<Longrightarrow> tables_ok db \<Longrightarrow> tables_ok db'"
    by (auto simp: migrate_ids_def split: if_splits option.splits)
qed

lemma fold_res_keeps:
  assumes "\<And>x s s'. f x s = Inr s' \<Longrightarrow> P s \<Longrightarrow> P s'" "fold_res f xs s = Inr s'" "P s" shows "P s'"
  using assms(2,3) by (induction xs arbitrary: s) (auto simp: bind_res_Inr_iff dest: assms(1))

text \<open>The transactions the writer commits on these tables, and the clean-up when the file is opened.\<close>

inductive chain_step :: "chain_tables \<Rightarrow> chain_tables \<Rightarrow> bool" where
  underlying: "UpsertUnderlying refused ts t spot iv db = Inr db' \<Longrightarrow> chain_step db db'"
| contracts: "UpsertContractsSource refuse date cs source db = Inr db' \<Longrightarrow> chain_step db db'"
| logs: "SubmitComputationLogs refused_log ls db = Inr db' \<Longrightarrow> chain_step db db'"
| cleanup: "migrate_ids fault db = Inr db' \<Longrightarrow> chain_step db db'"

definition tables_start :: "chain_tables \<Rightarrow> bool" where "tables_start db \<longleftrightarrow> db = empty_tables"

interpretation chain_db: transition_system tables_start chain_step .

lemma chain_step_ok: "chain_step db db' \<Longrightarrow> tables_ok db \<Longrightarrow> tables_ok db'"
proof (induction rule: chain_step.induct)
  case (underlying refused ts t spot iv db db')
  then show ?case by (auto simp: UpsertUnderlying_def tables_ok_def has_contract_def split: option.splits)
next
  case (contracts refuse date cs source db db')
  then show ?case unfolding UpsertContractsSource_def by (rule fold_res_keeps [rotated]) (rule upsert_contract_ok)
next
  case (logs refused_log ls db db')
  then show ?case unfolding SubmitComputationLogs_def by (rule fold_res_keeps [rotated]) (rule insert_log_ok)
qed (rule migrate_ids_ok)

lemma tables_reachable_ok: "chain_db.reachable db \<Longrightarrow> tables_ok db"
proof (erule chain_db.invariant)
  show "tables_ok db" if "tables_start db" for db
    using that by (simp add: tables_start_def tables_ok_def empty_tables_def)
qed (rule chain_step_ok)

text \<open>One contract and one computation, for the witnesses.\<close>

definition stored_contract :: contract where
  "stored_contract = \<lparr>cConId = 7, cTicker = ''SPY'', cStrike = Fin 500, cRight = ''C'', cExpiryDate = ''20260918'', cTradingClass = ''SPY'',
     cMultiplier = Fin 0, cOpenInterest = Fin 3, cExchange = [], cSettlement = [], cSDTier = Fin 0, cIV = Fin 0, cBid = Fin 1, cAsk = Fin 2\<rparr>"

definition demo_log :: computation_log where
  "demo_log = \<lparr>lgConId = 7, lgTimestampMs = 1, lgTickType = 0, lgImpliedVol = Fin 0, lgDelta = Fin 0, lgGamma = Fin 0, lgVanna = Fin 0,
     lgCharm = Fin 0, lgVega = Fin 0, lgTheta = Fin 0, lgUndPrice = Fin 0\<rparr>"

definition demo_stored :: chain_tables where
  "demo_stored = empty_tables\<lparr>ctContracts := [contract_row stored_contract], ctOI := [((7, ''2026-09-11''), Fin 3, ''edge'')]\<rparr>"

lemma demo_upsert: "UpsertContractsSource (\<lambda>_. None) ''2026-09-11'' [stored_contract] ''edge'' empty_tables = Inr demo_stored"
  by (simp add: UpsertContractsSource_def upsert_contract_def put_by_def demo_stored_def empty_tables_def stored_contract_def zero_f64_def Let_def)

lemma empty_reachable: "chain_db.reachable empty_tables"
  by (rule chain_db.reachable.start) (simp add: tables_start_def)

lemma demo_stored_reachable: "chain_db.reachable demo_stored"
  by (rule chain_db.reachable.move [OF empty_reachable chain_step.contracts [OF demo_upsert]])

text \<open>
  Fact. Whatever the writer commits, and through every clean-up: a contract id has one row, every
  computation log belongs to a stored contract, and what the boot reads as the latest computation of a
  contract is its last log.
\<close>

theorem tables_referential:
  assumes "chain_db.reachable db"
  shows "distinct (map cConId (ctContracts db)) \<and> lgConId ` set (ctLogs db) \<subseteq> cConId ` set (ctContracts db) \<and>
    boot_computation db i = find (\<lambda>l. lgConId l = i) (rev (ctLogs db))"
proof -
  have "map_of (rev (map (\<lambda>l. (lgConId l, l)) ls)) i = find (\<lambda>l. lgConId l = i) (rev ls)" for ls
  proof -
    have "map_of (map (\<lambda>l. (lgConId l, l)) xs) i = find (\<lambda>l. lgConId l = i) xs" for xs by (induction xs) auto
    then show ?thesis by (simp add: rev_map)
  qed
  then show ?thesis using tables_reachable_ok [OF assms] by (auto simp: tables_ok_def has_contract_def boot_computation_def)
qed

theorem tables_referential_witness:
  "case SubmitComputationLogs (\<lambda>_. None) [demo_log] demo_stored of
     Inr db \<Rightarrow> boot_computation db 7 = Some (demo_log\<lparr>lgTickType := 13\<rparr>) \<and> lgConId ` set (ctLogs db) \<subseteq> cConId ` set (ctContracts db)
   | Inl _ \<Rightarrow> False"
proof -
  obtain db where db: "SubmitComputationLogs (\<lambda>_. None) [demo_log] demo_stored = Inr db" "ctLogs db = [demo_log\<lparr>lgTickType := 13\<rparr>]"
    by (simp add: SubmitComputationLogs_def insert_log_def has_contract_def demo_log_def demo_stored_def stored_contract_def empty_tables_def)
  have "chain_db.reachable db" by (rule chain_db.reachable.move [OF demo_stored_reachable chain_step.logs [OF db(1)]])
  note r = tables_referential [OF this, of 7]
  have "lgConId demo_log = 7" by (simp add: demo_log_def)
  then show ?thesis unfolding db(1) using r by (simp add: db(2))
qed

section \<open>A restart restores the chain\<close>

lemma fold_max_le: "fold max ds (d :: 'a :: linorder) = Max (insert d (set ds))"
  using Max.set_eq_fold [of d ds] by simp

lemma set_oi_dates: "set (oi_dates i db) = {d. (i, d) \<in> fst ` set (ctOI db)}"
  by (force simp: oi_dates_def)

lemma latest_oi_eq:
  "latest_oi i db = (if set (oi_dates i db) = {} then 0 else case map_of (ctOI db) (i, Max (set (oi_dates i db))) of Some (oi, _) \<Rightarrow> oi | None \<Rightarrow> 0)"
  by (cases "oi_dates i db") (simp_all add: latest_oi_def fold_max_le)

definition put_oi :: "string \<Rightarrow> string \<Rightarrow> contract \<Rightarrow> ((int \<times> string) \<times> f64 \<times> string) list \<Rightarrow> ((int \<times> string) \<times> f64 \<times> string) list" where
  "put_oi date source c oi = (if cOpenInterest c > 0 then AList.update (cConId c, date) (cOpenInterest c, source) oi else oi)"

lemma upsert_contracts_fold:
  assumes "UpsertContractsSource refuse date cs source db = Inr db'"
  shows "ctContracts db' = fold (\<lambda>c. put_by cConId (contract_row c)) cs (ctContracts db) \<and>
    ctOI db' = fold (put_oi date source) cs (ctOI db)"
  using assms unfolding UpsertContractsSource_def
  by (induction cs arbitrary: db) (auto simp: bind_res_Inr_iff upsert_contract_def put_oi_def Let_def split: if_splits option.splits)

lemma latest_oi_cong: "ctOI db = ctOI db' \<Longrightarrow> latest_oi i db = latest_oi i db'"
  by (simp add: latest_oi_eq set_oi_dates)

lemma latest_oi_put:
  assumes "\<forall>d \<in> set (oi_dates i db). d \<le> date" "ctOI db' = put_oi date source c (ctOI db)"
  shows "latest_oi i db' = (if i = cConId c \<and> cOpenInterest c > 0 then cOpenInterest c else latest_oi i db)"
proof (cases "cOpenInterest c > 0")
  case True
  have oi: "ctOI db' = AList.update (cConId c, date) (cOpenInterest c, source) (ctOI db)" using assms(2) True by (simp add: put_oi_def)
  have dates: "set (oi_dates i db') = (if i = cConId c then insert date (set (oi_dates i db)) else set (oi_dates i db))"
    unfolding set_oi_dates oi by (auto simp: dom_update)
  show ?thesis
  proof (cases "i = cConId c")
    case same: True
    have "Max (insert date (set (oi_dates i db))) = date" using assms(1) by (intro Max_eqI) auto
    then show ?thesis using True same dates by (simp add: latest_oi_eq oi update_conv')
  next
    case False
    then show ?thesis using dates by (simp add: latest_oi_eq oi update_conv')
  qed
next
  case False
  then have "ctOI db' = ctOI db" using assms(2) by (simp add: put_oi_def)
  from latest_oi_cong [OF this] False show ?thesis by simp
qed

lemma latest_oi_fold:
  assumes "distinct (map cConId cs)" "\<forall>r \<in> set (ctOI db). snd (fst r) \<le> date" "ctOI db' = fold (put_oi date source) cs (ctOI db)"
  shows "latest_oi i db' = (case row_at cConId cs i of Some c \<Rightarrow> if cOpenInterest c > 0 then cOpenInterest c else latest_oi i db | None \<Rightarrow> latest_oi i db)"
  using assms
proof (induction cs arbitrary: db)
  case (Cons c cs)
  let ?db = "db\<lparr>ctOI := put_oi date source c (ctOI db)\<rparr>"
  have "fst ` set (ctOI ?db) \<subseteq> insert (cConId c, date) (fst ` set (ctOI db))" by (simp add: put_oi_def dom_update) blast
  moreover have "\<forall>k \<in> fst ` set (ctOI db). snd k \<le> date" using Cons.prems(2) by simp
  ultimately have "\<forall>k \<in> fst ` set (ctOI ?db). snd k \<le> date" by fastforce
  then have "\<forall>r \<in> set (ctOI ?db). snd (fst r) \<le> date" by simp
  then have IH: "latest_oi i db' = (case row_at cConId cs i of Some c \<Rightarrow> if cOpenInterest c > 0 then cOpenInterest c else latest_oi i ?db
      | None \<Rightarrow> latest_oi i ?db)"
    using Cons.prems by (intro Cons.IH) auto
  have "\<forall>d \<in> set (oi_dates i db). d \<le> date" using Cons.prems(2) by (force simp: set_oi_dates)
  from latest_oi_put [OF this, of ?db source c]
  have p: "latest_oi i ?db = (if i = cConId c \<and> cOpenInterest c > 0 then cOpenInterest c else latest_oi i db)" by simp
  have "row_at cConId cs (cConId c) = None" using Cons.prems(1) by (auto simp: row_at_None)
  then show ?case unfolding IH p by (auto split: option.split)
next
  case Nil
  then have "ctOI db' = ctOI db" by simp
  from latest_oi_cong [OF this] show ?case by simp
qed

text \<open>The contract a restart gives back: without quotes, and with the open interest of the table.\<close>

definition restored :: "f64 \<Rightarrow> contract \<Rightarrow> contract" where
  "restored oi c = c\<lparr>cMultiplier := (if cMultiplier c > 0 then cMultiplier c else DefaultMultiplier),
     cOpenInterest := (if cOpenInterest c > 0 then cOpenInterest c else oi), cBid := 0, cAsk := 0\<rparr>"

lemma boot_row_at:
  assumes "distinct (map cConId (ctContracts db))"
  shows "row_at cConId (btContracts (LoadBootState snaps db)) i = map_option (boot_row db) (row_at cConId (ctContracts db) i)"
proof -
  have m: "row_at cConId (map (boot_row db) xs) i = map_option (boot_row db) (row_at cConId xs i)" for xs
    by (induction xs) (auto simp: boot_row_def)
  have d: "distinct (map cConId (sort_key boot_key (ctContracts db)))" using assms by (simp add: distinct_map)
  have "row_at cConId (sort_key boot_key (ctContracts db)) i = row_at cConId (ctContracts db) i"
    by (rule row_at_same_rows [OF d assms]) simp
  then show ?thesis by (simp add: LoadBootState_def m)
qed

text \<open>What the clean-up of the tables leaves, and what a boot then reads.\<close>

lemma migrate_facts:
  assumes "chain_db.reachable db" "migrate_ids fault db = Inr db'"
  shows "ctContracts db' = filter (\<lambda>c. ConIdMatchesTicker (cConId c) (cTicker c)) (ctContracts db) \<and>
    foreign_ids db' = [] \<and> (\<forall>i. has_contract i db' \<longrightarrow> latest_oi i db' = latest_oi i db \<and> boot_computation db' i = boot_computation db i)"
proof -
  have del: "ctContracts (fold delete_id xs t) = filter (\<lambda>c. cConId c \<notin> set xs) (ctContracts t)"
    "ctOI (fold delete_id xs t) = filter (\<lambda>r. fst (fst r) \<notin> set xs) (ctOI t)"
    "ctState (fold delete_id xs t) = filter (\<lambda>r. fst r \<notin> set xs) (ctState t)" for xs t
    by (induction xs arbitrary: t) (auto simp: delete_id_def Let_def intro!: filter_cong)
  have db': "db' = fold delete_id (foreign_ids db) db" using assms(2) by (auto simp: migrate_ids_def split: if_splits option.splits)
  have d: "distinct (map cConId (ctContracts db))" using tables_reachable_ok [OF assms(1)] by (simp add: tables_ok_def)
  have "cConId c \<in> set (foreign_ids db) \<longleftrightarrow> \<not> ConIdMatchesTicker (cConId c) (cTicker c)" if "c \<in> set (ctContracts db)" for c
  proof -
    have "c' = c" if "c' \<in> set (ctContracts db)" "cConId c' = cConId c" for c'
      using d \<open>c \<in> set (ctContracts db)\<close> that by (auto simp: distinct_map inj_on_def)
    then show ?thesis using that by (auto simp: foreign_ids_def ConIdMatchesTicker_def)
  qed
  then have c: "ctContracts db' = filter (\<lambda>c. ConIdMatchesTicker (cConId c) (cTicker c)) (ctContracts db)"
    unfolding db' del by (intro filter_cong) auto
  then have f: "foreign_ids db' = []" by (simp add: foreign_ids_def filter_empty_conv)
  have k: "latest_oi i db' = latest_oi i db \<and> boot_computation db' i = boot_computation db i" if "has_contract i db'" for i
  proof -
    have n: "i \<notin> set (foreign_ids db)" using that by (auto simp: has_contract_def db' del)
    have m: "map_of (filter (\<lambda>r. P (fst r)) xs) y = (if P y then map_of xs y else None)" for P and xs :: "('x \<times> 'y) list" and y
      by (induction xs) auto
    have "set (oi_dates i db') = set (oi_dates i db)" using n by (force simp: oi_dates_def db' del)
    then show ?thesis
      using n m [of "\<lambda>k. fst k \<notin> set (foreign_ids db)" "ctOI db"] m [of "\<lambda>k. k \<notin> set (foreign_ids db)" "ctState db"]
      by (simp add: latest_oi_eq boot_computation_def) (simp add: db' del)
  qed
  show ?thesis using c f k by simp
qed

lemma boot_after_migrate:
  assumes "chain_db.reachable db" "migrate_ids fault db = Inr db'"
  shows "row_at cConId (btContracts (LoadBootState snaps db')) i =
    (case row_at cConId (btContracts (LoadBootState snaps db)) i of
       Some c \<Rightarrow> if ConIdMatchesTicker i (cTicker c) then Some c else None | None \<Rightarrow> None)"
proof -
  note m = migrate_facts [OF assms]
  have d: "distinct (map cConId (ctContracts db))" using tables_reachable_ok [OF assms(1)] by (simp add: tables_ok_def)
  then have d': "distinct (map cConId (ctContracts db'))" using m by (simp add: distinct_map_filter)
  have r: "row_at cConId (ctContracts db') i = Some c \<longleftrightarrow> row_at cConId (ctContracts db) i = Some c \<and> ConIdMatchesTicker i (cTicker c)" for c
    unfolding row_at_iff [OF d] row_at_iff [OF d'] using m by auto
  have b: "boot_row db' c = boot_row db c" if "row_at cConId (ctContracts db') i = Some c" for c
  proof -
    have "has_contract i db'" "cConId c = i" using that unfolding row_at_iff [OF d'] has_contract_def by auto
    then show ?thesis using m by (simp add: boot_row_def)
  qed
  have t: "cTicker (boot_row db c) = cTicker c" for c by (simp add: boot_row_def)
  show ?thesis
  proof (cases "row_at cConId (ctContracts db') i")
    case None
    then show ?thesis using r by (cases "row_at cConId (ctContracts db) i") (simp_all add: boot_row_at [OF d] boot_row_at [OF d'] t)
  next
    case (Some c)
    then have "row_at cConId (ctContracts db) i = Some c" "ConIdMatchesTicker i (cTicker c)" using r by simp_all
    then show ?thesis using Some b [OF Some] by (simp add: boot_row_at [OF d] boot_row_at [OF d'] t)
  qed
qed

text \<open>
  Property C13. A committed chain with distinct ids survives the restart, where no open interest is stored under a
  date after the upsert's: for every contract of the upsert the boot reads back the
  contract, its multiplier (the default where none was given), and its open interest, or the latest stored
  one where the upsert brought none; every other contract reads as before. With the clean-up that opening
  the store runs first, the boot reads the same contracts, but for those outside the slot of their ticker.
\<close>

theorem chain_survives_restart:
  assumes "chain_db.reachable db" "distinct (map cConId cs)" "\<forall>r \<in> set (ctOI db). snd (fst r) \<le> date"
    "UpsertContractsSource refuse date cs source db = Inr db'"
  shows "row_at cConId (btContracts (LoadBootState snaps db')) i =
    (case row_at cConId cs i of
       Some c \<Rightarrow> Some (restored (latest_oi i db) c)
     | None \<Rightarrow> row_at cConId (btContracts (LoadBootState snaps db)) i) \<and>
    (\<forall>fault opened. migrate_ids fault db' = Inr opened \<longrightarrow>
       row_at cConId (btContracts (LoadBootState snaps opened)) i =
         (case row_at cConId (btContracts (LoadBootState snaps db')) i of
            Some c \<Rightarrow> if ConIdMatchesTicker i (cTicker c) then Some c else None | None \<Rightarrow> None))"
proof -
  have after: "chain_db.reachable db'" using chain_db.reachable.move [OF assms(1) chain_step.contracts [OF assms(4)]] .
  have db': "ctContracts db' = fold (\<lambda>c. put_by cConId (contract_row c)) cs (ctContracts db)" "ctOI db' = fold (put_oi date source) cs (ctOI db)"
    using upsert_contracts_fold [OF assms(4)] by simp_all
  have ok: "tables_ok db" "tables_ok db'"
    using tables_reachable_ok [OF assms(1)] chain_step_ok [OF chain_step.contracts [OF assms(4)]] by blast+
  have d: "distinct (map cConId (ctContracts db))" "distinct (map cConId (ctContracts db'))" using ok by (simp_all add: tables_ok_def)
  note oi = latest_oi_fold [OF assms(2,3) db'(2), of i]
  have r: "row_at cConId (ctContracts db') i = (case row_at cConId cs i of Some c \<Rightarrow> Some (contract_row c) | None \<Rightarrow> row_at cConId (ctContracts db) i)"
    using row_at_fold [of cConId contract_row cs "ctContracts db" i] assms(2) by (simp add: db'(1))
  have boot: "row_at cConId (btContracts (LoadBootState snaps db')) i =
    (case row_at cConId cs i of
       Some c \<Rightarrow> Some (restored (latest_oi i db) c)
     | None \<Rightarrow> row_at cConId (btContracts (LoadBootState snaps db)) i)"
  proof (cases "row_at cConId cs i")
    case None
    then have "latest_oi i db' = latest_oi i db" using oi by simp
    moreover have "cConId c = i" if "row_at cConId (ctContracts db) i = Some c" for c using that row_at_iff [OF d(1)] by blast
    ultimately show ?thesis using None r
      by (cases "row_at cConId (ctContracts db) i") (simp_all add: boot_row_at [OF d(1)] boot_row_at [OF d(2)] boot_row_def)
  next
    case (Some c)
    have i: "cConId c = i" using Some row_at_iff [OF assms(2)] by blast
    have m: "\<not> cMultiplier c > 0" if "feq (cMultiplier c) 0"
      using that by (cases "cMultiplier c") (auto simp: feq_def zero_f64_def f64_simps)
    have "DefaultMultiplier > 0" by (simp add: DefaultMultiplier_def zero_f64_def f64_simps)
    with m have "boot_row db' (contract_row c) = restored (latest_oi i db) c"
      using oi Some by (simp add: boot_row_def contract_row_def restored_def i)
    then show ?thesis using Some r by (simp add: boot_row_at [OF d(2)])
  qed
  show ?thesis using boot boot_after_migrate [OF after] by blast
qed

theorem chain_survives_restart_witness:
  "case migrate_ids None demo_stored of
     Inr opened \<Rightarrow> row_at cConId (btContracts (LoadBootState Map.empty opened)) 7 =
       Some (stored_contract\<lparr>cMultiplier := DefaultMultiplier, cBid := 0, cAsk := 0\<rparr>)
   | Inl _ \<Rightarrow> False"
proof -
  note r = chain_survives_restart [OF empty_reachable _ _ demo_upsert, of Map.empty 7]
  obtain opened where o: "migrate_ids None demo_stored = Inr opened" by (cases "migrate_ids None demo_stored") (auto simp: migrate_ids_def split: if_splits)
  have i: "ConIdMatchesTicker 7 t" for t by (simp add: ConIdMatchesTicker_def)
  have "row_at cConId (btContracts (LoadBootState Map.empty demo_stored)) 7 =
      (case row_at cConId [stored_contract] 7 of Some c \<Rightarrow> Some (restored (latest_oi 7 empty_tables) c)
       | None \<Rightarrow> row_at cConId (btContracts (LoadBootState Map.empty empty_tables)) 7) \<and>
      row_at cConId (btContracts (LoadBootState Map.empty opened)) 7 =
      (case row_at cConId (btContracts (LoadBootState Map.empty demo_stored)) 7 of
         Some c \<Rightarrow> if ConIdMatchesTicker 7 (cTicker c) then Some c else None | None \<Rightarrow> None)"
    using r o by (simp add: empty_tables_def)
  then show ?thesis by (simp add: o i stored_contract_def restored_def zero_f64_def)
qed

text \<open>
  Property C40. The clean-up deletes exactly the contracts whose placeholder id lies outside the slot of their
  ticker, so that the boot drops none of the rest as foreign, and running it again changes nothing.
\<close>

theorem migrate_clears:
  assumes "chain_db.reachable db" "migrate_ids fault db = Inr db'"
  shows "ctContracts db' = filter (\<lambda>c. ConIdMatchesTicker (cConId c) (cTicker c)) (ctContracts db) \<and>
    migrate_ids fault' db' = Inr db' \<and> (\<forall>i. has_contract i db' \<longrightarrow> latest_oi i db' = latest_oi i db \<and> boot_computation db' i = boot_computation db i)"
  using migrate_facts [OF assms] by (simp add: migrate_ids_def)

definition foreign_contract :: contract where
  "foreign_contract = stored_contract\<lparr>cConId := - 1, cOpenInterest := 0\<rparr>"

theorem migrate_clears_witness:
  "case UpsertContractsSource (\<lambda>_. None) ''2026-09-12'' [foreign_contract] ''edge'' demo_stored of
     Inl _ \<Rightarrow> False
   | Inr db \<Rightarrow> map cConId (ctContracts db) = [7, - 1] \<and>
       (case migrate_ids None db of Inr db' \<Rightarrow> map cConId (ctContracts db') = [7] | Inl _ \<Rightarrow> False)"
proof -
  have n: "\<not> ConIdMatchesTicker (- 1) ''SPY''" by code_simp
  have p: "ConIdMatchesTicker 7 ''SPY''" by (simp add: ConIdMatchesTicker_def)
  obtain db where db: "UpsertContractsSource (\<lambda>_. None) ''2026-09-12'' [foreign_contract] ''edge'' demo_stored = Inr db"
    "ctContracts db = [contract_row stored_contract, contract_row foreign_contract]"
    by (simp add: UpsertContractsSource_def upsert_contract_def put_by_def demo_stored_def empty_tables_def stored_contract_def
        foreign_contract_def zero_f64_def Let_def)
  have r: "chain_db.reachable db" by (rule chain_db.reachable.move [OF demo_stored_reachable chain_step.contracts [OF db(1)]])
  obtain db' where db': "migrate_ids None db = Inr db'" by (cases "migrate_ids None db") (auto simp: migrate_ids_def split: if_splits)
  have i: "cConId stored_contract = 7" "cConId foreign_contract = - 1" by (simp_all add: stored_contract_def foreign_contract_def)
  have "ctContracts db' = filter (\<lambda>c. ConIdMatchesTicker (cConId c) (cTicker c)) (ctContracts db)" using migrate_clears [OF r db'] by blast
  then have "ctContracts db' = [contract_row stored_contract]"
    unfolding db(2) by (simp add: n p contract_row_def foreign_contract_def stored_contract_def)
  then show ?thesis unfolding db(1) by (simp add: db' db(2) i)
qed

end
