(* ===== verification/Service_Hedge_Props.thy ===== *)
theory Service_Hedge_Props
  imports Service_Run
begin

text \<open>
  The hedge module on the running service: its state is the one of a decision table and the
  recomputation never runs out of leg prices, a hedge is sized only on sufficient data, and
  what a change of the pair keeps.
\<close>

section \<open>Legs\<close>

definition option_count :: "leg list \<Rightarrow> nat" where
  "option_count ls = length (filter (\<lambda>l. lgKind l = LegOption) ls)"

lemma kinds_differ: "LegShare \<noteq> LegOption"
  by (simp add: LegShare_def LegOption_def)

lemma leg_views_total: "option_count ls \<le> length ps \<Longrightarrow> \<exists>lvs. leg_views ds ps ls = Some lvs"
proof (induction ls arbitrary: ps)
  case (Cons l ls)
  show ?case
  proof (cases "lgKind l = LegOption")
    case True
    then obtain p ps' where "ps = p # ps'" using Cons.prems by (cases ps) (simp_all add: option_count_def)
    then show ?thesis using Cons True kinds_differ by (fastforce simp: option_count_def)
  next
    case False
    then have "\<exists>lvs. leg_views ds ps ls = Some lvs" using Cons by (simp add: option_count_def)
    with False show ?thesis by auto
  qed
qed simp

lemma leg_views_legs: "leg_views ds ps ls = Some lvs \<Longrightarrow> map lvLeg lvs = ls"
  by (induction ds ps ls arbitrary: lvs rule: leg_views.induct)
    (auto simp: zero_view_def option_view_def split: if_splits list.splits)

lemma refresh_deltas_legs: "apHedgeLegs (refresh_deltas st now s) = apHedgeLegs s"
  by (simp add: refresh_deltas_def)

lemma finish_total:
  assumes "biSpot inp > 0"
  shows "\<exists>s' lvs. finishHedgeLegsLocked st now inp s = Some (s', lvs) \<and> map lvLeg lvs = apHedgeLegs s"
proof -
  let ?ls = "apHedgeLegs s"
  define ps where "ps = (if option_refs ?ls \<noteq> [] \<and> biSpot inp > 0 then ContractDeltas inp (option_refs ?ls) else [])"
  have "option_count ?ls \<le> length ps"
    using assms by (simp add: ps_def option_count_def option_refs_def ContractDeltas_def)
  then obtain lvs where "leg_views (apIbkrDeltas (refresh_deltas st now s)) ps ?ls = Some lvs" using leg_views_total by blast
  then show ?thesis using leg_views_legs
    by (auto simp: finishHedgeLegsLocked_def Let_def ps_def [symmetric] refresh_deltas_legs)
qed

section \<open>The decision table\<close>

definition asset_feed :: "instant \<Rightarrow> service \<Rightarrow> book_inputs option" where
  "asset_feed now s = (case apHandles s (apHedgeAsset s) of None \<Rightarrow> None | Some h \<Rightarrow> PricingInputs (hdBook h) now (hdEng h))"

definition hedge_table :: "instant \<Rightarrow> service \<Rightarrow> string" where
  "hedge_table now s =
     (if apHedgeAsset s = [] \<or> apHedgeBench s = [] then HedgeNoPair
      else if apHedgeLegs s = [] then HedgeNoPositions
      else case asset_feed now s of
             None \<Rightarrow> HedgeNoAssetFeed
           | Some inp \<Rightarrow>
               if no_history s then HedgeInsufficientHistory
               else if fst (bench_feed s) \<le> 0 then HedgeNoBenchFeed
               else if snd (USSession now) \<and> (older now (chAsOfMs (biChain inp)) \<or> older now (snd (bench_feed s)))
               then HedgeStaleFeed else HedgeOK)"

lemma oldest_stale_None: "oldest_stale now a b = None \<longleftrightarrow> \<not> older now a \<and> \<not> older now b"
  by (simp add: oldest_stale_def)

lemma size_hedge_state:
  "\<not> hvBenchSpot v \<le> 0 \<Longrightarrow> hvState (size_hedge now spot v) =
     (if snd (USSession now) \<and> (older now (hvAssetSpotMs v) \<or> older now (hvBenchSpotMs v)) then HedgeStaleFeed else HedgeOK)"
  using oldest_stale_None [of now "hvAssetSpotMs v" "hvBenchSpotMs v"]
  by (auto simp: size_hedge_def Let_def TargetHedgeShares_def split: option.split)

lemma asset_feed_pos:
  assumes "handles_wf s" "asset_feed now s = Some inp" shows "biSpot inp > 0"
proof -
  obtain h where h: "apHandles s (apHedgeAsset s) = Some h" "PricingInputs (hdBook h) now (hdEng h) = Some inp"
    using assms(2) by (auto simp: asset_feed_def split: option.splits)
  then obtain bs where "Latest (hdBook h) (apHedgeAsset s) = Some bs" "biSpot inp = bsSpot bs"
    using assms(1) by (auto simp: PricingInputs_def engine_inputs_def handles_wf_def handle_wf_def)
  then show ?thesis using assms(1) h(1) by (auto simp: handles_wf_def handle_wf_def book_wf_def wf_state_def saneSpot_def)
qed

text \<open>The recomputation once the session is refreshed, by the four shapes of its input.\<close>

definition priced_view :: "instant \<Rightarrow> service \<Rightarrow> book_inputs \<Rightarrow> leg_view list \<Rightarrow> hedge_view" where
  "priced_view now s inp lvs =
     (with_stats s (empty_view now s))\<lparr>hvAssetSpot := biSpot inp, hvAssetSpotMs := chAsOfMs (biChain inp),
        hvBenchSpot := fst (bench_feed s), hvBenchSpotMs := snd (bench_feed s), hvLegs := lvs\<rparr>"

lemma recompute_early:
  assumes "s = refresh_session st now s0" "apHedgeAsset s = [] \<or> apHedgeBench s = [] \<or> apHedgeLegs s = [] \<or> asset_feed now s = None"
  obtains v where "recomputeHedgeLocked st now s0 = Some (s, v)" "hvState v = hedge_table now s" "hvTargetShares v = 0" "hvLegs v = []"
proof -
  have "\<exists>v. recomputeHedgeLocked st now s0 = Some (s, v) \<and> hvState v = hedge_table now s \<and> hvTargetShares v = 0 \<and> hvLegs v = []"
    using assms(2) unfolding recomputeHedgeLocked_def Let_def assms(1) [symmetric]
    by (auto simp: hedge_table_def asset_feed_def empty_view_def with_stats_def split: option.splits)
  then show ?thesis using that by blast
qed

lemma recompute_priced:
  assumes "s = refresh_session st now s0" "apHedgeAsset s \<noteq> []" "apHedgeBench s \<noteq> []" "apHedgeLegs s \<noteq> []"
    "asset_feed now s = Some inp"
  shows "recomputeHedgeLocked st now s0 =
    map_option (\<lambda>(s', lvs). let v = priced_view now s inp lvs in
      (s', if no_history s
           then v\<lparr>hvState := HedgeInsufficientHistory, hvReason := dec_nat (apHedgeN s) @ '' overlapping sessions (need '' @
             dec_nat MinSessions @ '') '' @ em_dash @ '' load adjusted closes for both legs''\<rparr>
           else if fst (bench_feed s) \<le> 0
           then v\<lparr>hvState := HedgeNoBenchFeed, hvReason := ''no benchmark spot yet '' @ em_dash @ '' connect the feed''\<rparr>
           else size_hedge now (biSpot inp) v))
      (finishHedgeLegsLocked st now inp s)"
proof -
  obtain h where "apHandles s (apHedgeAsset s) = Some h" "PricingInputs (hdBook h) now (hdEng h) = Some inp"
    using assms(5) by (auto simp: asset_feed_def split: option.splits)
  moreover obtain a b where "bench_feed s = (a, b)" by fastforce
  ultimately show ?thesis using assms(2-4) unfolding recomputeHedgeLocked_def Let_def assms(1) [symmetric]
    by (cases "finishHedgeLegsLocked st now inp s") (simp_all add: priced_view_def split_def)
qed

lemma hedge_states_distinct:
  "HedgeOK \<noteq> HedgeNoBeta" "HedgeNoPair \<noteq> HedgeNoBeta" "HedgeNoPositions \<noteq> HedgeNoBeta" "HedgeNoAssetFeed \<noteq> HedgeNoBeta"
  "HedgeInsufficientHistory \<noteq> HedgeNoBeta" "HedgeNoBenchFeed \<noteq> HedgeNoBeta" "HedgeStaleFeed \<noteq> HedgeNoBeta"
  by (simp_all add: hedge_states)

lemma hedge_table_not_beta: "hedge_table now s \<noteq> HedgeNoBeta"
  using hedge_states_distinct by (simp add: hedge_table_def split: option.split)

lemma recompute_table:
  assumes "handles_wf s0"
  shows "\<exists>s' v. recomputeHedgeLocked st now s0 = Some (s', v) \<and> hvState v = hedge_table now (refresh_session st now s0)"
proof -
  define s where "s = refresh_session st now s0"
  have w: "handles_wf s" using assms harmless_refresh [of s0 st now] by (simp add: harmless_def s_def)
  show ?thesis
  proof (cases "apHedgeAsset s = [] \<or> apHedgeBench s = [] \<or> apHedgeLegs s = [] \<or> asset_feed now s = None")
    case True
    then show ?thesis using recompute_early [OF s_def] unfolding s_def by metis
  next
    case False
    then obtain inp where inp: "asset_feed now s = Some inp" by auto
    obtain s' lvs where f: "finishHedgeLegsLocked st now inp s = Some (s', lvs)"
      using finish_total [OF asset_feed_pos [OF w inp]] by blast
    have "hvState (size_hedge now (biSpot inp) (priced_view now s inp lvs)) =
        (if snd (USSession now) \<and> (older now (chAsOfMs (biChain inp)) \<or> older now (snd (bench_feed s))) then HedgeStaleFeed else HedgeOK)"
      if "\<not> fst (bench_feed s) \<le> 0"
      using that size_hedge_state [of "priced_view now s inp lvs"] by (simp add: priced_view_def)
    then show ?thesis using False inp recompute_priced [OF s_def _ _ _ inp]
      by (simp add: f Let_def hedge_table_def s_def [symmetric])
  qed
qed

section \<open>Properties\<close>

text \<open>
  Property C22. In every reachable state of the application the hedge recomputation returns --
  the loop over the legs never indexes past the prices -- and its state is the one of the
  decision table: no pair, then no positions, no asset feed, insufficient history, no benchmark
  feed, stale feed and ok, in that order. The state \<^verbatim>\<open>no_beta\<close> is never reported.
\<close>

theorem hedge_state_table:
  assumes "svc.reachable fit gen store tidy s"
  shows "\<exists>s' v. recomputeHedgeLocked st now s = Some (s', v) \<and> hvState v = hedge_table now (refresh_session st now s) \<and>
    hvState v \<noteq> HedgeNoBeta"
  using recompute_table [of s st now] service_reachable_inv [OF assms] hedge_table_not_beta
  by (fastforce simp: service_inv_def)

definition newyear :: instant where "newyear = 0"

lemma demo_refreshed:
  "apHedgeAsset (refresh_session store_demo newyear demo_service) = ''SPY''"
  "apHedgeBench (refresh_session store_demo newyear demo_service) = ''QQQ''"
  "apHedgeLegs (refresh_session store_demo newyear demo_service) = [share_leg]"
  "apHandles (refresh_session store_demo newyear demo_service) = [''SPY'' \<mapsto> live_handle]"
  "apHedgeStats (refresh_session store_demo newyear demo_service) = None"
proof -
  have d: "apHedgeAsset demo_service = ''SPY''" "apHedgeBench demo_service = ''QQQ''" "apHedgeLegs demo_service = [share_leg]"
    "apHedgeStats demo_service = None"
    by (simp_all add: demo_service_eq touch_def booted_def install_def fresh_service_def)
  have c: "hoDailyCloses store_demo = (\<lambda>_. Some None)" by (simp add: store_demo_def)
  show "apHedgeAsset (refresh_session store_demo newyear demo_service) = ''SPY''"
    "apHedgeBench (refresh_session store_demo newyear demo_service) = ''QQQ''"
    "apHedgeLegs (refresh_session store_demo newyear demo_service) = [share_leg]"
    "apHandles (refresh_session store_demo newyear demo_service) = [''SPY'' \<mapsto> live_handle]"
    "apHedgeStats (refresh_session store_demo newyear demo_service) = None"
    by (simp_all add: refresh_session_def loadHedgeStatsLocked_def Let_def d c demo_fields)
qed

theorem hedge_state_table_witness:
  "\<exists>s' v. recomputeHedgeLocked store_demo newyear demo_service = Some (s', v) \<and> hvState v = HedgeInsufficientHistory"
proof -
  have "hedge_table newyear (refresh_session store_demo newyear demo_service) = HedgeInsufficientHistory"
    by (simp add: hedge_table_def demo_refreshed asset_feed_def PricingInputs_def live_handle_fields spy_book_latest no_history_def)
  then show ?thesis using hedge_state_table [OF demo_service_reachable, of store_demo newyear] by auto
qed

text \<open>What a sized view contains.\<close>

lemma size_hedge_fields:
  assumes "\<not> hvBenchSpot v \<le> 0"
  shows "hvNetDelta (size_hedge now spot v) = fold (\<lambda>lv t. t + lvShareEquiv lv) (hvLegs v) 0"
    "TargetHedgeShares (HedgeDollarValue (hvBeta v) (DollarDelta (hvNetDelta (size_hedge now spot v)) spot)) (hvBenchSpot v) =
       Inr (hvTargetShares (size_hedge now spot v))"
    "hvHedgeValue (size_hedge now spot v) = HedgeDollarValue (hvBeta v) (DollarDelta (hvNetDelta (size_hedge now spot v)) spot)"
    "hvBeta (size_hedge now spot v) = hvBeta v" "hvBenchSpot (size_hedge now spot v) = hvBenchSpot v"
    "hvAssetSpot (size_hedge now spot v) = hvAssetSpot v" "hvLegs (size_hedge now spot v) = hvLegs v"
  using assms by (auto simp: size_hedge_def Let_def TargetHedgeShares_def split: option.split)

text \<open>The prices of a view: the books of a sound state serve positive ones.\<close>

lemma asset_spot_pos:
  assumes "handles_wf s" "asset_feed now s = Some inp" shows "0 < biSpot inp"
  using assms by (auto simp: asset_feed_def PricingInputs_def engine_inputs_def handles_wf_def handle_wf_def book_wf_def
      wf_state_def saneSpot_def split: option.splits)

lemma bench_spot_pos:
  assumes "handles_wf s" "\<not> fst (bench_feed s) \<le> 0"
  shows "0 < fst (bench_feed s) \<or> fst (bench_feed s) = NaN \<and> apBenchSpot s = NaN"
proof -
  have o: "0 < p \<or> p = NaN" if "\<not> p \<le> 0" for p :: f64 using that by (cases p) (auto simp: zero_f64_def)
  have "0 < bsSpot bs" if "apHandles s b = Some h" "Latest (hdBook h) b = Some bs" for b h bs
    using assms(1) that by (auto simp: handles_wf_def handle_wf_def book_wf_def wf_state_def saneSpot_def)
  with o [of "fst (bench_feed s)"] assms(2) show ?thesis by (auto simp: bench_feed_def split: option.splits)
qed

text \<open>
  Property C23. A number of shares to trade is published only on sufficient data: whenever it is
  not zero the pair is set, there are positions, at least two hundred shared sessions stand
  behind the beta, the asset's price is positive, the benchmark's is positive too (or
  NaN, when that is the last price of a benchmark that has no book), every leg of the portfolio
  is in the view in order, and the number is the rounded hedge of the beta-weighted dollar
  delta of exactly these legs at these prices. The books are those of a reachable state,
  where they are sound.
\<close>

theorem hedge_sized_on_sufficient_data:
  assumes "handles_wf s0" "recomputeHedgeLocked st now s0 = Some (s', v)" "hvTargetShares v \<noteq> 0"
  shows "apHedgeAsset s' \<noteq> [] \<and> apHedgeBench s' \<noteq> [] \<and> map lvLeg (hvLegs v) = apHedgeLegs s0 \<and> apHedgeLegs s0 \<noteq> [] \<and>
    MinSessions \<le> apHedgeN s' \<and> (\<exists>x. apHedgeStats s' = Some x \<and> hvBeta v = hsBeta x) \<and>
    0 < hvAssetSpot v \<and> (0 < hvBenchSpot v \<or> hvBenchSpot v = NaN \<and> apBenchSpot s0 = NaN) \<and>
    hvNetDelta v = fold (\<lambda>lv t. t + lvShareEquiv lv) (hvLegs v) 0 \<and>
    TargetHedgeShares (HedgeDollarValue (hvBeta v) (DollarDelta (hvNetDelta v) (hvAssetSpot v))) (hvBenchSpot v) = Inr (hvTargetShares v)"
proof -
  define s where "s = refresh_session st now s0"
  have legs: "apHedgeLegs s = apHedgeLegs s0" "apBenchSpot s = apBenchSpot s0" "apHandles s = apHandles s0"
    by (simp_all add: s_def refresh_session_def loadHedgeStatsLocked_def Let_def split: option.split)
  have wf: "handles_wf s" using assms(1) handles_wf_cong [OF legs(3)] by simp
  have pair: "apHedgeAsset s \<noteq> []" "apHedgeBench s \<noteq> []" "apHedgeLegs s \<noteq> []" "asset_feed now s \<noteq> None"
    using recompute_early [OF s_def] assms(2,3) by (metis Pair_inject option.inject)+
  then obtain inp where inp: "asset_feed now s = Some inp" by auto
  note r = recompute_priced [OF s_def pair(1-3) inp]
  obtain lvs where f: "finishHedgeLegsLocked st now inp s = Some (s', lvs)"
    using assms(2) unfolding r by (auto simp: Let_def)
  have z: "hvTargetShares (priced_view now s inp lvs) = 0" by (simp add: priced_view_def with_stats_def empty_view_def split: option.split)
  have n: "\<not> no_history s" and b: "\<not> fst (bench_feed s) \<le> 0" and v: "v = size_hedge now (biSpot inp) (priced_view now s inp lvs)"
    using assms(2,3) z unfolding r by (auto simp: f Let_def split: if_splits)
  have s': "s' = refresh_deltas st now s" by (rule finish_service [OF f])
  have l: "map lvLeg lvs = apHedgeLegs s"
    using f leg_views_legs by (auto simp: finishHedgeLegsLocked_def Let_def refresh_deltas_legs)
  have "\<not> hvBenchSpot (priced_view now s inp lvs) \<le> 0" using b by (simp add: priced_view_def)
  note sz = size_hedge_fields [OF this, of now "biSpot inp", folded v]
  have "hvBeta v = (case apHedgeStats s of None \<Rightarrow> 0 | Some x \<Rightarrow> hsBeta x)"
    by (simp add: sz priced_view_def with_stats_def empty_view_def split: option.split)
  moreover have "hvAssetSpot v = biSpot inp" "hvLegs v = lvs" by (simp_all add: sz priced_view_def)
  moreover have "hvBenchSpot v = fst (bench_feed s)" by (simp add: sz priced_view_def)
  then have "0 < hvBenchSpot v \<or> hvBenchSpot v = NaN \<and> apBenchSpot s0 = NaN"
    using bench_spot_pos [OF wf b] by (simp add: legs)
  ultimately show ?thesis
    using asset_spot_pos [OF wf inp] n pair l legs sz s' by (auto simp: no_history_def refresh_deltas_def priced_view_def Option.is_none_def)
qed

definition full_stats :: hedge_stats where
  "full_stats = \<lparr>hsN = 250, hsBeta = Fin 1, hsRho = Fin 1, hsVolA = Fin 1, hsVolB = Fin 1\<rparr>"

definition sized_service :: service where
  "sized_service = demo_service\<lparr>apHedgeStats := Some full_stats, apHedgeN := 250,
     apHedgeSession := fst (USSession newyear), apBenchSpot := Fin 100\<rparr>"

lemma sized_fields:
  "refresh_session store_demo newyear sized_service = sized_service" "apHedgeAsset sized_service = ''SPY''"
  "apHedgeBench sized_service = ''QQQ''" "apHedgeLegs sized_service = [share_leg]" "apHandles sized_service = [''SPY'' \<mapsto> live_handle]"
  "apBenchSpot sized_service = Fin 100" "apHedgeStats sized_service = Some full_stats" "apHedgeN sized_service = 250"
  by (simp_all add: sized_service_def refresh_session_def demo_fields)
    (simp_all add: demo_service_eq touch_def booted_def install_def fresh_service_def)

lemma sized_bench: "bench_feed sized_service = (Fin 100, apBenchSpotMs sized_service)"
  by (simp add: bench_feed_def sized_fields)

lemma share_finish:
  assumes "apHedgeLegs s = [share_leg]"
  shows "finishHedgeLegsLocked st now inp s =
     Some (refresh_deltas st now s, [(zero_view share_leg)\<lparr>lvShareEquiv := Fin 100, lvResolved := True\<rparr>])"
proof -
  have "lgKind share_leg = LegShare" "lgShares share_leg = Fin 100" by (simp_all add: share_leg_def)
  then show ?thesis by (simp add: finishHedgeLegsLocked_def Let_def refresh_deltas_legs assms option_refs_def kinds_differ)
qed

lemma sized_view: "\<exists>s' v. recomputeHedgeLocked store_demo newyear sized_service = Some (s', v) \<and> hvTargetShares v = - 100"
proof -
  have a: "asset_feed newyear sized_service = Some (engine_inputs (hdEng live_handle) spy_state newyear False)"
    by (simp add: asset_feed_def sized_fields PricingInputs_def live_handle_fields spy_book_latest)
  have p: "biSpot (engine_inputs (hdEng live_handle) spy_state newyear False) = Fin 100"
    by (simp add: engine_inputs_def spy_state_def)
  have n: "\<not> no_history sized_service" by (simp add: no_history_def sized_fields MinSessions_def Option.is_none_def)
  have sh: "TargetHedgeShares (HedgeDollarValue (Fin 1) (DollarDelta (0 + Fin 100) (Fin 100))) (Fin 100) = Inr (- 100)"
    by (simp add: TargetHedgeShares_def HedgeDollarValue_def DollarDelta_def zero_f64_def f64_simps go_int_def round_away_def)
  let ?v = "priced_view newyear sized_service (engine_inputs (hdEng live_handle) spy_state newyear False)
      [(zero_view share_leg)\<lparr>lvShareEquiv := Fin 100, lvResolved := True\<rparr>]"
  have "hvBeta ?v = Fin 1" "hvBenchSpot ?v = Fin 100" "fold (\<lambda>lv t. t + lvShareEquiv lv) (hvLegs ?v) 0 = 0 + Fin 100"
    by (simp_all add: priced_view_def with_stats_def sized_fields full_stats_def sized_bench)
  then have "hvTargetShares (size_hedge newyear (Fin 100) ?v) = - 100"
    using size_hedge_fields [of ?v newyear "Fin 100"] sh by (simp add: zero_f64_def)
  then show ?thesis
    using recompute_priced [OF sized_fields(1) [symmetric] _ _ _ a]
    by (simp add: sized_fields share_finish n sized_bench p Let_def zero_f64_def)
qed

theorem hedge_sized_on_sufficient_data_witness:
  "\<exists>s' v. recomputeHedgeLocked store_demo newyear sized_service = Some (s', v) \<and> hvTargetShares v = - 100 \<and>
     200 \<le> apHedgeN s' \<and> 0 < hvAssetSpot v \<and> 0 < hvBenchSpot v \<and> map lvLeg (hvLegs v) = [share_leg]"
proof -
  obtain s' v where r: "recomputeHedgeLocked store_demo newyear sized_service = Some (s', v)" "hvTargetShares v = - 100"
    using sized_view by blast
  then have "hvTargetShares v \<noteq> 0" by simp
  moreover have "handles_wf sized_service"
    using service_reachable_inv [OF demo_service_reachable] handles_wf_cong [of sized_service demo_service]
    by (simp add: service_inv_def sized_service_def)
  ultimately show ?thesis using hedge_sized_on_sufficient_data [OF _ r(1)] r by (auto simp: sized_fields MinSessions_def)
qed

text \<open>
  Fact. Changing the hedge pair does not forget the benchmark price: when the new
  benchmark is not watched, the view right after the change shows, and any number of shares in
  it is sized with, the last price of the benchmark before the change.
\<close>

theorem pair_change_keeps_price:
  assumes "SetHedgePair st now a b s = Inr (Some (s', v))" "apHandles s (ToUpper (TrimSpace b)) = None" "hvLegs v \<noteq> []"
  shows "apHedgeBench s' = ToUpper (TrimSpace b) \<and> hvBenchSpot v = apBenchSpot s \<and> hvBenchSpotMs v = apBenchSpotMs s \<and>
    (hvTargetShares v \<noteq> 0 \<longrightarrow> TargetHedgeShares (hvHedgeValue v) (apBenchSpot s) = Inr (hvTargetShares v))"
proof -
  let ?b = "ToUpper (TrimSpace b)"
  obtain s1 where s1: "setHedgePairLocked st a b s = Inr s1" "then_publish st now s1 = Some (s', v)"
    using assms(1) by (auto simp: SetHedgePair_def bind_res_Inr_iff split: if_splits)
  obtain s2 where s2: "recomputeHedgeLocked st now s1 = Some (s2, v)" "s' = broadcast ''hedge'' s2"
    using s1(2) by (auto simp: then_publish_def)
  define r where "r = refresh_session st now s1"
  have e: "apHedgeBench r = ?b" "apHandles r = apHandles s" "apBenchSpot r = apBenchSpot s" "apBenchSpotMs r = apBenchSpotMs s"
    using s1(1) by (auto simp: r_def setHedgePairLocked_def refresh_session_def loadHedgeStatsLocked_def Let_def
        split: if_splits option.split)
  have pair: "apHedgeAsset r \<noteq> []" "apHedgeBench r \<noteq> []" "apHedgeLegs r \<noteq> []" "asset_feed now r \<noteq> None"
    using recompute_early [OF r_def] s2(1) assms(3) by (metis Pair_inject option.inject)+
  then obtain inp where inp: "asset_feed now r = Some inp" by auto
  note rp = recompute_priced [OF r_def pair(1-3) inp]
  obtain lvs where f: "finishHedgeLegsLocked st now inp r = Some (s2, lvs)" using s2(1) unfolding rp by (auto simp: Let_def)
  have bf: "bench_feed r = (apBenchSpot s, apBenchSpotMs s)" using assms(2) by (simp add: bench_feed_def e)
  let ?v = "priced_view now r inp lvs"
  have pv: "hvBenchSpot ?v = apBenchSpot s" "hvBenchSpotMs ?v = apBenchSpotMs s" "hvTargetShares ?v = 0"
    by (simp_all add: priced_view_def bf with_stats_def empty_view_def split: option.split)
  have ms: "hvBenchSpotMs (size_hedge now (biSpot inp) ?v) = hvBenchSpotMs ?v"
    by (simp add: size_hedge_def Let_def split: sum.split option.split)
  have "hvBenchSpot v = apBenchSpot s \<and> hvBenchSpotMs v = apBenchSpotMs s \<and>
      (hvTargetShares v \<noteq> 0 \<longrightarrow> TargetHedgeShares (hvHedgeValue v) (apBenchSpot s) = Inr (hvTargetShares v))"
    using s2(1) size_hedge_fields [of ?v now "biSpot inp"] pv ms unfolding rp
    by (auto simp: f Let_def bf split: if_splits)
  moreover have "apHedgeBench s' = ?b"
    using e(1) finish_service [OF f] by (simp add: s2(2) broadcast_def refresh_deltas_def)
  ultimately show ?thesis by simp
qed

definition switched_service :: service where
  "switched_service = sized_service\<lparr>apHedgeAsset := ''SPY'', apHedgeBench := ''IWM'', apHedgeSession := []\<rparr>"

lemma switched_pair: "setHedgePairLocked store_demo ''SPY'' ''IWM'' sized_service = Inr switched_service"
proof -
  have t: "ToUpper (TrimSpace ''SPY'') = ''SPY''" "ToUpper (TrimSpace ''IWM'') = ''IWM''" "ValidTicker ''IWM''" by code_simp+
  have "hoSaveHedgePair store_demo ''SPY'' ''IWM''" by (simp add: store_demo_def)
  then show ?thesis
    by (simp add: setHedgePairLocked_def Let_def t spy_config sized_fields switched_service_def Option.is_none_def)
qed

lemma switched_refreshed:
  fixes r defines "r \<equiv> refresh_session store_demo newyear switched_service"
  shows "apHedgeAsset r = ''SPY''" "apHedgeBench r = ''IWM''" "apHedgeLegs r = [share_leg]" "apHandles r = [''SPY'' \<mapsto> live_handle]"
proof -
  have c: "hoDailyCloses store_demo = (\<lambda>_. Some None)" by (simp add: store_demo_def)
  show "apHedgeAsset r = ''SPY''" "apHedgeBench r = ''IWM''" "apHedgeLegs r = [share_leg]" "apHandles r = [''SPY'' \<mapsto> live_handle]"
    unfolding r_def by (simp_all add: refresh_session_def loadHedgeStatsLocked_def Let_def c switched_service_def sized_fields)
qed

lemma switched_view:
  "\<exists>s' v. recomputeHedgeLocked store_demo newyear switched_service = Some (s', v) \<and> hvLegs v \<noteq> []"
proof -
  define r where "r = refresh_session store_demo newyear switched_service"
  note f = switched_refreshed [folded r_def]
  let ?inp = "engine_inputs (hdEng live_handle) spy_state newyear False"
  have a: "asset_feed newyear r = Some ?inp"
    by (simp add: asset_feed_def f PricingInputs_def live_handle_fields spy_book_latest)
  have "hvLegs (size_hedge newyear spot v) = hvLegs v" for spot v
    by (simp add: size_hedge_def Let_def split: sum.split option.split)
  then show ?thesis
    using recompute_priced [OF r_def _ _ _ a] by (simp add: f share_finish Let_def priced_view_def)
qed

theorem pair_change_keeps_price_witness:
  "\<exists>s' v. SetHedgePair store_demo newyear ''SPY'' ''IWM'' sized_service = Inr (Some (s', v)) \<and> apHedgeBench s' = ''IWM'' \<and>
     hvBenchSpot v = Fin 100"
proof -
  obtain s1 v where r: "recomputeHedgeLocked store_demo newyear switched_service = Some (s1, v)" "hvLegs v \<noteq> []"
    using switched_view by blast
  have "\<not> apClosed sized_service" by (simp add: sized_service_def demo_fields)
  then have p: "SetHedgePair store_demo newyear ''SPY'' ''IWM'' sized_service = Inr (Some (broadcast ''hedge'' s1, v))"
    by (simp add: SetHedgePair_def switched_pair then_publish_def r)
  have t: "ToUpper (TrimSpace ''IWM'') = ''IWM''" by code_simp
  then have "apHandles sized_service (ToUpper (TrimSpace ''IWM'')) = None" by (simp add: sized_fields)
  from pair_change_keeps_price [OF p this r(2)] show ?thesis using p by (auto simp: t sized_fields)
qed

end
