(* ===== verification/Ingest_Index.thy ===== *)
theory Ingest_Index
  imports Vendor_OI Systems
begin

text \<open>
  The index of the ingest core: at every moment the map from contract ids to rows is
  exactly the inverse of the id column of the working chain, ids are unique and never
  zero, and the placeholder counter is ahead of every placeholder in use. The id of a real
  contract is positive; that is what keeps placeholders and durable ids apart.
\<close>

section \<open>Well-formed working chains\<close>

abbreviation rows :: "ticker_ingest \<Rightarrow> contract list" where
  "rows ti \<equiv> chContracts (tiChain ti)"

definition wf_ingest :: "string \<Rightarrow> ticker_ingest \<Rightarrow> bool" where
  "wf_ingest t ti \<longleftrightarrow>
     (\<forall>con i. tiByCon ti con = Some i \<longleftrightarrow> i < length (rows ti) \<and> cConId (rows ti ! i) = con) \<and>
     0 \<le> tiNextSyn ti \<and>
     (\<forall>c \<in> set (rows ti). cConId c \<noteq> 0 \<and> SyntheticConIDBase t - tiNextSyn ti \<le> cConId c)"

lemma wf_ingest_distinct: assumes "wf_ingest t ti" shows "distinct (map cConId (rows ti))"
proof -
  have "i = j" if "i < length (rows ti)" "j < length (rows ti)" "cConId (rows ti ! i) = cConId (rows ti ! j)" for i j
    using assms that unfolding wf_ingest_def by (metis option.inject)
  then show ?thesis by (auto simp: distinct_conv_nth)
qed

lemma index_rows_spec:
  "distinct (map cConId cs) \<Longrightarrow>
   index_rows k cs m con = Some i \<longleftrightarrow>
     (k \<le> i \<and> i < k + length cs \<and> cConId (cs ! (i - k)) = con) \<or>
     (con \<notin> cConId ` set cs \<and> m con = Some i)"
proof (induction cs arbitrary: k m)
  case Nil
  show ?case by auto
next
  case (Cons c cs)
  have IH: "index_rows (Suc k) cs (m(cConId c \<mapsto> k)) con = Some i \<longleftrightarrow>
      (Suc k \<le> i \<and> i < Suc k + length cs \<and> cConId (cs ! (i - Suc k)) = con) \<or>
      (con \<notin> cConId ` set cs \<and> (m(cConId c \<mapsto> k)) con = Some i)"
    using Cons by simp
  have new: "cConId c \<notin> cConId ` set cs" using Cons.prems by simp
  have nth: "cConId (cs ! j) \<noteq> cConId c" if "j < length cs" for j
    using new that by (metis imageI nth_mem)
  show ?case
  proof (cases "i = k")
    case True
    then show ?thesis using IH new by auto
  next
    case False
    then have "(c # cs) ! (i - k) = cs ! (i - Suc k)" if "Suc k \<le> i"
      using that by (simp add: nth_Cons' )
    then show ?thesis using IH False new nth [of "i - Suc k"] by (auto simp: le_less)
  qed
qed

section \<open>Stamping\<close>

lemma stamp_rows_spec:
  assumes "stamp_rows now t syn d cs = (cs', syn', d')"
  shows "syn \<le> syn' \<and> length cs' = length cs \<and>
    (\<forall>c' \<in> set cs'. (c' \<in> set cs \<and> cConId c' \<noteq> 0) \<or>
       (SyntheticConIDBase t - syn' \<le> cConId c' \<and> cConId c' < SyntheticConIDBase t - syn))"
  using assms
proof (induction cs arbitrary: cs' syn d)
  case Nil
  then show ?case by simp
next
  case (Cons c cs)
  show ?case
  proof (cases "cConId c \<noteq> 0")
    case True
    then obtain cs1 where r: "stamp_rows now t syn d cs = (cs1, syn', d')" "cs' = c # cs1"
      using Cons.prems by (auto split: prod.splits)
    from Cons.IH [OF r(1)] True r(2) show ?thesis by auto
  next
    case False
    then obtain cs1 d1 where r: "stamp_rows now t (syn + 1) d1 cs = (cs1, syn', d')"
        "cs' = c\<lparr>cConId := SyntheticConIDBase t - (syn + 1)\<rparr> # cs1"
      using Cons.prems by (auto simp: Let_def split: prod.splits)
    have IH: "syn + 1 \<le> syn'" "length cs1 = length cs"
      "\<forall>c' \<in> set cs1. (c' \<in> set cs \<and> cConId c' \<noteq> 0) \<or>
         (SyntheticConIDBase t - syn' \<le> cConId c' \<and> cConId c' < SyntheticConIDBase t - (syn + 1))"
      using Cons.IH [OF r(1)] by auto
    then show ?thesis unfolding r(2) by fastforce
  qed
qed

lemma stamp_rows_distinct:
  assumes "stamp_rows now t syn d cs = (cs', syn', d')"
    and "distinct (filter (\<lambda>n. n \<noteq> 0) (map cConId cs))"
    and "\<forall>c \<in> set cs. cConId c \<noteq> 0 \<longrightarrow> SyntheticConIDBase t - syn \<le> cConId c"
  shows "distinct (map cConId cs')"
  using assms
proof (induction cs arbitrary: cs' syn d)
  case Nil
  then show ?case by simp
next
  case (Cons c cs)
  show ?case
  proof (cases "cConId c \<noteq> 0")
    case True
    then obtain cs1 where r: "stamp_rows now t syn d cs = (cs1, syn', d')" "cs' = c # cs1"
      using Cons.prems(1) by (auto split: prod.splits)
    have "distinct (map cConId cs1)" using Cons.IH [OF r(1)] Cons.prems(2,3) True by simp
    moreover have "cConId c \<noteq> cConId c'" if "c' \<in> set cs1" for c'
      using stamp_rows_spec [OF r(1)] that Cons.prems(2,3) True by fastforce
    ultimately show ?thesis unfolding r(2) by auto
  next
    case False
    then obtain cs1 d1 where r: "stamp_rows now t (syn + 1) d1 cs = (cs1, syn', d')"
        "cs' = c\<lparr>cConId := SyntheticConIDBase t - (syn + 1)\<rparr> # cs1"
      using Cons.prems(1) by (auto simp: Let_def split: prod.splits)
    have b: "\<forall>c \<in> set cs. cConId c \<noteq> 0 \<longrightarrow> SyntheticConIDBase t - syn \<le> cConId c"
      using Cons.prems(3) by simp
    then have "\<forall>c \<in> set cs. cConId c \<noteq> 0 \<longrightarrow> SyntheticConIDBase t - (syn + 1) \<le> cConId c" by fastforce
    then have "distinct (map cConId cs1)" using Cons.IH [OF r(1)] Cons.prems(2) False by simp
    moreover have "SyntheticConIDBase t - (syn + 1) \<noteq> cConId c'" if "c' \<in> set cs1" for c'
      using stamp_rows_spec [OF r(1)] that b by fastforce
    ultimately show ?thesis unfolding r(2) by auto
  qed
qed

section \<open>Carrying\<close>

definition rows_apart :: "contract list \<Rightarrow> bool" where
  "rows_apart cs \<longleftrightarrow> sorted_wrt (\<lambda>a b. \<not> same_row a b) cs"

lemma feq_trans_left: "feq a b \<Longrightarrow> feq a c \<Longrightarrow> feq b c"
  by (auto simp: feq_def)

lemma same_row_left: "same_row oc a \<Longrightarrow> same_row oc b \<Longrightarrow> same_row a b"
  by (auto simp: same_row_def intro: feq_trans_left)

lemma carried_from_Some:
  "carried_from old c = Some oc \<Longrightarrow> oc \<in> set old \<and> same_row oc c"
  unfolding carried_from_def by (auto dest: find_Some_in)

lemma carry_row_id:
  assumes "cConId c = 0" "cConId (carry_row old c) \<noteq> 0"
  obtains oc where "oc \<in> set old" "same_row oc c" "cConId (carry_row old c) = cConId oc"
  using assms by (auto simp: carry_row_def split: option.splits dest: carried_from_Some)

lemma carry_distinct:
  assumes "rows_apart cs" "\<forall>c \<in> set cs. cConId c = 0" "distinct (map cConId old)"
  shows "distinct (filter (\<lambda>n. n \<noteq> 0) (map cConId (map (carry_row old) cs)))"
  using assms(1,2)
proof (induction cs)
  case Nil
  show ?case by simp
next
  case (Cons c cs)
  have IH: "distinct (filter (\<lambda>n. n \<noteq> 0) (map cConId (map (carry_row old) cs)))"
    using Cons by (simp add: rows_apart_def)
  have "cConId (carry_row old c) \<noteq> cConId (carry_row old c')"
    if c': "c' \<in> set cs" and nz: "cConId (carry_row old c) \<noteq> 0" for c'
  proof
    assume eq: "cConId (carry_row old c) = cConId (carry_row old c')"
    obtain oc where oc: "oc \<in> set old" "same_row oc c" "cConId (carry_row old c) = cConId oc"
      using nz Cons.prems(2) by (auto elim: carry_row_id [of c old])
    obtain oc' where oc': "oc' \<in> set old" "same_row oc' c'" "cConId (carry_row old c') = cConId oc'"
      using nz eq c' Cons.prems(2) by (auto elim: carry_row_id [of c' old])
    have "oc = oc'" using assms(3) oc oc' eq by (metis distinct_map inj_onD)
    then have "same_row c c'" using oc(2) oc'(2) same_row_left by blast
    then show False using Cons.prems(1) c' by (simp add: rows_apart_def)
  qed
  then show ?case using IH by auto
qed

lemma carry_bound:
  assumes "\<forall>c \<in> set cs. cConId c = 0" "\<forall>oc \<in> set old. b \<le> cConId oc" "c' \<in> set (map (carry_row old) cs)"
    "cConId c' \<noteq> 0"
  shows "b \<le> cConId c'"
proof -
  obtain c where c: "c \<in> set cs" "c' = carry_row old c" using assms(3) by auto
  then have "cConId c = 0" using assms(1) by blast
  from carry_row_id [OF this] assms(4) c(2) obtain oc where "oc \<in> set old" "cConId c' = cConId oc" by metis
  with assms(2) show ?thesis by simp
qed

section \<open>The filtered skeleton\<close>

lemma add_row_apart: "rows_apart out \<Longrightarrow> rows_apart (add_row c out)"
  by (auto simp: rows_apart_def add_row_def sorted_wrt_append)

lemma skeleton_apart: "rows_apart (fold add_row cs out)" if "rows_apart out" for cs out
  using that by (induction cs arbitrary: out) (simp_all add: add_row_apart)

lemma set_add_row: "set (add_row c out) \<subseteq> insert c (set out)"
  by (simp add: add_row_def subset_insertI)

lemma set_add_rows: "set (fold add_row cs out) \<subseteq> set out \<union> set cs"
proof (induction cs arbitrary: out)
  case (Cons c cs)
  from Cons.IH [of "add_row c out"] set_add_row [of c out] show ?case by simp blast
qed simp

definition bare :: "contract list \<Rightarrow> bool" where
  "bare cs \<longleftrightarrow> rows_apart cs \<and> (\<forall>c \<in> set cs. cConId c = 0)"

lemma bare_skeleton: "bare (chContracts (buildSkeleton now ev))"
proof -
  have "\<forall>c \<in> set (skeleton_rows ev). cConId c = 0"
    by (auto simp: skeleton_rows_def skeleton_row_def)
  then show ?thesis
    using skeleton_apart [of "[]" "skeleton_rows ev"] set_add_rows [of "skeleton_rows ev" "[]"]
    unfolding bare_def by (simp add: buildSkeleton_def rows_apart_def subset_iff)
qed

lemma bare_filter: "bare cs \<Longrightarrow> bare (filter P cs)"
  by (simp add: bare_def rows_apart_def sorted_wrt_filter)

lemma bare_selected:
  assumes "bare (chContracts ch)" "SelectedExpiriesByClass ch now = Inr (sel, ds)"
  shows "bare (chContracts sel)"
  using assms bare_filter
  by (auto simp: SelectedExpiriesByClass_def SelectedExpiries_def Let_def bind_res_Inr_iff split: if_splits)

lemma same_row_tier [simp]:
  "same_row (a\<lparr>cSDTier := x\<rparr>) b = same_row a b" "same_row a (b\<lparr>cSDTier := x\<rparr>) = same_row a b"
  by (simp_all add: same_row_def)

lemma filter_contracts_ConsE:
  assumes "filter_contracts spot iv now (c # cs) = Inr out"
  obtains "filter_contracts spot iv now cs = Inr out"
  | out' x where "filter_contracts spot iv now cs = Inr out'" "out = c\<lparr>cSDTier := x\<rparr> # out'"
  using assms by (auto simp: bind_res_Inr_iff Let_def split: if_splits)

lemma filter_contracts_rows:
  "filter_contracts spot iv now cs = Inr out \<Longrightarrow> \<forall>d \<in> set out. \<exists>c \<in> set cs. \<exists>x. d = c\<lparr>cSDTier := x\<rparr>"
proof (induction cs arbitrary: out)
  case (Cons c cs)
  from Cons.prems show ?case
  proof (cases rule: filter_contracts_ConsE)
    case 1
    then show ?thesis using Cons.IH by fastforce
  next
    case (2 out' x)
    then show ?thesis using Cons.IH [OF 2(1)] by auto
  qed
qed simp

lemma bare_filter_contracts:
  "bare cs \<Longrightarrow> filter_contracts spot iv now cs = Inr out \<Longrightarrow> bare out"
proof (induction cs arbitrary: out)
  case (Cons c cs)
  have b: "bare cs" using Cons.prems(1) by (simp add: bare_def rows_apart_def)
  from Cons.prems(2) show ?case
  proof (cases rule: filter_contracts_ConsE)
    case 1
    then show ?thesis using Cons.IH b by blast
  next
    case (2 out' x)
    have "\<not> same_row c d" if "d \<in> set out'" for d
    proof -
      from bspec [OF filter_contracts_rows [OF 2(1)] that] obtain c1 x1 where
        "c1 \<in> set cs" "d = c1\<lparr>cSDTier := x1\<rparr>" by (elim bexE exE)
      then show ?thesis using Cons.prems(1) by (simp add: bare_def rows_apart_def)
    qed
    then show ?thesis using Cons.IH [OF b 2(1)] Cons.prems(1) 2(2) by (simp add: bare_def rows_apart_def)
  qed
qed simp

lemma bare_FilterChain:
  "bare (chContracts ch) \<Longrightarrow> FilterChain ch iv now = Inr out \<Longrightarrow> bare (chContracts out)"
  using bare_filter_contracts by (auto simp: FilterChain_def bind_res_Inr_iff split: if_splits)

section \<open>Every operation keeps the index\<close>

definition core_wf :: "'h core \<Rightarrow> bool" where
  "core_wf co \<longleftrightarrow> (\<forall>t ti. coTickers co t = Some ti \<longrightarrow> wf_ingest t ti)"

lemma core_wf_diag [simp]: "core_wf (on_diag f co) = core_wf co"
  by (simp add: core_wf_def on_diag_def)

lemma core_wf_upd [simp]:
  "core_wf (co\<lparr>coHost := h\<rparr>) = core_wf co" "core_wf (co\<lparr>coDiag := d\<rparr>) = core_wf co"
  "core_wf (co\<lparr>coPendLogs := l\<rparr>) = core_wf co" "core_wf (co\<lparr>coPendPoints := p\<rparr>) = core_wf co"
  "core_wf (co\<lparr>coLogErrs := e\<rparr>) = core_wf co" "core_wf (co\<lparr>coPointErrs := e\<rparr>) = core_wf co"
  "core_wf (co\<lparr>coSpotOnly := s\<rparr>) = core_wf co" "core_wf (co\<lparr>coLastStatus := st\<rparr>) = core_wf co"
  by (simp_all add: core_wf_def)

lemma core_wf_noted [simp]: "core_wf (noted now k t c d co) = core_wf co" "core_wf (rejected co) = core_wf co"
  by (simp_all add: noted_def rejected_def)

lemma core_wf_put: "core_wf co \<Longrightarrow> wf_ingest t ti \<Longrightarrow> core_wf (co\<lparr>coTickers := (coTickers co)(t \<mapsto> ti)\<rparr>)"
  by (simp add: core_wf_def)

lemma core_wf_get: "core_wf co \<Longrightarrow> coTickers co t = Some ti \<Longrightarrow> wf_ingest t ti"
  by (simp add: core_wf_def)

lemma wf_same_rows:
  assumes "wf_ingest t ti" "tiByCon ti' = tiByCon ti" "tiNextSyn ti' = tiNextSyn ti"
    "map cConId (rows ti') = map cConId (rows ti)"
  shows "wf_ingest t ti'"
proof -
  have l: "length (rows ti') = length (rows ti)" using assms(4) by (metis length_map)
  have n: "cConId (rows ti' ! i) = cConId (rows ti ! i)" if "i < length (rows ti)" for i
    using assms(4) that l by (metis nth_map)
  have "cConId ` set (rows ti') = cConId ` set (rows ti)" using assms(4) by (metis list.set_map)
  then have "(\<forall>c \<in> set (rows ti'). P (cConId c)) = (\<forall>c \<in> set (rows ti). P (cConId c))" for P
    by (metis (no_types, lifting) imageE imageI)
  from this [of "\<lambda>n. n \<noteq> 0 \<and> SyntheticConIDBase t - tiNextSyn ti \<le> n"] show ?thesis
    using assms(1) unfolding wf_ingest_def assms(2,3) l using n by metis
qed

lemma core_wf_flush: assumes "core_wf co" shows "core_wf (flushTickerLocked ops now t co)"
proof (cases "coTickers co t")
  case None
  then show ?thesis using assms by (simp add: flushTickerLocked_def)
next
  case (Some ti)
  have "wf_ingest t (ti\<lparr>tiPending := False, tiPatchCount := 0\<rparr>)"
    by (rule wf_same_rows [OF core_wf_get [OF assms Some]]) simp_all
  from core_wf_put [OF assms this] show ?thesis
    using assms Some by (simp add: flushTickerLocked_def publishLocked_def Let_def split: prod.split bool.split)
qed

lemma core_wf_fold_flush: "core_wf co \<Longrightarrow> core_wf (fold (flushTickerLocked ops now) ts co)"
  by (induction ts arbitrary: co) (simp_all add: core_wf_flush)

lemma core_wf_submit: "core_wf co \<Longrightarrow> core_wf (submit_points ops now pts co)"
  by (simp add: submit_points_def split: option.split prod.split sum.split)

lemma core_wf_submit_all: "core_wf co \<Longrightarrow> core_wf (submit_all ops now logs pts co)"
  by (simp add: submit_all_def core_wf_submit split: option.split prod.split sum.split)

lemma core_wf_tick: assumes "core_wf co" shows "core_wf (Run_tick ops now order co)"
proof -
  have "core_wf (FlushAll ops now order co)"
    using assms by (simp add: FlushAll_def Let_def core_wf_submit_all core_wf_fold_flush)
  then show ?thesis
    by (simp add: Run_tick_def drainPointErrors_def drainLogErrors_def split: prod.split)
qed

lemma core_wf_reupsert: "core_wf co \<Longrightarrow> core_wf (reupsert ops now cs co)"
  by (simp add: reupsert_def split: option.split prod.split bool.split)

lemma wf_new: "wf_ingest t new_ingest"
  by (simp add: wf_ingest_def new_ingest_def zero_chain_def)

lemma wf_adopted:
  assumes ti: "wf_ingest t ti" and b: "bare (chContracts filtered)"
    and st: "stamp_rows now t (tiNextSyn ti) d (map (carry_row (rows ti)) (chContracts filtered)) = (cs, syn, d')"
  shows "wf_ingest t \<lparr>tiChain = filtered\<lparr>chContracts := cs\<rparr>, tiByCon = index_rows 0 cs Map.empty,
    tiLastIV = index_ivs cs, tiPatchCount = 0, tiPending = False, tiPersisted = {}, tiNextSyn = syn\<rparr>"
proof -
  let ?carried = "map (carry_row (rows ti)) (chContracts filtered)"
  have z: "\<forall>c \<in> set (chContracts filtered). cConId c = 0" and ap: "rows_apart (chContracts filtered)"
    using b by (simp_all add: bare_def)
  have old: "\<forall>oc \<in> set (rows ti). SyntheticConIDBase t - tiNextSyn ti \<le> cConId oc" and pos: "0 \<le> tiNextSyn ti"
    using ti by (simp_all add: wf_ingest_def)
  have bound: "\<forall>c \<in> set ?carried. cConId c \<noteq> 0 \<longrightarrow> SyntheticConIDBase t - tiNextSyn ti \<le> cConId c"
    using carry_bound [OF z old] by blast
  have "distinct (map cConId cs)"
    using stamp_rows_distinct [OF st carry_distinct [OF ap z wf_ingest_distinct [OF ti]] bound] .
  from index_rows_spec [OF this, of 0 Map.empty]
  have ix: "index_rows 0 cs Map.empty con = Some i \<longleftrightarrow> i < length cs \<and> cConId (cs ! i) = con" for con i by simp
  note sp = stamp_rows_spec [OF st]
  have "cConId c' \<noteq> 0 \<and> SyntheticConIDBase t - syn \<le> cConId c'" if "c' \<in> set cs" for c'
  proof -
    consider "c' \<in> set ?carried" "cConId c' \<noteq> 0" |
      "SyntheticConIDBase t - syn \<le> cConId c'" "cConId c' < SyntheticConIDBase t - tiNextSyn ti"
      using sp \<open>c' \<in> set cs\<close> by blast
    then show ?thesis
    proof cases
      case 1
      then have "SyntheticConIDBase t - tiNextSyn ti \<le> cConId c'" using bound by blast
      then show ?thesis using 1 sp by linarith
    next
      case 2
      then show ?thesis using base_le_0 [of t] pos by linarith
    qed
  qed
  then show ?thesis using ix sp pos by (simp add: wf_ingest_def)
qed

lemma core_wf_adopt:
  assumes "core_wf co" "bare (chContracts filtered)"
  shows "core_wf (fst (adoptChainLocked ops now t filtered co))"
proof -
  define ti where "ti = (case coTickers co t of None \<Rightarrow> new_ingest | Some ti \<Rightarrow> ti)"
  have ti: "wf_ingest t ti"
    using core_wf_get [OF assms(1)] wf_new by (simp add: ti_def split: option.split)
  define co1 where "co1 = (if \<not> Option.is_none (coTickers co t)
     then noted now AnomalyChainReplace t 0 (ChainRediscovered (length (rows ti))
       (length (map (carry_row (rows ti)) (chContracts filtered)))
       (length (filter (\<lambda>c. \<not> Option.is_none (carried_from (rows ti) c)) (chContracts filtered)))) co else co)"
  have co1: "core_wf co1" using assms(1) by (simp add: co1_def)
  obtain cs syn d where st: "stamp_rows now t (tiNextSyn ti) (coDiag co1)
      (map (carry_row (rows ti)) (chContracts filtered)) = (cs, syn, d)"
    by (metis prod_cases3)
  define co3 where "co3 = (if \<not> Option.is_none (coTickers co t)
     then reupsert ops now cs (co1\<lparr>coDiag := d\<rparr>) else co1\<lparr>coDiag := d\<rparr>)"
  have "core_wf co3" using co1 by (simp add: co3_def core_wf_reupsert)
  from core_wf_put [OF this wf_adopted [OF ti assms(2) st]] show ?thesis
    using st unfolding adoptChainLocked_def Let_def ti_def [symmetric] co1_def [symmetric]
    by (simp add: co3_def)
qed

lemma core_wf_onChain: assumes "core_wf co" shows "core_wf (fst (onChain ops now env co))"
proof -
  have "core_wf co1" if "adoptChainLocked ops now t filtered co = (co1, ch)"
    "FilterChain sel iv now = Inr filtered" "SelectedExpiriesByClass (buildSkeleton now ev) now = Inr (sel, ds)"
    for co1 ch t filtered sel iv ev ds
    using core_wf_adopt [OF assms bare_FilterChain [OF bare_selected [OF bare_skeleton that(3)] that(2)], of ops now t] that(1)
    by simp
  then show ?thesis
    using assms unfolding onChain_def publishLocked_def
    by (auto split: option.split sum.split prod.split bool.split)
qed

lemma core_wf_onSpot: assumes "core_wf co" shows "core_wf (onSpot ops now sess env co)"
proof -
  have "core_wf (co\<lparr>coTickers := (coTickers co)(t \<mapsto> ti\<lparr>tiChain := (tiChain ti)\<lparr>chSpot := p, chAsOfMs := ms\<rparr>\<rparr>)\<rparr>)"
    if "coTickers co t = Some ti" for t ti p ms
    by (rule core_wf_put [OF assms wf_same_rows [OF core_wf_get [OF assms that]]]) simp_all
  then show ?thesis
    using assms unfolding onSpot_def Let_def
    by (auto split: option.split prod.split bool.split)
qed

lemma map_update_same:
  "(\<And>c. f (g c) = f c) \<Longrightarrow> map f (xs[i := g (xs ! i)]) = map f xs"
  by (cases "i < length xs") (simp_all add: map_update list_update_beyond, metis list_update_id nth_map)

lemma wf_upd_row:
  assumes "wf_ingest t ti" "\<And>c. cConId (f c) = cConId c" shows "wf_ingest t (upd_row i f ti)"
  by (rule wf_same_rows [OF assms(1)]) (simp_all add: upd_row_def Let_def map_update_same [where f = cConId] assms(2))

lemma wf_resolve:
  assumes ti: "wf_ingest t ti" and unseen: "tiByCon ti (ocConId o') = None"
    and idx: "findSkeletonRow (tiChain ti) o' = Some idx" and pos: "0 < ocConId o'"
  shows "wf_ingest t (resolve_row idx o' ti)"
proof -
  let ?cs = "rows ti" and ?con = "ocConId o'"
  let ?cs' = "?cs[idx := (?cs ! idx)\<lparr>cConId := ?con\<rparr>]"
  have i: "idx < length ?cs" using find_Some_in [OF idx [unfolded findSkeletonRow_def]] by simp
  have ix: "tiByCon ti con = Some j \<longleftrightarrow> j < length ?cs \<and> cConId (?cs ! j) = con" for con j
    using ti by (simp add: wf_ingest_def)
  have fresh: "cConId (?cs ! j) \<noteq> ?con" if "j < length ?cs" for j using ix [of ?con j] unseen that by auto
  have "((tiByCon ti)(cConId (?cs ! idx) := None, ?con \<mapsto> idx)) con = Some j \<longleftrightarrow>
      j < length ?cs' \<and> cConId (?cs' ! j) = con" for con j
  proof (cases "j = idx")
    case True
    then show ?thesis using i ix [of con idx] fresh [OF i] by auto
  next
    case False
    have "cConId (?cs ! j) \<noteq> cConId (?cs ! idx)" if "j < length ?cs"
      using False ix [of "cConId (?cs ! idx)" idx] ix [of "cConId (?cs ! idx)" j] i that by auto
    then show ?thesis using False ix [of con j] fresh [of j] i by auto
  qed
  moreover have "cConId c \<noteq> 0 \<and> SyntheticConIDBase t - tiNextSyn ti \<le> cConId c" if mem: "c \<in> set ?cs'" for c
  proof -
    have "c = (?cs ! idx)\<lparr>cConId := ?con\<rparr> \<or> c \<in> set ?cs"
      using mem set_update_subset_insert [of ?cs idx] by blast
    then consider "c \<in> set ?cs" | "cConId c = ?con" by fastforce
    then show ?thesis
    proof cases
      case 1
      then show ?thesis using ti by (simp add: wf_ingest_def)
    next
      case 2
      then show ?thesis using pos base_le_0 [of t] ti unfolding wf_ingest_def by linarith
    qed
  qed
  ultimately show ?thesis
    using ti by (simp add: wf_ingest_def resolve_row_def upd_row_def Let_def)
qed

lemma wf_amend: "wf_ingest t ti \<Longrightarrow> wf_ingest t (amend_ingest idx o' ti)"
  using wf_upd_row [of t ti "amend_row o'" idx]
  by (auto simp: amend_ingest_def amend_row_def Let_def intro: wf_same_rows)

lemma wf_patch: assumes "wf_ingest t ti" shows "wf_ingest t (patch_ingest idx o' ti)"
proof -
  have "wf_ingest t (upd_row idx (patch_row o') ti)"
    by (rule wf_upd_row [OF assms]) (simp add: patch_row_def)
  then show ?thesis
    by (rule wf_same_rows) (simp_all add: patch_ingest_def upd_row_def Let_def)
qed

lemma core_wf_accept:
  assumes "core_wf co" "wf_ingest (ocTicker o') ti"
  shows "core_wf (accept_comp ops cfg now sess env o' idx ti co)"
proof -
  have j: "core_wf (jump_note now cfg ti o' co)"
    using assms(1) by (simp add: jump_note_def split: option.split)
  obtain ti2 co2 where p: "persist_once ops now o' (rows (patch_ingest idx o' ti) ! idx)
      (patch_ingest idx o' ti) (jump_note now cfg ti o' co) = (ti2, co2)"
    by (metis prod.exhaust)
  have "core_wf co2" using p j
    by (auto simp: persist_once_def split: option.splits prod.splits bool.splits if_splits)
  moreover have "wf_ingest (ocTicker o') ti2"
    using p wf_patch [OF assms(2), of idx o']
    by (auto simp: persist_once_def split: option.splits prod.splits bool.splits if_splits
        intro: wf_same_rows)
  ultimately have "core_wf (co2\<lparr>coTickers := (coTickers co2)(ocTicker o' \<mapsto> ti2)\<rparr>)" by (rule core_wf_put)
  then show ?thesis
    by (simp add: accept_comp_def p Let_def core_wf_flush)
qed

text \<open>The ids of real contracts are positive.\<close>

definition positive_comp :: "envelope \<Rightarrow> bool" where
  "positive_comp env \<longleftrightarrow>
     (case Option.bind (eData env) unmarshal_optcomp of None \<Rightarrow> True | Some o' \<Rightarrow> 0 \<le> ocConId o')"

definition positive_ids :: "envelope \<Rightarrow> bool" where
  "positive_ids env \<longleftrightarrow> (eType env = TypeOptComp \<longrightarrow> positive_comp env)"

lemma core_wf_onOptComp:
  assumes "core_wf co" "positive_comp env"
  shows "core_wf (onOptComp ops cfg now sess env co)"
proof (cases "Option.bind (eData env) unmarshal_optcomp")
  case None
  then show ?thesis using assms(1) by (simp add: onOptComp_def)
next
  case (Some o')
  show ?thesis
  proof (cases "ocConId o' = 0 \<or> ocTicker o' = [] \<or> coTickers co (ocTicker o') = None")
    case True
    then show ?thesis using assms(1) Some by (auto simp: onOptComp_def)
  next
    case False
    then obtain ti where ti: "coTickers co (ocTicker o') = Some ti" by auto
    note wf = core_wf_get [OF assms(1) ti]
    have pos: "0 < ocConId o'" using False assms(2) Some by (simp add: positive_comp_def)
    have n: "core_wf (amend_notes now o' e co)" for e
      using assms(1) by (simp add: amend_notes_def Let_def)
    have known: "core_wf (accept_comp ops cfg now sess env o' i (amend_ingest i o' ti) (amend_notes now o' e co))" for i e
      by (rule core_wf_accept [OF n wf_amend [OF wf]])
    have unknown: "core_wf (accept_comp ops cfg now sess env o' i (resolve_row i o' ti) co)"
      if "tiByCon ti (ocConId o') = None" "findSkeletonRow (tiChain ti) o' = Some i" for i
      by (rule core_wf_accept [OF assms(1) wf_resolve [OF wf that pos]])
    show ?thesis
      using False assms(1) known unknown
      by (simp add: onOptComp_def Some ti Let_def split: option.split)
  qed
qed

lemma core_wf_vendor: assumes "core_wf co" shows "core_wf (fst (ApplyVendorOI ops now t es co))"
proof (cases "coTickers co (ToUpper t)")
  case None
  then show ?thesis using assms by (simp add: ApplyVendorOI_def)
next
  case (Some ti)
  have "wf_ingest (ToUpper t) (ti\<lparr>tiChain := (tiChain ti)\<lparr>chContracts := map (patch_oi es) (rows ti)\<rparr>, tiPending := p\<rparr>)" for p
    by (rule wf_same_rows [OF core_wf_get [OF assms Some]]) simp_all
  moreover from this [of "tiPending ti"]
  have "wf_ingest (ToUpper t) (ti\<lparr>tiChain := (tiChain ti)\<lparr>chContracts := map (patch_oi es) (rows ti)\<rparr>\<rparr>)" by simp
  ultimately show ?thesis
    using assms Some core_wf_put [OF assms] by (simp add: ApplyVendorOI_def Let_def core_wf_flush)
qed

lemma core_wf_Dispatch:
  assumes "core_wf co" "positive_ids env"
  shows "core_wf (fst (snd (Dispatch ops cfg now sess env co)))"
proof -
  define c1 where "c1 = on_diag (latency (f64_of_int (wrap64 (UnixMilli now - eTS env))) \<circ> diag_event now (eType env)) co"
  have c1: "core_wf c1" using assms(1) by (simp add: c1_def)
  have g: "core_wf (fst (snd (gated now sess env h c1)))" if "core_wf (fst (h c1))" for h
    using that c1 by (auto simp: gated_def requireHello_def split: prod.split)
  have c2: "core_wf (rejected c1)" using c1 by simp
  have hello: "core_wf (fst (snd (onHello now sess env c1)))"
    using c1 by (simp add: onHello_def Let_def split: option.split)
  have others: "core_wf (fst (onSpotSub now env c1))" "core_wf (edge_onSweepDone ops now sess env c1)"
    "core_wf (onStatus ops sess env c1)"
    using c1 by (simp_all add: onSpotSub_def edge_onSweepDone_def onStatus_def Let_def split: option.split)
  have comp: "core_wf (fst (snd (gated now sess env (\<lambda>c. (onOptComp ops cfg now sess env c, [])) c1)))"
    if "eType env = TypeOptComp"
    using core_wf_onOptComp [OF c1] assms(2) that by (intro g) (simp add: positive_ids_def)
  show ?thesis
    unfolding Dispatch_def Let_def c1_def [symmetric]
    by (simp only: if_split [where P = "\<lambda>x. core_wf (fst (snd x))"] fst_conv snd_conv
        c1 c2 hello others core_wf_onChain [OF c1] core_wf_onSpot [OF c1] g
        simp_thms) (use comp in blast)
qed

section \<open>The ingest core as a transition system\<close>

inductive ingest_step :: "'h host_ops \<Rightarrow> config \<Rightarrow> 'h core \<Rightarrow> 'h core \<Rightarrow> bool" for ops cfg where
  dispatch: "positive_ids env \<Longrightarrow> ingest_step ops cfg co (fst (snd (Dispatch ops cfg now sess env co)))"
| tick: "ingest_step ops cfg co (Run_tick ops now order co)"
| vendor: "ingest_step ops cfg co (fst (ApplyVendorOI ops now t es co))"

definition ingest_start :: "'h core \<Rightarrow> bool" where
  "ingest_start co \<longleftrightarrow> (\<exists>h d. co = NewCore h d)"

interpretation ing: transition_system ingest_start "ingest_step ops cfg" for ops cfg .

lemma ingest_wf: assumes "ing.reachable ops cfg co" shows "core_wf co"
proof (rule ing.invariant [OF assms])
  fix s :: "'a core" assume "ingest_start s"
  then show "core_wf s" by (auto simp: ingest_start_def NewCore_def core_wf_def)
next
  fix s t assume s: "core_wf s" and "ingest_step ops cfg s t"
  from this(2) s show "core_wf t"
    by (cases rule: ingest_step.cases) (auto intro: core_wf_Dispatch core_wf_tick core_wf_vendor)
qed

end
