(* ===== verification/Ingest_Props.thy ===== *)
theory Ingest_Props
  imports Ingest_Index
begin

text \<open>
  What the ingest core guarantees: the hello gate, the rejection of identity conflicts,
  the carryover of a re-discovery, the selection reply as a description of the working
  chain, and that a flush publishes every pending chain. The demonstration session at the
  start sends one hello and one chain through the dispatcher.
\<close>

section \<open>A demonstration session\<close>

text \<open>A host that keeps the list of chains it was handed and accepts everything.\<close>

definition demo_ops :: "chain_snapshot list host_ops" where
  "demo_ops = \<lparr>hoApplyChain = (\<lambda>h s. (h @ [s], True)), hoApplySpot = (\<lambda>h t p ms. (h, True)),
     hoBaselineIV = (\<lambda>h t. None), hoLogs = None, hoCons = None, hoPoints = None,
     hoPoll = (\<lambda>h ch. None), hoSweepDone = None\<rparr>"

definition demo_cfg :: config where
  "demo_cfg = withDefaults \<lparr>cfFlushEvery = 0, cfFlushPatches = 0, cfIVJumpRel = 0\<rparr>"

definition demo_sess :: session where
  "demo_sess = \<lparr>snID = ''s1'', snInstance = [], snRemote = ''local'', snHelloed = True\<rparr>"

definition demo_chain_json :: json where
  "demo_chain_json = JObj [(''ticker'', JStr ''SPX''), (''spot'', JInt 100), (''baselineIv'', JNum (1 / 4)),
     (''strikes'', JArr [JInt 125]),
     (''listings'', JArr [JObj [(''date'', JStr ''19710101''), (''tradingClass'', JStr ''SPX'')]])]"

definition demo_env :: envelope where
  "demo_env = \<lparr>eV = 2, eSeq = 1, eType = ''chain'', eTS = 0, eID = 9, eData = Some demo_chain_json\<rparr>"

definition demo_core :: "chain_snapshot list core" where
  "demo_core = fst (snd (Dispatch demo_ops demo_cfg 0 demo_sess demo_env (NewCore [] (newDiagnostics 0))))"

definition demo_ev :: chain_ev where
  "demo_ev = \<lparr>ceTicker = ''SPX'', ceUnderlyingType = [], ceExchange = [], ceSpot = Fin 100, ceBaselineIV = Fin (1 / 4),
     ceAsOfMs = 0, ceStrikes = [Fin 125],
     ceListings = [\<lparr>clDate = ''19710101'', clTradingClass = ''SPX'', clSettlement = []\<rparr>]\<rparr>"

lemma demo_decoded: "unmarshal_chain demo_chain_json = Some demo_ev"
proof -
  have k: "ToUpper ''ticker'' = ''TICKER''" "ToUpper ''spot'' = ''SPOT''" "ToUpper ''baselineIv'' = ''BASELINEIV''"
    "ToUpper ''strikes'' = ''STRIKES''" "ToUpper ''listings'' = ''LISTINGS''" "ToUpper ''date'' = ''DATE''"
    "ToUpper ''tradingClass'' = ''TRADINGCLASS''" "ToUpper ''settlement'' = ''SETTLEMENT''"
    "ToUpper ''underlyingType'' = ''UNDERLYINGTYPE''" "ToUpper ''exchange'' = ''EXCHANGE''"
    "ToUpper ''asOfMs'' = ''ASOFMS''"
    by code_simp+
  show ?thesis
    by (simp add: unmarshal_chain_def demo_chain_json_def demo_ev_def unmarshal_listing_def f_str_def f_f64_def
        f_int_def f_list_def dec_field_def k f64_simps)
qed

definition demo_row :: "string \<Rightarrow> contract" where
  "demo_row right = skeleton_row demo_ev \<lparr>clDate = ''19710101'', clTradingClass = ''SPX'', clSettlement = []\<rparr> (Fin 125) right"

lemma demo_skeleton: "chContracts (buildSkeleton 0 demo_ev) = [demo_row ''C'', demo_row ''P'']"
  by (simp add: buildSkeleton_def skeleton_rows_def demo_row_def add_row_def same_row_def skeleton_row_def
      RightCall_def RightPut_def demo_ev_def)

lemma demo_selected: "SelectedExpiriesByClass (buildSkeleton 0 demo_ev) 0 = Inr (buildSkeleton 0 demo_ev, [''19710101''])"
proof -
  have "SelectExpiries [''19710101''] 0 = Inr [''19710101'']" by code_simp
  then show ?thesis
    by (simp add: SelectedExpiriesByClass_def SelectedExpiries_def demo_skeleton demo_row_def skeleton_row_def)
qed

lemma demo_filtered:
  "FilterChain (buildSkeleton 0 demo_ev) (Fin (1 / 4)) 0 =
     Inr ((buildSkeleton 0 demo_ev)\<lparr>chContracts := [(demo_row ''C'')\<lparr>cSDTier := Fin 1\<rparr>, (demo_row ''P'')\<lparr>cSDTier := Fin 1\<rparr>]\<rparr>)"
proof -
  have "parse_ymd ''19710101'' = Some 365" by code_simp
  then have d: "DTE (demo_row r) 0 = Inr (Fin 365)" for r
    using DTE_days [of "demo_row r" 365 0] by (simp add: demo_row_def skeleton_row_def day_of_def)
  have k: "cStrike (demo_row r) = Fin 125" for r by (simp add: demo_row_def skeleton_row_def)
  have s: "chSpot (buildSkeleton 0 demo_ev) = Fin 100" by (simp add: buildSkeleton_def demo_ev_def)
  show ?thesis
    by (simp add: FilterChain_def demo_skeleton d s filter_demo_sd k zero_f64_def minus_f64_def f64_simps Let_def)
qed

definition demo_placeholder :: "int \<Rightarrow> string \<Rightarrow> contract" where
  "demo_placeholder n right = (demo_row right)\<lparr>cSDTier := Fin 1, cConId := SyntheticConIDBase ''SPX'' - n\<rparr>"

definition demo_chain_snap :: chain_snapshot where
  "demo_chain_snap = (buildSkeleton 0 demo_ev)\<lparr>chContracts := [demo_placeholder 1 ''C'', demo_placeholder 2 ''P'']\<rparr>"

definition demo_ti :: ticker_ingest where
  "demo_ti = \<lparr>tiChain = demo_chain_snap,
     tiByCon = [SyntheticConIDBase ''SPX'' - 1 \<mapsto> 0, SyntheticConIDBase ''SPX'' - 2 \<mapsto> 1],
     tiLastIV = index_ivs (chContracts demo_chain_snap), tiPatchCount = 0, tiPending = False,
     tiPersisted = {}, tiNextSyn = 2\<rparr>"

lemma demo_core_chain:
  "coTickers demo_core = [''SPX'' \<mapsto> demo_ti]" "coHost demo_core = [demo_chain_snap]"
proof -
  let ?co = "on_diag (latency (f64_of_int (wrap64 0)) \<circ> diag_event 0 ''chain'') (NewCore [] (newDiagnostics 0))
    :: chain_snapshot list core"
  have z: "cConId ((demo_row r)\<lparr>cSDTier := Fin 1\<rparr>) = 0" for r by (simp add: demo_row_def skeleton_row_def)
  have t: "''chain'' = TypeChain" "TypeChain \<noteq> TypeHello" by (simp_all add: type_names)
  have b: "baseline_for demo_ops ?co demo_ev = Some (Fin (1 / 4))"
    by (simp add: baseline_for_def demo_ev_def zero_f64_def)
  have e: "demo_env = \<lparr>eV = 2, eSeq = 1, eType = TypeChain, eTS = 0, eID = 9, eData = Some demo_chain_json\<rparr>"
    by (simp add: demo_env_def type_names)
  have ev: "ceTicker demo_ev = ''SPX''" "ceStrikes demo_ev \<noteq> []" "ceListings demo_ev \<noteq> []"
    by (simp_all add: demo_ev_def)
  have core: "demo_core = fst (onChain demo_ops 0 demo_env ?co)"
    by (simp add: demo_core_def Dispatch_def e t gated_def requireHello_def demo_sess_def UnixMilli_def)
  have ad: "adoptChainLocked demo_ops 0 ''SPX'' ((buildSkeleton 0 demo_ev)\<lparr>chContracts :=
        [(demo_row ''C'')\<lparr>cSDTier := Fin 1\<rparr>, (demo_row ''P'')\<lparr>cSDTier := Fin 1\<rparr>]\<rparr>) ?co =
      (?co\<lparr>coTickers := [''SPX'' \<mapsto> demo_ti]\<rparr>, demo_chain_snap)"
    by (simp add: adoptChainLocked_def NewCore_def on_diag_def new_ingest_def zero_chain_def carry_row_def
        carried_from_def z Let_def ConIdSlotWidth_def demo_ti_def demo_chain_snap_def
        demo_placeholder_def)
  have ok: "hoApplyChain demo_ops h s = (h @ [s], True)" for h s by (simp add: demo_ops_def)
  show "coTickers demo_core = [''SPX'' \<mapsto> demo_ti]" "coHost demo_core = [demo_chain_snap]"
    unfolding core onChain_def
    by (simp_all add: demo_env_def demo_decoded ev b demo_selected demo_filtered ad publishLocked_def ok)
      (simp_all add: on_diag_def NewCore_def)
qed

lemma demo_reachable: "ing.reachable demo_ops demo_cfg demo_core"
proof -
  have "positive_ids demo_env" by (simp add: positive_ids_def demo_env_def type_names)
  then show ?thesis
    unfolding demo_core_def
    by (intro ing.reachable.move [OF ing.reachable.start ingest_step.dispatch]) (auto simp: ingest_start_def)
qed

section \<open>The index\<close>

text \<open>
  Property C1. At every moment of an ingest session -- any envelopes, flushes and vendor
  refreshes in any order, as long as the contract ids on the wire are not negative -- the
  id index of a ticker is exactly the inverse of its id column: every id of the working
  chain is found at its row and nothing else is, ids are unique and never zero, and no
  placeholder in use is below the allocation counter, so the next one is fresh.
\<close>

theorem ingest_index_exact:
  assumes "ing.reachable ops cfg co" "coTickers co t = Some ti"
  shows "(\<forall>con i. tiByCon ti con = Some i \<longleftrightarrow> i < length (rows ti) \<and> cConId (rows ti ! i) = con) \<and>
    distinct (map cConId (rows ti)) \<and>
    (\<forall>c \<in> set (rows ti). cConId c \<noteq> 0 \<and> SyntheticConIDBase t - (tiNextSyn ti + 1) < cConId c)"
  using core_wf_get [OF ingest_wf [OF assms(1)] assms(2)] wf_ingest_distinct [of t ti]
  unfolding wf_ingest_def by fastforce

theorem ingest_index_exact_witness:
  "tiByCon demo_ti (SyntheticConIDBase ''SPX'' - 2) = Some 1 \<and> distinct (map cConId (rows demo_ti))"
  using ingest_index_exact [OF demo_reachable, of "''SPX''" demo_ti]
  by (auto simp: demo_core_chain demo_ti_def demo_chain_snap_def demo_placeholder_def)

section \<open>The hello gate\<close>

text \<open>
  Property C16. Before its hello a connection can change nothing but the diagnostics: the
  book, the working chains, the spot-only set, the pending rows and the heartbeat are as
  they were, and the session stays closed. Only a hello opens it.
\<close>

theorem hello_gate:
  assumes "\<not> snHelloed sess" "eType env \<noteq> TypeHello"
  shows "\<exists>d outs. Dispatch ops cfg now sess env co = (sess, co\<lparr>coDiag := d\<rparr>, outs) \<and>
    (\<forall>out \<in> set outs. oType out = TypePong \<or> oType out = TypeError)"
proof -
  define Q where "Q = (\<lambda>x. \<exists>d (outs :: outbound list). x = (sess, co\<lparr>coDiag := d\<rparr>, outs) \<and>
    (\<forall>out \<in> set outs. oType out = TypePong \<or> oType out = TypeError))"
  define f where "f = latency (f64_of_int (wrap64 (UnixMilli now - eTS env))) \<circ> diag_event now (eType env)"
  have q: "Q (sess, co\<lparr>coDiag := d\<rparr>, outs)"
    if "\<forall>out \<in> set outs. oType out = TypePong \<or> oType out = TypeError" for d outs
    using that by (auto simp: Q_def)
  have g: "Q (gated now sess env h (on_diag f co))" for h
    using assms(1) q [of "[]"] by (simp add: gated_def requireHello_def noted_def rejected_def on_diag_def)
  have r: "Q (sess, on_diag f co, [mk_out now TypePong 0 NoData])" "Q (sess, on_diag f co, [])"
    "Q (sess, rejected (on_diag f co), [errorReply now env a b])" for a b
    using q by (simp_all add: on_diag_def rejected_def mk_out_def errorReply_def)
  have "Q (Dispatch ops cfg now sess env co)"
    unfolding Dispatch_def Let_def f_def [symmetric]
    by (simp only: if_split [where P = Q] assms(2) g r simp_thms)
  then show ?thesis by (simp only: Q_def)
qed

theorem hello_gate_witness:
  "\<exists>d outs. Dispatch demo_ops demo_cfg 0 (demo_sess\<lparr>snHelloed := False\<rparr>) demo_env (NewCore [] (newDiagnostics 0)) =
     (demo_sess\<lparr>snHelloed := False\<rparr>, (NewCore [] (newDiagnostics 0))\<lparr>coDiag := d\<rparr>, outs)"
  using hello_gate [of "demo_sess\<lparr>snHelloed := False\<rparr>" demo_env demo_ops demo_cfg 0 "NewCore [] (newDiagnostics 0)"]
  by (auto simp: demo_env_def type_names)

section \<open>Identity conflicts\<close>

text \<open>
  Fact. A computation that reuses the id of a known row with another strike, right,
  expiry or class is dropped whole: chains, pending rows, persisted marks and the book stay
  as they were; it is counted as rejected and recorded.
\<close>

theorem identity_conflict_dropped:
  assumes "Option.bind (eData env) unmarshal_optcomp = Some o'" "ocConId o' \<noteq> 0" "ocTicker o' \<noteq> []"
    and "coTickers co (ocTicker o') = Some ti" "tiByCon ti (ocConId o') = Some i"
    and "\<not> matches_row (rows ti ! i) o'"
  shows "\<exists>d. onOptComp ops cfg now sess env co = co\<lparr>coDiag := d\<rparr> \<and>
    dRejected d = dRejected (coDiag co) + 1 \<and> dApplied d = dApplied (coDiag co) \<and>
    dAnomalies d \<noteq> [] \<and> anKind (last (dAnomalies d)) = AnomalyIdentityReject \<and>
    anConId (last (dAnomalies d)) = ocConId o'"
proof -
  let ?e = "rows ti ! i"
  define det where "det = ConIdReused (cStrike ?e) (cRight ?e) (cExpiryDate ?e) (cTradingClass ?e)
    (ocStrike o') (ocRight o') (ocExpiry o') (ocTradingClass o')"
  have "onOptComp ops cfg now sess env co =
      co\<lparr>coDiag := anomaly now AnomalyIdentityReject (ocTicker o') (ocConId o') det (rejectedOne (coDiag co))\<rparr>"
    using assms by (simp add: onOptComp_def Let_def noted_def rejected_def on_diag_def det_def)
  moreover have "dRejected (rejectedOne d) = dRejected d + 1" "dApplied (rejectedOne d) = dApplied d" for d
    by (simp_all add: rejectedOne_def)
  ultimately show ?thesis
    by (intro exI [of _ "anomaly now AnomalyIdentityReject (ocTicker o') (ocConId o') det (rejectedOne (coDiag co))"])
      (simp add: anomaly_last)
qed

definition clash_env :: envelope where
  "clash_env = \<lparr>eV = 2, eSeq = 2, eType = ''optcomp'', eTS = 0, eID = 0, eData = Some (JObj
     [(''ticker'', JStr ''SPX''), (''conId'', JInt (SyntheticConIDBase ''SPX'' - 2)), (''strike'', JInt 130)])\<rparr>"

lemma clash_decoded:
  "\<exists>o'. Option.bind (eData clash_env) unmarshal_optcomp = Some o' \<and> ocTicker o' = ''SPX'' \<and>
     ocConId o' = SyntheticConIDBase ''SPX'' - 2 \<and> ocStrike o' = Fin 130"
proof -
  have k: "ToUpper ''ticker'' = ''TICKER''" "ToUpper ''conId'' = ''CONID''" "ToUpper ''strike'' = ''STRIKE''"
    "ToUpper ''right'' = ''RIGHT''" "ToUpper ''expiry'' = ''EXPIRY''" "ToUpper ''tradingClass'' = ''TRADINGCLASS''"
    "ToUpper ''settlement'' = ''SETTLEMENT''" "ToUpper ''exchange'' = ''EXCHANGE''" "ToUpper ''multiplier'' = ''MULTIPLIER''"
    "ToUpper ''iv'' = ''IV''" "ToUpper ''bid'' = ''BID''" "ToUpper ''ask'' = ''ASK''"
    "ToUpper ''openInterest'' = ''OPENINTEREST''" "ToUpper ''undPrice'' = ''UNDPRICE''" "ToUpper ''delta'' = ''DELTA''"
    "ToUpper ''gamma'' = ''GAMMA''" "ToUpper ''vega'' = ''VEGA''" "ToUpper ''theta'' = ''THETA''" "ToUpper ''src'' = ''SRC''"
    by code_simp+
  have "- (2 ^ 63) \<le> SyntheticConIDBase ''SPX'' - 2 \<and> SyntheticConIDBase ''SPX'' - 2 < 2 ^ 63"
    using slot_range [of "''SPX''"] base_le_0 [of "''SPX''"] by (simp add: base_slot ConIdSlotWidth_def)
  then show ?thesis
    by (simp add: clash_env_def unmarshal_optcomp_def f_str_def f_int_def f_f64_def dec_field_def k f64_simps)
qed

theorem identity_conflict_dropped_witness:
  "\<exists>d. onOptComp demo_ops demo_cfg 0 demo_sess clash_env demo_core = demo_core\<lparr>coDiag := d\<rparr> \<and>
     dRejected d = dRejected (coDiag demo_core) + 1"
proof -
  obtain o' where o: "Option.bind (eData clash_env) unmarshal_optcomp = Some o'" "ocTicker o' = ''SPX''"
    "ocConId o' = SyntheticConIDBase ''SPX'' - 2" "ocStrike o' = Fin 130" using clash_decoded by blast
  have "coTickers demo_core (ocTicker o') = Some demo_ti" by (simp add: o demo_core_chain)
  moreover have "tiByCon demo_ti (ocConId o') = Some 1" by (simp add: o demo_ti_def)
  moreover have "\<not> matches_row (rows demo_ti ! 1) o'"
    by (simp add: matches_row_def o demo_ti_def demo_chain_snap_def demo_placeholder_def demo_row_def skeleton_row_def)
  moreover have "ocConId o' \<noteq> 0" "ocTicker o' \<noteq> []" using base_le_0 [of "''SPX''"] o by auto
  ultimately show ?thesis
    using identity_conflict_dropped [OF o(1), of demo_core demo_ti 1 demo_ops demo_cfg 0 demo_sess] by blast
qed

section \<open>Re-discovery\<close>

lemma stamp_rows_pointwise:
  assumes "stamp_rows now t syn d cs = (cs', syn', d')"
  shows "list_all2 (\<lambda>c c'. if cConId c \<noteq> 0 then c' = c
    else \<exists>n. c' = c\<lparr>cConId := n\<rparr> \<and> n < SyntheticConIDBase t - syn) cs cs'"
  using assms
proof (induction cs arbitrary: cs' syn d)
  case Nil
  then show ?case by simp
next
  case (Cons c cs)
  show ?case
  proof (cases "cConId c \<noteq> 0")
    case True
    then obtain cs1 where r: "stamp_rows now t syn d cs = (cs1, syn', d')" "cs' = c # cs1"
      using Cons.prems by (auto split: prod.splits)
    from Cons.IH [OF r(1)] True r(2) show ?thesis by simp
  next
    case False
    then obtain cs1 d1 where r: "stamp_rows now t (syn + 1) d1 cs = (cs1, syn', d')"
        "cs' = c\<lparr>cConId := SyntheticConIDBase t - (syn + 1)\<rparr> # cs1"
      using Cons.prems by (auto simp: Let_def split: prod.splits)
    have "list_all2 (\<lambda>c c'. if cConId c \<noteq> 0 then c' = c
        else \<exists>n. c' = c\<lparr>cConId := n\<rparr> \<and> n < SyntheticConIDBase t - syn) cs cs1"
      by (rule list_all2_mono [OF Cons.IH [OF r(1)]]) (auto split: if_splits)
    then show ?thesis using False r(2) by auto
  qed
qed

lemma adopt_rows:
  assumes "adoptChainLocked ops now t filtered co = (co', chain)" "coTickers co t = Some ti"
  obtains d syn d' where
    "stamp_rows now t (tiNextSyn ti) d (map (carry_row (rows ti)) (chContracts filtered)) = (chContracts chain, syn, d')"
  using assms by (auto simp: adoptChainLocked_def Let_def split: prod.splits)

text \<open>
  Property C14. A mid-session re-discovery keeps the book: every row of the new chain that
  an earlier row matches by class, expiry, right and strike keeps that row's id, open
  interest, vol and quote; every other row gets an id below all placeholders handed out
  before, hence one no row of the old chain has.
\<close>

theorem rediscovery_carries:
  assumes "ing.reachable ops cfg co" "coTickers co t = Some ti"
    and "SelectedExpiriesByClass (buildSkeleton now ev) now = Inr (sel, ds)" "FilterChain sel iv now = Inr filtered"
    and "adoptChainLocked ops now t filtered co = (co', chain)"
  shows "length (chContracts chain) = length (chContracts filtered) \<and>
    (\<forall>i < length (chContracts filtered).
       let fc = chContracts filtered ! i; c = chContracts chain ! i in
       case carried_from (rows ti) fc of
         Some oc \<Rightarrow> same_row oc fc \<and> c = fc\<lparr>cConId := cConId oc, cOpenInterest := cOpenInterest oc, cIV := cIV oc,
                            cBid := cBid oc, cAsk := cAsk oc\<rparr>
       | None \<Rightarrow> (\<exists>n. c = fc\<lparr>cConId := n\<rparr> \<and> n \<notin> cConId ` set (rows ti)))"
proof -
  have wf: "wf_ingest t ti" using core_wf_get [OF ingest_wf [OF assms(1)] assms(2)] .
  then have old: "\<And>oc. oc \<in> set (rows ti) \<Longrightarrow> cConId oc \<noteq> 0 \<and> SyntheticConIDBase t - tiNextSyn ti \<le> cConId oc"
    by (simp add: wf_ingest_def)
  have b: "\<forall>c \<in> set (chContracts filtered). cConId c = 0"
    using bare_FilterChain [OF bare_selected [OF bare_skeleton assms(3)] assms(4)] by (simp add: bare_def)
  obtain d syn d' where st: "stamp_rows now t (tiNextSyn ti) d (map (carry_row (rows ti)) (chContracts filtered)) =
      (chContracts chain, syn, d')" using adopt_rows [OF assms(5,2)] .
  note pw = stamp_rows_pointwise [OF st]
  have len: "length (chContracts chain) = length (chContracts filtered)"
    using list_all2_lengthD [OF pw] by simp
  have "let fc = chContracts filtered ! i; c = chContracts chain ! i in
       case carried_from (rows ti) fc of
         Some oc \<Rightarrow> same_row oc fc \<and> c = fc\<lparr>cConId := cConId oc, cOpenInterest := cOpenInterest oc, cIV := cIV oc,
                            cBid := cBid oc, cAsk := cAsk oc\<rparr>
       | None \<Rightarrow> (\<exists>n. c = fc\<lparr>cConId := n\<rparr> \<and> n \<notin> cConId ` set (rows ti))"
    if i: "i < length (chContracts filtered)" for i
  proof (cases "carried_from (rows ti) (chContracts filtered ! i)")
    case None
    then have "carry_row (rows ti) (chContracts filtered ! i) = chContracts filtered ! i" by (simp add: carry_row_def)
    then obtain n where "chContracts chain ! i = (chContracts filtered ! i)\<lparr>cConId := n\<rparr>"
      "n < SyntheticConIDBase t - tiNextSyn ti"
      using list_all2_nthD [OF pw, of i] i b nth_mem [OF i] by (auto split: if_splits)
    moreover from this(2) have "n \<notin> cConId ` set (rows ti)" using old by fastforce
    ultimately show ?thesis using None by (auto simp: Let_def)
  next
    case (Some oc)
    then have oc: "oc \<in> set (rows ti)" "same_row oc (chContracts filtered ! i)" using carried_from_Some by blast+
    then show ?thesis
      using list_all2_nthD [OF pw, of i] i Some old [OF oc(1)] by (simp add: carry_row_def Let_def)
  qed
  then show ?thesis using len by blast
qed

definition demo_filtered_chain :: chain_snapshot where
  "demo_filtered_chain = (buildSkeleton 0 demo_ev)\<lparr>chContracts :=
     [(demo_row ''C'')\<lparr>cSDTier := Fin 1\<rparr>, (demo_row ''P'')\<lparr>cSDTier := Fin 1\<rparr>]\<rparr>"

theorem rediscovery_carries_witness:
  "cConId (chContracts (snd (adoptChainLocked demo_ops 0 ''SPX'' demo_filtered_chain demo_core)) ! 1) =
     SyntheticConIDBase ''SPX'' - 2"
proof -
  obtain co' chain where a: "adoptChainLocked demo_ops 0 ''SPX'' demo_filtered_chain demo_core = (co', chain)"
    by (cases "adoptChainLocked demo_ops 0 ''SPX'' demo_filtered_chain demo_core") auto
  have t: "coTickers demo_core ''SPX'' = Some demo_ti" by (simp add: demo_core_chain)
  have f: "FilterChain (buildSkeleton 0 demo_ev) (Fin (1 / 4)) 0 = Inr demo_filtered_chain"
    by (simp add: demo_filtered demo_filtered_chain_def)
  have c: "carried_from (rows demo_ti) (chContracts demo_filtered_chain ! Suc 0) = Some (demo_placeholder 2 ''P'')"
    by (simp add: carried_from_def demo_ti_def demo_chain_snap_def demo_filtered_chain_def demo_placeholder_def
        same_row_def demo_row_def skeleton_row_def)
  have l: "Suc 0 < length (chContracts demo_filtered_chain)" by (simp add: demo_filtered_chain_def)
  have "cConId (chContracts chain ! 1) = cConId (demo_placeholder 2 ''P'')"
    using rediscovery_carries [OF demo_reachable t demo_selected f a] l
    by (auto simp: c Let_def dest!: spec [of _ "Suc 0"])
  then show ?thesis by (simp add: a demo_placeholder_def)
qed

section \<open>The selection reply\<close>

interpretation wnd: grouping "(=)" window_key row_pair new_window widen
  by unfold_locales (simp_all add: window_key_def new_window_def row_pair_def widen_def)

lemma strikeWindows_groups:
  "strikeWindows chain = map (wnd.group_of (chContracts chain)) (firsts [] (map row_pair (chContracts chain)))"
proof -
  have s: "window_step = wnd.group_step" by (simp add: fun_eq_iff window_step_def wnd.group_step_def)
  have "wnd.proper (chContracts chain)" by (simp add: wnd.proper_def)
  from wnd.group_closed [OF this] show ?thesis by (simp only: strikeWindows_def s)
qed

lemma fold_widen:
  "swStrikeLo (fold widen ys w) = fold (\<lambda>c lo. if cStrike c < lo then cStrike c else lo) ys (swStrikeLo w)"
  "swStrikeHi (fold widen ys w) = fold (\<lambda>c hi. if cStrike c > hi then cStrike c else hi) ys (swStrikeHi w)"
  by (induction ys arbitrary: w) (simp_all add: widen_def cong: if_cong)

text \<open>The rows a window is about.\<close>

definition pair_rows :: "chain_snapshot \<Rightarrow> string \<times> string \<Rightarrow> contract set" where
  "pair_rows chain p = {c \<in> set (chContracts chain). row_pair c = p}"

definition tight :: "contract set \<Rightarrow> f64 \<Rightarrow> f64 \<Rightarrow> bool" where
  "tight cs lo hi \<longleftrightarrow> lo \<in> cStrike ` cs \<and> hi \<in> cStrike ` cs \<and> (\<forall>c \<in> cs. lo \<le> cStrike c \<and> cStrike c \<le> hi)"

lemma fold_tight:
  assumes "ys \<noteq> []" "\<forall>c \<in> set ys. cStrike c \<noteq> NaN"
  shows "tight (set ys) (fold (\<lambda>c lo. if cStrike c < lo then cStrike c else lo) ys (cStrike (hd ys)))
    (fold (\<lambda>c hi. if cStrike c > hi then cStrike c else hi) ys (cStrike (hd ys)))"
proof -
  have h: "hd ys \<in> set ys" using assms(1) by simp
  then have nan: "cStrike (hd ys) \<noteq> NaN" using assms(2) by blast
  show ?thesis
    using fold_lo_bounds [OF assms(2) nan] fold_hi_bounds [OF assms(2) nan] imageI [OF h, of cStrike]
    unfolding tight_def by (intro conjI) (auto simp only: insert_iff)
qed

lemma window_tight:
  assumes "p \<in> row_pair ` set (chContracts chain)" "\<forall>c \<in> set (chContracts chain). cStrike c \<noteq> NaN"
  shows "tight (pair_rows chain p) (swStrikeLo (wnd.group_of (chContracts chain) p))
    (swStrikeHi (wnd.group_of (chContracts chain) p))"
proof -
  let ?ys = "filter (\<lambda>c. row_pair c = p) (chContracts chain)"
  have ne: "?ys \<noteq> []" using assms(1) by (auto simp: filter_empty_conv)
  have "pair_rows chain p = set ?ys" by (simp add: pair_rows_def)
  then show ?thesis
    using fold_tight [OF ne] assms(2) by (simp add: wnd.group_of_def Let_def fold_widen new_window_def)
qed

lemma keptListings_pairs:
  "map (\<lambda>l. (clTradingClass l, clDate l)) (keptListings_loop seen cs) = firsts seen (map row_pair cs)"
  by (induction seen cs rule: keptListings_loop.induct) (simp_all add: row_pair_def)

text \<open>
  Fact. The selection reply describes the working chain exactly: it lists each class
  and expiry pair of the chain once, in order of first appearance; its envelope is the least
  and the greatest strike of the chain; and it has one window per pair, whose bounds are the
  least and the greatest strike of that pair's rows. The hypothesis that no strike is a NaN
  holds of every chain that came over the wire.
\<close>

theorem sub_set_describes_chain:
  assumes "chContracts chain \<noteq> []" "\<forall>c \<in> set (chContracts chain). cStrike c \<noteq> NaN"
  shows "let r = sub_set_of t chain; pairs = firsts [] (map row_pair (chContracts chain)) in
    map (\<lambda>l. (clTradingClass l, clDate l)) (suKeep r) = pairs \<and>
    tight (set (chContracts chain)) (suStrikeLo r) (suStrikeHi r) \<and>
    map window_key (suWindows r) = pairs \<and>
    (\<forall>w \<in> set (suWindows r). tight (pair_rows chain (window_key w)) (swStrikeLo w) (swStrikeHi w))"
proof -
  let ?pairs = "firsts [] (map row_pair (chContracts chain))"
  have ps: "set ?pairs = row_pair ` set (chContracts chain)" by (simp add: set_firsts)
  have key: "window_key (wnd.group_of (chContracts chain) p) = p" if "p \<in> set ?pairs" for p
    using wnd.group_of_key that unfolding ps by blast
  have "map window_key (strikeWindows chain) = ?pairs"
    unfolding strikeWindows_groups map_map by (rule map_idI) (simp add: key)
  moreover have "\<forall>w \<in> set (strikeWindows chain). tight (pair_rows chain (window_key w)) (swStrikeLo w) (swStrikeHi w)"
    unfolding strikeWindows_groups using window_tight [OF _ assms(2)] key ps by simp
  moreover have "tight (set (chContracts chain)) (strikeLo chain) (strikeHi chain)"
    using fold_tight [OF assms] assms(1)
    by (cases "chContracts chain") (simp_all add: strikeLo_def strikeHi_def)
  ultimately show ?thesis
    by (simp add: Let_def sub_set_of_def keptListings_def keptListings_pairs)
qed

theorem sub_set_describes_chain_witness:
  "map window_key (suWindows (sub_set_of ''SPX'' demo_chain_snap)) = [(''SPX'', ''19710101'')]"
proof -
  have "chContracts demo_chain_snap \<noteq> []" "\<forall>c \<in> set (chContracts demo_chain_snap). cStrike c \<noteq> NaN"
    "map row_pair (chContracts demo_chain_snap) = [(''SPX'', ''19710101''), (''SPX'', ''19710101'')]"
    by (simp_all add: demo_chain_snap_def demo_placeholder_def demo_row_def skeleton_row_def row_pair_def)
  then show ?thesis using sub_set_describes_chain [of demo_chain_snap "''SPX''"] by (simp add: Let_def)
qed

section \<open>Flushing\<close>

definition frozen :: "instant \<Rightarrow> 'h core \<Rightarrow> string \<Rightarrow> chain_snapshot" where
  "frozen now co t = (tiChain (the (coTickers co t)))\<lparr>chAsOfMs := UnixMilli now\<rparr>"

definition is_pending :: "'h core \<Rightarrow> string \<Rightarrow> bool" where
  "is_pending co t \<longleftrightarrow> (case coTickers co t of None \<Rightarrow> False | Some ti \<Rightarrow> tiPending ti)"

lemma flush_one:
  assumes "is_pending co t"
  shows "coHost (flushTickerLocked ops now t co) = fst (hoApplyChain ops (coHost co) (frozen now co t))"
    "coTickers (flushTickerLocked ops now t co) =
       (coTickers co)(t \<mapsto> (the (coTickers co t))\<lparr>tiPending := False, tiPatchCount := 0\<rparr>)"
    "coPendLogs (flushTickerLocked ops now t co) = coPendLogs co"
    "coPendPoints (flushTickerLocked ops now t co) = coPendPoints co"
  using assms
  by (auto simp: is_pending_def flushTickerLocked_def publishLocked_def frozen_def on_diag_def Let_def
      split: option.splits prod.split bool.split)

lemma flush_many:
  assumes "distinct ts" "\<forall>t \<in> set ts. is_pending co t"
  shows "let co' = fold (flushTickerLocked ops now) ts co in
    coHost co' = fold (\<lambda>s h. fst (hoApplyChain ops h s)) (map (frozen now co) ts) (coHost co) \<and>
    (\<forall>t. is_pending co' t \<longleftrightarrow> is_pending co t \<and> t \<notin> set ts) \<and>
    coPendLogs co' = coPendLogs co \<and> coPendPoints co' = coPendPoints co"
  using assms
proof (induction ts arbitrary: co)
  case Nil
  show ?case by simp
next
  case (Cons t ts)
  let ?co = "flushTickerLocked ops now t co"
  have p: "is_pending co t" using Cons.prems(2) by simp
  note f = flush_one [OF p, of ops now]
  have other: "coTickers ?co u = coTickers co u" if "u \<noteq> t" for u using that by (simp add: f)
  have pend: "is_pending ?co u \<longleftrightarrow> is_pending co u \<and> u \<noteq> t" for u
    by (cases "u = t") (simp_all add: is_pending_def f)
  have fr: "map (frozen now ?co) ts = map (frozen now co) ts"
    using Cons.prems(1) other by (intro map_cong refl) (metis frozen_def distinct.simps(2))
  have "let co' = fold (flushTickerLocked ops now) ts ?co in
    coHost co' = fold (\<lambda>s h. fst (hoApplyChain ops h s)) (map (frozen now ?co) ts) (coHost ?co) \<and>
    (\<forall>t. is_pending co' t \<longleftrightarrow> is_pending ?co t \<and> t \<notin> set ts) \<and>
    coPendLogs co' = coPendLogs ?co \<and> coPendPoints co' = coPendPoints ?co"
    using Cons.prems pend by (intro Cons.IH) auto
  then show ?case unfolding fr f by (auto simp: Let_def pend)
qed

lemma submit_tickers:
  "coTickers (submit_all ops now logs pts co) = coTickers co"
  by (simp add: submit_all_def submit_points_def on_diag_def split: option.split prod.split sum.split)

text \<open>
  Property C15. A flush leaves nothing behind: whatever order Go ranges over the tickers,
  afterwards no chain is pending, the host was handed the working chain of every pending
  ticker exactly once, stamped with the flush time, and the queued log rows and data
  points were submitted in the order they came.
\<close>

theorem flush_all_publishes:
  assumes "distinct order" "\<forall>t. coTickers co t \<noteq> None \<longrightarrow> t \<in> set order"
  shows "(\<forall>t. \<not> is_pending (FlushAll ops now order co) t) \<and>
    (\<exists>co1. FlushAll ops now order co = submit_all ops now (coPendLogs co) (coPendPoints co) co1 \<and>
       coPendLogs co1 = [] \<and> coPendPoints co1 = [] \<and>
       coHost co1 = fold (\<lambda>s h. fst (hoApplyChain ops h s)) (map (frozen now co) (filter (is_pending co) order)) (coHost co))"
proof -
  let ?ts = "pending_tickers order co"
  have ts: "?ts = filter (is_pending co) order" by (simp add: pending_tickers_def is_pending_def [abs_def])
  have d: "distinct ?ts" "\<forall>t \<in> set ?ts. is_pending co t" by (simp_all add: ts assms(1))
  define co1 where "co1 = fold (flushTickerLocked ops now) ?ts co"
  have f: "coHost co1 = fold (\<lambda>s h. fst (hoApplyChain ops h s)) (map (frozen now co) ?ts) (coHost co)"
    "\<forall>t. is_pending co1 t \<longleftrightarrow> is_pending co t \<and> t \<notin> set ?ts"
    "coPendLogs co1 = coPendLogs co" "coPendPoints co1 = coPendPoints co"
    using flush_many [OF d, of ops now] by (simp_all only: Let_def co1_def simp_thms)
  have F: "FlushAll ops now order co =
      submit_all ops now (coPendLogs co) (coPendPoints co) (co1\<lparr>coPendLogs := [], coPendPoints := []\<rparr>)"
    using f(3,4) by (simp add: FlushAll_def Let_def co1_def)
  have "\<not> is_pending co1 t" for t
  proof
    assume "is_pending co1 t"
    then have "is_pending co t" "t \<notin> set ?ts" using f(2) by auto
    moreover from this(1) have "t \<in> set order" using assms(2) by (auto simp: is_pending_def split: option.splits)
    ultimately show False by (simp add: ts)
  qed
  then have "\<not> is_pending (FlushAll ops now order co) t" for t
    by (simp add: F is_pending_def submit_tickers)
  then show ?thesis using F f(1) ts
    by (intro conjI allI exI [of _ "co1\<lparr>coPendLogs := [], coPendPoints := []\<rparr>"]) simp_all
qed

theorem flush_all_publishes_witness:
  "let co = demo_core\<lparr>coTickers := [''SPX'' \<mapsto> demo_ti\<lparr>tiPending := True\<rparr>]\<rparr> in
   (\<forall>t. \<not> is_pending (FlushAll demo_ops 0 [''SPX''] co) t) \<and> is_pending co ''SPX''"
  using flush_all_publishes [of "[''SPX'']" "demo_core\<lparr>coTickers := [''SPX'' \<mapsto> demo_ti\<lparr>tiPending := True\<rparr>]\<rparr>" demo_ops 0]
  by (simp add: Let_def is_pending_def [of "demo_core\<lparr>coTickers := [''SPX'' \<mapsto> demo_ti\<lparr>tiPending := True\<rparr>]\<rparr>"] split: if_splits)

section \<open>Vendor open interest\<close>

text \<open>
  Property C17. A vendor refresh changes nothing of a row but its open interest, and that
  only to a positive value of an entry with the row's class, right and scaled strike and
  an expiry at most a day off; a row no entry answers for keeps its value. A value that
  came from the broker's feed is replaced like any other.
\<close>

theorem vendor_refresh_fills:
  assumes "coTickers co (ToUpper t) = Some ti" "\<forall>e \<in> set entries. oeOI e \<noteq> NaN"
  shows "\<exists>ti'. coTickers (fst (ApplyVendorOI ops now t entries co)) (ToUpper t) = Some ti' \<and>
    length (chContracts (tiChain ti')) = length (chContracts (tiChain ti)) \<and>
    (\<forall>i < length (chContracts (tiChain ti)).
       let c = chContracts (tiChain ti) ! i; c' = chContracts (tiChain ti') ! i in
       (c' = c \<or> (\<exists>e \<in> set entries. answers e c \<and> c' = c\<lparr>cOpenInterest := oeOI e\<rparr>)) \<and>
       (\<forall>e. entries = [e] \<and> entry_key e = row_key c \<and> oeExpiry e = cExpiryDate c \<and> oeOI e > 0
          \<longrightarrow> cOpenInterest c' = oeOI e))"
proof -
  obtain ti' where ti': "coTickers (fst (ApplyVendorOI ops now t entries co)) (ToUpper t) = Some ti'"
    "chContracts (tiChain ti') = map (patch_oi entries) (chContracts (tiChain ti))"
    using ApplyVendorOI_rows [OF assms(1), of ops now entries] by (auto simp: map_option_eq_Some)
  have p: "patch_oi entries c = c \<or> (\<exists>e \<in> set entries. answers e c \<and> patch_oi entries c = c\<lparr>cOpenInterest := oeOI e\<rparr>)" for c
    using vendor_row_Some [OF _ assms(2), of c] by (auto simp: patch_oi_def split: option.split)
  have one: "cOpenInterest (patch_oi [e] c) = oeOI e"
    if "entry_key e = row_key c" "oeExpiry e = cExpiryDate c" "oeOI e > 0" for e c
  proof -
    have "\<not> oeOI e \<le> 0" using that(3) less_f64_def by blast
    then show ?thesis using that(1,2) by (simp add: patch_oi_def vendor_row_def bucket_def pickVendorOI_def)
  qed
  show ?thesis using ti' p one by (intro exI [of _ ti']) (auto simp: Let_def)
qed

definition demo_entry :: oi_entry where
  "demo_entry = \<lparr>oeClass = ''SPX'', oeExpiry = ''19710101'', oeRight = ''C'', oeStrike = Fin 125, oeOI = Fin 7\<rparr>"

theorem vendor_refresh_fills_witness:
  "\<exists>ti'. coTickers (fst (ApplyVendorOI demo_ops 0 ''spx'' [demo_entry] demo_core)) ''SPX'' = Some ti' \<and>
     cOpenInterest (rows ti' ! 0) = Fin 7"
proof -
  have u: "ToUpper ''spx'' = ''SPX''" by code_simp
  have t: "coTickers demo_core (ToUpper ''spx'') = Some demo_ti" by (simp add: demo_core_chain u)
  have r: "rows demo_ti ! 0 = demo_placeholder 1 ''C''" "0 < length (rows demo_ti)"
    by (simp_all add: demo_ti_def demo_chain_snap_def)
  have e: "entry_key demo_entry = row_key (demo_placeholder 1 ''C'')"
    "oeExpiry demo_entry = cExpiryDate (demo_placeholder 1 ''C'')" "oeOI demo_entry = Fin 7" "(0 :: f64) < Fin 7"
    by (simp_all add: entry_key_def row_key_def demo_entry_def demo_placeholder_def demo_row_def skeleton_row_def zero_f64_def)
  then have n: "\<forall>e \<in> set [demo_entry]. oeOI e \<noteq> NaN" by simp
  obtain ti' where ti': "coTickers (fst (ApplyVendorOI demo_ops 0 ''spx'' [demo_entry] demo_core)) (ToUpper ''spx'') = Some ti'"
    and f: "\<forall>i < length (rows demo_ti). let c = rows demo_ti ! i; c' = rows ti' ! i in
       (c' = c \<or> (\<exists>e \<in> set [demo_entry]. answers e c \<and> c' = c\<lparr>cOpenInterest := oeOI e\<rparr>)) \<and>
       (\<forall>e. [demo_entry] = [e] \<and> entry_key e = row_key c \<and> oeExpiry e = cExpiryDate c \<and> oeOI e > 0
          \<longrightarrow> cOpenInterest c' = oeOI e)"
    using vendor_refresh_fills [OF t n, of demo_ops 0] by blast
  from spec [OF f, of 0] e r have "cOpenInterest (rows ti' ! 0) = Fin 7" by (simp add: Let_def)
  then show ?thesis using ti' u by simp
qed

end
