(* ===== verification/Application.thy ===== *)
theory Application
  imports Service_Hedge_Props Sweep_Server_Props Ingest_Props
begin

text \<open>
  The parts put together as \<^verbatim>\<open>gexctl serve\<close> does (\<^verbatim>\<open>startEdgeStack\<close>): the application service is the
  host of the ingest core, the server is hooked into the core, and the store is behind the
  sinks. The host contract of the ingest is interpreted on the service, lifted through the
  server, and the whole is one transition system (with the flag \<open>tidy\<close> of the service: false is the code).
\<close>

section \<open>The service as the host of the ingest\<close>

text \<open>The sinks are the store: they answer, and do not touch the service.\<close>

record sinks =
  skLogs :: "(computation_log list \<Rightarrow> unit + chan option) option"
  skCons :: "(contract list \<Rightarrow> bool) option"
  skPoints :: "(data_point list \<Rightarrow> unit + chan option) option"
  skPoll :: "chan \<Rightarrow> bool option"

definition succeeded :: "service \<times> app_error option \<Rightarrow> service \<times> bool" where
  "succeeded r = (fst r, Option.is_none (snd r))"

definition service_ops :: "fits \<Rightarrow> instant \<Rightarrow> sinks \<Rightarrow> service host_ops" where
  "service_ops fit now sk =
     \<lparr>hoApplyChain = (\<lambda>s snap. succeeded (ApplyChain fit now s snap)),
      hoApplySpot = (\<lambda>s t p ms. succeeded (Service_ApplySpot now s t p ms)),
      hoBaselineIV = BaselineIV,
      hoLogs = map_option (\<lambda>f s ls. (s, f ls)) (skLogs sk),
      hoCons = map_option (\<lambda>f s cs. (s, f cs)) (skCons sk),
      hoPoints = map_option (\<lambda>f s ps. (s, f ps)) (skPoints sk),
      hoPoll = (\<lambda>s. skPoll sk),
      hoSweepDone = None\<rparr>"

definition keeps_inv :: "bool \<Rightarrow> service \<Rightarrow> service \<Rightarrow> bool" where
  "keeps_inv tidy s s' \<longleftrightarrow> (service_inv tidy s \<longrightarrow> service_inv tidy s')"

interpretation app: host_relation "service_ops fit now sk" "keeps_inv tidy" for fit now sk tidy
  by unfold_locales
    (auto simp: service_ops_def keeps_inv_def succeeded_def intro: ApplyChain_inv harmless_inv [OF harmless_ApplySpot])

section \<open>Through the server\<close>

lemma send_to_host [simp]: "svHost (fst (send_to now cid out sv)) = svHost sv"
  by (simp add: send_to_def split: option.split prod.split)

lemma push_to_host [simp]: "svHost (fst (pushSweepsTo now cid sv)) = svHost sv"
  by (simp add: pushSweepsTo_def)

lemma fold_push_host: "svHost (fold (\<lambda>cid s. fst (pushSweepsTo now cid s)) cids sv) = svHost sv"
  by (induction cids arbitrary: sv) simp_all

lemma push_host [simp]: "svHost (pushSweeps now order sv) = svHost sv"
  by (simp add: pushSweeps_def fold_push_host)

lemma sweep_ops_host [simp]:
  "svHost (onSweepDone now order ev sv) = svHost sv" "svHost (snd (SetSweeps now order ts sv)) = svHost sv"
  "svHost (snd (EnforceSweepWindows now order sv)) = svHost sv"
  by (simp_all add: onSweepDone_def SetSweeps_def EnforceSweepWindows_def Let_def split: sum.split option.split)

lemma send_all_host: "svHost (fst (send_all now cid outs sv)) = svHost sv"
proof (induction outs arbitrary: sv)
  case (Cons out outs)
  obtain sv' ok where s: "send_to now cid out sv = (sv', ok)" by fastforce
  then have "svHost sv' = svHost sv" using send_to_host [of now cid out sv] by simp
  with Cons s show ?case by (simp split: bool.split)
qed simp

context host_relation
begin

lemma on_host_lifts: "R h (fst (f h)) \<Longrightarrow> h = svHost sv \<Longrightarrow> R (svHost sv) (svHost (fst (on_host f sv)))"
  by (cases "f (svHost sv)") (simp add: on_host_def)

lemma server_lifts: "host_relation (server_ops ops now order) (\<lambda>sv sv'. R (svHost sv) (svHost sv'))"
proof
  show "R (svHost h) (svHost (fst (f h ls)))" if "hoLogs (server_ops ops now order) = Some f" for f h ls
    using that by (auto simp: server_ops_def intro: on_host_lifts R_logs)
  show "R (svHost h) (svHost (fst (g h cs)))" if "hoCons (server_ops ops now order) = Some g" for g h cs
    using that by (auto simp: server_ops_def intro: on_host_lifts R_cons)
  show "R (svHost h) (svHost (fst (k h ps)))" if "hoPoints (server_ops ops now order) = Some k" for k h ps
    using that by (auto simp: server_ops_def intro: on_host_lifts R_points)
qed (auto simp: server_ops_def R_refl intro: R_trans on_host_lifts R_chain R_spot)

lemma handle_line_host:
  "R (svHost (coHost co)) (svHost (coHost (fst (snd (handle_line ops cfg now order cid line sess co)))))"
proof (cases "decodeEnvelope line")
  case (Inl e)
  then show ?thesis by (simp add: handle_line_def on_server_def on_diag_def R_refl)
next
  case (Inr env)
  define co2 where "co2 = on_diag (\<lambda>d. fst (observeSeq now (eSeq env) d))
    (on_server (\<lambda>sv. sv\<lparr>svJournal := journal_Record ''in'' (the line) now (svJournal sv)\<rparr>) co)"
  obtain sess' co3 outs where d: "Dispatch (server_ops ops now order) cfg now sess env co2 = (sess', co3, outs)"
    by (metis prod_cases3)
  have "svHost (coHost co2) = svHost (coHost co)" by (simp add: co2_def on_diag_def on_server_def)
  then have r: "R (svHost (coHost co)) (svHost (coHost co3))"
    using host_relation.hrel_Dispatch [OF server_lifts, of co2 now order cfg now sess env] d by simp
  obtain sv ok where sv: "send_all now cid outs (coHost co3) = (sv, ok)" by fastforce
  then have h: "svHost sv = svHost (coHost co3)" using send_all_host [of now cid outs "coHost co3"] by simp
  obtain sv' ok' where p: "pushSweepsTo now cid sv = (sv', ok')" by fastforce
  then have "svHost sv' = svHost sv" using push_to_host [of now cid sv] by simp
  with r h p sv d Inr show ?thesis
    by (simp add: handle_line_def co2_def [symmetric] Let_def split: bool.split)
qed

lemma recv_host: "R (svHost (server_of s)) (svHost (server_of (recv_line ops cfg now order cid line s)))"
proof (cases "sySess s cid")
  case (Some sess)
  then show ?thesis
    using handle_line_host [of "syCore s" cfg now order cid line sess]
    by (auto simp: recv_line_def Let_def close_conn_def on_server_def split: prod.split)
qed (simp add: recv_line_def R_refl)

lemma edge_step_host:
  assumes "edge_step ops cfg s t" shows "R (svHost (server_of s)) (svHost (server_of t))"
  using assms
proof (cases rule: edge_step.cases)
  case (tick now cids order)
  then show ?thesis using host_relation.hrel_tick [OF server_lifts] by simp
next
  case (vendor now cids tk es)
  then show ?thesis using host_relation.hrel_vendor [OF server_lifts] by simp
qed (simp_all add: R_refl recv_host on_server_def accept_conn_def close_conn_def on_diag_def Let_def)

end

section \<open>The whole application\<close>

inductive whole_step :: "fits \<Rightarrow> seeds \<Rightarrow> hedge_store \<Rightarrow> bool \<Rightarrow> sinks \<Rightarrow> config \<Rightarrow> service edge_sys \<Rightarrow> service edge_sys \<Rightarrow> bool"
  for fit gen st tidy sk cfg where
  edge: "edge_step (service_ops fit now sk) cfg s t \<Longrightarrow> whole_step fit gen st tidy sk cfg s t"
| inside: "service_step fit gen st tidy (svHost (server_of s)) h \<Longrightarrow>
    whole_step fit gen st tidy sk cfg s (s\<lparr>syCore := on_server (\<lambda>sv. sv\<lparr>svHost := h\<rparr>) (syCore s)\<rparr>)"

definition whole_start :: "fits \<Rightarrow> seeds \<Rightarrow> hedge_store \<Rightarrow> bool \<Rightarrow> service edge_sys \<Rightarrow> bool" where
  "whole_start fit gen st tidy s \<longleftrightarrow> (\<exists>h j d. service_start fit gen st tidy h \<and> s = \<lparr>syCore = NewCore (Listen h j) d, sySess = Map.empty\<rparr>)"

interpretation whole: transition_system "whole_start fit gen st tidy" "whole_step fit gen st tidy sk cfg" for fit gen st tidy sk cfg .

lemma NewCore_host: "coHost (NewCore h d) = h"
  by (simp add: NewCore_def)

lemma whole_service: "whole.reachable fit gen st tidy sk cfg s \<Longrightarrow> service_inv tidy (svHost (server_of s))"
proof (erule whole.invariant)
  fix s assume "whole_start fit gen st tidy s"
  then show "service_inv tidy (svHost (server_of s))"
    using New_inv by (auto simp: whole_start_def service_start_def NewCore_host Listen_def)
next
  fix s t assume i: "service_inv tidy (svHost (server_of s))" and "whole_step fit gen st tidy sk cfg s t"
  from this(2) show "service_inv tidy (svHost (server_of t))"
  proof (cases rule: whole_step.cases)
    case (edge now)
    then show ?thesis using app.edge_step_host i by (auto simp: keeps_inv_def)
  next
    case (inside h)
    then show ?thesis using service_step_inv i by (simp add: on_server_def)
  qed
qed

lemma whole_server: "whole.reachable fit gen st tidy sk cfg s \<Longrightarrow> server_wf (server_of s)"
proof (erule whole.invariant)
  fix s assume "whole_start fit gen st tidy s"
  then show "server_wf (server_of s)"
    by (auto simp: whole_start_def NewCore_host Listen_def server_wf_def wf_roster_def)
next
  fix s t assume w: "server_wf (server_of s)" and "whole_step fit gen st tidy sk cfg s t"
  from this(2) show "server_wf (server_of t)"
  proof (cases rule: whole_step.cases)
    case (edge now)
    then show ?thesis using edge_step_roster [OF edge] w SetSweeps_wf by (auto simp: sweep_shrinks_def)
  next
    case (inside h)
    then show ?thesis using w by (simp add: on_server_def server_wf_def)
  qed
qed

section \<open>From the wire to the book\<close>

lemma ApplyChain_book:
  assumes "ApplyChain fit now s snap = (s', None)"
  obtains h b where "apHandles s' (ToUpper (chTicker snap)) = Some h" "snd (ApplyChainSnapshot b snap) = Inr (hdBook h)"
proof -
  let ?t = "ToUpper (chTicker snap)"
  define s1 where "s1 = (if Option.is_none (apHandles s ?t) then promote fit ?t s else s)"
  have "apHandles s1 ?t \<noteq> None"
    by (simp add: s1_def Option.is_none_def promote_def Let_def broadcast_def startEngineLocked_def)
  then obtain h1 where h1: "apHandles s1 ?t = Some h1" by blast
  obtain b where b: "snd (ApplyChainSnapshot (book_of s1 ?t) snap) = Inr b" "s' = touch now (put_book ?t b s1)"
    using assms unfolding ApplyChain_def Let_def s1_def [symmetric] by (auto split: if_splits sum.splits)
  have "apHandles s' ?t = Some (h1\<lparr>hdBook := b\<rparr>)" by (simp add: b(2) touch_def put_book_def h1)
  then show ?thesis using that [of "h1\<lparr>hdBook := b\<rparr>" "book_of s1 ?t"] b(1) by simp
qed

lemma selected_frame: "SelectedExpiriesByClass chain now = Inr (out, ds) \<Longrightarrow> out = chain\<lparr>chContracts := chContracts out\<rparr>"
  by (auto simp: SelectedExpiriesByClass_def SelectedExpiries_def bind_res_Inr_iff Let_def split: if_splits)

lemma filtered_frame: "FilterChain chain iv now = Inr out \<Longrightarrow> out = chain\<lparr>chContracts := chContracts out\<rparr>"
  using FilterChain_Inr(1) by fastforce

lemma adopt_frame:
  assumes "adoptChainLocked ops now t filtered co = (co1, chain)"
  obtains ti where "coTickers co1 t = Some ti" "tiChain ti = chain" "chTicker chain = chTicker filtered" "chSpot chain = chSpot filtered"
  using assms by (auto simp: adoptChainLocked_def Let_def split: prod.splits)

text \<open>
  Property C21. From the wire to the book: when a discovered chain is answered with a selection,
  the working chain of the ingest, the reply and the book of the application agree -- the reply
  describes the working chain, and the book of the ticker, on the watchlist now if it was not,
  serves exactly the validated rows of that working chain at the spot the event carried.
\<close>

theorem chain_reaches_book:
  assumes "Option.bind (eData env) unmarshal_chain = Some ev" "onChain (service_ops fit now sk) now env co = (co', [out])"
    "oType out = TypeSubSet"
  shows "\<exists>ti h bs. coTickers co' (ceTicker ev) = Some ti \<and> apHandles (coHost co') (ToUpper (ceTicker ev)) = Some h \<and>
    Latest (hdBook h) (ceTicker ev) = Some bs \<and> bsSpot bs = ceSpot ev \<and>
    bsChain bs = (tiChain ti)\<lparr>chContracts := map (accepted_contract (chExchange (tiChain ti))) (chContracts (tiChain ti))\<rparr> \<and>
    oData out = SubSetData (sub_set_of (ceTicker ev) (tiChain ti))"
proof -
  let ?ops = "service_ops fit now sk" and ?t = "ceTicker ev"
  have ne: "TypeError \<noteq> TypeSubSet" by (simp add: TypeError_def TypeSubSet_def)
  obtain iv sel ds filtered co1 chain co2 where
    sel: "SelectedExpiriesByClass (buildSkeleton now ev) now = Inr (sel, ds)" and fil: "FilterChain sel iv now = Inr filtered"
    and ad: "adoptChainLocked ?ops now ?t filtered co = (co1, chain)" and pub: "publishLocked ?ops chain co1 = (co2, True)"
    and co': "co' = on_diag appliedOne co2" and out: "out = mk_out now TypeSubSet (eID env) (SubSetData (sub_set_of ?t chain))"
    using assms ne by (auto simp: onChain_def errorReply_def mk_out_def split: if_splits option.splits sum.splits prod.splits bool.splits)
  have "chTicker (buildSkeleton now ev) = ?t" "chSpot (buildSkeleton now ev) = ceSpot ev" by (simp_all add: buildSkeleton_def)
  then have f: "chTicker filtered = ?t" "chSpot filtered = ceSpot ev"
    using selected_frame [OF sel] filtered_frame [OF fil] by (metis chain_snapshot.select_convs(1,2) chain_snapshot.surjective chain_snapshot.update_convs(4))+
  obtain ti where ti: "coTickers co1 ?t = Some ti" "tiChain ti = chain" "chTicker chain = ?t" "chSpot chain = ceSpot ev"
    using adopt_frame [OF ad] f by metis
  obtain h' where h': "ApplyChain fit now (coHost co1) chain = (h', None)" "co2 = co1\<lparr>coHost := h'\<rparr>"
    using pub by (auto simp: publishLocked_def service_ops_def succeeded_def split: prod.splits option.splits)
      (metis option.exhaust_sel Option.is_none_def prod.collapse)
  obtain h b where h: "apHandles h' (ToUpper ?t) = Some h" "snd (ApplyChainSnapshot b chain) = Inr (hdBook h)"
    using ApplyChain_book [OF h'(1)] ti(3) by metis
  then have "Latest (hdBook h) ?t = Some \<lparr>bsChain = chain\<lparr>chContracts := map (accepted_contract (chExchange chain)) (chContracts chain)\<rparr>,
      bsSpot = chSpot chain, bsSpotAsOfMs = chAsOfMs chain\<rparr>"
    unfolding ApplyChainSnapshot_Inr using ti(3) by (simp add: Latest_def Mapping.lookup_update)
  with h(1) ti h'(2) co' out show ?thesis by (auto simp: on_diag_def mk_out_def)
qed

definition no_sinks :: sinks where
  "no_sinks = \<lparr>skLogs = None, skCons = None, skPoints = None, skPoll = (\<lambda>_. None)\<rparr>"

definition reached :: "service core \<times> outbound list" where
  "reached = onChain (service_ops no_fit 0 no_sinks) 0 demo_env (NewCore demo_service (newDiagnostics 0))"

lemma demo_snap_ok: "chain_ok demo_chain_snap" "chTicker demo_chain_snap = ''SPX''"
proof -
  have "\<not> isl (validateContract (demo_placeholder n r))" if "0 < n" "r = ''C'' \<or> r = ''P''" for n r
    using base_le_0 [of "''SPX''"] that
    by (auto simp: validateContract_def demo_placeholder_def demo_row_def skeleton_row_def RightCall_def RightPut_def
        DefaultMultiplier_def zero_f64_def f64_simps demo_ev_def)
  then have "contract_ok (demo_placeholder 1 ''C'')" "contract_ok (demo_placeholder 2 ''P'')"
    by (simp_all add: contract_ok_def)
  then show "chain_ok demo_chain_snap" "chTicker demo_chain_snap = ''SPX''"
    by (simp_all add: chain_ok_def demo_chain_snap_def buildSkeleton_def demo_ev_def book_demo_sane)
qed

lemma demo_accepts: "\<exists>h. ApplyChain no_fit 0 demo_service demo_chain_snap = (h, None)"
proof -
  have u: "ToUpper ''SPX'' = ''SPX''" by code_simp
  have c: "\<not> is_custom demo_service ''SPY''" by (simp add: is_custom_def demo_fields live_handle_fields)
  let ?s = "promote no_fit ''SPX'' demo_service"
  obtain b where "snd (ApplyChainSnapshot (book_of ?s ''SPX'') demo_chain_snap) = Inr b"
    using ApplyChainSnapshot_Inr demo_snap_ok(1) by blast
  then show ?thesis
    by (simp add: ApplyChain_def Let_def demo_snap_ok u demo_fields c Option.is_none_def)
qed

lemma demo_reached: "\<exists>co' out. reached = (co', [out]) \<and> oType out = TypeSubSet"
proof -
  let ?ops = "service_ops no_fit 0 no_sinks" and ?co = "NewCore demo_service (newDiagnostics 0)"
  obtain h where h: "ApplyChain no_fit 0 demo_service demo_chain_snap = (h, None)" using demo_accepts by blast
  have z: "cConId ((demo_row r)\<lparr>cSDTier := Fin 1\<rparr>) = 0" for r by (simp add: demo_row_def skeleton_row_def)
  have b: "baseline_for ?ops ?co demo_ev = Some (Fin (1 / 4))" by (simp add: baseline_for_def demo_ev_def zero_f64_def)
  have ev: "ceTicker demo_ev = ''SPX''" "ceStrikes demo_ev \<noteq> []" "ceListings demo_ev \<noteq> []" by (simp_all add: demo_ev_def)
  have ad: "adoptChainLocked ?ops 0 ''SPX'' ((buildSkeleton 0 demo_ev)\<lparr>chContracts :=
        [(demo_row ''C'')\<lparr>cSDTier := Fin 1\<rparr>, (demo_row ''P'')\<lparr>cSDTier := Fin 1\<rparr>]\<rparr>) ?co =
      (?co\<lparr>coTickers := [''SPX'' \<mapsto> demo_ti]\<rparr>, demo_chain_snap)"
    by (simp add: adoptChainLocked_def NewCore_def on_diag_def new_ingest_def zero_chain_def carry_row_def
        carried_from_def z Let_def ConIdSlotWidth_def demo_ti_def demo_chain_snap_def demo_placeholder_def)
  have ok: "hoApplyChain ?ops demo_service demo_chain_snap = (h, True)"
    by (simp add: service_ops_def succeeded_def h Option.is_none_def)
  show ?thesis
    unfolding reached_def onChain_def
    by (simp add: demo_env_def demo_decoded ev b demo_selected demo_filtered ad publishLocked_def ok NewCore_host mk_out_def)
qed

theorem chain_reaches_book_witness:
  "\<exists>ti h bs. coTickers (fst reached) ''SPX'' = Some ti \<and> apHandles (coHost (fst reached)) ''SPX'' = Some h \<and>
    Latest (hdBook h) ''SPX'' = Some bs \<and> bsSpot bs = Fin 100"
proof -
  obtain co' out where r: "reached = (co', [out])" "oType out = TypeSubSet" using demo_reached by blast
  have u: "ToUpper ''SPX'' = ''SPX''" by code_simp
  have d: "Option.bind (eData demo_env) unmarshal_chain = Some demo_ev" by (simp add: demo_env_def demo_decoded)
  have "ceTicker demo_ev = ''SPX''" "ceSpot demo_ev = Fin 100" by (simp_all add: demo_ev_def)
  then show ?thesis using chain_reaches_book [OF d r(1) [unfolded reached_def] r(2)] by (auto simp: u r(1))
qed

end
