(* ===== verification/Spec2Isabelle.thy ===== *)
theory Spec2Isabelle
  imports Market_Select Garch Engine Hedge_Props Hub Sweep_Push Csv Service_Seed Store_Tables
    Store_Log Store_Chain Application
begin

text \<open>
  Verification library of the Gritli gamma-exposure suite: its Go core under
  \<^verbatim>\<open>src/core\<close>. All paths below are relative to \<^verbatim>\<open>src/core/internal\<close>.

  The program. An edge process at the broker streams option chains and computations over a line
  protocol; the core decodes them (\<^verbatim>\<open>edge\<close>), keeps one book per underlying (\<^verbatim>\<open>market\<close>), prices every
  contract (\<^verbatim>\<open>solver\<close>, \<^verbatim>\<open>volblend\<close>, \<^verbatim>\<open>garch\<close>), aggregates dollar exposures, walls and the zero-gamma flip on
  two cadences (\<^verbatim>\<open>exposure\<close>, \<^verbatim>\<open>rootfind\<close>), sizes a hedge (\<^verbatim>\<open>hedge\<close>) and serves the state to browsers
  (\<^verbatim>\<open>app\<close>). The operator arms paid sweeps through a roster the server pushes back to the edges.

  Theories and sources, in the order they build on each other:
  \<^item> \<open>Prelude\<close>, \<open>Float64\<close>, \<open>GoTime\<close>, \<open>Eastern\<close>, \<open>Collect\<close>, \<open>Systems\<close>: Go's result pairs and strings, IEEE
    binary64 with its rounding, the calendar and New York time, the loop idioms of the aggregation,
    and reachability. The interfaces \<open>sunday_zone\<close>, \<open>grouping\<close>, \<open>best_scan\<close> and \<open>transition_system\<close> are here.
  \<^item> \<open>Market_Types\<close>, \<open>Conid\<close>, \<open>Numbered_Rows\<close>, \<open>Market_Select\<close>, \<open>Book\<close>, \<open>Csv\<close>, \<open>Synthetic\<close>, \<open>Synthetic_Props\<close>: package
    \<^verbatim>\<open>market\<close>. A book is a mapping from tickers to states behind the interface \<open>market_feed\<close>; the chain
    generators return an option because their strike loop need not end.
  \<^item> \<open>Rootfind\<close>, \<open>Solver\<close>, \<open>Volblend\<close>, \<open>Garch\<close>: the numeric packages, operation by operation in rounded
    arithmetic.
  \<^item> \<open>Exposure\<close>, \<open>Exposure_Book\<close>, \<open>Flip_Demo\<close>, \<open>Exposure_Props\<close>, \<open>Engine\<close>: package \<^verbatim>\<open>exposure\<close>. The accumulators of the
    pricing loop are lists in order of first insertion, and skew points that compare equal keep the order
    of the chain, which the library sort leaves open; \<open>Flip_Demo\<close> is a book with a flip; the engine is a transition system, one step
    per case of its select loop and per event of the feed.
  \<^item> \<open>Wire\<close>, \<open>Diag\<close>, \<open>Ingest\<close>, \<open>Oiquote\<close>, \<open>Vendor_OI\<close>, \<open>Host\<close>, \<open>Ingest_Index\<close>, \<open>Ingest_Props\<close>: packages \<^verbatim>\<open>edge\<close> (the
    protocol, the diagnostics, the ingest core, the vendor refresh) and \<^verbatim>\<open>oiquote\<close>. The application
    behind the core is the record \<open>host_ops\<close> of its operations over a state of any type; \<open>host_relation\<close>
    is the contract of such a host.
  \<^item> \<open>Sweep_Policy\<close>, \<open>Sweep_Server\<close>, \<open>Sweep_Server_Props\<close>, \<open>Sweep_Push\<close>: the sweep policy, the TCP server with
    its journal and roster, and its pushes at the grain of its locks.
  \<^item> \<open>Hedge\<close>, \<open>Hedge_Props\<close>: package \<^verbatim>\<open>hedge\<close>.
  \<^item> \<open>Service\<close>, \<open>Service_Boot\<close>, \<open>Service_Hedge\<close>, \<open>Service_Sim\<close>, \<open>Service_Props\<close>, \<open>Service_Run\<close>, \<open>Service_Hedge_Props\<close>,
    \<open>Service_Seed\<close>, \<open>Hub\<close>: package \<^verbatim>\<open>app\<close>. The service is one record, every operation under its lock one
    function, and the whole a transition system in which construction, engines, publisher,
    operator, ingest, simulator and shutdown interleave. Its flag \<open>tidy\<close> is false for the code itself;
    true keeps the runs in which the free slot is never pointed at a ticker that has a handle. A loop
    whose handle was overwritten is in \<open>apOrphans\<close>.
  \<^item> \<open>Store_Rows\<close>, \<open>Store_Queue\<close>, \<open>Store_Tables\<close>, \<open>Store_Log\<close>, \<open>Store_Chain\<close>: package \<^verbatim>\<open>store\<close>. The write queue is a
    transition system at the grain of its locks, with the drain after a failed batch as one step; a transaction is a function on the tables, rows in
    insertion order, that its SQL statements describe. \<open>Store_Tables\<close> also has \<^verbatim>\<open>gexctl load-closes\<close>, from
    the file through the checks of \<^verbatim>\<open>hedge\<close> and the queue into the table; \<open>Store_Log\<close> the export of the
    master log; \<open>Store_Chain\<close> what a restart reads back.
  \<^item> \<open>Application\<close> and this theory: \<^verbatim>\<open>startEdgeStack\<close> of \<^verbatim>\<open>cmd/gexctl\<close>. The service is interpreted as the
    host of the ingest, the contract is lifted through the server, and the properties of the parts
    hold of the whole.

  What the lemmas show. Invariants by rule induction over the step relations: the index of the
  ingest, the roster, the watchlist with its books and engines, the write queue, the master log,
  the whole application. Refinement: the book against one state machine per ticker. Closed forms of
  loops: the snapshot as folds, the walls as extrema, the flip as a certified sign change, the
  selection as four rules. Round trips of the wire format, of dates, and of a chain through the
  database. Error behaviour on every branch of the handlers that refuse. Termination of the strike loops. Where the code does something else than it says, the property
  states what it does.

  Bounds and fuel. The root finder runs its own bounded number of turns. Loops over days and digits
  recurse on a decreasing measure. The strike loop of the generators is a partial function: it
  returns for spots up to \<open>2 ^ 30\<close> and volatilities up to \<open>2 ^ 10\<close>, and does not for a spot of \<open>2 ^ 63\<close>.
  Integers are unbounded except where the code depends on their width: hashes, the random
  generator, sequence numbers and durations.

  What is an argument. The clock, the random draws of the simulator, the texts of JSON and CSV as
  the values their readers return, the number scanners of the standard library, the objective of
  the root finder, the fits of the GARCH optimiser, what the database refuses, when a
  transaction fails, and, for the application, what it holds or answers.

  Not modelled, because it is input and output, rendering or third-party work: the HTTP interface
  (\<^verbatim>\<open>httpui\<close>), the snapshot and GARCH rows and the column migrations of \<^verbatim>\<open>store\<close>, the optimiser of
  \<^verbatim>\<open>garch/fit\<close>, the edge simulator (\<^verbatim>\<open>edge/sim.go\<close>), flag parsing and printing of \<^verbatim>\<open>cmd/gexctl\<close>, log lines, error texts, sockets and files.
\<close>

section \<open>The whole application\<close>

lemma whole_recompute:
  "whole.reachable fit gen st tidy sk cfg s \<Longrightarrow>
    \<exists>s' v. recomputeHedgeLocked st' now (svHost (server_of s)) = Some (s', v)"
  using recompute_table [of "svHost (server_of s)" st' now] whole_service by (fastforce simp: service_inv_def)

definition launched :: "service edge_sys" where
  "launched = \<lparr>syCore = NewCore (Listen booted None) (newDiagnostics 0), sySess = Map.empty\<rparr>"

lemma launched_reachable: "whole.reachable no_fit seed_demo store_demo tidy sk cfg launched"
proof (rule whole.reachable.start, unfold whole_start_def, intro exI conjI)
  show "service_start no_fit seed_demo store_demo tidy booted"
    unfolding service_start_def
  proof (intro exI conjI)
    show "New no_fit seed_demo store_demo 0 disk_demo config_demo = Inr booted" by (rule New_demo)
    show "tidy \<longrightarrow> ToUpper (ncCustom config_demo) \<notin> tcTicker ` set (base_list config_demo)"
      by (simp add: config_demo_def base_list_def demo_watchlist spy_entry_ticker ToUpper_def)
  qed
qed (rule launched_def)

text \<open>
  Property C2. Whatever the edges send, whatever the vendor documents hold, and however the
  operator, the engine loops, the publisher and the simulator interleave with them: every
  ticker on the watchlist has a book and an engine, every book is well formed, the sweep
  roster is within its cap and in normal form, and the hedge can always be recomputed without
  running out of leg prices. In the runs in which the free slot is never pointed at a ticker
  with a handle (and the configured one is not on the list) the watchlist has moreover no
  repetition and is exactly the set of tickers with a book and an engine; in the others the
  code repeats entries (\<open>custom_clash\<close>).
\<close>

theorem application_safe:
  assumes "whole.reachable fit gen st tidy sk cfg s"
  shows "set (apOrder (svHost (server_of s))) \<subseteq> dom (apHandles (svHost (server_of s))) \<and>
    (\<forall>t h u bs. apHandles (svHost (server_of s)) t = Some h \<and> Latest (hdBook h) u = Some bs \<longrightarrow> wf_state u bs) \<and>
    wf_roster (svRoster (server_of s)) \<and>
    (\<exists>s' v. recomputeHedgeLocked st' now (svHost (server_of s)) = Some (s', v)) \<and>
    (tidy \<longrightarrow> distinct (apOrder (svHost (server_of s))) \<and>
      set (apOrder (svHost (server_of s))) = dom (apHandles (svHost (server_of s))))"
proof -
  have i: "handles_wf (svHost (server_of s))" "watch_ok tidy (svHost (server_of s))"
    using whole_service [OF assms] by (simp_all add: service_inv_def)
  show ?thesis
    using watch_okD(1,5,6) [OF i(2)] i(1) whole_server [OF assms] whole_recompute [OF assms, of st' now]
    by (auto simp: handles_wf_def handle_wf_def book_wf_def server_wf_def)
qed

theorem application_safe_witness:
  "distinct (apOrder (svHost (server_of launched))) \<and> wf_roster (svRoster (server_of launched)) \<and>
    (\<exists>s' v. recomputeHedgeLocked store_demo 0 (svHost (server_of launched)) = Some (s', v))"
  using application_safe [OF launched_reachable [of True no_sinks demo_cfg], of store_demo 0] by simp

end
